(* ===== verification/Prelude.thy ===== *)
theory Prelude
  imports
    Main
    "HOL-Library.FSet"
    "HOL-Library.Finite_Map"
    "HOL-Library.List_Lexorder"
    "HOL-Library.Char_ord"
    "HOL-Library.Word"
begin

text \<open>
  Shared vocabulary of the development.

  \<^item> Rust's \<^verbatim>\<open>u64\<close> and \<^verbatim>\<open>u8\<close> are words; \<^verbatim>\<open>checked_add\<close> is an option-valued sum.
  \<^item> \<^verbatim>\<open>String\<close> is \<open>string\<close>: the list of its UTF-8 bytes. The lexicographic order on
    bytes is Rust's order on \<^verbatim>\<open>str\<close>.
  \<^item> \<^verbatim>\<open>BTreeMap\<close> is \<open>fmap\<close> and \<^verbatim>\<open>BTreeSet\<close> is \<open>fset\<close>: finite and extensional, so that
    equality is Rust's derived \<^verbatim>\<open>PartialEq\<close>. Iteration is in ascending key order:
    \<open>bm_keys\<close>, \<open>bm_values\<close> and \<open>sorted_list_of_fset\<close>.
  \<^item> \<^verbatim>\<open>Result<T, E>\<close> is \<open>'e + 't\<close>, with \<open>Inl\<close> for the error. A loop whose body
    ends in the question-mark operator is \<open>try_fold\<close>.
\<close>

section \<open>Machine integers\<close>

type_synonym u8 = "8 word"
type_synonym u16 = "16 word"
type_synonym u64 = "64 word"

definition u64_max :: u64 where
  "u64_max = 18446744073709551615"

text \<open>\<^verbatim>\<open>checked_add\<close>: the wrapped sum is below an operand exactly when the sum overflows.\<close>

definition checked_add_u64 :: "u64 \<Rightarrow> u64 \<Rightarrow> u64 option" where
  "checked_add_u64 a b = (if a + b < a then None else Some (a + b))"

lemma unat_u64_max: "unat u64_max = 2 ^ 64 - 1"
  by (simp add: u64_max_def)

lemma unat_u64_less: "unat (a :: u64) < 2 ^ 64"
  using unsigned_less [of a] by simp

lemma checked_add_u64_unat:
  "checked_add_u64 a b = (if unat a + unat b < 2 ^ 64 then Some (a + b) else None)"
proof -
  have sum: "unat (a + b) = (unat a + unat b) mod 2 ^ 64"
    by (simp add: unat_word_ariths)
  have "unat a < 2 ^ 64" and "unat b < 2 ^ 64" by (rule unat_u64_less)+
  then have "(unat a + unat b) mod 2 ^ 64 < unat a \<longleftrightarrow> \<not> unat a + unat b < 2 ^ 64"
    by (cases "unat a + unat b < 2 ^ 64") (simp_all add: le_mod_geq)
  then show ?thesis by (simp add: checked_add_u64_def word_less_nat_alt sum)
qed

lemma checked_add_one_None_iff: "checked_add_u64 a 1 = None \<longleftrightarrow> a = u64_max"
proof -
  have "unat a + 1 < 2 ^ 64 \<longleftrightarrow> unat a \<noteq> unat u64_max"
    using unat_u64_less [of a] by (auto simp: unat_u64_max)
  then show ?thesis
    by (simp add: checked_add_u64_unat word_unat_eq_iff)
qed

lemma checked_add_one_Some:
  assumes "checked_add_u64 a 1 = Some b"
  shows "unat b = Suc (unat a)"
proof -
  from assms have "unat a + 1 < 2 ^ 64" and "b = a + 1"
    by (auto simp: checked_add_u64_unat split: if_splits)
  then show ?thesis by (simp add: unat_word_ariths)
qed

lemma checked_add_one_less:
  "checked_add_u64 a 1 = Some b \<Longrightarrow> a < b"
  by (drule checked_add_one_Some) (simp add: word_less_nat_alt)

section \<open>Blank strings\<close>

text \<open>
  \<^verbatim>\<open>value.trim().is_empty()\<close> holds when every character of the string has the Unicode
  property \<^verbatim>\<open>White_Space\<close>. On UTF-8 bytes these are the ASCII codes 9 to 13 and 32, the
  two-byte codes of U+0085 and U+00A0, and the three-byte codes of U+1680, U+2000 to
  U+200A, U+2028, U+2029, U+202F, U+205F and U+3000.
\<close>

definition byte_of :: "char \<Rightarrow> nat" where
  "byte_of c = of_char c"

definition white1 :: "nat \<Rightarrow> bool" where
  "white1 a \<longleftrightarrow> (9 \<le> a \<and> a \<le> 13) \<or> a = 32"

definition white2 :: "nat \<Rightarrow> nat \<Rightarrow> bool" where
  "white2 a b \<longleftrightarrow> a = 0xC2 \<and> (b = 0x85 \<or> b = 0xA0)"

definition white3 :: "nat \<Rightarrow> nat \<Rightarrow> nat \<Rightarrow> bool" where
  "white3 a b c \<longleftrightarrow>
     (a = 0xE1 \<and> b = 0x9A \<and> c = 0x80)
   \<or> (a = 0xE2 \<and> b = 0x80 \<and> ((0x80 \<le> c \<and> c \<le> 0x8A) \<or> c = 0xA8 \<or> c = 0xA9 \<or> c = 0xAF))
   \<or> (a = 0xE2 \<and> b = 0x81 \<and> c = 0x9F)
   \<or> (a = 0xE3 \<and> b = 0x80 \<and> c = 0x80)"

fun trim_is_empty :: "string \<Rightarrow> bool" where
  "trim_is_empty [] = True"
| "trim_is_empty (a # s) =
     (if white1 (byte_of a) then trim_is_empty s
      else (case s of
              [] \<Rightarrow> False
            | b # s' \<Rightarrow>
                if white2 (byte_of a) (byte_of b) then trim_is_empty s'
                else (case s' of
                        [] \<Rightarrow> False
                      | c # s'' \<Rightarrow>
                          white3 (byte_of a) (byte_of b) (byte_of c) \<and> trim_is_empty s'')))"

section \<open>Fallible loops\<close>

text \<open>
  \<open>try_fold f s xs\<close> runs \<open>f\<close> over \<open>xs\<close>, passing the state, and stops at the first
  error, as \<^verbatim>\<open>for x in xs { f(&mut s, x)?; }\<close> does.
\<close>

fun try_fold :: "('s \<Rightarrow> 'a \<Rightarrow> 'e + 's) \<Rightarrow> 's \<Rightarrow> 'a list \<Rightarrow> 'e + 's" where
  "try_fold f s [] = Inr s"
| "try_fold f s (x # xs) = (case f s x of Inl e \<Rightarrow> Inl e | Inr s' \<Rightarrow> try_fold f s' xs)"

lemma try_fold_append:
  "try_fold f s (xs @ ys) =
     (case try_fold f s xs of Inl e \<Rightarrow> Inl e | Inr s' \<Rightarrow> try_fold f s' ys)"
  by (induction xs arbitrary: s) (auto split: sum.splits)

text \<open>An invariant of the body is an invariant of the loop.\<close>

lemma try_fold_invariant:
  assumes step: "\<And>s x s'. P s \<Longrightarrow> x \<in> set xs \<Longrightarrow> f s x = Inr s' \<Longrightarrow> P s'"
    and "P s" and "try_fold f s xs = Inr s'"
  shows "P s'"
  using assms
proof (induction xs arbitrary: s)
  case Nil
  then show ?case by simp
next
  case (Cons x xs)
  from Cons.prems(3) obtain t where t: "f s x = Inr t" and rest: "try_fold f t xs = Inr s'"
    by (auto split: sum.splits)
  have "P t" using Cons.prems(1) [OF Cons.prems(2) _ t] by simp
  with rest show ?case using Cons.IH Cons.prems(1) by (metis list.set_intros(2))
qed

text \<open>An error of the loop is an error of its body in a state that satisfies the invariant.\<close>

lemma try_fold_error:
  assumes step: "\<And>s x s'. P s \<Longrightarrow> x \<in> set xs \<Longrightarrow> f s x = Inr s' \<Longrightarrow> P s'"
    and "P s" and "try_fold f s xs = Inl e"
  shows "\<exists>s x. P s \<and> x \<in> set xs \<and> f s x = Inl e"
  using assms
proof (induction xs arbitrary: s)
  case Nil
  then show ?case by simp
next
  case (Cons x xs)
  show ?case
  proof (cases "f s x")
    case (Inl e')
    with Cons.prems show ?thesis by auto
  next
    case (Inr t)
    have "P t" using Cons.prems(1) [OF Cons.prems(2) _ Inr] by simp
    moreover from Inr Cons.prems(3) have "try_fold f t xs = Inl e" by simp
    ultimately show ?thesis using Cons.IH Cons.prems(1) by (metis list.set_intros(2))
  qed
qed

lemma try_fold_cong [fundef_cong]:
  assumes "s = t" and "xs = ys" and "\<And>u x. x \<in> set ys \<Longrightarrow> f u x = g u x"
  shows "try_fold f s xs = try_fold g t ys"
  using assms(3) unfolding assms(1,2)
  by (induction ys arbitrary: t) (auto split: sum.splits)

section \<open>Positions in lists\<close>

text \<open>\<^verbatim>\<open>iter().position(p)\<close>: the index of the first element that satisfies the predicate.\<close>

fun position :: "('a \<Rightarrow> bool) \<Rightarrow> 'a list \<Rightarrow> nat option" where
  "position p [] = None"
| "position p (x # xs) = (if p x then Some 0 else map_option Suc (position p xs))"

lemma position_None_iff: "position p xs = None \<longleftrightarrow> (\<forall>x\<in>set xs. \<not> p x)"
  by (induction xs) auto

lemma position_Some_drop: "position p xs = Some i \<Longrightarrow> drop i xs = dropWhile (\<lambda>x. \<not> p x) xs"
  by (induction xs arbitrary: i) (auto split: if_splits)

lemma position_Some_less: "position p xs = Some i \<Longrightarrow> i < length xs \<and> p (xs ! i)"
  by (induction xs arbitrary: i) (auto split: if_splits)

lemma find_None_all: "find p xs = None \<longleftrightarrow> (\<forall>x\<in>set xs. \<not> p x)"
  by (auto simp: find_None_iff)

lemma find_Some_mem: "find p xs = Some x \<Longrightarrow> x \<in> set xs \<and> p x"
  by (auto simp: find_Some_iff)

lemma find_Some_least:
  "find p xs = Some x \<Longrightarrow> sorted xs \<Longrightarrow> x \<in> set xs \<and> p x \<and> (\<forall>y\<in>set xs. y < x \<longrightarrow> \<not> p y)"
  by (induction xs) (auto split: if_splits)

section \<open>Ordered maps and sets\<close>

definition bm_keys :: "('k :: linorder, 'v) fmap \<Rightarrow> 'k list" where
  "bm_keys m = sorted_list_of_fset (fmdom m)"

definition bm_values :: "('k :: linorder, 'v) fmap \<Rightarrow> 'v list" where
  "bm_values m = map (\<lambda>k. the (fmlookup m k)) (bm_keys m)"

text \<open>\<^verbatim>\<open>for (key, value) in &map\<close>.\<close>

definition bm_items :: "('k :: linorder, 'v) fmap \<Rightarrow> ('k \<times> 'v) list" where
  "bm_items m = map (\<lambda>k. (k, the (fmlookup m k))) (bm_keys m)"

definition contains_key :: "('k, 'v) fmap \<Rightarrow> 'k \<Rightarrow> bool" where
  "contains_key m k \<longleftrightarrow> fmlookup m k \<noteq> None"

lemma set_bm_keys [simp]: "set (bm_keys m) = fmdom' m"
  by (simp add: bm_keys_def fmdom'_alt_def)

lemma sorted_bm_keys [simp]: "sorted (bm_keys m)"
  by (simp add: bm_keys_def sorted_list_of_fset.rep_eq)

lemma distinct_bm_keys [simp]: "distinct (bm_keys m)"
  by (simp add: bm_keys_def sorted_list_of_fset.rep_eq)

lemma mem_bm_keys_iff: "k \<in> set (bm_keys m) \<longleftrightarrow> (\<exists>v. fmlookup m k = Some v)"
  by (auto simp: fmlookup_dom'_iff)

lemma bm_keys_empty [simp]: "bm_keys fmempty = []"
  by (simp add: bm_keys_def sorted_list_of_fset.rep_eq)

lemma set_bm_values: "set (bm_values m) = {v. \<exists>k. fmlookup m k = Some v}"
  by (force simp: bm_values_def fmlookup_dom'_iff image_iff)

lemma set_bm_items: "set (bm_items m) = {(k, v). fmlookup m k = Some v}"
  by (force simp: bm_items_def fmlookup_dom'_iff image_iff)

lemma contains_key_iff: "contains_key m k \<longleftrightarrow> (\<exists>v. fmlookup m k = Some v)"
  by (simp add: contains_key_def)

lemma contains_key_None: "\<not> contains_key m k \<longleftrightarrow> fmlookup m k = None"
  by (simp add: contains_key_def)

lemma contains_key_empty [simp]: "\<not> contains_key fmempty k"
  by (simp add: contains_key_def)

lemma contains_key_upd [simp]:
  "contains_key (fmupd k v m) k' \<longleftrightarrow> k' = k \<or> contains_key m k'"
  by (auto simp: contains_key_def)

lemma sorted_distinct_list_eq:
  "sorted xs \<Longrightarrow> sorted ys \<Longrightarrow> distinct xs \<Longrightarrow> distinct ys \<Longrightarrow> set xs = set ys \<Longrightarrow> xs = ys"
  for xs ys :: "'a :: linorder list"
  by (simp add: sorted_distinct_set_unique)

section \<open>Collections of facts\<close>

text \<open>
  \<open>op_defs\<close> gathers the defining equations of the operations of a component, so that a
  proof about all of its branches unfolds them with one name.
\<close>

named_theorems op_defs "defining equations of the modelled operations"

end
