(* ===== verification/Kernel_Core.thy ===== *)
theory Kernel_Core
  imports Prelude
begin

text \<open>
  The neutral primitives of the crate \<^verbatim>\<open>kernis_core\<close>: textual identifiers and the
  monotonic revision counter. \<open>checked_counter\<close> is the contract that every 64-bit
  counter of the kernel keeps: topology revisions here, stream sequences, capability
  generations and store revisions in their own theories.
\<close>

section \<open>Identifiers\<close>

datatype Id = Id (as_str: string)

datatype InvalidId = InvalidId

definition Id_new :: "string \<Rightarrow> InvalidId + Id" where
  "Id_new value = (if trim_is_empty value then Inl InvalidId else Inr (Id value))"

text \<open>The derived order of \<^verbatim>\<open>Id\<close> is the order of the underlying strings.\<close>

instantiation Id :: linorder
begin

definition less_eq_Id :: "Id \<Rightarrow> Id \<Rightarrow> bool" where
  "less_eq_Id a b \<longleftrightarrow> as_str a \<le> as_str b"

definition less_Id :: "Id \<Rightarrow> Id \<Rightarrow> bool" where
  "less_Id a b \<longleftrightarrow> as_str a < as_str b"

instance
  by standard (auto simp: less_eq_Id_def less_Id_def Id.expand)

end

text \<open>Values of the Rust type are the ones its constructor returns: non-blank strings.\<close>

definition valid_id :: "Id \<Rightarrow> bool" where
  "valid_id i \<longleftrightarrow> \<not> trim_is_empty (as_str i)"

lemma Id_new_Inr_iff: "Id_new s = Inr i \<longleftrightarrow> i = Id s \<and> valid_id i"
  by (auto simp: Id_new_def valid_id_def)

text \<open>
  \<^verbatim>\<open>Deserialize for Id\<close> reads a string and passes it through the constructor, so a blank
  identifier is refused at the serialization boundary as well.
\<close>

definition Id_deserialize :: "string \<Rightarrow> InvalidId + Id" where
  "Id_deserialize value = Id_new value"

section \<open>Checked counters\<close>

text \<open>
  \<open>iterate_next step n c\<close> advances the counter \<open>c\<close> by \<open>n\<close> checked steps.
\<close>

fun iterate_next :: "('c \<Rightarrow> 'c option) \<Rightarrow> nat \<Rightarrow> 'c \<Rightarrow> 'c option" where
  "iterate_next step 0 c = Some c"
| "iterate_next step (Suc n) c =
     (case step c of None \<Rightarrow> None | Some d \<Rightarrow> iterate_next step n d)"

locale checked_counter =
  fixes value_of :: "'c \<Rightarrow> u64"
    and step :: "'c \<Rightarrow> 'c option"
  assumes step_Some: "step c = Some d \<Longrightarrow> unat (value_of d) = Suc (unat (value_of c))"
    and step_None: "step c = None \<longleftrightarrow> value_of c = u64_max"
    and value_inj: "value_of c = value_of d \<Longrightarrow> c = d"
begin

lemma step_increases: "step c = Some d \<Longrightarrow> value_of c < value_of d"
  by (drule step_Some) (simp add: word_less_nat_alt)

lemma step_not_same: "step c \<noteq> Some c"
  using step_increases [of c c] by auto

lemma step_inj:
  assumes "step c = Some d" and "step c' = Some d"
  shows "c = c'"
  using step_Some [OF assms(1)] step_Some [OF assms(2)] value_inj [of c c']
  by (simp add: word_unat_eq_iff)

lemma iterate_value:
  "iterate_next step n c = Some d \<Longrightarrow> unat (value_of d) = unat (value_of c) + n"
  by (induction n arbitrary: c) (auto dest: step_Some split: option.splits)

lemma iterate_defined:
  "(\<exists>d. iterate_next step n c = Some d) \<longleftrightarrow> unat (value_of c) + n < 2 ^ 64"
proof (induction n arbitrary: c)
  case 0
  then show ?case using unat_u64_less [of "value_of c"] by simp
next
  case (Suc n)
  show ?case
  proof (cases "step c")
    case None
    then have "unat (value_of c) = 2 ^ 64 - 1"
      using step_None by (simp add: unat_u64_max)
    with None show ?thesis by simp
  next
    case (Some d)
    then show ?thesis using Suc.IH [of d] step_Some [OF Some] by simp
  qed
qed

lemma iterate_distinct:
  assumes "iterate_next step m c = Some d" and "iterate_next step n c = Some d"
  shows "m = n"
  using iterate_value [OF assms(1)] iterate_value [OF assms(2)] by simp

end

section \<open>Revisions\<close>

datatype Revision = Revision (revision_get: u64)

definition Revision_ZERO :: Revision where
  "Revision_ZERO = Revision 0"

definition Revision_MAX :: Revision where
  "Revision_MAX = Revision u64_max"

definition Revision_checked_next :: "Revision \<Rightarrow> Revision option" where
  "Revision_checked_next r =
     (case checked_add_u64 (revision_get r) 1 of
        Some n \<Rightarrow> Some (Revision n)
      | None \<Rightarrow> None)"

text \<open>\<^verbatim>\<open>Revision::next\<close> unwraps the checked step; \<open>None\<close> is its panic.\<close>

definition Revision_next :: "Revision \<Rightarrow> Revision option" where
  "Revision_next r = Revision_checked_next r"

text \<open>
  Every counter of the kernel is a 64-bit value under a constructor whose step is the
  checked successor. This lemma gives the contract for all of them.
\<close>

lemma checked_counter_newtype:
  assumes "\<And>c. mk (get c) = c" and "\<And>n. get (mk n) = n"
  shows "checked_counter get
           (\<lambda>c. case checked_add_u64 (get c) 1 of Some n \<Rightarrow> Some (mk n) | None \<Rightarrow> None)"
proof (unfold_locales, goal_cases)
  case (1 c d)
  then show ?case
    using assms by (auto dest: checked_add_one_Some split: option.splits)
next
  case (2 c)
  then show ?case
    using checked_add_one_None_iff [of "get c"] by (auto split: option.splits)
next
  case (3 c d)
  then show ?case using assms(1) by metis
qed

interpretation revision: checked_counter revision_get Revision_checked_next
  using checked_counter_newtype [of Revision revision_get]
  by (simp add: Revision_checked_next_def [abs_def])

lemma Revision_MAX_exhausted: "Revision_checked_next r = None \<longleftrightarrow> r = Revision_MAX"
  by (cases r) (simp add: revision.step_None Revision_MAX_def)

end
