(* ===== verification/Dependency_Dfs.thy ===== *)
theory Dependency_Dfs
  imports Prelude
begin

text \<open>
  The library behind the three depth-first walks of the program (workflow cycle
  detection, capability resolution, loader cycle detection). Each walk keeps a set of
  finished nodes and the path of active nodes. \<open>dfs_inv\<close> is the invariant of these two,
  the locale \<open>dependency_graph\<close> holds its push, pop and back-edge lemmas and the measure
  lemmas of the termination proofs. A component interprets it on its own successor
  function.
\<close>

section \<open>Graphs given by successor lists\<close>

definition edges_of :: "('a \<Rightarrow> 'a list) \<Rightarrow> ('a \<times> 'a) set" where
  "edges_of succ = {(x, y). y \<in> set (succ x)}"

text \<open>A simple closed path \<open>x, \<dots>, x\<close> along edges; only the end point is repeated.\<close>

definition closed_path :: "('a \<Rightarrow> 'a list) \<Rightarrow> 'a list \<Rightarrow> bool" where
  "closed_path succ p \<longleftrightarrow>
     2 \<le> length p \<and> hd p = last p \<and> distinct (tl p) \<and>
     successively (\<lambda>x y. y \<in> set (succ x)) p"

definition dfs_inv :: "('a \<Rightarrow> 'a list) \<Rightarrow> 'a set \<Rightarrow> 'a list \<Rightarrow> bool" where
  "dfs_inv succ finished path \<longleftrightarrow>
     distinct path \<and> set path \<inter> finished = {} \<and>
     successively (\<lambda>x y. y \<in> set (succ x)) path \<and>
     (\<forall>x\<in>finished. set (succ x) \<subseteq> finished) \<and>
     (\<forall>x\<in>finished. (x, x) \<notin> (edges_of succ)\<^sup>+)"

definition support :: "('a \<Rightarrow> 'a list) \<Rightarrow> 'a set" where
  "support succ = {x. succ x \<noteq> []}"

lemma edges_of_iff [simp]: "(x, y) \<in> edges_of succ \<longleftrightarrow> y \<in> set (succ x)"
  by (simp add: edges_of_def)

lemma successively_trancl:
  assumes "successively (\<lambda>x y. (x, y) \<in> r) p" and "2 \<le> length p"
  shows "(hd p, last p) \<in> r\<^sup>+"
  using assms
proof (induction p rule: induct_list012)
  case (3 x y zs)
  show ?case
  proof (cases zs)
    case Nil
    with 3 show ?thesis by auto
  next
    case (Cons z zs')
    with 3 have "(y, last (y # zs)) \<in> r\<^sup>+" and "(x, y) \<in> r" by auto
    then show ?thesis using Cons by (auto intro: trancl_into_trancl2)
  qed
qed auto

lemma closed_path_not_acyclic:
  assumes "closed_path succ p"
  shows "\<not> acyclic (edges_of succ)"
proof -
  from assms have "(hd p, last p) \<in> (edges_of succ)\<^sup>+" and "hd p = last p"
    using successively_trancl [of "edges_of succ" p]
    by (auto simp: closed_path_def edges_of_def)
  then show ?thesis by (auto simp: acyclic_def)
qed

lemma successively_dropWhile:
  "successively P xs \<Longrightarrow> successively P (dropWhile Q xs)"
  by (induction xs) (auto simp: successively_Cons)

lemma dropWhile_neq_hd: "y \<in> set xs \<Longrightarrow> \<exists>zs. dropWhile (\<lambda>x. x \<noteq> y) xs = y # zs"
  by (induction xs) auto

lemma last_dropWhile_neq: "y \<in> set xs \<Longrightarrow> last (dropWhile (\<lambda>x. x \<noteq> y) xs) = last xs"
  by (induction xs) auto

lemma closed_set_no_exit:
  assumes "\<forall>x\<in>C. set (succ x) \<subseteq> C" and "(x, y) \<in> (edges_of succ)\<^sup>*" and "x \<in> C"
  shows "y \<in> C"
  using assms(2,3) by (induction rule: rtrancl_induct) (use assms(1) in auto)

section \<open>The invariant of a walk\<close>

lemma dfs_inv_start: "dfs_inv succ {} []"
  by (simp add: dfs_inv_def)

lemma dfs_inv_push:
  assumes "dfs_inv succ finished path" and "x \<notin> finished" and "x \<notin> set path"
    and "path \<noteq> [] \<Longrightarrow> x \<in> set (succ (last path))"
  shows "dfs_inv succ finished (path @ [x])"
  using assms by (auto simp: dfs_inv_def successively_append_iff)

text \<open>
  A node whose successors are all finished is finished. It cannot lie on a cycle: a cycle
  through it would leave and re-enter the finished set.
\<close>

lemma dfs_inv_pop:
  assumes inv: "dfs_inv succ finished (path @ [x])" and "set (succ x) \<subseteq> finished"
  shows "dfs_inv succ (insert x finished) path"
proof -
  from inv have closed: "\<forall>y\<in>finished. set (succ y) \<subseteq> finished" and "x \<notin> finished"
    by (auto simp: dfs_inv_def)
  have "(x, x) \<notin> (edges_of succ)\<^sup>+"
  proof
    assume "(x, x) \<in> (edges_of succ)\<^sup>+"
    then obtain y where "y \<in> set (succ x)" and "(y, x) \<in> (edges_of succ)\<^sup>*"
      by (auto dest: tranclD)
    with closed assms(2) have "x \<in> finished"
      using closed_set_no_exit [of finished succ y x] by auto
    with \<open>x \<notin> finished\<close> show False ..
  qed
  with inv assms(2) show ?thesis
    by (auto simp: dfs_inv_def successively_append_iff)
qed

text \<open>An edge back into the active path closes a simple cycle.\<close>

lemma dfs_inv_back_edge:
  assumes inv: "dfs_inv succ finished path" and "y \<in> set path"
    and "y \<in> set (succ (last path))"
  shows "closed_path succ (dropWhile (\<lambda>x. x \<noteq> y) path @ [y])"
proof -
  let ?d = "dropWhile (\<lambda>x. x \<noteq> y) path"
  obtain zs where zs: "?d = y # zs" using dropWhile_neq_hd [OF assms(2)] by blast
  have dist: "distinct ?d" and walk: "successively (\<lambda>x y. y \<in> set (succ x)) ?d"
    using inv by (auto simp: dfs_inv_def distinct_dropWhile successively_dropWhile)
  have "last ?d = last path" using assms(2) by (rule last_dropWhile_neq)
  with walk assms(3) have "successively (\<lambda>x y. y \<in> set (succ x)) (?d @ [y])"
    by (simp only: successively_append_iff) simp
  with dist zs show ?thesis by (simp add: closed_path_def)
qed

lemma dfs_inv_finished_acyclic:
  assumes "dfs_inv succ finished path" and "x \<in> finished"
  shows "(x, x) \<notin> (edges_of succ)\<^sup>+"
  using assms by (simp add: dfs_inv_def)

text \<open>When every node with successors is finished, the whole graph is acyclic.\<close>

lemma dfs_inv_all_acyclic:
  assumes "dfs_inv succ finished path" and "support succ \<subseteq> finished"
  shows "acyclic (edges_of succ)"
  unfolding acyclic_def
proof (intro allI notI)
  fix x
  assume cyc: "(x, x) \<in> (edges_of succ)\<^sup>+"
  then obtain y where "y \<in> set (succ x)" by (auto dest: tranclD)
  then have "x \<in> support succ" by (auto simp: support_def)
  with assms cyc show False by (auto simp: dfs_inv_def)
qed

section \<open>Finite graphs and the measure of a walk\<close>

locale dependency_graph =
  fixes succ :: "'a \<Rightarrow> 'a list"
  assumes finite_support: "finite (support succ)"
begin

lemma unvisited_mono:
  "V \<subseteq> W \<Longrightarrow> card (support succ - W) \<le> card (support succ - V)"
  using finite_support by (intro card_mono) auto

lemma unvisited_insert_less:
  assumes "x \<in> support succ" and "x \<notin> V"
  shows "card (support succ - insert x V) < card (support succ - V)"
  using finite_support assms by (intro psubset_card_mono) auto

lemma finite_edges: "finite (edges_of succ)"
proof -
  have "edges_of succ = (SIGMA x : support succ. set (succ x))"
    by (auto simp: edges_of_def support_def)
  then show ?thesis using finite_support by simp
qed

text \<open>In an acyclic graph every non-empty set has a member without successors in the set.\<close>

lemma acyclic_minimal:
  assumes "acyclic (edges_of succ)" and "x \<in> S"
  obtains m where "m \<in> S" and "set (succ m) \<inter> S = {}"
proof -
  have "wf ((edges_of succ)\<inverse>)"
    using finite_edges assms(1) by (rule finite_acyclic_wf_converse)
  then obtain m where "m \<in> S" and "\<And>y. (y, m) \<in> (edges_of succ)\<inverse> \<Longrightarrow> y \<notin> S"
    using assms(2) by (rule wfE_min) blast
  then show ?thesis using that by auto
qed

lemma no_successors: "x \<notin> support succ \<Longrightarrow> succ x = []"
  by (simp add: support_def)

end

end
