(* ===== verification/Workflow_Graph.thy ===== *)
theory Workflow_Graph
  imports Kernel_Core Dependency_Dfs
begin

text \<open>
  The crate \<^verbatim>\<open>workflow-graph\<close>: the versioned task topology, the execution facts kept beside
  it, atomic mutation batches and replay. This theory holds the data and the operations;
  \<^verbatim>\<open>Workflow_Cycles\<close> proves the cycle detection correct and \<^verbatim>\<open>Workflow_Invariants\<close> the
  invariant, atomicity, progress and replay.

  A method on \<^verbatim>\<open>&mut self\<close> takes the state and returns the new state with its result, also
  when it fails. The one panic of the crate (an active dependency missing from the DFS
  stack) is the value \<open>WorkflowPanic\<close> of the error type.
\<close>

section \<open>Topology\<close>

record Task =
  t_id :: Id
  t_label :: string

record WorkflowTopology =
  wt_tasks :: "(Id, Task) fmap"
  wt_dependencies :: "(Id, Id fset) fmap"

definition topology_task :: "WorkflowTopology \<Rightarrow> Id \<Rightarrow> Task option" where
  "topology_task t i = fmlookup (wt_tasks t) i"

definition topology_tasks :: "WorkflowTopology \<Rightarrow> Task list" where
  "topology_tasks t = bm_values (wt_tasks t)"

definition topology_task_ids :: "WorkflowTopology \<Rightarrow> Id list" where
  "topology_task_ids t = bm_keys (wt_tasks t)"

definition topology_dependencies :: "WorkflowTopology \<Rightarrow> Id \<Rightarrow> Id list" where
  "topology_dependencies t i =
     (case fmlookup (wt_dependencies t) i of
        None \<Rightarrow> []
      | Some ds \<Rightarrow> sorted_list_of_fset ds)"

definition topology_edges :: "WorkflowTopology \<Rightarrow> (Id \<times> Id) list" where
  "topology_edges t =
     concat (map (\<lambda>i. map (\<lambda>d. (i, d)) (topology_dependencies t i))
                 (bm_keys (wt_dependencies t)))"

definition contains_task :: "WorkflowTopology \<Rightarrow> Id \<Rightarrow> bool" where
  "contains_task t i \<longleftrightarrow> contains_key (wt_tasks t) i"

subsection \<open>Depth-first cycle detection\<close>

datatype VisitState = Active | Complete

datatype visit_stop = CycleFound "Id list" | VisitPanic

type_synonym visit_state = "(Id, VisitState) fmap \<times> Id list"

text \<open>The branch of \<^verbatim>\<open>visit\<close> that meets an active dependency.\<close>

definition close_cycle :: "Id list \<Rightarrow> Id \<Rightarrow> visit_stop" where
  "close_cycle stack dependency =
     (case position (\<lambda>candidate. candidate = dependency) stack of
        None \<Rightarrow> VisitPanic
      | Some start \<Rightarrow> CycleFound (drop start stack @ [dependency]))"

lemma topology_dependencies_support:
  "support (topology_dependencies t) \<subseteq> fmdom' (wt_dependencies t)"
  by (auto simp: support_def topology_dependencies_def fmlookup_dom'_iff split: option.splits)

interpretation topology: dependency_graph "topology_dependencies t" for t
  by unfold_locales (rule finite_subset [OF topology_dependencies_support], simp)

text \<open>
  \<open>visit\<close> marks a task, walks its dependencies with \<open>visit_dependencies\<close> (the
  \<^verbatim>\<open>for\<close> loop of the source) and unmarks it. \<open>Inl\<close> is the early return with a path.
\<close>

function (sequential) visit ::
    "WorkflowTopology \<Rightarrow> Id \<Rightarrow> (Id, VisitState) fmap \<Rightarrow> Id list \<Rightarrow> visit_stop + visit_state"
  and visit_dependencies ::
    "WorkflowTopology \<Rightarrow> Id \<Rightarrow> Id list \<Rightarrow> (Id, VisitState) fmap \<Rightarrow> Id list
      \<Rightarrow> visit_stop + visit_state"
where
  "visit t i marks stack =
     visit_dependencies t i (topology_dependencies t i) (fmupd i Active marks) (stack @ [i])"
| "visit_dependencies t i [] marks stack = Inr (fmupd i Complete marks, butlast stack)"
| "visit_dependencies t i (d # ds) marks stack =
     (case fmlookup marks d of
        None \<Rightarrow>
          (case visit t d marks stack of
             Inl stop \<Rightarrow> Inl stop
           | Inr (marks', stack') \<Rightarrow> visit_dependencies t i ds marks' stack')
      | Some Active \<Rightarrow> Inl (close_cycle stack d)
      | Some Complete \<Rightarrow> visit_dependencies t i ds marks stack)"
  by pat_completeness auto

lemma visit_marks_mono:
  "visit_visit_dependencies_dom (Inl (t, i, marks, stack)) \<Longrightarrow>
     visit t i marks stack = Inr (marks', stack') \<Longrightarrow> fmdom' marks \<subseteq> fmdom' marks'"
  "visit_visit_dependencies_dom (Inr (t, i, ds, marks, stack)) \<Longrightarrow>
     visit_dependencies t i ds marks stack = Inr (marks', stack') \<Longrightarrow>
     fmdom' marks \<subseteq> fmdom' marks'"
  by (induction arbitrary: marks' stack' and marks' stack'
        rule: visit_visit_dependencies.pinduct)
     (fastforce simp: visit.psimps visit_dependencies.psimps
        split: option.splits VisitState.splits sum.splits prod.splits)+

text \<open>
  The walk ends: a nested visit marks a task with dependencies that was unmarked, and
  every other call shortens the list of dependencies.
\<close>

fun visit_measure ::
    "WorkflowTopology \<times> Id \<times> (Id, VisitState) fmap \<times> Id list +
     WorkflowTopology \<times> Id \<times> Id list \<times> (Id, VisitState) fmap \<times> Id list \<Rightarrow> nat \<times> nat" where
  "visit_measure (Inl (t, i, marks, stack)) =
     (card (support (topology_dependencies t) - insert i (fmdom' marks)),
      2 * length (topology_dependencies t i) + 1)"
| "visit_measure (Inr (t, i, ds, marks, stack)) =
     (card (support (topology_dependencies t) - fmdom' marks), 2 * length ds)"

lemma visit_measure_nested:
  assumes "fmlookup marks d = None"
  shows "(visit_measure (Inl (t, d, marks, stack)), visit_measure (Inr (t, i, d # ds, marks, stack)))
           \<in> less_than <*lex*> less_than"
proof (cases "d \<in> support (topology_dependencies t)")
  case True
  with assms show ?thesis
    using topology.unvisited_insert_less [of d t "fmdom' marks"]
    by (auto simp: fmlookup_dom'_iff)
next
  case False
  then show ?thesis by (simp add: topology.no_successors)
qed

lemma visit_measure_shrink:
  assumes "fmdom' marks \<subseteq> fmdom' marks'"
  shows "(visit_measure (Inr (t, i, ds, marks', stack')),
           visit_measure (Inr (t, i, d # ds, marks, stack))) \<in> less_than <*lex*> less_than"
  using topology.unvisited_mono [OF assms, of t] by (auto simp: le_less)

termination visit
proof (relation "inv_image (less_than <*lex*> less_than) visit_measure", goal_cases)
  case 1
  then show ?case by auto
next
  case (2 t i marks stack)
  then show ?case by simp
next
  case (3 t i d ds marks stack)
  then show ?case unfolding in_inv_image by (rule visit_measure_nested)
next
  case (4 t i d ds marks stack b x y)
  then have "fmdom' marks \<subseteq> fmdom' x" using visit_marks_mono(1) [of t d marks stack x y] by simp
  then have "(visit_measure (Inr (t, i, ds, x, y)), visit_measure (Inr (t, i, d # ds, marks, stack)))
      \<in> less_than <*lex*> less_than"
    by (rule visit_measure_shrink)
  with 4(3) show ?case by (simp only: in_inv_image)
next
  case (5 t i d ds marks stack)
  show ?case unfolding in_inv_image by (rule visit_measure_shrink) simp
qed

text \<open>
  \<open>cycle_path\<close> starts a walk from every unmarked task in identifier order.
  \<open>None\<close> is Rust's \<^verbatim>\<open>None\<close>; \<open>Some\<close> holds the path or the panic.
\<close>

definition cycle_path_step ::
    "WorkflowTopology \<Rightarrow> visit_state \<Rightarrow> Id \<Rightarrow> visit_stop + visit_state" where
  "cycle_path_step t st i =
     (if contains_key (fst st) i then Inr st else visit t i (fst st) (snd st))"

definition cycle_path :: "WorkflowTopology \<Rightarrow> visit_stop option" where
  "cycle_path t =
     (case try_fold (cycle_path_step t) (fmempty, []) (bm_keys (wt_tasks t)) of
        Inl stop \<Rightarrow> Some stop
      | Inr _ \<Rightarrow> None)"

section \<open>Execution facts\<close>

record CompletionRecord =
  cr_task_id :: Id

record ExecutionFacts =
  ef_completed :: "Id fset"
  ef_completion_log :: "CompletionRecord list"

definition facts_completed_tasks :: "ExecutionFacts \<Rightarrow> Id list" where
  "facts_completed_tasks f = sorted_list_of_fset (ef_completed f)"

definition facts_is_completed :: "ExecutionFacts \<Rightarrow> Id \<Rightarrow> bool" where
  "facts_is_completed f i \<longleftrightarrow> i |\<in>| ef_completed f"

section \<open>Mutations and batches\<close>

datatype WorkflowMutation =
    AddTask Task
  | AddDependency Id Id  \<comment> \<open>task, dependency\<close>

record MutationBatch =
  mb_mutations :: "WorkflowMutation list"

definition MutationBatch_new :: MutationBatch where
  "MutationBatch_new = \<lparr>mb_mutations = []\<rparr>"

definition MutationBatch_from_mutations :: "WorkflowMutation list \<Rightarrow> MutationBatch" where
  "MutationBatch_from_mutations ms = \<lparr>mb_mutations = ms\<rparr>"

definition MutationBatch_push :: "MutationBatch \<Rightarrow> WorkflowMutation \<Rightarrow> MutationBatch" where
  "MutationBatch_push b m = b\<lparr>mb_mutations := mb_mutations b @ [m]\<rparr>"

definition MutationBatch_len :: "MutationBatch \<Rightarrow> nat" where
  "MutationBatch_len b = length (mb_mutations b)"

definition MutationBatch_is_empty :: "MutationBatch \<Rightarrow> bool" where
  "MutationBatch_is_empty b \<longleftrightarrow> mb_mutations b = []"

definition MutationBatch_as_slice :: "MutationBatch \<Rightarrow> WorkflowMutation list" where
  "MutationBatch_as_slice b = mb_mutations b"

record WorkflowMutationRecord =
  mr_base_revision :: Revision
  mr_resulting_revision :: Revision
  mr_mutations :: "WorkflowMutation list"

datatype WorkflowGraphError =
    UnknownTask Id
  | DuplicateTask Id
  | DuplicateDependency Id Id
  | Cycle "Id list"
  | CompletedTaskMutation Id
  | TaskAlreadyCompleted Id
  | IncompletePrerequisite Id Id
  | RevisionConflict Revision Revision
  | EmptyMutationBatch
  | RevisionExhausted Revision
  | ReplayRevisionMismatch Revision Revision
  | WorkflowPanic  \<comment> \<open>not a value of the source: the DFS panic, unwinding the caller\<close>

section \<open>The workflow graph\<close>

record WorkflowGraph =
  wg_topology :: WorkflowTopology
  wg_facts :: ExecutionFacts
  wg_topology_revision :: Revision
  wg_mutation_log :: "WorkflowMutationRecord list"

definition WorkflowGraph_default :: WorkflowGraph where
  "WorkflowGraph_default =
     \<lparr>wg_topology = \<lparr>wt_tasks = fmempty, wt_dependencies = fmempty\<rparr>,
      wg_facts = \<lparr>ef_completed = {||}, ef_completion_log = []\<rparr>,
      wg_topology_revision = Revision_ZERO,
      wg_mutation_log = []\<rparr>"

definition graph_task :: "WorkflowGraph \<Rightarrow> Id \<Rightarrow> Task option" where
  "graph_task g i = topology_task (wg_topology g) i"

definition graph_dependencies :: "WorkflowGraph \<Rightarrow> Id \<Rightarrow> Id list" where
  "graph_dependencies g i = topology_dependencies (wg_topology g) i"

definition graph_edges :: "WorkflowGraph \<Rightarrow> (Id \<times> Id) list" where
  "graph_edges g = topology_edges (wg_topology g)"

definition graph_is_completed :: "WorkflowGraph \<Rightarrow> Id \<Rightarrow> bool" where
  "graph_is_completed g i \<longleftrightarrow> facts_is_completed (wg_facts g) i"

definition graph_completed_tasks :: "WorkflowGraph \<Rightarrow> Id list" where
  "graph_completed_tasks g = facts_completed_tasks (wg_facts g)"

text \<open>
  \<^verbatim>\<open>complete\<close>: the loop over the prerequisites returns at the first incomplete one, in
  identifier order.
\<close>

definition complete :: "WorkflowGraph \<Rightarrow> Id \<Rightarrow>
    WorkflowGraph \<times> (WorkflowGraphError + CompletionRecord)" where
  "complete g task =
     (if \<not> contains_task (wg_topology g) task then (g, Inl (UnknownTask task))
      else if facts_is_completed (wg_facts g) task then (g, Inl (TaskAlreadyCompleted task))
      else
        (case find (\<lambda>d. \<not> facts_is_completed (wg_facts g) d)
                (topology_dependencies (wg_topology g) task) of
           Some dependency \<Rightarrow> (g, Inl (IncompletePrerequisite task dependency))
         | None \<Rightarrow>
             let completion = \<lparr>cr_task_id = task\<rparr>;
                 facts = wg_facts g
             in (g\<lparr>wg_facts := facts\<lparr>ef_completed := finsert task (ef_completed facts),
                                    ef_completion_log := ef_completion_log facts @ [completion]\<rparr>\<rparr>,
                 Inr completion)))"

definition ready_tasks :: "WorkflowGraph \<Rightarrow> Id list" where
  "ready_tasks g =
     filter (\<lambda>i. case fmlookup (wt_dependencies (wg_topology g)) i of
                   None \<Rightarrow> True
                 | Some ds \<Rightarrow> list_all (facts_is_completed (wg_facts g)) (sorted_list_of_fset ds))
       (filter (\<lambda>i. \<not> facts_is_completed (wg_facts g) i) (bm_keys (wt_tasks (wg_topology g))))"

text \<open>
  \<^verbatim>\<open>apply_mutation\<close>. The edge is inserted first and the cycle check runs on the changed
  topology; when it fails, the edge is removed again, and the entry with it when it is
  left empty.
\<close>

definition dependencies_entry :: "WorkflowTopology \<Rightarrow> Id \<Rightarrow> Id fset" where
  "dependencies_entry t task =
     (case fmlookup (wt_dependencies t) task of None \<Rightarrow> {||} | Some ds \<Rightarrow> ds)"

definition insert_dependency :: "WorkflowTopology \<Rightarrow> Id \<Rightarrow> Id \<Rightarrow> WorkflowTopology" where
  "insert_dependency t task dependency =
     t\<lparr>wt_dependencies :=
         fmupd task (finsert dependency (dependencies_entry t task)) (wt_dependencies t)\<rparr>"

definition remove_dependency :: "WorkflowTopology \<Rightarrow> Id \<Rightarrow> Id \<Rightarrow> WorkflowTopology" where
  "remove_dependency t task dependency =
     (let ds = dependencies_entry t task |-| {|dependency|}
      in if ds = {||}
         then t\<lparr>wt_dependencies := fmdrop task (wt_dependencies t)\<rparr>
         else t\<lparr>wt_dependencies := fmupd task ds (wt_dependencies t)\<rparr>)"

definition add_dependency :: "WorkflowGraph \<Rightarrow> Id \<Rightarrow> Id \<Rightarrow>
    WorkflowGraph \<times> (WorkflowGraphError + unit)" where
  "add_dependency g task dependency =
     (let inserted = insert_dependency (wg_topology g) task dependency
      in if dependency |\<in>| dependencies_entry (wg_topology g) task then
           (g\<lparr>wg_topology := inserted\<rparr>, Inl (DuplicateDependency task dependency))
         else
           (case cycle_path inserted of
              Some (CycleFound path) \<Rightarrow>
                (g\<lparr>wg_topology := remove_dependency inserted task dependency\<rparr>, Inl (Cycle path))
            | Some VisitPanic \<Rightarrow> (g\<lparr>wg_topology := inserted\<rparr>, Inl WorkflowPanic)
            | None \<Rightarrow> (g\<lparr>wg_topology := inserted\<rparr>, Inr ())))"

fun apply_mutation :: "WorkflowGraph \<Rightarrow> WorkflowMutation \<Rightarrow>
    WorkflowGraph \<times> (WorkflowGraphError + unit)" where
  "apply_mutation g (AddTask task) =
     (if contains_task (wg_topology g) (t_id task) then (g, Inl (DuplicateTask (t_id task)))
      else
        let topology = wg_topology g
        in (g\<lparr>wg_topology := topology\<lparr>wt_tasks := fmupd (t_id task) task (wt_tasks topology)\<rparr>\<rparr>,
            Inr ()))"
| "apply_mutation g (AddDependency task dependency) =
     (if \<not> contains_task (wg_topology g) task then (g, Inl (UnknownTask task))
      else if \<not> contains_task (wg_topology g) dependency then (g, Inl (UnknownTask dependency))
      else if facts_is_completed (wg_facts g) task then (g, Inl (CompletedTaskMutation task))
      else add_dependency g task dependency)"

text \<open>The loop of \<^verbatim>\<open>apply_batch\<close> over the clone; an error drops the clone.\<close>

definition apply_mutation_step ::
    "WorkflowGraph \<Rightarrow> WorkflowMutation \<Rightarrow> WorkflowGraphError + WorkflowGraph" where
  "apply_mutation_step candidate mutation =
     (case apply_mutation candidate mutation of
        (_, Inl e) \<Rightarrow> Inl e
      | (candidate', Inr _) \<Rightarrow> Inr candidate')"

definition apply_batch :: "WorkflowGraph \<Rightarrow> Revision \<Rightarrow> MutationBatch \<Rightarrow>
    WorkflowGraph \<times> (WorkflowGraphError + WorkflowMutationRecord)" where
  "apply_batch g expected_revision batch =
     (if expected_revision \<noteq> wg_topology_revision g then
        (g, Inl (RevisionConflict expected_revision (wg_topology_revision g)))
      else if MutationBatch_is_empty batch then (g, Inl EmptyMutationBatch)
      else
        (case Revision_checked_next (wg_topology_revision g) of
           None \<Rightarrow> (g, Inl (RevisionExhausted (wg_topology_revision g)))
         | Some resulting_revision \<Rightarrow>
             (case try_fold apply_mutation_step g (MutationBatch_as_slice batch) of
                Inl e \<Rightarrow> (g, Inl e)
              | Inr candidate \<Rightarrow>
                  (case cycle_path (wg_topology candidate) of
                     Some (CycleFound path) \<Rightarrow> (g, Inl (Cycle path))
                   | Some VisitPanic \<Rightarrow> (g, Inl WorkflowPanic)
                   | None \<Rightarrow>
                       let entry = \<lparr>mr_base_revision = wg_topology_revision g,
                                    mr_resulting_revision = resulting_revision,
                                    mr_mutations = MutationBatch_as_slice batch\<rparr>
                       in (candidate\<lparr>wg_topology_revision := resulting_revision,
                                     wg_mutation_log := wg_mutation_log candidate @ [entry]\<rparr>,
                           Inr entry)))))"

section \<open>Replay\<close>

definition replay_record_step ::
    "WorkflowGraph \<Rightarrow> WorkflowMutationRecord \<Rightarrow> WorkflowGraphError + WorkflowGraph" where
  "replay_record_step g entry =
     (if mr_base_revision entry \<noteq> wg_topology_revision g then
        Inl (RevisionConflict (mr_base_revision entry) (wg_topology_revision g))
      else
        (case Revision_checked_next (wg_topology_revision g) of
           None \<Rightarrow> Inl (RevisionExhausted (wg_topology_revision g))
         | Some expected_result \<Rightarrow>
             if mr_resulting_revision entry \<noteq> expected_result then
               Inl (ReplayRevisionMismatch expected_result (mr_resulting_revision entry))
             else
               (case apply_batch g (mr_base_revision entry)
                       (MutationBatch_from_mutations (mr_mutations entry)) of
                  (_, Inl e) \<Rightarrow> Inl e
                | (g', Inr _) \<Rightarrow> Inr g')))"

definition replay_from ::
    "WorkflowGraph \<Rightarrow> WorkflowMutationRecord list \<Rightarrow> WorkflowGraphError + WorkflowGraph" where
  "replay_from g entries = try_fold replay_record_step g entries"

definition replay :: "WorkflowMutationRecord list \<Rightarrow> WorkflowGraphError + WorkflowGraph" where
  "replay entries = replay_from WorkflowGraph_default entries"

definition complete_step ::
    "WorkflowGraph \<Rightarrow> CompletionRecord \<Rightarrow> WorkflowGraphError + WorkflowGraph" where
  "complete_step g completion =
     (case complete g (cr_task_id completion) of
        (_, Inl e) \<Rightarrow> Inl e
      | (g', Inr _) \<Rightarrow> Inr g')"

definition replay_with_facts ::
    "WorkflowMutationRecord list \<Rightarrow> CompletionRecord list \<Rightarrow> WorkflowGraphError + WorkflowGraph"
where
  "replay_with_facts entries completions =
     (case replay entries of
        Inl e \<Rightarrow> Inl e
      | Inr g \<Rightarrow> try_fold complete_step g completions)"

end
