(* ===== verification/Workflow_Cycles.thy ===== *)
theory Workflow_Cycles
  imports Workflow_Graph
begin

text \<open>
  Correctness of the workflow's cycle detection: \<^verbatim>\<open>cycle_path\<close> never panics, a reported
  path is a simple closed path of the dependency relation, and no path is reported exactly
  when the relation is acyclic.
\<close>

definition finished_marks :: "(Id, VisitState) fmap \<Rightarrow> Id set" where
  "finished_marks marks = {x. fmlookup marks x = Some Complete}"

definition active_marks :: "(Id, VisitState) fmap \<Rightarrow> Id set" where
  "active_marks marks = {x. fmlookup marks x = Some Active}"

definition visit_inv :: "WorkflowTopology \<Rightarrow> (Id, VisitState) fmap \<Rightarrow> Id list \<Rightarrow> bool" where
  "visit_inv t marks stack \<longleftrightarrow>
     active_marks marks = set stack \<and>
     dfs_inv (topology_dependencies t) (finished_marks marks) stack"

text \<open>What a walk that starts at \<open>i\<close> above the stack \<open>stack\<close> promises.\<close>

definition visit_post :: "WorkflowTopology \<Rightarrow> Id \<Rightarrow> (Id, VisitState) fmap \<Rightarrow> Id list \<Rightarrow>
    visit_stop + visit_state \<Rightarrow> bool" where
  "visit_post t i marks stack res \<longleftrightarrow>
     (case res of
        Inl stop \<Rightarrow> \<exists>p. stop = CycleFound p \<and> closed_path (topology_dependencies t) p
      | Inr (marks', stack') \<Rightarrow>
          stack' = stack \<and> visit_inv t marks' stack \<and>
          finished_marks marks \<subseteq> finished_marks marks' \<and> i \<in> finished_marks marks')"

lemma marks_upd [simp]:
  "finished_marks (fmupd i Active marks) = finished_marks marks - {i}"
  "finished_marks (fmupd i Complete marks) = insert i (finished_marks marks)"
  "active_marks (fmupd i Active marks) = insert i (active_marks marks)"
  "active_marks (fmupd i Complete marks) = active_marks marks - {i}"
  by (auto simp: finished_marks_def active_marks_def)

lemma marks_None:
  "fmlookup marks i = None \<longleftrightarrow> i \<notin> finished_marks marks \<and> i \<notin> active_marks marks"
  by (auto simp: finished_marks_def active_marks_def) (metis VisitState.exhaust option.exhaust)

lemma visit_inv_push:
  assumes "visit_inv t marks stack" and "fmlookup marks i = None"
    and "stack \<noteq> [] \<Longrightarrow> i \<in> set (topology_dependencies t (last stack))"
  shows "visit_inv t (fmupd i Active marks) (stack @ [i])"
proof -
  from assms(1,2) have "i \<notin> finished_marks marks" and "i \<notin> set stack"
    by (auto simp: visit_inv_def marks_None)
  then have "dfs_inv (topology_dependencies t) (finished_marks marks) (stack @ [i])"
    using assms by (auto simp: visit_inv_def intro: dfs_inv_push)
  with \<open>i \<notin> finished_marks marks\<close> assms(1) show ?thesis by (simp add: visit_inv_def)
qed

lemma visit_inv_pop:
  assumes "visit_inv t marks (stack @ [i])"
    and "set (topology_dependencies t i) \<subseteq> finished_marks marks"
  shows "visit_inv t (fmupd i Complete marks) stack"
  using assms dfs_inv_pop [of "topology_dependencies t" "finished_marks marks" stack i]
  by (auto simp: visit_inv_def dfs_inv_def)

lemma close_cycle_closed_path:
  assumes "visit_inv t marks (stack @ [i])" and "fmlookup marks d = Some Active"
    and "d \<in> set (topology_dependencies t i)"
  shows "\<exists>p. close_cycle (stack @ [i]) d = CycleFound p \<and> closed_path (topology_dependencies t) p"
proof -
  from assms(1,2) have mem: "d \<in> set (stack @ [i])"
    by (auto simp: visit_inv_def active_marks_def)
  then obtain k where k: "position (\<lambda>c. c = d) (stack @ [i]) = Some k"
    using position_None_iff [of "\<lambda>c. c = d" "stack @ [i]"] by fastforce
  have "closed_path (topology_dependencies t) (dropWhile (\<lambda>x. x \<noteq> d) (stack @ [i]) @ [d])"
    using assms mem by (intro dfs_inv_back_edge) (auto simp: visit_inv_def)
  then show ?thesis using k position_Some_drop [OF k] by (simp add: close_cycle_def)
qed

lemma visit_correct:
  "visit_inv t marks stack \<Longrightarrow> fmlookup marks i = None \<Longrightarrow>
     (stack \<noteq> [] \<Longrightarrow> i \<in> set (topology_dependencies t (last stack))) \<Longrightarrow>
     visit_post t i marks stack (visit t i marks stack)"
  "visit_inv t marks (base @ [i]) \<Longrightarrow> stack = base @ [i] \<Longrightarrow>
     set ds \<subseteq> set (topology_dependencies t i) \<Longrightarrow>
     set (topology_dependencies t i) \<subseteq> set ds \<union> finished_marks marks \<Longrightarrow>
     visit_post t i marks base (visit_dependencies t i ds marks stack)"
proof (induction t i marks stack and t i ds marks stack arbitrary: and base
    rule: visit_visit_dependencies.induct)
  case (1 t i marks stack)
  have "visit_inv t (fmupd i Active marks) (stack @ [i])"
    using 1(2-4) by (rule visit_inv_push)
  then have "visit_post t i (fmupd i Active marks) stack (visit t i marks stack)"
    using 1(1) [of stack] by simp
  moreover have "finished_marks (fmupd i Active marks) = finished_marks marks"
    using 1(3) by (simp add: marks_None)
  ultimately show ?case by (simp only: visit_post_def)
next
  case (2 t i marks stack)
  then show ?case using visit_inv_pop [of t marks base i] by (auto simp: visit_post_def)
next
  case (3 t i d ds marks stack)
  then have d: "d \<in> set (topology_dependencies t i)" by simp
  show ?case
  proof (cases "fmlookup marks d")
    case None
    then have post: "visit_post t d marks stack (visit t d marks stack)"
      using 3 d by simp
    show ?thesis
    proof (cases "visit t d marks stack")
      case (Inl stop)
      with post None show ?thesis by (simp add: visit_post_def)
    next
      case (Inr st)
      obtain marks' stack' where st: "st = (marks', stack')" by (cases st)
      with Inr post have "stack' = stack" and "visit_inv t marks' stack"
        and sub: "finished_marks marks \<subseteq> finished_marks marks'" and "d \<in> finished_marks marks'"
        by (auto simp: visit_post_def)
      moreover from calculation have "set (topology_dependencies t i) \<subseteq> set ds \<union> finished_marks marks'"
        using 3(7) by auto
      ultimately have "visit_post t i marks' base (visit_dependencies t i ds marks' stack')"
        using 3 None Inr st by simp
      with None Inr st sub show ?thesis by (auto simp: visit_post_def split: sum.splits)
    qed
  next
    case (Some m)
    show ?thesis
    proof (cases m)
      case Active
      with Some 3 d show ?thesis
        using close_cycle_closed_path [of t marks base i d] by (auto simp: visit_post_def)
    next
      case Complete
      with Some have "d \<in> finished_marks marks" by (simp add: finished_marks_def)
      with Some Complete 3 show ?thesis by auto
    qed
  qed
qed

section \<open>The whole walk\<close>

lemma cycle_path_step_correct:
  assumes "visit_inv t marks []" and "contains_key (wt_tasks t) i"
  shows "visit_post t i marks [] (cycle_path_step t (marks, []) i)"
proof (cases "fmlookup marks i")
  case None
  then show ?thesis
    using assms(1) visit_correct(1) [of t marks "[]" i]
    by (simp add: cycle_path_step_def contains_key_def)
next
  case (Some m)
  with assms(1) have "m = Complete"
    by (cases m) (auto simp: visit_inv_def active_marks_def)
  with Some assms(1) show ?thesis
    by (simp add: cycle_path_step_def visit_post_def contains_key_def finished_marks_def)
qed

lemma cycle_path_fold_correct:
  assumes "visit_inv t marks []" and "\<forall>i\<in>set is. contains_key (wt_tasks t) i"
  shows "case try_fold (cycle_path_step t) (marks, []) is of
           Inl stop \<Rightarrow> \<exists>p. stop = CycleFound p \<and> closed_path (topology_dependencies t) p
         | Inr (marks', stack') \<Rightarrow> visit_inv t marks' [] \<and>
             finished_marks marks \<union> set is \<subseteq> finished_marks marks'"
  using assms
proof (induction "is" arbitrary: marks)
  case Nil
  then show ?case by simp
next
  case (Cons i "is")
  then have post: "visit_post t i marks [] (cycle_path_step t (marks, []) i)"
    using cycle_path_step_correct by simp
  show ?case
  proof (cases "cycle_path_step t (marks, []) i")
    case (Inl stop)
    with post show ?thesis by (simp add: visit_post_def)
  next
    case (Inr st)
    with post obtain marks' where "st = (marks', [])" and "visit_inv t marks' []"
      and "finished_marks marks \<subseteq> finished_marks marks'" and "i \<in> finished_marks marks'"
      by (auto simp: visit_post_def)
    with Inr Cons.IH [of marks'] Cons.prems(2) show ?thesis
      by (fastforce split: sum.splits prod.splits)
  qed
qed

text \<open>A topology whose edges start at tasks, as every topology of the crate does.\<close>

definition edges_from_tasks :: "WorkflowTopology \<Rightarrow> bool" where
  "edges_from_tasks t \<longleftrightarrow> fmdom' (wt_dependencies t) \<subseteq> fmdom' (wt_tasks t)"

lemma cycle_path_found:
  assumes "cycle_path t = Some stop"
  shows "\<exists>p. stop = CycleFound p \<and> closed_path (topology_dependencies t) p"
proof -
  have "visit_inv t fmempty []"
    by (simp add: visit_inv_def active_marks_def finished_marks_def dfs_inv_def)
  then show ?thesis
    using cycle_path_fold_correct [of t fmempty "bm_keys (wt_tasks t)"] assms
    by (auto simp: cycle_path_def contains_key_def fmlookup_dom'_iff split: sum.splits)
qed

lemma cycle_path_None_acyclic:
  assumes "cycle_path t = None" and "edges_from_tasks t"
  shows "acyclic (edges_of (topology_dependencies t))"
proof -
  have "visit_inv t fmempty []"
    by (simp add: visit_inv_def active_marks_def finished_marks_def dfs_inv_def)
  then obtain marks where inv: "visit_inv t marks []"
    and fin: "set (bm_keys (wt_tasks t)) \<subseteq> finished_marks marks"
    using cycle_path_fold_correct [of t fmempty "bm_keys (wt_tasks t)"] assms(1)
    by (auto simp: cycle_path_def contains_key_def fmlookup_dom'_iff split: sum.splits)
  have "support (topology_dependencies t) \<subseteq> finished_marks marks"
    using topology_dependencies_support [of t] assms(2) fin
    by (auto simp: edges_from_tasks_def)
  with inv show ?thesis
    by (auto simp: visit_inv_def intro: dfs_inv_all_acyclic)
qed

lemma cycle_path_None_iff:
  assumes "edges_from_tasks t"
  shows "cycle_path t = None \<longleftrightarrow> acyclic (edges_of (topology_dependencies t))"
  using assms cycle_path_None_acyclic cycle_path_found closed_path_not_acyclic
  by (metis not_Some_eq)

lemma cycle_path_not_panic: "cycle_path t \<noteq> Some VisitPanic"
  using cycle_path_found by fastforce

end
