(* ===== verification/Workflow_Invariants.thy ===== *)
theory Workflow_Invariants
  imports Workflow_Cycles
begin

text \<open>
  The invariant of the workflow graph and what it gives: every operation preserves it,
  a failed operation changes nothing, the set of ready tasks is exactly what \<^verbatim>\<open>complete\<close>
  accepts and is empty only when the workflow is finished, completed tasks keep their
  prerequisites, and replaying the two logs rebuilds the graph.
\<close>

section \<open>The invariant\<close>

definition wf_topology :: "WorkflowTopology \<Rightarrow> bool" where
  "wf_topology t \<longleftrightarrow>
     (\<forall>i task. fmlookup (wt_tasks t) i = Some task \<longrightarrow> t_id task = i) \<and>
     (\<forall>i ds. fmlookup (wt_dependencies t) i = Some ds \<longrightarrow>
        ds \<noteq> {||} \<and> contains_task t i \<and> (\<forall>d. d |\<in>| ds \<longrightarrow> contains_task t d)) \<and>
     acyclic (edges_of (topology_dependencies t))"

text \<open>Each completed task was known and had its prerequisites completed before it.\<close>

fun ordered_completions :: "WorkflowTopology \<Rightarrow> Id set \<Rightarrow> Id list \<Rightarrow> bool" where
  "ordered_completions t done [] = True"
| "ordered_completions t done (i # is) =
     (contains_task t i \<and> i \<notin> done \<and> set (topology_dependencies t i) \<subseteq> done \<and>
      ordered_completions t (insert i done) is)"

definition completion_ids :: "ExecutionFacts \<Rightarrow> Id list" where
  "completion_ids f = map cr_task_id (ef_completion_log f)"

definition wf_facts :: "WorkflowTopology \<Rightarrow> ExecutionFacts \<Rightarrow> bool" where
  "wf_facts t f \<longleftrightarrow>
     fset (ef_completed f) = set (completion_ids f) \<and> ordered_completions t {} (completion_ids f)"

definition wf_graph :: "WorkflowGraph \<Rightarrow> bool" where
  "wf_graph g \<longleftrightarrow>
     wf_topology (wg_topology g) \<and> wf_facts (wg_topology g) (wg_facts g) \<and>
     unat (revision_get (wg_topology_revision g)) = length (wg_mutation_log g)"

lemma wf_topology_edges_from_tasks: "wf_topology t \<Longrightarrow> edges_from_tasks t"
  by (auto simp: wf_topology_def edges_from_tasks_def contains_task_def contains_key_def
      fmlookup_dom'_iff)

lemma set_topology_dependencies:
  "set (topology_dependencies t i) =
     (case fmlookup (wt_dependencies t) i of None \<Rightarrow> {} | Some ds \<Rightarrow> fset ds)"
  by (simp add: topology_dependencies_def split: option.splits)

lemma wf_topology_dependency_known:
  "wf_topology t \<Longrightarrow> d \<in> set (topology_dependencies t i) \<Longrightarrow> contains_task t i \<and> contains_task t d"
  by (auto simp: wf_topology_def set_topology_dependencies split: option.splits)

lemma ordered_completions_append:
  "ordered_completions t done (xs @ ys) \<longleftrightarrow>
     ordered_completions t done xs \<and> ordered_completions t (done \<union> set xs) ys"
  by (induction xs arbitrary: "done") auto

lemma ordered_completions_closed:
  "ordered_completions t done xs \<Longrightarrow> i \<in> set xs \<Longrightarrow>
     set (topology_dependencies t i) \<subseteq> done \<union> set xs \<and> contains_task t i"
  by (induction xs arbitrary: "done") fastforce+

text \<open>Completions stay ordered when the topology grows away from the completed tasks.\<close>

lemma ordered_completions_mono:
  assumes "ordered_completions t done xs"
    and "\<And>i. contains_task t i \<Longrightarrow> contains_task t' i"
    and "\<And>i. i \<in> set xs \<Longrightarrow> topology_dependencies t' i = topology_dependencies t i"
  shows "ordered_completions t' done xs"
  using assms by (induction xs arbitrary: "done") auto

lemma wf_facts_is_completed:
  "wf_facts t f \<Longrightarrow> facts_is_completed f i \<longleftrightarrow> i \<in> set (completion_ids f)"
  by (simp add: wf_facts_def facts_is_completed_def)

lemma wf_graph_default: "wf_graph WorkflowGraph_default"
  by (simp add: wf_graph_def wf_topology_def wf_facts_def completion_ids_def
      WorkflowGraph_default_def Revision_ZERO_def acyclic_def edges_of_def
      topology_dependencies_def)

section \<open>Single mutations\<close>

lemma dependencies_entry_iff:
  "d |\<in>| dependencies_entry t i \<longleftrightarrow> d \<in> set (topology_dependencies t i)"
  by (simp add: dependencies_entry_def set_topology_dependencies split: option.splits)

lemma insert_dependency_fields [simp]:
  "wt_tasks (insert_dependency t i d) = wt_tasks t"
  "contains_task (insert_dependency t i d) = contains_task t"
  by (auto simp: insert_dependency_def contains_task_def)

lemma topology_dependencies_insert_other:
  "j \<noteq> i \<Longrightarrow> topology_dependencies (insert_dependency t i d) j = topology_dependencies t j"
  by (simp add: topology_dependencies_def insert_dependency_def)

lemma insert_dependency_present:
  assumes "d |\<in>| dependencies_entry t i"
  shows "insert_dependency t i d = t"
proof -
  have "fmupd i (finsert d (dependencies_entry t i)) (wt_dependencies t) = wt_dependencies t"
    using assms by (intro fmap_ext) (auto simp: dependencies_entry_def split: option.splits)
  then show ?thesis by (simp add: insert_dependency_def)
qed

text \<open>The rollback of a rejected edge restores the topology, the map entry included.\<close>

lemma remove_insert_dependency:
  assumes "wf_topology t" and "d |\<notin>| dependencies_entry t i"
  shows "remove_dependency (insert_dependency t i d) i d = t"
proof -
  have entry: "dependencies_entry (insert_dependency t i d) i |-| {|d|} = dependencies_entry t i"
    using assms(2) by (auto simp: dependencies_entry_def insert_dependency_def)
  show ?thesis
  proof (cases "fmlookup (wt_dependencies t) i")
    case None
    then have "fmdrop i (fmupd i x (wt_dependencies t)) = wt_dependencies t" for x
      by (intro fmap_ext) auto
    with None entry show ?thesis
      by (simp add: remove_dependency_def Let_def dependencies_entry_def)
         (simp add: insert_dependency_def)
  next
    case (Some ds)
    then have "ds \<noteq> {||}" using assms(1) by (auto simp: wf_topology_def)
    moreover have "fmupd i ds (fmupd i x (wt_dependencies t)) = wt_dependencies t" for x
      using Some by (intro fmap_ext) auto
    ultimately show ?thesis
      using Some entry by (simp add: remove_dependency_def Let_def dependencies_entry_def)
        (simp add: insert_dependency_def)
  qed
qed

lemma apply_mutation_error_unchanged:
  assumes "wf_topology (wg_topology g)" and "apply_mutation g m = (g', Inl e)"
  shows "g' = g \<and> e \<noteq> WorkflowPanic"
proof (cases m)
  case (AddTask task)
  with assms(2) show ?thesis by (auto simp: Let_def split: if_splits)
next
  case (AddDependency task dep)
  with assms show ?thesis
    using cycle_path_not_panic remove_insert_dependency [OF assms(1), of dep task]
    by (auto simp: add_dependency_def Let_def insert_dependency_present
        split: if_splits option.splits visit_stop.splits)
qed

text \<open>A successful mutation, in one statement for both constructors.\<close>

definition added_to :: "WorkflowTopology \<Rightarrow> WorkflowMutation \<Rightarrow> WorkflowTopology" where
  "added_to t m =
     (case m of
        AddTask task \<Rightarrow> t\<lparr>wt_tasks := fmupd (t_id task) task (wt_tasks t)\<rparr>
      | AddDependency task dep \<Rightarrow> insert_dependency t task dep)"

lemma apply_mutation_success_iff:
  "apply_mutation g m = (g', Inr ()) \<longleftrightarrow>
     g' = g\<lparr>wg_topology := added_to (wg_topology g) m\<rparr> \<and>
     (case m of
        AddTask task \<Rightarrow> \<not> contains_task (wg_topology g) (t_id task)
      | AddDependency task dep \<Rightarrow>
          contains_task (wg_topology g) task \<and> contains_task (wg_topology g) dep \<and>
          \<not> facts_is_completed (wg_facts g) task \<and>
          dep |\<notin>| dependencies_entry (wg_topology g) task \<and>
          cycle_path (insert_dependency (wg_topology g) task dep) = None)"
  by (cases m) (auto simp: added_to_def add_dependency_def Let_def
      split: if_splits option.splits visit_stop.splits)

lemma topology_dependencies_add_task [simp]:
  "topology_dependencies (t\<lparr>wt_tasks := ts\<rparr>) = topology_dependencies t"
  by (simp add: topology_dependencies_def fun_eq_iff)

lemma wf_topology_insert_dependency:
  assumes "wf_topology t" and "contains_task t i" and "contains_task t d"
    and "cycle_path (insert_dependency t i d) = None"
  shows "wf_topology (insert_dependency t i d)"
proof -
  have from_tasks: "edges_from_tasks (insert_dependency t i d)"
    using wf_topology_edges_from_tasks [OF assms(1)] assms(2)
    by (auto simp: edges_from_tasks_def insert_dependency_def contains_task_def contains_key_def
        fmlookup_dom'_iff)
  have "acyclic (edges_of (topology_dependencies (insert_dependency t i d)))"
    using assms(4) from_tasks by (rule cycle_path_None_acyclic)
  moreover have "ds \<noteq> {||} \<and> contains_task t j \<and> (\<forall>e. e |\<in>| ds \<longrightarrow> contains_task t e)"
    if "fmlookup (wt_dependencies (insert_dependency t i d)) j = Some ds" for j ds
    using that assms(1-3)
    by (auto simp: insert_dependency_def dependencies_entry_def wf_topology_def
        split: if_splits option.splits)
  ultimately show ?thesis using assms(1) by (auto simp: wf_topology_def)
qed

lemma wf_topology_add_task:
  assumes "wf_topology t" and "\<not> contains_task t (t_id task)"
  shows "wf_topology (t\<lparr>wt_tasks := fmupd (t_id task) task (wt_tasks t)\<rparr>)"
  using assms by (auto simp: wf_topology_def contains_task_def)

text \<open>
  The part of the invariant a batch keeps while it runs on the clone: the topology and the
  facts, with the facts, the revision and the log untouched.
\<close>

definition batch_inv :: "WorkflowGraph \<Rightarrow> WorkflowGraph \<Rightarrow> bool" where
  "batch_inv g0 g \<longleftrightarrow>
     wf_topology (wg_topology g) \<and> wf_facts (wg_topology g) (wg_facts g) \<and>
     wg_facts g = wg_facts g0 \<and> wg_topology_revision g = wg_topology_revision g0 \<and>
     wg_mutation_log g = wg_mutation_log g0 \<and>
     (\<forall>i. facts_is_completed (wg_facts g0) i \<longrightarrow>
        topology_dependencies (wg_topology g) i = topology_dependencies (wg_topology g0) i)"

lemma apply_mutation_step_Inr:
  "apply_mutation_step g m = Inr g' \<longleftrightarrow> apply_mutation g m = (g', Inr ())"
  by (auto simp: apply_mutation_step_def split: prod.splits sum.splits)

lemma apply_mutation_keeps_facts:
  assumes "wf_facts (wg_topology g) (wg_facts g)" and "apply_mutation g m = (g', Inr ())"
  shows "wf_facts (wg_topology g') (wg_facts g)"
    and "facts_is_completed (wg_facts g) i \<Longrightarrow>
           topology_dependencies (wg_topology g') i = topology_dependencies (wg_topology g) i"
proof -
  have same: "topology_dependencies (wg_topology g') i = topology_dependencies (wg_topology g) i"
    if "facts_is_completed (wg_facts g) i" for i
    using that assms(2)
    by (auto simp: apply_mutation_success_iff added_to_def split: WorkflowMutation.splits
        intro: topology_dependencies_insert_other)
  then show "facts_is_completed (wg_facts g) i \<Longrightarrow>
      topology_dependencies (wg_topology g') i = topology_dependencies (wg_topology g) i" .
  have "contains_task (wg_topology g) i \<Longrightarrow> contains_task (wg_topology g') i" for i
    using assms(2) by (auto simp: apply_mutation_success_iff added_to_def contains_task_def
        insert_dependency_def split: WorkflowMutation.splits)
  with same assms(1) show "wf_facts (wg_topology g') (wg_facts g)"
    using ordered_completions_mono [of "wg_topology g" "{}"]
    by (auto simp: wf_facts_def facts_is_completed_def)
qed

lemma batch_inv_step:
  assumes "batch_inv g0 g" and "apply_mutation_step g m = Inr g'"
  shows "batch_inv g0 g'"
proof -
  have ok: "apply_mutation g m = (g', Inr ())" using assms(2) by (simp add: apply_mutation_step_Inr)
  then have "wf_topology (wg_topology g')"
    using assms(1) wf_topology_insert_dependency wf_topology_add_task
    by (auto simp: apply_mutation_success_iff added_to_def batch_inv_def
        split: WorkflowMutation.splits)
  moreover have "wg_facts g' = wg_facts g \<and> wg_topology_revision g' = wg_topology_revision g \<and>
      wg_mutation_log g' = wg_mutation_log g"
    using ok by (auto simp: apply_mutation_success_iff)
  ultimately show ?thesis
    using assms(1) apply_mutation_keeps_facts [OF _ ok] by (auto simp: batch_inv_def)
qed

lemma batch_inv_refl: "wf_graph g \<Longrightarrow> batch_inv g g"
  by (simp add: batch_inv_def wf_graph_def)

lemma batch_inv_fold:
  "wf_graph g \<Longrightarrow> try_fold apply_mutation_step g ms = Inr g' \<Longrightarrow> batch_inv g g'"
  using try_fold_invariant [where P = "batch_inv g", of ms apply_mutation_step g g']
  by (auto intro: batch_inv_step batch_inv_refl)

section \<open>Batches\<close>

lemma apply_batch_Inr:
  assumes "apply_batch g r b = (g', Inr entry)"
  obtains rev candidate where
    "r = wg_topology_revision g" "mb_mutations b \<noteq> []"
    "Revision_checked_next (wg_topology_revision g) = Some rev"
    "try_fold apply_mutation_step g (mb_mutations b) = Inr candidate"
    "cycle_path (wg_topology candidate) = None"
    "entry = \<lparr>mr_base_revision = wg_topology_revision g, mr_resulting_revision = rev,
              mr_mutations = mb_mutations b\<rparr>"
    "g' = candidate\<lparr>wg_topology_revision := rev,
                    wg_mutation_log := wg_mutation_log candidate @ [entry]\<rparr>"
  using assms by (auto simp: apply_batch_def MutationBatch_is_empty_def MutationBatch_as_slice_def
      Let_def split: if_splits option.splits sum.splits visit_stop.splits)

lemma apply_batch_error_unchanged:
  "apply_batch g r b = (g', Inl e) \<Longrightarrow> g' = g"
  by (auto simp: apply_batch_def Let_def
      split: if_splits option.splits sum.splits visit_stop.splits)

lemma apply_batch_no_panic:
  assumes "wf_graph g"
  shows "snd (apply_batch g r b) \<noteq> Inl WorkflowPanic"
proof -
  have "try_fold apply_mutation_step g ms \<noteq> Inl WorkflowPanic" for ms
  proof
    assume "try_fold apply_mutation_step g ms = Inl WorkflowPanic"
    then obtain h m where "batch_inv g h" and "apply_mutation_step h m = Inl WorkflowPanic"
      using try_fold_error [where P = "batch_inv g", of ms apply_mutation_step g WorkflowPanic]
        batch_inv_step batch_inv_refl [OF assms] by metis
    then show False
      using apply_mutation_error_unchanged [of h m]
      by (auto simp: batch_inv_def apply_mutation_step_def split: prod.splits sum.splits)
  qed
  then show ?thesis
    using cycle_path_not_panic
    by (auto simp: apply_batch_def Let_def split: if_splits option.splits sum.splits visit_stop.splits)
qed

lemma apply_batch_wf:
  assumes "wf_graph g" and "apply_batch g r b = (g', Inr entry)"
  shows "wf_graph g'"
proof -
  from assms(2) obtain rev candidate where
      next_rev: "Revision_checked_next (wg_topology_revision g) = Some rev"
    and fold: "try_fold apply_mutation_step g (mb_mutations b) = Inr candidate"
    and g': "g' = candidate\<lparr>wg_topology_revision := rev,
                    wg_mutation_log := wg_mutation_log candidate @ [entry]\<rparr>"
    by (rule apply_batch_Inr)
  from batch_inv_fold [OF assms(1) fold] have "batch_inv g candidate" .
  with g' assms(1) revision.step_Some [OF next_rev] show ?thesis
    by (auto simp: batch_inv_def wf_graph_def)
qed

section \<open>Completion and readiness\<close>

lemma complete_Inr_iff:
  "complete g i = (g', Inr c) \<longleftrightarrow>
     contains_task (wg_topology g) i \<and> \<not> facts_is_completed (wg_facts g) i \<and>
     (\<forall>d\<in>set (topology_dependencies (wg_topology g) i). facts_is_completed (wg_facts g) d) \<and>
     c = \<lparr>cr_task_id = i\<rparr> \<and>
     g' = g\<lparr>wg_facts := \<lparr>ef_completed = finsert i (ef_completed (wg_facts g)),
                          ef_completion_log = ef_completion_log (wg_facts g) @ [c]\<rparr>\<rparr>"
  by (auto simp: complete_def Let_def find_None_all dest: find_Some_mem
      split: if_splits option.splits)

lemma sorted_topology_dependencies [simp]: "sorted (topology_dependencies t i)"
  by (simp add: topology_dependencies_def sorted_list_of_fset.rep_eq split: option.splits)

lemma complete_Inl:
  assumes "complete g i = (g', Inl e)"
  shows "g' = g \<and>
     (e = UnknownTask i \<and> \<not> contains_task (wg_topology g) i
      \<or> e = TaskAlreadyCompleted i \<and> facts_is_completed (wg_facts g) i
      \<or> (\<exists>d. e = IncompletePrerequisite i d \<and> d \<in> set (topology_dependencies (wg_topology g) i) \<and>
            \<not> facts_is_completed (wg_facts g) d \<and>
            (\<forall>d'\<in>set (topology_dependencies (wg_topology g) i).
               d' < d \<longrightarrow> facts_is_completed (wg_facts g) d')))"
  using assms by (auto simp: complete_def Let_def dest!: find_Some_least
      split: if_splits option.splits)

lemma complete_error_unchanged: "complete g i = (g', Inl e) \<Longrightarrow> g' = g"
  by (auto simp: complete_def Let_def split: if_splits option.splits)

lemma complete_wf:
  assumes "wf_graph g" and "complete g i = (g', Inr c)"
  shows "wf_graph g'"
  using assms
  by (auto simp: complete_Inr_iff wf_graph_def wf_facts_def completion_ids_def
      facts_is_completed_def ordered_completions_append)

lemma ready_tasks_iff:
  "i \<in> set (ready_tasks g) \<longleftrightarrow>
     contains_task (wg_topology g) i \<and> \<not> facts_is_completed (wg_facts g) i \<and>
     (\<forall>d\<in>set (topology_dependencies (wg_topology g) i). facts_is_completed (wg_facts g) d)"
  by (auto simp: ready_tasks_def contains_task_def contains_key_def fmlookup_dom'_iff
      set_topology_dependencies list_all_iff split: option.splits)

lemma ready_tasks_sorted: "sorted (ready_tasks g) \<and> distinct (ready_tasks g)"
  by (simp add: ready_tasks_def sorted_wrt_filter)

lemma complete_iff_ready:
  "(\<exists>g' c. complete g i = (g', Inr c)) \<longleftrightarrow> i \<in> set (ready_tasks g)"
  by (simp add: complete_Inr_iff ready_tasks_iff)

text \<open>
  No deadlock: the dependency relation is acyclic, so an unfinished workflow has an
  unfinished task all of whose prerequisites are completed.
\<close>

lemma unfinished_has_ready:
  assumes "wf_graph g" and "contains_task (wg_topology g) i"
    and "\<not> facts_is_completed (wg_facts g) i"
  shows "ready_tasks g \<noteq> []"
proof -
  let ?S = "{i. contains_task (wg_topology g) i \<and> \<not> facts_is_completed (wg_facts g) i}"
  have wf: "wf_topology (wg_topology g)" using assms(1) by (simp add: wf_graph_def)
  then obtain m where "m \<in> ?S" and none: "set (topology_dependencies (wg_topology g) m) \<inter> ?S = {}"
    using assms(2,3) topology.acyclic_minimal [of "wg_topology g" i ?S]
    by (auto simp: wf_topology_def)
  moreover have "facts_is_completed (wg_facts g) d"
    if "d \<in> set (topology_dependencies (wg_topology g) m)" for d
    using that none wf_topology_dependency_known [OF wf that] by auto
  ultimately have "m \<in> set (ready_tasks g)" by (simp add: ready_tasks_iff)
  then show ?thesis by auto
qed

section \<open>Reachable graphs and replay\<close>

inductive reachable_graph :: "WorkflowGraph \<Rightarrow> bool" where
  default: "reachable_graph WorkflowGraph_default"
| batch: "reachable_graph g \<Longrightarrow> apply_batch g r b = (g', res) \<Longrightarrow> reachable_graph g'"
| completion: "reachable_graph g \<Longrightarrow> complete g i = (g', out) \<Longrightarrow> reachable_graph g'"

lemma reachable_graph_wf: "reachable_graph g \<Longrightarrow> wf_graph g"
proof (induction rule: reachable_graph.induct)
  case default
  show ?case by (rule wf_graph_default)
next
  case (batch g r b g' res)
  then show ?case by (cases res) (auto dest: apply_batch_error_unchanged apply_batch_wf)
next
  case (completion g i g' out)
  then show ?case by (cases out) (auto dest: complete_error_unchanged complete_wf)
qed

definition without_facts :: "WorkflowGraph \<Rightarrow> WorkflowGraph" where
  "without_facts g = g\<lparr>wg_facts := \<lparr>ef_completed = {||}, ef_completion_log = []\<rparr>\<rparr>"

lemma without_facts_sel [simp]:
  "wg_topology (without_facts g) = wg_topology g"
  "wg_topology_revision (without_facts g) = wg_topology_revision g"
  "wg_mutation_log (without_facts g) = wg_mutation_log g"
  "\<not> facts_is_completed (wg_facts (without_facts g)) i"
  by (simp_all add: without_facts_def facts_is_completed_def)

lemma apply_mutation_without_facts:
  assumes "apply_mutation g m = (g', Inr ())"
  shows "apply_mutation (without_facts g) m = (without_facts g', Inr ())"
  unfolding apply_mutation_success_iff
  using assms by (auto simp: apply_mutation_success_iff without_facts_def facts_is_completed_def
      split: WorkflowMutation.splits)

lemma fold_without_facts:
  "try_fold apply_mutation_step g ms = Inr g' \<Longrightarrow>
     try_fold apply_mutation_step (without_facts g) ms = Inr (without_facts g')"
proof (induction ms arbitrary: g)
  case (Cons m ms)
  then obtain h where "apply_mutation_step g m = Inr h"
    and "try_fold apply_mutation_step h ms = Inr g'"
    by (auto split: sum.splits)
  then show ?case
    using Cons.IH [of h] apply_mutation_without_facts [of g m h]
    by (simp add: apply_mutation_step_Inr [symmetric])
qed simp

lemma replay_record_without_facts:
  assumes "apply_batch g r b = (g', Inr entry)"
  shows "replay_record_step (without_facts g) entry = Inr (without_facts g')"
proof -
  from assms obtain rev candidate where
      steps: "mb_mutations b \<noteq> []" "Revision_checked_next (wg_topology_revision g) = Some rev"
        "cycle_path (wg_topology candidate) = None"
    and fold: "try_fold apply_mutation_step g (mb_mutations b) = Inr candidate"
    and entry: "entry = \<lparr>mr_base_revision = wg_topology_revision g, mr_resulting_revision = rev,
              mr_mutations = mb_mutations b\<rparr>"
    and g': "g' = candidate\<lparr>wg_topology_revision := rev,
                    wg_mutation_log := wg_mutation_log candidate @ [entry]\<rparr>"
    by (rule apply_batch_Inr)
  show ?thesis
    using steps fold_without_facts [OF fold]
    by (simp add: entry g' replay_record_step_def apply_batch_def MutationBatch_is_empty_def
        MutationBatch_as_slice_def MutationBatch_from_mutations_def Let_def)
       (simp add: without_facts_def)
qed

lemma reachable_replay:
  "reachable_graph g \<Longrightarrow> replay (wg_mutation_log g) = Inr (without_facts g)"
proof (induction rule: reachable_graph.induct)
  case default
  show ?case by (simp add: replay_def replay_from_def WorkflowGraph_default_def without_facts_def)
next
  case (batch g r b g' res)
  show ?case
  proof (cases res)
    case (Inl e)
    with batch show ?thesis using apply_batch_error_unchanged by fastforce
  next
    case (Inr entry)
    with batch have ok: "apply_batch g r b = (g', Inr entry)" by simp
    have "wg_mutation_log g' = wg_mutation_log g @ [entry]"
      using batch_inv_fold [OF reachable_graph_wf [OF batch.hyps(1)]] ok
      by (auto elim!: apply_batch_Inr simp: batch_inv_def)
    with batch.IH replay_record_without_facts [OF ok] show ?thesis
      by (simp add: replay_def replay_from_def try_fold_append)
  qed
next
  case (completion g i g' out)
  then have "wg_mutation_log g' = wg_mutation_log g \<and> without_facts g' = without_facts g"
    by (cases out) (auto simp: complete_Inr_iff without_facts_def dest: complete_error_unchanged)
  with completion.IH show ?case by simp
qed

text \<open>Completing the logged tasks in order rebuilds the facts.\<close>

definition facts_of :: "Id list \<Rightarrow> ExecutionFacts" where
  "facts_of is = \<lparr>ef_completed = fset_of_list is,
                  ef_completion_log = map (\<lambda>i. \<lparr>cr_task_id = i\<rparr>) is\<rparr>"

lemma complete_ordered:
  assumes "ordered_completions (wg_topology g) (set is) js" and "wg_facts g = facts_of is"
  shows "try_fold complete_step g (map (\<lambda>i. \<lparr>cr_task_id = i\<rparr>) js) =
           Inr (g\<lparr>wg_facts := facts_of (is @ js)\<rparr>)"
  using assms
proof (induction js arbitrary: g "is")
  case Nil
  then have "g\<lparr>wg_facts := facts_of is\<rparr> = g" by (metis (full_types) WorkflowGraph.surjective
    WorkflowGraph.update_convs(2))
  then show ?case by simp
next
  case (Cons j js)
  let ?h = "g\<lparr>wg_facts := facts_of (is @ [j])\<rparr>"
  have "fset_of_list (is @ [j]) = finsert j (fset_of_list is)" by auto
  then have "complete g j = (?h, Inr \<lparr>cr_task_id = j\<rparr>)"
    using Cons.prems by (auto simp: complete_Inr_iff facts_of_def facts_is_completed_def fset_of_list_elem)
  then have "complete_step g \<lparr>cr_task_id = j\<rparr> = Inr ?h" by (simp add: complete_step_def)
  moreover have "try_fold complete_step ?h (map (\<lambda>i. \<lparr>cr_task_id = i\<rparr>) js) =
      Inr (?h\<lparr>wg_facts := facts_of ((is @ [j]) @ js)\<rparr>)"
    using Cons.prems by (intro Cons.IH) auto
  ultimately show ?case by simp
qed

lemma wf_facts_facts_of:
  assumes "wf_facts t f"
  shows "f = facts_of (completion_ids f)"
proof -
  have "map (\<lambda>i. \<lparr>cr_task_id = i\<rparr>) (map cr_task_id xs) = xs" for xs :: "CompletionRecord list"
    by (induction xs) auto
  moreover have "ef_completed f = fset_of_list (completion_ids f)"
    using assms by (simp add: wf_facts_def fset_eq_iff fset_of_list_elem) 
  ultimately show ?thesis by (simp add: facts_of_def completion_ids_def)
qed

lemma replay_with_facts_rebuilds:
  assumes "reachable_graph g"
  shows "replay_with_facts (wg_mutation_log g) (ef_completion_log (wg_facts g)) = Inr g"
proof -
  let ?ids = "completion_ids (wg_facts g)"
  have wf: "wf_facts (wg_topology g) (wg_facts g)"
    using reachable_graph_wf [OF assms] by (simp add: wf_graph_def)
  then have ordered: "ordered_completions (wg_topology (without_facts g)) (set []) ?ids"
    by (simp add: wf_facts_def)
  have facts: "wg_facts g = facts_of ?ids" using wf by (rule wf_facts_facts_of)
  have "try_fold complete_step (without_facts g) (map (\<lambda>i. \<lparr>cr_task_id = i\<rparr>) ?ids) =
      Inr ((without_facts g)\<lparr>wg_facts := facts_of ([] @ ?ids)\<rparr>)"
    using ordered by (rule complete_ordered) (simp add: without_facts_def facts_of_def)
  moreover have "map (\<lambda>i. \<lparr>cr_task_id = i\<rparr>) ?ids = ef_completion_log (wg_facts g)"
    by (subst facts) (simp add: facts_of_def)
  moreover have "(without_facts g)\<lparr>wg_facts := facts_of ?ids\<rparr> = g"
    using facts by (simp add: without_facts_def)
  ultimately show ?thesis
    using reachable_replay [OF assms] by (simp add: replay_with_facts_def)
qed

section \<open>Running a workflow to its end\<close>

definition unfinished :: "WorkflowGraph \<Rightarrow> Id set" where
  "unfinished g = {i. contains_task (wg_topology g) i \<and> \<not> facts_is_completed (wg_facts g) i}"

lemma finite_unfinished: "finite (unfinished g)"
  by (rule finite_subset [of _ "fmdom' (wt_tasks (wg_topology g))"])
     (auto simp: unfinished_def contains_task_def contains_key_def fmlookup_dom'_iff)

lemma complete_unfinished:
  "complete g i = (g', Inr c) \<Longrightarrow> unfinished g = insert i (unfinished g') \<and> i \<notin> unfinished g'"
  by (auto simp: complete_Inr_iff unfinished_def facts_is_completed_def)

lemma run_to_completion:
  "wf_graph g \<Longrightarrow> \<exists>is g'. distinct is \<and> set is = unfinished g \<and> unfinished g' = {} \<and>
     try_fold complete_step g (map (\<lambda>i. \<lparr>cr_task_id = i\<rparr>) is) = Inr g'"
proof (induction "card (unfinished g)" arbitrary: g)
  case 0
  then have "unfinished g = {}" using finite_unfinished by simp
  then show ?case by (intro exI [of _ "[]"] exI [of _ g]) simp
next
  case (Suc n)
  then have "unfinished g \<noteq> {}" by auto
  then obtain k where "contains_task (wg_topology g) k" and "\<not> facts_is_completed (wg_facts g) k"
    by (auto simp: unfinished_def)
  then have "ready_tasks g \<noteq> []" using Suc.prems unfinished_has_ready by blast
  then obtain i h c where step: "complete g i = (h, Inr c)"
    using complete_iff_ready [of g "hd (ready_tasks g)"] hd_in_set by blast
  have eq: "unfinished g = insert i (unfinished h)" "i \<notin> unfinished h"
    using complete_unfinished [OF step] by auto
  then have "card (unfinished h) = n" using Suc.hyps(2) finite_unfinished [of h] by simp
  then obtain "is" g' where rest: "distinct is" "set is = unfinished h" "unfinished g' = {}"
      "try_fold complete_step h (map (\<lambda>i. \<lparr>cr_task_id = i\<rparr>) is) = Inr g'"
    using Suc.hyps(1) [of h] complete_wf [OF Suc.prems step] by auto
  have "complete_step g \<lparr>cr_task_id = i\<rparr> = Inr h" using step by (simp add: complete_step_def)
  with rest eq show ?case by (intro exI [of _ "i # is"] exI [of _ g']) simp
qed

end
