(* ===== verification/Workflow_Properties.thy ===== *)
theory Workflow_Properties
  imports Workflow_Invariants
begin

text \<open>
  The properties of the workflow graph, each with a concrete instance. The instances use a
  small workflow of two tasks, built by the crate's own operations.
\<close>

definition demo_task :: "string \<Rightarrow> WorkflowMutation" where
  "demo_task s = AddTask \<lparr>t_id = Id s, t_label = s\<rparr>"

definition demo_batch :: MutationBatch where
  "demo_batch = MutationBatch_from_mutations
     [demo_task ''a'', demo_task ''b'', AddDependency (Id ''b'') (Id ''a'')]"

definition demo_graph :: WorkflowGraph where
  "demo_graph = fst (apply_batch WorkflowGraph_default Revision_ZERO demo_batch)"

definition demo_cyclic :: WorkflowTopology where
  "demo_cyclic =
     insert_dependency (insert_dependency (wg_topology demo_graph) (Id ''a'') (Id ''b''))
       (Id ''b'') (Id ''a'')"

lemma demo_batch_accepted:
  "snd (apply_batch WorkflowGraph_default Revision_ZERO demo_batch) =
     Inr \<lparr>mr_base_revision = Revision 0, mr_resulting_revision = Revision 1,
          mr_mutations = mb_mutations demo_batch\<rparr>"
  by code_simp

lemma demo_graph_reachable: "reachable_graph demo_graph"
  unfolding demo_graph_def
  by (rule reachable_graph.batch [OF reachable_graph.default prod.collapse [symmetric]])

section \<open>Cycle detection\<close>

text \<open>
  C16: \<^verbatim>\<open>WorkflowTopology::cycle_path\<close> decides acyclicity. On a topology whose edges start
  at tasks it reports nothing exactly when the dependency relation is acyclic; what it
  reports is a simple closed path along dependency edges, and its \<^verbatim>\<open>expect\<close> on the DFS
  stack never fails.
\<close>
theorem workflow_cycle_path_correct:
  assumes "edges_from_tasks t"
  shows "(cycle_path t = None \<longleftrightarrow> acyclic (edges_of (topology_dependencies t))) \<and>
         (\<forall>stop. cycle_path t = Some stop \<longrightarrow>
            (\<exists>p. stop = CycleFound p \<and> closed_path (topology_dependencies t) p))"
  using cycle_path_None_iff [OF assms] cycle_path_found by blast

theorem workflow_cycle_path_correct_witness:
  "edges_from_tasks demo_cyclic \<and>
   cycle_path demo_cyclic = Some (CycleFound [Id ''a'', Id ''b'', Id ''a'']) \<and>
   \<not> acyclic (edges_of (topology_dependencies demo_cyclic))"
proof -
  have from_tasks: "edges_from_tasks demo_cyclic" by code_simp
  have found: "cycle_path demo_cyclic = Some (CycleFound [Id ''a'', Id ''b'', Id ''a''])"
    by code_simp
  show ?thesis using workflow_cycle_path_correct [OF from_tasks] from_tasks found by simp
qed

section \<open>Invariant and atomicity\<close>

text \<open>
  Every workflow graph that \<^verbatim>\<open>apply_batch\<close> and \<^verbatim>\<open>complete\<close> can build satisfies the
  invariant: tasks are stored under their own identity, edges join known tasks, the
  dependency relation is acyclic, the completed set is the set of the completion log, each
  logged task came after its prerequisites, and the revision counts the mutation log.
\<close>
theorem workflow_reachable_invariant:
  assumes "reachable_graph g"
  shows "wf_graph g"
  using assms by (rule reachable_graph_wf)

theorem workflow_reachable_invariant_witness:
  "reachable_graph demo_graph \<and> wf_graph demo_graph \<and>
   topology_edges (wg_topology demo_graph) = [(Id ''b'', Id ''a'')]"
proof -
  have "topology_edges (wg_topology demo_graph) = [(Id ''b'', Id ''a'')]" by code_simp
  with demo_graph_reachable workflow_reachable_invariant [OF demo_graph_reachable]
  show ?thesis by simp
qed

text \<open>
  C24: \<^verbatim>\<open>apply_batch\<close> is atomic. A rejected batch leaves the graph as it was and never
  panics. An accepted one was prepared at the current revision, advances the revision by
  exactly one, appends exactly its own record to the log, and changes neither the execution
  facts nor the prerequisites of a completed task.
\<close>
theorem workflow_apply_batch_atomic:
  assumes "wf_graph g" and "apply_batch g r b = (g', res)"
  shows "case res of
           Inl e \<Rightarrow> g' = g \<and> e \<noteq> WorkflowPanic
         | Inr entry \<Rightarrow>
             r = wg_topology_revision g \<and> wf_graph g' \<and>
             unat (revision_get (wg_topology_revision g')) =
               Suc (unat (revision_get (wg_topology_revision g))) \<and>
             wg_mutation_log g' = wg_mutation_log g @ [entry] \<and>
             mr_base_revision entry = wg_topology_revision g \<and>
             mr_resulting_revision entry = wg_topology_revision g' \<and>
             mr_mutations entry = mb_mutations b \<and>
             wg_facts g' = wg_facts g \<and>
             (\<forall>i. graph_is_completed g i \<longrightarrow> graph_dependencies g' i = graph_dependencies g i)"
proof (cases res)
  case (Inl e)
  then show ?thesis
    using assms apply_batch_error_unchanged apply_batch_no_panic [OF assms(1), of r b] by auto
next
  case (Inr entry)
  with assms(2) have ok: "apply_batch g r b = (g', Inr entry)" by simp
  then obtain rev candidate where
      facts: "r = wg_topology_revision g" "mr_base_revision entry = wg_topology_revision g"
        "mr_resulting_revision entry = rev" "mr_mutations entry = mb_mutations b"
    and next_rev: "Revision_checked_next (wg_topology_revision g) = Some rev"
    and fold: "try_fold apply_mutation_step g (mb_mutations b) = Inr candidate"
    and g': "g' = candidate\<lparr>wg_topology_revision := rev,
                    wg_mutation_log := wg_mutation_log candidate @ [entry]\<rparr>"
    by (auto elim!: apply_batch_Inr)
  have "batch_inv g candidate" using assms(1) fold by (rule batch_inv_fold)
  with facts g' revision.step_Some [OF next_rev] apply_batch_wf [OF assms(1) ok] Inr
  show ?thesis by (auto simp: batch_inv_def graph_is_completed_def graph_dependencies_def)
qed

theorem workflow_apply_batch_atomic_witness:
  "wf_graph WorkflowGraph_default \<and>
   unat (revision_get (wg_topology_revision demo_graph)) = 1 \<and>
   wg_facts demo_graph = wg_facts WorkflowGraph_default"
proof -
  have run: "apply_batch WorkflowGraph_default Revision_ZERO demo_batch =
      (demo_graph, Inr \<lparr>mr_base_revision = Revision 0, mr_resulting_revision = Revision 1,
          mr_mutations = mb_mutations demo_batch\<rparr>)"
    using demo_batch_accepted by (simp add: demo_graph_def prod_eq_iff)
  show ?thesis
    using workflow_apply_batch_atomic [OF wf_graph_default run] wf_graph_default
    by (simp add: WorkflowGraph_default_def Revision_ZERO_def)
qed

section \<open>Completion\<close>

text \<open>
  C26: \<^verbatim>\<open>complete\<close> accepts exactly the tasks that \<^verbatim>\<open>ready_tasks\<close> lists. The list is strictly
  ascending. Acceptance appends the task to the completion log and changes nothing else;
  a rejection changes nothing and names its cause: an unknown task, a task already
  completed, or the smallest incomplete prerequisite.
\<close>
theorem workflow_complete_iff_ready:
  "sorted_wrt (<) (ready_tasks g) \<and>
   (case complete g i of
      (g', Inr c) \<Rightarrow>
        i \<in> set (ready_tasks g) \<and> c = \<lparr>cr_task_id = i\<rparr> \<and>
        g' = g\<lparr>wg_facts := \<lparr>ef_completed = finsert i (ef_completed (wg_facts g)),
                             ef_completion_log = ef_completion_log (wg_facts g) @ [c]\<rparr>\<rparr>
    | (g', Inl e) \<Rightarrow>
        i \<notin> set (ready_tasks g) \<and> g' = g \<and>
        (e = UnknownTask i \<and> graph_task g i = None
         \<or> e = TaskAlreadyCompleted i \<and> graph_is_completed g i
         \<or> (\<exists>d. e = IncompletePrerequisite i d \<and> d \<in> set (graph_dependencies g i) \<and>
               \<not> graph_is_completed g d \<and>
               (\<forall>d'\<in>set (graph_dependencies g i). d' < d \<longrightarrow> graph_is_completed g d'))))"
proof -
  have "sorted_wrt (<) (ready_tasks g)"
    using ready_tasks_sorted [of g] by (simp add: strict_sorted_iff)
  then show ?thesis
    using complete_Inr_iff [of g i] complete_Inl [of g i] complete_iff_ready [of g i]
    by (auto simp: graph_task_def topology_task_def contains_task_def contains_key_def
        graph_is_completed_def graph_dependencies_def split: prod.splits sum.splits)
qed

theorem workflow_complete_iff_ready_witness:
  "complete demo_graph (Id ''b'') =
     (demo_graph, Inl (IncompletePrerequisite (Id ''b'') (Id ''a''))) \<and>
   Id ''b'' \<notin> set (ready_tasks demo_graph) \<and> \<not> graph_is_completed demo_graph (Id ''a'')"
proof -
  have run: "complete demo_graph (Id ''b'') =
      (demo_graph, Inl (IncompletePrerequisite (Id ''b'') (Id ''a'')))"
    by code_simp
  show ?thesis using workflow_complete_iff_ready [of demo_graph "Id ''b''"] run by simp
qed

text \<open>
  A workflow never deadlocks. From every graph that satisfies the invariant there is an
  order of the unfinished tasks in which \<^verbatim>\<open>complete\<close> accepts each of them, and after it no
  task is left unfinished.
\<close>
theorem workflow_runs_to_completion:
  assumes "wf_graph g"
  shows "\<exists>is g'. distinct is \<and> set is = unfinished g \<and> unfinished g' = {} \<and>
           try_fold complete_step g (map (\<lambda>i. \<lparr>cr_task_id = i\<rparr>) is) = Inr g'"
  using assms by (rule run_to_completion)

theorem workflow_runs_to_completion_witness:
  "wf_graph demo_graph \<and>
   (\<exists>is g'. distinct is \<and> set is = unfinished demo_graph \<and> unfinished g' = {} \<and>
      try_fold complete_step demo_graph (map (\<lambda>i. \<lparr>cr_task_id = i\<rparr>) is) = Inr g')"
  using workflow_runs_to_completion [OF reachable_graph_wf [OF demo_graph_reachable]]
    reachable_graph_wf [OF demo_graph_reachable] by simp

section \<open>Replay\<close>

text \<open>
  Replay is lossless. For every reachable graph, \<^verbatim>\<open>replay_with_facts\<close> on its mutation log
  and its completion log succeeds and returns exactly that graph, although the original
  run interleaved mutations with completions and replay applies all mutations first.
\<close>
theorem workflow_replay_roundtrip:
  assumes "reachable_graph g"
  shows "replay_with_facts (wg_mutation_log g) (ef_completion_log (wg_facts g)) = Inr g"
  using assms by (rule replay_with_facts_rebuilds)

theorem workflow_replay_roundtrip_witness:
  "reachable_graph (fst (complete demo_graph (Id ''a''))) \<and>
   graph_completed_tasks (fst (complete demo_graph (Id ''a''))) = [Id ''a''] \<and>
   (let g = fst (complete demo_graph (Id ''a''))
    in replay_with_facts (wg_mutation_log g) (ef_completion_log (wg_facts g)) = Inr g)"
proof -
  have reach: "reachable_graph (fst (complete demo_graph (Id ''a'')))"
    by (rule reachable_graph.completion [OF demo_graph_reachable prod.collapse [symmetric]])
  have "graph_completed_tasks (fst (complete demo_graph (Id ''a''))) = [Id ''a'']" by code_simp
  with reach workflow_replay_roundtrip [OF reach] show ?thesis by (simp add: Let_def)
qed

end
