(* ===== verification/Execution_Stream.thy ===== *)
theory Execution_Stream
  imports Kernel_Core
begin

text \<open>
  The crate \<^verbatim>\<open>execution-stream\<close>: sequence numbers, the producer-side sequencer, the
  consumer-side tracker and the three bounded buffers, with the drain loops of
  \<^verbatim>\<open>runtime-core\<close> that empty them. The locale \<open>bounded_buffer\<close> is what the buffers have
  in common; the drain loops are verified once over it.
\<close>

section \<open>Sequences and items\<close>

datatype Sequence = Sequence (sequence_get: u64)

definition Sequence_FIRST :: Sequence where
  "Sequence_FIRST = Sequence 1"

definition Sequence_MAX :: Sequence where
  "Sequence_MAX = Sequence u64_max"

definition Sequence_checked_next :: "Sequence \<Rightarrow> Sequence option" where
  "Sequence_checked_next s =
     (case checked_add_u64 (sequence_get s) 1 of
        Some n \<Rightarrow> Some (Sequence n)
      | None \<Rightarrow> None)"

text \<open>\<^verbatim>\<open>Sequence::next\<close> unwraps the checked step; \<open>None\<close> is its panic.\<close>

definition Sequence_next :: "Sequence \<Rightarrow> Sequence option" where
  "Sequence_next s = Sequence_checked_next s"

interpretation sequence: checked_counter sequence_get Sequence_checked_next
  using checked_counter_newtype [of Sequence sequence_get]
  by (simp add: Sequence_checked_next_def [abs_def])

record 'a StreamItem =
  si_stream_id :: Id
  si_sequence :: Sequence
  si_payload :: 'a

definition StreamItem_map :: "('a \<Rightarrow> 'b) \<Rightarrow> 'a StreamItem \<Rightarrow> 'b StreamItem" where
  "StreamItem_map f item =
     \<lparr>si_stream_id = si_stream_id item, si_sequence = si_sequence item,
      si_payload = f (si_payload item)\<rparr>"

datatype SequenceError = Exhausted Id Sequence

section \<open>The sequencer\<close>

record StreamSequencer =
  sq_stream_id :: Id
  sq_next_sequence :: Sequence
  sq_exhausted :: bool

definition StreamSequencer_new :: "Id \<Rightarrow> StreamSequencer" where
  "StreamSequencer_new stream =
     \<lparr>sq_stream_id = stream, sq_next_sequence = Sequence_FIRST, sq_exhausted = False\<rparr>"

definition emit :: "StreamSequencer \<Rightarrow> 'a \<Rightarrow> StreamSequencer \<times> (SequenceError + 'a StreamItem)" where
  "emit q payload =
     (if sq_exhausted q then (q, Inl (Exhausted (sq_stream_id q) Sequence_MAX))
      else
        let sequence = sq_next_sequence q;
            q' = (case Sequence_checked_next sequence of
                    Some n \<Rightarrow> q\<lparr>sq_next_sequence := n\<rparr>
                  | None \<Rightarrow> q\<lparr>sq_exhausted := True\<rparr>)
        in (q', Inr \<lparr>si_stream_id = sq_stream_id q, si_sequence = sequence,
                     si_payload = payload\<rparr>))"

section \<open>The tracker\<close>

datatype SequenceObservation =
    First Sequence
  | InOrder Sequence
  | Gap Sequence Sequence  \<comment> \<open>expected, actual\<close>
  | DuplicateOrReordered Sequence Sequence  \<comment> \<open>last, actual\<close>

datatype StreamError = StreamMismatch Id Id  \<comment> \<open>expected, actual\<close>

record SequenceTracker =
  st_stream_id :: Id
  st_last :: "Sequence option"

definition SequenceTracker_new :: "Id \<Rightarrow> SequenceTracker" where
  "SequenceTracker_new stream = \<lparr>st_stream_id = stream, st_last = None\<rparr>"

definition seq_less :: "Sequence \<Rightarrow> Sequence \<Rightarrow> bool" where
  "seq_less a b \<longleftrightarrow> sequence_get a < sequence_get b"

definition classify_sequence :: "Sequence option \<Rightarrow> Sequence \<Rightarrow> SequenceObservation" where
  "classify_sequence previous actual =
     (case previous of
        None \<Rightarrow> if actual = Sequence_FIRST then First actual else Gap Sequence_FIRST actual
      | Some latest \<Rightarrow>
          (case Sequence_checked_next latest of
             Some expected \<Rightarrow>
               if actual = expected then InOrder actual
               else if seq_less expected actual then Gap expected actual
               else DuplicateOrReordered latest actual
           | None \<Rightarrow> DuplicateOrReordered latest actual))"

definition observe :: "SequenceTracker \<Rightarrow> 'a StreamItem \<Rightarrow>
    SequenceTracker \<times> (StreamError + SequenceObservation)" where
  "observe t item =
     (if si_stream_id item \<noteq> st_stream_id t then
        (t, Inl (StreamMismatch (st_stream_id t) (si_stream_id item)))
      else
        let observation = classify_sequence (st_last t) (si_sequence item);
            newer = (case st_last t of None \<Rightarrow> True | Some latest \<Rightarrow> seq_less latest (si_sequence item))
        in (if newer then t\<lparr>st_last := Some (si_sequence item)\<rparr> else t, Inr observation))"

section \<open>Bounded buffers\<close>

datatype BufferError = ZeroCapacity

datatype 'a PushError = Backpressure 'a

record 'a LosslessBuffer =
  ls_capacity :: nat
  ls_items :: "'a StreamItem list"

definition LosslessBuffer_new :: "nat \<Rightarrow> BufferError + 'a LosslessBuffer" where
  "LosslessBuffer_new capacity =
     (if capacity = 0 then Inl ZeroCapacity else Inr \<lparr>ls_capacity = capacity, ls_items = []\<rparr>)"

definition lossless_len :: "'a LosslessBuffer \<Rightarrow> nat" where
  "lossless_len b = length (ls_items b)"

definition lossless_is_empty :: "'a LosslessBuffer \<Rightarrow> bool" where
  "lossless_is_empty b \<longleftrightarrow> ls_items b = []"

definition lossless_try_push :: "'a LosslessBuffer \<Rightarrow> 'a StreamItem \<Rightarrow>
    'a LosslessBuffer \<times> ('a StreamItem PushError + unit)" where
  "lossless_try_push b item =
     (if length (ls_items b) = ls_capacity b then (b, Inl (Backpressure item))
      else (b\<lparr>ls_items := ls_items b @ [item]\<rparr>, Inr ()))"

definition lossless_pop :: "'a LosslessBuffer \<Rightarrow> 'a LosslessBuffer \<times> 'a StreamItem option" where
  "lossless_pop b =
     (case ls_items b of
        [] \<Rightarrow> (b, None)
      | item # rest \<Rightarrow> (b\<lparr>ls_items := rest\<rparr>, Some item))"

record ('k, 'a) KeyedStreamItem =
  ki_key :: 'k
  ki_item :: "'a StreamItem"

record ('k, 'a) CoalescingBuffer =
  cb_capacity :: nat
  cb_items :: "('k, 'a) KeyedStreamItem list"

definition CoalescingBuffer_new :: "nat \<Rightarrow> BufferError + ('k, 'a) CoalescingBuffer" where
  "CoalescingBuffer_new capacity =
     (if capacity = 0 then Inl ZeroCapacity else Inr \<lparr>cb_capacity = capacity, cb_items = []\<rparr>)"

definition coalescing_len :: "('k, 'a) CoalescingBuffer \<Rightarrow> nat" where
  "coalescing_len b = length (cb_items b)"

definition same_identity :: "('k, 'a) KeyedStreamItem \<Rightarrow> ('k, 'a) KeyedStreamItem \<Rightarrow> bool" where
  "same_identity item existing \<longleftrightarrow>
     ki_key existing = ki_key item \<and>
     si_stream_id (ki_item existing) = si_stream_id (ki_item item)"

definition remove_at :: "nat \<Rightarrow> 'a list \<Rightarrow> 'a list" where
  "remove_at index xs = take index xs @ drop (Suc index) xs"

definition coalescing_try_push :: "('k, 'a) CoalescingBuffer \<Rightarrow> ('k, 'a) KeyedStreamItem \<Rightarrow>
    ('k, 'a) CoalescingBuffer \<times> (('k, 'a) KeyedStreamItem PushError + unit)" where
  "coalescing_try_push b item =
     (case position (same_identity item) (cb_items b) of
        Some index \<Rightarrow> (b\<lparr>cb_items := remove_at index (cb_items b) @ [item]\<rparr>, Inr ())
      | None \<Rightarrow>
          if length (cb_items b) = cb_capacity b then (b, Inl (Backpressure item))
          else (b\<lparr>cb_items := cb_items b @ [item]\<rparr>, Inr ()))"

definition coalescing_pop :: "('k, 'a) CoalescingBuffer \<Rightarrow>
    ('k, 'a) CoalescingBuffer \<times> ('k, 'a) KeyedStreamItem option" where
  "coalescing_pop b =
     (case cb_items b of
        [] \<Rightarrow> (b, None)
      | item # rest \<Rightarrow> (b\<lparr>cb_items := rest\<rparr>, Some item))"

record 'a LossyBuffer =
  ly_capacity :: nat
  ly_items :: "'a StreamItem list"

definition LossyBuffer_new :: "nat \<Rightarrow> BufferError + 'a LossyBuffer" where
  "LossyBuffer_new capacity =
     (if capacity = 0 then Inl ZeroCapacity else Inr \<lparr>ly_capacity = capacity, ly_items = []\<rparr>)"

definition lossy_len :: "'a LossyBuffer \<Rightarrow> nat" where
  "lossy_len b = length (ly_items b)"

definition lossy_push :: "'a LossyBuffer \<Rightarrow> 'a StreamItem \<Rightarrow>
    'a LossyBuffer \<times> 'a StreamItem option" where
  "lossy_push b item =
     (let (remaining, dropped) =
            (if length (ly_items b) = ly_capacity b
             then (case ly_items b of [] \<Rightarrow> ([], None) | oldest # rest \<Rightarrow> (rest, Some oldest))
             else (ly_items b, None))
      in (b\<lparr>ly_items := remaining @ [item]\<rparr>, dropped))"

definition lossy_pop :: "'a LossyBuffer \<Rightarrow> 'a LossyBuffer \<times> 'a StreamItem option" where
  "lossy_pop b =
     (case ly_items b of
        [] \<Rightarrow> (b, None)
      | item # rest \<Rightarrow> (b\<lparr>ly_items := rest\<rparr>, Some item))"

section \<open>Draining\<close>

text \<open>
  The drain loops of \<^verbatim>\<open>runtime-core\<close>: pop until nothing is left. Each pop shortens the
  queue, so the loop ends.
\<close>

function drain_lossless :: "'a LosslessBuffer \<Rightarrow> 'a LosslessBuffer \<times> 'a StreamItem list" where
  "drain_lossless b =
     (case lossless_pop b of
        (b', None) \<Rightarrow> (b', [])
      | (b', Some item) \<Rightarrow> (let (b'', items) = drain_lossless b' in (b'', item # items)))"
  by pat_completeness auto
termination
  by (relation "measure (\<lambda>b. length (ls_items b))") (auto simp: lossless_pop_def split: list.splits)

function drain_coalescing :: "('k, 'a) CoalescingBuffer \<Rightarrow>
    ('k, 'a) CoalescingBuffer \<times> ('k, 'a) KeyedStreamItem list" where
  "drain_coalescing b =
     (case coalescing_pop b of
        (b', None) \<Rightarrow> (b', [])
      | (b', Some item) \<Rightarrow> (let (b'', items) = drain_coalescing b' in (b'', item # items)))"
  by pat_completeness auto
termination
  by (relation "measure (\<lambda>b. length (cb_items b))") (auto simp: coalescing_pop_def split: list.splits)

function drain_lossy :: "'a LossyBuffer \<Rightarrow> 'a LossyBuffer \<times> 'a StreamItem list" where
  "drain_lossy b =
     (case lossy_pop b of
        (b', None) \<Rightarrow> (b', [])
      | (b', Some item) \<Rightarrow> (let (b'', items) = drain_lossy b' in (b'', item # items)))"
  by pat_completeness auto
termination
  by (relation "measure (\<lambda>b. length (ly_items b))") (auto simp: lossy_pop_def split: list.splits)

declare drain_lossless.simps [simp del] drain_coalescing.simps [simp del] drain_lossy.simps [simp del]

section \<open>What the buffers promise\<close>

text \<open>
  \<open>bounded_buffer\<close>: a queue of pending items below a fixed capacity whose pop takes the
  oldest one, and the drain loop written with that pop. \<open>backpressure_buffer\<close> adds a
  push that either queues the item at the tail or hands it back, and hands it back only
  when the queue is full.
\<close>

locale bounded_buffer =
  fixes capacity :: "'b \<Rightarrow> nat"
    and pending :: "'b \<Rightarrow> 'i list"
    and pop :: "'b \<Rightarrow> 'b \<times> 'i option"
    and drain :: "'b \<Rightarrow> 'b \<times> 'i list"
  assumes pop_Nil: "pending b = [] \<Longrightarrow> pop b = (b, None)"
    and pop_Cons: "pending b = x # xs \<Longrightarrow>
          \<exists>b'. pop b = (b', Some x) \<and> pending b' = xs \<and> capacity b' = capacity b"
    and drain_loop: "drain b =
          (case pop b of
             (b', None) \<Rightarrow> (b', [])
           | (b', Some item) \<Rightarrow> (let (b'', items) = drain b' in (b'', item # items)))"
begin

definition bounded :: "'b \<Rightarrow> bool" where
  "bounded b \<longleftrightarrow> 0 < capacity b \<and> length (pending b) \<le> capacity b"

lemma drain_correct:
  "\<exists>b'. drain b = (b', pending b) \<and> pending b' = [] \<and> capacity b' = capacity b"
proof (induction "pending b" arbitrary: b)
  case Nil
  then have "pending b = []" and "pop b = (b, None)" using pop_Nil [of b] by simp_all
  then show ?case by (subst drain_loop) simp
next
  case (Cons x xs)
  obtain c where c: "pop b = (c, Some x)" "pending c = xs" "capacity c = capacity b"
    using pop_Cons [OF Cons.hyps(2) [symmetric]] by blast
  from Cons.hyps(1) [of c] c obtain d where
    "drain c = (d, xs)" "pending d = []" "capacity d = capacity b" by auto
  with c show ?case by (subst drain_loop) (simp add: Cons.hyps(2) [symmetric])
qed

lemma pop_cases:
  obtains (empty) "pending b = []" "pop b = (b, None)"
  | (item) b' x where "pending b = x # pending b'" "pop b = (b', Some x)"
      "capacity b' = capacity b"
  using pop_Nil [of b] pop_Cons [of b] by (cases "pending b") blast+

lemma bounded_pop:
  assumes "bounded b"
  shows "bounded (fst (pop b))"
  using assms by (cases rule: pop_cases [of b]) (auto simp: bounded_def)

end

datatype 'i buffer_op = Offer 'i | Take

text \<open>
  \<open>buffer_session push pop b ops\<close> runs an interleaving of producer offers and consumer
  takes: the final buffer, the items the push accepted and the items the pop returned.
\<close>

fun buffer_session :: "('b \<Rightarrow> 'i \<Rightarrow> 'b \<times> ('i PushError + unit)) \<Rightarrow> ('b \<Rightarrow> 'b \<times> 'i option) \<Rightarrow>
    'b \<Rightarrow> 'i buffer_op list \<Rightarrow> 'b \<times> 'i list \<times> 'i list" where
  "buffer_session push pop b [] = (b, [], [])"
| "buffer_session push pop b (Offer item # ops) =
     (let (b', result) = push b item;
          (b'', accepted, taken) = buffer_session push pop b' ops
      in (b'', (case result of Inr _ \<Rightarrow> item # accepted | Inl _ \<Rightarrow> accepted), taken))"
| "buffer_session push pop b (Take # ops) =
     (let (b', result) = pop b;
          (b'', accepted, taken) = buffer_session push pop b' ops
      in (b'', accepted, (case result of Some item \<Rightarrow> item # taken | None \<Rightarrow> taken)))"

locale backpressure_buffer = bounded_buffer capacity pending pop drain
  for capacity :: "'b \<Rightarrow> nat"
    and pending :: "'b \<Rightarrow> 'i list"
    and pop :: "'b \<Rightarrow> 'b \<times> 'i option"
    and drain :: "'b \<Rightarrow> 'b \<times> 'i list" +
  fixes push :: "'b \<Rightarrow> 'i \<Rightarrow> 'b \<times> ('i PushError + unit)"
    and keep :: "'i \<Rightarrow> 'i list \<Rightarrow> 'i list"
  assumes keep_length: "length (keep x xs) \<le> length xs"
    and push_cases: "push b x = (b, Inl (Backpressure x)) \<and> length (pending b) = capacity b
                       \<and> keep x (pending b) = pending b
                   \<or> (\<exists>b'. push b x = (b', Inr ()) \<and> capacity b' = capacity b \<and>
                           pending b' = keep x (pending b) @ [x] \<and>
                           (length (pending b) \<noteq> capacity b
                            \<or> length (keep x (pending b)) < length (pending b)))"
begin

lemma push_bounded:
  assumes "bounded b"
  shows "bounded (fst (push b x))"
  using push_cases [of b x] keep_length [of x "pending b"] assms
  by (auto simp: bounded_def)

lemma push_capacity: "capacity (fst (push b x)) = capacity b"
  using push_cases [of b x] by auto

lemma pop_capacity: "capacity (fst (pop b)) = capacity b"
  by (cases rule: pop_cases [of b]) auto

lemma session_bounded:
  assumes "bounded b" and "buffer_session push pop b ops = (b', accepted, taken)"
  shows "bounded b' \<and> capacity b' = capacity b"
  using assms
proof (induction ops arbitrary: b accepted taken)
  case Nil
  then show ?case by simp
next
  case (Cons op ops)
  show ?case
  proof (cases op)
    case (Offer item)
    with Cons.prems Cons.IH [of "fst (push b item)"] show ?thesis
      using push_bounded [of b item] push_capacity [of b item]
      by (auto split: prod.splits)
  next
    case Take
    with Cons.prems Cons.IH [of "fst (pop b)"] show ?thesis
      using bounded_pop [of b] pop_capacity [of b]
      by (auto split: prod.splits)
  qed
qed

text \<open>When a push only appends, what was accepted is what was taken, then what is pending.\<close>

lemma session_fifo:
  assumes keep: "\<And>x xs. keep x xs = xs"
    and "buffer_session push pop b ops = (b', accepted, taken)"
  shows "pending b @ accepted = taken @ pending b'"
  using assms(2)
proof (induction ops arbitrary: b accepted taken)
  case Nil
  then show ?case by simp
next
  case (Cons op ops)
  show ?case
  proof (cases op)
    case (Offer item)
    show ?thesis using push_cases [of b item] Cons.prems Offer
      by (auto simp: keep Let_def split: prod.splits dest!: Cons.IH)
  next
    case Take
    show ?thesis using Cons.prems Take
      by (cases rule: pop_cases [of b]) (auto simp: Let_def split: prod.splits dest!: Cons.IH)
  qed
qed

end

interpretation lossless: backpressure_buffer ls_capacity ls_items lossless_pop drain_lossless
    lossless_try_push "\<lambda>_ xs. xs"
  by (unfold_locales; (rule drain_lossless.simps)?)
    (auto simp: lossless_pop_def lossless_try_push_def split: list.splits)

interpretation lossy: bounded_buffer ly_capacity ly_items lossy_pop drain_lossy
  by (unfold_locales; (rule drain_lossy.simps)?) (auto simp: lossy_pop_def split: list.splits)

text \<open>
  A coalescing push keeps the pending items of other identities and appends the new one.
  The removed element is the first match; that it is the only one is the invariant
  \<open>one_per_identity\<close>.
\<close>

definition identity :: "('k, 'a) KeyedStreamItem \<Rightarrow> 'k \<times> Id" where
  "identity item = (ki_key item, si_stream_id (ki_item item))"

definition one_per_identity :: "('k, 'a) CoalescingBuffer \<Rightarrow> bool" where
  "one_per_identity b \<longleftrightarrow> distinct (map identity (cb_items b))"

definition coalesce_keep :: "('k, 'a) KeyedStreamItem \<Rightarrow> ('k, 'a) KeyedStreamItem list \<Rightarrow>
    ('k, 'a) KeyedStreamItem list" where
  "coalesce_keep item xs =
     (case position (same_identity item) xs of Some i \<Rightarrow> remove_at i xs | None \<Rightarrow> xs)"

lemma same_identity_iff: "same_identity item e \<longleftrightarrow> identity e = identity item"
  by (auto simp: same_identity_def identity_def)

lemma remove_at_length: "i < length xs \<Longrightarrow> Suc (length (remove_at i xs)) = length xs"
  by (simp add: remove_at_def)

interpretation coalescing: backpressure_buffer cb_capacity cb_items coalescing_pop
    drain_coalescing coalescing_try_push coalesce_keep
proof (unfold_locales, goal_cases)
  case (3 b)
  show ?case by (rule drain_coalescing.simps)
next
  case (4 x xs)
  then show ?case
    by (auto simp: coalesce_keep_def remove_at_def split: option.splits)
next
  case (5 b x)
  show ?case
  proof (cases "position (same_identity x) (cb_items b)")
    case None
    then show ?thesis by (auto simp: coalescing_try_push_def coalesce_keep_def)
  next
    case (Some i)
    then have "length (remove_at i (cb_items b)) < length (cb_items b)"
      using remove_at_length [of i "cb_items b"] position_Some_less [OF Some] by linarith
    with Some show ?thesis by (simp add: coalescing_try_push_def coalesce_keep_def)
  qed
qed (auto simp: coalescing_pop_def split: list.splits)

lemma position_remove_filter:
  assumes "distinct (map f xs)"
  shows "(case position (\<lambda>x. f x = k) xs of Some i \<Rightarrow> remove_at i xs | None \<Rightarrow> xs)
           = filter (\<lambda>x. f x \<noteq> k) xs"
  using assms
proof (induction xs)
  case (Cons x xs)
  then show ?case
  proof (cases "f x = k")
    case True
    with Cons.prems have "filter (\<lambda>x. f x \<noteq> k) xs = xs" by (auto simp: filter_id_conv image_iff)
    with True show ?thesis by (simp add: remove_at_def)
  next
    case False
    with Cons show ?thesis by (auto simp: remove_at_def split: option.splits)
  qed
qed simp

lemma coalesce_keep_filter:
  assumes "one_per_identity b"
  shows "coalesce_keep item (cb_items b) = filter (\<lambda>e. identity e \<noteq> identity item) (cb_items b)"
  using position_remove_filter [of identity "cb_items b" "identity item"] assms
  by (simp add: coalesce_keep_def same_identity_iff [abs_def] one_per_identity_def)

lemma one_per_identity_push:
  assumes "one_per_identity b"
  shows "one_per_identity (fst (coalescing_try_push b item))"
  using coalescing.push_cases [of b item] assms coalesce_keep_filter [OF assms, of item]
  by (auto simp: one_per_identity_def distinct_map_filter)

lemma one_per_identity_pop:
  assumes "one_per_identity b"
  shows "one_per_identity (fst (coalescing_pop b))"
  using assms by (cases rule: coalescing.pop_cases [of b]) (auto simp: one_per_identity_def)

lemma one_per_identity_session:
  assumes "one_per_identity b"
    and "buffer_session coalescing_try_push coalescing_pop b ops = (b', accepted, taken)"
  shows "one_per_identity b'"
  using assms
proof (induction ops arbitrary: b accepted taken)
  case Nil
  then show ?case by simp
next
  case (Cons op ops)
  show ?case
  proof (cases op)
    case (Offer item)
    with Cons.prems Cons.IH [of "fst (coalescing_try_push b item)"] show ?thesis
      using one_per_identity_push [of b item] by (auto split: prod.splits)
  next
    case Take
    with Cons.prems Cons.IH [of "fst (coalescing_pop b)"] show ?thesis
      using one_per_identity_pop [of b] by (auto split: prod.splits)
  qed
qed

end
