(* ===== verification/Execution_Properties.thy ===== *)
theory Execution_Properties
  imports Execution_Stream
begin

text \<open>
  What the stream primitives guarantee together: the numbering of a sequencer up to its
  exhaustion, the classification a tracker computes, gap-free delivery through a lossless
  buffer, and the exact contents of the coalescing and the lossy buffer.
\<close>

section \<open>Runs of the sequencer and of the tracker\<close>

fun emit_all :: "StreamSequencer \<Rightarrow> 'a list \<Rightarrow>
    StreamSequencer \<times> (SequenceError + 'a StreamItem) list" where
  "emit_all q [] = (q, [])"
| "emit_all q (p # ps) =
     (let (q', r) = emit q p; (q'', rs) = emit_all q' ps in (q'', r # rs))"

fun observe_all :: "SequenceTracker \<Rightarrow> 'a StreamItem list \<Rightarrow>
    SequenceTracker \<times> (StreamError + SequenceObservation) list" where
  "observe_all t [] = (t, [])"
| "observe_all t (i # is) =
     (let (t', r) = observe t i; (t'', rs) = observe_all t' is in (t'', r # rs))"

text \<open>The \<open>k\<close>-th emission of a fresh sequencer, counted from 0.\<close>

definition numbered :: "Id \<Rightarrow> nat \<Rightarrow> 'a \<Rightarrow> SequenceError + 'a StreamItem" where
  "numbered s k p =
     (if k < 2 ^ 64 - 1
      then Inr \<lparr>si_stream_id = s, si_sequence = Sequence (of_nat (Suc k)), si_payload = p\<rparr>
      else Inl (Exhausted s Sequence_MAX))"

definition after_emissions :: "Id \<Rightarrow> nat \<Rightarrow> StreamSequencer" where
  "after_emissions s k =
     (if k < 2 ^ 64 - 1
      then \<lparr>sq_stream_id = s, sq_next_sequence = Sequence (of_nat (Suc k)), sq_exhausted = False\<rparr>
      else \<lparr>sq_stream_id = s, sq_next_sequence = Sequence_MAX, sq_exhausted = True\<rparr>)"

lemma Sequence_checked_next_of_nat:
  assumes "n < 2 ^ 64"
  shows "Sequence_checked_next (Sequence (of_nat n)) =
           (if Suc n < 2 ^ 64 then Some (Sequence (of_nat (Suc n))) else None)"
proof -
  have "unat (of_nat n :: u64) = n" using assms by (simp add: unat_of_nat)
  then show ?thesis
    by (simp add: Sequence_checked_next_def checked_add_u64_unat ac_simps)
qed

lemma u64_max_of_nat: "u64_max = of_nat (2 ^ 64 - 1)"
  by (simp add: u64_max_def)

lemma emit_after_emissions:
  "emit (after_emissions s k) p = (after_emissions s (Suc k), numbered s k p)"
proof (cases "k < 2 ^ 64 - 1")
  case True
  then have "Suc k < 2 ^ 64" by simp
  note next_eq = Sequence_checked_next_of_nat [OF this]
  show ?thesis
  proof (cases "Suc k < 2 ^ 64 - 1")
    case True': True
    with next_eq show ?thesis
      by (simp add: emit_def after_emissions_def numbered_def)
  next
    case False
    with True have "k = 2 ^ 64 - 2" by linarith
    then show ?thesis using next_eq
      by (simp add: emit_def after_emissions_def numbered_def Sequence_MAX_def u64_max_def Let_def)
  qed
next
  case False
  then show ?thesis by (simp add: emit_def after_emissions_def numbered_def)
qed

lemma StreamSequencer_new_after: "StreamSequencer_new s = after_emissions s 0"
  by (simp add: StreamSequencer_new_def after_emissions_def Sequence_FIRST_def)

lemma emit_all_after:
  "emit_all (after_emissions s k) ps =
     (after_emissions s (k + length ps), map (\<lambda>(i, p). numbered s i p) (enumerate k ps))"
  by (induction ps arbitrary: k) (simp_all add: emit_after_emissions del: One_nat_def)

section \<open>Classification\<close>

text \<open>
  What a tracker should report for a value \<open>n\<close> when \<open>seen\<close> is the greatest value seen
  so far, 0 when nothing was seen.
\<close>

definition seen :: "SequenceTracker \<Rightarrow> nat" where
  "seen t = (case st_last t of None \<Rightarrow> 0 | Some s \<Rightarrow> unat (sequence_get s))"

definition seq_value :: "'a StreamItem \<Rightarrow> nat" where
  "seq_value i = unat (sequence_get (si_sequence i))"

text \<open>Items carry numbers from 1 on: a sequencer never emits 0.\<close>

definition positive :: "'a StreamItem \<Rightarrow> bool" where
  "positive i \<longleftrightarrow> 0 < seq_value i"

definition expected_observation :: "nat \<Rightarrow> 'a StreamItem \<Rightarrow> SequenceObservation" where
  "expected_observation m i =
     (if seq_value i \<le> m then DuplicateOrReordered (Sequence (of_nat m)) (si_sequence i)
      else if m = 0 \<and> seq_value i = 1 then First (si_sequence i)
      else if seq_value i = Suc m then InOrder (si_sequence i)
      else Gap (Sequence (of_nat (Suc m))) (si_sequence i))"

lemma Sequence_value_eq: "a = b \<longleftrightarrow> unat (sequence_get a) = unat (sequence_get b)"
  by (cases a; cases b) (simp add: word_unat_eq_iff)

lemma seq_less_unat: "seq_less a b \<longleftrightarrow> unat (sequence_get a) < unat (sequence_get b)"
  by (simp add: seq_less_def word_less_nat_alt)

lemma of_nat_seq_value: "Sequence (of_nat (seq_value i)) = si_sequence i"
  by (simp add: seq_value_def)

lemma classify_Some:
  assumes "positive i" and "0 < unat (sequence_get c)"
  shows "classify_sequence (Some c) (si_sequence i) =
           expected_observation (unat (sequence_get c)) i"
proof (cases "Sequence_checked_next c")
  case None
  then have "unat (sequence_get c) = 2 ^ 64 - 1"
    using sequence.step_None [of c] by (simp add: unat_u64_max)
  then have "seq_value i \<le> unat (sequence_get c)"
    using unat_u64_less [of "sequence_get (si_sequence i)"] by (simp add: seq_value_def)
  with None show ?thesis by (simp add: classify_sequence_def expected_observation_def)
next
  case (Some d)
  have d: "unat (sequence_get d) = Suc (unat (sequence_get c))"
    using sequence.step_Some [OF Some] .
  moreover have "d = Sequence (of_nat (unat (sequence_get d)))" by simp
  ultimately have "d = Sequence (of_nat (Suc (unat (sequence_get c))))" by (simp only:)
  with Some d assms show ?thesis
    by (auto simp: classify_sequence_def expected_observation_def seq_value_def positive_def
        seq_less_unat Sequence_value_eq)
qed

text \<open>A tracker that only observed positive items remembers a positive one.\<close>

definition tracker_ok :: "SequenceTracker \<Rightarrow> bool" where
  "tracker_ok t \<longleftrightarrow> (\<forall>c. st_last t = Some c \<longrightarrow> 0 < unat (sequence_get c))"

lemma tracker_ok_new: "tracker_ok (SequenceTracker_new s)"
  by (simp add: tracker_ok_def SequenceTracker_new_def)

lemma tracker_ok_observe: "tracker_ok t \<Longrightarrow> positive i \<Longrightarrow> tracker_ok (fst (observe t i))"
  by (auto simp: tracker_ok_def observe_def positive_def seq_value_def Let_def
      split: option.splits)

lemma seen_observe:
  assumes "si_stream_id i = st_stream_id t" and "positive i"
  shows "seen (fst (observe t i)) = max (seen t) (seq_value i)"
  using assms
  by (auto simp: observe_def seen_def seq_value_def positive_def seq_less_unat Let_def
      split: option.splits)

lemma st_stream_id_observe [simp]: "st_stream_id (fst (observe t i)) = st_stream_id t"
  by (simp add: observe_def Let_def split: option.splits)


lemma classify_None:
  assumes "positive i"
  shows "classify_sequence None (si_sequence i) = expected_observation 0 i"
  using assms
  by (auto simp: classify_sequence_def expected_observation_def seq_value_def positive_def
      Sequence_value_eq Sequence_FIRST_def)

lemma observe_result:
  assumes "si_stream_id i = st_stream_id t" and "positive i" and "tracker_ok t"
  shows "snd (observe t i) = Inr (expected_observation (seen t) i)"
  using assms classify_None [OF assms(2)] classify_Some [OF assms(2)]
  by (simp add: observe_def Let_def seen_def tracker_ok_def split: option.splits)

lemma observe_all_Cons:
  "fst (observe_all t (i # is)) = fst (observe_all (fst (observe t i)) is)"
  "snd (observe_all t (i # is)) = snd (observe t i) # snd (observe_all (fst (observe t i)) is)"
  by (simp_all add: case_prod_beta Let_def)

lemma observe_all_seen:
  assumes "\<forall>i\<in>set is. si_stream_id i = st_stream_id t \<and> positive i"
  shows "seen (fst (observe_all t is)) = fold max (map seq_value is) (seen t)
       \<and> st_stream_id (fst (observe_all t is)) = st_stream_id t"
  using assms
  by (induction "is" arbitrary: t)
    (simp_all add: observe_all_Cons seen_observe max.commute del: observe_all.simps(2))

lemma observe_all_tracker_ok:
  assumes "\<forall>i\<in>set is. positive i" and "tracker_ok t"
  shows "tracker_ok (fst (observe_all t is))"
  using assms
  by (induction "is" arbitrary: t)
    (simp_all add: observe_all_Cons tracker_ok_observe del: observe_all.simps(2))

text \<open>Consecutive items are all reported in order.\<close>

lemma observe_all_consecutive:
  assumes "tracker_ok t" and "\<forall>i\<in>set is. si_stream_id i = st_stream_id t"
    and "map seq_value is = [Suc (seen t)..<Suc (seen t) + length is]"
  shows "snd (observe_all t is) =
           map (\<lambda>i. Inr (if seq_value i = 1 then First (si_sequence i)
                         else InOrder (si_sequence i))) is"
  using assms
proof (induction "is" arbitrary: t)
  case Nil
  then show ?case by simp
next
  case (Cons i "is")
  have v: "seq_value i = Suc (seen t)" using Cons.prems(3) by (simp add: upt_rec)
  then have "positive i" by (simp add: positive_def)
  with Cons.prems(2) v have "seen (fst (observe t i)) = Suc (seen t)"
    by (simp add: seen_observe)
  moreover from Cons.prems(3)
  have "map seq_value is = [Suc (Suc (seen t))..<Suc (Suc (seen t)) + length is]"
    by (simp add: upt_rec)
  ultimately have "snd (observe_all (fst (observe t i)) is) =
      map (\<lambda>i. Inr (if seq_value i = 1 then First (si_sequence i)
                    else InOrder (si_sequence i))) is"
    using Cons.IH [OF tracker_ok_observe [OF Cons.prems(1) \<open>positive i\<close>]] Cons.prems(2)
    by simp
  moreover have "snd (observe t i) = Inr (expected_observation (seen t) i)"
    using observe_result [of i t] Cons.prems(1,2) \<open>positive i\<close> by simp
  ultimately show ?case
    using v by (simp add: observe_all_Cons expected_observation_def del: observe_all.simps(2))
qed

section \<open>Delivery\<close>

text \<open>
  A producer with an outbox of items retries the head of the outbox until the lossless
  buffer takes it; a consumer pops. \<open>True\<close> in the schedule is one attempt of the
  producer, \<open>False\<close> one pop of the consumer.
\<close>

fun deliver :: "'a LosslessBuffer \<Rightarrow> 'a StreamItem list \<Rightarrow> bool list \<Rightarrow>
    'a LosslessBuffer \<times> 'a StreamItem list \<times> 'a StreamItem list" where
  "deliver b outbox [] = (b, outbox, [])"
| "deliver b outbox (True # sched) =
     (case outbox of
        [] \<Rightarrow> deliver b [] sched
      | item # rest \<Rightarrow>
          (case lossless_try_push b item of
             (b', Inr _) \<Rightarrow> deliver b' rest sched
           | (b', Inl (Backpressure returned)) \<Rightarrow> deliver b' (returned # rest) sched))"
| "deliver b outbox (False # sched) =
     (let (b', popped) = lossless_pop b;
          (b'', outbox', received) = deliver b' outbox sched
      in (b'', outbox', (case popped of Some item \<Rightarrow> item # received | None \<Rightarrow> received)))"

lemma deliver_conserves:
  assumes "deliver b outbox sched = (b', outbox', received)"
  shows "received @ ls_items b' @ outbox' = ls_items b @ outbox"
  using assms
proof (induction b outbox sched arbitrary: received rule: deliver.induct)
  case (1 b outbox)
  then show ?case by simp
next
  case (2 b outbox sched)
  show ?case
  proof (cases outbox)
    case Nil
    with 2 show ?thesis by simp
  next
    case (Cons item rest)
    with 2 show ?thesis using lossless.push_cases [of b item] by auto
  qed
next
  case (3 b outbox sched)
  obtain c popped where pop: "lossless_pop b = (c, popped)" by fastforce
  obtain r where rest: "deliver c outbox sched = (b', outbox', r)"
    and received: "received = (case popped of Some item \<Rightarrow> item # r | None \<Rightarrow> r)"
    using 3(2) pop by (auto simp: Let_def split: prod.splits)
  have "r @ ls_items b' @ outbox' = ls_items c @ outbox"
    using 3(1) [OF pop [symmetric] refl rest] .
  then show ?case using received pop
    by (cases rule: lossless.pop_cases [of b]) auto
qed

lemma deliver_bounded:
  assumes "lossless.bounded b" and "deliver b outbox sched = (b', outbox', received)"
  shows "lossless.bounded b' \<and> ls_capacity b' = ls_capacity b"
  using assms
proof (induction b outbox sched arbitrary: received rule: deliver.induct)
  case (1 b outbox)
  then show ?case by simp
next
  case (2 b outbox sched)
  show ?case
  proof (cases outbox)
    case Nil
    with 2 show ?thesis by simp
  next
    case (Cons item rest)
    with 2 show ?thesis
      using lossless.push_cases [of b item] lossless.push_bounded [of b item] by auto
  qed
next
  case (3 b outbox sched)
  obtain c popped where pop: "lossless_pop b = (c, popped)" by fastforce
  obtain r where rest: "deliver c outbox sched = (b', outbox', r)"
    using 3(3) pop by (auto simp: Let_def split: prod.splits)
  have "lossless.bounded c" "ls_capacity c = ls_capacity b"
    using lossless.bounded_pop [OF 3(2)] lossless.pop_capacity [of b] pop by auto
  then show ?case using 3(1) [OF pop [symmetric] refl _ rest] by simp
qed

lemma LosslessBuffer_new_bounded:
  "LosslessBuffer_new c = Inr b \<Longrightarrow> lossless.bounded b \<and> ls_items b = [] \<and> ls_capacity b = c"
  by (auto simp: LosslessBuffer_new_def lossless.bounded_def split: if_splits)

text \<open>The items a fresh sequencer hands out for a list of payloads.\<close>

definition emitted :: "Id \<Rightarrow> 'a list \<Rightarrow> 'a StreamItem list" where
  "emitted s ps = map projr (filter (Not \<circ> isl) (snd (emit_all (StreamSequencer_new s) ps)))"

lemma emit_all_new:
  "snd (emit_all (StreamSequencer_new s) ps) = map (\<lambda>(i, p). numbered s i p) (enumerate 0 ps)"
  using emit_all_after [of s 0 ps] by (simp add: StreamSequencer_new_after)

lemma numbered_values:
  "map seq_value (map projr (filter (Not \<circ> isl) (map (\<lambda>(i, p). numbered s i p) (enumerate k ps))))
     = [Suc k..<min (Suc k + length ps) (max (Suc k) (2 ^ 64))]"
proof (induction ps arbitrary: k)
  case Nil
  then show ?case by simp
next
  case (Cons p ps)
  show ?case
  proof (cases "k < 2 ^ 64 - 1")
    case True
    then have "unat (of_nat (Suc k) :: u64) = Suc k" by (simp only: unat_of_nat) simp
    with True have "seq_value (projr (numbered s k p)) = Suc k" "\<not> isl (numbered s k p)"
      by (simp_all add: numbered_def seq_value_def)
    moreover define N where "N = min (Suc k + length (p # ps)) (max (Suc k) (2 ^ 64))"
    moreover have "N = min (Suc (Suc k) + length ps) (max (Suc (Suc k)) (2 ^ 64))" "Suc k < N"
      using True by (auto simp: N_def)
    ultimately show ?thesis
      using Cons.IH [of "Suc k"] by (simp only: N_def [symmetric] upt_conv_Cons) simp
  next
    case False
    then have "isl (numbered s k p)" by (simp add: numbered_def)
    with False Cons.IH [of "Suc k"] show ?thesis by simp
  qed
qed

lemma emitted_values: "map seq_value (emitted s ps) = [1..<min (Suc (length ps)) (2 ^ 64)]"
  using numbered_values [of s 0 ps] by (simp add: emitted_def emit_all_new)

lemma emitted_stream: "i \<in> set (emitted s ps) \<Longrightarrow> si_stream_id i = s"
  by (auto simp: emitted_def emit_all_new numbered_def split: if_splits)


section \<open>Telemetry\<close>

text \<open>
  A session on the lossy buffer. An offer always succeeds; the log holds, in the order of
  their removal, the items dropped by an offer (\<open>Inl\<close>) and taken by a pop (\<open>Inr\<close>).
\<close>

fun lossy_session :: "'a LossyBuffer \<Rightarrow> 'a StreamItem buffer_op list \<Rightarrow>
    'a LossyBuffer \<times> ('a StreamItem + 'a StreamItem) list" where
  "lossy_session b [] = (b, [])"
| "lossy_session b (Offer item # ops) =
     (let (b', dropped) = lossy_push b item; (b'', log) = lossy_session b' ops
      in (b'', (case dropped of Some d \<Rightarrow> Inl d # log | None \<Rightarrow> log)))"
| "lossy_session b (Take # ops) =
     (let (b', popped) = lossy_pop b; (b'', log) = lossy_session b' ops
      in (b'', (case popped of Some d \<Rightarrow> Inr d # log | None \<Rightarrow> log)))"

fun offered :: "'i buffer_op list \<Rightarrow> 'i list" where
  "offered [] = []"
| "offered (Offer i # ops) = i # offered ops"
| "offered (Take # ops) = offered ops"

definition removed :: "('i + 'i) \<Rightarrow> 'i" where
  "removed r = (case r of Inl i \<Rightarrow> i | Inr i \<Rightarrow> i)"

lemma lossy_push_cases:
  assumes "lossy.bounded b"
  shows "(length (ly_items b) < ly_capacity b \<and>
           lossy_push b i = (b\<lparr>ly_items := ly_items b @ [i]\<rparr>, None))
       \<or> (\<exists>x xs. ly_items b = x # xs \<and> length (ly_items b) = ly_capacity b \<and>
           lossy_push b i = (b\<lparr>ly_items := xs @ [i]\<rparr>, Some x))"
  using assms
  by (cases "ly_items b") (auto simp: lossy_push_def lossy.bounded_def Let_def)

lemma lossy_push_bounded:
  assumes "lossy.bounded b"
  shows "lossy.bounded (fst (lossy_push b i)) \<and>
         ly_capacity (fst (lossy_push b i)) = ly_capacity b \<and>
         ly_items (fst (lossy_push b i)) =
           drop (Suc (length (ly_items b)) - ly_capacity b) (ly_items b @ [i])"
  using lossy_push_cases [OF assms, of i] assms by (auto simp: lossy.bounded_def)

lemma lossy_session_conserves:
  assumes "lossy.bounded b" and "lossy_session b ops = (b', log)"
  shows "lossy.bounded b' \<and> ly_capacity b' = ly_capacity b \<and>
         map removed log @ ly_items b' = ly_items b @ offered ops"
  using assms
proof (induction ops arbitrary: b log rule: offered.induct)
  case 1
  then show ?case by simp
next
  case (2 i ops)
  obtain c d where push: "lossy_push b i = (c, d)" by fastforce
  then obtain r where r: "lossy_session c ops = (b', r)"
    and log: "log = (case d of Some d \<Rightarrow> Inl d # r | None \<Rightarrow> r)"
    using 2(3) by (auto simp: Let_def split: prod.splits)
  have "lossy.bounded c" "ly_capacity c = ly_capacity b"
    using lossy_push_bounded [OF 2(2), of i] push by auto
  with 2(1) [OF _ r] show ?case
    using lossy_push_cases [OF 2(2), of i] push log by (auto simp: removed_def)
next
  case (3 ops)
  obtain c d where pop: "lossy_pop b = (c, d)" by fastforce
  then obtain r where r: "lossy_session c ops = (b', r)"
    and log: "log = (case d of Some d \<Rightarrow> Inr d # r | None \<Rightarrow> r)"
    using 3(3) by (auto simp: Let_def split: prod.splits)
  have "lossy.bounded c" using lossy.bounded_pop [OF 3(2)] pop by simp
  with 3(1) [OF _ r] show ?case
    using pop log by (cases rule: lossy.pop_cases [of b]) (auto simp: removed_def)
qed

section \<open>Properties\<close>

text \<open>
  C39: A sequencer numbers the items of a stream 1, 2, 3, \<dots> without a gap up to
  \<open>2 ^ 64 - 1\<close>, never wraps, and answers every later emission with \<^verbatim>\<open>Exhausted\<close> carrying
  the stream and the greatest sequence.
\<close>
theorem sequencer_numbers_consecutively:
  "snd (emit_all (StreamSequencer_new s) ps) =
     map (\<lambda>(k, p).
            if k < 2 ^ 64 - 1
            then Inr \<lparr>si_stream_id = s, si_sequence = Sequence (of_nat (Suc k)), si_payload = p\<rparr>
            else Inl (Exhausted s Sequence_MAX))
         (enumerate 0 ps)"
  by (simp only: emit_all_new numbered_def)

text \<open>
  A tracker that has observed items \<open>is\<close> of its stream reports on the next item
  against the greatest number seen: a duplicate when it is not newer, \<^verbatim>\<open>First\<close> or
  \<^verbatim>\<open>InOrder\<close> when it is the direct successor, and otherwise the exact gap. An item of
  another stream is refused and leaves the tracker as it is.
\<close>
theorem tracker_reports_against_maximum:
  fixes s :: Id and "is" :: "'a StreamItem list" and i :: "'a StreamItem"
  defines "t \<equiv> fst (observe_all (SequenceTracker_new s) is)"
    and "m \<equiv> Max (insert 0 (seq_value ` set is))"
  assumes "\<forall>j\<in>set is. si_stream_id j = s \<and> 0 < seq_value j" and "0 < seq_value i"
  shows "snd (observe t i) =
     (if si_stream_id i \<noteq> s then Inl (StreamMismatch s (si_stream_id i))
      else Inr (if seq_value i \<le> m
                then DuplicateOrReordered (Sequence (of_nat m)) (si_sequence i)
                else if m = 0 \<and> seq_value i = 1 then First (si_sequence i)
                else if seq_value i = Suc m then InOrder (si_sequence i)
                else Gap (Sequence (of_nat (Suc m))) (si_sequence i)))
   \<and> (si_stream_id i \<noteq> s \<longrightarrow> fst (observe t i) = t)"
proof -
  have new: "st_stream_id (SequenceTracker_new s) = s" "seen (SequenceTracker_new s) = 0"
    by (simp_all add: SequenceTracker_new_def seen_def)
  have "seen t = fold max (map seq_value is) 0" and stream: "st_stream_id t = s"
    using observe_all_seen [of "is" "SequenceTracker_new s"] assms(3) new
    by (simp_all add: t_def positive_def)
  then have "seen t = m" 
    using Max.set_eq_fold [of 0 "map seq_value is"] by (simp add: m_def)
  moreover have "tracker_ok t"
    using observe_all_tracker_ok [OF _ tracker_ok_new [of s], of "is"] assms(3)
    by (simp add: t_def positive_def)
  ultimately show ?thesis
    using observe_result [of i t] assms(4) stream
    by (simp add: positive_def expected_observation_def observe_def)
qed

theorem tracker_reports_against_maximum_witness:
  "let item = (\<lambda>n. \<lparr>si_stream_id = Id ''s'', si_sequence = Sequence n, si_payload = ()\<rparr>);
       t = fst (observe_all (SequenceTracker_new (Id ''s'')) [item 1, item 4, item 2])
   in snd (observe t (item 7)) = Inr (Gap (Sequence 5) (Sequence 7))"
  using tracker_reports_against_maximum
    [of "map (\<lambda>n. \<lparr>si_stream_id = Id ''s'', si_sequence = Sequence n, si_payload = ()\<rparr>) [1, 4, 2]"
      "Id ''s''" "\<lparr>si_stream_id = Id ''s'', si_sequence = Sequence 7, si_payload = ()\<rparr>"]
  by (simp add: Let_def seq_value_def)

text \<open>
  End to end: the items a sequencer emits, sent by a retrying producer through a
  lossless buffer under any schedule of pushes and pops, reach the consumer as a prefix of
  the emitted sequence. What is missing is pending in the buffer or still with the
  producer, and a tracker reports \<^verbatim>\<open>First\<close> for the first item and \<^verbatim>\<open>InOrder\<close> for every
  other one.
\<close>
theorem lossless_delivery:
  assumes "LosslessBuffer_new c = Inr b"
    and "deliver b (emitted s ps) sched = (b', outbox, received)"
  shows "received @ ls_items b' @ outbox = emitted s ps
       \<and> length (ls_items b') \<le> c
       \<and> snd (observe_all (SequenceTracker_new s) received) =
           map (\<lambda>i. Inr (if si_sequence i = Sequence_FIRST then First (si_sequence i)
                         else InOrder (si_sequence i))) received"
proof -
  note new = LosslessBuffer_new_bounded [OF assms(1)]
  have all: "received @ ls_items b' @ outbox = emitted s ps"
    using deliver_conserves [OF assms(2)] new by simp
  then have prefix: "received = take (length received) (emitted s ps)"
    by (metis append_eq_conv_conj)
  obtain N where N: "map seq_value (emitted s ps) = [1..<N]" using emitted_values by blast
  then have "length (emitted s ps) = N - 1" by (metis length_map length_upt)
  then have "length received \<le> N - 1" using arg_cong [OF all, of length] by simp
  moreover have "map seq_value received = take (length received) [1..<N]"
    by (subst prefix) (simp only: take_map [symmetric] N)
  moreover have "1 + length received \<le> N \<or> received = []"
    using \<open>length received \<le> N - 1\<close> by (cases received) auto
  ultimately have "map seq_value received = [1..<1 + length received]"
    using take_upt [of 1 "length received" N] by auto
  moreover have "\<forall>i\<in>set received. si_stream_id i = s"
    using all emitted_stream [of _ s ps] by (metis Un_iff set_append)
  ultimately have "snd (observe_all (SequenceTracker_new s) received) =
      map (\<lambda>i. Inr (if seq_value i = 1 then First (si_sequence i)
                    else InOrder (si_sequence i))) received"
    using observe_all_consecutive [OF tracker_ok_new [of s], of received]
    by (simp add: SequenceTracker_new_def seen_def)
  moreover have "seq_value i = 1 \<longleftrightarrow> si_sequence i = Sequence_FIRST" for i :: "'a StreamItem"
    by (simp add: seq_value_def Sequence_value_eq Sequence_FIRST_def)
  ultimately show ?thesis
    using all deliver_bounded [OF _ assms(2)] new by (simp add: lossless.bounded_def)
qed

theorem lossless_delivery_witness:
  "let b = \<lparr>ls_capacity = 1, ls_items = []\<rparr>;
       r = deliver b (emitted (Id ''s'') [10 :: nat, 20, 30]) [True, True, False, True, False, True]
   in map si_payload (snd (snd r)) = [10, 20] \<and>
      snd (observe_all (SequenceTracker_new (Id ''s'')) (snd (snd r))) =
        [Inr (First (Sequence 1)), Inr (InOrder (Sequence 2))]"
proof -
  let ?b = "\<lparr>ls_capacity = 1, ls_items = []\<rparr> :: nat LosslessBuffer"
  let ?r = "deliver ?b (emitted (Id ''s'') [10 :: nat, 20, 30]) [True, True, False, True, False, True]"
  have received: "snd (snd ?r) =
      [\<lparr>si_stream_id = Id ''s'', si_sequence = Sequence 1, si_payload = 10\<rparr>,
       \<lparr>si_stream_id = Id ''s'', si_sequence = Sequence 2, si_payload = 20\<rparr>]"
    by code_simp
  have new: "LosslessBuffer_new 1 = Inr ?b" by (simp add: LosslessBuffer_new_def)
  have split: "?r = (fst ?r, fst (snd ?r), snd (snd ?r))" by simp
  have "snd (observe_all (SequenceTracker_new (Id ''s'')) (snd (snd ?r))) =
      map (\<lambda>i. Inr (if si_sequence i = Sequence_FIRST then First (si_sequence i)
                    else InOrder (si_sequence i))) (snd (snd ?r))"
    using lossless_delivery [OF new split] by blast
  then show ?thesis unfolding Let_def received by (simp add: Sequence_FIRST_def)
qed

text \<open>
  Whatever producers and consumers do, a coalescing buffer never exceeds its capacity
  and holds at most one item per stream and key. A further push drops exactly the pending
  item of the same identity, keeps the others in order and queues the new item last; it
  is refused, with the item handed back and the buffer unchanged, exactly when the buffer
  is full of other identities.
\<close>
theorem coalescing_keeps_newest:
  assumes "CoalescingBuffer_new c = Inr b0"
    and "buffer_session coalescing_try_push coalescing_pop b0 ops = (b, accepted, taken)"
  shows "distinct (map (\<lambda>e. (ki_key e, si_stream_id (ki_item e))) (cb_items b))
       \<and> length (cb_items b) \<le> c
       \<and> coalescing_try_push b item =
           (if length (cb_items b) = c \<and> \<not> (\<exists>e\<in>set (cb_items b). identity e = identity item)
            then (b, Inl (Backpressure item))
            else (b\<lparr>cb_items := filter (\<lambda>e. identity e \<noteq> identity item) (cb_items b) @ [item]\<rparr>,
                  Inr ()))"
proof -
  have new: "coalescing.bounded b0" "cb_capacity b0 = c" "one_per_identity b0"
    using assms(1)
    by (auto simp: CoalescingBuffer_new_def coalescing.bounded_def one_per_identity_def
        split: if_splits)
  have one: "one_per_identity b" using one_per_identity_session [OF new(3) assms(2)] .
  have cap: "coalescing.bounded b" "cb_capacity b = c"
    using coalescing.session_bounded [OF new(1) assms(2)] new(2) by auto
  have "position (same_identity item) (cb_items b) = None \<longleftrightarrow>
          \<not> (\<exists>e\<in>set (cb_items b). identity e = identity item)"
    by (auto simp: position_None_iff same_identity_iff)
  moreover have "\<not> (\<exists>e\<in>set (cb_items b). identity e = identity item) \<Longrightarrow>
      filter (\<lambda>e. identity e \<noteq> identity item) (cb_items b) = cb_items b"
    by (auto simp: filter_id_conv)
  moreover note coalesce_keep_filter [OF one, of item]
  ultimately have "coalescing_try_push b item =
           (if length (cb_items b) = c \<and> \<not> (\<exists>e\<in>set (cb_items b). identity e = identity item)
            then (b, Inl (Backpressure item))
            else (b\<lparr>cb_items := filter (\<lambda>e. identity e \<noteq> identity item) (cb_items b) @ [item]\<rparr>,
                  Inr ()))"
    using cap(2) by (auto simp: coalescing_try_push_def coalesce_keep_def split: option.splits)
  then show ?thesis
    using one cap by (simp add: one_per_identity_def identity_def [abs_def] coalescing.bounded_def)
qed

theorem coalescing_keeps_newest_witness:
  "let item = (\<lambda>k n. \<lparr>ki_key = k, ki_item =
          \<lparr>si_stream_id = Id ''s'', si_sequence = Sequence n, si_payload = ()\<rparr>\<rparr>);
       b = fst (buffer_session coalescing_try_push coalescing_pop
             \<lparr>cb_capacity = 2, cb_items = []\<rparr> [Offer (item ''a'' 1), Offer (item ''b'' 2)])
   in snd (coalescing_try_push b (item ''c'' 3)) = Inl (Backpressure (item ''c'' 3)) \<and>
      cb_items (fst (coalescing_try_push b (item ''a'' 3))) = [item ''b'' 2, item ''a'' 3]"
proof -
  let ?item = "\<lambda>k n. \<lparr>ki_key = k, ki_item =
          \<lparr>si_stream_id = Id ''s'', si_sequence = Sequence n, si_payload = ()\<rparr>\<rparr>"
  let ?init = "\<lparr>cb_capacity = 2, cb_items = []\<rparr> :: (string, unit) CoalescingBuffer"
  let ?b = "\<lparr>cb_capacity = 2, cb_items = [?item ''a'' 1, ?item ''b'' 2]\<rparr>"
  have new: "CoalescingBuffer_new 2 = Inr ?init" by (simp add: CoalescingBuffer_new_def)
  have session: "buffer_session coalescing_try_push coalescing_pop ?init
      [Offer (?item ''a'' 1), Offer (?item ''b'' 2)]
      = (?b, [?item ''a'' 1, ?item ''b'' 2], [])"
    by (simp add: coalescing_try_push_def same_identity_def)
  show ?thesis
    using coalescing_keeps_newest [OF new session, of "?item ''a'' 3"]
      coalescing_keeps_newest [OF new session, of "?item ''c'' 3"]
    by (simp only: Let_def session) (simp add: identity_def)
qed

text \<open>
  A lossy buffer never exceeds its capacity and loses nothing silently: the items
  removed, each one reported as dropped or popped, followed by the pending ones, are the
  offered items in order. Draining afterwards returns exactly the pending items and leaves
  the buffer empty.
\<close>
theorem lossy_accounts_for_every_item:
  assumes "LossyBuffer_new c = Inr b0" and "lossy_session b0 ops = (b, log)"
  shows "length (ly_items b) \<le> c
       \<and> map removed log @ ly_items b = offered ops
       \<and> snd (drain_lossy b) = ly_items b
       \<and> ly_items (fst (drain_lossy b)) = []"
proof -
  have "lossy.bounded b0" "ly_items b0 = []" "ly_capacity b0 = c"
    using assms(1) by (auto simp: LossyBuffer_new_def lossy.bounded_def split: if_splits)
  then show ?thesis
    using lossy_session_conserves [OF _ assms(2)] lossy.drain_correct [of b]
    by (auto simp: lossy.bounded_def)
qed

theorem lossy_accounts_for_every_item_witness:
  "let item = (\<lambda>n. \<lparr>si_stream_id = Id ''s'', si_sequence = Sequence n, si_payload = ()\<rparr>);
       r = lossy_session \<lparr>ly_capacity = 1, ly_items = []\<rparr>
             [Offer (item 1), Offer (item 2), Take, Offer (item 3)]
   in snd r = [Inl (item 1), Inr (item 2)] \<and> ly_items (fst r) = [item 3] \<and>
      snd (drain_lossy (fst r)) = [item 3]"
proof -
  let ?item = "\<lambda>n. \<lparr>si_stream_id = Id ''s'', si_sequence = Sequence n, si_payload = ()\<rparr>"
  let ?init = "\<lparr>ly_capacity = 1, ly_items = []\<rparr> :: unit LossyBuffer"
  have new: "LossyBuffer_new 1 = Inr ?init" by (simp add: LossyBuffer_new_def)
  have session: "lossy_session ?init [Offer (?item 1), Offer (?item 2), Take, Offer (?item 3)]
      = (\<lparr>ly_capacity = 1, ly_items = [?item 3]\<rparr>, [Inl (?item 1), Inr (?item 2)])"
    by (simp add: lossy_push_def lossy_pop_def)
  show ?thesis
    using lossy_accounts_for_every_item [OF new session] by (simp only: Let_def session) simp
qed

end
