(* ===== verification/Capability_Graph.thy ===== *)
theory Capability_Graph
  imports Kernel_Core Dependency_Dfs
begin

text \<open>
  The definitions and the resolver of the crate \<^verbatim>\<open>capability-graph\<close>
  (\<^verbatim>\<open>definition.rs\<close>, \<^verbatim>\<open>resolver.rs\<close>): capability definitions with their dependency
  sets, generations, and the depth-first resolution into a construction order.
\<close>

section \<open>Definitions\<close>

record Capability =
  c_id :: Id
  c_kind :: string

definition Capability_new :: "Id \<Rightarrow> string \<Rightarrow> Capability" where
  "Capability_new i kind = \<lparr>c_id = i, c_kind = kind\<rparr>"

datatype Dependency = Dependency (dep_id: Id)

text \<open>The derived order of \<^verbatim>\<open>Dependency\<close> is the order of its identifier.\<close>

instantiation Dependency :: linorder
begin

definition less_eq_Dependency :: "Dependency \<Rightarrow> Dependency \<Rightarrow> bool" where
  "less_eq_Dependency a b \<longleftrightarrow> dep_id a \<le> dep_id b"

definition less_Dependency :: "Dependency \<Rightarrow> Dependency \<Rightarrow> bool" where
  "less_Dependency a b \<longleftrightarrow> dep_id a < dep_id b"

instance
  by standard (auto simp: less_eq_Dependency_def less_Dependency_def Dependency.expand)

end

record CapabilityDefinition =
  cd_id :: Id
  cd_kind :: string
  cd_replay_identity :: string
  cd_dependencies :: "Dependency fset"

definition CapabilityDefinition_new :: "Id \<Rightarrow> string \<Rightarrow> CapabilityDefinition" where
  "CapabilityDefinition_new i kind =
     \<lparr>cd_id = i, cd_kind = kind, cd_replay_identity = as_str i @ '':'' @ kind,
      cd_dependencies = {||}\<rparr>"

definition with_replay_identity :: "CapabilityDefinition \<Rightarrow> string \<Rightarrow> CapabilityDefinition" where
  "with_replay_identity d replay_identity = d\<lparr>cd_replay_identity := replay_identity\<rparr>"

definition depends_on :: "CapabilityDefinition \<Rightarrow> Id \<Rightarrow> CapabilityDefinition" where
  "depends_on d dependency =
     d\<lparr>cd_dependencies := finsert (Dependency dependency) (cd_dependencies d)\<rparr>"

definition definition_add_dependency :: "CapabilityDefinition \<Rightarrow> Id \<Rightarrow> CapabilityDefinition" where
  "definition_add_dependency d dependency =
     d\<lparr>cd_dependencies := finsert (Dependency dependency) (cd_dependencies d)\<rparr>"

definition definition_from_capability :: "Capability \<Rightarrow> CapabilityDefinition" where
  "definition_from_capability c = CapabilityDefinition_new (c_id c) (c_kind c)"

section \<open>Generations and entry identities\<close>

datatype Generation = Generation (generation_get: u64)

definition Generation_ZERO :: Generation where
  "Generation_ZERO = Generation 0"

definition Generation_FIRST :: Generation where
  "Generation_FIRST = Generation 1"

definition Generation_MAX :: Generation where
  "Generation_MAX = Generation u64_max"

definition Generation_checked_next :: "Generation \<Rightarrow> Generation option" where
  "Generation_checked_next g =
     (case checked_add_u64 (generation_get g) 1 of
        Some n \<Rightarrow> Some (Generation n)
      | None \<Rightarrow> None)"

text \<open>\<^verbatim>\<open>Generation::next\<close> unwraps the checked step; \<open>None\<close> is its panic.\<close>

definition Generation_next :: "Generation \<Rightarrow> Generation option" where
  "Generation_next g = Generation_checked_next g"

interpretation generation: checked_counter generation_get Generation_checked_next
  using checked_counter_newtype [of Generation generation_get]
  by (simp add: Generation_checked_next_def [abs_def])

datatype EntryId = EntryId (entry_get: u64)

section \<open>The graph\<close>

record CapabilityGraph =
  cg_definitions :: "(Id, CapabilityDefinition) fmap"

datatype CapabilityGraphError =
    UnknownCapability Id
  | MissingDependency Id Id  \<comment> \<open>capability, dependency\<close>
  | CapabilityCycle "Id list"
  | ResolverPanic  \<comment> \<open>not a value of the source: a failed \<^verbatim>\<open>expect\<close> of the walk\<close>

definition CapabilityGraph_default :: CapabilityGraph where
  "CapabilityGraph_default = \<lparr>cg_definitions = fmempty\<rparr>"

definition capability_insert :: "CapabilityGraph \<Rightarrow> CapabilityDefinition \<Rightarrow>
    CapabilityGraph \<times> CapabilityDefinition option" where
  "capability_insert g capability =
     (g\<lparr>cg_definitions := fmupd (cd_id capability) capability (cg_definitions g)\<rparr>,
      fmlookup (cg_definitions g) (cd_id capability))"

definition capability_require :: "CapabilityGraph \<Rightarrow> Id \<Rightarrow> Id \<Rightarrow>
    CapabilityGraph \<times> (CapabilityGraphError + unit)" where
  "capability_require g consumer dependency =
     (if \<not> contains_key (cg_definitions g) consumer then (g, Inl (UnknownCapability consumer))
      else if \<not> contains_key (cg_definitions g) dependency then
        (g, Inl (MissingDependency consumer dependency))
      else
        (case fmlookup (cg_definitions g) consumer of
           None \<Rightarrow> (g, Inl ResolverPanic)
         | Some d \<Rightarrow>
             (g\<lparr>cg_definitions :=
                 fmupd consumer (definition_add_dependency d dependency) (cg_definitions g)\<rparr>,
              Inr ())))"

definition definition_requirements :: "CapabilityDefinition \<Rightarrow> Id list" where
  "definition_requirements d = map dep_id (sorted_list_of_fset (cd_dependencies d))"

definition requirements_of :: "(Id, CapabilityDefinition) fmap \<Rightarrow> Id \<Rightarrow> Id list" where
  "requirements_of definitions i =
     (case fmlookup definitions i of
        None \<Rightarrow> []
      | Some d \<Rightarrow> definition_requirements d)"

definition requirements :: "CapabilityGraph \<Rightarrow> Id \<Rightarrow> Id list" where
  "requirements g capability = requirements_of (cg_definitions g) capability"

definition capability_len :: "CapabilityGraph \<Rightarrow> nat" where
  "capability_len g = length (bm_keys (cg_definitions g))"

definition capability_is_empty :: "CapabilityGraph \<Rightarrow> bool" where
  "capability_is_empty g \<longleftrightarrow> cg_definitions g = fmempty"

definition from_definitions :: "CapabilityDefinition list \<Rightarrow> CapabilityGraph" where
  "from_definitions ds = fold (\<lambda>d g. fst (capability_insert g d)) ds CapabilityGraph_default"

section \<open>Resolution\<close>

datatype ResolveState = ResolveActive | ResolveDone

record resolve_walk =
  rw_states :: "(Id, ResolveState) fmap"
  rw_active_path :: "Id list"
  rw_construction_order :: "Id list"

definition resolver_cycle :: "Id list \<Rightarrow> Id \<Rightarrow> CapabilityGraphError" where
  "resolver_cycle active_path i =
     (case position (\<lambda>active_id. active_id = i) active_path of
        None \<Rightarrow> ResolverPanic
      | Some start \<Rightarrow> CapabilityCycle (drop start active_path @ [i]))"

text \<open>
  \<open>resolver_visit\<close> is the recursive function \<^verbatim>\<open>visit\<close> of \<^verbatim>\<open>resolver.rs\<close>;
  \<open>resolver_dependencies\<close> is its loop over the dependencies and its exit.
\<close>

function (sequential) resolver_visit ::
    "(Id, CapabilityDefinition) fmap \<Rightarrow> Id \<Rightarrow> resolve_walk \<Rightarrow> CapabilityGraphError + resolve_walk"
  and resolver_dependencies ::
    "(Id, CapabilityDefinition) fmap \<Rightarrow> Id \<Rightarrow> Id list \<Rightarrow> resolve_walk
      \<Rightarrow> CapabilityGraphError + resolve_walk"
where
  "resolver_visit definitions i w =
     (case fmlookup (rw_states w) i of
        Some ResolveDone \<Rightarrow> Inr w
      | Some ResolveActive \<Rightarrow> Inl (resolver_cycle (rw_active_path w) i)
      | None \<Rightarrow>
          (case fmlookup definitions i of
             None \<Rightarrow> Inl ResolverPanic
           | Some d \<Rightarrow>
               resolver_dependencies definitions i (definition_requirements d)
                 (w\<lparr>rw_states := fmupd i ResolveActive (rw_states w),
                    rw_active_path := rw_active_path w @ [i]\<rparr>)))"
| "resolver_dependencies definitions i [] w =
     Inr (w\<lparr>rw_active_path := butlast (rw_active_path w),
            rw_states := fmupd i ResolveDone (rw_states w),
            rw_construction_order := rw_construction_order w @ [i]\<rparr>)"
| "resolver_dependencies definitions i (dependency # ds) w =
     (if \<not> contains_key definitions dependency then Inl (MissingDependency i dependency)
      else
        (case resolver_visit definitions dependency w of
           Inl e \<Rightarrow> Inl e
         | Inr w' \<Rightarrow> resolver_dependencies definitions i ds w'))"
  by pat_completeness auto

lemma resolver_states_mono:
  "resolver_visit_resolver_dependencies_dom (Inl (defs, i, w)) \<Longrightarrow>
     resolver_visit defs i w = Inr w' \<Longrightarrow> fmdom' (rw_states w) \<subseteq> fmdom' (rw_states w')"
  "resolver_visit_resolver_dependencies_dom (Inr (defs, i, ds, w)) \<Longrightarrow>
     resolver_dependencies defs i ds w = Inr w' \<Longrightarrow>
     fmdom' (rw_states w) \<subseteq> fmdom' (rw_states w')"
  by (induction arbitrary: w' and w' rule: resolver_visit_resolver_dependencies.pinduct)
     (fastforce simp: resolver_visit.psimps resolver_dependencies.psimps
        split: option.splits ResolveState.splits sum.splits if_splits)+

text \<open>
  The walk ends: entering a capability marks one more registered identifier, and every
  other call shortens the list of dependencies.
\<close>

fun resolver_measure ::
    "(Id, CapabilityDefinition) fmap \<times> Id \<times> resolve_walk +
     (Id, CapabilityDefinition) fmap \<times> Id \<times> Id list \<times> resolve_walk \<Rightarrow> nat \<times> nat" where
  "resolver_measure (Inl (defs, i, w)) = (card (fmdom' defs - fmdom' (rw_states w)), 0)"
| "resolver_measure (Inr (defs, i, ds, w)) =
     (card (fmdom' defs - fmdom' (rw_states w)), length ds)"

termination resolver_visit
proof (relation "inv_image (less_than <*lex*> less_than) resolver_measure", goal_cases)
  case 1
  then show ?case by auto
next
  case (2 defs i w d)
  then have "i \<in> fmdom' defs - fmdom' (rw_states w)"
    by (auto simp: fmlookup_dom'_iff)
  then have "card (fmdom' defs - insert i (fmdom' (rw_states w)))
      < card (fmdom' defs - fmdom' (rw_states w))"
    by (intro psubset_card_mono) auto
  then show ?case by simp
next
  case (3 defs i d ds w)
  then show ?case by simp
next
  case (4 defs i d ds w w')
  then have "fmdom' (rw_states w) \<subseteq> fmdom' (rw_states w')"
    using resolver_states_mono(1) [of defs d w w'] by simp
  then have "card (fmdom' defs - fmdom' (rw_states w')) \<le> card (fmdom' defs - fmdom' (rw_states w))"
    by (intro card_mono) auto
  then show ?case by (auto simp: le_less)
qed

record ResolvedCapabilityGraph =
  rg_construction_order :: "Id list"

definition teardown_order :: "ResolvedCapabilityGraph \<Rightarrow> Id list" where
  "teardown_order r = rev (rg_construction_order r)"

definition resolve :: "CapabilityGraph \<Rightarrow> CapabilityGraphError + ResolvedCapabilityGraph" where
  "resolve g =
     (case try_fold (\<lambda>w i. resolver_visit (cg_definitions g) i w)
             \<lparr>rw_states = fmempty, rw_active_path = [], rw_construction_order = []\<rparr>
             (bm_keys (cg_definitions g)) of
        Inl e \<Rightarrow> Inl e
      | Inr w \<Rightarrow> Inr \<lparr>rg_construction_order = rw_construction_order w\<rparr>)"

record ValidatedCapabilityDefinition =
  vd_definition :: CapabilityDefinition
  vd_resolution :: ResolvedCapabilityGraph

definition validate_candidate :: "CapabilityGraph \<Rightarrow> CapabilityDefinition \<Rightarrow>
    CapabilityGraphError + ValidatedCapabilityDefinition" where
  "validate_candidate g candidate =
     (case resolve (fst (capability_insert g candidate)) of
        Inl e \<Rightarrow> Inl e
      | Inr resolution \<Rightarrow> Inr \<lparr>vd_definition = candidate, vd_resolution = resolution\<rparr>)"

end
