(* ===== verification/Capability_Resolution.thy ===== *)
theory Capability_Resolution
  imports Capability_Graph
begin

text \<open>
  Correctness of the capability resolver: a construction order is complete, duplicate-free
  and dependency-first; an error is a genuine cycle or a genuinely missing dependency; and
  resolution succeeds exactly on the closed acyclic graphs, whatever the order in which
  the definitions were inserted.
\<close>

section \<open>The invariant of the walk\<close>

lemma requirements_support: "support (requirements_of defs) \<subseteq> fmdom' defs"
  by (auto simp: support_def requirements_of_def fmlookup_dom'_iff split: option.splits)

interpretation requirement: dependency_graph "requirements_of defs" for defs
  by unfold_locales (rule finite_subset [OF requirements_support], simp)

text \<open>Every element comes after all of its requirements.\<close>

definition dependency_first :: "('a \<Rightarrow> 'a list) \<Rightarrow> 'a list \<Rightarrow> bool" where
  "dependency_first succ order \<longleftrightarrow>
     (\<forall>k<length order. set (succ (order ! k)) \<subseteq> set (take k order))"

lemma dependency_first_snoc:
  "dependency_first succ (order @ [x]) \<longleftrightarrow>
     dependency_first succ order \<and> set (succ x) \<subseteq> set order"
  by (auto simp: dependency_first_def nth_append less_Suc_eq)

definition walk_inv :: "(Id, CapabilityDefinition) fmap \<Rightarrow> resolve_walk \<Rightarrow> bool" where
  "walk_inv defs w \<longleftrightarrow>
     (\<forall>i. fmlookup (rw_states w) i = Some ResolveActive \<longleftrightarrow> i \<in> set (rw_active_path w)) \<and>
     (\<forall>i. fmlookup (rw_states w) i = Some ResolveDone \<longleftrightarrow> i \<in> set (rw_construction_order w)) \<and>
     dfs_inv (requirements_of defs) (set (rw_construction_order w)) (rw_active_path w) \<and>
     distinct (rw_construction_order w) \<and>
     set (rw_construction_order w) \<subseteq> fmdom' defs \<and>
     dependency_first (requirements_of defs) (rw_construction_order w)"

text \<open>What an error of the resolver means.\<close>

definition genuine_error :: "(Id, CapabilityDefinition) fmap \<Rightarrow> CapabilityGraphError \<Rightarrow> bool" where
  "genuine_error defs e \<longleftrightarrow>
     (\<exists>p. e = CapabilityCycle p \<and> closed_path (requirements_of defs) p) \<or>
     (\<exists>c d. e = MissingDependency c d \<and> d \<in> set (requirements_of defs c) \<and> \<not> contains_key defs d)"

definition walk_post :: "(Id, CapabilityDefinition) fmap \<Rightarrow> Id \<Rightarrow> resolve_walk \<Rightarrow> Id list \<Rightarrow>
    CapabilityGraphError + resolve_walk \<Rightarrow> bool" where
  "walk_post defs i w path res \<longleftrightarrow>
     (case res of
        Inl e \<Rightarrow> genuine_error defs e
      | Inr w' \<Rightarrow> walk_inv defs w' \<and> rw_active_path w' = path \<and>
          set (rw_construction_order w) \<subseteq> set (rw_construction_order w') \<and>
          i \<in> set (rw_construction_order w'))"

lemma walk_inv_None:
  assumes "walk_inv defs w" and "fmlookup (rw_states w) i = None"
  shows "i \<notin> set (rw_active_path w) \<and> i \<notin> set (rw_construction_order w)"
  using assms unfolding walk_inv_def by (metis option.distinct(1))

lemma walk_inv_enter:
  assumes "walk_inv defs w" and "fmlookup (rw_states w) i = None"
    and "rw_active_path w \<noteq> [] \<Longrightarrow> i \<in> set (requirements_of defs (last (rw_active_path w)))"
  shows "walk_inv defs (w\<lparr>rw_states := fmupd i ResolveActive (rw_states w),
                          rw_active_path := rw_active_path w @ [i]\<rparr>)"
proof -
  have new: "i \<notin> set (rw_active_path w)" "i \<notin> set (rw_construction_order w)"
    using walk_inv_None [OF assms(1,2)] by auto
  have "dfs_inv (requirements_of defs) (set (rw_construction_order w)) (rw_active_path w @ [i])"
    using assms new by (intro dfs_inv_push) (auto simp: walk_inv_def)
  with assms(1) new show ?thesis by (auto simp: walk_inv_def)
qed

lemma walk_inv_leave:
  assumes inv: "walk_inv defs w" and path: "rw_active_path w = base @ [i]"
    and known: "contains_key defs i"
    and finished: "set (requirements_of defs i) \<subseteq> set (rw_construction_order w)"
  shows "walk_inv defs (w\<lparr>rw_active_path := base,
            rw_states := fmupd i ResolveDone (rw_states w),
            rw_construction_order := rw_construction_order w @ [i]\<rparr>)"
proof -
  have dfs: "dfs_inv (requirements_of defs) (set (rw_construction_order w)) (base @ [i])"
    using inv path by (simp add: walk_inv_def)
  then have "dfs_inv (requirements_of defs) (insert i (set (rw_construction_order w))) base"
    using finished by (rule dfs_inv_pop)
  moreover from dfs have "i \<notin> set base" and "i \<notin> set (rw_construction_order w)"
    by (auto simp: dfs_inv_def)
  ultimately show ?thesis
    using inv path known finished
    by (auto simp: walk_inv_def dependency_first_snoc contains_key_def fmlookup_dom'_iff)
qed

lemma resolver_cycle_genuine:
  assumes inv: "walk_inv defs w" and "fmlookup (rw_states w) i = Some ResolveActive"
    and "i \<in> set (requirements_of defs (last (rw_active_path w)))"
  shows "genuine_error defs (resolver_cycle (rw_active_path w) i)"
proof -
  have mem: "i \<in> set (rw_active_path w)" using assms by (auto simp: walk_inv_def)
  then obtain k where k: "position (\<lambda>c. c = i) (rw_active_path w) = Some k"
    using position_None_iff [of "\<lambda>c. c = i" "rw_active_path w"] by fastforce
  have "closed_path (requirements_of defs) (dropWhile (\<lambda>x. x \<noteq> i) (rw_active_path w) @ [i])"
    using inv mem assms(3) by (intro dfs_inv_back_edge) (auto simp: walk_inv_def)
  then show ?thesis
    using k position_Some_drop [OF k] by (simp add: resolver_cycle_def genuine_error_def)
qed

lemma walk_active_empty:
  assumes "walk_inv defs w" and "rw_active_path w = []"
  shows "fmlookup (rw_states w) i \<noteq> Some ResolveActive"
  using assms by (auto simp: walk_inv_def)

lemma resolver_correct:
  "walk_inv defs w \<Longrightarrow> contains_key defs i \<Longrightarrow>
     (rw_active_path w \<noteq> [] \<Longrightarrow> i \<in> set (requirements_of defs (last (rw_active_path w)))) \<Longrightarrow>
     walk_post defs i w (rw_active_path w) (resolver_visit defs i w)"
  "walk_inv defs w \<Longrightarrow> rw_active_path w = base @ [i] \<Longrightarrow> contains_key defs i \<Longrightarrow>
     set ds \<subseteq> set (requirements_of defs i) \<Longrightarrow>
     set (requirements_of defs i) \<subseteq> set ds \<union> set (rw_construction_order w) \<Longrightarrow>
     walk_post defs i w base (resolver_dependencies defs i ds w)"
proof (induction defs i w and defs i ds w arbitrary: and base
    rule: resolver_visit_resolver_dependencies.induct)
  case (1 defs i w)
  show ?case
  proof (cases "fmlookup (rw_states w) i")
    case (Some m)
    show ?thesis
    proof (cases m)
      case ResolveActive
      with Some 1 have "rw_active_path w \<noteq> []" using walk_active_empty by blast
      with Some ResolveActive 1 show ?thesis
        using resolver_cycle_genuine [of defs w i] by (simp add: walk_post_def)
    next
      case ResolveDone
      with Some 1(2) have "i \<in> set (rw_construction_order w)" by (simp add: walk_inv_def)
      with Some ResolveDone 1(2) show ?thesis by (simp add: walk_post_def)
    qed
  next
    case None
    from 1(3) obtain d where d: "fmlookup defs i = Some d" by (auto simp: contains_key_def)
    then have req: "requirements_of defs i = definition_requirements d"
      by (simp add: requirements_of_def)
    have enter: "walk_inv defs (w\<lparr>rw_states := fmupd i ResolveActive (rw_states w),
        rw_active_path := rw_active_path w @ [i]\<rparr>)"
      using 1(2) None 1(4) by (rule walk_inv_enter)
    show ?thesis
      using 1(1) [OF None d enter _ 1(3)] None d req by (simp add: walk_post_def split: sum.splits)
  qed
next
  case (2 defs i w)
  then show ?case
    using walk_inv_leave [of defs w base i] by (auto simp: walk_post_def)
next
  case (3 defs i d ds w)
  show ?case
  proof (cases "contains_key defs d")
    case False
    with 3(6) show ?thesis by (auto simp: walk_post_def genuine_error_def)
  next
    case True
    have visit: "walk_post defs d w (rw_active_path w) (resolver_visit defs d w)"
      using 3(1) [of ] True 3(3,4,6) by simp
    show ?thesis
    proof (cases "resolver_visit defs d w")
      case (Inl e)
      with visit True show ?thesis by (simp add: walk_post_def)
    next
      case (Inr w')
      with visit have w': "walk_inv defs w'" "rw_active_path w' = base @ [i]"
        "set (rw_construction_order w) \<subseteq> set (rw_construction_order w')"
        "d \<in> set (rw_construction_order w')"
        using 3(4) by (auto simp: walk_post_def)
      then have "walk_post defs i w' base (resolver_dependencies defs i ds w')"
        using 3(2) [OF _ Inr] True 3(5-7) by auto
      with True Inr w' show ?thesis by (auto simp: walk_post_def split: sum.splits)
    qed
  qed
qed

section \<open>Resolution\<close>

lemma resolve_fold_correct:
  assumes "walk_inv defs w" and "rw_active_path w = []" and "\<forall>i\<in>set is. contains_key defs i"
  shows "case try_fold (\<lambda>w i. resolver_visit defs i w) w is of
           Inl e \<Rightarrow> genuine_error defs e
         | Inr w' \<Rightarrow> walk_inv defs w' \<and>
             set (rw_construction_order w) \<union> set is \<subseteq> set (rw_construction_order w')"
  using assms
proof (induction "is" arbitrary: w)
  case Nil
  then show ?case by simp
next
  case (Cons i "is")
  have post: "walk_post defs i w [] (resolver_visit defs i w)"
    using resolver_correct(1) [of defs w i] Cons.prems by simp
  show ?case
  proof (cases "resolver_visit defs i w")
    case (Inl e)
    with post show ?thesis by (simp add: walk_post_def)
  next
    case (Inr w')
    with post Cons.prems(3) show ?thesis
      using Cons.IH [of w'] by (fastforce simp: walk_post_def split: sum.splits)
  qed
qed

lemma resolve_cases:
  obtains (error) e where "resolve g = Inl e" "genuine_error (cg_definitions g) e"
  | (order) w where "resolve g = Inr \<lparr>rg_construction_order = rw_construction_order w\<rparr>"
      "walk_inv (cg_definitions g) w"
      "set (rw_construction_order w) = fmdom' (cg_definitions g)"
proof -
  let ?w = "\<lparr>rw_states = fmempty, rw_active_path = [], rw_construction_order = []\<rparr>"
  have "walk_inv (cg_definitions g) ?w"
    by (simp add: walk_inv_def dfs_inv_def dependency_first_def)
  from resolve_fold_correct [OF this, of "bm_keys (cg_definitions g)"] show thesis
    using that
    by (cases "try_fold (\<lambda>w i. resolver_visit (cg_definitions g) i w) ?w
          (bm_keys (cg_definitions g))")
      (auto simp: resolve_def walk_inv_def contains_key_def fmlookup_dom'_iff)
qed

text \<open>The abstract condition: every requirement is registered and there is no cycle.\<close>

definition resolvable :: "CapabilityGraph \<Rightarrow> bool" where
  "resolvable g \<longleftrightarrow>
     (\<forall>c. \<forall>d\<in>set (requirements g c). contains_key (cg_definitions g) d) \<and>
     acyclic (edges_of (requirements g))"

lemma requirements_eq: "requirements g = requirements_of (cg_definitions g)"
  by (simp add: requirements_def fun_eq_iff)

lemma genuine_error_not_resolvable: "genuine_error (cg_definitions g) e \<Longrightarrow> \<not> resolvable g"
  by (auto simp: genuine_error_def resolvable_def requirements_eq dest: closed_path_not_acyclic)

lemma resolve_order:
  assumes "resolve g = Inr r"
  shows "distinct (rg_construction_order r)"
    and "set (rg_construction_order r) = fmdom' (cg_definitions g)"
    and "dependency_first (requirements g) (rg_construction_order r)"
  by (cases rule: resolve_cases [of g]; use assms in \<open>auto simp: walk_inv_def requirements_eq\<close>)+

lemma resolve_Inr_resolvable:
  assumes "resolve g = Inr r"
  shows "resolvable g"
proof (cases rule: resolve_cases [of g])
  case (error e)
  with assms show ?thesis by simp
next
  case (order w)
  let ?req = "requirements_of (cg_definitions g)"
  have dfs: "dfs_inv ?req (fmdom' (cg_definitions g)) (rw_active_path w)"
    using order by (simp add: walk_inv_def)
  then have "acyclic (edges_of ?req)"
    using requirements_support by (rule dfs_inv_all_acyclic)
  moreover have "\<forall>c. \<forall>d\<in>set (?req c). contains_key (cg_definitions g) d"
  proof (intro allI ballI)
    fix c d
    assume d: "d \<in> set (?req c)"
    then have "c \<in> fmdom' (cg_definitions g)"
      using requirements_support [of "cg_definitions g"] by (force simp: support_def)
    with dfs d have "d \<in> fmdom' (cg_definitions g)" by (auto simp: dfs_inv_def)
    then show "contains_key (cg_definitions g) d"
      by (simp add: contains_key_iff fmlookup_dom'_iff)
  qed
  ultimately show ?thesis by (simp add: resolvable_def requirements_eq)
qed

lemma resolve_Inr_iff: "(\<exists>r. resolve g = Inr r) \<longleftrightarrow> resolvable g"
proof (cases rule: resolve_cases [of g])
  case (error e)
  then show ?thesis using genuine_error_not_resolvable by simp
next
  case (order w)
  then show ?thesis using resolve_Inr_resolvable by blast
qed

section \<open>Insertion order\<close>

lemma from_definitions_lookup:
  "fmlookup (cg_definitions (fold (\<lambda>d g. fst (capability_insert g d)) ds g)) i =
     (case find (\<lambda>d. cd_id d = i) (rev ds) of
        Some d \<Rightarrow> Some d
      | None \<Rightarrow> fmlookup (cg_definitions g) i)"
proof (induction ds arbitrary: g)
  case Nil
  then show ?case by simp
next
  case (Cons d ds)
  have "find p (xs @ [x]) = (case find p xs of Some y \<Rightarrow> Some y | None \<Rightarrow> if p x then Some x else None)"
    for p :: "CapabilityDefinition \<Rightarrow> bool" and xs x
    by (induction xs) auto
  with Cons show ?case by (auto simp: capability_insert_def split: option.splits)
qed

lemma find_distinct_key:
  assumes "distinct (map f xs)"
  shows "find (\<lambda>x. f x = k) xs = Some x \<longleftrightarrow> x \<in> set xs \<and> f x = k"
  using assms by (induction xs) force+

lemma from_definitions_unique:
  assumes "distinct (map cd_id ds)"
  shows "fmlookup (cg_definitions (from_definitions ds)) i = Some d \<longleftrightarrow> d \<in> set ds \<and> cd_id d = i"
proof -
  have "distinct (map cd_id (rev ds))" using assms by (simp add: rev_map [symmetric])
  then show ?thesis
    using find_distinct_key [of cd_id "rev ds" i d]
    by (auto simp: from_definitions_def from_definitions_lookup CapabilityGraph_default_def
        split: option.splits)
qed

end
