(* ===== verification/Capability_Properties.thy ===== *)
theory Capability_Properties
  imports Capability_Resolution
begin

text \<open>The properties of capability resolution and admission.\<close>

text \<open>A graph used by the witnesses: the capability \<open>app\<close> requires \<open>db\<close> and \<open>log\<close>, and
  \<open>db\<close> requires \<open>log\<close>.\<close>

definition sample_definitions :: "CapabilityDefinition list" where
  "sample_definitions =
     [depends_on (depends_on (CapabilityDefinition_new (Id ''app'') ''service'') (Id ''log''))
        (Id ''db''),
      depends_on (CapabilityDefinition_new (Id ''db'') ''store'') (Id ''log''),
      CapabilityDefinition_new (Id ''log'') ''sink'']"

text \<open>
  When resolution succeeds, the construction order holds every registered capability
  exactly once and each capability after all of its requirements; the teardown order is its
  reverse, so there every capability comes before all of its requirements.
\<close>
theorem resolve_dependency_first:
  assumes "resolve g = Inr r"
  shows "distinct (rg_construction_order r)
       \<and> set (rg_construction_order r) = set (bm_keys (cg_definitions g))
       \<and> (\<forall>k<length (rg_construction_order r).
            set (requirements g (rg_construction_order r ! k)) \<subseteq>
              set (take k (rg_construction_order r)))
       \<and> (\<forall>k<length (teardown_order r).
            set (requirements g (teardown_order r ! k)) \<subseteq> set (drop (Suc k) (teardown_order r)))"
proof -
  let ?o = "rg_construction_order r"
  have first: "\<forall>k<length ?o. set (requirements g (?o ! k)) \<subseteq> set (take k ?o)"
    using resolve_order(3) [OF assms] by (simp add: dependency_first_def)
  have "set (requirements g (teardown_order r ! k)) \<subseteq> set (drop (Suc k) (teardown_order r))"
    if k: "k < length (teardown_order r)" for k
  proof -
    have "drop (Suc k) (rev ?o) = rev (take (length ?o - Suc k) ?o)" by (rule drop_rev)
    then show ?thesis using first k by (simp add: teardown_order_def rev_nth)
  qed
  then show ?thesis using first resolve_order(1,2) [OF assms] by simp
qed

theorem resolve_dependency_first_witness:
  "resolve (from_definitions sample_definitions) =
     Inr \<lparr>rg_construction_order = [Id ''log'', Id ''db'', Id ''app'']\<rparr>
   \<and> distinct [Id ''log'', Id ''db'', Id ''app'']"
proof -
  have ok: "resolve (from_definitions sample_definitions) =
     Inr \<lparr>rg_construction_order = [Id ''log'', Id ''db'', Id ''app'']\<rparr>"
    by code_simp
  then show ?thesis using resolve_dependency_first [OF ok] by simp
qed

text \<open>
  C37: Resolution succeeds exactly on the graphs in which every requirement is registered
  and no capability depends on itself, directly or not. It never panics: an error names a
  simple closed path of requirements, or a registered capability with a requirement that is
  not registered.
\<close>
theorem resolve_decides_resolvability:
  "((\<exists>r. resolve g = Inr r) \<longleftrightarrow>
      (\<forall>c. set (requirements g c) \<subseteq> set (bm_keys (cg_definitions g))) \<and>
      acyclic {(c, d). d \<in> set (requirements g c)})
 \<and> (case resolve g of
      Inl (CapabilityCycle p) \<Rightarrow>
        2 \<le> length p \<and> hd p = last p \<and> distinct (tl p) \<and>
        successively (\<lambda>c d. d \<in> set (requirements g c)) p
    | Inl (MissingDependency c d) \<Rightarrow>
        d \<in> set (requirements g c) \<and> \<not> contains_key (cg_definitions g) d
    | Inl (UnknownCapability _) \<Rightarrow> False
    | Inl ResolverPanic \<Rightarrow> False
    | Inr _ \<Rightarrow> True)"
proof
  have "resolvable g \<longleftrightarrow> (\<forall>c. set (requirements g c) \<subseteq> set (bm_keys (cg_definitions g))) \<and>
      acyclic {(c, d). d \<in> set (requirements g c)}"
    by (auto simp: resolvable_def edges_of_def contains_key_iff fmlookup_dom'_iff subset_eq)
  then show "(\<exists>r. resolve g = Inr r) \<longleftrightarrow>
      (\<forall>c. set (requirements g c) \<subseteq> set (bm_keys (cg_definitions g))) \<and>
      acyclic {(c, d). d \<in> set (requirements g c)}"
    by (simp only: resolve_Inr_iff)
next
  show "case resolve g of
      Inl (CapabilityCycle p) \<Rightarrow>
        2 \<le> length p \<and> hd p = last p \<and> distinct (tl p) \<and>
        successively (\<lambda>c d. d \<in> set (requirements g c)) p
    | Inl (MissingDependency c d) \<Rightarrow>
        d \<in> set (requirements g c) \<and> \<not> contains_key (cg_definitions g) d
    | Inl (UnknownCapability _) \<Rightarrow> False
    | Inl ResolverPanic \<Rightarrow> False
    | Inr _ \<Rightarrow> True"
    by (cases rule: resolve_cases [of g])
      (auto simp: genuine_error_def closed_path_def requirements_eq)
qed

text \<open>
  The result of resolution does not depend on the order in which definitions were
  inserted: two lists of the same definitions, with distinct identifiers, give the same
  graph and the same resolution.
\<close>
theorem resolve_insertion_order_irrelevant:
  assumes "distinct (map cd_id ds)" and "distinct (map cd_id ds')" and "set ds = set ds'"
  shows "resolve (from_definitions ds) = resolve (from_definitions ds')"
proof -
  have "fmlookup (cg_definitions (from_definitions ds)) i =
        fmlookup (cg_definitions (from_definitions ds')) i" for i
    using from_definitions_unique [OF assms(1)] from_definitions_unique [OF assms(2)] assms(3)
    by (metis option.exhaust)
  then have "cg_definitions (from_definitions ds) = cg_definitions (from_definitions ds')"
    by (rule fmap_ext)
  then have "from_definitions ds = from_definitions ds'" by simp
  then show ?thesis by simp
qed

theorem resolve_insertion_order_irrelevant_witness:
  "resolve (from_definitions sample_definitions) =
   resolve (from_definitions (rev sample_definitions))"
proof (rule resolve_insertion_order_irrelevant)
  show "distinct (map cd_id sample_definitions)"
    by (simp add: sample_definitions_def depends_on_def CapabilityDefinition_new_def)
  then show "distinct (map cd_id (rev sample_definitions))" by (simp add: rev_map [symmetric])
qed simp

text \<open>
  Admission is sound and complete. A candidate is admitted exactly when the graph with
  the candidate in place of its identifier is resolvable, the proof object carries the
  resolution of that graph, and the candidate stands there after all of its dependencies.
\<close>
theorem validate_candidate_admission:
  "(case validate_candidate g candidate of
      Inr v \<Rightarrow>
        vd_definition v = candidate \<and>
        resolve (fst (capability_insert g candidate)) = Inr (vd_resolution v) \<and>
        (\<exists>before after. rg_construction_order (vd_resolution v) = before @ [cd_id candidate] @ after
           \<and> dep_id ` fset (cd_dependencies candidate) \<subseteq> set before)
    | Inl e \<Rightarrow> resolve (fst (capability_insert g candidate)) = Inl e)"
proof (cases "resolve (fst (capability_insert g candidate))")
  case (Inl e)
  then show ?thesis by (simp add: validate_candidate_def)
next
  case (Inr r)
  let ?g = "fst (capability_insert g candidate)"
  let ?o = "rg_construction_order r"
  have lookup: "fmlookup (cg_definitions ?g) (cd_id candidate) = Some candidate"
    by (simp add: capability_insert_def)
  then have "cd_id candidate \<in> set ?o"
    using resolve_order(2) [OF Inr] by (simp add: fmlookup_dom'_iff)
  then obtain k where k: "k < length ?o" "?o ! k = cd_id candidate" by (auto simp: in_set_conv_nth)
  have "set (requirements ?g (cd_id candidate)) \<subseteq> set (take k ?o)"
    using resolve_order(3) [OF Inr] k unfolding dependency_first_def by metis
  moreover have "set (requirements ?g (cd_id candidate)) = dep_id ` fset (cd_dependencies candidate)"
    using lookup by (simp add: requirements_def requirements_of_def definition_requirements_def
        sorted_list_of_fset.rep_eq)
  moreover have "?o = take k ?o @ [cd_id candidate] @ drop (Suc k) ?o"
    using k id_take_nth_drop [of k ?o] by simp
  ultimately have "\<exists>before after. ?o = before @ [cd_id candidate] @ after
      \<and> dep_id ` fset (cd_dependencies candidate) \<subseteq> set before"
    by metis
  with Inr show ?thesis by (simp add: validate_candidate_def)
qed

end
