(* ===== verification/Recovery_Model.thy ===== *)
theory Recovery_Model
  imports Kernel_Core
begin

text \<open>
  The typed facts and decisions of the crate \<^verbatim>\<open>workflow-recovery\<close>
  (\<^verbatim>\<open>model.rs\<close> and the record types of \<^verbatim>\<open>durable.rs\<close>). Identities are newtypes over
  \<open>Id\<close> or \<open>string\<close> with the derived order.
\<close>

section \<open>Identities\<close>

datatype OperationId = OperationId (operation_id_of: Id)
datatype AttemptId = AttemptId (attempt_id_of: Id)
datatype RunId = RunId (run_id_of: Id)

definition OperationId_new :: "string \<Rightarrow> InvalidId + OperationId" where
  "OperationId_new value = (case Id_new value of Inl e \<Rightarrow> Inl e | Inr i \<Rightarrow> Inr (OperationId i))"

definition AttemptId_new :: "string \<Rightarrow> InvalidId + AttemptId" where
  "AttemptId_new value = (case Id_new value of Inl e \<Rightarrow> Inl e | Inr i \<Rightarrow> Inr (AttemptId i))"

definition RunId_new :: "string \<Rightarrow> InvalidId + RunId" where
  "RunId_new value = (case Id_new value of Inl e \<Rightarrow> Inl e | Inr i \<Rightarrow> Inr (RunId i))"

definition OperationId_as_str :: "OperationId \<Rightarrow> string" where
  "OperationId_as_str i = as_str (operation_id_of i)"

definition AttemptId_as_str :: "AttemptId \<Rightarrow> string" where
  "AttemptId_as_str i = as_str (attempt_id_of i)"

definition RunId_as_str :: "RunId \<Rightarrow> string" where
  "RunId_as_str i = as_str (run_id_of i)"

lemma RunId_as_str_inj: "RunId_as_str r = RunId_as_str r' \<longleftrightarrow> r = r'"
  by (auto simp: RunId_as_str_def RunId.expand Id.expand)

text \<open>\<^verbatim>\<open>OperationId\<close> keys an ordered map that is iterated; its order is that of the identifier.\<close>

instantiation OperationId :: linorder
begin

definition less_eq_OperationId :: "OperationId \<Rightarrow> OperationId \<Rightarrow> bool" where
  "less_eq_OperationId a b \<longleftrightarrow> operation_id_of a \<le> operation_id_of b"

definition less_OperationId :: "OperationId \<Rightarrow> OperationId \<Rightarrow> bool" where
  "less_OperationId a b \<longleftrightarrow> operation_id_of a < operation_id_of b"

instance
  by standard (auto simp: less_eq_OperationId_def less_OperationId_def OperationId.expand)

end

datatype WorkflowReplayIdentity = WorkflowReplayIdentity (replay_identity_str: string)

datatype IdempotencyKey = IdempotencyKey (idempotency_key_str: string)

instantiation IdempotencyKey :: linorder
begin

definition less_eq_IdempotencyKey :: "IdempotencyKey \<Rightarrow> IdempotencyKey \<Rightarrow> bool" where
  "less_eq_IdempotencyKey a b \<longleftrightarrow> idempotency_key_str a \<le> idempotency_key_str b"

definition less_IdempotencyKey :: "IdempotencyKey \<Rightarrow> IdempotencyKey \<Rightarrow> bool" where
  "less_IdempotencyKey a b \<longleftrightarrow> idempotency_key_str a < idempotency_key_str b"

instance
  by standard
    (auto simp: less_eq_IdempotencyKey_def less_IdempotencyKey_def IdempotencyKey.expand)

end

datatype StoreRevision = StoreRevision (store_revision_get: u64)

definition StoreRevision_INITIAL :: StoreRevision where
  "StoreRevision_INITIAL = StoreRevision 0"

definition StoreRevision_checked_next :: "StoreRevision \<Rightarrow> StoreRevision option" where
  "StoreRevision_checked_next r =
     (case checked_add_u64 (store_revision_get r) 1 of
        Some n \<Rightarrow> Some (StoreRevision n)
      | None \<Rightarrow> None)"

interpretation store_revision: checked_counter store_revision_get StoreRevision_checked_next
  using checked_counter_newtype [of StoreRevision store_revision_get]
  by (simp add: StoreRevision_checked_next_def [abs_def])

record CapabilityReplayIdentity =
  cri_capability_id :: Id
  cri_definition_identity :: string

definition CapabilityReplayIdentity_new :: "Id \<Rightarrow> string \<Rightarrow> CapabilityReplayIdentity" where
  "CapabilityReplayIdentity_new capability_id definition_identity =
     \<lparr>cri_capability_id = capability_id, cri_definition_identity = definition_identity\<rparr>"

section \<open>Facts\<close>

datatype EffectSemantics = Idempotent | NonIdempotent

record EffectIntent =
  ei_task_id :: Id
  ei_operation_id :: OperationId
  ei_semantics :: EffectSemantics

record DispatchRecord =
  dr_operation_id :: OperationId
  dr_attempt_id :: AttemptId

datatype KnownEffectOutcome = Succeeded | Failed

record OutcomeRecord =
  or_operation_id :: OperationId
  or_attempt_id :: AttemptId
  or_outcome :: KnownEffectOutcome

record AttemptAdmission =
  aa_run_id :: RunId
  aa_task_id :: Id
  aa_attempt_id :: AttemptId
  aa_operation_id :: "OperationId option"
  aa_capabilities :: "CapabilityReplayIdentity list"

record CancellationRecord =
  ca_run_id :: RunId
  ca_task_id :: Id
  ca_operation_id :: "OperationId option"
  ca_attempt_id :: "AttemptId option"

record DurableCompletion =
  dc_task_id :: Id
  dc_attempt_id :: AttemptId

datatype DurableMutation =
    RecordWorkflowReplayIdentity WorkflowReplayIdentity
  | AdmitAttempt AttemptAdmission
  | RecordIntent EffectIntent
  | RecordCancellation CancellationRecord
  | RecordDispatch DispatchRecord
  | RecordOutcome OutcomeRecord
  | RecordCompletion DurableCompletion

record CommitRequest =
  rq_run_id :: RunId
  rq_expected_revision :: StoreRevision
  rq_idempotency_key :: IdempotencyKey
  rq_mutations :: "DurableMutation list"

definition CommitRequest_single :: "RunId \<Rightarrow> StoreRevision \<Rightarrow> IdempotencyKey \<Rightarrow> DurableMutation \<Rightarrow>
    CommitRequest" where
  "CommitRequest_single run_id expected_revision idempotency_key mutation =
     \<lparr>rq_run_id = run_id, rq_expected_revision = expected_revision,
      rq_idempotency_key = idempotency_key, rq_mutations = [mutation]\<rparr>"

record CommitLedgerEntry =
  le_idempotency_key :: IdempotencyKey
  le_mutations :: "DurableMutation list"
  le_revision :: StoreRevision
  le_binding :: u64

record PersistedRunSnapshot =
  ps_run_id :: RunId
  ps_commit_ledger :: "CommitLedgerEntry list"

record CommitResult =
  cm_revision :: StoreRevision
  cm_replayed :: bool

section \<open>Recovery decisions\<close>

datatype RecoveredEffectState =
    EffectNotPrepared
  | Prepared
  | OutcomeKnown KnownEffectOutcome
  | OutcomeUnknown

datatype RecoveryAction =
    Execute
  | RetrySameOperation
  | CompleteWithoutReexecution
  | Reconcile
  | NoAction
  | ObserveFailure
  | RefuseInvariantViolation

datatype RecoveryReason =
    PreparedNotDispatched OperationId
  | IdempotentOutcomeUnknown OperationId AttemptId
  | NonIdempotentOutcomeUnknown OperationId AttemptId
  | KnownSuccess OperationId AttemptId
  | KnownFailure OperationId AttemptId
  | WorkflowAlreadyCompleted OperationId Id
  | WorkflowStateMismatch OperationId Id RecoveredEffectState
  | NotPrepared OperationId

record RecoveryDecision =
  rd_action :: RecoveryAction
  rd_reason :: RecoveryReason

section \<open>Errors\<close>

datatype StoreInvariant =
    CompletionUnknownTask Id
  | CompletionPrerequisiteMismatch Id Id
  | CompletionReplayRejected "Id option" string
  | CompletionWithoutAdmission AttemptId
  | CompletionAttemptMismatch Id AttemptId
  | CompletionWithoutIntent OperationId
  | CompletionWithoutDispatch AttemptId
  | CompletionNotLatestDispatch OperationId AttemptId
  | CompletionWithoutSuccessfulOutcome AttemptId "KnownEffectOutcome option"
  | ConflictingCompletion Id AttemptId AttemptId
  | AttemptIdReuse AttemptId
  | DispatchWithoutAdmission AttemptId
  | DispatchAttemptMismatch AttemptId OperationId
  | OutcomeWithoutAdmission AttemptId
  | OutcomeWithoutDispatch AttemptId
  | OutcomeAttemptMismatch AttemptId OperationId
  | ConflictingOutcome AttemptId KnownEffectOutcome KnownEffectOutcome
  | TaskOperationConflict Id OperationId OperationId
  | DispatchCancelled Id
  | CancellationLineageMismatch Id
  | ConflictingCancellation Id

text \<open>
  The payload of \<^verbatim>\<open>DataCorruption\<close> is a message. Here it is the value the message is
  formatted from, one constructor per message of the source.
\<close>

datatype StoreError =
    RunNotFound RunId
  | RunAlreadyExists RunId
  | StoreRevisionConflict StoreRevision StoreRevision
  | IdempotencyConflict IdempotencyKey
  | EmptyIdempotencyKey
  | EmptyWorkflowReplayIdentity
  | EmptyCommit
  | InvariantViolation StoreInvariant
  | StoreRevisionExhausted StoreRevision
  | BackendUnavailable
  | IoFailure string
  | DataCorruption Corruption
  and Corruption =
    ReplayIdentityIsEmpty
  | IdempotencyMetadataInvalid
  | InconsistentLineage
  | LedgerInvalid
  | LedgerBindingInvalid
  | LedgerReusesKey
  | DurableFactInvalid StoreError
  | RevisionSequenceExhausted
  | RevisionDoesNotMatchLedger
  | SchemaHeaderInvalid
  | SchemaVersionUnsupported u16
  | ChecksumMismatch
  | PayloadInvalid string
  | TrailingBytes
  | RowKeyMismatch RunId RunId
  | TableMissing
  | BackendPanicked
  | BackendMessage string

datatype StoreErrorKind = KindDomain | KindBackendUnavailable | KindIoFailure | KindDataCorruption

definition StoreError_kind :: "StoreError \<Rightarrow> StoreErrorKind" where
  "StoreError_kind e =
     (case e of
        BackendUnavailable \<Rightarrow> KindBackendUnavailable
      | IoFailure _ \<Rightarrow> KindIoFailure
      | DataCorruption _ \<Rightarrow> KindDataCorruption
      | _ \<Rightarrow> KindDomain)"

definition WorkflowReplayIdentity_new :: "string \<Rightarrow> StoreError + WorkflowReplayIdentity" where
  "WorkflowReplayIdentity_new value =
     (if trim_is_empty value then Inl EmptyWorkflowReplayIdentity
      else Inr (WorkflowReplayIdentity value))"

definition IdempotencyKey_new :: "string \<Rightarrow> StoreError + IdempotencyKey" where
  "IdempotencyKey_new value =
     (if trim_is_empty value then Inl EmptyIdempotencyKey else Inr (IdempotencyKey value))"

definition WorkflowReplayIdentity_deserialize :: "string \<Rightarrow> StoreError + WorkflowReplayIdentity" where
  "WorkflowReplayIdentity_deserialize value = WorkflowReplayIdentity_new value"

definition IdempotencyKey_deserialize :: "string \<Rightarrow> StoreError + IdempotencyKey" where
  "IdempotencyKey_deserialize value = IdempotencyKey_new value"

definition is_backend_unavailable :: "StoreError \<Rightarrow> bool" where
  "is_backend_unavailable e \<longleftrightarrow> (case e of BackendUnavailable \<Rightarrow> True | _ \<Rightarrow> False)"

definition is_io_failure :: "StoreError \<Rightarrow> bool" where
  "is_io_failure e \<longleftrightarrow> (case e of IoFailure _ \<Rightarrow> True | _ \<Rightarrow> False)"

definition is_data_corruption :: "StoreError \<Rightarrow> bool" where
  "is_data_corruption e \<longleftrightarrow> (case e of DataCorruption _ \<Rightarrow> True | _ \<Rightarrow> False)"

end
