(* ===== verification/Durable_State.thy ===== *)
theory Durable_State
  imports Recovery_Model
begin

text \<open>
  The materialized durable facts of one run (\<^verbatim>\<open>DurableRunState\<close> in \<^verbatim>\<open>durable.rs\<close>): the
  state, its queries and \<^verbatim>\<open>apply_mutation\<close>, one definition per arm. Every arm checks
  before it writes, so a refused mutation leaves the state as it was; the model returns the
  changed state or the error.
\<close>

section \<open>The state\<close>

record DurableRunState =
  ds_run_id :: RunId
  ds_revision :: StoreRevision
  ds_workflow_replay_identity :: "WorkflowReplayIdentity option"
  ds_admissions :: "(AttemptId, AttemptAdmission) fmap"
  ds_admission_history :: "AttemptAdmission list"
  ds_intents :: "(OperationId, EffectIntent) fmap"
  ds_task_operations :: "(Id, OperationId) fmap"
  ds_cancellations :: "(Id, CancellationRecord) fmap"
  ds_dispatches :: "(AttemptId, DispatchRecord) fmap"
  ds_dispatch_history :: "DispatchRecord list"
  ds_outcomes :: "(AttemptId, OutcomeRecord) fmap"
  ds_outcome_history :: "OutcomeRecord list"
  ds_completions :: "(Id, DurableCompletion) fmap"
  ds_completion_history :: "DurableCompletion list"
  ds_commit_ledger :: "CommitLedgerEntry list"
  ds_idempotency :: "(IdempotencyKey, DurableMutation list \<times> StoreRevision) fmap"

definition DurableRunState_new :: "RunId \<Rightarrow> DurableRunState" where
  "DurableRunState_new run_id =
     \<lparr>ds_run_id = run_id,
      ds_revision = StoreRevision_INITIAL,
      ds_workflow_replay_identity = None,
      ds_admissions = fmempty,
      ds_admission_history = [],
      ds_intents = fmempty,
      ds_task_operations = fmempty,
      ds_cancellations = fmempty,
      ds_dispatches = fmempty,
      ds_dispatch_history = [],
      ds_outcomes = fmempty,
      ds_outcome_history = [],
      ds_completions = fmempty,
      ds_completion_history = [],
      ds_commit_ledger = [],
      ds_idempotency = fmempty\<rparr>"

section \<open>Queries\<close>

definition is_pristine_bootstrap :: "DurableRunState \<Rightarrow> bool" where
  "is_pristine_bootstrap s \<longleftrightarrow>
     ds_revision s = StoreRevision_INITIAL
     \<and> ds_workflow_replay_identity s = None
     \<and> ds_admissions s = fmempty
     \<and> ds_admission_history s = []
     \<and> ds_intents s = fmempty
     \<and> ds_task_operations s = fmempty
     \<and> ds_cancellations s = fmempty
     \<and> ds_dispatches s = fmempty
     \<and> ds_dispatch_history s = []
     \<and> ds_outcomes s = fmempty
     \<and> ds_outcome_history s = []
     \<and> ds_completions s = fmempty
     \<and> ds_completion_history s = []
     \<and> ds_commit_ledger s = []
     \<and> ds_idempotency s = fmempty"

definition ds_attempt :: "DurableRunState \<Rightarrow> AttemptId \<Rightarrow> AttemptAdmission option" where
  "ds_attempt s attempt_id = fmlookup (ds_admissions s) attempt_id"

definition ds_intent :: "DurableRunState \<Rightarrow> OperationId \<Rightarrow> EffectIntent option" where
  "ds_intent s operation_id = fmlookup (ds_intents s) operation_id"

definition ds_intents_values :: "DurableRunState \<Rightarrow> EffectIntent list" where
  "ds_intents_values s = bm_values (ds_intents s)"

definition ds_cancellation :: "DurableRunState \<Rightarrow> Id \<Rightarrow> CancellationRecord option" where
  "ds_cancellation s task_id = fmlookup (ds_cancellations s) task_id"

definition ds_cancellations_values :: "DurableRunState \<Rightarrow> CancellationRecord list" where
  "ds_cancellations_values s = bm_values (ds_cancellations s)"

definition is_cancelled :: "DurableRunState \<Rightarrow> Id \<Rightarrow> bool" where
  "is_cancelled s task_id \<longleftrightarrow> contains_key (ds_cancellations s) task_id"

definition dispatches_of :: "DurableRunState \<Rightarrow> OperationId \<Rightarrow> DispatchRecord list" where
  "dispatches_of s operation_id =
     filter (\<lambda>dispatch. dr_operation_id dispatch = operation_id) (ds_dispatch_history s)"

definition latest_dispatch :: "DurableRunState \<Rightarrow> OperationId \<Rightarrow> DispatchRecord option" where
  "latest_dispatch s operation_id =
     (case dispatches_of s operation_id of [] \<Rightarrow> None | ds \<Rightarrow> Some (last ds))"

definition outcome_for_attempt :: "DurableRunState \<Rightarrow> AttemptId \<Rightarrow> OutcomeRecord option" where
  "outcome_for_attempt s attempt_id = fmlookup (ds_outcomes s) attempt_id"

definition outcome_history_of :: "DurableRunState \<Rightarrow> OperationId \<Rightarrow> OutcomeRecord list" where
  "outcome_history_of s operation_id =
     filter (\<lambda>out. or_operation_id out = operation_id) (ds_outcome_history s)"

definition durable_is_completed :: "DurableRunState \<Rightarrow> Id \<Rightarrow> bool" where
  "durable_is_completed s task_id \<longleftrightarrow> contains_key (ds_completions s) task_id"

definition completion_for_task :: "DurableRunState \<Rightarrow> Id \<Rightarrow> DurableCompletion option" where
  "completion_for_task s task_id = fmlookup (ds_completions s) task_id"

definition latest_outcome :: "DurableRunState \<Rightarrow> OperationId \<Rightarrow> OutcomeRecord option" where
  "latest_outcome s operation_id =
     (case latest_dispatch s operation_id of
        None \<Rightarrow> None
      | Some dispatch \<Rightarrow> outcome_for_attempt s (dr_attempt_id dispatch))"

definition effect_state :: "DurableRunState \<Rightarrow> OperationId \<Rightarrow> RecoveredEffectState" where
  "effect_state s operation_id =
     (if \<not> contains_key (ds_intents s) operation_id then EffectNotPrepared
      else
        (case latest_dispatch s operation_id of
           None \<Rightarrow> Prepared
         | Some dispatch \<Rightarrow>
             (case outcome_for_attempt s (dr_attempt_id dispatch) of
                None \<Rightarrow> OutcomeUnknown
              | Some out \<Rightarrow> OutcomeKnown (or_outcome out))))"

definition operation_ids :: "DurableRunState \<Rightarrow> OperationId list" where
  "operation_ids s = bm_keys (ds_intents s)"

definition operation_for_task :: "DurableRunState \<Rightarrow> Id \<Rightarrow> OperationId option" where
  "operation_for_task s task_id = fmlookup (ds_task_operations s) task_id"

section \<open>Mutations\<close>

type_synonym state_result = "StoreError + DurableRunState"

abbreviation violation :: "StoreInvariant \<Rightarrow> state_result" where
  "violation v \<equiv> Inl (InvariantViolation v)"

definition record_replay_identity ::
    "DurableRunState \<Rightarrow> WorkflowReplayIdentity \<Rightarrow> state_result" where
  "record_replay_identity s identity =
     (if trim_is_empty (replay_identity_str identity) then Inl EmptyWorkflowReplayIdentity
      else Inr (s\<lparr>ds_workflow_replay_identity := Some identity\<rparr>))"

definition admit_attempt :: "DurableRunState \<Rightarrow> AttemptAdmission \<Rightarrow> state_result" where
  "admit_attempt s admission =
     (if aa_run_id admission \<noteq> ds_run_id s then violation (AttemptIdReuse (aa_attempt_id admission))
      else if contains_key (ds_admissions s) (aa_attempt_id admission) then
        violation (AttemptIdReuse (aa_attempt_id admission))
      else
        Inr (s\<lparr>ds_admissions := fmupd (aa_attempt_id admission) admission (ds_admissions s),
               ds_admission_history := ds_admission_history s @ [admission]\<rparr>))"

definition record_intent :: "DurableRunState \<Rightarrow> EffectIntent \<Rightarrow> state_result" where
  "record_intent s intent =
     (case fmlookup (ds_intents s) (ei_operation_id intent) of
        Some existing \<Rightarrow>
          if existing = intent then Inr s
          else violation (TaskOperationConflict (ei_task_id intent) (ei_operation_id existing)
                            (ei_operation_id intent))
      | None \<Rightarrow>
          (case fmlookup (ds_task_operations s) (ei_task_id intent) of
             Some existing \<Rightarrow>
               violation (TaskOperationConflict (ei_task_id intent) existing (ei_operation_id intent))
           | None \<Rightarrow>
               Inr (s\<lparr>ds_task_operations :=
                        fmupd (ei_task_id intent) (ei_operation_id intent) (ds_task_operations s),
                      ds_intents := fmupd (ei_operation_id intent) intent (ds_intents s)\<rparr>)))"

definition cancellation_lineage_ok :: "DurableRunState \<Rightarrow> CancellationRecord \<Rightarrow> bool" where
  "cancellation_lineage_ok s cancellation \<longleftrightarrow>
     (case ca_operation_id cancellation of
        None \<Rightarrow> True
      | Some operation_id \<Rightarrow>
          fmlookup (ds_task_operations s) (ca_task_id cancellation) = Some operation_id) \<and>
     (case ca_attempt_id cancellation of
        None \<Rightarrow> True
      | Some attempt_id \<Rightarrow>
          (case fmlookup (ds_admissions s) attempt_id of
             None \<Rightarrow> False
           | Some admission \<Rightarrow>
               aa_task_id admission = ca_task_id cancellation \<and>
               aa_operation_id admission = ca_operation_id cancellation))"

definition record_cancellation :: "DurableRunState \<Rightarrow> CancellationRecord \<Rightarrow> state_result" where
  "record_cancellation s cancellation =
     (if ca_run_id cancellation \<noteq> ds_run_id s then
        violation (CancellationLineageMismatch (ca_task_id cancellation))
      else
        (case fmlookup (ds_cancellations s) (ca_task_id cancellation) of
           Some existing \<Rightarrow>
             if existing = cancellation then Inr s
             else violation (ConflictingCancellation (ca_task_id cancellation))
         | None \<Rightarrow>
             if \<not> cancellation_lineage_ok s cancellation then
               violation (CancellationLineageMismatch (ca_task_id cancellation))
             else
               Inr (s\<lparr>ds_cancellations :=
                        fmupd (ca_task_id cancellation) cancellation (ds_cancellations s)\<rparr>)))"

definition record_dispatch :: "DurableRunState \<Rightarrow> DispatchRecord \<Rightarrow> state_result" where
  "record_dispatch s dispatch =
     (case fmlookup (ds_intents s) (dr_operation_id dispatch) of
        None \<Rightarrow> violation (DispatchWithoutAdmission (dr_attempt_id dispatch))
      | Some intent \<Rightarrow>
          (case fmlookup (ds_admissions s) (dr_attempt_id dispatch) of
             None \<Rightarrow> violation (DispatchWithoutAdmission (dr_attempt_id dispatch))
           | Some admission \<Rightarrow>
               if aa_operation_id admission \<noteq> Some (dr_operation_id dispatch) then
                 violation (DispatchAttemptMismatch (dr_attempt_id dispatch) (dr_operation_id dispatch))
               else if ei_task_id intent \<noteq> aa_task_id admission then
                 violation (DispatchAttemptMismatch (dr_attempt_id dispatch) (dr_operation_id dispatch))
               else if contains_key (ds_cancellations s) (aa_task_id admission)
                       \<and> \<not> contains_key (ds_dispatches s) (dr_attempt_id dispatch) then
                 violation (DispatchCancelled (aa_task_id admission))
               else if contains_key (ds_dispatches s) (dr_attempt_id dispatch) then
                 violation (DispatchAttemptMismatch (dr_attempt_id dispatch) (dr_operation_id dispatch))
               else
                 Inr (s\<lparr>ds_dispatches := fmupd (dr_attempt_id dispatch) dispatch (ds_dispatches s),
                        ds_dispatch_history := ds_dispatch_history s @ [dispatch]\<rparr>)))"

definition record_outcome :: "DurableRunState \<Rightarrow> OutcomeRecord \<Rightarrow> state_result" where
  "record_outcome s out =
     (case fmlookup (ds_admissions s) (or_attempt_id out) of
        None \<Rightarrow> violation (OutcomeWithoutAdmission (or_attempt_id out))
      | Some admission \<Rightarrow>
          (case fmlookup (ds_dispatches s) (or_attempt_id out) of
             None \<Rightarrow> violation (OutcomeWithoutDispatch (or_attempt_id out))
           | Some dispatch \<Rightarrow>
               if dr_operation_id dispatch \<noteq> or_operation_id out
                  \<or> aa_operation_id admission \<noteq> Some (or_operation_id out) then
                 violation (OutcomeAttemptMismatch (or_attempt_id out) (or_operation_id out))
               else
                 (case fmlookup (ds_outcomes s) (or_attempt_id out) of
                    Some existing \<Rightarrow>
                      if or_outcome existing = or_outcome out then Inr s
                      else violation (ConflictingOutcome (or_attempt_id out) (or_outcome existing)
                                        (or_outcome out))
                  | None \<Rightarrow>
                      Inr (s\<lparr>ds_outcomes := fmupd (or_attempt_id out) out (ds_outcomes s),
                             ds_outcome_history := ds_outcome_history s @ [out]\<rparr>))))"

text \<open>The checks on the effect of a completed attempt, in the order of the source.\<close>

definition check_effect_completion ::
    "DurableRunState \<Rightarrow> DurableCompletion \<Rightarrow> OperationId \<Rightarrow> StoreInvariant option" where
  "check_effect_completion s completion operation_id =
     (if \<not> contains_key (ds_intents s) operation_id then
        Some (CompletionWithoutIntent operation_id)
      else if (case fmlookup (ds_dispatches s) (dc_attempt_id completion) of
                 None \<Rightarrow> True
               | Some dispatch \<Rightarrow> dr_operation_id dispatch \<noteq> operation_id) then
        Some (CompletionWithoutDispatch (dc_attempt_id completion))
      else if (case latest_dispatch s operation_id of
                 None \<Rightarrow> True
               | Some dispatch \<Rightarrow> dr_attempt_id dispatch \<noteq> dc_attempt_id completion) then
        Some (CompletionNotLatestDispatch operation_id (dc_attempt_id completion))
      else
        let known = map_option or_outcome (fmlookup (ds_outcomes s) (dc_attempt_id completion))
        in if known \<noteq> Some Succeeded then
             Some (CompletionWithoutSuccessfulOutcome (dc_attempt_id completion) known)
           else None)"

definition insert_completion :: "DurableRunState \<Rightarrow> DurableCompletion \<Rightarrow> state_result" where
  "insert_completion s completion =
     (case fmlookup (ds_completions s) (dc_task_id completion) of
        Some existing \<Rightarrow>
          if existing = completion then Inr s
          else violation (ConflictingCompletion (dc_task_id completion) (dc_attempt_id existing)
                            (dc_attempt_id completion))
      | None \<Rightarrow>
          Inr (s\<lparr>ds_completions := fmupd (dc_task_id completion) completion (ds_completions s),
                 ds_completion_history := ds_completion_history s @ [completion]\<rparr>))"

definition record_completion :: "DurableRunState \<Rightarrow> DurableCompletion \<Rightarrow> state_result" where
  "record_completion s completion =
     (case fmlookup (ds_admissions s) (dc_attempt_id completion) of
        None \<Rightarrow> violation (CompletionWithoutAdmission (dc_attempt_id completion))
      | Some admission \<Rightarrow>
          if aa_task_id admission \<noteq> dc_task_id completion then
            violation (CompletionAttemptMismatch (dc_task_id completion) (dc_attempt_id completion))
          else
            (case aa_operation_id admission of
               None \<Rightarrow> insert_completion s completion
             | Some operation_id \<Rightarrow>
                 (case check_effect_completion s completion operation_id of
                    Some v \<Rightarrow> violation v
                  | None \<Rightarrow> insert_completion s completion)))"

fun apply_durable_mutation :: "DurableRunState \<Rightarrow> DurableMutation \<Rightarrow> state_result" where
  "apply_durable_mutation s (RecordWorkflowReplayIdentity identity) =
     record_replay_identity s identity"
| "apply_durable_mutation s (AdmitAttempt admission) = admit_attempt s admission"
| "apply_durable_mutation s (RecordIntent intent) = record_intent s intent"
| "apply_durable_mutation s (RecordCancellation cancellation) = record_cancellation s cancellation"
| "apply_durable_mutation s (RecordDispatch dispatch) = record_dispatch s dispatch"
| "apply_durable_mutation s (RecordOutcome out) = record_outcome s out"
| "apply_durable_mutation s (RecordCompletion completion) = record_completion s completion"

definition apply_durable_mutations :: "DurableRunState \<Rightarrow> DurableMutation list \<Rightarrow> state_result" where
  "apply_durable_mutations s mutations = try_fold apply_durable_mutation s mutations"

lemmas mutation_defs = record_replay_identity_def admit_attempt_def record_intent_def
  record_cancellation_def record_dispatch_def record_outcome_def record_completion_def
  insert_completion_def

section \<open>Frame\<close>

text \<open>
  No mutation reads or writes the commit ledger, the revision or the idempotency index, and
  none changes the run. \<open>with_ledger\<close> overwrites those three fields.
\<close>

definition with_ledger :: "StoreRevision \<Rightarrow> CommitLedgerEntry list \<Rightarrow>
    (IdempotencyKey, DurableMutation list \<times> StoreRevision) fmap \<Rightarrow> DurableRunState \<Rightarrow>
    DurableRunState" where
  "with_ledger r l m s = s\<lparr>ds_revision := r, ds_commit_ledger := l, ds_idempotency := m\<rparr>"

lemma with_ledger_sel [simp]:
  "ds_run_id (with_ledger r l m s) = ds_run_id s"
  "ds_revision (with_ledger r l m s) = r"
  "ds_workflow_replay_identity (with_ledger r l m s) = ds_workflow_replay_identity s"
  "ds_admissions (with_ledger r l m s) = ds_admissions s"
  "ds_admission_history (with_ledger r l m s) = ds_admission_history s"
  "ds_intents (with_ledger r l m s) = ds_intents s"
  "ds_task_operations (with_ledger r l m s) = ds_task_operations s"
  "ds_cancellations (with_ledger r l m s) = ds_cancellations s"
  "ds_dispatches (with_ledger r l m s) = ds_dispatches s"
  "ds_dispatch_history (with_ledger r l m s) = ds_dispatch_history s"
  "ds_outcomes (with_ledger r l m s) = ds_outcomes s"
  "ds_outcome_history (with_ledger r l m s) = ds_outcome_history s"
  "ds_completions (with_ledger r l m s) = ds_completions s"
  "ds_completion_history (with_ledger r l m s) = ds_completion_history s"
  "ds_commit_ledger (with_ledger r l m s) = l"
  "ds_idempotency (with_ledger r l m s) = m"
  by (simp_all add: with_ledger_def)

lemma with_ledger_queries [simp]:
  "latest_dispatch (with_ledger r l m s) = latest_dispatch s"
  "cancellation_lineage_ok (with_ledger r l m s) = cancellation_lineage_ok s"
  "check_effect_completion (with_ledger r l m s) = check_effect_completion s"
  by (simp_all add: fun_eq_iff latest_dispatch_def dispatches_of_def cancellation_lineage_ok_def
      check_effect_completion_def cong: option.case_cong)

lemma apply_durable_mutation_frame:
  "apply_durable_mutation (with_ledger r l m s) mutation =
     (case apply_durable_mutation s mutation of
        Inl e \<Rightarrow> Inl e
      | Inr s' \<Rightarrow> Inr (with_ledger r l m s'))"
  by (cases mutation)
    (auto simp: mutation_defs with_ledger_def [symmetric] split: option.splits)

lemma apply_durable_mutations_frame:
  "apply_durable_mutations (with_ledger r l m s) mutations =
     (case apply_durable_mutations s mutations of
        Inl e \<Rightarrow> Inl e
      | Inr s' \<Rightarrow> Inr (with_ledger r l m s'))"
  unfolding apply_durable_mutations_def
  by (induction mutations arbitrary: s) (auto simp: apply_durable_mutation_frame split: sum.splits)

lemma apply_durable_mutation_ledger:
  assumes "apply_durable_mutation s mutation = Inr s'"
  shows "ds_run_id s' = ds_run_id s \<and> ds_revision s' = ds_revision s \<and>
         ds_commit_ledger s' = ds_commit_ledger s \<and> ds_idempotency s' = ds_idempotency s"
  using assms
  by (cases mutation) (auto simp: mutation_defs split: option.splits if_splits)

lemma apply_durable_mutations_ledger:
  assumes "apply_durable_mutations s mutations = Inr s'"
  shows "ds_run_id s' = ds_run_id s \<and> ds_revision s' = ds_revision s \<and>
         ds_commit_ledger s' = ds_commit_ledger s \<and> ds_idempotency s' = ds_idempotency s"
proof -
  let ?P = "\<lambda>t. ds_run_id t = ds_run_id s \<and> ds_revision t = ds_revision s \<and>
         ds_commit_ledger t = ds_commit_ledger s \<and> ds_idempotency t = ds_idempotency s"
  have "?P s'"
    using assms unfolding apply_durable_mutations_def
    by (rule try_fold_invariant [where P = ?P, rotated 2])
      (auto dest: apply_durable_mutation_ledger)
  then show ?thesis .
qed

end
