(* ===== verification/Durable_Store.thy ===== *)
theory Durable_Store
  imports Durable_State
begin

text \<open>
  Commits, the commit ledger and its replay, and the in-memory store of \<^verbatim>\<open>durable.rs\<close>.
  The trait \<^verbatim>\<open>DurableStore\<close> is the locale \<open>durable_store\<close>; its laws are stated against
  \<open>commit_state\<close>, the effect of an accepted request on one run.

  \<open>enc\<close> is \<^verbatim>\<open>postcard::to_allocvec\<close> on a key, a mutation batch and a revision; the
  source unwraps its result, since the derived serializers of these types cannot fail.
\<close>

section \<open>Commit bindings\<close>

type_synonym binding_encoder = "IdempotencyKey \<times> DurableMutation list \<times> StoreRevision \<Rightarrow> u8 list"

text \<open>FNV-1a over 64 bits, written out twice in the crate.\<close>

definition fnv_step :: "u8 \<Rightarrow> u64 \<Rightarrow> u64" where
  "fnv_step byte hash = (xor hash (ucast byte)) * 0x100000001b3"

definition checksum :: "u8 list \<Rightarrow> u64" where
  "checksum bytes = fold fnv_step bytes 0xcbf29ce484222325"

definition commit_binding :: "binding_encoder \<Rightarrow> IdempotencyKey \<Rightarrow> DurableMutation list \<Rightarrow>
    StoreRevision \<Rightarrow> u64" where
  "commit_binding enc idempotency_key mutations revision =
     fold fnv_step (enc (idempotency_key, mutations, revision)) 0xcbf29ce484222325"

definition record_commit :: "binding_encoder \<Rightarrow> DurableRunState \<Rightarrow> IdempotencyKey \<Rightarrow>
    DurableMutation list \<Rightarrow> StoreRevision \<Rightarrow> DurableRunState" where
  "record_commit enc s idempotency_key mutations revision =
     s\<lparr>ds_revision := revision,
       ds_commit_ledger := ds_commit_ledger s @
         [\<lparr>le_idempotency_key = idempotency_key, le_mutations = mutations, le_revision = revision,
           le_binding = commit_binding enc idempotency_key mutations revision\<rparr>],
       ds_idempotency := fmupd idempotency_key (mutations, revision) (ds_idempotency s)\<rparr>"

section \<open>Ledger replay\<close>

definition persisted_mutation_error :: "StoreError \<Rightarrow> StoreError" where
  "persisted_mutation_error e = DataCorruption (DurableFactInvalid e)"

definition replay_ledger_step :: "binding_encoder \<Rightarrow> DurableRunState \<times> u64 \<Rightarrow> CommitLedgerEntry \<Rightarrow>
    StoreError + DurableRunState \<times> u64" where
  "replay_ledger_step enc st entry =
     (let (reconstructed, expected_revision) = st in
      if trim_is_empty (idempotency_key_str (le_idempotency_key entry))
         \<or> le_mutations entry = []
         \<or> store_revision_get (le_revision entry) \<noteq> expected_revision then
        Inl (DataCorruption LedgerInvalid)
      else if le_binding entry
              \<noteq> commit_binding enc (le_idempotency_key entry) (le_mutations entry) (le_revision entry)
      then Inl (DataCorruption LedgerBindingInvalid)
      else if contains_key (ds_idempotency reconstructed) (le_idempotency_key entry) then
        Inl (DataCorruption LedgerReusesKey)
      else
        let indexed = reconstructed\<lparr>ds_idempotency :=
              fmupd (le_idempotency_key entry) (le_mutations entry, le_revision entry)
                (ds_idempotency reconstructed)\<rparr>
        in (case apply_durable_mutations indexed (le_mutations entry) of
              Inl e \<Rightarrow> Inl (persisted_mutation_error e)
            | Inr applied \<Rightarrow>
                let recorded = applied\<lparr>ds_revision := le_revision entry,
                      ds_commit_ledger := ds_commit_ledger applied @ [entry]\<rparr>
                in (case checked_add_u64 expected_revision 1 of
                      None \<Rightarrow> Inl (DataCorruption RevisionSequenceExhausted)
                    | Some next_revision \<Rightarrow> Inr (recorded, next_revision))))"

definition replay_commit_ledger :: "binding_encoder \<Rightarrow> RunId \<Rightarrow> CommitLedgerEntry list \<Rightarrow>
    StoreError + DurableRunState" where
  "replay_commit_ledger enc run_id commit_ledger =
     (case try_fold (replay_ledger_step enc)
             (DurableRunState_new run_id, store_revision_get StoreRevision_INITIAL + 1)
             commit_ledger of
        Inl e \<Rightarrow> Inl e
      | Inr (reconstructed, expected_revision) \<Rightarrow>
          if store_revision_get (ds_revision reconstructed) \<noteq> expected_revision - 1 then
            Inl (DataCorruption RevisionDoesNotMatchLedger)
          else Inr reconstructed)"

text \<open>
  \<^verbatim>\<open>validate_persisted\<close> compares every field but the run and the ledger, which the
  reconstruction starts from.
\<close>

definition same_durable_facts :: "DurableRunState \<Rightarrow> DurableRunState \<Rightarrow> bool" where
  "same_durable_facts a b \<longleftrightarrow>
     ds_revision a = ds_revision b
     \<and> ds_workflow_replay_identity a = ds_workflow_replay_identity b
     \<and> ds_admissions a = ds_admissions b
     \<and> ds_admission_history a = ds_admission_history b
     \<and> ds_intents a = ds_intents b
     \<and> ds_task_operations a = ds_task_operations b
     \<and> ds_cancellations a = ds_cancellations b
     \<and> ds_dispatches a = ds_dispatches b
     \<and> ds_dispatch_history a = ds_dispatch_history b
     \<and> ds_outcomes a = ds_outcomes b
     \<and> ds_outcome_history a = ds_outcome_history b
     \<and> ds_completions a = ds_completions b
     \<and> ds_completion_history a = ds_completion_history b
     \<and> ds_idempotency a = ds_idempotency b"

definition validate_persisted :: "binding_encoder \<Rightarrow> DurableRunState \<Rightarrow> StoreError + unit" where
  "validate_persisted enc s =
     (if (case ds_workflow_replay_identity s of
            None \<Rightarrow> False
          | Some identity \<Rightarrow> trim_is_empty (replay_identity_str identity)) then
        Inl (DataCorruption ReplayIdentityIsEmpty)
      else if list_ex (\<lambda>key. trim_is_empty (idempotency_key_str key)) (bm_keys (ds_idempotency s)) then
        Inl (DataCorruption IdempotencyMetadataInvalid)
      else
        (case replay_commit_ledger enc (ds_run_id s) (ds_commit_ledger s) of
           Inl e \<Rightarrow> Inl e
         | Inr reconstructed \<Rightarrow>
             if \<not> same_durable_facts reconstructed s then Inl (DataCorruption InconsistentLineage)
             else Inr ()))"

definition persisted_snapshot :: "binding_encoder \<Rightarrow> DurableRunState \<Rightarrow>
    StoreError + PersistedRunSnapshot" where
  "persisted_snapshot enc s =
     (case validate_persisted enc s of
        Inl e \<Rightarrow> Inl e
      | Inr _ \<Rightarrow> Inr \<lparr>ps_run_id = ds_run_id s, ps_commit_ledger = ds_commit_ledger s\<rparr>)"

definition from_persisted_snapshot :: "binding_encoder \<Rightarrow> PersistedRunSnapshot \<Rightarrow>
    StoreError + DurableRunState" where
  "from_persisted_snapshot enc snapshot =
     replay_commit_ledger enc (ps_run_id snapshot) (ps_commit_ledger snapshot)"

section \<open>The in-memory store\<close>

record InMemoryDurableStore =
  im_runs :: "(RunId, DurableRunState) fmap"

definition InMemoryDurableStore_new :: InMemoryDurableStore where
  "InMemoryDurableStore_new = \<lparr>im_runs = fmempty\<rparr>"

definition memory_create_run :: "InMemoryDurableStore \<Rightarrow> RunId \<Rightarrow>
    InMemoryDurableStore \<times> (StoreError + StoreRevision)" where
  "memory_create_run st run_id =
     (if contains_key (im_runs st) run_id then (st, Inl (RunAlreadyExists run_id))
      else (st\<lparr>im_runs := fmupd run_id (DurableRunState_new run_id) (im_runs st)\<rparr>,
            Inr StoreRevision_INITIAL))"

definition memory_load_run :: "InMemoryDurableStore \<Rightarrow> RunId \<Rightarrow> StoreError + DurableRunState" where
  "memory_load_run st run_id =
     (case fmlookup (im_runs st) run_id of
        None \<Rightarrow> Inl (RunNotFound run_id)
      | Some s \<Rightarrow> Inr s)"

definition memory_commit :: "binding_encoder \<Rightarrow> InMemoryDurableStore \<Rightarrow> CommitRequest \<Rightarrow>
    InMemoryDurableStore \<times> (StoreError + CommitResult)" where
  "memory_commit enc st request =
     (if rq_mutations request = [] then (st, Inl EmptyCommit)
      else
        (case fmlookup (im_runs st) (rq_run_id request) of
           None \<Rightarrow> (st, Inl (RunNotFound (rq_run_id request)))
         | Some s \<Rightarrow>
             (case fmlookup (ds_idempotency s) (rq_idempotency_key request) of
                Some (existing, _) \<Rightarrow>
                  if existing = rq_mutations request then
                    (st, Inr \<lparr>cm_revision = ds_revision s, cm_replayed = True\<rparr>)
                  else (st, Inl (IdempotencyConflict (rq_idempotency_key request)))
              | None \<Rightarrow>
                  if rq_expected_revision request \<noteq> ds_revision s then
                    (st, Inl (StoreRevisionConflict (rq_expected_revision request) (ds_revision s)))
                  else
                    (case StoreRevision_checked_next (ds_revision s) of
                       None \<Rightarrow> (st, Inl (StoreRevisionExhausted (ds_revision s)))
                     | Some revision \<Rightarrow>
                         (case apply_durable_mutations s (rq_mutations request) of
                            Inl e \<Rightarrow> (st, Inl e)
                          | Inr candidate \<Rightarrow>
                              let recorded = record_commit enc (candidate\<lparr>ds_revision := revision\<rparr>)
                                    (rq_idempotency_key request) (rq_mutations request) revision
                              in (st\<lparr>im_runs := fmupd (rq_run_id request) recorded (im_runs st)\<rparr>,
                                  Inr \<lparr>cm_revision = revision, cm_replayed = False\<rparr>))))))"

section \<open>The contract of a store\<close>

text \<open>What a request does to the state of its run.\<close>

definition commit_state :: "binding_encoder \<Rightarrow> DurableRunState \<Rightarrow> CommitRequest \<Rightarrow>
    StoreError + DurableRunState \<times> CommitResult" where
  "commit_state enc s request =
     (if rq_mutations request = [] then Inl EmptyCommit
      else
        (case fmlookup (ds_idempotency s) (rq_idempotency_key request) of
           Some (existing, _) \<Rightarrow>
             if existing = rq_mutations request
             then Inr (s, \<lparr>cm_revision = ds_revision s, cm_replayed = True\<rparr>)
             else Inl (IdempotencyConflict (rq_idempotency_key request))
         | None \<Rightarrow>
             if rq_expected_revision request \<noteq> ds_revision s
             then Inl (StoreRevisionConflict (rq_expected_revision request) (ds_revision s))
             else
               (case StoreRevision_checked_next (ds_revision s) of
                  None \<Rightarrow> Inl (StoreRevisionExhausted (ds_revision s))
                | Some revision \<Rightarrow>
                    (case apply_durable_mutations s (rq_mutations request) of
                       Inl e \<Rightarrow> Inl e
                     | Inr candidate \<Rightarrow>
                         Inr (record_commit enc candidate (rq_idempotency_key request)
                                (rq_mutations request) revision,
                              \<lparr>cm_revision = revision, cm_replayed = False\<rparr>)))))"

text \<open>
  The values a Rust request can carry: identifiers and keys are non-blank by construction.
\<close>

definition valid_capability :: "CapabilityReplayIdentity \<Rightarrow> bool" where
  "valid_capability c \<longleftrightarrow> valid_id (cri_capability_id c)"

fun valid_mutation :: "DurableMutation \<Rightarrow> bool" where
  "valid_mutation (RecordWorkflowReplayIdentity i) \<longleftrightarrow> \<not> trim_is_empty (replay_identity_str i)"
| "valid_mutation (AdmitAttempt a) \<longleftrightarrow>
     valid_id (run_id_of (aa_run_id a)) \<and> valid_id (aa_task_id a) \<and>
     valid_id (attempt_id_of (aa_attempt_id a)) \<and>
     (case_option True (\<lambda>i. valid_id (operation_id_of i))) (aa_operation_id a) \<and>
     list_all valid_capability (aa_capabilities a)"
| "valid_mutation (RecordIntent i) \<longleftrightarrow>
     valid_id (ei_task_id i) \<and> valid_id (operation_id_of (ei_operation_id i))"
| "valid_mutation (RecordCancellation c) \<longleftrightarrow>
     valid_id (run_id_of (ca_run_id c)) \<and> valid_id (ca_task_id c) \<and>
     (case_option True (\<lambda>i. valid_id (operation_id_of i))) (ca_operation_id c) \<and>
     (case_option True (\<lambda>i. valid_id (attempt_id_of i))) (ca_attempt_id c)"
| "valid_mutation (RecordDispatch d) \<longleftrightarrow>
     valid_id (operation_id_of (dr_operation_id d)) \<and> valid_id (attempt_id_of (dr_attempt_id d))"
| "valid_mutation (RecordOutcome out) \<longleftrightarrow>
     valid_id (operation_id_of (or_operation_id out)) \<and> valid_id (attempt_id_of (or_attempt_id out))"
| "valid_mutation (RecordCompletion c) \<longleftrightarrow>
     valid_id (dc_task_id c) \<and> valid_id (attempt_id_of (dc_attempt_id c))"

definition valid_batch :: "IdempotencyKey \<Rightarrow> DurableMutation list \<Rightarrow> bool" where
  "valid_batch key mutations \<longleftrightarrow>
     \<not> trim_is_empty (idempotency_key_str key) \<and> list_all valid_mutation mutations"

definition valid_request :: "CommitRequest \<Rightarrow> bool" where
  "valid_request request \<longleftrightarrow> valid_batch (rq_idempotency_key request) (rq_mutations request)"

definition valid_run :: "RunId \<Rightarrow> bool" where
  "valid_run r \<longleftrightarrow> valid_id (run_id_of r)"

text \<open>Run states a store can hold: created, then changed by accepted requests.\<close>

inductive durable_reachable :: "binding_encoder \<Rightarrow> DurableRunState \<Rightarrow> bool" for enc where
  create: "valid_run run_id \<Longrightarrow> durable_reachable enc (DurableRunState_new run_id)"
| commit: "durable_reachable enc s \<Longrightarrow> valid_request request \<Longrightarrow>
    commit_state enc s request = Inr (s', result) \<Longrightarrow> durable_reachable enc s'"

lemma commit_state_cases:
  assumes "commit_state enc s request = Inr (s', result)"
  obtains (replayed) r where "s' = s" "result = \<lparr>cm_revision = ds_revision s, cm_replayed = True\<rparr>"
      "fmlookup (ds_idempotency s) (rq_idempotency_key request) = Some (rq_mutations request, r)"
  | (fresh) revision candidate where
      "fmlookup (ds_idempotency s) (rq_idempotency_key request) = None"
      "rq_mutations request \<noteq> []" "rq_expected_revision request = ds_revision s"
      "StoreRevision_checked_next (ds_revision s) = Some revision"
      "apply_durable_mutations s (rq_mutations request) = Inr candidate"
      "s' = record_commit enc candidate (rq_idempotency_key request) (rq_mutations request) revision"
      "result = \<lparr>cm_revision = revision, cm_replayed = False\<rparr>"
  using assms
  by (auto simp: commit_state_def split: if_splits option.splits prod.splits sum.splits)

text \<open>
  \<open>runs\<close> is the durable content of a store, one state per run. A store loads only what it
  holds, changes a run exactly as \<open>commit_state\<close> says, and changes nothing when it answers
  with an error.
\<close>

locale durable_store =
  fixes enc :: binding_encoder
    and create_run :: "'st \<Rightarrow> RunId \<Rightarrow> 'st \<times> (StoreError + StoreRevision)"
    and load_run :: "'st \<Rightarrow> RunId \<Rightarrow> StoreError + DurableRunState"
    and commit :: "'st \<Rightarrow> CommitRequest \<Rightarrow> 'st \<times> (StoreError + CommitResult)"
    and store_ok :: "'st \<Rightarrow> bool"
    and runs :: "'st \<Rightarrow> RunId \<Rightarrow> DurableRunState option"
  assumes runs_reachable: "store_ok st \<Longrightarrow> runs st r = Some s \<Longrightarrow>
          durable_reachable enc s \<and> ds_run_id s = r"
    and load_ok: "store_ok st \<Longrightarrow> load_run st r = Inr s \<Longrightarrow> runs st r = Some s"
    and create_ok: "store_ok st \<Longrightarrow> valid_run r \<Longrightarrow> create_run st r = (st', Inr revision) \<Longrightarrow>
          store_ok st' \<and> revision = StoreRevision_INITIAL \<and> runs st r = None \<and>
          runs st' = (runs st)(r \<mapsto> DurableRunState_new r)"
    and create_error: "store_ok st \<Longrightarrow> create_run st r = (st', Inl e) \<Longrightarrow>
          store_ok st' \<and> runs st' = runs st"
    and commit_ok: "store_ok st \<Longrightarrow> valid_request q \<Longrightarrow> commit st q = (st', Inr result) \<Longrightarrow>
          store_ok st' \<and>
          (\<exists>s s'. runs st (rq_run_id q) = Some s \<and> commit_state enc s q = Inr (s', result) \<and>
                  runs st' = (runs st)(rq_run_id q \<mapsto> s'))"
    and commit_error: "store_ok st \<Longrightarrow> commit st q = (st', Inl e) \<Longrightarrow>
          store_ok st' \<and> runs st' = runs st"
begin

lemma create_store_ok: "store_ok st \<Longrightarrow> valid_run r \<Longrightarrow> store_ok (fst (create_run st r))"
  using create_ok [of st r] create_error [of st r]
  by (metis (no_types, opaque_lifting) prod.collapse old.sum.exhaust)

lemma commit_store_ok: "store_ok st \<Longrightarrow> valid_request q \<Longrightarrow> store_ok (fst (commit st q))"
  using commit_ok [of st q] commit_error [of st q]
  by (metis (no_types, opaque_lifting) prod.collapse old.sum.exhaust)

text \<open>
  A client that lost the answer of an accepted commit may send the request again: a second
  success is a replay at the same revision and changes no run.
\<close>

lemma retry_is_replay:
  assumes ok: "store_ok st" and q: "valid_request q"
    and first: "commit st q = (st', Inr result)"
    and second: "commit st' q = (st'', Inr result')"
  shows "cm_replayed result' \<and> cm_revision result' = cm_revision result \<and> runs st'' = runs st'"
proof -
  obtain s s' where s: "commit_state enc s q = Inr (s', result)"
    and s': "runs st' (rq_run_id q) = Some s'" and ok': "store_ok st'"
    using commit_ok [OF ok q first] by auto
  obtain t t' where t: "runs st' (rq_run_id q) = Some t"
    and tt: "commit_state enc t q = Inr (t', result')"
    and t': "runs st'' = (runs st')(rq_run_id q \<mapsto> t')"
    using commit_ok [OF ok' q second] by blast
  have known: "\<exists>r. fmlookup (ds_idempotency s') (rq_idempotency_key q) = Some (rq_mutations q, r)"
    "ds_revision s' = cm_revision result"
    using s by (cases rule: commit_state_cases; auto simp: record_commit_def)+
  from tt t s' have "commit_state enc s' q = Inr (t', result')" by simp
  then have "t' = s' \<and> cm_replayed result' \<and> cm_revision result' = cm_revision result"
    by (cases rule: commit_state_cases) (use known in auto)
  then show ?thesis using t' s' by (simp add: map_upd_triv)
qed

text \<open>
  Compare and swap: of two requests with different keys prepared against the same revision,
  at most one is applied.
\<close>

lemma compare_and_swap:
  assumes ok: "store_ok st" and q: "valid_request q" "valid_request q'"
    and run: "rq_run_id q' = rq_run_id q"
    and expected: "rq_expected_revision q' = rq_expected_revision q"
    and first: "commit st q = (st', Inr result)" "\<not> cm_replayed result"
    and second: "commit st' q' = (st'', Inr result')"
  shows "cm_replayed result'"
proof -
  obtain s s' where s: "commit_state enc s q = Inr (s', result)"
    and s': "runs st' (rq_run_id q) = Some s'" and ok': "store_ok st'"
    using commit_ok [OF ok q(1) first(1)] by auto
  obtain t' where t: "commit_state enc s' q' = Inr (t', result')"
    using commit_ok [OF ok' q(2) second] run s' by auto
  from s have "rq_expected_revision q \<noteq> ds_revision s'"
    using first(2) store_revision.step_not_same
    by (cases rule: commit_state_cases) (auto simp: record_commit_def)
  with t expected show ?thesis by (cases rule: commit_state_cases) auto
qed

text \<open>A loaded state is a reachable state of the run it was asked for.\<close>

lemma load_reachable:
  "store_ok st \<Longrightarrow> load_run st r = Inr s \<Longrightarrow> durable_reachable enc s \<and> ds_run_id s = r"
  using load_ok runs_reachable by blast

end

lemma memory_commit_state:
  "memory_commit enc st request =
     (case (if rq_mutations request = [] then Inl EmptyCommit
            else case memory_load_run st (rq_run_id request) of
                   Inl e \<Rightarrow> Inl e
                 | Inr s \<Rightarrow> commit_state enc s request) of
        Inl e \<Rightarrow> (st, Inl e)
      | Inr (s', result) \<Rightarrow>
          (if cm_replayed result then st
           else st\<lparr>im_runs := fmupd (rq_run_id request) s' (im_runs st)\<rparr>, Inr result))"
  by (auto simp: memory_commit_def memory_load_run_def commit_state_def record_commit_def Let_def
      split: option.splits sum.splits)

definition memory_ok :: "binding_encoder \<Rightarrow> InMemoryDurableStore \<Rightarrow> bool" where
  "memory_ok enc st \<longleftrightarrow>
     (\<forall>r s. fmlookup (im_runs st) r = Some s \<longrightarrow> durable_reachable enc s \<and> ds_run_id s = r)"

lemma commit_state_run_id:
  assumes "commit_state enc s request = Inr (s', result)"
  shows "ds_run_id s' = ds_run_id s"
  using assms
  by (cases rule: commit_state_cases)
    (auto simp: record_commit_def dest: apply_durable_mutations_ledger)

lemma commit_state_replayed:
  "commit_state enc s request = Inr (s', result) \<Longrightarrow> cm_replayed result \<Longrightarrow> s' = s"
  by (cases rule: commit_state_cases) auto

interpretation memory: durable_store enc memory_create_run memory_load_run "memory_commit enc"
    "memory_ok enc" "\<lambda>st. fmlookup (im_runs st)" for enc
proof (unfold_locales, goal_cases)
  case (1 st r s)
  then show ?case by (auto simp: memory_ok_def)
next
  case (2 st r s)
  then show ?case by (auto simp: memory_load_run_def split: option.splits)
next
  case (3 st r st' revision)
  then show ?case
    using durable_reachable.create [OF 3(2), of enc]
    by (auto simp: memory_ok_def memory_create_run_def contains_key_def fun_upd_def
        DurableRunState_new_def split: if_splits)
next
  case (4 st r st' e)
  then show ?case by (simp add: memory_create_run_def split: if_splits)
next
  case (5 st q st' result)
  then obtain s s' where load: "memory_load_run st (rq_run_id q) = Inr s"
    and step: "commit_state enc s q = Inr (s', result)"
    and st': "st' = (if cm_replayed result then st
                     else st\<lparr>im_runs := fmupd (rq_run_id q) s' (im_runs st)\<rparr>)"
    by (auto simp: memory_commit_state split: sum.splits prod.splits if_splits)
  have run: "fmlookup (im_runs st) (rq_run_id q) = Some s"
    using load by (auto simp: memory_load_run_def split: option.splits)
  with 5(1) have "durable_reachable enc s" "ds_run_id s = rq_run_id q"
    by (auto simp: memory_ok_def)
  then have "durable_reachable enc s'" "ds_run_id s' = rq_run_id q"
    using step 5(2) commit_state_run_id [OF step] by (auto intro: durable_reachable.commit)
  moreover have "fmlookup (im_runs st') = (fmlookup (im_runs st))(rq_run_id q \<mapsto> s')"
    using st' run commit_state_replayed [OF step] by (auto simp: map_upd_triv)
  ultimately show ?case
    using 5(1) run step by (auto simp: memory_ok_def)
next
  case (6 st q st' e)
  then show ?case by (auto simp: memory_commit_state split: sum.splits prod.splits)
qed

end
