(* ===== verification/Durable_Invariants.thy ===== *)
theory Durable_Invariants
  imports Durable_Store
begin

text \<open>
  What holds of every run state a store can reach: the lineage of its facts, their
  append-only growth, the effect of a cancellation, and the agreement with the replay of
  the commit ledger.
\<close>

section \<open>Indexed histories\<close>

text \<open>A history list and the map that indexes it by key, as the state keeps them in pairs.\<close>

definition indexed :: "('v \<Rightarrow> 'k) \<Rightarrow> ('k, 'v) fmap \<Rightarrow> 'v list \<Rightarrow> bool" where
  "indexed key m h \<longleftrightarrow>
     distinct (map key h) \<and> (\<forall>k v. fmlookup m k = Some v \<longleftrightarrow> v \<in> set h \<and> key v = k)"

lemma indexed_empty [simp]: "indexed key fmempty []"
  by (simp add: indexed_def)

lemma indexed_lookup: "indexed key m h \<Longrightarrow> v \<in> set h \<Longrightarrow> fmlookup m (key v) = Some v"
  by (simp add: indexed_def)

lemma indexed_lookup_mem: "indexed key m h \<Longrightarrow> fmlookup m k = Some v \<Longrightarrow> v \<in> set h \<and> key v = k"
  by (simp add: indexed_def)

lemma indexed_insert:
  assumes "indexed key m h" and "fmlookup m (key v) = None"
  shows "indexed key (fmupd (key v) v m) (h @ [v])"
proof -
  have new: "key v \<notin> key ` set h"
    using assms by (metis image_iff indexed_def option.distinct(1))
  then have "\<And>x. x \<in> set h \<Longrightarrow> key x \<noteq> key v" by (metis image_eqI)
  with assms(1) new show ?thesis by (auto simp: indexed_def)
qed

section \<open>Lineage\<close>

definition admission_ok :: "DurableRunState \<Rightarrow> AttemptAdmission \<Rightarrow> bool" where
  "admission_ok s a \<longleftrightarrow> aa_run_id a = ds_run_id s"

definition dispatch_ok :: "DurableRunState \<Rightarrow> DispatchRecord \<Rightarrow> bool" where
  "dispatch_ok s d \<longleftrightarrow>
     (\<exists>i a. fmlookup (ds_intents s) (dr_operation_id d) = Some i \<and>
            fmlookup (ds_admissions s) (dr_attempt_id d) = Some a \<and>
            aa_operation_id a = Some (dr_operation_id d) \<and> aa_task_id a = ei_task_id i)"

definition outcome_ok :: "DurableRunState \<Rightarrow> OutcomeRecord \<Rightarrow> bool" where
  "outcome_ok s out \<longleftrightarrow>
     fmlookup (ds_dispatches s) (or_attempt_id out) =
       Some \<lparr>dr_operation_id = or_operation_id out, dr_attempt_id = or_attempt_id out\<rparr>"

definition completion_ok :: "DurableRunState \<Rightarrow> DurableCompletion \<Rightarrow> bool" where
  "completion_ok s c \<longleftrightarrow>
     (\<exists>a. fmlookup (ds_admissions s) (dc_attempt_id c) = Some a \<and> aa_task_id a = dc_task_id c \<and>
          (\<forall>operation. aa_operation_id a = Some operation \<longrightarrow>
             fmlookup (ds_outcomes s) (dc_attempt_id c) =
               Some \<lparr>or_operation_id = operation, or_attempt_id = dc_attempt_id c,
                     or_outcome = Succeeded\<rparr>))"

definition intents_ok :: "DurableRunState \<Rightarrow> bool" where
  "intents_ok s \<longleftrightarrow>
     (\<forall>operation i. fmlookup (ds_intents s) operation = Some i \<longrightarrow>
        ei_operation_id i = operation \<and>
        fmlookup (ds_task_operations s) (ei_task_id i) = Some operation) \<and>
     (\<forall>t operation. fmlookup (ds_task_operations s) t = Some operation \<longrightarrow>
        (\<exists>i. fmlookup (ds_intents s) operation = Some i \<and> ei_task_id i = t))"

definition cancellations_ok :: "DurableRunState \<Rightarrow> bool" where
  "cancellations_ok s \<longleftrightarrow>
     (\<forall>t c. fmlookup (ds_cancellations s) t = Some c \<longrightarrow>
        ca_task_id c = t \<and> ca_run_id c = ds_run_id s \<and> cancellation_lineage_ok s c)"

definition lineage :: "DurableRunState \<Rightarrow> bool" where
  "lineage s \<longleftrightarrow>
     indexed aa_attempt_id (ds_admissions s) (ds_admission_history s) \<and>
     list_all (admission_ok s) (ds_admission_history s) \<and>
     intents_ok s \<and> cancellations_ok s \<and>
     indexed dr_attempt_id (ds_dispatches s) (ds_dispatch_history s) \<and>
     list_all (dispatch_ok s) (ds_dispatch_history s) \<and>
     indexed or_attempt_id (ds_outcomes s) (ds_outcome_history s) \<and>
     list_all (outcome_ok s) (ds_outcome_history s) \<and>
     indexed dc_task_id (ds_completions s) (ds_completion_history s) \<and>
     list_all (completion_ok s) (ds_completion_history s)"

section \<open>Growth\<close>

text \<open>Facts are only added: every map is extended and every history is a prefix.\<close>

definition facts_grow :: "DurableRunState \<Rightarrow> DurableRunState \<Rightarrow> bool" where
  "facts_grow s s' \<longleftrightarrow>
     ds_run_id s' = ds_run_id s \<and>
     (\<exists>ys. ds_admission_history s' = ds_admission_history s @ ys) \<and>
     (\<exists>ys. ds_dispatch_history s' = ds_dispatch_history s @ ys) \<and>
     (\<exists>ys. ds_outcome_history s' = ds_outcome_history s @ ys) \<and>
     (\<exists>ys. ds_completion_history s' = ds_completion_history s @ ys) \<and>
     fmlookup (ds_admissions s) \<subseteq>\<^sub>m fmlookup (ds_admissions s') \<and>
     fmlookup (ds_intents s) \<subseteq>\<^sub>m fmlookup (ds_intents s') \<and>
     fmlookup (ds_task_operations s) \<subseteq>\<^sub>m fmlookup (ds_task_operations s') \<and>
     fmlookup (ds_cancellations s) \<subseteq>\<^sub>m fmlookup (ds_cancellations s') \<and>
     fmlookup (ds_dispatches s) \<subseteq>\<^sub>m fmlookup (ds_dispatches s') \<and>
     fmlookup (ds_outcomes s) \<subseteq>\<^sub>m fmlookup (ds_outcomes s') \<and>
     fmlookup (ds_completions s) \<subseteq>\<^sub>m fmlookup (ds_completions s')"

lemma facts_grow_refl [simp]: "facts_grow s s"
  by (simp add: facts_grow_def)

lemma facts_grow_trans: "facts_grow a b \<Longrightarrow> facts_grow b c \<Longrightarrow> facts_grow a c"
  unfolding facts_grow_def by (elim conjE exE) (auto intro: map_le_trans)

lemma map_le_fmupd: "fmlookup m k = None \<Longrightarrow> fmlookup m \<subseteq>\<^sub>m fmlookup (fmupd k v m)"
  by (simp add: map_le_def dom_def)

lemma apply_durable_mutation_grows:
  assumes "apply_durable_mutation s mutation = Inr s'"
  shows "facts_grow s s'"
  using assms
  by (cases mutation)
    (auto simp: mutation_defs facts_grow_def contains_key_def intro!: map_le_fmupd
      split: option.splits if_splits)

lemma apply_durable_mutations_grow:
  assumes "apply_durable_mutations s mutations = Inr s'"
  shows "facts_grow s s'"
  using assms unfolding apply_durable_mutations_def
  by (rule try_fold_invariant [where P = "facts_grow s", rotated 2])
    (auto dest: apply_durable_mutation_grows intro: facts_grow_trans)

lemma map_le_lookup: "m \<subseteq>\<^sub>m m' \<Longrightarrow> m k = Some v \<Longrightarrow> m' k = Some v"
  by (metis domI map_le_def)

lemma facts_grow_lookup:
  assumes "facts_grow s s'"
  shows "fmlookup (ds_admissions s) a = Some v \<Longrightarrow> fmlookup (ds_admissions s') a = Some v"
    and "fmlookup (ds_intents s) operation = Some i \<Longrightarrow> fmlookup (ds_intents s') operation = Some i"
    and "fmlookup (ds_task_operations s) t = Some operation \<Longrightarrow>
           fmlookup (ds_task_operations s') t = Some operation"
    and "fmlookup (ds_dispatches s) a = Some d \<Longrightarrow> fmlookup (ds_dispatches s') a = Some d"
    and "fmlookup (ds_outcomes s) a = Some out \<Longrightarrow> fmlookup (ds_outcomes s') a = Some out"
    and "fmlookup (ds_cancellations s) t = Some x \<Longrightarrow> fmlookup (ds_cancellations s') t = Some x"
    and "fmlookup (ds_completions s) t = Some c \<Longrightarrow> fmlookup (ds_completions s') t = Some c"
  using assms unfolding facts_grow_def by (blast intro: map_le_lookup)+

lemma admission_ok_grow: "facts_grow s s' \<Longrightarrow> admission_ok s a \<Longrightarrow> admission_ok s' a"
  by (simp add: facts_grow_def admission_ok_def)

lemma dispatch_ok_grow: "facts_grow s s' \<Longrightarrow> dispatch_ok s d \<Longrightarrow> dispatch_ok s' d"
  unfolding dispatch_ok_def by (meson facts_grow_lookup(1,2))

lemma outcome_ok_grow: "facts_grow s s' \<Longrightarrow> outcome_ok s out \<Longrightarrow> outcome_ok s' out"
  unfolding outcome_ok_def by (rule facts_grow_lookup(4))

lemma completion_ok_grow: "facts_grow s s' \<Longrightarrow> completion_ok s c \<Longrightarrow> completion_ok s' c"
  unfolding completion_ok_def by (meson facts_grow_lookup(1,5))

lemma cancellation_lineage_ok_grow:
  assumes "facts_grow s s'" and "cancellation_lineage_ok s x"
  shows "cancellation_lineage_ok s' x"
  using assms(2) facts_grow_lookup(1,3) [OF assms(1)]
  by (auto simp: cancellation_lineage_ok_def split: option.splits)

section \<open>Preservation\<close>

lemma lineage_new: "lineage (DurableRunState_new r)"
  by (simp add: lineage_def DurableRunState_new_def intents_ok_def cancellations_ok_def)

text \<open>
  To preserve the lineage it is enough to look at what is new: old facts stay justified
  because facts only grow.
\<close>

lemma lineage_step:
  assumes "lineage s" and "facts_grow s s'"
    and "indexed aa_attempt_id (ds_admissions s') (ds_admission_history s')"
    and "\<forall>a\<in>set (ds_admission_history s') - set (ds_admission_history s). admission_ok s' a"
    and "intents_ok s'"
    and "\<forall>t c. fmlookup (ds_cancellations s') t = Some c \<longrightarrow>
           fmlookup (ds_cancellations s) t = Some c \<or>
           ca_task_id c = t \<and> ca_run_id c = ds_run_id s' \<and> cancellation_lineage_ok s' c"
    and "indexed dr_attempt_id (ds_dispatches s') (ds_dispatch_history s')"
    and "\<forall>d\<in>set (ds_dispatch_history s') - set (ds_dispatch_history s). dispatch_ok s' d"
    and "indexed or_attempt_id (ds_outcomes s') (ds_outcome_history s')"
    and "\<forall>out\<in>set (ds_outcome_history s') - set (ds_outcome_history s). outcome_ok s' out"
    and "indexed dc_task_id (ds_completions s') (ds_completion_history s')"
    and "\<forall>c\<in>set (ds_completion_history s') - set (ds_completion_history s). completion_ok s' c"
  shows "lineage s'"
proof -
  have run: "ds_run_id s' = ds_run_id s" using assms(2) by (simp add: facts_grow_def)
  have "list_all (admission_ok s') (ds_admission_history s')"
    using assms(1,4) admission_ok_grow [OF assms(2)] by (auto simp: lineage_def list_all_iff)
  moreover have "list_all (dispatch_ok s') (ds_dispatch_history s')"
    using assms(1,8) dispatch_ok_grow [OF assms(2)] by (auto simp: lineage_def list_all_iff)
  moreover have "list_all (outcome_ok s') (ds_outcome_history s')"
    using assms(1,10) outcome_ok_grow [OF assms(2)] by (auto simp: lineage_def list_all_iff)
  moreover have "list_all (completion_ok s') (ds_completion_history s')"
    using assms(1,12) completion_ok_grow [OF assms(2)] by (auto simp: lineage_def list_all_iff)
  moreover have "cancellations_ok s'"
    unfolding cancellations_ok_def
  proof (intro allI impI)
    fix t c
    assume "fmlookup (ds_cancellations s') t = Some c"
    with assms(6) consider "fmlookup (ds_cancellations s) t = Some c"
      | "ca_task_id c = t \<and> ca_run_id c = ds_run_id s' \<and> cancellation_lineage_ok s' c"
      by blast
    then show "ca_task_id c = t \<and> ca_run_id c = ds_run_id s' \<and> cancellation_lineage_ok s' c"
      using assms(1) cancellation_lineage_ok_grow [OF assms(2), of c] run
      by cases (simp_all add: lineage_def cancellations_ok_def)
  qed
  ultimately show ?thesis using assms(3,5,7,9,11) by (simp add: lineage_def)
qed

lemma lineage_admit:
  assumes "lineage s" and step: "admit_attempt s a = Inr s'"
  shows "lineage s'"
proof -
  have "facts_grow s s'" using apply_durable_mutation_grows [of s "AdmitAttempt a" s'] step by simp
  with assms show ?thesis
    by (intro lineage_step [of s s'])
      (auto simp: admit_attempt_def lineage_def contains_key_def indexed_insert intents_ok_def
        admission_ok_def split: if_splits)
qed

lemma lineage_intent:
  assumes "lineage s" and step: "record_intent s i = Inr s'"
  shows "lineage s'"
proof -
  have "facts_grow s s'" using apply_durable_mutation_grows [of s "RecordIntent i" s'] step by simp
  moreover have "intents_ok s'"
    using assms by (auto simp: record_intent_def lineage_def intents_ok_def
        split: option.splits if_splits) (metis option.distinct(1))+
  ultimately show ?thesis
    using assms by (intro lineage_step [of s s'])
      (auto simp: record_intent_def lineage_def split: option.splits if_splits)
qed

lemma lineage_cancellation:
  assumes "lineage s" and step: "record_cancellation s c = Inr s'"
  shows "lineage s'"
proof -
  have "facts_grow s s'"
    using apply_durable_mutation_grows [of s "RecordCancellation c" s'] step by simp
  moreover from this have "cancellation_lineage_ok s c \<Longrightarrow> cancellation_lineage_ok s' c"
    by (rule cancellation_lineage_ok_grow)
  ultimately show ?thesis
    using assms by (intro lineage_step [of s s'])
      (auto simp: record_cancellation_def lineage_def intents_ok_def split: option.splits if_splits)
qed

lemma lineage_dispatch:
  assumes "lineage s" and step: "record_dispatch s d = Inr s'"
  shows "lineage s'"
proof -
  have "facts_grow s s'" using apply_durable_mutation_grows [of s "RecordDispatch d" s'] step by simp
  moreover from step have "dispatch_ok s' d"
    by (auto simp: record_dispatch_def dispatch_ok_def split: option.splits if_splits)
  ultimately show ?thesis
    using assms by (intro lineage_step [of s s'])
      (auto simp: record_dispatch_def lineage_def intents_ok_def contains_key_def indexed_insert
        split: option.splits if_splits)
qed

lemma lineage_outcome:
  assumes "lineage s" and step: "record_outcome s out = Inr s'"
  shows "lineage s'"
proof -
  have "facts_grow s s'" using apply_durable_mutation_grows [of s "RecordOutcome out" s'] step by simp
  moreover have "outcome_ok s' out"
  proof -
    from step obtain d where d: "fmlookup (ds_dispatches s) (or_attempt_id out) = Some d"
      "dr_operation_id d = or_operation_id out"
      by (auto simp: record_outcome_def split: option.splits if_splits)
    then have "dr_attempt_id d = or_attempt_id out"
      using assms(1) by (auto simp: lineage_def dest: indexed_lookup_mem)
    with d have "outcome_ok s out" by (cases d) (simp add: outcome_ok_def)
    then show ?thesis by (rule outcome_ok_grow [OF \<open>facts_grow s s'\<close>])
  qed
  ultimately show ?thesis
    using assms by (intro lineage_step [of s s'])
      (auto simp: record_outcome_def lineage_def intents_ok_def contains_key_def indexed_insert
        split: option.splits if_splits)
qed

text \<open>What the checks of a completion establish.\<close>

lemma check_effect_completion_None:
  assumes "lineage s" and "check_effect_completion s c operation = None"
  shows "fmlookup (ds_outcomes s) (dc_attempt_id c) =
           Some \<lparr>or_operation_id = operation, or_attempt_id = dc_attempt_id c,
                 or_outcome = Succeeded\<rparr>
       \<and> (\<exists>d. latest_dispatch s operation = Some d \<and> dr_attempt_id d = dc_attempt_id c)"
proof -
  obtain d out l where d: "fmlookup (ds_dispatches s) (dc_attempt_id c) = Some d"
      "dr_operation_id d = operation"
    and out: "fmlookup (ds_outcomes s) (dc_attempt_id c) = Some out" "or_outcome out = Succeeded"
    and l: "latest_dispatch s operation = Some l" "dr_attempt_id l = dc_attempt_id c"
    using assms(2) by (auto simp: check_effect_completion_def Let_def split: if_splits option.splits)
  have "out \<in> set (ds_outcome_history s)" "or_attempt_id out = dc_attempt_id c"
    using assms(1) out(1) indexed_lookup_mem by (fastforce simp: lineage_def)+
  moreover from this have "outcome_ok s out"
    using assms(1) by (auto simp: lineage_def list_all_iff)
  ultimately have "or_operation_id out = operation"
    using d by (auto simp: outcome_ok_def)
  with out l \<open>or_attempt_id out = dc_attempt_id c\<close> show ?thesis by (cases out) auto
qed

lemma lineage_completion:
  assumes "lineage s" and step: "record_completion s c = Inr s'"
  shows "lineage s'"
proof -
  have grow: "facts_grow s s'"
    using apply_durable_mutation_grows [of s "RecordCompletion c" s'] step by simp
  have "completion_ok s c"
    using step check_effect_completion_None [OF assms(1), of c]
    by (auto simp: record_completion_def completion_ok_def split: option.splits if_splits)
  then have "completion_ok s' c" by (rule completion_ok_grow [OF grow])
  with grow show ?thesis
    using assms by (intro lineage_step [of s s'])
      (auto simp: record_completion_def insert_completion_def lineage_def intents_ok_def
        contains_key_def indexed_insert split: option.splits if_splits)
qed

lemma apply_durable_mutation_lineage:
  assumes "lineage s" and "apply_durable_mutation s mutation = Inr s'"
  shows "lineage s'"
proof (cases mutation)
  case (RecordWorkflowReplayIdentity identity)
  then have "facts_grow s s'" using apply_durable_mutation_grows [OF assms(2)] by simp
  with RecordWorkflowReplayIdentity assms show ?thesis
    by (intro lineage_step [of s s'])
      (auto simp: record_replay_identity_def lineage_def intents_ok_def split: if_splits)
next
  case (AdmitAttempt a)
  with assms show ?thesis using lineage_admit by simp
next
  case (RecordIntent i)
  with assms show ?thesis using lineage_intent by simp
next
  case (RecordCancellation c)
  with assms show ?thesis using lineage_cancellation by simp
next
  case (RecordDispatch d)
  with assms show ?thesis using lineage_dispatch by simp
next
  case (RecordOutcome out)
  with assms show ?thesis using lineage_outcome by simp
next
  case (RecordCompletion c)
  with assms show ?thesis using lineage_completion by simp
qed

lemma apply_durable_mutations_lineage:
  assumes "lineage s" and "apply_durable_mutations s mutations = Inr s'"
  shows "lineage s'"
  using assms(2) unfolding apply_durable_mutations_def
  by (rule try_fold_invariant [where P = lineage, rotated 2])
    (auto simp: assms(1) intro: apply_durable_mutation_lineage)

text \<open>Lineage and growth ignore what a commit records beside the facts.\<close>

lemma record_commit_with_ledger:
  "\<exists>r l m. record_commit enc s key mutations revision = with_ledger r l m s"
  by (auto simp: record_commit_def with_ledger_def)

lemma lineage_with_ledger [simp]: "lineage (with_ledger r l m s) = lineage s"
  by (simp add: lineage_def intents_ok_def cancellations_ok_def dispatch_ok_def [abs_def]
      outcome_ok_def [abs_def] completion_ok_def [abs_def] admission_ok_def [abs_def])

lemma facts_grow_with_ledger [simp]: "facts_grow s (with_ledger r l m s') = facts_grow s s'"
  by (simp add: facts_grow_def)

lemma commit_state_grows:
  assumes "commit_state enc s request = Inr (s', result)"
  shows "facts_grow s s'"
  using assms
proof (cases rule: commit_state_cases)
  case (fresh revision candidate)
  then show ?thesis
    using apply_durable_mutations_grow
      record_commit_with_ledger [of enc candidate "rq_idempotency_key request"
        "rq_mutations request" revision]
    by fastforce
qed simp

lemma commit_state_lineage:
  assumes "lineage s" and "commit_state enc s request = Inr (s', result)"
  shows "lineage s'"
  using assms(2)
proof (cases rule: commit_state_cases)
  case (fresh revision candidate)
  then show ?thesis
    using apply_durable_mutations_lineage [OF assms(1)]
      record_commit_with_ledger [of enc candidate "rq_idempotency_key request"
        "rq_mutations request" revision]
    by fastforce
qed (simp add: assms(1))

lemma durable_reachable_lineage: "durable_reachable enc s \<Longrightarrow> lineage s"
  by (induction rule: durable_reachable.induct) (auto intro: lineage_new commit_state_lineage)

section \<open>The ledger\<close>

text \<open>The revision counts the ledger, and the index is the ledger by key.\<close>

definition ledger_ok :: "DurableRunState \<Rightarrow> bool" where
  "ledger_ok s \<longleftrightarrow>
     unat (store_revision_get (ds_revision s)) = length (ds_commit_ledger s) \<and>
     (\<forall>k v. fmlookup (ds_idempotency s) k = Some v \<longrightarrow>
        (\<exists>e\<in>set (ds_commit_ledger s). le_idempotency_key e = k \<and> v = (le_mutations e, le_revision e)))"

lemma commit_state_ledger_ok:
  assumes "ledger_ok s" and "commit_state enc s request = Inr (s', result)"
  shows "ledger_ok s'"
  using assms(2)
proof (cases rule: commit_state_cases)
  case replayed
  then show ?thesis using assms(1) by simp
next
  case (fresh revision candidate)
  have "unat (store_revision_get revision) = Suc (length (ds_commit_ledger s))"
    using store_revision.step_Some [OF fresh(4)] assms(1) by (simp add: ledger_ok_def)
  with fresh(6) assms(1) show ?thesis
    using apply_durable_mutations_ledger [OF fresh(5)]
    by (auto simp: ledger_ok_def record_commit_def)
qed

lemma durable_reachable_ledger_ok: "durable_reachable enc s \<Longrightarrow> ledger_ok s"
proof (induction rule: durable_reachable.induct)
  case (create run_id)
  then show ?case
    by (simp add: ledger_ok_def DurableRunState_new_def StoreRevision_INITIAL_def)
next
  case (commit s request s' result)
  then show ?case using commit_state_ledger_ok by blast
qed

text \<open>
  Replaying the ledger of a state rebuilds it. The replay indexes the key before it applies
  the mutations and the commit after; by the frame lemma the order does not matter.
\<close>

definition ledger_replays :: "binding_encoder \<Rightarrow> DurableRunState \<Rightarrow> bool" where
  "ledger_replays enc s \<longleftrightarrow>
     ds_revision s = StoreRevision u64_max \<or>
     try_fold (replay_ledger_step enc) (DurableRunState_new (ds_run_id s), 1) (ds_commit_ledger s)
       = Inr (s, store_revision_get (ds_revision s) + 1)"

lemma apply_durable_mutations_indexed:
  assumes "apply_durable_mutations s mutations = Inr s'"
  shows "apply_durable_mutations (s\<lparr>ds_idempotency := m\<rparr>) mutations = Inr (s'\<lparr>ds_idempotency := m\<rparr>)"
proof -
  have eq: "t\<lparr>ds_idempotency := m\<rparr> = with_ledger (ds_revision t) (ds_commit_ledger t) m t" for t
    by (simp add: with_ledger_def)
  have "ds_revision s' = ds_revision s" "ds_commit_ledger s' = ds_commit_ledger s"
    using apply_durable_mutations_ledger [OF assms] by auto
  then show ?thesis using assms by (simp only: eq apply_durable_mutations_frame sum.case)
qed

lemma StoreRevision_next_get:
  "StoreRevision_checked_next r = Some r' \<Longrightarrow> store_revision_get r' = store_revision_get r + 1"
  by (auto simp: StoreRevision_checked_next_def checked_add_u64_def split: if_splits)

lemma commit_state_replays:
  assumes "ledger_replays enc s" and "valid_request request"
    and "commit_state enc s request = Inr (s', result)"
  shows "ledger_replays enc s'"
  using assms(3)
proof (cases rule: commit_state_cases)
  case replayed
  then show ?thesis using assms(1) by simp
next
  case (fresh revision candidate)
  let ?r = "store_revision_get (ds_revision s)"
  have notmax: "ds_revision s \<noteq> StoreRevision u64_max"
    using fresh(4) store_revision.step_None [of "ds_revision s"] by auto
  have rev: "store_revision_get revision = ?r + 1" using fresh(4) by (rule StoreRevision_next_get)
  note frame = apply_durable_mutations_ledger [OF fresh(5)]
  let ?entry = "\<lparr>le_idempotency_key = rq_idempotency_key request,
      le_mutations = rq_mutations request, le_revision = revision,
      le_binding = commit_binding enc (rq_idempotency_key request) (rq_mutations request) revision\<rparr>"
  have s': "ds_run_id s' = ds_run_id s" "ds_commit_ledger s' = ds_commit_ledger s @ [?entry]"
    "ds_revision s' = revision"
    using fresh(6) frame by (simp_all add: record_commit_def)
  show ?thesis
  proof (cases "revision = StoreRevision u64_max")
    case True
    then show ?thesis using s' by (simp add: ledger_replays_def)
  next
    case False
    then have "checked_add_u64 (?r + 1) 1 \<noteq> None"
      using checked_add_one_None_iff [of "?r + 1"] rev by (metis StoreRevision.exhaust_sel)
    then have "checked_add_u64 (?r + 1) 1 = Some (?r + 1 + 1)"
      by (auto simp: checked_add_u64_def split: if_splits)
    then have "replay_ledger_step enc (s, ?r + 1) ?entry = Inr (s', ?r + 1 + 1)"
      using fresh assms(2) rev frame apply_durable_mutations_indexed [OF fresh(5)]
      by (simp add: replay_ledger_step_def valid_request_def valid_batch_def contains_key_def record_commit_def)
    then show ?thesis
      using assms(1) notmax s' rev by (simp add: ledger_replays_def try_fold_append)
  qed
qed

lemma durable_reachable_replays: "durable_reachable enc s \<Longrightarrow> ledger_replays enc s"
proof (induction rule: durable_reachable.induct)
  case (create run_id)
  then show ?case
    by (simp add: ledger_replays_def DurableRunState_new_def StoreRevision_INITIAL_def)
next
  case (commit s request s' result)
  then show ?case using commit_state_replays by blast
qed

lemma durable_reachable_replay:
  assumes "durable_reachable enc s" and "ds_revision s \<noteq> StoreRevision u64_max"
  shows "replay_commit_ledger enc (ds_run_id s) (ds_commit_ledger s) = Inr s"
  using durable_reachable_replays [OF assms(1)] assms(2)
  by (simp add: ledger_replays_def replay_commit_ledger_def StoreRevision_INITIAL_def)

text \<open>
  At the last representable revision the replay refuses the ledger: its counter steps once
  more after the last entry, although the commit itself is accepted.
\<close>

lemma commit_state_last_revision:
  assumes "durable_reachable enc s" and "valid_request request"
    and "commit_state enc s request = Inr (s', \<lparr>cm_revision = StoreRevision u64_max, cm_replayed = False\<rparr>)"
  shows "replay_commit_ledger enc (ds_run_id s') (ds_commit_ledger s')
           = Inl (DataCorruption RevisionSequenceExhausted)"
  using assms(3)
proof (cases rule: commit_state_cases)
  case replayed
  then show ?thesis by simp
next
  case (fresh revision candidate)
  let ?r = "store_revision_get (ds_revision s)"
  have rev: "revision = StoreRevision u64_max" "?r + 1 = u64_max"
    using fresh(7) StoreRevision_next_get [OF fresh(4)] by auto
  have "ds_revision s \<noteq> StoreRevision u64_max"
    using fresh(4) store_revision.step_None [of "ds_revision s"] by auto
  then have base: "try_fold (replay_ledger_step enc) (DurableRunState_new (ds_run_id s), 1)
      (ds_commit_ledger s) = Inr (s, u64_max)"
    using durable_reachable_replays [OF assms(1)] rev by (simp add: ledger_replays_def)
  have "checked_add_u64 u64_max 1 = None" by (simp add: checked_add_one_None_iff)
  then show ?thesis
    using base fresh assms(2) rev apply_durable_mutations_ledger [OF fresh(5)]
      apply_durable_mutations_indexed [OF fresh(5)]
    by (simp add: replay_commit_ledger_def try_fold_append record_commit_def replay_ledger_step_def
        valid_request_def valid_batch_def contains_key_def StoreRevision_INITIAL_def)
qed

section \<open>Identifiers in the state\<close>

definition texts_ok :: "DurableRunState \<Rightarrow> bool" where
  "texts_ok s \<longleftrightarrow>
     (\<forall>identity. ds_workflow_replay_identity s = Some identity \<longrightarrow>
        \<not> trim_is_empty (replay_identity_str identity)) \<and>
     (\<forall>k\<in>set (bm_keys (ds_idempotency s)). \<not> trim_is_empty (idempotency_key_str k))"

lemma apply_durable_mutation_texts:
  assumes "texts_ok s" and "apply_durable_mutation s mutation = Inr s'"
  shows "texts_ok s'"
  using assms
  by (cases mutation) (auto simp: mutation_defs texts_ok_def split: option.splits if_splits)

lemma commit_state_texts:
  assumes "texts_ok s" and "valid_request request"
    and "commit_state enc s request = Inr (s', result)"
  shows "texts_ok s'"
  using assms(3)
proof (cases rule: commit_state_cases)
  case replayed
  then show ?thesis using assms(1) by simp
next
  case (fresh revision candidate)
  have "texts_ok candidate"
    using fresh(5) unfolding apply_durable_mutations_def
    by (rule try_fold_invariant [where P = texts_ok, rotated 2])
      (auto simp: assms(1) intro: apply_durable_mutation_texts)
  with fresh(6) assms(2) show ?thesis
    by (auto simp: texts_ok_def record_commit_def valid_request_def valid_batch_def)
qed

lemma durable_reachable_texts: "durable_reachable enc s \<Longrightarrow> texts_ok s"
proof (induction rule: durable_reachable.induct)
  case (create run_id)
  then show ?case by (simp add: texts_ok_def DurableRunState_new_def)
next
  case (commit s request s' result)
  then show ?case using commit_state_texts by blast
qed

lemma durable_reachable_validates:
  assumes "durable_reachable enc s" and "ds_revision s \<noteq> StoreRevision u64_max"
  shows "validate_persisted enc s = Inr ()"
  using durable_reachable_texts [OF assms(1)] durable_reachable_replay [OF assms]
  by (auto simp: validate_persisted_def texts_ok_def same_durable_facts_def list_ex_iff
      split: option.splits)

section \<open>Cancellation\<close>

text \<open>The dispatches of the attempts admitted for a task.\<close>

definition task_dispatches :: "DurableRunState \<Rightarrow> Id \<Rightarrow> DispatchRecord list" where
  "task_dispatches s t =
     filter (\<lambda>d. case fmlookup (ds_admissions s) (dr_attempt_id d) of
                   None \<Rightarrow> False
                 | Some a \<Rightarrow> aa_task_id a = t) (ds_dispatch_history s)"

lemma task_dispatches_old:
  assumes "lineage s" and "facts_grow s s'"
  shows "filter (\<lambda>d. case fmlookup (ds_admissions s') (dr_attempt_id d) of
                   None \<Rightarrow> False | Some a \<Rightarrow> aa_task_id a = t) (ds_dispatch_history s)
           = task_dispatches s t"
  unfolding task_dispatches_def
proof (rule filter_cong [OF refl])
  fix d
  assume "d \<in> set (ds_dispatch_history s)"
  then have "dispatch_ok s d" using assms(1) by (auto simp: lineage_def list_all_iff)
  then obtain a where "fmlookup (ds_admissions s) (dr_attempt_id d) = Some a"
    by (auto simp: dispatch_ok_def)
  moreover from this have "fmlookup (ds_admissions s') (dr_attempt_id d) = Some a"
    by (rule facts_grow_lookup(1) [OF assms(2)])
  ultimately show "(case fmlookup (ds_admissions s') (dr_attempt_id d) of
      None \<Rightarrow> False | Some a \<Rightarrow> aa_task_id a = t) =
     (case fmlookup (ds_admissions s) (dr_attempt_id d) of None \<Rightarrow> False | Some a \<Rightarrow> aa_task_id a = t)"
    by simp
qed

lemma cancelled_mutation_no_dispatch:
  assumes "lineage s" and "is_cancelled s t" and step: "apply_durable_mutation s mutation = Inr s'"
  shows "task_dispatches s' t = task_dispatches s t"
proof -
  have grow: "facts_grow s s'" using apply_durable_mutation_grows [OF step] .
  show ?thesis
  proof (cases "ds_dispatch_history s' = ds_dispatch_history s")
    case True
    then show ?thesis
      using task_dispatches_old [OF assms(1) grow, of t] by (simp add: task_dispatches_def)
  next
    case False
    then obtain d where d: "mutation = RecordDispatch d"
      using step by (cases mutation) (auto simp: mutation_defs split: option.splits if_splits)
    with step assms(2) obtain a where "ds_dispatch_history s' = ds_dispatch_history s @ [d]"
      and "fmlookup (ds_admissions s') (dr_attempt_id d) = Some a" "aa_task_id a \<noteq> t"
      by (auto simp: record_dispatch_def is_cancelled_def contains_key_def
          split: option.splits if_splits) (metis option.distinct(1))
    then show ?thesis
      using task_dispatches_old [OF assms(1) grow, of t] by (simp add: task_dispatches_def)
  qed
qed

lemma cancelled_grow: "facts_grow s s' \<Longrightarrow> is_cancelled s t \<Longrightarrow> is_cancelled s' t"
  using facts_grow_lookup(6) by (fastforce simp: is_cancelled_def contains_key_def)

lemma cancelled_commit_no_dispatch:
  assumes "lineage s" and "is_cancelled s t" and "commit_state enc s request = Inr (s', result)"
  shows "task_dispatches s' t = task_dispatches s t \<and> is_cancelled s' t"
  using assms(3)
proof (cases rule: commit_state_cases)
  case replayed
  then show ?thesis using assms(2) by simp
next
  case (fresh revision candidate)
  let ?P = "\<lambda>c. lineage c \<and> is_cancelled c t \<and> task_dispatches c t = task_dispatches s t"
  have "?P candidate"
    using fresh(5) unfolding apply_durable_mutations_def
  proof (rule try_fold_invariant [where P = ?P, rotated 2])
    fix c m c'
    assume "?P c" and "apply_durable_mutation c m = Inr c'"
    then show "?P c'"
      using apply_durable_mutation_lineage cancelled_mutation_no_dispatch [of c t m c']
        cancelled_grow [OF apply_durable_mutation_grows] by metis
  qed (use assms in simp)
  then show ?thesis
    using fresh(6) by (simp add: record_commit_def task_dispatches_def is_cancelled_def)
qed

end
