(* ===== verification/Recovery_Journal.thy ===== *)
theory Recovery_Journal
  imports Durable_Invariants Workflow_Graph
begin

text \<open>
  The compatibility journal (\<^verbatim>\<open>journal.rs\<close>) and the recovery classification
  (\<^verbatim>\<open>recovery.rs\<close>). The classification reads the journal through four queries; the locale
  \<open>effect_facts\<close> states what it relies on. It is interpreted on the journal and on the
  durable state the journal is rebuilt from.
\<close>

section \<open>The journal\<close>

datatype JournalInvariant = Reserved

datatype JournalError =
    UnknownOperation OperationId
  | DuplicateIntent OperationId
  | DispatchWithoutIntent OperationId
  | JournalTaskOperationConflict Id OperationId OperationId
  | DuplicateAttempt OperationId AttemptId
  | JournalOutcomeWithoutDispatch OperationId AttemptId
  | AttemptMismatch OperationId AttemptId OperationId
  | JournalConflictingOutcome OperationId AttemptId KnownEffectOutcome KnownEffectOutcome
  | JournalInvariantViolation JournalInvariant
  | JournalWorkflowStateMismatch OperationId Id RecoveredEffectState
  | ClassifyPanic  \<comment> \<open>not a value of the source: a failed \<^verbatim>\<open>expect\<close> of the classification\<close>

record DurableJournal =
  jr_intents :: "(OperationId, EffectIntent) fmap"
  jr_task_operations :: "(Id, OperationId) fmap"
  jr_dispatches :: "(AttemptId, DispatchRecord) fmap"
  jr_operation_attempts :: "(OperationId, AttemptId list) fmap"
  jr_outcomes :: "(AttemptId, OutcomeRecord) fmap"

definition DurableJournal_new :: DurableJournal where
  "DurableJournal_new =
     \<lparr>jr_intents = fmempty, jr_task_operations = fmempty, jr_dispatches = fmempty,
      jr_operation_attempts = fmempty, jr_outcomes = fmempty\<rparr>"

definition persist_intent :: "DurableJournal \<Rightarrow> EffectIntent \<Rightarrow> JournalError + DurableJournal" where
  "persist_intent j intent =
     (if contains_key (jr_intents j) (ei_operation_id intent) then
        Inl (DuplicateIntent (ei_operation_id intent))
      else
        (case fmlookup (jr_task_operations j) (ei_task_id intent) of
           Some existing_operation \<Rightarrow>
             Inl (JournalTaskOperationConflict (ei_task_id intent) existing_operation
                    (ei_operation_id intent))
         | None \<Rightarrow>
             Inr (j\<lparr>jr_task_operations :=
                      fmupd (ei_task_id intent) (ei_operation_id intent) (jr_task_operations j),
                    jr_intents := fmupd (ei_operation_id intent) intent (jr_intents j)\<rparr>)))"

definition attempts_entry :: "DurableJournal \<Rightarrow> OperationId \<Rightarrow> AttemptId list" where
  "attempts_entry j operation_id =
     (case fmlookup (jr_operation_attempts j) operation_id of None \<Rightarrow> [] | Some attempts \<Rightarrow> attempts)"

definition persist_dispatch :: "DurableJournal \<Rightarrow> DispatchRecord \<Rightarrow> JournalError + DurableJournal" where
  "persist_dispatch j dispatch =
     (if \<not> contains_key (jr_intents j) (dr_operation_id dispatch) then
        Inl (DispatchWithoutIntent (dr_operation_id dispatch))
      else if contains_key (jr_dispatches j) (dr_attempt_id dispatch) then
        Inl (DuplicateAttempt (dr_operation_id dispatch) (dr_attempt_id dispatch))
      else
        Inr (j\<lparr>jr_operation_attempts :=
                 fmupd (dr_operation_id dispatch)
                   (attempts_entry j (dr_operation_id dispatch) @ [dr_attempt_id dispatch])
                   (jr_operation_attempts j),
               jr_dispatches := fmupd (dr_attempt_id dispatch) dispatch (jr_dispatches j)\<rparr>))"

definition persist_outcome :: "DurableJournal \<Rightarrow> OutcomeRecord \<Rightarrow> JournalError + DurableJournal" where
  "persist_outcome j out =
     (if \<not> contains_key (jr_intents j) (or_operation_id out) then
        Inl (UnknownOperation (or_operation_id out))
      else
        (case fmlookup (jr_dispatches j) (or_attempt_id out) of
           None \<Rightarrow> Inl (JournalOutcomeWithoutDispatch (or_operation_id out) (or_attempt_id out))
         | Some dispatch \<Rightarrow>
             if dr_operation_id dispatch \<noteq> or_operation_id out then
               Inl (AttemptMismatch (or_operation_id out) (or_attempt_id out)
                      (dr_operation_id dispatch))
             else
               (case fmlookup (jr_outcomes j) (or_attempt_id out) of
                  Some existing \<Rightarrow>
                    if or_outcome existing = or_outcome out then Inr j
                    else Inl (JournalConflictingOutcome (or_operation_id out) (or_attempt_id out)
                                (or_outcome existing) (or_outcome out))
                | None \<Rightarrow>
                    Inr (j\<lparr>jr_outcomes := fmupd (or_attempt_id out) out (jr_outcomes j)\<rparr>))))"

definition from_durable_state :: "DurableRunState \<Rightarrow> JournalError + DurableJournal" where
  "from_durable_state s =
     (case try_fold persist_intent DurableJournal_new (ds_intents_values s) of
        Inl e \<Rightarrow> Inl e
      | Inr j \<Rightarrow>
          (case try_fold persist_dispatch j (ds_dispatch_history s) of
             Inl e \<Rightarrow> Inl e
           | Inr j' \<Rightarrow> try_fold persist_outcome j' (ds_outcome_history s)))"

definition journal_intent :: "DurableJournal \<Rightarrow> OperationId \<Rightarrow> JournalError + EffectIntent" where
  "journal_intent j operation_id =
     (case fmlookup (jr_intents j) operation_id of
        None \<Rightarrow> Inl (UnknownOperation operation_id)
      | Some i \<Rightarrow> Inr i)"

definition journal_operation_for_task :: "DurableJournal \<Rightarrow> Id \<Rightarrow> OperationId option" where
  "journal_operation_for_task j task_id = fmlookup (jr_task_operations j) task_id"

definition last_attempt :: "DurableJournal \<Rightarrow> OperationId \<Rightarrow> AttemptId option" where
  "last_attempt j operation_id =
     (case fmlookup (jr_operation_attempts j) operation_id of
        None \<Rightarrow> None
      | Some attempts \<Rightarrow> (if attempts = [] then None else Some (last attempts)))"

definition journal_latest_dispatch :: "DurableJournal \<Rightarrow> OperationId \<Rightarrow> DispatchRecord option" where
  "journal_latest_dispatch j operation_id =
     (case last_attempt j operation_id of
        None \<Rightarrow> None
      | Some attempt_id \<Rightarrow> fmlookup (jr_dispatches j) attempt_id)"

definition known_outcome :: "DurableJournal \<Rightarrow> OperationId \<Rightarrow> OutcomeRecord option" where
  "known_outcome j operation_id =
     (case last_attempt j operation_id of
        None \<Rightarrow> None
      | Some attempt_id \<Rightarrow> fmlookup (jr_outcomes j) attempt_id)"

definition journal_state :: "DurableJournal \<Rightarrow> OperationId \<Rightarrow> RecoveredEffectState" where
  "journal_state j operation_id =
     (if \<not> contains_key (jr_intents j) operation_id then EffectNotPrepared
      else
        (case known_outcome j operation_id of
           Some out \<Rightarrow> OutcomeKnown (or_outcome out)
         | None \<Rightarrow>
             (case journal_latest_dispatch j operation_id of
                Some _ \<Rightarrow> OutcomeUnknown
              | None \<Rightarrow> Prepared)))"

definition journal_operation_ids :: "DurableJournal \<Rightarrow> OperationId list" where
  "journal_operation_ids j = bm_keys (jr_intents j)"

section \<open>Classification\<close>

definition invariant_decision :: "OperationId \<Rightarrow> EffectIntent \<Rightarrow> RecoveredEffectState \<Rightarrow>
    RecoveryDecision" where
  "invariant_decision operation_id intent st =
     \<lparr>rd_action = RefuseInvariantViolation,
      rd_reason = WorkflowStateMismatch operation_id (ei_task_id intent) st\<rparr>"

definition decide :: "RecoveryAction \<Rightarrow> RecoveryReason \<Rightarrow> JournalError + RecoveryDecision" where
  "decide action reason = Inr \<lparr>rd_action = action, rd_reason = reason\<rparr>"

definition classify_recovery :: "WorkflowGraph \<Rightarrow> DurableJournal \<Rightarrow> OperationId \<Rightarrow>
    JournalError + RecoveryDecision" where
  "classify_recovery workflow journal operation_id =
     (case journal_intent journal operation_id of
        Inl e \<Rightarrow> Inl e
      | Inr intent \<Rightarrow>
          let st = journal_state journal operation_id in
          if graph_task workflow (ei_task_id intent) = None then
            Inr (invariant_decision operation_id intent st)
          else
            let completed = graph_is_completed workflow (ei_task_id intent) in
            (case st of
               Prepared \<Rightarrow>
                 if completed then Inr (invariant_decision operation_id intent st)
                 else decide Execute (PreparedNotDispatched operation_id)
             | OutcomeUnknown \<Rightarrow>
                 (case journal_latest_dispatch journal operation_id of
                    None \<Rightarrow> Inl ClassifyPanic
                  | Some dispatch \<Rightarrow>
                      if completed then Inr (invariant_decision operation_id intent st)
                      else
                        (case ei_semantics intent of
                           Idempotent \<Rightarrow>
                             decide RetrySameOperation
                               (IdempotentOutcomeUnknown operation_id (dr_attempt_id dispatch))
                         | NonIdempotent \<Rightarrow>
                             decide Reconcile
                               (NonIdempotentOutcomeUnknown operation_id (dr_attempt_id dispatch))))
             | OutcomeKnown known \<Rightarrow>
                 (case known_outcome journal operation_id of
                    None \<Rightarrow> Inl ClassifyPanic
                  | Some out \<Rightarrow>
                      (case (known, completed) of
                         (Succeeded, True) \<Rightarrow>
                           decide NoAction
                             (WorkflowAlreadyCompleted operation_id (ei_task_id intent))
                       | (Succeeded, False) \<Rightarrow>
                           decide CompleteWithoutReexecution
                             (KnownSuccess operation_id (or_attempt_id out))
                       | (Failed, True) \<Rightarrow> Inr (invariant_decision operation_id intent st)
                       | (Failed, False) \<Rightarrow>
                           decide ObserveFailure (KnownFailure operation_id (or_attempt_id out))))
             | EffectNotPrepared \<Rightarrow>
                 decide RefuseInvariantViolation (NotPrepared operation_id)))"

section \<open>What the classification relies on\<close>

text \<open>
  \<open>effect_facts\<close>: intents, the latest dispatch and its outcome determine the effect state.
  \<open>effect_view\<close> is that determination.
\<close>

definition effect_view :: "EffectIntent option \<Rightarrow> DispatchRecord option \<Rightarrow> OutcomeRecord option \<Rightarrow>
    RecoveredEffectState" where
  "effect_view i d out =
     (case i of
        None \<Rightarrow> EffectNotPrepared
      | Some _ \<Rightarrow>
          (case d of
             None \<Rightarrow> Prepared
           | Some _ \<Rightarrow> (case out of None \<Rightarrow> OutcomeUnknown | Some r \<Rightarrow> OutcomeKnown (or_outcome r))))"

locale effect_facts =
  fixes facts_ok :: "'f \<Rightarrow> bool"
    and intent_of :: "'f \<Rightarrow> OperationId \<Rightarrow> EffectIntent option"
    and dispatch_of :: "'f \<Rightarrow> OperationId \<Rightarrow> DispatchRecord option"
    and outcome_of :: "'f \<Rightarrow> OperationId \<Rightarrow> OutcomeRecord option"
    and state_of :: "'f \<Rightarrow> OperationId \<Rightarrow> RecoveredEffectState"
  assumes state_view: "facts_ok f \<Longrightarrow>
          state_of f operation = effect_view (intent_of f operation) (dispatch_of f operation)
            (outcome_of f operation)"
    and outcome_dispatch: "facts_ok f \<Longrightarrow> outcome_of f operation = Some out \<Longrightarrow>
          \<exists>d. dispatch_of f operation = Some d \<and> dr_attempt_id d = or_attempt_id out"
begin

lemma unknown_has_dispatch:
  assumes "facts_ok f" and "state_of f operation = OutcomeUnknown"
  obtains d where "dispatch_of f operation = Some d" "outcome_of f operation = None"
    "intent_of f operation \<noteq> None"
  using assms state_view [of f operation] by (auto simp: effect_view_def split: option.splits)

lemma known_has_outcome:
  assumes "facts_ok f" and "state_of f operation = OutcomeKnown known"
  obtains out d where "outcome_of f operation = Some out" "or_outcome out = known"
    "dispatch_of f operation = Some d" "dr_attempt_id d = or_attempt_id out"
  using assms state_view [of f operation] outcome_dispatch [of f operation]
  by (auto simp: effect_view_def split: option.splits)

lemma prepared_never_dispatched:
  assumes "facts_ok f" and "state_of f operation = Prepared"
  shows "dispatch_of f operation = None \<and> intent_of f operation \<noteq> None"
  using assms state_view [of f operation] by (auto simp: effect_view_def split: option.splits)

end

text \<open>The journal, when each operation's attempts are dispatches and each outcome's attempt is too.\<close>

definition journal_ok :: "DurableJournal \<Rightarrow> bool" where
  "journal_ok j \<longleftrightarrow>
     (\<forall>operation attempts a. fmlookup (jr_operation_attempts j) operation = Some attempts \<longrightarrow>
        a \<in> set attempts \<longrightarrow> (\<exists>d. fmlookup (jr_dispatches j) a = Some d \<and> dr_attempt_id d = a)) \<and>
     (\<forall>a out. fmlookup (jr_outcomes j) a = Some out \<longrightarrow> or_attempt_id out = a)"

lemma journal_outcome_dispatch:
  assumes "journal_ok j" and "known_outcome j operation = Some out"
  shows "\<exists>d. journal_latest_dispatch j operation = Some d \<and> dr_attempt_id d = or_attempt_id out"
proof -
  from assms(2) obtain attempts where
    attempts: "fmlookup (jr_operation_attempts j) operation = Some attempts" "attempts \<noteq> []"
    and out: "fmlookup (jr_outcomes j) (last attempts) = Some out"
    by (auto simp: known_outcome_def last_attempt_def split: option.splits if_splits)
  have "or_attempt_id out = last attempts" using assms(1) out by (auto simp: journal_ok_def)
  moreover obtain d where "fmlookup (jr_dispatches j) (last attempts) = Some d"
    "dr_attempt_id d = last attempts"
    using assms(1) attempts last_in_set unfolding journal_ok_def by blast
  ultimately show ?thesis
    using attempts by (simp add: journal_latest_dispatch_def last_attempt_def)
qed

interpretation journal: effect_facts journal_ok "\<lambda>j. fmlookup (jr_intents j)"
    journal_latest_dispatch known_outcome journal_state
proof (unfold_locales, goal_cases)
  case (1 j operation)
  then show ?case
    using journal_outcome_dispatch [OF 1, of operation]
    by (auto simp: journal_state_def effect_view_def contains_key_def split: option.splits)
next
  case (2 j operation out)
  then show ?case by (rule journal_outcome_dispatch)
qed

lemma latest_dispatch_Some:
  assumes "latest_dispatch s operation = Some d"
  shows "d \<in> set (ds_dispatch_history s) \<and> dr_operation_id d = operation"
proof -
  have "d \<in> set (dispatches_of s operation)"
    using assms last_in_set [of "dispatches_of s operation"]
    by (auto simp: latest_dispatch_def split: list.splits)
  then show ?thesis by (auto simp: dispatches_of_def)
qed

interpretation durable: effect_facts lineage ds_intent latest_dispatch latest_outcome effect_state
proof (unfold_locales, goal_cases)
  case (1 s operation)
  then show ?case
    by (auto simp: effect_state_def effect_view_def ds_intent_def latest_outcome_def
        contains_key_def split: option.splits)
next
  case (2 s operation out)
  then obtain d where "latest_dispatch s operation = Some d"
    "fmlookup (ds_outcomes s) (dr_attempt_id d) = Some out"
    by (auto simp: latest_outcome_def outcome_for_attempt_def split: option.splits)
  with 2(1) show ?case by (auto simp: lineage_def dest: indexed_lookup_mem)
qed

end
