(* ===== verification/Recovery_Views.thy ===== *)
theory Recovery_Views
  imports Recovery_Journal
begin

text \<open>
  The journal rebuilt from a durable state is a faithful view of it:
  \<^verbatim>\<open>DurableJournal::from_durable_state\<close> succeeds on every state with a proper lineage and
  its queries agree with the queries of the state.
\<close>

lemma indexed_unique:
  assumes "indexed key m h" and "indexed key m' h"
  shows "m = m'"
proof (rule fmap_ext)
  fix k
  have "fmlookup m k = Some v \<longleftrightarrow> fmlookup m' k = Some v" for v
    using assms by (simp add: indexed_def)
  then show "fmlookup m k = fmlookup m' k" by (metis not_Some_eq)
qed

lemma indexed_distinct_not_in:
  assumes "indexed key m h" and "distinct (map key (h @ x # xs))"
  shows "fmlookup m (key x) = None"
proof (rule ccontr)
  assume "fmlookup m (key x) \<noteq> None"
  then obtain v where "v \<in> set h" "key v = key x" using assms(1) by (auto simp: indexed_def)
  with assms(2) show False by (auto simp: image_iff)
qed

section \<open>Rebuilding the journal\<close>

lemma persist_intents:
  assumes "indexed ei_operation_id (jr_intents j) h"
    and "\<forall>t operation. fmlookup (jr_task_operations j) t = Some operation \<longrightarrow> t \<in> ei_task_id ` set h"
    and "distinct (map ei_operation_id (h @ xs))" and "distinct (map ei_task_id (h @ xs))"
  shows "\<exists>j'. try_fold persist_intent j xs = Inr j' \<and>
           indexed ei_operation_id (jr_intents j') (h @ xs) \<and>
           jr_dispatches j' = jr_dispatches j \<and> jr_outcomes j' = jr_outcomes j \<and>
           jr_operation_attempts j' = jr_operation_attempts j"
  using assms
proof (induction xs arbitrary: j h)
  case Nil
  then show ?case by simp
next
  case (Cons i xs)
  have fresh: "fmlookup (jr_intents j) (ei_operation_id i) = None"
    using Cons.prems(1,3) by (rule indexed_distinct_not_in)
  have "ei_task_id i \<notin> ei_task_id ` set h" using Cons.prems(4) by auto
  then have task: "fmlookup (jr_task_operations j) (ei_task_id i) = None"
    using Cons.prems(2) by (metis option.exhaust)
  let ?j = "j\<lparr>jr_task_operations := fmupd (ei_task_id i) (ei_operation_id i) (jr_task_operations j),
              jr_intents := fmupd (ei_operation_id i) i (jr_intents j)\<rparr>"
  have step: "persist_intent j i = Inr ?j"
    using fresh task by (simp add: persist_intent_def contains_key_def)
  have "indexed ei_operation_id (jr_intents ?j) (h @ [i])"
    using indexed_insert [OF Cons.prems(1) fresh] by simp
  moreover have "\<forall>t operation. fmlookup (jr_task_operations ?j) t = Some operation \<longrightarrow>
      t \<in> ei_task_id ` set (h @ [i])"
    using Cons.prems(2) by auto
  ultimately show ?case using Cons.IH [of ?j "h @ [i]"] Cons.prems(3,4) step by simp
qed

definition attempts_of :: "DispatchRecord list \<Rightarrow> OperationId \<Rightarrow> AttemptId list" where
  "attempts_of ds operation = map dr_attempt_id (filter (\<lambda>d. dr_operation_id d = operation) ds)"

lemma persist_dispatches:
  assumes "indexed dr_attempt_id (jr_dispatches j) h"
    and "\<forall>operation. attempts_entry j operation = attempts_of h operation"
    and "distinct (map dr_attempt_id (h @ xs))"
    and "\<forall>d\<in>set xs. contains_key (jr_intents j) (dr_operation_id d)"
  shows "\<exists>j'. try_fold persist_dispatch j xs = Inr j' \<and>
           indexed dr_attempt_id (jr_dispatches j') (h @ xs) \<and>
           (\<forall>operation. attempts_entry j' operation = attempts_of (h @ xs) operation) \<and>
           jr_intents j' = jr_intents j \<and> jr_outcomes j' = jr_outcomes j"
  using assms
proof (induction xs arbitrary: j h)
  case Nil
  then show ?case by simp
next
  case (Cons d xs)
  have fresh: "fmlookup (jr_dispatches j) (dr_attempt_id d) = None"
    using Cons.prems(1,3) by (rule indexed_distinct_not_in)
  let ?j = "j\<lparr>jr_operation_attempts :=
      fmupd (dr_operation_id d) (attempts_entry j (dr_operation_id d) @ [dr_attempt_id d])
        (jr_operation_attempts j),
      jr_dispatches := fmupd (dr_attempt_id d) d (jr_dispatches j)\<rparr>"
  have step: "persist_dispatch j d = Inr ?j"
    using fresh Cons.prems(4) by (simp add: persist_dispatch_def contains_key_def)
  have "indexed dr_attempt_id (jr_dispatches ?j) (h @ [d])"
    using indexed_insert [OF Cons.prems(1) fresh] by simp
  moreover have "\<forall>operation. attempts_entry ?j operation = attempts_of (h @ [d]) operation"
    using Cons.prems(2) by (simp add: attempts_entry_def attempts_of_def)
  ultimately show ?case using Cons.IH [of ?j "h @ [d]"] Cons.prems(3,4) step by simp
qed

lemma persist_outcomes:
  assumes "indexed or_attempt_id (jr_outcomes j) h"
    and "distinct (map or_attempt_id (h @ xs))"
    and "\<forall>out\<in>set xs. contains_key (jr_intents j) (or_operation_id out) \<and>
           (\<exists>d. fmlookup (jr_dispatches j) (or_attempt_id out) = Some d \<and>
                dr_operation_id d = or_operation_id out)"
  shows "\<exists>j'. try_fold persist_outcome j xs = Inr j' \<and>
           indexed or_attempt_id (jr_outcomes j') (h @ xs) \<and>
           jr_intents j' = jr_intents j \<and> jr_dispatches j' = jr_dispatches j \<and>
           jr_operation_attempts j' = jr_operation_attempts j"
  using assms
proof (induction xs arbitrary: j h)
  case Nil
  then show ?case by simp
next
  case (Cons out xs)
  have fresh: "fmlookup (jr_outcomes j) (or_attempt_id out) = None"
    using Cons.prems(1,2) by (rule indexed_distinct_not_in)
  let ?j = "j\<lparr>jr_outcomes := fmupd (or_attempt_id out) out (jr_outcomes j)\<rparr>"
  have step: "persist_outcome j out = Inr ?j"
    using fresh Cons.prems(3) by (auto simp: persist_outcome_def)
  have "indexed or_attempt_id (jr_outcomes ?j) (h @ [out])"
    using indexed_insert [OF Cons.prems(1) fresh] by simp
  then show ?case using Cons.IH [of ?j "h @ [out]"] Cons.prems(2,3) step by simp
qed

text \<open>The journal \<open>j\<close> shows the effect facts of the state \<open>s\<close>.\<close>

definition journal_views :: "DurableJournal \<Rightarrow> DurableRunState \<Rightarrow> bool" where
  "journal_views j s \<longleftrightarrow>
     jr_intents j = ds_intents s \<and> jr_dispatches j = ds_dispatches s \<and>
     jr_outcomes j = ds_outcomes s \<and>
     (\<forall>operation. attempts_entry j operation = map dr_attempt_id (dispatches_of s operation))"

lemma intents_indexed:
  assumes "intents_ok s"
  shows "indexed ei_operation_id (ds_intents s) (bm_values (ds_intents s))"
    and "distinct (map ei_task_id (bm_values (ds_intents s)))"
proof -
  let ?m = "ds_intents s"
  have the_i: "fmlookup ?m k = Some (the (fmlookup ?m k))"
    "ei_operation_id (the (fmlookup ?m k)) = k"
    "fmlookup (ds_task_operations s) (ei_task_id (the (fmlookup ?m k))) = Some k"
    if "k \<in> set (bm_keys ?m)" for k
    using that assms by (auto simp: fmlookup_dom'_iff intents_ok_def)
  have "map ei_operation_id (bm_values ?m) = bm_keys ?m"
    using the_i(2) by (auto simp: bm_values_def intro: map_idI)
  then show "indexed ei_operation_id ?m (bm_values ?m)"
    using assms by (auto simp: indexed_def set_bm_values intents_ok_def)
  show "distinct (map ei_task_id (bm_values ?m))"
    using the_i(3) by (auto simp: bm_values_def distinct_map inj_on_def comp_def) (metis option.inject)
qed

lemma from_durable_state_views:
  assumes "lineage s"
  shows "\<exists>j. from_durable_state s = Inr j \<and> journal_views j s"
proof -
  have ok: "intents_ok s" using assms by (simp add: lineage_def)
  have disp: "indexed dr_attempt_id (ds_dispatches s) (ds_dispatch_history s)"
    and outs: "indexed or_attempt_id (ds_outcomes s) (ds_outcome_history s)"
    using assms by (simp_all add: lineage_def)
  obtain j1 where j1: "try_fold persist_intent DurableJournal_new (bm_values (ds_intents s)) = Inr j1"
    "indexed ei_operation_id (jr_intents j1) (bm_values (ds_intents s))"
    "jr_dispatches j1 = fmempty" "jr_outcomes j1 = fmempty" "jr_operation_attempts j1 = fmempty"
    using persist_intents [of DurableJournal_new "[]" "bm_values (ds_intents s)"]
      intents_indexed [OF ok] by (auto simp: DurableJournal_new_def indexed_def)
  have intents: "jr_intents j1 = ds_intents s"
    using indexed_unique j1(2) intents_indexed(1) [OF ok] by blast
  obtain j2 where j2: "try_fold persist_dispatch j1 (ds_dispatch_history s) = Inr j2"
    "indexed dr_attempt_id (jr_dispatches j2) (ds_dispatch_history s)"
    "\<forall>operation. attempts_entry j2 operation = attempts_of (ds_dispatch_history s) operation"
    "jr_intents j2 = ds_intents s" "jr_outcomes j2 = fmempty"
  proof -
    have "\<forall>d\<in>set (ds_dispatch_history s). contains_key (jr_intents j1) (dr_operation_id d)"
      using assms intents by (auto simp: lineage_def list_all_iff dispatch_ok_def contains_key_def)
    then have "\<exists>j2. try_fold persist_dispatch j1 (ds_dispatch_history s) = Inr j2 \<and>
        indexed dr_attempt_id (jr_dispatches j2) (ds_dispatch_history s) \<and>
        (\<forall>operation. attempts_entry j2 operation = attempts_of (ds_dispatch_history s) operation) \<and>
        jr_intents j2 = jr_intents j1 \<and> jr_outcomes j2 = jr_outcomes j1"
      using persist_dispatches [of j1 "[]" "ds_dispatch_history s"] j1(3,5) disp
      by (simp add: attempts_entry_def attempts_of_def indexed_def)
    then show thesis using that j1(4) intents by auto
  qed
  have dispatches: "jr_dispatches j2 = ds_dispatches s" using indexed_unique j2(2) disp by blast
  have "\<forall>out\<in>set (ds_outcome_history s). contains_key (jr_intents j2) (or_operation_id out) \<and>
      (\<exists>d. fmlookup (jr_dispatches j2) (or_attempt_id out) = Some d \<and>
           dr_operation_id d = or_operation_id out)"
  proof
    fix out
    assume "out \<in> set (ds_outcome_history s)"
    then have d: "fmlookup (ds_dispatches s) (or_attempt_id out) =
        Some \<lparr>dr_operation_id = or_operation_id out, dr_attempt_id = or_attempt_id out\<rparr>" (is "_ = Some ?d")
      using assms by (auto simp: lineage_def list_all_iff outcome_ok_def)
    then have "dispatch_ok s ?d"
      using disp assms by (auto simp: lineage_def list_all_iff dest!: indexed_lookup_mem)
    with d show "contains_key (jr_intents j2) (or_operation_id out) \<and>
        (\<exists>d. fmlookup (jr_dispatches j2) (or_attempt_id out) = Some d \<and>
             dr_operation_id d = or_operation_id out)"
      using j2(4) dispatches by (auto simp: dispatch_ok_def contains_key_def)
  qed
  then obtain j3 where j3: "try_fold persist_outcome j2 (ds_outcome_history s) = Inr j3"
    "indexed or_attempt_id (jr_outcomes j3) (ds_outcome_history s)"
    "jr_intents j3 = ds_intents s" "jr_dispatches j3 = ds_dispatches s"
    "jr_operation_attempts j3 = jr_operation_attempts j2"
    using persist_outcomes [of j2 "[]" "ds_outcome_history s"] j2(4,5) outs dispatches
    by (auto simp: indexed_def)
  moreover have "jr_outcomes j3 = ds_outcomes s" using indexed_unique j3(2) outs by blast
  ultimately have "journal_views j3 s"
    using j2(3) by (simp add: journal_views_def attempts_entry_def attempts_of_def dispatches_of_def)
  then show ?thesis
    using j1(1) j2(1) j3(1) by (simp add: from_durable_state_def ds_intents_values_def)
qed

section \<open>Agreement of the queries\<close>

lemma views_last_attempt:
  assumes "journal_views j s"
  shows "last_attempt j operation = map_option dr_attempt_id (latest_dispatch s operation)"
proof -
  have "last_attempt j operation =
      (if attempts_entry j operation = [] then None else Some (last (attempts_entry j operation)))"
    by (simp add: last_attempt_def attempts_entry_def split: option.splits)
  also have "\<dots> = map_option dr_attempt_id (latest_dispatch s operation)"
    using assms by (auto simp: journal_views_def latest_dispatch_def last_map split: list.splits)
  finally show ?thesis .
qed

lemma views_queries:
  assumes "journal_views j s" and "lineage s"
  shows "journal_latest_dispatch j operation = latest_dispatch s operation"
    and "known_outcome j operation = latest_outcome s operation"
    and "journal_intent j operation =
           (case ds_intent s operation of None \<Rightarrow> Inl (UnknownOperation operation) | Some i \<Rightarrow> Inr i)"
    and "journal_state j operation = effect_state s operation"
proof -
  have "fmlookup (ds_dispatches s) (dr_attempt_id d) = Some d"
    if "latest_dispatch s operation = Some d" for d
    using assms(2) latest_dispatch_Some [OF that] by (auto simp: lineage_def dest: indexed_lookup)
  then show dispatch: "journal_latest_dispatch j operation = latest_dispatch s operation"
    using assms(1)
    by (auto simp: journal_latest_dispatch_def views_last_attempt [OF assms(1)] journal_views_def
        split: option.splits)
  show known: "known_outcome j operation = latest_outcome s operation"
    using assms(1)
    by (auto simp: known_outcome_def views_last_attempt [OF assms(1)] latest_outcome_def
        outcome_for_attempt_def journal_views_def split: option.splits)
  show "journal_intent j operation =
      (case ds_intent s operation of None \<Rightarrow> Inl (UnknownOperation operation) | Some i \<Rightarrow> Inr i)"
    using assms(1) by (simp add: journal_intent_def ds_intent_def journal_views_def)
  show "journal_state j operation = effect_state s operation"
    using assms(1) dispatch known durable.outcome_dispatch [OF assms(2), of operation]
    by (auto simp: journal_state_def durable.state_view [OF assms(2)] effect_view_def ds_intent_def
        contains_key_def journal_views_def split: option.splits)
qed

end
