(* ===== verification/Recovery_Properties.thy ===== *)
theory Recovery_Properties
  imports Recovery_Views
begin

text \<open>
  The properties of durable commits and of recovery. The instances use a run in which a
  non-idempotent operation is prepared, admitted and dispatched by accepted commits.
\<close>

section \<open>A run for the instances\<close>

definition demo_enc :: binding_encoder where
  "demo_enc = (\<lambda>(k, ms, r). map of_char (idempotency_key_str k) @ [of_nat (length ms)])"

definition demo_run :: RunId where
  "demo_run = RunId (Id ''run'')"

definition demo_operation :: OperationId where
  "demo_operation = OperationId (Id ''pay'')"

definition demo_attempt :: AttemptId where
  "demo_attempt = AttemptId (Id ''try-1'')"

definition demo_request :: "StoreRevision \<Rightarrow> string \<Rightarrow> DurableMutation list \<Rightarrow> CommitRequest" where
  "demo_request revision key mutations =
     \<lparr>rq_run_id = demo_run, rq_expected_revision = revision,
      rq_idempotency_key = IdempotencyKey key, rq_mutations = mutations\<rparr>"

definition demo_prepare :: CommitRequest where
  "demo_prepare = demo_request (StoreRevision 0) ''k1''
     [RecordWorkflowReplayIdentity (WorkflowReplayIdentity ''wf''),
      RecordIntent \<lparr>ei_task_id = Id ''a'', ei_operation_id = demo_operation,
                    ei_semantics = NonIdempotent\<rparr>,
      AdmitAttempt \<lparr>aa_run_id = demo_run, aa_task_id = Id ''a'', aa_attempt_id = demo_attempt,
                    aa_operation_id = Some demo_operation, aa_capabilities = []\<rparr>]"

definition demo_dispatch :: CommitRequest where
  "demo_dispatch = demo_request (StoreRevision 1) ''k2''
     [RecordDispatch \<lparr>dr_operation_id = demo_operation, dr_attempt_id = demo_attempt\<rparr>]"

definition demo_success :: CommitRequest where
  "demo_success = demo_request (StoreRevision 2) ''k3''
     [RecordOutcome \<lparr>or_operation_id = demo_operation, or_attempt_id = demo_attempt,
                     or_outcome = Succeeded\<rparr>,
      RecordCompletion \<lparr>dc_task_id = Id ''a'', dc_attempt_id = demo_attempt\<rparr>]"

definition demo_cancel :: CommitRequest where
  "demo_cancel = demo_request (StoreRevision 1) ''k4''
     [RecordCancellation \<lparr>ca_run_id = demo_run, ca_task_id = Id ''a'',
        ca_operation_id = Some demo_operation, ca_attempt_id = Some demo_attempt\<rparr>]"

fun demo_commits :: "DurableRunState \<Rightarrow> CommitRequest list \<Rightarrow> DurableRunState" where
  "demo_commits s [] = s"
| "demo_commits s (q # qs) =
     (case commit_state demo_enc s q of Inr (s', _) \<Rightarrow> demo_commits s' qs | Inl _ \<Rightarrow> s)"

definition demo_state :: "CommitRequest list \<Rightarrow> DurableRunState" where
  "demo_state qs = demo_commits (DurableRunState_new demo_run) qs"

lemma demo_commits_reachable:
  assumes "durable_reachable demo_enc s" and "list_all valid_request qs"
  shows "durable_reachable demo_enc (demo_commits s qs)"
  using assms
  by (induction qs arbitrary: s)
    (auto split: sum.splits prod.splits intro: durable_reachable.commit)

lemma demo_run_valid: "valid_run demo_run"
  by code_simp

lemma demo_state_reachable:
  "list_all valid_request qs \<Longrightarrow> durable_reachable demo_enc (demo_state qs)"
  by (simp add: demo_state_def demo_commits_reachable durable_reachable.create demo_run_valid)

lemma demo_requests_valid:
  "list_all valid_request [demo_prepare, demo_dispatch, demo_success, demo_cancel]"
  by code_simp

section \<open>Durable facts\<close>

text \<open>
  C11: In every run state a store can reach, the facts form a lineage. A dispatch has an
  intent and an admitted attempt for the same operation and task. An outcome has the
  dispatch of its attempt and operation, and an attempt has one outcome only. A completion
  names an admitted attempt of its task, and when the attempt owns an effect, that attempt
  has a recorded success.
\<close>
theorem durable_lineage:
  assumes "durable_reachable enc s"
  shows "(\<forall>d\<in>set (ds_dispatch_history s). \<exists>i a.
            ds_intent s (dr_operation_id d) = Some i \<and> ds_attempt s (dr_attempt_id d) = Some a \<and>
            aa_operation_id a = Some (dr_operation_id d) \<and> aa_task_id a = ei_task_id i)
       \<and> (\<forall>out\<in>set (ds_outcome_history s).
            \<lparr>dr_operation_id = or_operation_id out, dr_attempt_id = or_attempt_id out\<rparr>
              \<in> set (ds_dispatch_history s))
       \<and> distinct (map or_attempt_id (ds_outcome_history s))
       \<and> (\<forall>c\<in>set (ds_completion_history s). \<exists>a.
            ds_attempt s (dc_attempt_id c) = Some a \<and> aa_task_id a = dc_task_id c \<and>
            (\<forall>operation. aa_operation_id a = Some operation \<longrightarrow>
               \<lparr>or_operation_id = operation, or_attempt_id = dc_attempt_id c, or_outcome = Succeeded\<rparr>
                 \<in> set (ds_outcome_history s)))"
proof -
  have lin: "lineage s" using assms by (rule durable_reachable_lineage)
  have disp: "\<forall>d\<in>set (ds_dispatch_history s). dispatch_ok s d"
    and outc: "\<forall>out\<in>set (ds_outcome_history s). outcome_ok s out"
    and compl: "\<forall>c\<in>set (ds_completion_history s). completion_ok s c"
    and idx: "indexed dr_attempt_id (ds_dispatches s) (ds_dispatch_history s)"
      "indexed or_attempt_id (ds_outcomes s) (ds_outcome_history s)"
    using lin by (simp_all add: lineage_def list_all_iff)
  have "\<lparr>dr_operation_id = or_operation_id out, dr_attempt_id = or_attempt_id out\<rparr>
      \<in> set (ds_dispatch_history s)" if "out \<in> set (ds_outcome_history s)" for out
    using outc idx(1) that by (auto simp: outcome_ok_def dest: indexed_lookup_mem)
  moreover have "\<exists>a. ds_attempt s (dc_attempt_id c) = Some a \<and> aa_task_id a = dc_task_id c \<and>
      (\<forall>operation. aa_operation_id a = Some operation \<longrightarrow>
         \<lparr>or_operation_id = operation, or_attempt_id = dc_attempt_id c, or_outcome = Succeeded\<rparr>
           \<in> set (ds_outcome_history s))" if "c \<in> set (ds_completion_history s)" for c
    using compl that indexed_lookup_mem [OF idx(2)]
    unfolding completion_ok_def ds_attempt_def by blast
  moreover have "distinct (map or_attempt_id (ds_outcome_history s))"
    using idx(2) by (simp add: indexed_def)
  ultimately show ?thesis
    using disp by (simp add: dispatch_ok_def ds_intent_def ds_attempt_def)
qed

theorem durable_lineage_witness:
  "let s = demo_state [demo_prepare, demo_dispatch, demo_success]
   in ds_completion_history s = [\<lparr>dc_task_id = Id ''a'', dc_attempt_id = demo_attempt\<rparr>] \<and>
      distinct (map or_attempt_id (ds_outcome_history s))"
proof -
  let ?s = "demo_state [demo_prepare, demo_dispatch, demo_success]"
  have "durable_reachable demo_enc ?s"
    using demo_requests_valid by (intro demo_state_reachable) simp
  then have "distinct (map or_attempt_id (ds_outcome_history ?s))"
    using durable_lineage by blast
  moreover have "ds_completion_history ?s = [\<lparr>dc_task_id = Id ''a'', dc_attempt_id = demo_attempt\<rparr>]"
    by code_simp
  ultimately show ?thesis by simp
qed

text \<open>
  Durable facts are append-only. An accepted commit extends the histories of
  admissions, dispatches, outcomes and completions at the end and overwrites no recorded
  intent, cancellation, outcome or completion; it advances the revision by one and appends
  one ledger entry, or is a replay and changes nothing.
\<close>
theorem commit_appends_facts:
  assumes "commit_state enc s request = Inr (s', result)"
  shows "(if cm_replayed result then s' = s
          else unat (store_revision_get (ds_revision s')) =
                 Suc (unat (store_revision_get (ds_revision s)))
             \<and> length (ds_commit_ledger s') = Suc (length (ds_commit_ledger s)))
       \<and> cm_revision result = ds_revision s'
       \<and> take (length (ds_admission_history s)) (ds_admission_history s') = ds_admission_history s
       \<and> take (length (ds_dispatch_history s)) (ds_dispatch_history s') = ds_dispatch_history s
       \<and> take (length (ds_outcome_history s)) (ds_outcome_history s') = ds_outcome_history s
       \<and> take (length (ds_completion_history s)) (ds_completion_history s') = ds_completion_history s
       \<and> (\<forall>operation i. ds_intent s operation = Some i \<longrightarrow> ds_intent s' operation = Some i)
       \<and> (\<forall>t c. ds_cancellation s t = Some c \<longrightarrow> ds_cancellation s' t = Some c)
       \<and> (\<forall>a out. outcome_for_attempt s a = Some out \<longrightarrow> outcome_for_attempt s' a = Some out)
       \<and> (\<forall>t c. completion_for_task s t = Some c \<longrightarrow> completion_for_task s' t = Some c)"
proof -
  have grow: "facts_grow s s'" using assms by (rule commit_state_grows)
  have "if cm_replayed result then s' = s
        else unat (store_revision_get (ds_revision s')) =
               Suc (unat (store_revision_get (ds_revision s)))
           \<and> length (ds_commit_ledger s') = Suc (length (ds_commit_ledger s))"
    and "cm_revision result = ds_revision s'"
    using assms
    by (cases rule: commit_state_cases; auto simp: record_commit_def
        dest: store_revision.step_Some apply_durable_mutations_ledger)+
  moreover have "take (length (ds_admission_history s)) (ds_admission_history s') = ds_admission_history s"
    "take (length (ds_dispatch_history s)) (ds_dispatch_history s') = ds_dispatch_history s"
    "take (length (ds_outcome_history s)) (ds_outcome_history s') = ds_outcome_history s"
    "take (length (ds_completion_history s)) (ds_completion_history s') = ds_completion_history s"
    using grow by (auto simp: facts_grow_def)
  ultimately show ?thesis
    using facts_grow_lookup [OF grow]
    by (simp add: ds_intent_def ds_cancellation_def outcome_for_attempt_def completion_for_task_def)
qed

theorem commit_appends_facts_witness:
  "let s = demo_state [demo_prepare]
   in case commit_state demo_enc s demo_dispatch of
        Inr (s', result) \<Rightarrow>
          \<not> cm_replayed result \<and> cm_revision result = StoreRevision 2 \<and>
          take (length (ds_admission_history s)) (ds_admission_history s') = ds_admission_history s
      | Inl _ \<Rightarrow> False"
proof -
  let ?s = "demo_state [demo_prepare]"
  let ?c = "commit_state demo_enc ?s demo_dispatch"
  have ok: "?c = Inr (fst (projr ?c), snd (projr ?c))"
    and result: "snd (projr ?c) = \<lparr>cm_revision = StoreRevision 2, cm_replayed = False\<rparr>"
    by code_simp+
  obtain s' where c: "?c = Inr (s', \<lparr>cm_revision = StoreRevision 2, cm_replayed = False\<rparr>)"
    using ok result by metis
  show ?thesis
    using commit_appends_facts [OF c] by (simp only: Let_def c sum.case prod.case) simp
qed

text \<open>
  C14: A cancelled task stays cancelled and is never dispatched again: no commit adds a
  dispatch of an attempt that was admitted for the task.
\<close>
theorem cancellation_blocks_dispatch:
  assumes "durable_reachable enc s" and "is_cancelled s t"
    and "commit_state enc s request = Inr (s', result)"
  shows "is_cancelled s' t
       \<and> filter (\<lambda>d. map_option aa_task_id (ds_attempt s' (dr_attempt_id d)) = Some t)
           (ds_dispatch_history s')
         = filter (\<lambda>d. map_option aa_task_id (ds_attempt s (dr_attempt_id d)) = Some t)
           (ds_dispatch_history s)"
proof -
  have "task_dispatches u t =
      filter (\<lambda>d. map_option aa_task_id (ds_attempt u (dr_attempt_id d)) = Some t)
        (ds_dispatch_history u)" for u
    by (auto simp: task_dispatches_def ds_attempt_def intro!: filter_cong split: option.splits)
  then show ?thesis
    using cancelled_commit_no_dispatch [OF durable_reachable_lineage [OF assms(1)] assms(2,3)]
    by simp
qed

theorem cancellation_blocks_dispatch_witness:
  "let s = demo_state [demo_prepare, demo_cancel]
   in commit_state demo_enc s (demo_request (StoreRevision 2) ''k5'' (rq_mutations demo_dispatch))
        = Inl (InvariantViolation (DispatchCancelled (Id ''a''))) \<and>
      (case commit_state demo_enc s
              (demo_request (StoreRevision 2) ''k6'' [RecordWorkflowReplayIdentity
                 (WorkflowReplayIdentity ''wf2'')]) of
         Inr (s', _) \<Rightarrow> is_cancelled s' (Id ''a'')
       | Inl _ \<Rightarrow> False)"
proof -
  let ?s = "demo_state [demo_prepare, demo_cancel]"
  let ?q = "demo_request (StoreRevision 2) ''k6''
     [RecordWorkflowReplayIdentity (WorkflowReplayIdentity ''wf2'')]"
  let ?c = "commit_state demo_enc ?s ?q"
  have reach: "durable_reachable demo_enc ?s"
    using demo_requests_valid by (intro demo_state_reachable) simp
  have "?c = Inr (fst (projr ?c), snd (projr ?c))" and cancelled: "is_cancelled ?s (Id ''a'')"
    and blocked: "commit_state demo_enc ?s
        (demo_request (StoreRevision 2) ''k5'' (rq_mutations demo_dispatch))
        = Inl (InvariantViolation (DispatchCancelled (Id ''a'')))"
    by code_simp+
  then obtain s' r where c: "?c = Inr (s', r)" by metis
  have "is_cancelled s' (Id ''a'')"
    using cancellation_blocks_dispatch [OF reach cancelled c] by blast
  then show ?thesis by (simp only: Let_def blocked c sum.case prod.case simp_thms)
qed

text \<open>
  C12: The commit ledger is a complete record. Below the last representable revision, a
  reachable run state passes validation, its snapshot holds only the run and the ledger,
  and replaying that snapshot rebuilds the state exactly.
\<close>
theorem ledger_replay_roundtrip:
  assumes "durable_reachable enc s" and "ds_revision s \<noteq> StoreRevision u64_max"
  shows "validate_persisted enc s = Inr ()
       \<and> persisted_snapshot enc s =
           Inr \<lparr>ps_run_id = ds_run_id s, ps_commit_ledger = ds_commit_ledger s\<rparr>
       \<and> from_persisted_snapshot enc
           \<lparr>ps_run_id = ds_run_id s, ps_commit_ledger = ds_commit_ledger s\<rparr> = Inr s
       \<and> unat (store_revision_get (ds_revision s)) = length (ds_commit_ledger s)"
  using durable_reachable_validates [OF assms] durable_reachable_replay [OF assms]
    durable_reachable_ledger_ok [OF assms(1)]
  by (simp add: persisted_snapshot_def from_persisted_snapshot_def ledger_ok_def)

theorem ledger_replay_roundtrip_witness:
  "let s = demo_state [demo_prepare, demo_dispatch]
   in ds_revision s = StoreRevision 2 \<and> length (ds_commit_ledger s) = 2 \<and>
      from_persisted_snapshot demo_enc
        \<lparr>ps_run_id = demo_run, ps_commit_ledger = ds_commit_ledger s\<rparr> = Inr s"
proof -
  let ?s = "demo_state [demo_prepare, demo_dispatch]"
  have reach: "durable_reachable demo_enc ?s"
    using demo_requests_valid by (intro demo_state_reachable) simp
  have rev: "ds_revision ?s = StoreRevision 2" and run: "ds_run_id ?s = demo_run"
    and len: "length (ds_commit_ledger ?s) = 2"
    by code_simp+
  from rev have below: "ds_revision ?s \<noteq> StoreRevision u64_max" by (simp add: u64_max_def)
  show ?thesis
    using ledger_replay_roundtrip [OF reach below] rev run len by (simp add: Let_def)
qed

text \<open>
  A run can be driven to every revision: the \<open>n\<close>-th commit records the workflow identity
  under a key of \<open>n + 1\<close> letters.
\<close>

definition tally_request :: "nat \<Rightarrow> CommitRequest" where
  "tally_request n = demo_request (StoreRevision (of_nat n)) (replicate (Suc n) CHR ''a'')
     [RecordWorkflowReplayIdentity (WorkflowReplayIdentity ''wf'')]"

lemma tally_request_valid: "valid_request (tally_request n)"
proof -
  have "\<not> trim_is_empty (replicate (Suc n) CHR ''a'')"
    by (simp add: white1_def white2_def white3_def byte_of_def split: list.splits)
  moreover have "\<not> trim_is_empty ''wf''" by code_simp
  ultimately show ?thesis
    by (simp add: valid_request_def valid_batch_def tally_request_def demo_request_def)
qed

lemma tally_commit:
  assumes "ds_revision s = StoreRevision (of_nat n)" and "Suc n < 2 ^ 64"
    and "fmlookup (ds_idempotency s) (IdempotencyKey (replicate (Suc n) CHR ''a'')) = None"
  shows "\<exists>s'. commit_state enc s (tally_request n) =
           Inr (s', \<lparr>cm_revision = StoreRevision (of_nat (Suc n)), cm_replayed = False\<rparr>) \<and>
         ds_revision s' = StoreRevision (of_nat (Suc n)) \<and>
         ds_idempotency s' = fmupd (IdempotencyKey (replicate (Suc n) CHR ''a''))
           (rq_mutations (tally_request n), StoreRevision (of_nat (Suc n))) (ds_idempotency s)"
proof -
  have "unat (of_nat n :: u64) = n" using assms(2) by (simp add: unat_of_nat)
  then have "StoreRevision_checked_next (StoreRevision (of_nat n)) = Some (StoreRevision (of_nat (Suc n)))"
    using assms(2) by (simp add: StoreRevision_checked_next_def checked_add_u64_unat ac_simps)
  moreover have "\<not> trim_is_empty ''wf''" by code_simp
  ultimately show ?thesis
    using assms by (simp add: commit_state_def tally_request_def demo_request_def
        apply_durable_mutations_def record_replay_identity_def record_commit_def del: replicate_Suc)
qed

lemma tally_reachable:
  assumes "n < 2 ^ 64"
  shows "\<exists>s. durable_reachable enc s \<and> ds_revision s = StoreRevision (of_nat n) \<and>
           (\<forall>m\<ge>n. fmlookup (ds_idempotency s) (IdempotencyKey (replicate (Suc m) CHR ''a'')) = None)"
  using assms
proof (induction n)
  case 0
  have "durable_reachable enc (DurableRunState_new demo_run)"
    by (rule durable_reachable.create [OF demo_run_valid])
  then show ?case by (force simp: DurableRunState_new_def StoreRevision_INITIAL_def)
next
  case (Suc n)
  then obtain s where reach: "durable_reachable enc s" and rev: "ds_revision s = StoreRevision (of_nat n)"
    and fresh: "\<forall>m\<ge>n. fmlookup (ds_idempotency s) (IdempotencyKey (replicate (Suc m) CHR ''a'')) = None"
    by auto
  obtain s' where step: "commit_state enc s (tally_request n) =
      Inr (s', \<lparr>cm_revision = StoreRevision (of_nat (Suc n)), cm_replayed = False\<rparr>)"
    and s': "ds_revision s' = StoreRevision (of_nat (Suc n))"
      "ds_idempotency s' = fmupd (IdempotencyKey (replicate (Suc n) CHR ''a''))
         (rq_mutations (tally_request n), StoreRevision (of_nat (Suc n))) (ds_idempotency s)"
    using tally_commit [OF rev Suc.prems] fresh by blast
  have "fmlookup (ds_idempotency s') (IdempotencyKey (replicate (Suc m) CHR ''a'')) = None"
    if "Suc n \<le> m" for m
  proof -
    have "replicate (Suc m) CHR ''a'' \<noteq> replicate (Suc n) CHR ''a''"
      using that by (metis Suc_n_not_le_n length_replicate nat.inject)
    then show ?thesis using fresh that by (simp add: s'(2) del: replicate_Suc)
  qed
  then show ?case
    using durable_reachable.commit [OF reach tally_request_valid step] s'(1) by blast
qed

text \<open>
  C40: At the last representable revision the store contradicts itself: the commit that
  takes a run to revision \<open>2 ^ 64 - 1\<close> is accepted, but the ledger it leaves is reported
  as corrupt, so the run state can neither be validated nor be turned into a snapshot.
\<close>
theorem last_revision_ledger_rejected:
  assumes "durable_reachable enc s" and "valid_request request"
    and "commit_state enc s request = Inr (s', \<lparr>cm_revision = StoreRevision u64_max, cm_replayed = False\<rparr>)"
  shows "replay_commit_ledger enc (ds_run_id s') (ds_commit_ledger s')
           = Inl (DataCorruption RevisionSequenceExhausted)
       \<and> persisted_snapshot enc s' = Inl (DataCorruption RevisionSequenceExhausted)"
proof -
  have replay: "replay_commit_ledger enc (ds_run_id s') (ds_commit_ledger s')
      = Inl (DataCorruption RevisionSequenceExhausted)"
    by (rule commit_state_last_revision [OF assms])
  have "texts_ok s'"
    using durable_reachable_texts durable_reachable.commit assms by blast
  with replay show ?thesis
    by (auto simp: persisted_snapshot_def validate_persisted_def texts_ok_def list_ex_iff
        split: option.splits)
qed

theorem last_revision_ledger_rejected_witness:
  "\<exists>s request s'. durable_reachable demo_enc s \<and>
     commit_state demo_enc s request =
       Inr (s', \<lparr>cm_revision = StoreRevision u64_max, cm_replayed = False\<rparr>) \<and>
     persisted_snapshot demo_enc s' = Inl (DataCorruption RevisionSequenceExhausted)"
proof -
  define n :: nat where "n = 2 ^ 64 - 2"
  have n: "n < 2 ^ 64" "Suc n < 2 ^ 64" by (simp_all add: n_def)
  have last: "StoreRevision (of_nat (Suc n)) = StoreRevision u64_max"
    by (simp add: n_def u64_max_def)
  obtain s where reach: "durable_reachable demo_enc s" and rev: "ds_revision s = StoreRevision (of_nat n)"
    and "fmlookup (ds_idempotency s) (IdempotencyKey (replicate (Suc n) CHR ''a'')) = None"
    using tally_reachable [OF n(1), of demo_enc] by blast
  then obtain s' where step: "commit_state demo_enc s (tally_request n) =
      Inr (s', \<lparr>cm_revision = StoreRevision u64_max, cm_replayed = False\<rparr>)"
    using tally_commit [OF rev n(2), of demo_enc] unfolding last by blast
  show ?thesis
    using last_revision_ledger_rejected [OF reach tally_request_valid step] reach step by blast
qed

section \<open>The in-memory store\<close>

text \<open>
  C13: The in-memory store is a compare-and-swap store with idempotent retries. From a store
  whose runs are reachable, an accepted commit changes its run as the request says and no
  other run. Sending the same request again is answered as a replay at the same revision
  without any change, and another request against the same expected revision under a new
  key is refused with a revision conflict.
\<close>
theorem memory_commit_cas_idempotent:
  assumes "memory_ok enc st" and "valid_request q"
    and "memory_commit enc st q = (st', Inr result)"
  shows "memory_ok enc st'
       \<and> (\<exists>s s'. memory_load_run st (rq_run_id q) = Inr s \<and>
            commit_state enc s q = Inr (s', result) \<and> memory_load_run st' (rq_run_id q) = Inr s')
       \<and> (\<forall>r. r \<noteq> rq_run_id q \<longrightarrow> memory_load_run st' r = memory_load_run st r)
       \<and> memory_commit enc st' q =
           (st', Inr \<lparr>cm_revision = cm_revision result, cm_replayed = True\<rparr>)
       \<and> (\<forall>q'. \<not> cm_replayed result \<longrightarrow> rq_run_id q' = rq_run_id q \<longrightarrow>
            rq_expected_revision q' = rq_expected_revision q \<longrightarrow> rq_mutations q' \<noteq> [] \<longrightarrow>
            (\<forall>s'. memory_load_run st' (rq_run_id q) = Inr s' \<longrightarrow>
               fmlookup (ds_idempotency s') (rq_idempotency_key q') = None) \<longrightarrow>
            memory_commit enc st' q' =
              (st', Inl (StoreRevisionConflict (rq_expected_revision q') (cm_revision result))))"
proof -
  obtain s s' where run: "fmlookup (im_runs st) (rq_run_id q) = Some s"
    and step: "commit_state enc s q = Inr (s', result)"
    and runs: "fmlookup (im_runs st') = (fmlookup (im_runs st))(rq_run_id q \<mapsto> s')"
    and ok': "memory_ok enc st'"
    using memory.commit_ok [OF assms] by blast
  have load: "memory_load_run st (rq_run_id q) = Inr s"
    and load': "memory_load_run st' (rq_run_id q) = Inr s'"
    and other: "\<forall>r. r \<noteq> rq_run_id q \<longrightarrow> memory_load_run st' r = memory_load_run st r"
    using run runs by (simp_all add: memory_load_run_def)
  have facts: "rq_mutations q \<noteq> []" "ds_revision s' = cm_revision result"
    "\<exists>r. fmlookup (ds_idempotency s') (rq_idempotency_key q) = Some (rq_mutations q, r)"
    using step by (auto simp: commit_state_def record_commit_def
        split: if_splits option.splits sum.splits prod.splits)
  then have replay: "commit_state enc s' q =
      Inr (s', \<lparr>cm_revision = cm_revision result, cm_replayed = True\<rparr>)"
    by (auto simp: commit_state_def)
  have expected: "rq_expected_revision q \<noteq> ds_revision s'" if "\<not> cm_replayed result"
    using step that store_revision.step_not_same
    by (cases rule: commit_state_cases) (auto simp: record_commit_def)
  have "memory_commit enc st' q' =
      (st', Inl (StoreRevisionConflict (rq_expected_revision q') (cm_revision result)))"
    if "\<not> cm_replayed result" "rq_run_id q' = rq_run_id q"
      "rq_expected_revision q' = rq_expected_revision q" "rq_mutations q' \<noteq> []"
      "\<forall>s'. memory_load_run st' (rq_run_id q) = Inr s' \<longrightarrow>
         fmlookup (ds_idempotency s') (rq_idempotency_key q') = None" for q'
    using that expected load' facts(2) by (simp add: memory_commit_state commit_state_def)
  then show ?thesis
    using load step load' other ok' facts(1) replay by (auto simp: memory_commit_state)
qed

definition demo_store :: InMemoryDurableStore where
  "demo_store = fst (memory_create_run InMemoryDurableStore_new demo_run)"

lemma demo_store_ok: "memory_ok demo_enc demo_store"
  unfolding demo_store_def
  by (rule memory.create_store_ok)
    (simp_all add: memory_ok_def InMemoryDurableStore_new_def demo_run_valid)

theorem memory_commit_cas_idempotent_witness:
  "let st = fst (memory_commit demo_enc demo_store demo_prepare)
   in memory_commit demo_enc st demo_prepare =
        (st, Inr \<lparr>cm_revision = StoreRevision 1, cm_replayed = True\<rparr>) \<and>
      snd (memory_commit demo_enc st (demo_request (StoreRevision 0) ''other'' (rq_mutations demo_dispatch)))
        = Inl (StoreRevisionConflict (StoreRevision 0) (StoreRevision 1))"
proof -
  let ?c = "memory_commit demo_enc demo_store demo_prepare"
  have "snd ?c = Inr \<lparr>cm_revision = StoreRevision 1, cm_replayed = False\<rparr>"
    and conflict: "snd (memory_commit demo_enc (fst ?c)
        (demo_request (StoreRevision 0) ''other'' (rq_mutations demo_dispatch)))
        = Inl (StoreRevisionConflict (StoreRevision 0) (StoreRevision 1))"
    by code_simp+
  then have c: "?c = (fst ?c, Inr \<lparr>cm_revision = StoreRevision 1, cm_replayed = False\<rparr>)"
    by (metis prod.collapse)
  have valid: "valid_request demo_prepare" using demo_requests_valid by simp
  show ?thesis
    unfolding Let_def using memory_commit_cas_idempotent [OF demo_store_ok valid c] conflict by simp
qed

section \<open>Recovery\<close>

text \<open>
  The journal that recovery uses is a faithful view of the durable state: it can be
  rebuilt from every reachable run state without an error, and for each operation its
  intent, latest dispatch, known outcome and effect state are those of the durable state.
\<close>
theorem journal_rebuild_faithful:
  assumes "durable_reachable enc s"
  shows "\<exists>j. from_durable_state s = Inr j \<and>
           (\<forall>operation.
              fmlookup (jr_intents j) operation = ds_intent s operation \<and>
              journal_latest_dispatch j operation = latest_dispatch s operation \<and>
              known_outcome j operation = latest_outcome s operation \<and>
              journal_state j operation = effect_state s operation)"
proof -
  have lin: "lineage s" using assms by (rule durable_reachable_lineage)
  obtain j where j: "from_durable_state s = Inr j" and views: "journal_views j s"
    using from_durable_state_views [OF lin] by blast
  show ?thesis
    using j views views_queries [OF views lin] by (auto simp: journal_views_def ds_intent_def)
qed

theorem journal_rebuild_faithful_witness:
  "\<exists>j. from_durable_state (demo_state [demo_prepare, demo_dispatch]) = Inr j \<and>
       journal_state j demo_operation = OutcomeUnknown"
proof -
  let ?s = "demo_state [demo_prepare, demo_dispatch]"
  have reach: "durable_reachable demo_enc ?s"
    using demo_requests_valid by (intro demo_state_reachable) simp
  have "effect_state ?s demo_operation = OutcomeUnknown" by code_simp
  then show ?thesis using journal_rebuild_faithful [OF reach] by force
qed

text \<open>The decision that the durable facts call for, read off the latest dispatch.\<close>

definition recovery_table :: "WorkflowGraph \<Rightarrow> DurableRunState \<Rightarrow> EffectIntent \<Rightarrow> OperationId \<Rightarrow>
    RecoveryAction" where
  "recovery_table g s i operation =
     (if graph_task g (ei_task_id i) = None then RefuseInvariantViolation
      else
        case (latest_dispatch s operation, map_option or_outcome (latest_outcome s operation),
              graph_is_completed g (ei_task_id i)) of
          (_, Some Succeeded, True) \<Rightarrow> NoAction
        | (_, Some Succeeded, False) \<Rightarrow> CompleteWithoutReexecution
        | (_, _, True) \<Rightarrow> RefuseInvariantViolation
        | (_, Some Failed, False) \<Rightarrow> ObserveFailure
        | (None, None, False) \<Rightarrow> Execute
        | (Some _, None, False) \<Rightarrow>
            (if ei_semantics i = Idempotent then RetrySameOperation else Reconcile))"

lemma classify_by_table:
  assumes "durable_reachable enc s" and "from_durable_state s = Inr j"
  shows "case ds_intent s operation of
           None \<Rightarrow> classify_recovery g j operation = Inl (UnknownOperation operation)
         | Some i \<Rightarrow> \<exists>reason. classify_recovery g j operation =
             Inr \<lparr>rd_action = recovery_table g s i operation, rd_reason = reason\<rparr>"
proof -
  have lin: "lineage s" using assms(1) by (rule durable_reachable_lineage)
  have views: "journal_views j s"
    using from_durable_state_views [OF lin] assms(2) by auto
  note q = views_queries [OF views lin, of operation]
  show ?thesis
  proof (cases "ds_intent s operation")
    case None
    then show ?thesis by (simp add: classify_recovery_def q)
  next
    case (Some i)
    have out: "latest_outcome s operation = Some out \<Longrightarrow> \<exists>d. latest_dispatch s operation = Some d"
      for out using durable.outcome_dispatch [OF lin] by blast
    have "effect_state s operation =
        (case latest_dispatch s operation of None \<Rightarrow> Prepared
         | Some _ \<Rightarrow> (case latest_outcome s operation of None \<Rightarrow> OutcomeUnknown
                     | Some r \<Rightarrow> OutcomeKnown (or_outcome r)))"
      using durable.state_view [OF lin, of operation] Some by (simp add: effect_view_def)
    with Some out show ?thesis
      by (auto simp: classify_recovery_def q recovery_table_def invariant_decision_def decide_def
          split: option.splits KnownEffectOutcome.splits EffectSemantics.splits)
  qed
qed

text \<open>
  Recovery follows the decision table. For the journal of a reachable run state,
  classification never panics; it is refused only for an operation without an intent, and
  otherwise takes the action that the latest dispatch, its outcome, the semantics of the
  operation and the completion of the task determine.
\<close>
theorem classify_recovery_table:
  assumes "durable_reachable enc s" and "from_durable_state s = Inr j"
  shows "case ds_intent s operation of
           None \<Rightarrow> classify_recovery g j operation = Inl (UnknownOperation operation)
         | Some i \<Rightarrow> \<exists>reason. classify_recovery g j operation =
             Inr \<lparr>rd_action = recovery_table g s i operation, rd_reason = reason\<rparr>"
  using assms by (rule classify_by_table)

definition demo_workflow :: WorkflowGraph where
  "demo_workflow = fst (apply_batch WorkflowGraph_default Revision_ZERO
     (MutationBatch_from_mutations [AddTask \<lparr>t_id = Id ''a'', t_label = ''a''\<rparr>]))"

theorem classify_recovery_table_witness:
  "let j = projr (from_durable_state (demo_state [demo_prepare, demo_dispatch]))
   in \<exists>reason. classify_recovery demo_workflow j demo_operation =
        Inr \<lparr>rd_action = Reconcile, rd_reason = reason\<rparr>"
proof -
  let ?s = "demo_state [demo_prepare, demo_dispatch]"
  let ?j = "projr (from_durable_state ?s)"
  let ?i = "\<lparr>ei_task_id = Id ''a'', ei_operation_id = demo_operation, ei_semantics = NonIdempotent\<rparr>"
  have reach: "durable_reachable demo_enc ?s"
    using demo_requests_valid by (intro demo_state_reachable) simp
  have j: "from_durable_state ?s = Inr ?j" and i: "ds_intent ?s demo_operation = Some ?i"
    and t: "recovery_table demo_workflow ?s ?i demo_operation = Reconcile"
    by code_simp+
  show ?thesis
    using classify_recovery_table [OF reach j, of demo_workflow demo_operation] i t
    by (simp add: Let_def)
qed

text \<open>
  C10: Recovery never repeats an effect unsafely. An operation is executed only if it was
  never dispatched, retried only if it is idempotent and its latest dispatch has no outcome,
  and neither when its task is complete; a task is completed without execution only on a
  recorded success of the latest dispatch. In particular a dispatched non-idempotent
  operation is never sent again.
\<close>
theorem recovery_never_repeats_unsafely:
  assumes "durable_reachable enc s" and "from_durable_state s = Inr j"
    and "classify_recovery g j operation = Inr decision"
  shows "\<exists>i. ds_intent s operation = Some i
       \<and> (rd_action decision = Execute \<longrightarrow>
            dispatches_of s operation = [] \<and> \<not> graph_is_completed g (ei_task_id i))
       \<and> (rd_action decision = RetrySameOperation \<longrightarrow>
            ei_semantics i = Idempotent \<and> latest_outcome s operation = None
            \<and> \<not> graph_is_completed g (ei_task_id i))
       \<and> (rd_action decision = CompleteWithoutReexecution \<longrightarrow>
            map_option or_outcome (latest_outcome s operation) = Some Succeeded)
       \<and> (ei_semantics i = NonIdempotent \<and> dispatches_of s operation \<noteq> [] \<longrightarrow>
            rd_action decision \<noteq> Execute \<and> rd_action decision \<noteq> RetrySameOperation)"
proof -
  obtain i where i: "ds_intent s operation = Some i"
    and action: "rd_action decision = recovery_table g s i operation"
    using classify_by_table [OF assms(1,2), of g operation] assms(3)
    by (cases "ds_intent s operation") auto
  have empty: "latest_dispatch s operation = None \<longleftrightarrow> dispatches_of s operation = []"
    by (simp add: latest_dispatch_def split: list.splits)
  have "recovery_table g s i operation = Execute \<Longrightarrow>
      latest_dispatch s operation = None \<and> \<not> graph_is_completed g (ei_task_id i)"
    and "recovery_table g s i operation = RetrySameOperation \<Longrightarrow>
      ei_semantics i = Idempotent \<and> latest_outcome s operation = None
      \<and> \<not> graph_is_completed g (ei_task_id i)"
    and "recovery_table g s i operation = CompleteWithoutReexecution \<Longrightarrow>
      map_option or_outcome (latest_outcome s operation) = Some Succeeded"
    by (auto simp: recovery_table_def split: if_splits option.splits KnownEffectOutcome.splits
        bool.splits)
  with i action empty show ?thesis by auto
qed

theorem recovery_never_repeats_unsafely_witness:
  "let j = projr (from_durable_state (demo_state [demo_prepare, demo_dispatch]))
   in rd_action (projr (classify_recovery demo_workflow j demo_operation)) \<noteq> RetrySameOperation"
proof -
  let ?s = "demo_state [demo_prepare, demo_dispatch]"
  let ?j = "projr (from_durable_state ?s)"
  let ?d = "projr (classify_recovery demo_workflow ?j demo_operation)"
  have reach: "durable_reachable demo_enc ?s"
    using demo_requests_valid by (intro demo_state_reachable) simp
  have j: "from_durable_state ?s = Inr ?j"
    and d: "classify_recovery demo_workflow ?j demo_operation = Inr ?d"
    and semantics: "ei_semantics (the (ds_intent ?s demo_operation)) = NonIdempotent"
    and dispatched: "dispatches_of ?s demo_operation \<noteq> []"
    by code_simp+
  show ?thesis
    unfolding Let_def
    using recovery_never_repeats_unsafely [OF reach j d] semantics dispatched by auto
qed

text \<open>
  A completion of an attempt that owns an effect is accepted exactly when the attempt
  belongs to the task, its operation has an intent, the attempt is the latest dispatch of
  the operation, its recorded outcome is a success, and no other attempt has completed the
  task. The accepted completion is recorded for the task.
\<close>
theorem effect_completion_accepted_iff:
  assumes "durable_reachable enc s" and "ds_attempt s (dc_attempt_id c) = Some a"
    and "aa_operation_id a = Some operation"
  shows "((\<exists>s'. apply_durable_mutation s (RecordCompletion c) = Inr s') \<longleftrightarrow>
            aa_task_id a = dc_task_id c \<and> ds_intent s operation \<noteq> None \<and>
            map_option dr_attempt_id (latest_dispatch s operation) = Some (dc_attempt_id c) \<and>
            map_option or_outcome (latest_outcome s operation) = Some Succeeded \<and>
            (completion_for_task s (dc_task_id c) = None \<or>
             completion_for_task s (dc_task_id c) = Some c))
       \<and> (\<forall>s'. apply_durable_mutation s (RecordCompletion c) = Inr s' \<longrightarrow>
            completion_for_task s' (dc_task_id c) = Some c)"
proof -
  have lin: "lineage s" using assms(1) by (rule durable_reachable_lineage)
  have disp: "fmlookup (ds_dispatches s) (dr_attempt_id d) = Some d" "dr_operation_id d = operation"
    if "latest_dispatch s operation = Some d" for d
    using lin latest_dispatch_Some [OF that] by (auto simp: lineage_def dest: indexed_lookup)
  have checks: "check_effect_completion s c operation = None \<longleftrightarrow>
      ds_intent s operation \<noteq> None \<and>
      map_option dr_attempt_id (latest_dispatch s operation) = Some (dc_attempt_id c) \<and>
      map_option or_outcome (latest_outcome s operation) = Some Succeeded"
    using disp
    by (auto simp: check_effect_completion_def Let_def ds_intent_def contains_key_def
        latest_outcome_def outcome_for_attempt_def split: option.splits)
  have insert: "insert_completion s c =
      (if completion_for_task s (dc_task_id c) = None then
         Inr (s\<lparr>ds_completions := fmupd (dc_task_id c) c (ds_completions s),
                ds_completion_history := ds_completion_history s @ [c]\<rparr>)
       else if completion_for_task s (dc_task_id c) = Some c then Inr s
       else violation (ConflictingCompletion (dc_task_id c)
              (dc_attempt_id (the (completion_for_task s (dc_task_id c)))) (dc_attempt_id c)))"
    by (auto simp: insert_completion_def completion_for_task_def split: option.splits)
  have step: "apply_durable_mutation s (RecordCompletion c) =
      (if aa_task_id a \<noteq> dc_task_id c then
         violation (CompletionAttemptMismatch (dc_task_id c) (dc_attempt_id c))
       else case check_effect_completion s c operation of
              Some v \<Rightarrow> violation v
            | None \<Rightarrow> insert_completion s c)"
    using assms(2,3) by (simp add: record_completion_def ds_attempt_def)
  show ?thesis
    unfolding step using checks
    by (cases "check_effect_completion s c operation")
      (auto simp: insert completion_for_task_def)
qed

theorem effect_completion_accepted_iff_witness:
  "let s = demo_state [demo_prepare, demo_dispatch];
       c = \<lparr>dc_task_id = Id ''a'', dc_attempt_id = demo_attempt\<rparr>
   in \<not> (\<exists>s'. apply_durable_mutation s (RecordCompletion c) = Inr s')"
proof -
  let ?s = "demo_state [demo_prepare, demo_dispatch]"
  let ?c = "\<lparr>dc_task_id = Id ''a'', dc_attempt_id = demo_attempt\<rparr>"
  let ?a = "\<lparr>aa_run_id = demo_run, aa_task_id = Id ''a'', aa_attempt_id = demo_attempt,
             aa_operation_id = Some demo_operation, aa_capabilities = []\<rparr>"
  have reach: "durable_reachable demo_enc ?s"
    using demo_requests_valid by (intro demo_state_reachable) simp
  have a: "ds_attempt ?s (dc_attempt_id ?c) = Some ?a"
    and o: "aa_operation_id ?a = Some demo_operation"
    and none: "latest_outcome ?s demo_operation = None"
    by code_simp+
  show ?thesis
    unfolding Let_def using effect_completion_accepted_iff [OF reach a o] none by simp
qed

end
