(* ===== verification/Canonical_Encoding.thy ===== *)
theory Canonical_Encoding
  imports Prelude
begin

text \<open>
  The library behind the canonical run-definition identity: decimal numerals and
  self-delimiting encodings. An encoding is self-delimiting when a text that starts with
  a code determines the encoded value and the rest, which is the contract of the locale
  \<open>self_delimiting\<close>. Concatenations and counted lists of self-delimiting encodings are
  self-delimiting.
\<close>

section \<open>Decimal numerals\<close>

definition digit :: "nat \<Rightarrow> char" where
  "digit n = char_of (48 + n)"

text \<open>\<^verbatim>\<open>usize::to_string\<close>.\<close>

fun decimal :: "nat \<Rightarrow> string" where
  "decimal n = (if n < 10 then [digit n] else decimal (n div 10) @ [digit (n mod 10)])"

declare decimal.simps [simp del]

definition is_digit :: "char \<Rightarrow> bool" where
  "is_digit c \<longleftrightarrow> 48 \<le> byte_of c \<and> byte_of c < 58"

lemma byte_of_digit: "n < 10 \<Longrightarrow> byte_of (digit n) = 48 + n"
  by (simp add: digit_def byte_of_def of_char_of)

lemma digit_inject: "m < 10 \<Longrightarrow> n < 10 \<Longrightarrow> digit m = digit n \<longleftrightarrow> m = n"
  using byte_of_digit by (metis add_left_cancel)

lemma decimal_digits: "\<forall>c\<in>set (decimal n). is_digit c"
proof (induction n rule: decimal.induct)
  case (1 n)
  then show ?case
    by (subst decimal.simps) (auto simp: is_digit_def byte_of_digit)
qed

lemma decimal_not_Nil [simp]: "decimal n \<noteq> []"
  by (subst decimal.simps) simp

lemma decimal_single_iff: "length (decimal n) = 1 \<longleftrightarrow> n < 10"
  by (subst decimal.simps) simp

lemma decimal_inject [simp]: "decimal m = decimal n \<longleftrightarrow> m = n"
proof
  show "m = n" if "decimal m = decimal n"
    using that
  proof (induction m arbitrary: n rule: decimal.induct)
    case (1 m)
    then have len: "m < 10 \<longleftrightarrow> n < 10" using decimal_single_iff by metis
    show ?case
    proof (cases "m < 10")
      case True
      with len 1(2) show ?thesis by (subst (asm) (1 2) decimal.simps) (simp add: digit_inject)
    next
      case False
      with len 1(2) have "decimal (m div 10) = decimal (n div 10)"
        and "digit (m mod 10) = digit (n mod 10)"
        by (subst (asm) (1 2) decimal.simps, simp)+
      then have "m div 10 = n div 10" and "m mod 10 = n mod 10"
        using 1(1) [OF False] by (auto simp: digit_inject)
      then show ?thesis by (metis div_mult_mod_eq)
    qed
  qed
qed simp

text \<open>A run of digits that ends at a non-digit is read back uniquely.\<close>

lemma span_unique:
  assumes "\<forall>c\<in>set xs. P c" and "\<forall>c\<in>set ys. P c" and "\<not> P z" and "xs @ z # r = ys @ z # s"
  shows "xs = ys \<and> r = s"
proof -
  have "takeWhile P (xs @ z # r) = xs" and "takeWhile P (ys @ z # s) = ys"
    using assms(1-3) by (simp_all add: takeWhile_append2)
  with assms(4) have "xs = ys" by metis
  with assms(4) show ?thesis by simp
qed

lemma decimal_delimited:
  assumes "\<not> is_digit z" and "decimal m @ z # r = decimal n @ z # s"
  shows "m = n \<and> r = s"
  using span_unique [OF decimal_digits decimal_digits assms] by simp

section \<open>Self-delimiting encodings\<close>

locale self_delimiting =
  fixes enc :: "'a \<Rightarrow> string"
  assumes delimited: "enc x @ r = enc y @ s \<Longrightarrow> x = y \<and> r = s"
begin

lemma injective: "enc x = enc y \<longleftrightarrow> x = y"
  using delimited [of x "[]" y "[]"] by auto

text \<open>Lists of the same length are read back element by element.\<close>

lemma equal_length_lists:
  assumes "length xs = length ys" and "concat (map enc xs) @ r = concat (map enc ys) @ s"
  shows "xs = ys \<and> r = s"
  using assms by (induction xs ys rule: list_induct2) (auto dest: delimited)

end

lemma self_delimiting_pair:
  assumes "self_delimiting a" and "self_delimiting b"
  shows "self_delimiting (\<lambda>(x, y). a x @ b y)"
proof
  fix p q :: "'a \<times> 'b" and r s
  assume eq: "(case p of (x, y) \<Rightarrow> a x @ b y) @ r = (case q of (x, y) \<Rightarrow> a x @ b y) @ s"
  obtain x y x' y' where p: "p = (x, y)" and q: "q = (x', y')" by (cases p; cases q) simp
  from eq have "a x @ (b y @ r) = a x' @ (b y' @ s)" by (simp add: p q)
  then have "x = x'" and rest: "b y @ r = b y' @ s"
    using self_delimiting.delimited [OF assms(1)] by blast+
  from rest have "y = y' \<and> r = s" by (rule self_delimiting.delimited [OF assms(2)])
  with \<open>x = x'\<close> show "p = q \<and> r = s" by (simp add: p q)
qed

lemma self_delimiting_frame:
  assumes "self_delimiting a"
  shows "self_delimiting (\<lambda>x. before @ a x @ after)"
  using self_delimiting.delimited [OF assms] by unfold_locales force

lemma self_delimiting_map:
  assumes "self_delimiting a" and "\<And>x y. f x = f y \<Longrightarrow> x = y"
  shows "self_delimiting (\<lambda>x. a (f x))"
  using self_delimiting.delimited [OF assms(1)] assms(2) by unfold_locales blast

text \<open>A list encoded as its count, a closing delimiter and its elements.\<close>

lemma self_delimiting_counted:
  assumes "self_delimiting a" and "\<not> is_digit z"
  shows "self_delimiting (\<lambda>xs. decimal (length xs) @ z # concat (map a xs))"
proof
  fix xs ys r s
  assume eq: "(decimal (length xs) @ z # concat (map a xs)) @ r =
    (decimal (length ys) @ z # concat (map a ys)) @ s"
  then have "decimal (length xs) @ z # (concat (map a xs) @ r) =
    decimal (length ys) @ z # (concat (map a ys) @ s)" by simp
  then have "length xs = length ys \<and> concat (map a xs) @ r = concat (map a ys) @ s"
    by (rule decimal_delimited [OF assms(2)])
  then have "length xs = length ys" and "concat (map a xs) @ r = concat (map a ys) @ s"
    by simp_all
  then show "xs = ys \<and> r = s" by (rule self_delimiting.equal_length_lists [OF assms(1)])
qed

text \<open>A text encoded as its length, a delimiter and its bytes.\<close>

lemma self_delimiting_bytes:
  assumes "\<not> is_digit z"
  shows "self_delimiting (\<lambda>v. decimal (length v) @ z # v)"
proof
  fix v w r s :: string
  assume "(decimal (length v) @ z # v) @ r = (decimal (length w) @ z # w) @ s"
  then have "decimal (length v) @ z # (v @ r) = decimal (length w) @ z # (w @ s)" by simp
  then have "length v = length w \<and> v @ r = w @ s" by (rule decimal_delimited [OF assms])
  then show "v = w \<and> r = s" using append_eq_append_conv [of v w r s] by simp
qed

end
