(* ===== verification/Physical_Store.thy ===== *)
theory Physical_Store
  imports Durable_Invariants Canonical_Encoding
begin

unbundle bit_operations_syntax

text \<open>
  The file store of \<^verbatim>\<open>physical.rs\<close>: the versioned and checksummed encoding of a run
  state, and create, load and commit over one table of a \<^verbatim>\<open>redb\<close> database.

  Two packages are parameters. \<open>postcard\<close> holds the encoders the code calls; the law the
  code relies on is \<open>postcard_roundtrip\<close>. \<open>redb\<close> holds what the code calls of the
  database on a value of type \<open>'db\<close>; its laws are \<open>redb_laws\<close>: within a transaction a
  read returns what was written, and a successful commit publishes the working copy.
  Nothing is assumed about which calls fail.
\<close>

section \<open>Byte order\<close>

definition u16_to_le_bytes :: "u16 \<Rightarrow> u8 list" where
  "u16_to_le_bytes w = [ucast w, ucast (drop_bit 8 w)]"

definition u16_from_le_bytes :: "u8 \<Rightarrow> u8 \<Rightarrow> u16" where
  "u16_from_le_bytes a b = ucast a OR push_bit 8 (ucast b)"

definition u64_to_le_bytes :: "u64 \<Rightarrow> u8 list" where
  "u64_to_le_bytes w = map (\<lambda>i. ucast (drop_bit (8 * i) w)) [0..<8]"

fun u64_from_le_bytes :: "u8 list \<Rightarrow> u64" where
  "u64_from_le_bytes [] = 0"
| "u64_from_le_bytes (b # bs) = ucast b OR push_bit 8 (u64_from_le_bytes bs)"

lemma u16_le_roundtrip: "u16_from_le_bytes (ucast w) (ucast (drop_bit 8 w)) = w"
  unfolding u16_from_le_bytes_def
  by (rule bit_word_eqI) (auto simp: bit_simps)

lemma length_u64_to_le_bytes [simp]: "length (u64_to_le_bytes w) = 8"
  by (simp add: u64_to_le_bytes_def)

lemma u64_from_le_drop:
  "u64_from_le_bytes (map (\<lambda>i. ucast (drop_bit (8 * i) w)) [k..<n]) = take_bit (8 * (n - k)) (drop_bit (8 * k) w)"
  if "k \<le> n" for w :: u64
  using that
proof (induction "n - k" arbitrary: k)
  case 0
  then show ?case by simp
next
  case (Suc m)
  then have "k < n" and m: "m = n - Suc k" by simp_all
  have "u64_from_le_bytes (map (\<lambda>i. ucast (drop_bit (8 * i) w)) [k..<n])
      = ucast (ucast (drop_bit (8 * k) w) :: u8) OR
        push_bit 8 (take_bit (8 * (n - Suc k)) (drop_bit (8 * Suc k) w))"
    using Suc.hyps(1) [OF m] \<open>k < n\<close> by (simp add: upt_conv_Cons)
  also have "\<dots> = take_bit (8 * (n - k)) (drop_bit (8 * k) w)"
    by (rule bit_word_eqI) (use \<open>k < n\<close> in \<open>auto simp: bit_simps\<close>)
  finally show ?case .
qed

lemma u64_le_roundtrip [simp]: "u64_from_le_bytes (u64_to_le_bytes w) = w"
  using u64_from_le_drop [of 0 8 w] by (simp add: u64_to_le_bytes_def take_bit_word_eq_self)

section \<open>Encoding a run state\<close>

record postcard =
  pc_binding :: binding_encoder
  pc_to_allocvec :: "PersistedRunSnapshot \<Rightarrow> string + u8 list"
  pc_take_from_bytes :: "u8 list \<Rightarrow> string + PersistedRunSnapshot \<times> u8 list"

definition FORMAT_MAGIC :: "u8 list" where
  "FORMAT_MAGIC = map of_char ''KERNIS-DURABLE-STATE''"

definition FORMAT_VERSION :: u16 where
  "FORMAT_VERSION = 5"

definition CHECKSUM_LEN :: nat where
  "CHECKSUM_LEN = 8"

definition encode_state :: "postcard \<Rightarrow> DurableRunState \<Rightarrow> StoreError + u8 list" where
  "encode_state pc s =
     (case persisted_snapshot (pc_binding pc) s of
        Inl e \<Rightarrow> Inl e
      | Inr snapshot \<Rightarrow>
          (case pc_to_allocvec pc snapshot of
             Inl e \<Rightarrow> Inl (IoFailure (''durable state encoding failed: '' @ e))
           | Inr payload \<Rightarrow>
               Inr (FORMAT_MAGIC @ u16_to_le_bytes FORMAT_VERSION
                    @ u64_to_le_bytes (checksum payload) @ payload)))"

definition header_len :: nat where
  "header_len = length FORMAT_MAGIC + 2 + CHECKSUM_LEN"

definition decode_state :: "postcard \<Rightarrow> u8 list \<Rightarrow> StoreError + DurableRunState" where
  "decode_state pc encoded =
     (if length encoded < header_len \<or> take (length FORMAT_MAGIC) encoded \<noteq> FORMAT_MAGIC then
        Inl (DataCorruption SchemaHeaderInvalid)
      else
        let version_offset = length FORMAT_MAGIC;
            version = u16_from_le_bytes (encoded ! version_offset) (encoded ! (version_offset + 1))
        in if version \<noteq> FORMAT_VERSION then Inl (DataCorruption (SchemaVersionUnsupported version))
           else
             let checksum_offset = length FORMAT_MAGIC + 2;
                 expected_checksum =
                   u64_from_le_bytes (take CHECKSUM_LEN (drop checksum_offset encoded))
             in if expected_checksum \<noteq> checksum (drop header_len encoded) then
                  Inl (DataCorruption ChecksumMismatch)
                else
                  (case pc_take_from_bytes pc (drop header_len encoded) of
                     Inl e \<Rightarrow> Inl (DataCorruption (PayloadInvalid e))
                   | Inr (snapshot, remainder) \<Rightarrow>
                       if remainder \<noteq> [] then Inl (DataCorruption TrailingBytes)
                       else from_persisted_snapshot (pc_binding pc) snapshot))"

section \<open>Errors of the backend\<close>

datatype io_kind = NotFound | WouldBlock | TimedOut | PermissionDenied | InvalidData | OtherKind

record io_error =
  io_kind_of :: io_kind
  io_message :: string

datatype StorageError =
    Corrupted string
  | StorageIo io_error
  | PreviousIo
  | ValueTooLarge nat
  | LockPoisoned
  | OtherStorage string

datatype DatabaseError =
    DatabaseAlreadyOpen
  | DatabaseStorage StorageError
  | UpgradeRequired nat
  | RepairAborted
  | OtherDatabase string

datatype TransactionError =
    TransactionStorage StorageError
  | ReadTransactionStillInUse
  | OtherTransaction string

datatype CommitError = CommitStorage StorageError | OtherCommit string

datatype TableError = TableStorage StorageError | TableDoesNotExist string | OtherTable string

definition map_io_error :: "io_error \<Rightarrow> StoreError" where
  "map_io_error e =
     (case io_kind_of e of
        NotFound \<Rightarrow> BackendUnavailable
      | WouldBlock \<Rightarrow> BackendUnavailable
      | TimedOut \<Rightarrow> BackendUnavailable
      | PermissionDenied \<Rightarrow> IoFailure (io_message e)
      | InvalidData \<Rightarrow> DataCorruption (BackendMessage (io_message e))
      | OtherKind \<Rightarrow> IoFailure (io_message e))"

fun map_storage_error :: "StorageError \<Rightarrow> StoreError" where
  "map_storage_error (Corrupted message) = DataCorruption (BackendMessage message)"
| "map_storage_error (StorageIo e) = map_io_error e"
| "map_storage_error PreviousIo = IoFailure ''redb reported a previous I/O failure''"
| "map_storage_error (ValueTooLarge n) =
     IoFailure (''durable value is too large: '' @ decimal n @ '' bytes'')"
| "map_storage_error LockPoisoned = BackendUnavailable"
| "map_storage_error (OtherStorage message) = IoFailure message"

fun map_database_error :: "DatabaseError \<Rightarrow> StoreError" where
  "map_database_error DatabaseAlreadyOpen = BackendUnavailable"
| "map_database_error (DatabaseStorage e) = map_storage_error e"
| "map_database_error (UpgradeRequired n) =
     DataCorruption (BackendMessage
       (''redb database format '' @ decimal n @ '' requires an unsupported upgrade''))"
| "map_database_error RepairAborted = IoFailure ''redb database repair was aborted''"
| "map_database_error (OtherDatabase message) = IoFailure message"

fun map_transaction_error :: "TransactionError \<Rightarrow> StoreError" where
  "map_transaction_error (TransactionStorage e) = map_storage_error e"
| "map_transaction_error ReadTransactionStillInUse =
     IoFailure ''redb read transaction is still in use''"
| "map_transaction_error (OtherTransaction message) = IoFailure message"

fun map_commit_error :: "CommitError \<Rightarrow> StoreError" where
  "map_commit_error (CommitStorage e) = map_storage_error e"
| "map_commit_error (OtherCommit message) = IoFailure message"

fun map_table_error :: "TableError \<Rightarrow> StoreError" where
  "map_table_error (TableStorage e) = map_storage_error e"
| "map_table_error (TableDoesNotExist message) = DataCorruption (BackendMessage message)"
| "map_table_error (OtherTable message) = DataCorruption (BackendMessage message)"

section \<open>Opening the database\<close>

text \<open>The answer of one \<^verbatim>\<open>Database::open\<close> or \<^verbatim>\<open>Database::create\<close>, a panic of the backend included.\<close>

datatype open_answer = Opened | OpenError DatabaseError | OpenPanics

definition catch_backend_panic :: "open_answer \<Rightarrow> StoreError + (DatabaseError + unit)" where
  "catch_backend_panic answer =
     (case answer of
        OpenPanics \<Rightarrow> Inl (DataCorruption BackendPanicked)
      | OpenError e \<Rightarrow> Inr (Inl e)
      | Opened \<Rightarrow> Inr (Inr ()))"

definition DATABASE_OPEN_RETRIES :: nat where
  "DATABASE_OPEN_RETRIES = 40"

fun open_attempts :: "(nat \<Rightarrow> open_answer) \<Rightarrow> nat list \<Rightarrow> StoreError + unit" where
  "open_attempts answers [] = Inl BackendUnavailable"
| "open_attempts answers (attempt # rest) =
     (case catch_backend_panic (answers attempt) of
        Inl e \<Rightarrow> Inl e
      | Inr (Inr _) \<Rightarrow> Inr ()
      | Inr (Inl e) \<Rightarrow>
          if e = DatabaseAlreadyOpen then
            (if attempt < DATABASE_OPEN_RETRIES then open_attempts answers rest
             else Inl BackendUnavailable)
          else Inl (map_database_error e))"

definition open_existing_database :: "(nat \<Rightarrow> open_answer) \<Rightarrow> StoreError + unit" where
  "open_existing_database answers = open_attempts answers [0..<Suc DATABASE_OPEN_RETRIES]"

text \<open>
  The bootstrap loop waits for the deadline: \<open>expired n\<close> says that the clock has passed it
  when the \<open>n\<close>-th answer is in. \<open>None\<close> is a loop that does not end.
\<close>

partial_function (option) open_bootstrap_from ::
    "(nat \<Rightarrow> open_answer) \<Rightarrow> (nat \<Rightarrow> bool) \<Rightarrow> nat \<Rightarrow> (StoreError + unit) option" where
  "open_bootstrap_from answers expired n =
     (case catch_backend_panic (answers n) of
        Inl e \<Rightarrow> Some (Inl e)
      | Inr (Inr _) \<Rightarrow> Some (Inr ())
      | Inr (Inl e) \<Rightarrow>
          if e = DatabaseAlreadyOpen then
            (if \<not> expired n then open_bootstrap_from answers expired (Suc n)
             else Some (Inl BackendUnavailable))
          else Some (Inl (map_database_error e)))"

definition open_bootstrap_database ::
    "(nat \<Rightarrow> open_answer) \<Rightarrow> (nat \<Rightarrow> bool) \<Rightarrow> (StoreError + unit) option" where
  "open_bootstrap_database answers expired = open_bootstrap_from answers expired 0"

definition database_has_table :: "TransactionError option \<Rightarrow> TableError option \<Rightarrow> StoreError + bool" where
  "database_has_table begin_read open_table =
     (case begin_read of
        Some e \<Rightarrow> Inl (map_transaction_error e)
      | None \<Rightarrow>
          (case open_table of
             None \<Rightarrow> Inr True
           | Some (TableDoesNotExist _) \<Rightarrow> Inr False
           | Some e \<Rightarrow> Inl (map_table_error e)))"

fun wait_attempts :: "(nat \<Rightarrow> nat \<Rightarrow> open_answer) \<Rightarrow> (nat \<Rightarrow> TransactionError option) \<Rightarrow>
    (nat \<Rightarrow> TableError option) \<Rightarrow> nat list \<Rightarrow> StoreError + bool" where
  "wait_attempts opens begins tables [] = Inr False"
| "wait_attempts opens begins tables (attempt # rest) =
     (case open_existing_database (opens attempt) of
        Inl e \<Rightarrow> Inl e
      | Inr _ \<Rightarrow>
          (case database_has_table (begins attempt) (tables attempt) of
             Inl e \<Rightarrow> Inl e
           | Inr True \<Rightarrow> Inr True
           | Inr False \<Rightarrow> wait_attempts opens begins tables rest))"

definition wait_for_initialized_table :: "(nat \<Rightarrow> nat \<Rightarrow> open_answer) \<Rightarrow>
    (nat \<Rightarrow> TransactionError option) \<Rightarrow> (nat \<Rightarrow> TableError option) \<Rightarrow> StoreError + bool" where
  "wait_for_initialized_table opens begins tables =
     wait_attempts opens begins tables [0..<Suc DATABASE_OPEN_RETRIES]"

definition initialize_table :: "TransactionError option \<Rightarrow> TableError option \<Rightarrow> CommitError option \<Rightarrow>
    StoreError + unit" where
  "initialize_table begin_write open_table commit =
     (case begin_write of
        Some e \<Rightarrow> Inl (map_transaction_error e)
      | None \<Rightarrow>
          (case open_table of
             Some e \<Rightarrow> Inl (map_table_error e)
           | None \<Rightarrow> (case commit of Some e \<Rightarrow> Inl (map_commit_error e) | None \<Rightarrow> Inr ())))"

text \<open>What the file system and the backend answer while a store is opened.\<close>

record open_environment =
  oe_create_dir :: "io_error option"
  oe_existed :: bool
  oe_create :: open_answer
  oe_bootstrap :: "nat \<Rightarrow> open_answer"
  oe_expired :: "nat \<Rightarrow> bool"
  oe_begin_read :: "TransactionError option"
  oe_table :: "TableError option"
  oe_begin_write :: "TransactionError option"
  oe_new_table :: "TableError option"
  oe_commit :: "CommitError option"
  oe_wait_open :: "nat \<Rightarrow> nat \<Rightarrow> open_answer"
  oe_wait_begin :: "nat \<Rightarrow> TransactionError option"
  oe_wait_table :: "nat \<Rightarrow> TableError option"

text \<open>The handle and whether this store created the file.\<close>

definition acquire_database :: "open_environment \<Rightarrow> (StoreError + bool) option" where
  "acquire_database env =
     (let bootstrap = map_option (\<lambda>r. case r of Inl e \<Rightarrow> Inl e | Inr _ \<Rightarrow> Inr False)
            (open_bootstrap_database (oe_bootstrap env) (oe_expired env))
      in if oe_existed env then bootstrap
         else
           (case catch_backend_panic (oe_create env) of
              Inl e \<Rightarrow> Some (Inl e)
            | Inr (Inr _) \<Rightarrow> Some (Inr True)
            | Inr (Inl e) \<Rightarrow>
                if e = DatabaseAlreadyOpen then bootstrap else Some (Inl (map_database_error e))))"

definition FileDurableStore_open :: "open_environment \<Rightarrow> (StoreError + unit) option" where
  "FileDurableStore_open env =
     (case oe_create_dir env of
        Some e \<Rightarrow> Some (Inl (map_io_error e))
      | None \<Rightarrow>
          (case acquire_database env of
             None \<Rightarrow> None
           | Some (Inl e) \<Rightarrow> Some (Inl e)
           | Some (Inr created_by_store) \<Rightarrow>
               Some (case database_has_table (oe_begin_read env) (oe_table env) of
                       Inl e \<Rightarrow> Inl e
                     | Inr True \<Rightarrow> Inr ()
                     | Inr False \<Rightarrow>
                         if created_by_store then
                           initialize_table (oe_begin_write env) (oe_new_table env) (oe_commit env)
                         else
                           (case wait_for_initialized_table (oe_wait_open env) (oe_wait_begin env)
                                   (oe_wait_table env) of
                              Inl e \<Rightarrow> Inl e
                            | Inr True \<Rightarrow> Inr ()
                            | Inr False \<Rightarrow> Inl (DataCorruption TableMissing)))))"

section \<open>The store\<close>

record 'db redb =
  rb_open :: "'db \<Rightarrow> nat \<Rightarrow> open_answer"
  rb_begin_read :: "'db \<Rightarrow> TransactionError option"
  rb_begin_write :: "'db \<Rightarrow> TransactionError option"
  rb_open_table :: "'db \<Rightarrow> TableError option"
  rb_get :: "'db \<Rightarrow> string \<Rightarrow> StorageError + u8 list option"
  rb_insert :: "'db \<Rightarrow> string \<Rightarrow> u8 list \<Rightarrow> StorageError + 'db"
  rb_commit :: "'db \<Rightarrow> 'db \<Rightarrow> CommitError + 'db"  \<comment> \<open>published copy, working copy\<close>

definition begin_table :: "'db redb \<Rightarrow> 'db \<Rightarrow> TransactionError option \<Rightarrow> StoreError + unit" where
  "begin_table rb db begin =
     (case begin of
        Some e \<Rightarrow> Inl (map_transaction_error e)
      | None \<Rightarrow>
          (case rb_open_table rb db of Some e \<Rightarrow> Inl (map_table_error e) | None \<Rightarrow> Inr ()))"

definition publish :: "'db redb \<Rightarrow> 'db \<Rightarrow> string \<Rightarrow> u8 list \<Rightarrow> 'a \<Rightarrow> 'db \<times> (StoreError + 'a)" where
  "publish rb db key encoded result =
     (case rb_insert rb db key encoded of
        Inl e \<Rightarrow> (db, Inl (map_storage_error e))
      | Inr working \<Rightarrow>
          (case rb_commit rb db working of
             Inl e \<Rightarrow> (db, Inl (map_commit_error e))
           | Inr db' \<Rightarrow> (db', Inr result)))"

definition file_create_run :: "postcard \<Rightarrow> 'db redb \<Rightarrow> 'db \<Rightarrow> RunId \<Rightarrow>
    'db \<times> (StoreError + StoreRevision)" where
  "file_create_run pc rb db run_id =
     (case open_existing_database (rb_open rb db) of
        Inl e \<Rightarrow> (db, Inl e)
      | Inr _ \<Rightarrow>
          (case encode_state pc (DurableRunState_new run_id) of
             Inl e \<Rightarrow> (db, Inl e)
           | Inr encoded \<Rightarrow>
               (case begin_table rb db (rb_begin_write rb db) of
                  Inl e \<Rightarrow> (db, Inl e)
                | Inr _ \<Rightarrow>
                    (case rb_get rb db (RunId_as_str run_id) of
                       Inl e \<Rightarrow> (db, Inl (map_storage_error e))
                     | Inr (Some _) \<Rightarrow> (db, Inl (RunAlreadyExists run_id))
                     | Inr None \<Rightarrow>
                         publish rb db (RunId_as_str run_id) encoded StoreRevision_INITIAL))))"

text \<open>The row of a run, decoded and matched with its key; shared by load and commit.\<close>

definition read_row :: "postcard \<Rightarrow> 'db redb \<Rightarrow> 'db \<Rightarrow> RunId \<Rightarrow> StoreError + DurableRunState" where
  "read_row pc rb db run_id =
     (case rb_get rb db (RunId_as_str run_id) of
        Inl e \<Rightarrow> Inl (map_storage_error e)
      | Inr None \<Rightarrow> Inl (RunNotFound run_id)
      | Inr (Some encoded) \<Rightarrow>
          (case decode_state pc encoded of
             Inl e \<Rightarrow> Inl e
           | Inr s \<Rightarrow>
               if ds_run_id s \<noteq> run_id then Inl (DataCorruption (RowKeyMismatch run_id (ds_run_id s)))
               else Inr s))"

definition file_load_run :: "postcard \<Rightarrow> 'db redb \<Rightarrow> 'db \<Rightarrow> RunId \<Rightarrow> StoreError + DurableRunState" where
  "file_load_run pc rb db run_id =
     (case open_existing_database (rb_open rb db) of
        Inl e \<Rightarrow> Inl e
      | Inr _ \<Rightarrow>
          (case begin_table rb db (rb_begin_read rb db) of
             Inl e \<Rightarrow> Inl e
           | Inr _ \<Rightarrow> read_row pc rb db run_id))"

definition file_commit :: "postcard \<Rightarrow> 'db redb \<Rightarrow> 'db \<Rightarrow> CommitRequest \<Rightarrow>
    'db \<times> (StoreError + CommitResult)" where
  "file_commit pc rb db request =
     (if rq_mutations request = [] then (db, Inl EmptyCommit)
      else
        (case open_existing_database (rb_open rb db) of
           Inl e \<Rightarrow> (db, Inl e)
         | Inr _ \<Rightarrow>
             (case begin_table rb db (rb_begin_write rb db) of
                Inl e \<Rightarrow> (db, Inl e)
              | Inr _ \<Rightarrow>
                  (case read_row pc rb db (rq_run_id request) of
                     Inl e \<Rightarrow> (db, Inl e)
                   | Inr s \<Rightarrow>
                       (case fmlookup (ds_idempotency s) (rq_idempotency_key request) of
                          Some (existing, _) \<Rightarrow>
                            if existing = rq_mutations request then
                              (db, Inr \<lparr>cm_revision = ds_revision s, cm_replayed = True\<rparr>)
                            else (db, Inl (IdempotencyConflict (rq_idempotency_key request)))
                        | None \<Rightarrow>
                            if rq_expected_revision request \<noteq> ds_revision s then
                              (db, Inl (StoreRevisionConflict (rq_expected_revision request)
                                          (ds_revision s)))
                            else
                              (case StoreRevision_checked_next (ds_revision s) of
                                 None \<Rightarrow> (db, Inl (StoreRevisionExhausted (ds_revision s)))
                               | Some revision \<Rightarrow>
                                   (case apply_durable_mutations s (rq_mutations request) of
                                      Inl e \<Rightarrow> (db, Inl e)
                                    | Inr candidate \<Rightarrow>
                                        (case encode_state pc
                                                (record_commit (pc_binding pc)
                                                   (candidate\<lparr>ds_revision := revision\<rparr>)
                                                   (rq_idempotency_key request)
                                                   (rq_mutations request) revision) of
                                           Inl e \<Rightarrow> (db, Inl e)
                                         | Inr encoded \<Rightarrow>
                                             publish rb db (RunId_as_str (rq_run_id request)) encoded
                                               \<lparr>cm_revision = revision, cm_replayed = False\<rparr>))))))))"

end
