(* ===== verification/Physical_Refinement.thy ===== *)
theory Physical_Refinement
  imports Physical_Store
begin

text \<open>
  The file store keeps the contract of a durable store: its encoding round-trips, a decoded
  state is consistent whatever the bytes were, and the store over any database that keeps
  the laws of \<open>redb_laws\<close> satisfies the locale \<open>durable_store\<close>.
\<close>

section \<open>The laws of the packages\<close>

text \<open>Snapshots that values of the Rust types can form.\<close>

definition valid_snapshot :: "PersistedRunSnapshot \<Rightarrow> bool" where
  "valid_snapshot p \<longleftrightarrow>
     valid_run (ps_run_id p) \<and>
     list_all (\<lambda>e. valid_batch (le_idempotency_key e) (le_mutations e)) (ps_commit_ledger p)"

text \<open>Reading the bytes of a value returns the value and leaves the bytes that follow.\<close>

definition postcard_roundtrip :: "postcard \<Rightarrow> bool" where
  "postcard_roundtrip pc \<longleftrightarrow>
     (\<forall>p bytes rest. valid_snapshot p \<longrightarrow> pc_to_allocvec pc p = Inr bytes \<longrightarrow>
        pc_take_from_bytes pc (bytes @ rest) = Inr (p, rest))"

text \<open>\<open>view\<close> is the content of the table in a copy of the database.\<close>

definition redb_laws :: "'db redb \<Rightarrow> ('db \<Rightarrow> string \<Rightarrow> u8 list option) \<Rightarrow> bool" where
  "redb_laws rb view \<longleftrightarrow>
     (\<forall>db key v. rb_get rb db key = Inr v \<longrightarrow> v = view db key) \<and>
     (\<forall>db key bytes db'. rb_insert rb db key bytes = Inr db' \<longrightarrow>
        view db' = (view db)(key \<mapsto> bytes)) \<and>
     (\<forall>db working db'. rb_commit rb db working = Inr db' \<longrightarrow> view db' = view working)"

section \<open>Replayed states\<close>

definition replay_inv :: "RunId \<Rightarrow> DurableRunState \<times> u64 \<Rightarrow> bool" where
  "replay_inv run_id st \<longleftrightarrow>
     lineage (fst st) \<and> texts_ok (fst st) \<and> ds_run_id (fst st) = run_id"

lemma apply_durable_mutations_texts:
  assumes "texts_ok s" and "apply_durable_mutations s mutations = Inr s'"
  shows "texts_ok s'"
  using assms(2) unfolding apply_durable_mutations_def
  by (rule try_fold_invariant [where P = texts_ok, rotated 2])
    (auto simp: assms(1) intro: apply_durable_mutation_texts)

lemma lineage_update_index [simp]:
  "lineage (s\<lparr>ds_idempotency := m\<rparr>) = lineage s"
  "lineage (s\<lparr>ds_revision := r, ds_commit_ledger := l\<rparr>) = lineage s"
  using lineage_with_ledger [of "ds_revision s" "ds_commit_ledger s" m s]
    lineage_with_ledger [of r l "ds_idempotency s" s]
  by (simp_all add: with_ledger_def)

lemma replay_ledger_step_cases:
  assumes "replay_ledger_step enc (s, n) entry = Inr (s', n')"
  obtains applied where
    "\<not> trim_is_empty (idempotency_key_str (le_idempotency_key entry))"
    "apply_durable_mutations (s\<lparr>ds_idempotency := fmupd (le_idempotency_key entry)
        (le_mutations entry, le_revision entry) (ds_idempotency s)\<rparr>) (le_mutations entry) = Inr applied"
    "s' = applied\<lparr>ds_revision := le_revision entry,
        ds_commit_ledger := ds_commit_ledger applied @ [entry]\<rparr>"
  using assms
  by (auto simp: replay_ledger_step_def Let_def split: if_splits sum.splits option.splits)

lemma replay_ledger_step_inv:
  assumes "replay_inv run_id st" and "replay_ledger_step enc st entry = Inr st'"
  shows "replay_inv run_id st'"
proof -
  obtain s n s' n' where st: "st = (s, n)" "st' = (s', n')" by (cases st; cases st')
  from assms(2) show ?thesis
    unfolding st
  proof (cases rule: replay_ledger_step_cases)
    case (1 applied)
    let ?s = "s\<lparr>ds_idempotency := fmupd (le_idempotency_key entry)
        (le_mutations entry, le_revision entry) (ds_idempotency s)\<rparr>"
    have "lineage ?s" "texts_ok ?s" "ds_run_id ?s = run_id"
      using assms(1) 1(1) by (auto simp: replay_inv_def st texts_ok_def)
    then have "lineage applied" "texts_ok applied" "ds_run_id applied = run_id"
      using apply_durable_mutations_lineage [OF _ 1(2)] apply_durable_mutations_texts [OF _ 1(2)]
        apply_durable_mutations_ledger [OF 1(2)] by simp_all
    then show "replay_inv run_id (s', n')" using 1(3) by (simp add: replay_inv_def texts_ok_def)
  qed
qed

lemma replay_ledger_fold:
  assumes "try_fold (replay_ledger_step enc) (s, n) entries = Inr (s', n')"
  shows "ds_commit_ledger s' = ds_commit_ledger s @ entries"
  using assms
proof (induction entries arbitrary: s n)
  case Nil
  then show ?case by simp
next
  case (Cons entry entries)
  then obtain t m where step: "replay_ledger_step enc (s, n) entry = Inr (t, m)"
    and rest: "try_fold (replay_ledger_step enc) (t, m) entries = Inr (s', n')"
    by (auto split: sum.splits)
  from step have "ds_commit_ledger t = ds_commit_ledger s @ [entry]"
    by (cases rule: replay_ledger_step_cases) (auto dest: apply_durable_mutations_ledger)
  with Cons.IH [OF rest] show ?case by simp
qed

lemma replay_commit_ledger_facts:
  assumes "replay_commit_ledger enc run_id entries = Inr s"
  shows "lineage s \<and> texts_ok s \<and> ds_run_id s = run_id \<and> ds_commit_ledger s = entries"
proof -
  obtain n where fold: "try_fold (replay_ledger_step enc)
      (DurableRunState_new run_id, store_revision_get StoreRevision_INITIAL + 1) entries = Inr (s, n)"
    using assms by (auto simp: replay_commit_ledger_def split: sum.splits if_splits)
  have "replay_inv run_id (s, n)"
    using fold
  proof (rule try_fold_invariant [where P = "replay_inv run_id", rotated 2])
    show "replay_inv run_id (DurableRunState_new run_id, store_revision_get StoreRevision_INITIAL + 1)"
      using lineage_new [of run_id]
      by (simp add: replay_inv_def texts_ok_def DurableRunState_new_def)
  qed (rule replay_ledger_step_inv)
  moreover have "ds_commit_ledger s = entries"
    using replay_ledger_fold [OF fold] by (simp add: DurableRunState_new_def)
  ultimately show ?thesis by (simp add: replay_inv_def)
qed

text \<open>A state that passes validation is the replay of its ledger.\<close>

lemma validated_replays:
  assumes "validate_persisted enc s = Inr ()"
  shows "replay_commit_ledger enc (ds_run_id s) (ds_commit_ledger s) = Inr s"
proof -
  obtain t where t: "replay_commit_ledger enc (ds_run_id s) (ds_commit_ledger s) = Inr t"
    and same: "same_durable_facts t s"
    using assms by (auto simp: validate_persisted_def split: if_splits sum.splits)
  have "t = s"
    using same replay_commit_ledger_facts [OF t]
    by (intro DurableRunState.equality) (auto simp: same_durable_facts_def)
  with t show ?thesis by simp
qed

lemma replayed_validates:
  assumes "replay_commit_ledger enc run_id entries = Inr s"
  shows "validate_persisted enc s = Inr ()"
  using replay_commit_ledger_facts [OF assms] assms
  by (auto simp: validate_persisted_def texts_ok_def same_durable_facts_def list_ex_iff
      split: option.splits)

section \<open>The encoding\<close>

lemma encode_state_Inr:
  assumes "encode_state pc s = Inr bytes"
  obtains payload where "validate_persisted (pc_binding pc) s = Inr ()"
    "pc_to_allocvec pc \<lparr>ps_run_id = ds_run_id s, ps_commit_ledger = ds_commit_ledger s\<rparr> = Inr payload"
    "bytes = FORMAT_MAGIC @ u16_to_le_bytes FORMAT_VERSION @ u64_to_le_bytes (checksum payload) @ payload"
  using assms by (auto simp: encode_state_def persisted_snapshot_def split: sum.splits)

lemma decode_state_framed:
  "decode_state pc (FORMAT_MAGIC @ u16_to_le_bytes FORMAT_VERSION @ u64_to_le_bytes digest @ payload) =
     (if digest \<noteq> checksum payload then Inl (DataCorruption ChecksumMismatch)
      else case pc_take_from_bytes pc payload of
             Inl e \<Rightarrow> Inl (DataCorruption (PayloadInvalid e))
           | Inr (snapshot, remainder) \<Rightarrow>
               if remainder \<noteq> [] then Inl (DataCorruption TrailingBytes)
               else from_persisted_snapshot (pc_binding pc) snapshot)"
proof -
  let ?v = "u16_to_le_bytes FORMAT_VERSION"
  have v: "length ?v = 2" "u16_from_le_bytes (?v ! 0) (?v ! 1) = FORMAT_VERSION"
    using u16_le_roundtrip [of FORMAT_VERSION] by (simp_all add: u16_to_le_bytes_def)
  have header: "drop header_len (FORMAT_MAGIC @ ?v @ u64_to_le_bytes digest @ payload) = payload"
    by (simp add: header_len_def CHECKSUM_LEN_def v(1))
  have "take CHECKSUM_LEN (drop (length FORMAT_MAGIC + 2)
      (FORMAT_MAGIC @ ?v @ u64_to_le_bytes digest @ payload)) = u64_to_le_bytes digest"
    by (simp add: CHECKSUM_LEN_def v(1))
  then show ?thesis
    using v by (simp add: decode_state_def header Let_def header_len_def CHECKSUM_LEN_def nth_append)
qed

lemma encode_decode:
  assumes "postcard_roundtrip pc" and "encode_state pc s = Inr bytes"
    and "valid_snapshot \<lparr>ps_run_id = ds_run_id s, ps_commit_ledger = ds_commit_ledger s\<rparr>"
  shows "decode_state pc bytes = Inr s"
  using assms(2)
proof (cases rule: encode_state_Inr)
  case (1 payload)
  have "pc_take_from_bytes pc (payload @ []) =
      Inr (\<lparr>ps_run_id = ds_run_id s, ps_commit_ledger = ds_commit_ledger s\<rparr>, [])"
    using assms(1,3) 1(2) unfolding postcard_roundtrip_def by blast
  then show ?thesis
    using validated_replays [OF 1(1)]
    by (simp add: 1(3) decode_state_framed from_persisted_snapshot_def)
qed

lemma durable_reachable_snapshot:
  "durable_reachable enc s \<Longrightarrow>
     valid_snapshot \<lparr>ps_run_id = ds_run_id s, ps_commit_ledger = ds_commit_ledger s\<rparr>"
proof (induction rule: durable_reachable.induct)
  case (create run_id)
  then show ?case by (simp add: valid_snapshot_def DurableRunState_new_def)
next
  case (commit s request s' result)
  from commit(3) show ?case
  proof (cases rule: commit_state_cases)
    case replayed
    then show ?thesis using commit.IH by simp
  next
    case (fresh revision candidate)
    then show ?thesis
      using commit.IH commit(2) apply_durable_mutations_ledger [OF fresh(5)]
      by (simp add: valid_snapshot_def record_commit_def valid_request_def)
  qed
qed

section \<open>The store\<close>

definition file_runs :: "postcard \<Rightarrow> ('db \<Rightarrow> string \<Rightarrow> u8 list option) \<Rightarrow> 'db \<Rightarrow> RunId \<Rightarrow>
    DurableRunState option" where
  "file_runs pc view db r =
     (case view db (RunId_as_str r) of
        None \<Rightarrow> None
      | Some bytes \<Rightarrow> (case decode_state pc bytes of Inl _ \<Rightarrow> None | Inr s \<Rightarrow> Some s))"

definition file_ok :: "postcard \<Rightarrow> ('db \<Rightarrow> string \<Rightarrow> u8 list option) \<Rightarrow> 'db \<Rightarrow> bool" where
  "file_ok pc view db \<longleftrightarrow>
     (\<forall>r bytes. view db (RunId_as_str r) = Some bytes \<longrightarrow>
        (\<exists>s. decode_state pc bytes = Inr s \<and> durable_reachable (pc_binding pc) s \<and> ds_run_id s = r))"

lemma publish_cases:
  assumes "redb_laws rb view"
  shows "(\<exists>e. publish rb db key bytes result = (db, Inl e)) \<or>
         (\<exists>db'. publish rb db key bytes result = (db', Inr result) \<and>
                view db' = (view db)(key \<mapsto> bytes))"
  using assms by (auto simp: publish_def redb_laws_def split: sum.splits)

lemma file_publish:
  assumes "redb_laws rb view" and "postcard_roundtrip pc" and "file_ok pc view db"
    and "encode_state pc s = Inr bytes" and "durable_reachable (pc_binding pc) s"
    and "ds_run_id s = r"
    and "publish rb db (RunId_as_str r) bytes result = (db', Inr result')"
  shows "result' = result \<and> file_ok pc view db' \<and>
         file_runs pc view db' = (file_runs pc view db)(r \<mapsto> s)"
proof -
  have view: "view db' = (view db)(RunId_as_str r \<mapsto> bytes)" and "result' = result"
    using publish_cases [OF assms(1), of db "RunId_as_str r" bytes result] assms(7) by auto
  moreover have "decode_state pc bytes = Inr s"
    using encode_decode [OF assms(2,4) durable_reachable_snapshot [OF assms(5)]] .
  ultimately show ?thesis
    using assms(3,5,6)
    by (auto simp: file_ok_def file_runs_def RunId_as_str_inj fun_eq_iff)
qed

lemma read_row_runs:
  assumes "redb_laws rb view" and "read_row pc rb db r = Inr s"
  shows "file_runs pc view db r = Some s"
  using assms by (auto simp: read_row_def file_runs_def redb_laws_def
      split: sum.splits option.splits if_splits)

lemma file_commit_state:
  "file_commit pc rb db request =
     (if rq_mutations request = [] then (db, Inl EmptyCommit)
      else case open_existing_database (rb_open rb db) of
        Inl e \<Rightarrow> (db, Inl e)
      | Inr _ \<Rightarrow>
         (case begin_table rb db (rb_begin_write rb db) of
            Inl e \<Rightarrow> (db, Inl e)
          | Inr _ \<Rightarrow>
             (case read_row pc rb db (rq_run_id request) of
                Inl e \<Rightarrow> (db, Inl e)
              | Inr s \<Rightarrow>
                 (case commit_state (pc_binding pc) s request of
                    Inl e \<Rightarrow> (db, Inl e)
                  | Inr (s', result) \<Rightarrow>
                      if cm_replayed result then (db, Inr result)
                      else (case encode_state pc s' of
                              Inl e \<Rightarrow> (db, Inl e)
                            | Inr encoded \<Rightarrow>
                                publish rb db (RunId_as_str (rq_run_id request)) encoded result)))))"
  unfolding file_commit_def commit_state_def record_commit_def
  by (auto split: option.splits sum.splits)

lemma file_commit_Inr:
  assumes "file_commit pc rb db q = (db', Inr result)"
  obtains s s' where "read_row pc rb db (rq_run_id q) = Inr s"
    "commit_state (pc_binding pc) s q = Inr (s', result)" "cm_replayed result" "db' = db"
  | s s' bytes result' where "read_row pc rb db (rq_run_id q) = Inr s"
    "commit_state (pc_binding pc) s q = Inr (s', result')" "\<not> cm_replayed result'"
    "encode_state pc s' = Inr bytes"
    "publish rb db (RunId_as_str (rq_run_id q)) bytes result' = (db', Inr result)"
  using assms unfolding file_commit_state
  by (auto split: if_splits sum.splits prod.splits)

lemma publish_error: "publish rb db key bytes result = (db', Inl e) \<Longrightarrow> db' = db"
  by (auto simp: publish_def split: sum.splits)

lemma file_commit_error: "file_commit pc rb db q = (db', Inl e) \<Longrightarrow> db' = db"
  unfolding file_commit_state by (auto split: if_splits sum.splits dest: publish_error)

lemma file_create_error: "file_create_run pc rb db r = (db', Inl e) \<Longrightarrow> db' = db"
  unfolding file_create_run_def by (auto split: sum.splits option.splits dest: publish_error)

lemma file_durable_store:
  assumes pc: "postcard_roundtrip pc" and rb: "redb_laws rb view"
  shows "durable_store (pc_binding pc) (file_create_run pc rb) (file_load_run pc rb)
           (file_commit pc rb) (file_ok pc view) (file_runs pc view)"
proof (unfold_locales, goal_cases)
  case (1 db r s)
  then show ?case by (fastforce simp: file_ok_def file_runs_def split: option.splits sum.splits)
next
  case (2 db r s)
  then have "read_row pc rb db r = Inr s" by (auto simp: file_load_run_def split: sum.splits)
  then show ?case by (rule read_row_runs [OF rb])
next
  case (3 db r db' revision)
  then obtain bytes where enc: "encode_state pc (DurableRunState_new r) = Inr bytes"
    and get: "rb_get rb db (RunId_as_str r) = Inr None"
    and pub: "publish rb db (RunId_as_str r) bytes StoreRevision_INITIAL = (db', Inr revision)"
    by (auto simp: file_create_run_def split: sum.splits option.splits)
  have "file_runs pc view db r = None"
    using rb get by (auto simp: redb_laws_def file_runs_def)
  then show ?case
    using file_publish [OF rb pc 3(1) enc durable_reachable.create [OF 3(2)] _ pub]
    by (simp add: DurableRunState_new_def)
next
  case (4 db r db' e)
  then have "db' = db" using file_create_error by metis
  with 4 show ?case by simp
next
  case (5 db q db' result)
  from 5(3) show ?case
  proof (cases rule: file_commit_Inr)
    case (1 s s')
    then have "s' = s" "file_runs pc view db (rq_run_id q) = Some s"
      using commit_state_replayed read_row_runs [OF rb] by blast+
    with 1 5(1) show ?thesis by (auto simp: map_upd_triv)
  next
    case (2 s s' bytes result')
    have run: "file_runs pc view db (rq_run_id q) = Some s" using read_row_runs [OF rb 2(1)] .
    then have "durable_reachable (pc_binding pc) s" "ds_run_id s = rq_run_id q"
      using 5(1) by (fastforce simp: file_ok_def file_runs_def split: option.splits sum.splits)+
    then have "durable_reachable (pc_binding pc) s'" "ds_run_id s' = rq_run_id q"
      using 2(2) 5(2) commit_state_run_id [OF 2(2)] by (auto intro: durable_reachable.commit)
    then show ?thesis
      using file_publish [OF rb pc 5(1) 2(4) _ _ 2(5)] run 2(2) by auto
  qed
next
  case (6 db q db' e)
  then have "db' = db" using file_commit_error by metis
  with 6 show ?case by simp
qed

end
