(* ===== verification/Physical_Properties.thy ===== *)
theory Physical_Properties
  imports Physical_Refinement Recovery_Properties
begin

text \<open>
  The properties of the file store. The instances use a database that is a finite map and
  an encoder that numbers a table of known snapshots.
\<close>

section \<open>Instances of the packages\<close>

definition table_postcard :: "PersistedRunSnapshot list \<Rightarrow> postcard" where
  "table_postcard table =
     \<lparr>pc_binding = demo_enc,
      pc_to_allocvec = (\<lambda>p.
        case position (\<lambda>x. x = p) table of
          Some i \<Rightarrow> if i < 256 then Inr [of_nat i] else Inl ''too many''
        | None \<Rightarrow> Inl ''unknown''),
      pc_take_from_bytes = (\<lambda>bytes.
        case bytes of
          [] \<Rightarrow> Inl ''end of input''
        | b # rest \<Rightarrow> if unat b < length table then Inr (table ! unat b, rest) else Inl ''unknown'')\<rparr>"

lemma table_postcard_roundtrip: "postcard_roundtrip (table_postcard table)"
  unfolding postcard_roundtrip_def
proof (intro allI impI)
  fix p bytes rest
  assume "pc_to_allocvec (table_postcard table) p = Inr bytes"
  then obtain i where i: "position (\<lambda>x. x = p) table = Some i" "i < 256" "bytes = [of_nat i]"
    by (auto simp: table_postcard_def split: option.splits if_splits)
  moreover have "unat (of_nat i :: u8) = i" using i(2) by (simp add: unat_of_nat)
  ultimately show "pc_take_from_bytes (table_postcard table) (bytes @ rest) = Inr (p, rest)"
    using position_Some_less [OF i(1)] by (simp add: table_postcard_def)
qed

definition map_redb :: "(string, u8 list) fmap redb" where
  "map_redb =
     \<lparr>rb_open = (\<lambda>_ _. Opened),
      rb_begin_read = (\<lambda>_. None),
      rb_begin_write = (\<lambda>_. None),
      rb_open_table = (\<lambda>_. None),
      rb_get = (\<lambda>db key. Inr (fmlookup db key)),
      rb_insert = (\<lambda>db key bytes. Inr (fmupd key bytes db)),
      rb_commit = (\<lambda>_ working. Inr working)\<rparr>"

lemma map_redb_laws: "redb_laws map_redb fmlookup"
  by (simp add: redb_laws_def map_redb_def fun_upd_def fun_eq_iff)

definition demo_snapshot :: "CommitRequest list \<Rightarrow> PersistedRunSnapshot" where
  "demo_snapshot qs = \<lparr>ps_run_id = demo_run, ps_commit_ledger = ds_commit_ledger (demo_state qs)\<rparr>"

definition demo_postcard :: postcard where
  "demo_postcard = table_postcard
     [demo_snapshot [], demo_snapshot [demo_prepare], demo_snapshot [demo_prepare, demo_dispatch]]"

lemma demo_postcard_binding [simp]: "pc_binding demo_postcard = demo_enc"
  by (simp add: demo_postcard_def table_postcard_def)

lemma demo_postcard_roundtrip: "postcard_roundtrip demo_postcard"
  unfolding demo_postcard_def by (rule table_postcard_roundtrip)

definition demo_file :: "(string, u8 list) fmap" where
  "demo_file = fst (file_create_run demo_postcard map_redb fmempty demo_run)"

interpretation demo_files: durable_store demo_enc "file_create_run demo_postcard map_redb"
    "file_load_run demo_postcard map_redb" "file_commit demo_postcard map_redb"
    "file_ok demo_postcard fmlookup" "file_runs demo_postcard fmlookup"
  using file_durable_store [OF demo_postcard_roundtrip map_redb_laws] by simp

lemma demo_file_ok: "file_ok demo_postcard fmlookup demo_file"
  unfolding demo_file_def
  by (rule demo_files.create_store_ok) (simp_all add: file_ok_def demo_run_valid)

section \<open>Encoding\<close>

text \<open>
  C30: The file format round-trips. A reachable run state below the last revision whose
  snapshot the serializer accepts is encoded, and decoding the bytes returns exactly that
  state.
\<close>
theorem encode_decode_roundtrip:
  assumes "postcard_roundtrip pc" and "durable_reachable (pc_binding pc) s"
    and "ds_revision s \<noteq> StoreRevision u64_max"
    and "pc_to_allocvec pc \<lparr>ps_run_id = ds_run_id s, ps_commit_ledger = ds_commit_ledger s\<rparr> = Inr payload"
  shows "\<exists>bytes. encode_state pc s = Inr bytes \<and> decode_state pc bytes = Inr s
           \<and> length bytes = 30 + length payload"
proof -
  let ?bytes = "FORMAT_MAGIC @ u16_to_le_bytes FORMAT_VERSION
      @ u64_to_le_bytes (checksum payload) @ payload"
  have enc: "encode_state pc s = Inr ?bytes"
    using durable_reachable_validates [OF assms(2,3)] assms(4)
    by (simp add: encode_state_def persisted_snapshot_def)
  moreover have "decode_state pc ?bytes = Inr s"
    using encode_decode [OF assms(1) enc durable_reachable_snapshot [OF assms(2)]] .
  moreover have "length ?bytes = 30 + length payload"
    by (simp add: FORMAT_MAGIC_def u16_to_le_bytes_def)
  ultimately show ?thesis by blast
qed

theorem encode_decode_roundtrip_witness:
  "let s = demo_state [demo_prepare]
   in \<exists>bytes. encode_state demo_postcard s = Inr bytes \<and> decode_state demo_postcard bytes = Inr s"
proof -
  let ?s = "demo_state [demo_prepare]"
  note law = demo_postcard_roundtrip
  have reach: "durable_reachable (pc_binding demo_postcard) ?s"
    using demo_requests_valid demo_state_reachable [of "[demo_prepare]"] by simp
  have rev: "ds_revision ?s = StoreRevision 1"
    and payload: "pc_to_allocvec demo_postcard
      \<lparr>ps_run_id = ds_run_id ?s, ps_commit_ledger = ds_commit_ledger ?s\<rparr> = Inr [1]"
    by code_simp+
  from rev have below: "ds_revision ?s \<noteq> StoreRevision u64_max" by (simp add: u64_max_def)
  show ?thesis
    unfolding Let_def using encode_decode_roundtrip [OF law reach below payload] by blast
qed

text \<open>
  Decoding is fail-closed. Whatever the bytes are and however the deserializer
  behaves, decoding returns a state only if the bytes carry the magic, version 5 and a
  checksum that matches the payload, and the state has a consistent lineage, passes
  validation and is the replay of its own ledger.
\<close>
theorem decode_fails_closed:
  assumes "decode_state pc bytes = Inr s"
  shows "take 20 bytes = map of_char ''KERNIS-DURABLE-STATE''
       \<and> u16_from_le_bytes (bytes ! 20) (bytes ! 21) = 5
       \<and> u64_from_le_bytes (take 8 (drop 22 bytes)) = checksum (drop 30 bytes)
       \<and> lineage s
       \<and> validate_persisted (pc_binding pc) s = Inr ()
       \<and> replay_commit_ledger (pc_binding pc) (ds_run_id s) (ds_commit_ledger s) = Inr s"
proof -
  have len: "length FORMAT_MAGIC = 20" by (simp add: FORMAT_MAGIC_def)
  obtain p where replay: "from_persisted_snapshot (pc_binding pc) p = Inr s"
    and frame: "take 20 bytes = FORMAT_MAGIC"
      "u16_from_le_bytes (bytes ! 20) (bytes ! 21) = FORMAT_VERSION"
      "u64_from_le_bytes (take 8 (drop 22 bytes)) = checksum (drop 30 bytes)"
    using assms len
    by (auto simp: decode_state_def Let_def header_len_def CHECKSUM_LEN_def
        split: if_splits sum.splits prod.splits)
  have r: "replay_commit_ledger (pc_binding pc) (ps_run_id p) (ps_commit_ledger p) = Inr s"
    using replay by (simp add: from_persisted_snapshot_def)
  show ?thesis
    using frame replay_commit_ledger_facts [OF r] replayed_validates [OF r] r
    by (simp add: FORMAT_MAGIC_def FORMAT_VERSION_def)
qed

theorem decode_fails_closed_witness:
  "let bytes = projr (encode_state demo_postcard (demo_state [demo_prepare]))
   in take 20 bytes = map of_char ''KERNIS-DURABLE-STATE'' \<and>
      decode_state demo_postcard (bytes @ [0]) = Inl (DataCorruption ChecksumMismatch)"
proof -
  let ?bytes = "projr (encode_state demo_postcard (demo_state [demo_prepare]))"
  have ok: "decode_state demo_postcard ?bytes = Inr (demo_state [demo_prepare])"
    and bad: "decode_state demo_postcard (?bytes @ [0]) = Inl (DataCorruption ChecksumMismatch)"
    by code_simp+
  show ?thesis unfolding Let_def using decode_fails_closed [OF ok] bad by blast
qed

section \<open>The store\<close>





text \<open>
  A client of the file store may retry. After an accepted commit, a second success of
  the same request is a replay at the same revision that changes no run, and of two requests
  prepared against the same revision under different keys at most one is applied.
\<close>
theorem file_commit_retry_and_cas:
  assumes "postcard_roundtrip pc" and "redb_laws rb view"
    and "file_ok pc view db" and "valid_request q" and "valid_request q'"
    and "file_commit pc rb db q = (db', Inr result)"
    and "file_commit pc rb db' q' = (db'', Inr result')"
  shows "(q' = q \<longrightarrow> cm_replayed result' \<and> cm_revision result' = cm_revision result
            \<and> file_runs pc view db'' = file_runs pc view db')
       \<and> (rq_run_id q' = rq_run_id q \<and> rq_expected_revision q' = rq_expected_revision q
            \<and> \<not> cm_replayed result \<longrightarrow> cm_replayed result')"
  using durable_store.retry_is_replay [OF file_durable_store [OF assms(1,2)] assms(3,4,6)]
    durable_store.compare_and_swap [OF file_durable_store [OF assms(1,2)] assms(3-5) _ _ assms(6) _ assms(7)]
    assms(7) by blast

theorem file_commit_retry_and_cas_witness:
  "let c = file_commit demo_postcard map_redb demo_file demo_prepare
   in cm_replayed (projr (snd (file_commit demo_postcard map_redb (fst c) demo_prepare)))"
proof -
  let ?c = "file_commit demo_postcard map_redb demo_file demo_prepare"
  let ?d = "file_commit demo_postcard map_redb (fst ?c) demo_prepare"
  have "snd ?c = Inr (projr (snd ?c))" and "snd ?d = Inr (projr (snd ?d))" by code_simp+
  then have c: "?c = (fst ?c, Inr (projr (snd ?c)))" and d: "?d = (fst ?d, Inr (projr (snd ?d)))"
    by (metis prod.collapse)+
  have valid: "valid_request demo_prepare" using demo_requests_valid by simp
  show ?thesis
    unfolding Let_def
    using file_commit_retry_and_cas [OF demo_postcard_roundtrip map_redb_laws demo_file_ok valid valid c d]
    by blast
qed

section \<open>Opening\<close>

lemma open_attempts_from:
  assumes "k \<le> DATABASE_OPEN_RETRIES"
  shows "open_attempts answers [k..<Suc DATABASE_OPEN_RETRIES] =
     (case find (\<lambda>a. answers a \<noteq> OpenError DatabaseAlreadyOpen) [k..<Suc DATABASE_OPEN_RETRIES] of
        None \<Rightarrow> Inl BackendUnavailable
      | Some a \<Rightarrow>
          (case answers a of
             Opened \<Rightarrow> Inr ()
           | OpenPanics \<Rightarrow> Inl (DataCorruption BackendPanicked)
           | OpenError e \<Rightarrow> Inl (map_database_error e)))"
  using assms
proof (induction "DATABASE_OPEN_RETRIES - k" arbitrary: k)
  case 0
  then have "k = DATABASE_OPEN_RETRIES" by simp
  then show ?case
    by (cases "answers k") (auto simp: catch_backend_panic_def split: if_splits)
next
  case (Suc m)
  then have less: "k < DATABASE_OPEN_RETRIES" by simp
  then have split: "[k..<Suc DATABASE_OPEN_RETRIES] = k # [Suc k..<Suc DATABASE_OPEN_RETRIES]"
    by (simp add: upt_conv_Cons del: upt_Suc)
  have m: "m = DATABASE_OPEN_RETRIES - Suc k" using Suc.hyps(2) by simp
  have "Suc k \<le> DATABASE_OPEN_RETRIES" using less by simp
  note IH = Suc.hyps(1) [OF m this]
  show ?case
    unfolding split using less IH
    by (cases "answers k") (auto simp: catch_backend_panic_def simp del: upt_Suc)
qed

text \<open>
  Opening an existing database gives up after 41 attempts. Its result is decided by the
  first of these attempts that is not met by another owner of the file: a handle, the
  mapped error, or corruption when the backend panics. It is \<^verbatim>\<open>BackendUnavailable\<close> when
  the file was owned at every attempt.
\<close>
theorem open_existing_database_result:
  "open_existing_database answers =
     (case find (\<lambda>a. answers a \<noteq> OpenError DatabaseAlreadyOpen) [0..<41] of
        None \<Rightarrow> Inl BackendUnavailable
      | Some a \<Rightarrow>
          (case answers a of
             Opened \<Rightarrow> Inr ()
           | OpenPanics \<Rightarrow> Inl (DataCorruption BackendPanicked)
           | OpenError e \<Rightarrow> Inl (map_database_error e)))"
  using open_attempts_from [of 0 answers]
  by (simp only: open_existing_database_def DATABASE_OPEN_RETRIES_def) (simp del: upt_Suc upt_rec_numeral)

lemma open_bootstrap_returns:
  assumes "expired n" and "k \<le> n"
  shows "\<exists>r. open_bootstrap_from answers expired k = Some r"
  using assms
proof (induction "n - k" arbitrary: k)
  case 0
  then have "k = n" by simp
  with assms(1) show ?case
    by (subst open_bootstrap_from.simps) (auto split: sum.splits)
next
  case (Suc m)
  then have "\<exists>r. open_bootstrap_from answers expired (Suc k) = Some r" by simp
  then show ?case by (subst open_bootstrap_from.simps) (auto split: sum.splits)
qed

text \<open>
  C31: Opening a store ends and fails closed. If the clock passes the bootstrap deadline at
  some point, opening returns; and it returns a store only after the directory could be
  created and the table was seen, or was created by this opener in a file it created, or was
  seen within the bounded wait for another opener.
\<close>
theorem store_open_terminates_fail_closed:
  assumes "oe_expired env n"
  shows "\<exists>r. FileDurableStore_open env = Some r \<and>
           (r = Inr () \<longrightarrow>
              oe_create_dir env = None \<and>
              (database_has_table (oe_begin_read env) (oe_table env) = Inr True \<or>
               (\<not> oe_existed env \<and> oe_create env = Opened \<and>
                initialize_table (oe_begin_write env) (oe_new_table env) (oe_commit env) = Inr ()) \<or>
               wait_for_initialized_table (oe_wait_open env) (oe_wait_begin env) (oe_wait_table env)
                 = Inr True))"
proof -
  obtain b where "open_bootstrap_database (oe_bootstrap env) (oe_expired env) = Some b"
    using open_bootstrap_returns [of "oe_expired env" n 0 "oe_bootstrap env"] assms
    by (auto simp: open_bootstrap_database_def)
  then have "\<exists>a. acquire_database env = Some a \<and>
      (a = Inr True \<longrightarrow> \<not> oe_existed env \<and> oe_create env = Opened)"
    by (cases b; cases "oe_create env") (auto simp: acquire_database_def catch_backend_panic_def Let_def)
  then show ?thesis
    by (auto simp: FileDurableStore_open_def split: option.splits sum.splits bool.splits)
qed

theorem store_open_terminates_fail_closed_witness:
  "let env = \<lparr>oe_create_dir = None, oe_existed = True, oe_create = Opened,
        oe_bootstrap = (\<lambda>_. OpenError DatabaseAlreadyOpen), oe_expired = (\<lambda>n. 500 \<le> n),
        oe_begin_read = None, oe_table = None, oe_begin_write = None, oe_new_table = None,
        oe_commit = None, oe_wait_open = (\<lambda>_ _. Opened), oe_wait_begin = (\<lambda>_. None),
        oe_wait_table = (\<lambda>_. None)\<rparr>
   in \<exists>r. FileDurableStore_open env = Some r"
  unfolding Let_def by (rule exE [OF store_open_terminates_fail_closed [of _ 500]]) auto

end
