(* ===== verification/Run_Definition.thy ===== *)
theory Run_Definition
  imports Workflow_Graph Capability_Graph Recovery_Model Canonical_Encoding
begin

text \<open>
  The declarative inputs of \<^verbatim>\<open>runtime-core\<close> (\<^verbatim>\<open>definition.rs\<close>): task and capability
  declarations, the validation of a run definition, its canonical identity and the
  registry of process-local factories. \<^verbatim>\<open>Definition_Validation\<close> characterises the accepted
  definitions, \<^verbatim>\<open>Definition_Identity\<close> shows that the identity determines the meaning of a
  definition.
\<close>

section \<open>Declarations\<close>

datatype DefinitionIdentity = DefinitionIdentity (identity_str: string)

record CapabilityRequirement =
  cq_capability_id :: Id
  cq_definition_identity :: DefinitionIdentity

record CapabilityDeclaration =
  cl_id :: Id
  cl_kind :: string
  cl_definition_identity :: DefinitionIdentity
  cl_dependencies :: "CapabilityRequirement list"

record EffectSpec =
  es_operation_id :: OperationId
  es_semantics :: EffectSemantics

record TaskDefinition =
  td_id :: Id
  td_label :: string
  td_dependencies :: "Id list"
  td_required_capabilities :: "CapabilityRequirement list"
  td_effect :: "EffectSpec option"

record RunDefinition =
  rn_tasks :: "TaskDefinition list"
  rn_capabilities :: "CapabilityDeclaration list"

datatype DefinitionError =
    DefinitionDuplicateTask Id
  | DuplicateTaskConfiguration Id
  | DuplicateCapability Id
  | DuplicateTaskDependency Id Id  \<comment> \<open>task, dependency\<close>
  | DuplicateCapabilityDependency Id Id  \<comment> \<open>capability, dependency\<close>
  | DuplicateCapabilityRequirement Id Id  \<comment> \<open>task, capability\<close>
  | DefinitionUnknownTask Id
  | CapabilityIdentityMismatch Id DefinitionIdentity DefinitionIdentity
      \<comment> \<open>capability, expected, actual\<close>
  | DuplicateOperation OperationId
  | WorkflowRejected WorkflowGraphError
  | CapabilityGraphRejected CapabilityGraphError
  | InvalidDefinition string

definition empty_identity_message :: string where
  "empty_identity_message = ''definition identity must not be empty''"

definition DefinitionIdentity_new :: "string \<Rightarrow> DefinitionError + DefinitionIdentity" where
  "DefinitionIdentity_new value =
     (if trim_is_empty value then Inl (InvalidDefinition empty_identity_message)
      else Inr (DefinitionIdentity value))"

definition DefinitionIdentity_from :: "string \<Rightarrow> DefinitionIdentity" where
  "DefinitionIdentity_from value = DefinitionIdentity value"

definition DefinitionIdentity_deserialize :: "string \<Rightarrow> DefinitionError + DefinitionIdentity" where
  "DefinitionIdentity_deserialize value = DefinitionIdentity_new value"

definition CapabilityRequirement_new :: "Id \<Rightarrow> DefinitionIdentity \<Rightarrow> CapabilityRequirement" where
  "CapabilityRequirement_new capability_id definition_identity =
     \<lparr>cq_capability_id = capability_id, cq_definition_identity = definition_identity\<rparr>"

definition CapabilityDeclaration_new ::
    "Id \<Rightarrow> string \<Rightarrow> DefinitionIdentity \<Rightarrow> CapabilityDeclaration" where
  "CapabilityDeclaration_new i kind definition_identity =
     \<lparr>cl_id = i, cl_kind = kind, cl_definition_identity = definition_identity,
      cl_dependencies = []\<rparr>"

definition declaration_depends_on ::
    "CapabilityDeclaration \<Rightarrow> CapabilityRequirement \<Rightarrow> CapabilityDeclaration" where
  "declaration_depends_on c requirement = c\<lparr>cl_dependencies := cl_dependencies c @ [requirement]\<rparr>"

definition declaration_implicit :: "CapabilityRequirement \<Rightarrow> CapabilityDeclaration" where
  "declaration_implicit requirement =
     CapabilityDeclaration_new (cq_capability_id requirement) ''capability''
       (cq_definition_identity requirement)"

definition TaskDefinition_new :: "Id \<Rightarrow> string \<Rightarrow> TaskDefinition" where
  "TaskDefinition_new i label =
     \<lparr>td_id = i, td_label = label, td_dependencies = [], td_required_capabilities = [],
      td_effect = None\<rparr>"

definition task_depends_on :: "TaskDefinition \<Rightarrow> Id \<Rightarrow> TaskDefinition" where
  "task_depends_on t dependency_id = t\<lparr>td_dependencies := td_dependencies t @ [dependency_id]\<rparr>"

definition task_require_capability ::
    "TaskDefinition \<Rightarrow> CapabilityRequirement \<Rightarrow> TaskDefinition" where
  "task_require_capability t requirement =
     t\<lparr>td_required_capabilities := td_required_capabilities t @ [requirement]\<rparr>"

definition task_with_effect ::
    "TaskDefinition \<Rightarrow> OperationId \<Rightarrow> EffectSemantics \<Rightarrow> TaskDefinition" where
  "task_with_effect t operation_id semantics =
     t\<lparr>td_effect := Some \<lparr>es_operation_id = operation_id, es_semantics = semantics\<rparr>\<rparr>"

definition RunDefinition_new :: RunDefinition where
  "RunDefinition_new = \<lparr>rn_tasks = [], rn_capabilities = []\<rparr>"

definition add_task :: "RunDefinition \<Rightarrow> TaskDefinition \<Rightarrow> RunDefinition" where
  "add_task d t = d\<lparr>rn_tasks := rn_tasks d @ [t]\<rparr>"

definition add_capability :: "RunDefinition \<Rightarrow> CapabilityDeclaration \<Rightarrow> RunDefinition" where
  "add_capability d c = d\<lparr>rn_capabilities := rn_capabilities d @ [c]\<rparr>"

text \<open>The consuming builder methods \<^verbatim>\<open>with_task\<close> and \<^verbatim>\<open>with_capability\<close>.\<close>

definition definition_with_task :: "RunDefinition \<Rightarrow> TaskDefinition \<Rightarrow> RunDefinition" where
  "definition_with_task d t = d\<lparr>rn_tasks := rn_tasks d @ [t]\<rparr>"

definition definition_with_capability ::
    "RunDefinition \<Rightarrow> CapabilityDeclaration \<Rightarrow> RunDefinition" where
  "definition_with_capability d c = d\<lparr>rn_capabilities := rn_capabilities d @ [c]\<rparr>"

section \<open>Validation\<close>

definition unique_tasks_step :: "(Id, TaskDefinition) fmap \<Rightarrow> TaskDefinition \<Rightarrow>
    DefinitionError + (Id, TaskDefinition) fmap" where
  "unique_tasks_step tasks t =
     (if contains_key tasks (td_id t) then Inl (DefinitionDuplicateTask (td_id t))
      else Inr (fmupd (td_id t) t tasks))"

definition unique_tasks :: "TaskDefinition list \<Rightarrow> DefinitionError + (Id, TaskDefinition) fmap" where
  "unique_tasks ts = try_fold unique_tasks_step fmempty ts"

definition unique_capabilities_step :: "(Id, CapabilityDeclaration) fmap \<Rightarrow>
    CapabilityDeclaration \<Rightarrow> DefinitionError + (Id, CapabilityDeclaration) fmap" where
  "unique_capabilities_step capabilities c =
     (if contains_key capabilities (cl_id c) then Inl (DuplicateCapability (cl_id c))
      else Inr (fmupd (cl_id c) c capabilities))"

definition unique_capabilities ::
    "CapabilityDeclaration list \<Rightarrow> DefinitionError + (Id, CapabilityDeclaration) fmap" where
  "unique_capabilities cs = try_fold unique_capabilities_step fmempty cs"

definition validate_identity :: "DefinitionIdentity \<Rightarrow> DefinitionError + unit" where
  "validate_identity identity =
     (if trim_is_empty (identity_str identity) then
        Inl (InvalidDefinition empty_identity_message)
      else Inr ())"

text \<open>The bodies of the two inner loops of \<^verbatim>\<open>validate_tasks\<close>, over the set seen so far.\<close>

definition validate_task_dependency :: "(Id, TaskDefinition) fmap \<Rightarrow> TaskDefinition \<Rightarrow>
    Id fset \<Rightarrow> Id \<Rightarrow> DefinitionError + Id fset" where
  "validate_task_dependency tasks t seen dependency_id =
     (if dependency_id |\<in>| seen then Inl (DuplicateTaskDependency (td_id t) dependency_id)
      else if \<not> contains_key tasks dependency_id then Inl (DefinitionUnknownTask dependency_id)
      else Inr (finsert dependency_id seen))"

definition validate_task_requirement :: "TaskDefinition \<Rightarrow> Id fset \<Rightarrow> CapabilityRequirement \<Rightarrow>
    DefinitionError + Id fset" where
  "validate_task_requirement t seen requirement =
     (case validate_identity (cq_definition_identity requirement) of
        Inl e \<Rightarrow> Inl e
      | Inr _ \<Rightarrow>
          if cq_capability_id requirement |\<in>| seen then
            Inl (DuplicateCapabilityRequirement (td_id t) (cq_capability_id requirement))
          else Inr (finsert (cq_capability_id requirement) seen))"

definition validate_task_effect ::
    "OperationId fset \<Rightarrow> TaskDefinition \<Rightarrow> DefinitionError + OperationId fset" where
  "validate_task_effect operations t =
     (case td_effect t of
        None \<Rightarrow> Inr operations
      | Some effect \<Rightarrow>
          if es_operation_id effect |\<in>| operations then
            Inl (DuplicateOperation (es_operation_id effect))
          else Inr (finsert (es_operation_id effect) operations))"

definition validate_task :: "(Id, TaskDefinition) fmap \<Rightarrow> OperationId fset \<Rightarrow> TaskDefinition \<Rightarrow>
    DefinitionError + OperationId fset" where
  "validate_task tasks operations t =
     (case try_fold (validate_task_dependency tasks t) {||} (td_dependencies t) of
        Inl e \<Rightarrow> Inl e
      | Inr _ \<Rightarrow>
          (case try_fold (validate_task_requirement t) {||} (td_required_capabilities t) of
             Inl e \<Rightarrow> Inl e
           | Inr _ \<Rightarrow> validate_task_effect operations t))"

definition validate_tasks :: "(Id, TaskDefinition) fmap \<Rightarrow> DefinitionError + unit" where
  "validate_tasks tasks =
     (case try_fold (validate_task tasks) {||} (bm_values tasks) of
        Inl e \<Rightarrow> Inl e
      | Inr _ \<Rightarrow> Inr ())"

definition validate_capability_dependency :: "CapabilityDeclaration \<Rightarrow> Id fset \<Rightarrow>
    CapabilityRequirement \<Rightarrow> DefinitionError + Id fset" where
  "validate_capability_dependency c seen requirement =
     (case validate_identity (cq_definition_identity requirement) of
        Inl e \<Rightarrow> Inl e
      | Inr _ \<Rightarrow>
          if cq_capability_id requirement |\<in>| seen then
            Inl (DuplicateCapabilityDependency (cl_id c) (cq_capability_id requirement))
          else Inr (finsert (cq_capability_id requirement) seen))"

definition validate_capability :: "unit \<Rightarrow> CapabilityDeclaration \<Rightarrow> DefinitionError + unit" where
  "validate_capability u c =
     (case validate_identity (cl_definition_identity c) of
        Inl e \<Rightarrow> Inl e
      | Inr _ \<Rightarrow>
          (case try_fold (validate_capability_dependency c) {||} (cl_dependencies c) of
             Inl e \<Rightarrow> Inl e
           | Inr _ \<Rightarrow> Inr ()))"

definition validate_capabilities ::
    "(Id, CapabilityDeclaration) fmap \<Rightarrow> DefinitionError + unit" where
  "validate_capabilities capabilities = try_fold validate_capability () (bm_values capabilities)"

subsection \<open>Implicit capabilities\<close>

definition materialize_step :: "(Id, CapabilityDeclaration) fmap \<Rightarrow> CapabilityRequirement \<Rightarrow>
    DefinitionError + (Id, CapabilityDeclaration) fmap" where
  "materialize_step capabilities requirement =
     (case fmlookup capabilities (cq_capability_id requirement) of
        Some c \<Rightarrow>
          if cl_definition_identity c \<noteq> cq_definition_identity requirement then
            Inl (CapabilityIdentityMismatch (cq_capability_id requirement)
                   (cl_definition_identity c) (cq_definition_identity requirement))
          else Inr capabilities
      | None \<Rightarrow>
          Inr (fmupd (cq_capability_id requirement) (declaration_implicit requirement) capabilities))"

definition declared_requirements :: "(Id, TaskDefinition) fmap \<Rightarrow>
    (Id, CapabilityDeclaration) fmap \<Rightarrow> CapabilityRequirement list" where
  "declared_requirements tasks capabilities =
     concat (map td_required_capabilities (bm_values tasks)) @
     concat (map cl_dependencies (bm_values capabilities))"

definition materialize_implicit_capabilities :: "(Id, TaskDefinition) fmap \<Rightarrow>
    (Id, CapabilityDeclaration) fmap \<Rightarrow> DefinitionError + (Id, CapabilityDeclaration) fmap" where
  "materialize_implicit_capabilities tasks capabilities =
     try_fold materialize_step capabilities (declared_requirements tasks capabilities)"

subsection \<open>The two graph authorities\<close>

definition definition_mutations :: "(Id, TaskDefinition) fmap \<Rightarrow> WorkflowMutation list" where
  "definition_mutations tasks =
     map (\<lambda>t. AddTask \<lparr>t_id = td_id t, t_label = td_label t\<rparr>) (bm_values tasks) @
     concat (map (\<lambda>t. map (AddDependency (td_id t)) (td_dependencies t)) (bm_values tasks))"

definition validate_workflow :: "(Id, TaskDefinition) fmap \<Rightarrow> DefinitionError + unit" where
  "validate_workflow tasks =
     (let mutations = definition_mutations tasks in
      if mutations = [] then Inr ()
      else
        (case apply_batch WorkflowGraph_default (wg_topology_revision WorkflowGraph_default)
                (MutationBatch_from_mutations mutations) of
           (_, Inr _) \<Rightarrow> Inr ()
         | (_, Inl e) \<Rightarrow> Inl (WorkflowRejected e)))"

definition declared_capability :: "CapabilityDeclaration \<Rightarrow> CapabilityDefinition" where
  "declared_capability c =
     fold (\<lambda>requirement d. definition_add_dependency d (cq_capability_id requirement))
       (cl_dependencies c)
       (with_replay_identity (CapabilityDefinition_new (cl_id c) (cl_kind c))
          (identity_str (cl_definition_identity c)))"

definition declared_graph :: "(Id, CapabilityDeclaration) fmap \<Rightarrow> CapabilityGraph" where
  "declared_graph capabilities =
     fold (\<lambda>c g. fst (capability_insert g (declared_capability c))) (bm_values capabilities)
       CapabilityGraph_default"

definition validate_capability_graph ::
    "(Id, CapabilityDeclaration) fmap \<Rightarrow> DefinitionError + unit" where
  "validate_capability_graph capabilities =
     (case resolve (declared_graph capabilities) of
        Inl e \<Rightarrow> Inl (CapabilityGraphRejected e)
      | Inr _ \<Rightarrow> Inr ())"

section \<open>Canonical identity\<close>

definition RUN_DEFINITION_FORMAT :: string where
  "RUN_DEFINITION_FORMAT = ''kernis-run-definition-v2''"

definition push_tag :: "string \<Rightarrow> string \<Rightarrow> string" where
  "push_tag canonical tag = canonical @ ''#'' @ tag"

definition push_count :: "string \<Rightarrow> nat \<Rightarrow> string" where
  "push_count canonical count = canonical @ ''['' @ decimal count @ '']''"

definition push_value :: "string \<Rightarrow> string \<Rightarrow> string" where
  "push_value canonical value = canonical @ ''%'' @ decimal (length value) @ '':'' @ value"

definition push_requirement :: "string \<Rightarrow> CapabilityRequirement \<Rightarrow> string" where
  "push_requirement canonical requirement =
     push_value (push_value canonical (as_str (cq_capability_id requirement)))
       (identity_str (cq_definition_identity requirement))"

text \<open>\<^verbatim>\<open>sort_by\<close> is stable, as \<open>sort_key\<close> is.\<close>

definition push_requirements :: "string \<Rightarrow> CapabilityRequirement list \<Rightarrow> string" where
  "push_requirements canonical rs =
     (let requirements = sort_key cq_capability_id rs;
          canonical = push_count (push_tag canonical ''requires'') (length requirements)
      in push_tag (foldl push_requirement canonical requirements) ''end'')"

definition push_capability :: "string \<Rightarrow> CapabilityDeclaration \<Rightarrow> string" where
  "push_capability canonical c =
     (let canonical = push_tag canonical ''capability'';
          canonical = push_value canonical (as_str (cl_id c));
          canonical = push_value canonical (cl_kind c);
          canonical = push_value canonical (identity_str (cl_definition_identity c))
      in push_requirements canonical (cl_dependencies c))"

definition push_effect :: "string \<Rightarrow> EffectSpec option \<Rightarrow> string" where
  "push_effect canonical effect =
     (case effect of
        Some e \<Rightarrow>
          push_tag (push_value (push_tag canonical ''present'') (OperationId_as_str (es_operation_id e)))
            (case es_semantics e of
               Idempotent \<Rightarrow> ''idempotent''
             | NonIdempotent \<Rightarrow> ''non_idempotent'')
      | None \<Rightarrow> push_tag canonical ''absent'')"

definition push_task :: "string \<Rightarrow> TaskDefinition \<Rightarrow> string" where
  "push_task canonical t =
     (let canonical = push_value (push_tag canonical ''task'') (as_str (td_id t));
          dependencies = sort (td_dependencies t);
          canonical = push_count (push_tag canonical ''depends'') (length dependencies);
          canonical = foldl (\<lambda>text d. push_value text (as_str d)) canonical dependencies;
          canonical = push_tag canonical ''end'';
          canonical = push_requirements canonical (td_required_capabilities t)
      in push_effect (push_tag canonical ''effect'') (td_effect t))"

definition canonical_text :: "(Id, TaskDefinition) fmap \<Rightarrow> (Id, CapabilityDeclaration) fmap \<Rightarrow>
    string" where
  "canonical_text tasks capabilities =
     (let canonical = push_tag RUN_DEFINITION_FORMAT ''capabilities'';
          canonical = push_count canonical (length (bm_values capabilities));
          canonical = foldl push_capability canonical (bm_values capabilities);
          canonical = push_tag canonical ''end'';
          canonical = push_count (push_tag canonical ''tasks'') (length (bm_values tasks));
          canonical = foldl push_task canonical (bm_values tasks)
      in push_tag canonical ''end'')"

text \<open>\<^verbatim>\<open>error.to_string()\<close> of the one error of \<^verbatim>\<open>WorkflowReplayIdentity::new\<close>.\<close>

definition canonical_identity :: "(Id, TaskDefinition) fmap \<Rightarrow> (Id, CapabilityDeclaration) fmap \<Rightarrow>
    DefinitionError + WorkflowReplayIdentity" where
  "canonical_identity tasks capabilities =
     (case WorkflowReplayIdentity_new (canonical_text tasks capabilities) of
        Inl _ \<Rightarrow> Inl (InvalidDefinition ''workflow replay identity is empty'')
      | Inr identity \<Rightarrow> Inr identity)"

section \<open>Validated definitions\<close>

record ValidatedRunDefinition =
  vd_tasks :: "(Id, TaskDefinition) fmap"
  vd_capabilities :: "(Id, CapabilityDeclaration) fmap"
  vd_identity :: WorkflowReplayIdentity

definition validated :: "RunDefinition \<Rightarrow> DefinitionError + ValidatedRunDefinition" where
  "validated d =
     (case unique_tasks (rn_tasks d) of Inl e \<Rightarrow> Inl e | Inr tasks \<Rightarrow>
     (case unique_capabilities (rn_capabilities d) of Inl e \<Rightarrow> Inl e | Inr explicit \<Rightarrow>
     (case validate_tasks tasks of Inl e \<Rightarrow> Inl e | Inr _ \<Rightarrow>
     (case validate_capabilities explicit of Inl e \<Rightarrow> Inl e | Inr _ \<Rightarrow>
     (case materialize_implicit_capabilities tasks explicit of
        Inl e \<Rightarrow> Inl e | Inr capabilities \<Rightarrow>
     (case validate_capabilities capabilities of Inl e \<Rightarrow> Inl e | Inr _ \<Rightarrow>
     (case validate_capability_graph capabilities of Inl e \<Rightarrow> Inl e | Inr _ \<Rightarrow>
     (case validate_workflow tasks of Inl e \<Rightarrow> Inl e | Inr _ \<Rightarrow>
     (case canonical_identity tasks capabilities of Inl e \<Rightarrow> Inl e | Inr identity \<Rightarrow>
        Inr \<lparr>vd_tasks = tasks, vd_capabilities = capabilities, vd_identity = identity\<rparr>)))))))))"

definition definition_validate :: "RunDefinition \<Rightarrow> DefinitionError + unit" where
  "definition_validate d = (case validated d of Inl e \<Rightarrow> Inl e | Inr _ \<Rightarrow> Inr ())"

definition run_definition_identity :: "RunDefinition \<Rightarrow> DefinitionError + WorkflowReplayIdentity" where
  "run_definition_identity d = (case validated d of Inl e \<Rightarrow> Inl e | Inr v \<Rightarrow> Inr (vd_identity v))"

section \<open>The factory registry\<close>

text \<open>
  A factory is process-local code; the registry stores it and never runs it, so its type is
  a parameter.
\<close>

record FactoryKey =
  fk_capability_id :: Id
  fk_definition_identity :: DefinitionIdentity

record 'f FactoryRegistry =
  fr_factories :: "(FactoryKey, 'f) fmap"

datatype FactoryResolutionError =
    DuplicateDefinitionIdentity Id DefinitionIdentity
  | InvalidDefinitionIdentity string
  | MissingFactory Id DefinitionIdentity
  | ConstructionFailed Id DefinitionIdentity string

definition FactoryRegistry_new :: "'f FactoryRegistry" where
  "FactoryRegistry_new = \<lparr>fr_factories = fmempty\<rparr>"

definition factory_register :: "'f FactoryRegistry \<Rightarrow> Id \<Rightarrow> DefinitionIdentity \<Rightarrow> 'f \<Rightarrow>
    'f FactoryRegistry \<times> (FactoryResolutionError + unit)" where
  "factory_register registry capability_id definition_identity factory =
     (if trim_is_empty (identity_str definition_identity) then
        (registry, Inl (InvalidDefinitionIdentity (identity_str definition_identity)))
      else
        let key = \<lparr>fk_capability_id = capability_id, fk_definition_identity = definition_identity\<rparr>
        in if contains_key (fr_factories registry) key then
             (registry, Inl (DuplicateDefinitionIdentity capability_id definition_identity))
           else (registry\<lparr>fr_factories := fmupd key factory (fr_factories registry)\<rparr>, Inr ()))"

definition registry_len :: "'f FactoryRegistry \<Rightarrow> nat" where
  "registry_len registry = fcard (fmdom (fr_factories registry))"

definition registry_is_empty :: "'f FactoryRegistry \<Rightarrow> bool" where
  "registry_is_empty registry \<longleftrightarrow> fmdom (fr_factories registry) = {||}"

definition factory_for :: "'f FactoryRegistry \<Rightarrow> Id \<Rightarrow> DefinitionIdentity \<Rightarrow> 'f option" where
  "factory_for registry capability_id definition_identity =
     fmlookup (fr_factories registry)
       \<lparr>fk_capability_id = capability_id, fk_definition_identity = definition_identity\<rparr>"

definition factory_contains :: "'f FactoryRegistry \<Rightarrow> Id \<Rightarrow> DefinitionIdentity \<Rightarrow> bool" where
  "factory_contains registry capability_id definition_identity \<longleftrightarrow>
     contains_key (fr_factories registry)
       \<lparr>fk_capability_id = capability_id, fk_definition_identity = definition_identity\<rparr>"

definition registry_validate_step :: "'f FactoryRegistry \<Rightarrow> unit \<Rightarrow> CapabilityDeclaration \<Rightarrow>
    FactoryResolutionError + unit" where
  "registry_validate_step registry u c =
     (if \<not> factory_contains registry (cl_id c) (cl_definition_identity c) then
        Inl (MissingFactory (cl_id c) (cl_definition_identity c))
      else Inr ())"

definition registry_validate ::
    "'f FactoryRegistry \<Rightarrow> ValidatedRunDefinition \<Rightarrow> FactoryResolutionError + unit" where
  "registry_validate registry v =
     try_fold (registry_validate_step registry) () (bm_values (vd_capabilities v))"

end
