(* ===== verification/Keyed_Loops.thy ===== *)
theory Keyed_Loops
  imports Prelude
begin

text \<open>
  The loops that validation is made of: collecting values into a map under unique keys,
  collecting keys into a set of the ones seen, and checking every element.
\<close>

section \<open>Collecting into a map\<close>

definition index_by :: "('a \<Rightarrow> 'k) \<Rightarrow> 'a list \<Rightarrow> ('k, 'a) fmap" where
  "index_by key xs = fold (\<lambda>x m. fmupd (key x) x m) xs fmempty"

lemma fold_fmupd_lookup:
  assumes "distinct (map key xs)"
  shows "fmlookup (fold (\<lambda>x m. fmupd (key x) x m) xs m) k =
    (case find (\<lambda>x. key x = k) xs of Some x \<Rightarrow> Some x | None \<Rightarrow> fmlookup m k)"
  using assms
proof (induction xs arbitrary: m)
  case (Cons y xs)
  then have "find (\<lambda>x. key x = key y) xs = None" by (simp add: find_None_iff image_iff) metis
  with Cons show ?case by (auto split: option.splits)
qed simp

lemma index_by_lookup:
  assumes "distinct (map key xs)"
  shows "fmlookup (index_by key xs) k = Some x \<longleftrightarrow> x \<in> set xs \<and> key x = k"
proof -
  have "find (\<lambda>x. key x = k) xs = Some x \<longleftrightarrow> x \<in> set xs \<and> key x = k"
    using assms by (induction xs) force+
  then show ?thesis
    by (auto simp: index_by_def fold_fmupd_lookup [OF assms] split: option.splits)
qed

lemma index_by_keys:
  assumes "distinct (map key xs)"
  shows "fmdom' (index_by key xs) = key ` set xs"
  using index_by_lookup [OF assms] by (fastforce simp: fmlookup_dom'_iff)

lemma index_by_contains:
  "distinct (map key xs) \<Longrightarrow> contains_key (index_by key xs) k \<longleftrightarrow> k \<in> key ` set xs"
  using index_by_lookup [of key xs k] by (auto simp: contains_key_iff)

lemma index_by_values:
  "distinct (map key xs) \<Longrightarrow> set (bm_values (index_by key xs)) = set xs"
  using index_by_lookup [of key xs] by (auto simp: set_bm_values)

lemma unique_fold:
  assumes step: "\<And>m x. f m x = (if contains_key m (key x) then Inl (err x) else Inr (fmupd (key x) x m))"
  shows "try_fold f m xs = Inr m' \<longleftrightarrow>
    distinct (map key xs) \<and> (\<forall>x\<in>set xs. \<not> contains_key m (key x)) \<and>
    m' = fold (\<lambda>x m. fmupd (key x) x m) xs m"
proof (induction xs arbitrary: m)
  case (Cons x xs)
  have "(\<forall>y\<in>set xs. \<not> contains_key (fmupd (key x) x m) (key y)) \<longleftrightarrow>
      key x \<notin> key ` set xs \<and> (\<forall>y\<in>set xs. \<not> contains_key m (key y))"
    by (simp add: image_iff) metis
  then show ?case using Cons.IH [of "fmupd (key x) x m"] step [of m x]
    by (cases "contains_key m (key x)") auto
qed auto

lemma unique_fold_index:
  assumes "\<And>m x. f m x = (if contains_key m (key x) then Inl (err x) else Inr (fmupd (key x) x m))"
  shows "try_fold f fmempty xs = Inr m \<longleftrightarrow> distinct (map key xs) \<and> m = index_by key xs"
  by (simp add: unique_fold [OF assms] index_by_def)

text \<open>A map whose values hold their own keys.\<close>

definition keyed :: "('a \<Rightarrow> 'k) \<Rightarrow> ('k, 'a) fmap \<Rightarrow> bool" where
  "keyed key m \<longleftrightarrow> (\<forall>i x. fmlookup m i = Some x \<longrightarrow> key x = i)"

lemma keyed_map_values: "keyed key m \<Longrightarrow> map key (bm_values m) = bm_keys m"
  unfolding bm_values_def map_map
  by (rule map_idI) (auto simp: keyed_def mem_bm_keys_iff simp del: set_bm_keys)

section \<open>Collecting into a set\<close>

lemma seen_fold:
  fixes s :: "'k fset"
  assumes ok: "\<And>s x. x \<in> set xs \<Longrightarrow>
      (\<exists>s'. f s x = Inr s') \<longleftrightarrow> good x \<and> distinct (keys x) \<and> set (keys x) \<inter> fset s = {}"
    and upd: "\<And>s x s'. f s x = Inr s' \<Longrightarrow> fset s' = fset s \<union> set (keys x)"
  shows "(\<exists>s'. try_fold f s xs = Inr s') \<longleftrightarrow>
    (\<forall>x\<in>set xs. good x) \<and> distinct (concat (map keys xs)) \<and>
    set (concat (map keys xs)) \<inter> fset s = {}"
  using ok
proof (induction xs arbitrary: s)
  case (Cons x xs)
  show ?case
  proof (cases "f s x")
    case (Inl e)
    then show ?thesis using Cons.prems [of x s] by auto
  next
    case (Inr t)
    have t: "fset t = fset s \<union> set (keys x)" using Inr by (rule upd)
    have "good x \<and> distinct (keys x) \<and> set (keys x) \<inter> fset s = {}"
      using Cons.prems [of x s] Inr by auto
    moreover have "(\<exists>s'. try_fold f t xs = Inr s') \<longleftrightarrow>
      (\<forall>x\<in>set xs. good x) \<and> distinct (concat (map keys xs)) \<and>
      set (concat (map keys xs)) \<inter> fset t = {}"
      using Cons.prems by (intro Cons.IH) auto
    ultimately show ?thesis using Inr t by auto
  qed
qed simp

lemma seen_fold_single:
  fixes s :: "'k fset"
  assumes "\<And>s x. x \<in> set xs \<Longrightarrow> (\<exists>s'. f s x = Inr s') \<longleftrightarrow> good x \<and> key x |\<notin>| s"
    and "\<And>s x s'. f s x = Inr s' \<Longrightarrow> s' = finsert (key x) s"
  shows "(\<exists>s'. try_fold f {||} xs = Inr s') \<longleftrightarrow> (\<forall>x\<in>set xs. good x) \<and> distinct (map key xs)"
proof -
  have "fset s' = fset s \<union> set [key x]" if "f s x = Inr s'" for s x s'
    using assms(2) [OF that] by simp
  then have "(\<exists>s'. try_fold f {||} xs = Inr s') \<longleftrightarrow>
    (\<forall>x\<in>set xs. good x) \<and> distinct (concat (map (\<lambda>x. [key x]) xs)) \<and>
    set (concat (map (\<lambda>x. [key x]) xs)) \<inter> fset {||} = {}"
    by (intro seen_fold) (simp_all add: assms(1))
  then show ?thesis by (simp add: concat_map_singleton)
qed

section \<open>Checking every element\<close>

lemma check_fold:
  fixes f :: "unit \<Rightarrow> 'a \<Rightarrow> 'e + unit"
  shows "try_fold f u xs = Inr v \<longleftrightarrow> (\<forall>x\<in>set xs. f () x = Inr ())"
  by (induction xs arbitrary: u) (auto split: sum.splits)

lemma check_fold_error:
  fixes f :: "unit \<Rightarrow> 'a \<Rightarrow> 'e + unit"
  assumes "try_fold f u xs = Inl e"
  shows "\<exists>x\<in>set xs. f () x = Inl e"
  using assms by (induction xs arbitrary: u) (auto split: sum.splits)

end
