(* ===== verification/Definition_Validation.thy ===== *)
theory Definition_Validation
  imports Run_Definition Keyed_Loops Workflow_Invariants Capability_Resolution
begin

text \<open>
  Which run definitions are accepted. \<open>valid_definition\<close> is the specification in terms of
  the authored lists: unique identities, known prerequisites, non-blank and agreeing
  capability identities, and acyclic task and capability graphs. The operations of
  \<^verbatim>\<open>definition.rs\<close> decide it, and a validated definition holds the authored tasks and the
  authored capabilities with the implicit ones added.
\<close>

section \<open>Specification\<close>

definition nonblank_identity :: "DefinitionIdentity \<Rightarrow> bool" where
  "nonblank_identity i \<longleftrightarrow> \<not> trim_is_empty (identity_str i)"

definition requirements_in :: "RunDefinition \<Rightarrow> CapabilityRequirement set" where
  "requirements_in d =
     (\<Union>t\<in>set (rn_tasks d). set (td_required_capabilities t)) \<union>
     (\<Union>c\<in>set (rn_capabilities d). set (cl_dependencies c))"

definition effective_capabilities :: "RunDefinition \<Rightarrow> CapabilityDeclaration set" where
  "effective_capabilities d =
     set (rn_capabilities d) \<union>
     declaration_implicit ` {r \<in> requirements_in d. cq_capability_id r \<notin> cl_id ` set (rn_capabilities d)}"

definition requirements_ok :: "CapabilityRequirement list \<Rightarrow> bool" where
  "requirements_ok rs \<longleftrightarrow>
     distinct (map cq_capability_id rs) \<and> (\<forall>r\<in>set rs. nonblank_identity (cq_definition_identity r))"

definition task_ok :: "Id set \<Rightarrow> TaskDefinition \<Rightarrow> bool" where
  "task_ok known t \<longleftrightarrow>
     distinct (td_dependencies t) \<and> set (td_dependencies t) \<subseteq> known \<and>
     requirements_ok (td_required_capabilities t)"

definition capability_ok :: "CapabilityDeclaration \<Rightarrow> bool" where
  "capability_ok c \<longleftrightarrow>
     nonblank_identity (cl_definition_identity c) \<and> requirements_ok (cl_dependencies c)"

definition task_operations :: "TaskDefinition \<Rightarrow> OperationId list" where
  "task_operations t = (case td_effect t of None \<Rightarrow> [] | Some e \<Rightarrow> [es_operation_id e])"

definition identities_agree :: "RunDefinition \<Rightarrow> bool" where
  "identities_agree d \<longleftrightarrow>
     (\<forall>r\<in>requirements_in d.
        (\<forall>c\<in>set (rn_capabilities d). cl_id c = cq_capability_id r \<longrightarrow>
           cl_definition_identity c = cq_definition_identity r) \<and>
        (\<forall>r'\<in>requirements_in d. cq_capability_id r' = cq_capability_id r \<longrightarrow>
           cq_definition_identity r' = cq_definition_identity r))"

definition task_edges :: "TaskDefinition set \<Rightarrow> (Id \<times> Id) set" where
  "task_edges ts = {(td_id t, d) |t d. t \<in> ts \<and> d \<in> set (td_dependencies t)}"

definition capability_edges :: "CapabilityDeclaration set \<Rightarrow> (Id \<times> Id) set" where
  "capability_edges cs = {(cl_id c, cq_capability_id r) |c r. c \<in> cs \<and> r \<in> set (cl_dependencies c)}"

definition valid_definition :: "RunDefinition \<Rightarrow> bool" where
  "valid_definition d \<longleftrightarrow>
     distinct (map td_id (rn_tasks d)) \<and> distinct (map cl_id (rn_capabilities d)) \<and>
     (\<forall>t\<in>set (rn_tasks d). task_ok (td_id ` set (rn_tasks d)) t) \<and>
     (\<forall>c\<in>set (rn_capabilities d). capability_ok c) \<and>
     distinct (concat (map task_operations (rn_tasks d))) \<and>
     identities_agree d \<and>
     acyclic (capability_edges (set (rn_capabilities d))) \<and>
     acyclic (task_edges (set (rn_tasks d)))"

section \<open>Unique identities\<close>

lemma unique_tasks_Inr:
  "unique_tasks ts = Inr m \<longleftrightarrow> distinct (map td_id ts) \<and> m = index_by td_id ts"
  unfolding unique_tasks_def
  by (rule unique_fold_index [where err = "\<lambda>t. DefinitionDuplicateTask (td_id t)"])
     (simp add: unique_tasks_step_def)

lemma unique_capabilities_Inr:
  "unique_capabilities cs = Inr m \<longleftrightarrow> distinct (map cl_id cs) \<and> m = index_by cl_id cs"
  unfolding unique_capabilities_def
  by (rule unique_fold_index [where err = "\<lambda>c. DuplicateCapability (cl_id c)"])
     (simp add: unique_capabilities_step_def)

section \<open>Tasks and capabilities\<close>

lemma validate_identity_Inr: "validate_identity i = Inr u \<longleftrightarrow> nonblank_identity i"
  by (simp add: validate_identity_def nonblank_identity_def)

lemma validate_dependencies_Inr:
  "(\<exists>s. try_fold (validate_task_dependency tasks t) {||} ds = Inr s) \<longleftrightarrow>
     distinct ds \<and> (\<forall>d\<in>set ds. contains_key tasks d)"
proof -
  have "(\<exists>s. try_fold (validate_task_dependency tasks t) {||} ds = Inr s) \<longleftrightarrow>
      (\<forall>d\<in>set ds. contains_key tasks d) \<and> distinct (map (\<lambda>d. d) ds)"
    by (rule seen_fold_single) (auto simp: validate_task_dependency_def split: if_splits)
  then show ?thesis by auto
qed

lemma validate_requirements_Inr:
  "(\<exists>s. try_fold (validate_task_requirement t) {||} rs = Inr s) \<longleftrightarrow> requirements_ok rs"
  "(\<exists>s. try_fold (validate_capability_dependency c) {||} rs = Inr s) \<longleftrightarrow> requirements_ok rs"
  unfolding requirements_ok_def conj_commute [of "distinct _"]
  by (rule seen_fold_single;
      auto simp: validate_task_requirement_def validate_capability_dependency_def
        validate_identity_def nonblank_identity_def split: if_splits)+

lemma validate_capability_Inr: "validate_capability u c = Inr v \<longleftrightarrow> capability_ok c"
  using validate_requirements_Inr(2) [of c "cl_dependencies c"]
  by (auto simp: validate_capability_def capability_ok_def validate_identity_Inr
      split: sum.splits) (metis validate_identity_Inr old.sum.exhaust sum.simps(4))

lemma validate_capabilities_Inr:
  "validate_capabilities m = Inr u \<longleftrightarrow> (\<forall>c\<in>set (bm_values m). capability_ok c)"
  by (simp add: validate_capabilities_def check_fold validate_capability_Inr)

lemma validate_task_Inr:
  "(\<exists>s'. validate_task tasks s t = Inr s') \<longleftrightarrow>
     task_ok (fmdom' tasks) t \<and> distinct (task_operations t) \<and>
     set (task_operations t) \<inter> fset s = {}"
proof -
  have "(\<exists>s'. validate_task_effect s t = Inr s') \<longleftrightarrow>
      distinct (task_operations t) \<and> set (task_operations t) \<inter> fset s = {}"
    by (auto simp: validate_task_effect_def task_operations_def split: option.splits if_splits)
  moreover have "(\<forall>d\<in>set ds. contains_key tasks d) \<longleftrightarrow> set ds \<subseteq> fmdom' tasks" for ds
    by (auto simp: contains_key_iff fmlookup_dom'_iff subset_iff)
  ultimately show ?thesis
    using validate_dependencies_Inr [of tasks t "td_dependencies t"]
      validate_requirements_Inr(1) [of t "td_required_capabilities t"]
    by (auto simp: validate_task_def task_ok_def split: sum.splits)
qed

lemma validate_task_seen:
  "validate_task tasks s t = Inr s' \<Longrightarrow> fset s' = fset s \<union> set (task_operations t)"
  by (auto simp: validate_task_def validate_task_effect_def task_operations_def
      split: sum.splits option.splits if_splits)

lemma validate_tasks_Inr:
  "validate_tasks tasks = Inr u \<longleftrightarrow>
     (\<forall>t\<in>set (bm_values tasks). task_ok (fmdom' tasks) t) \<and>
     distinct (concat (map task_operations (bm_values tasks)))"
proof -
  have "validate_tasks tasks = Inr u \<longleftrightarrow>
      (\<exists>s. try_fold (validate_task tasks) {||} (bm_values tasks) = Inr s)"
    by (auto simp: validate_tasks_def split: sum.splits)
  also have "\<dots> \<longleftrightarrow> (\<forall>t\<in>set (bm_values tasks). task_ok (fmdom' tasks) t) \<and>
      distinct (concat (map task_operations (bm_values tasks))) \<and>
      set (concat (map task_operations (bm_values tasks))) \<inter> fset {||} = {}"
    by (rule seen_fold) (simp_all add: validate_task_Inr validate_task_seen)
  finally show ?thesis by simp
qed

section \<open>Implicit capabilities\<close>

definition materialized :: "(Id, CapabilityDeclaration) fmap \<Rightarrow> CapabilityRequirement list \<Rightarrow>
    (Id, CapabilityDeclaration) fmap" where
  "materialized m rs =
     fold (\<lambda>r m. if contains_key m (cq_capability_id r) then m
                 else fmupd (cq_capability_id r) (declaration_implicit r) m) rs m"

lemma materialized_lookup:
  "fmlookup (materialized m rs) i =
     (case fmlookup m i of
        Some c \<Rightarrow> Some c
      | None \<Rightarrow> map_option declaration_implicit (find (\<lambda>r. cq_capability_id r = i) rs))"
proof (induction rs arbitrary: m)
  case Nil
  then show ?case by (simp add: materialized_def split: option.splits)
next
  case (Cons r rs)
  then show ?case
    by (auto simp: materialized_def contains_key_def split: option.splits)
qed

lemma materialized_keeps: "fmlookup m i = Some c \<Longrightarrow> fmlookup (materialized m rs) i = Some c"
  by (simp add: materialized_lookup)

lemma materialize_fold_Inr:
  "try_fold materialize_step m rs = Inr m' \<longleftrightarrow>
     m' = materialized m rs \<and>
     (\<forall>r\<in>set rs. map_option cl_definition_identity (fmlookup m' (cq_capability_id r)) =
        Some (cq_definition_identity r))"
proof (induction rs arbitrary: m)
  case Nil
  then show ?case by (auto simp: materialized_def)
next
  case (Cons r rs)
  have new: "cl_definition_identity (declaration_implicit r) = cq_definition_identity r"
    by (simp add: declaration_implicit_def CapabilityDeclaration_new_def)
  show ?case
  proof (cases "fmlookup m (cq_capability_id r)")
    case None
    let ?m = "fmupd (cq_capability_id r) (declaration_implicit r) m"
    have "materialized m (r # rs) = materialized ?m rs"
      using None by (simp add: materialized_def contains_key_def)
    moreover have "fmlookup (materialized ?m rs) (cq_capability_id r) = Some (declaration_implicit r)"
      by (rule materialized_keeps) simp
    ultimately show ?thesis
      using None Cons.IH [of ?m] new by (auto simp: materialize_step_def)
  next
    case (Some c)
    then have "materialized m (r # rs) = materialized m rs"
      by (simp add: materialized_def contains_key_def)
    with Some show ?thesis
      using Cons.IH [of m] materialized_keeps [OF Some, of rs] by (auto simp: materialize_step_def)
  qed
qed

lemma declaration_implicit_sel [simp]:
  "cl_id (declaration_implicit r) = cq_capability_id r"
  "cl_definition_identity (declaration_implicit r) = cq_definition_identity r"
  "cl_dependencies (declaration_implicit r) = []"
  by (simp_all add: declaration_implicit_def CapabilityDeclaration_new_def)

text \<open>The materialized map of a definition with unique identities.\<close>

definition explicit_map :: "RunDefinition \<Rightarrow> (Id, CapabilityDeclaration) fmap" where
  "explicit_map d = index_by cl_id (rn_capabilities d)"

definition task_map :: "RunDefinition \<Rightarrow> (Id, TaskDefinition) fmap" where
  "task_map d = index_by td_id (rn_tasks d)"

definition full_map :: "RunDefinition \<Rightarrow> (Id, CapabilityDeclaration) fmap" where
  "full_map d =
     materialized (explicit_map d) (declared_requirements (task_map d) (explicit_map d))"

lemma set_declared_requirements:
  assumes "distinct (map td_id (rn_tasks d))" and "distinct (map cl_id (rn_capabilities d))"
  shows "set (declared_requirements (task_map d) (explicit_map d)) = requirements_in d"
  using assms
  by (simp add: declared_requirements_def requirements_in_def task_map_def explicit_map_def
      index_by_values)

lemma implicit_unique:
  assumes "identities_agree d" and "r \<in> requirements_in d" and "r' \<in> requirements_in d"
    and "cq_capability_id r' = cq_capability_id r"
  shows "declaration_implicit r' = declaration_implicit r"
proof -
  have "cq_definition_identity r' = cq_definition_identity r"
    using assms unfolding identities_agree_def by blast
  then show ?thesis by (simp add: declaration_implicit_def assms(4))
qed

lemma full_map_lookup:
  assumes tasks: "distinct (map td_id (rn_tasks d))"
    and caps: "distinct (map cl_id (rn_capabilities d))" and agree: "identities_agree d"
  shows "fmlookup (full_map d) i = Some c \<longleftrightarrow> c \<in> effective_capabilities d \<and> cl_id c = i"
proof (cases "fmlookup (explicit_map d) i")
  case None
  let ?rs = "declared_requirements (task_map d) (explicit_map d)"
  have fresh: "i \<notin> cl_id ` set (rn_capabilities d)"
    using None index_by_contains [OF caps, of i] by (simp add: explicit_map_def contains_key_def)
  have "fmlookup (full_map d) i = map_option declaration_implicit (find (\<lambda>r. cq_capability_id r = i) ?rs)"
    using None by (simp add: full_map_def materialized_lookup)
  moreover have "map_option declaration_implicit (find (\<lambda>r. cq_capability_id r = i) ?rs) = Some c \<longleftrightarrow>
      (\<exists>r\<in>requirements_in d. cq_capability_id r = i \<and> c = declaration_implicit r)"
  proof (cases "find (\<lambda>r. cq_capability_id r = i) ?rs")
    case None
    then have "\<forall>r\<in>requirements_in d. cq_capability_id r \<noteq> i"
      using set_declared_requirements [OF tasks caps] by (simp add: find_None_all)
    with None show ?thesis by auto
  next
    case (Some r)
    then have "r \<in> requirements_in d" and "cq_capability_id r = i"
      using set_declared_requirements [OF tasks caps] by (auto dest: find_Some_mem)
    moreover from this have "c = declaration_implicit r"
      if "r' \<in> requirements_in d" "cq_capability_id r' = i" "c = declaration_implicit r'" for r'
      using implicit_unique [OF agree, of r r'] that by simp
    ultimately have "(\<exists>r\<in>requirements_in d. cq_capability_id r = i \<and> c = declaration_implicit r) \<longleftrightarrow>
        c = declaration_implicit r" by blast
    then show ?thesis unfolding Some by auto
  qed
  ultimately show ?thesis using fresh by (auto simp: effective_capabilities_def)
next
  case (Some e)
  then have "e \<in> set (rn_capabilities d)" and "cl_id e = i"
    using index_by_lookup [OF caps] by (auto simp: explicit_map_def)
  then have explicit: "c \<in> set (rn_capabilities d) \<and> cl_id c = i \<longleftrightarrow> c = e"
    using index_by_lookup [OF caps, of i c] Some unfolding explicit_map_def by auto
  moreover have "c \<in> effective_capabilities d \<and> cl_id c = i \<longleftrightarrow>
      c \<in> set (rn_capabilities d) \<and> cl_id c = i"
    using \<open>e \<in> set (rn_capabilities d)\<close> \<open>cl_id e = i\<close> by (auto simp: effective_capabilities_def)
  moreover have "fmlookup (full_map d) i = Some e"
    using Some by (simp add: full_map_def materialized_lookup)
  ultimately show ?thesis by auto
qed

lemma materialize_Inr:
  assumes tasks: "distinct (map td_id (rn_tasks d))"
    and caps: "distinct (map cl_id (rn_capabilities d))"
  shows "materialize_implicit_capabilities (task_map d) (explicit_map d) = Inr m \<longleftrightarrow>
    m = full_map d \<and> identities_agree d"
proof -
  let ?rs = "declared_requirements (task_map d) (explicit_map d)"
  have rs: "set ?rs = requirements_in d" by (rule set_declared_requirements [OF assms])
  have "(\<forall>r\<in>set ?rs. map_option cl_definition_identity (fmlookup (full_map d) (cq_capability_id r)) =
      Some (cq_definition_identity r)) \<longleftrightarrow> identities_agree d" (is "?l \<longleftrightarrow> _")
  proof
    assume l: ?l
    have "cl_definition_identity c = cq_definition_identity r"
      if "r \<in> requirements_in d" "c \<in> set (rn_capabilities d)" "cl_id c = cq_capability_id r" for r c
    proof -
      have "fmlookup (explicit_map d) (cq_capability_id r) = Some c"
        using that by (simp add: explicit_map_def index_by_lookup [OF caps])
      then have "fmlookup (full_map d) (cq_capability_id r) = Some c"
        unfolding full_map_def by (rule materialized_keeps)
      with l rs that(1) show ?thesis by auto
    qed
    moreover have "cq_definition_identity r' = cq_definition_identity r"
      if "r \<in> requirements_in d" "r' \<in> requirements_in d" "cq_capability_id r' = cq_capability_id r"
      for r r'
      using bspec [OF l, of r] bspec [OF l, of r'] rs that by auto
    ultimately show "identities_agree d" unfolding identities_agree_def by blast
  next
    assume agree: "identities_agree d"
    show ?l
    proof
      fix r
      assume "r \<in> set ?rs"
      then have r: "r \<in> requirements_in d" by (simp add: rs)
      obtain c where c: "c \<in> effective_capabilities d" "cl_id c = cq_capability_id r"
      proof (cases "cq_capability_id r \<in> cl_id ` set (rn_capabilities d)")
        case True
        then obtain c where "c \<in> set (rn_capabilities d)" "cl_id c = cq_capability_id r" by auto
        then show ?thesis using that [of c] by (simp add: effective_capabilities_def)
      next
        case False
        then show ?thesis
          using that [of "declaration_implicit r"] r by (auto simp: effective_capabilities_def)
      qed
      have "fmlookup (full_map d) (cq_capability_id r) = Some c"
        using full_map_lookup [OF assms agree] c by simp
      moreover have "cl_definition_identity c = cq_definition_identity r"
        using c r agree unfolding effective_capabilities_def identities_agree_def
        by (elim UnE imageE CollectE conjE) (blast, metis declaration_implicit_sel(1,2))
      ultimately show "map_option cl_definition_identity (fmlookup (full_map d) (cq_capability_id r)) =
          Some (cq_definition_identity r)" by simp
    qed
  qed
  then show ?thesis
    by (auto simp: materialize_implicit_capabilities_def materialize_fold_Inr full_map_def)
qed

end
