(* ===== verification/Definition_Encoding.thy ===== *)
theory Definition_Encoding
  imports Run_Definition
begin

text \<open>
  The grammar of the canonical identity. Each \<^verbatim>\<open>push_\<close> operation appends a token; the
  tokens of values, requirement lists, effects, capabilities and tasks are self-delimiting,
  so the canonical text determines the normal form of a definition: the capabilities and
  tasks in identity order, with their requirements and prerequisites sorted.
\<close>

section \<open>Tokens\<close>

definition value_token :: "string \<Rightarrow> string" where
  "value_token value = ''%'' @ decimal (length value) @ '':'' @ value"

definition requirement_token :: "CapabilityRequirement \<Rightarrow> string" where
  "requirement_token r =
     value_token (as_str (cq_capability_id r)) @ value_token (identity_str (cq_definition_identity r))"

definition counted_token :: "string \<Rightarrow> ('a \<Rightarrow> string) \<Rightarrow> 'a list \<Rightarrow> string" where
  "counted_token tag token xs =
     ''#'' @ tag @ ''['' @ decimal (length xs) @ '']'' @ concat (map token xs) @ ''#end''"

definition effect_token :: "EffectSpec option \<Rightarrow> string" where
  "effect_token effect =
     (case effect of
        Some e \<Rightarrow>
          ''#present'' @ value_token (OperationId_as_str (es_operation_id e)) @
          (case es_semantics e of Idempotent \<Rightarrow> ''#idempotent'' | NonIdempotent \<Rightarrow> ''#non_idempotent'')
      | None \<Rightarrow> ''#absent'')"

text \<open>The normal forms: what the canonical text keeps of a capability and of a task.\<close>

type_synonym capability_form = "Id \<times> string \<times> DefinitionIdentity \<times> CapabilityRequirement list"
type_synonym task_form = "Id \<times> Id list \<times> CapabilityRequirement list \<times> EffectSpec option"

definition capability_form :: "CapabilityDeclaration \<Rightarrow> capability_form" where
  "capability_form c =
     (cl_id c, cl_kind c, cl_definition_identity c, sort_key cq_capability_id (cl_dependencies c))"

definition task_form :: "TaskDefinition \<Rightarrow> task_form" where
  "task_form t =
     (td_id t, sort (td_dependencies t), sort_key cq_capability_id (td_required_capabilities t),
      td_effect t)"

definition capability_token :: "capability_form \<Rightarrow> string" where
  "capability_token = (\<lambda>(i, kind, identity, rs).
     ''#capability'' @ value_token (as_str i) @ value_token kind @ value_token (identity_str identity) @
     counted_token ''requires'' requirement_token rs)"

definition task_token :: "task_form \<Rightarrow> string" where
  "task_token = (\<lambda>(i, ds, rs, effect).
     ''#task'' @ value_token (as_str i) @ counted_token ''depends'' (\<lambda>d. value_token (as_str d)) ds @
     counted_token ''requires'' requirement_token rs @ ''#effect'' @ effect_token effect)"

section \<open>The operations append tokens\<close>

lemma foldl_append_tokens:
  assumes "\<And>pre x. f pre x = pre @ token x"
  shows "foldl f pre xs = pre @ concat (map token xs)"
  by (induction xs arbitrary: pre) (simp_all add: assms)

lemma push_value_token: "push_value pre v = pre @ value_token v"
  by (simp add: push_value_def value_token_def)

lemma push_requirements_token:
  "push_requirements pre rs =
     pre @ counted_token ''requires'' requirement_token (sort_key cq_capability_id rs)"
proof -
  have "push_requirement pre r = pre @ requirement_token r" for pre r
    by (simp add: push_requirement_def requirement_token_def push_value_token)
  then show ?thesis
    by (simp add: push_requirements_def Let_def push_tag_def push_count_def counted_token_def
        foldl_append_tokens [where token = requirement_token])
qed

lemma push_capability_token: "push_capability pre c = pre @ capability_token (capability_form c)"
  by (simp add: push_capability_def Let_def push_tag_def push_value_token push_requirements_token
      capability_token_def capability_form_def)

lemma push_effect_token: "push_effect pre e = pre @ effect_token e"
  by (simp add: push_effect_def effect_token_def push_tag_def push_value_token
      split: option.splits EffectSemantics.splits)

lemma push_task_token: "push_task pre t = pre @ task_token (task_form t)"
proof -
  have "foldl (\<lambda>pre d. push_value pre (as_str d)) pre ds =
      pre @ concat (map (\<lambda>d. value_token (as_str d)) ds)" for pre ds
    by (rule foldl_append_tokens) (rule push_value_token)
  then show ?thesis
    by (simp add: push_task_def Let_def push_tag_def push_count_def push_value_token
        push_requirements_token push_effect_token task_token_def task_form_def counted_token_def)
qed

lemma canonical_text_tokens:
  "canonical_text tasks capabilities =
     RUN_DEFINITION_FORMAT @
     counted_token ''capabilities'' capability_token (map capability_form (bm_values capabilities)) @
     counted_token ''tasks'' task_token (map task_form (bm_values tasks))"
proof -
  have caps: "foldl push_capability pre cs = pre @ concat (map (capability_token \<circ> capability_form) cs)"
    for pre cs
    by (rule foldl_append_tokens) (simp add: push_capability_token)
  have tasks: "foldl push_task pre ts = pre @ concat (map (task_token \<circ> task_form) ts)" for pre ts
    by (rule foldl_append_tokens) (simp add: push_task_token)
  show ?thesis
    by (simp add: canonical_text_def Let_def push_tag_def push_count_def caps tasks counted_token_def)
qed

section \<open>The tokens are self-delimiting\<close>

interpretation value_code: self_delimiting value_token
proof -
  have "self_delimiting (\<lambda>v. ''%'' @ (decimal (length v) @ CHR '':'' # v) @ [])"
    by (intro self_delimiting_frame self_delimiting_bytes) (simp add: is_digit_def byte_of_def)
  then show "self_delimiting value_token"
    by (simp add: value_token_def [abs_def])
qed

lemma as_str_inject: "as_str i = as_str j \<Longrightarrow> i = j"
  by (rule Id.expand)

lemma id_code: "self_delimiting (\<lambda>i. value_token (as_str i))"
  by (rule self_delimiting_map [OF value_code.self_delimiting_axioms as_str_inject])

lemma identity_code: "self_delimiting (\<lambda>i. value_token (identity_str i))"
  by (rule self_delimiting_map [OF value_code.self_delimiting_axioms]) (rule DefinitionIdentity.expand)

interpretation requirement_code: self_delimiting requirement_token
proof -
  have "self_delimiting (\<lambda>r :: CapabilityRequirement. case (cq_capability_id r, cq_definition_identity r) of
      (i, d) \<Rightarrow> value_token (as_str i) @ value_token (identity_str d))"
    by (rule self_delimiting_map [OF self_delimiting_pair [OF id_code identity_code],
          where f = "\<lambda>r. (cq_capability_id r, cq_definition_identity r)"])
      (auto intro: CapabilityRequirement.equality)
  then show "self_delimiting requirement_token"
    by (simp add: requirement_token_def [abs_def])
qed

lemma counted_code:
  assumes "self_delimiting token"
  shows "self_delimiting (counted_token tag token)"
proof -
  have "self_delimiting (\<lambda>xs. (''#'' @ tag @ ''['') @
      (decimal (length xs) @ CHR '']'' # concat (map token xs)) @ ''#end'')"
    by (intro self_delimiting_frame self_delimiting_counted assms) (simp add: is_digit_def byte_of_def)
  then show ?thesis by (simp add: counted_token_def [abs_def])
qed

lemma OperationId_as_str_inject: "OperationId_as_str a = OperationId_as_str b \<Longrightarrow> a = b"
  by (simp add: OperationId_as_str_def Id.expand OperationId.expand)

interpretation effect_code: self_delimiting effect_token
proof
  fix e f :: "EffectSpec option" and r s
  assume eq: "effect_token e @ r = effect_token f @ s"
  have spec: "x = y" if "es_operation_id x = es_operation_id y" "es_semantics x = es_semantics y"
    for x y :: EffectSpec
    using that by simp
  show "e = f \<and> r = s"
  proof (cases e; cases f)
    fix x y
    assume ef: "e = Some x" "f = Some y"
    have "value_token (OperationId_as_str (es_operation_id x)) @
        (case es_semantics x of Idempotent \<Rightarrow> ''#idempotent'' | NonIdempotent \<Rightarrow> ''#non_idempotent'') @ r =
      value_token (OperationId_as_str (es_operation_id y)) @
        (case es_semantics y of Idempotent \<Rightarrow> ''#idempotent'' | NonIdempotent \<Rightarrow> ''#non_idempotent'') @ s"
      using eq by (simp add: effect_token_def ef)
    then have op: "es_operation_id x = es_operation_id y" and
      rest: "(case es_semantics x of Idempotent \<Rightarrow> ''#idempotent'' | NonIdempotent \<Rightarrow> ''#non_idempotent'') @ r =
        (case es_semantics y of Idempotent \<Rightarrow> ''#idempotent'' | NonIdempotent \<Rightarrow> ''#non_idempotent'') @ s"
      by (blast dest: value_code.delimited OperationId_as_str_inject)+
    from rest have "es_semantics x = es_semantics y \<and> r = s"
      by (simp split: EffectSemantics.splits)
    with op spec show ?thesis by (simp add: ef)
  qed (use eq in \<open>auto simp: effect_token_def\<close>)
qed

interpretation capability_code: self_delimiting capability_token
proof -
  have "self_delimiting (\<lambda>x. ''#capability'' @ (case x of (i, y) \<Rightarrow> value_token (as_str i) @
      (case y of (kind, z) \<Rightarrow> value_token kind @
        (case z of (identity, rs) \<Rightarrow> value_token (identity_str identity) @
          counted_token ''requires'' requirement_token rs))) @ [])"
    by (intro self_delimiting_frame self_delimiting_pair id_code identity_code counted_code
        value_code.self_delimiting_axioms requirement_code.self_delimiting_axioms)
  moreover have "(\<lambda>x. ''#capability'' @ (case x of (i, y) \<Rightarrow> value_token (as_str i) @
      (case y of (kind, z) \<Rightarrow> value_token kind @
        (case z of (identity, rs) \<Rightarrow> value_token (identity_str identity) @
          counted_token ''requires'' requirement_token rs))) @ []) = capability_token"
    by (auto simp: capability_token_def)
  ultimately show "self_delimiting capability_token" by metis
qed

interpretation task_code: self_delimiting task_token
proof -
  have "self_delimiting (\<lambda>x. ''#task'' @ (case x of (i, y) \<Rightarrow> value_token (as_str i) @
      (case y of (ds, z) \<Rightarrow> counted_token ''depends'' (\<lambda>d. value_token (as_str d)) ds @
        (case z of (rs, e) \<Rightarrow> counted_token ''requires'' requirement_token rs @
          (''#effect'' @ effect_token e @ [])))) @ [])"
    by (intro self_delimiting_frame self_delimiting_pair id_code identity_code counted_code
        effect_code.self_delimiting_axioms requirement_code.self_delimiting_axioms)
  moreover have "(\<lambda>x. ''#task'' @ (case x of (i, y) \<Rightarrow> value_token (as_str i) @
      (case y of (ds, z) \<Rightarrow> counted_token ''depends'' (\<lambda>d. value_token (as_str d)) ds @
        (case z of (rs, e) \<Rightarrow> counted_token ''requires'' requirement_token rs @
          (''#effect'' @ effect_token e @ [])))) @ []) = task_token"
    by (auto simp: task_token_def)
  ultimately show "self_delimiting task_token" by metis
qed

text \<open>The canonical text determines the normal forms.\<close>

lemma canonical_text_inject:
  "canonical_text tasks capabilities = canonical_text tasks' capabilities' \<longleftrightarrow>
     map capability_form (bm_values capabilities) = map capability_form (bm_values capabilities') \<and>
     map task_form (bm_values tasks) = map task_form (bm_values tasks')"
proof -
  let ?caps = "counted_token ''capabilities'' capability_token"
  let ?tasks = "counted_token ''tasks'' task_token"
  have caps: "self_delimiting ?caps" by (rule counted_code) (rule capability_code.self_delimiting_axioms)
  have tasks: "self_delimiting ?tasks" by (rule counted_code) (rule task_code.self_delimiting_axioms)
  have "?caps x @ ?tasks y = ?caps x' @ ?tasks y' \<longleftrightarrow> x = x' \<and> y = y'" for x x' y y'
    using self_delimiting.delimited [OF caps] self_delimiting.injective [OF tasks] by blast
  then show ?thesis by (simp add: canonical_text_tokens)
qed

text \<open>The text starts with the format tag, so the identity is never blank.\<close>

lemma canonical_identity_Inr:
  "canonical_identity tasks capabilities = Inr (WorkflowReplayIdentity (canonical_text tasks capabilities))"
  by (simp add: canonical_identity_def WorkflowReplayIdentity_new_def canonical_text_tokens
      RUN_DEFINITION_FORMAT_def white1_def white2_def white3_def byte_of_def)

end
