(* ===== verification/Definition_Acceptance.thy ===== *)
theory Definition_Acceptance
  imports Definition_Validation Definition_Encoding "HOL-Library.Multiset"
begin

text \<open>
  The two graph authorities on a definition, and the acceptance of a whole definition. The
  capability graph built from a definition resolves exactly when the declared edges are
  acyclic, the workflow batch built from it is applied exactly when the prerequisite edges
  are acyclic, and \<^verbatim>\<open>validated\<close> accepts exactly the valid definitions.
\<close>

section \<open>The capability graph\<close>

lemma declared_capability_fold:
  "cd_id (fold (\<lambda>r d. definition_add_dependency d (cq_capability_id r)) rs d) = cd_id d"
  "cd_dependencies (fold (\<lambda>r d. definition_add_dependency d (cq_capability_id r)) rs d) =
     cd_dependencies d |\<union>| fset_of_list (map (Dependency \<circ> cq_capability_id) rs)"
  by (induction rs arbitrary: d) (auto simp: definition_add_dependency_def)

lemma declared_capability_sel:
  "cd_id (declared_capability c) = cl_id c"
  "set (definition_requirements (declared_capability c)) = cq_capability_id ` set (cl_dependencies c)"
  by (simp_all add: declared_capability_def declared_capability_fold with_replay_identity_def
      CapabilityDefinition_new_def definition_requirements_def fset_of_list.rep_eq image_image)

lemma declared_graph_from_definitions:
  "declared_graph m = from_definitions (map declared_capability (bm_values m))"
  by (simp add: declared_graph_def from_definitions_def fold_map comp_def)

lemma declared_graph_lookup:
  assumes "keyed cl_id m"
  shows "fmlookup (cg_definitions (declared_graph m)) i = map_option declared_capability (fmlookup m i)"
proof -
  let ?ds = "map declared_capability (bm_values m)"
  have ids: "map cd_id ?ds = bm_keys m"
    using keyed_map_values [OF assms] by (simp add: comp_def declared_capability_sel)
  have "fmlookup (cg_definitions (declared_graph m)) i = Some d \<longleftrightarrow> d \<in> set ?ds \<and> cd_id d = i" for d
    unfolding declared_graph_from_definitions by (rule from_definitions_unique) (simp only: ids distinct_bm_keys)
  moreover have "d \<in> set ?ds \<and> cd_id d = i \<longleftrightarrow> map_option declared_capability (fmlookup m i) = Some d" for d
    using assms by (auto simp: set_bm_values keyed_def declared_capability_sel)
  ultimately show ?thesis by (metis option.exhaust)
qed

lemma declared_graph_requirements:
  assumes "keyed cl_id m"
  shows "d \<in> set (requirements (declared_graph m) i) \<longleftrightarrow>
    (\<exists>c r. fmlookup m i = Some c \<and> r \<in> set (cl_dependencies c) \<and> d = cq_capability_id r)"
  by (cases "fmlookup m i")
     (auto simp: requirements_def requirements_of_def declared_graph_lookup [OF assms]
       declared_capability_sel)

lemma validate_capability_graph_Inr:
  assumes "keyed cl_id m"
    and known: "\<And>c r. c \<in> set (bm_values m) \<Longrightarrow> r \<in> set (cl_dependencies c) \<Longrightarrow>
      contains_key m (cq_capability_id r)"
  shows "validate_capability_graph m = Inr u \<longleftrightarrow> acyclic (capability_edges (set (bm_values m)))"
proof -
  have "edges_of (requirements (declared_graph m)) = capability_edges (set (bm_values m))"
    using assms(1)
    by (auto simp: edges_of_def capability_edges_def declared_graph_requirements [OF assms(1)]
        set_bm_values keyed_def)
  moreover have "contains_key (cg_definitions (declared_graph m)) d"
    if "d \<in> set (requirements (declared_graph m) c)" for c d
    using that known
    by (auto simp: declared_graph_requirements [OF assms(1)] contains_key_def
        declared_graph_lookup [OF assms(1)] set_bm_values)
  moreover have "validate_capability_graph m = Inr u \<longleftrightarrow> (\<exists>r. resolve (declared_graph m) = Inr r)"
    by (auto simp: validate_capability_graph_def split: sum.splits)
  ultimately show ?thesis unfolding resolve_Inr_iff resolvable_def by auto
qed

section \<open>The workflow graph\<close>

lemma add_tasks_fold:
  assumes "distinct (map t_id ts)" and "\<forall>t\<in>set ts. \<not> contains_task (wg_topology g) (t_id t)"
  shows "try_fold apply_mutation_step g (map AddTask ts) =
    Inr (g\<lparr>wg_topology := (wg_topology g)\<lparr>wt_tasks :=
            fold (\<lambda>t m. fmupd (t_id t) t m) ts (wt_tasks (wg_topology g))\<rparr>\<rparr>)"
  using assms
proof (induction ts arbitrary: g)
  case (Cons t ts)
  let ?g = "g\<lparr>wg_topology := (wg_topology g)\<lparr>wt_tasks := fmupd (t_id t) t (wt_tasks (wg_topology g))\<rparr>\<rparr>"
  have "apply_mutation_step g (AddTask t) = Inr ?g"
    using Cons.prems by (simp add: apply_mutation_step_def Let_def)
  moreover have "\<forall>s\<in>set ts. \<not> contains_task (wg_topology ?g) (t_id s)"
    using Cons.prems by (auto simp: contains_task_def image_iff)
  ultimately show ?case using Cons.IH [of ?g] Cons.prems(1) by simp
qed simp

lemma edges_insert_dependency:
  "edges_of (topology_dependencies (insert_dependency t i d)) =
     insert (i, d) (edges_of (topology_dependencies t))"
proof -
  have "set (topology_dependencies (insert_dependency t i d) j) =
      (if j = i then insert d (set (topology_dependencies t i)) else set (topology_dependencies t j))" for j
    by (auto simp: topology_dependencies_def insert_dependency_def dependencies_entry_def
        split: option.splits)
  then show ?thesis by (auto simp: edges_of_def split: if_splits)
qed

lemma add_dependency_step:
  assumes wf: "wf_topology (wg_topology g)" and "ef_completed (wg_facts g) = {||}"
    and known: "contains_task (wg_topology g) i" "contains_task (wg_topology g) d"
    and new: "(i, d) \<notin> edges_of (topology_dependencies (wg_topology g))"
  shows "case apply_mutation_step g (AddDependency i d) of
      Inr g' \<Rightarrow> g' = g\<lparr>wg_topology := insert_dependency (wg_topology g) i d\<rparr> \<and>
        wf_topology (wg_topology g')
    | Inl _ \<Rightarrow> \<not> acyclic (insert (i, d) (edges_of (topology_dependencies (wg_topology g))))"
proof -
  let ?t = "insert_dependency (wg_topology g) i d"
  have from_tasks: "edges_from_tasks ?t"
    using wf_topology_edges_from_tasks [OF wf] known
    by (auto simp: edges_from_tasks_def insert_dependency_def contains_task_def contains_key_def
        fmlookup_dom'_iff)
  have free: "\<not> facts_is_completed (wg_facts g) i" "d |\<notin>| dependencies_entry (wg_topology g) i"
    using assms(2) new by (auto simp: facts_is_completed_def dependencies_entry_iff)
  show ?thesis
  proof (cases "cycle_path ?t")
    case None
    then have "apply_mutation_step g (AddDependency i d) = Inr (g\<lparr>wg_topology := ?t\<rparr>)"
      using known free
      by (simp only: apply_mutation_step_Inr apply_mutation_success_iff added_to_def
          WorkflowMutation.case simp_thms)
    moreover have "wf_topology ?t" by (rule wf_topology_insert_dependency [OF wf known None])
    ultimately show ?thesis by simp
  next
    case (Some stop)
    then have "\<not> acyclic (edges_of (topology_dependencies ?t))"
      using cycle_path_None_iff [OF from_tasks] by simp
    moreover have "\<exists>e. apply_mutation_step g (AddDependency i d) = Inl e"
      using Some known free
      by (auto simp: apply_mutation_step_def add_dependency_def Let_def split: visit_stop.splits)
    ultimately show ?thesis by (auto simp: edges_insert_dependency)
  qed
qed

lemma add_dependencies_fold:
  assumes "wf_topology (wg_topology g)" and "ef_completed (wg_facts g) = {||}"
    and "\<forall>(i, d)\<in>set ps. contains_task (wg_topology g) i \<and> contains_task (wg_topology g) d"
    and "distinct ps" and "set ps \<inter> edges_of (topology_dependencies (wg_topology g)) = {}"
  shows "case try_fold apply_mutation_step g (map (\<lambda>(i, d). AddDependency i d) ps) of
      Inr g' \<Rightarrow> wf_topology (wg_topology g') \<and> wg_facts g' = wg_facts g \<and>
        wt_tasks (wg_topology g') = wt_tasks (wg_topology g) \<and>
        edges_of (topology_dependencies (wg_topology g')) =
          edges_of (topology_dependencies (wg_topology g)) \<union> set ps
    | Inl _ \<Rightarrow> \<not> acyclic (edges_of (topology_dependencies (wg_topology g)) \<union> set ps)"
  using assms
proof (induction ps arbitrary: g)
  case (Cons p ps)
  obtain i d where p: "p = (i, d)" by (cases p)
  let ?E = "edges_of (topology_dependencies (wg_topology g))"
  have step: "case apply_mutation_step g (AddDependency i d) of
      Inr g' \<Rightarrow> g' = g\<lparr>wg_topology := insert_dependency (wg_topology g) i d\<rparr> \<and> wf_topology (wg_topology g')
    | Inl _ \<Rightarrow> \<not> acyclic (insert (i, d) ?E)"
    using Cons.prems p by (intro add_dependency_step) auto
  show ?case
  proof (cases "apply_mutation_step g (AddDependency i d)")
    case (Inl e)
    with step have "\<not> acyclic (insert (i, d) ?E)" by simp
    then have "\<not> acyclic (?E \<union> set (p # ps))"
      using acyclic_subset [of "?E \<union> set (p # ps)" "insert (i, d) ?E"] p by auto
    then show ?thesis using Inl p by simp
  next
    case (Inr h)
    with step have h: "h = g\<lparr>wg_topology := insert_dependency (wg_topology g) i d\<rparr>"
      and wf: "wf_topology (wg_topology h)" by auto
    have E: "edges_of (topology_dependencies (wg_topology h)) = insert (i, d) ?E"
      by (simp add: h edges_insert_dependency)
    have "case try_fold apply_mutation_step h (map (\<lambda>(i, d). AddDependency i d) ps) of
        Inr g' \<Rightarrow> wf_topology (wg_topology g') \<and> wg_facts g' = wg_facts h \<and>
          wt_tasks (wg_topology g') = wt_tasks (wg_topology h) \<and>
          edges_of (topology_dependencies (wg_topology g')) =
            edges_of (topology_dependencies (wg_topology h)) \<union> set ps
      | Inl _ \<Rightarrow> \<not> acyclic (edges_of (topology_dependencies (wg_topology h)) \<union> set ps)"
      using Cons.prems wf E p h by (intro Cons.IH) auto
    then show ?thesis using Inr p E h by (simp split: sum.splits)
  qed
qed (simp add: wf_topology_def)

text \<open>The batch built from a task map, as a list of edges.\<close>

definition edge_list :: "TaskDefinition list \<Rightarrow> (Id \<times> Id) list" where
  "edge_list ts = concat (map (\<lambda>t. map (Pair (td_id t)) (td_dependencies t)) ts)"

lemma set_edge_list: "set (edge_list ts) = task_edges (set ts)"
  by (auto simp: edge_list_def task_edges_def)

lemma distinct_edge_list:
  assumes "distinct (map td_id ts)" and "\<forall>t\<in>set ts. distinct (td_dependencies t)"
  shows "distinct (edge_list ts)"
  using assms by (induction ts) (auto simp: edge_list_def distinct_map inj_on_def)

lemma definition_mutations_edges:
  "definition_mutations tasks =
     map AddTask (map (\<lambda>t. \<lparr>t_id = td_id t, t_label = td_label t\<rparr>) (bm_values tasks)) @
     map (\<lambda>(i, d). AddDependency i d) (edge_list (bm_values tasks))"
  by (simp add: definition_mutations_def edge_list_def map_concat comp_def)

definition wf_task_map :: "(Id, TaskDefinition) fmap \<Rightarrow> bool" where
  "wf_task_map tasks \<longleftrightarrow>
     keyed td_id tasks \<and>
     (\<forall>t\<in>set (bm_values tasks). distinct (td_dependencies t) \<and> set (td_dependencies t) \<subseteq> fmdom' tasks)"

definition graph_of_tasks :: "(Id, TaskDefinition) fmap \<Rightarrow> WorkflowGraph \<Rightarrow> bool" where
  "graph_of_tasks tasks g \<longleftrightarrow>
     wf_topology (wg_topology g) \<and> wg_facts g = wg_facts WorkflowGraph_default \<and>
     fmdom' (wt_tasks (wg_topology g)) = fmdom' tasks \<and>
     edges_of (topology_dependencies (wg_topology g)) = task_edges (set (bm_values tasks))"

lemma definition_mutations_fold:
  assumes "wf_task_map tasks"
  shows "case try_fold apply_mutation_step WorkflowGraph_default (definition_mutations tasks) of
      Inr g \<Rightarrow> graph_of_tasks tasks g
    | Inl _ \<Rightarrow> \<not> acyclic (task_edges (set (bm_values tasks)))"
proof -
  let ?vs = "bm_values tasks"
  let ?ts = "map (\<lambda>t. \<lparr>t_id = td_id t, t_label = td_label t\<rparr>) ?vs"
  define m where "m = fold (\<lambda>t m. fmupd (t_id t) t m) ?ts fmempty"
  define g where "g = WorkflowGraph_default\<lparr>wg_topology :=
    (wg_topology WorkflowGraph_default)\<lparr>wt_tasks := m\<rparr>\<rparr>"
  have keys: "map td_id ?vs = bm_keys tasks"
    using assms by (simp add: wf_task_map_def keyed_map_values)
  then have ids: "distinct (map t_id ?ts)" by (simp add: comp_def)
  have m: "m = index_by t_id ?ts" by (simp add: m_def index_by_def)
  have dom: "fmdom' m = fmdom' tasks"
  proof -
    have "fmdom' m = t_id ` set ?ts" unfolding m by (rule index_by_keys [OF ids])
    also have "\<dots> = set (map td_id ?vs)" by (simp add: image_image)
    finally show ?thesis by (simp add: keys)
  qed
  have g: "try_fold apply_mutation_step WorkflowGraph_default (map AddTask ?ts) = Inr g"
    using add_tasks_fold [OF ids, of WorkflowGraph_default]
    by (simp add: g_def m_def WorkflowGraph_default_def contains_task_def)
  have no_edges: "edges_of (topology_dependencies (wg_topology g)) = {}"
    by (simp add: g_def WorkflowGraph_default_def edges_of_def topology_dependencies_def)
  have wf: "wf_topology (wg_topology g)"
    using index_by_lookup [OF ids]
    by (auto simp: g_def m WorkflowGraph_default_def wf_topology_def acyclic_def edges_of_def
        topology_dependencies_def)
  have known: "\<forall>(i, d)\<in>set (edge_list ?vs). contains_task (wg_topology g) i \<and> contains_task (wg_topology g) d"
  proof -
    have task: "contains_task (wg_topology g) i \<longleftrightarrow> i \<in> fmdom' tasks" for i
      using dom by (auto simp: contains_task_def g_def contains_key_iff fmlookup_dom'_iff)
    have "td_id t \<in> fmdom' tasks" if "t \<in> set ?vs" for t
      using that keys by (metis image_eqI list.set_map set_bm_keys)
    then show ?thesis
      using assms by (auto simp: set_edge_list task_edges_def task wf_task_map_def)
  qed
  have "case try_fold apply_mutation_step g (map (\<lambda>(i, d). AddDependency i d) (edge_list ?vs)) of
      Inr g' \<Rightarrow> wf_topology (wg_topology g') \<and> wg_facts g' = wg_facts g \<and>
        wt_tasks (wg_topology g') = wt_tasks (wg_topology g) \<and>
        edges_of (topology_dependencies (wg_topology g')) =
          edges_of (topology_dependencies (wg_topology g)) \<union> set (edge_list ?vs)
    | Inl _ \<Rightarrow> \<not> acyclic (edges_of (topology_dependencies (wg_topology g)) \<union> set (edge_list ?vs))"
  proof (rule add_dependencies_fold [OF wf _ known])
    show "ef_completed (wg_facts g) = {||}" by (simp add: g_def WorkflowGraph_default_def)
    show "distinct (edge_list ?vs)"
      using assms keys by (intro distinct_edge_list) (auto simp: wf_task_map_def)
  qed (simp add: no_edges)
  moreover have "try_fold apply_mutation_step WorkflowGraph_default (definition_mutations tasks) =
      try_fold apply_mutation_step g (map (\<lambda>(i, d). AddDependency i d) (edge_list ?vs))"
    by (simp only: definition_mutations_edges try_fold_append g sum.case)
  moreover have "wt_tasks (wg_topology g) = m" and "wg_facts g = wg_facts WorkflowGraph_default"
    by (simp_all add: g_def)
  ultimately show ?thesis
    using dom by (simp only: no_edges set_edge_list graph_of_tasks_def Un_empty_left) (simp split: sum.splits)
qed

lemma definition_batch:
  assumes wf: "wf_task_map tasks" and "definition_mutations tasks \<noteq> []"
  shows "case apply_batch WorkflowGraph_default Revision_ZERO
      (MutationBatch_from_mutations (definition_mutations tasks)) of
      (g, Inr _) \<Rightarrow> graph_of_tasks tasks g \<and> acyclic (task_edges (set (bm_values tasks)))
    | (_, Inl _) \<Rightarrow> \<not> acyclic (task_edges (set (bm_values tasks)))"
proof -
  have rev: "Revision_checked_next Revision_ZERO = Some (Revision 1)"
    by (simp add: Revision_checked_next_def Revision_ZERO_def checked_add_u64_def)
  show ?thesis
  proof (cases "try_fold apply_mutation_step WorkflowGraph_default (definition_mutations tasks)")
    case (Inl e)
    then show ?thesis
      using definition_mutations_fold [OF wf] assms(2) rev
      by (simp add: apply_batch_def MutationBatch_from_mutations_def MutationBatch_is_empty_def
          MutationBatch_as_slice_def WorkflowGraph_default_def)
  next
    case (Inr g)
    then have g: "graph_of_tasks tasks g" using definition_mutations_fold [OF wf] by simp
    then have acyc: "acyclic (task_edges (set (bm_values tasks)))"
      by (auto simp: graph_of_tasks_def wf_topology_def)
    have "wf_topology (wg_topology g)" using g by (simp add: graph_of_tasks_def)
    then have "cycle_path (wg_topology g) = None"
      using cycle_path_None_iff [OF wf_topology_edges_from_tasks] by (simp add: wf_topology_def)
    then show ?thesis
      using Inr assms(2) rev g acyc
      by (simp add: apply_batch_def MutationBatch_from_mutations_def MutationBatch_is_empty_def
          MutationBatch_as_slice_def WorkflowGraph_default_def graph_of_tasks_def Let_def)
  qed
qed

lemma validate_workflow_Inr:
  assumes "wf_task_map tasks"
  shows "validate_workflow tasks = Inr u \<longleftrightarrow> acyclic (task_edges (set (bm_values tasks)))"
proof (cases "definition_mutations tasks = []")
  case True
  then have "bm_values tasks = []" by (simp add: definition_mutations_def)
  with True show ?thesis by (simp add: validate_workflow_def task_edges_def acyclic_def)
next
  case False
  then show ?thesis
    using definition_batch [OF assms False]
    by (auto simp: validate_workflow_def WorkflowGraph_default_def split: prod.splits sum.splits)
qed

section \<open>Acceptance\<close>

lemma keyed_index_by: "distinct (map key xs) \<Longrightarrow> keyed key (index_by key xs)"
  by (simp add: keyed_def index_by_lookup)

lemma index_by_values_mset:
  assumes "distinct (map key xs)"
  shows "mset (bm_values (index_by key xs)) = mset xs"
proof -
  have "distinct (map key (bm_values (index_by key xs)))"
    using keyed_map_values [OF keyed_index_by [OF assms]] by simp
  then have "distinct (bm_values (index_by key xs))" by (simp add: distinct_map)
  moreover have "distinct xs" using assms by (simp add: distinct_map)
  ultimately show ?thesis
    using index_by_values [OF assms] by (simp add: set_eq_iff_mset_eq_distinct)
qed

lemma distinct_concat_mset:
  assumes "mset xs = mset ys"
  shows "distinct (concat (map f xs)) \<longleftrightarrow> distinct (concat (map f ys))"
proof -
  have "mset (concat (map f zs)) = \<Sum>\<^sub># (image_mset (\<lambda>z. mset (f z)) (mset zs))" for zs
    by (induction zs) simp_all
  with assms show ?thesis by (metis mset_eq_imp_distinct_iff)
qed

lemma full_map_values:
  assumes "distinct (map td_id (rn_tasks d))" and "distinct (map cl_id (rn_capabilities d))"
    and "identities_agree d"
  shows "set (bm_values (full_map d)) = effective_capabilities d" and "keyed cl_id (full_map d)"
  using full_map_lookup [OF assms] by (auto simp: set_bm_values keyed_def)

lemma effective_edges:
  "capability_edges (effective_capabilities d) = capability_edges (set (rn_capabilities d))"
  by (auto simp: capability_edges_def effective_capabilities_def)

lemma effective_ok:
  assumes "\<forall>t\<in>set (rn_tasks d). task_ok known t" and "\<forall>c\<in>set (rn_capabilities d). capability_ok c"
    and "c \<in> effective_capabilities d"
  shows "capability_ok c"
  using assms
  by (auto simp: effective_capabilities_def requirements_in_def task_ok_def capability_ok_def
      requirements_ok_def)

lemma effective_known:
  assumes "c \<in> effective_capabilities d" and "r \<in> set (cl_dependencies c)"
  shows "\<exists>c'\<in>effective_capabilities d. cl_id c' = cq_capability_id r"
proof -
  have r: "r \<in> requirements_in d"
    using assms by (auto simp: effective_capabilities_def requirements_in_def)
  show ?thesis
  proof (cases "cq_capability_id r \<in> cl_id ` set (rn_capabilities d)")
    case True
    then obtain c' where "c' \<in> set (rn_capabilities d)" "cl_id c' = cq_capability_id r" by auto
    then show ?thesis by (auto simp: effective_capabilities_def)
  next
    case False
    then have "declaration_implicit r \<in> effective_capabilities d"
      using r by (simp add: effective_capabilities_def)
    then show ?thesis by (metis declaration_implicit_sel(1))
  qed
qed

lemma validate_full_map:
  assumes ids: "distinct (map td_id (rn_tasks d))" "distinct (map cl_id (rn_capabilities d))"
    and agree: "identities_agree d"
    and ok: "\<forall>t\<in>set (rn_tasks d). task_ok known t" "\<forall>c\<in>set (rn_capabilities d). capability_ok c"
  shows "validate_capabilities (full_map d) = Inr ()"
    and "validate_capability_graph (full_map d) = Inr () \<longleftrightarrow>
      acyclic (capability_edges (set (rn_capabilities d)))"
proof -
  note vals = full_map_values [OF ids agree]
  show "validate_capabilities (full_map d) = Inr ()"
    using effective_ok [OF ok] by (simp add: validate_capabilities_Inr vals(1))
  have "contains_key (full_map d) (cq_capability_id r)"
    if c: "c \<in> set (bm_values (full_map d))" and r: "r \<in> set (cl_dependencies c)" for c r
  proof -
    obtain c' where "c' \<in> effective_capabilities d" and "cl_id c' = cq_capability_id r"
      using effective_known c r vals(1) by blast
    then show ?thesis using full_map_lookup [OF ids agree] by (auto simp: contains_key_iff)
  qed
  then show "validate_capability_graph (full_map d) = Inr () \<longleftrightarrow>
      acyclic (capability_edges (set (rn_capabilities d)))"
    using validate_capability_graph_Inr [OF vals(2)] by (simp add: vals(1) effective_edges)
qed

lemma validate_task_map:
  assumes ids: "distinct (map td_id (rn_tasks d))"
  shows "validate_tasks (task_map d) = Inr () \<longleftrightarrow>
      (\<forall>t\<in>set (rn_tasks d). task_ok (td_id ` set (rn_tasks d)) t) \<and>
      distinct (concat (map task_operations (rn_tasks d)))"
    and "(\<forall>t\<in>set (rn_tasks d). task_ok (td_id ` set (rn_tasks d)) t) \<Longrightarrow>
      validate_workflow (task_map d) = Inr () \<longleftrightarrow> acyclic (task_edges (set (rn_tasks d)))"
proof -
  have vals: "set (bm_values (task_map d)) = set (rn_tasks d)"
    and dom: "fmdom' (task_map d) = td_id ` set (rn_tasks d)"
    using ids by (simp_all add: task_map_def index_by_values index_by_keys)
  show "validate_tasks (task_map d) = Inr () \<longleftrightarrow>
      (\<forall>t\<in>set (rn_tasks d). task_ok (td_id ` set (rn_tasks d)) t) \<and>
      distinct (concat (map task_operations (rn_tasks d)))"
    using distinct_concat_mset [OF index_by_values_mset [OF ids], of task_operations]
    by (simp add: validate_tasks_Inr vals dom task_map_def [symmetric])
  assume "\<forall>t\<in>set (rn_tasks d). task_ok (td_id ` set (rn_tasks d)) t"
  then have "wf_task_map (task_map d)"
    using keyed_index_by [OF ids] by (auto simp: wf_task_map_def vals dom task_ok_def task_map_def [symmetric])
  then show "validate_workflow (task_map d) = Inr () \<longleftrightarrow> acyclic (task_edges (set (rn_tasks d)))"
    using validate_workflow_Inr by (simp add: vals)
qed

definition validated_form :: "RunDefinition \<Rightarrow> ValidatedRunDefinition" where
  "validated_form d =
     \<lparr>vd_tasks = task_map d, vd_capabilities = full_map d,
      vd_identity = WorkflowReplayIdentity (canonical_text (task_map d) (full_map d))\<rparr>"

lemma Inr_unit_iff: "(\<exists>u. x = Inr u) \<longleftrightarrow> x = Inr ()"
  by auto

lemma validated_Inr_iff:
  "validated d = Inr v \<longleftrightarrow> valid_definition d \<and> v = validated_form d"
proof (cases "distinct (map td_id (rn_tasks d)) \<and> distinct (map cl_id (rn_capabilities d))")
  case False
  then have "(\<exists>e. unique_tasks (rn_tasks d) = Inl e) \<or> (\<exists>e. unique_capabilities (rn_capabilities d) = Inl e)"
    using unique_tasks_Inr unique_capabilities_Inr by (metis sum.exhaust)
  with False show ?thesis
    by (auto simp: validated_def valid_definition_def split: sum.splits)
next
  case True
  then have tasks: "distinct (map td_id (rn_tasks d))" and caps: "distinct (map cl_id (rn_capabilities d))"
    by simp_all
  have unique: "unique_tasks (rn_tasks d) = Inr (task_map d)"
    "unique_capabilities (rn_capabilities d) = Inr (explicit_map d)"
    using tasks caps
    by (simp_all add: unique_tasks_Inr unique_capabilities_Inr task_map_def explicit_map_def)
  have explicit: "validate_capabilities (explicit_map d) = Inr () \<longleftrightarrow> (\<forall>c\<in>set (rn_capabilities d). capability_ok c)"
    using caps by (simp add: validate_capabilities_Inr explicit_map_def index_by_values)
  note t = validate_task_map [OF tasks]
  note m = materialize_Inr [OF tasks caps]
  show ?thesis
  proof (cases "validate_tasks (task_map d) = Inr () \<and> validate_capabilities (explicit_map d) = Inr () \<and>
      identities_agree d")
    case False
    then have "validated d \<noteq> Inr v"
      using m by (auto simp: validated_def unique split: sum.splits)
    moreover have "\<not> valid_definition d"
      using False t(1) explicit by (auto simp: valid_definition_def)
    ultimately show ?thesis by simp
  next
    case True
    then have ok: "\<forall>t\<in>set (rn_tasks d). task_ok (td_id ` set (rn_tasks d)) t"
      "\<forall>c\<in>set (rn_capabilities d). capability_ok c" and agree: "identities_agree d"
      and ops: "distinct (concat (map task_operations (rn_tasks d)))"
      using t(1) explicit by auto
    note f = validate_full_map [OF tasks caps agree ok]
    have mat: "materialize_implicit_capabilities (task_map d) (explicit_map d) = Inr (full_map d)"
      using m agree by simp
    have "validated d = Inr v \<longleftrightarrow>
        validate_capability_graph (full_map d) = Inr () \<and> validate_workflow (task_map d) = Inr () \<and>
        v = validated_form d"
      using True by (auto simp: validated_def unique mat f(1) canonical_identity_Inr validated_form_def
          split: sum.splits)
    then show ?thesis
      using f(2) t(2) [OF ok(1)] tasks caps ok agree ops by (auto simp: valid_definition_def)
  qed
qed

end
