(* ===== verification/Definition_Properties.thy ===== *)
theory Definition_Properties
  imports Definition_Acceptance
begin

text \<open>
  The contract of run definitions: which ones are accepted, and that the canonical identity
  of an accepted definition stands for its meaning, no more and no less.
\<close>

section \<open>Meaning\<close>

text \<open>
  What a definition means, without labels, authoring order or the difference between an
  implicit leaf capability and the same capability declared explicitly.
\<close>

definition task_meaning ::
    "TaskDefinition \<Rightarrow> Id \<times> Id set \<times> CapabilityRequirement set \<times> EffectSpec option" where
  "task_meaning t =
     (td_id t, set (td_dependencies t), set (td_required_capabilities t), td_effect t)"

definition capability_meaning ::
    "CapabilityDeclaration \<Rightarrow> Id \<times> string \<times> DefinitionIdentity \<times> CapabilityRequirement set" where
  "capability_meaning c =
     (cl_id c, cl_kind c, cl_definition_identity c, set (cl_dependencies c))"

lemma sort_eq_iff:
  fixes xs ys :: "'a :: linorder list"
  assumes "distinct xs" and "distinct ys"
  shows "sort xs = sort ys \<longleftrightarrow> set xs = set ys"
  using assms by (metis sorted_distinct_set_unique distinct_sort set_sort sorted_sort)

lemma sort_key_eq_iff:
  fixes f :: "'a \<Rightarrow> 'k :: linorder"
  assumes "distinct (map f xs)" and "distinct (map f ys)"
  shows "sort_key f xs = sort_key f ys \<longleftrightarrow> set xs = set ys"
proof
  assume eq: "set xs = set ys"
  have d: "distinct (map f (sort_key f zs))" if "distinct (map f zs)" for zs
    using that by (simp add: distinct_map)
  have "inj_on f (set (sort_key f xs) \<union> set (sort_key f ys))"
    using assms(1) eq by (simp add: distinct_map)
  then show "sort_key f xs = sort_key f ys"
    using d [OF assms(1)] d [OF assms(2)] eq
    by (intro map_sorted_distinct_set_unique) auto
qed (metis set_sort)

lemma image_eq_transfer:
  assumes "f ` A = f ` B" and same: "\<And>x y. x \<in> A \<Longrightarrow> y \<in> B \<Longrightarrow> f x = f y \<Longrightarrow> g x = g y"
  shows "g ` A = g ` B"
proof (intro equalityI image_subsetI)
  show "g x \<in> g ` B" if "x \<in> A" for x
  proof -
    from that have "f x \<in> f ` B" unfolding assms(1) [symmetric] by simp
    then obtain y where "y \<in> B" "f x = f y" by blast
    then have "g x = g y" by (intro same that)
    with \<open>y \<in> B\<close> show ?thesis by simp
  qed
  show "g y \<in> g ` A" if "y \<in> B" for y
  proof -
    from that have "f y \<in> f ` A" unfolding assms(1) by simp
    then obtain x where "x \<in> A" "f x = f y" by (elim imageE) simp
    then have "g x = g y" by (intro same that)
    with \<open>x \<in> A\<close> show ?thesis by (metis imageI)
  qed
qed

lemma form_lists_iff:
  fixes m m' :: "('k :: linorder, 'a) fmap"
  assumes keys: "keyed key m" "keyed key m'" and fst_form: "\<And>x. fst (form x) = key x"
    and same: "\<And>x y. x \<in> set (bm_values m) \<Longrightarrow> y \<in> set (bm_values m') \<Longrightarrow>
      form x = form y \<longleftrightarrow> meaning x = meaning y"
  shows "map form (bm_values m) = map form (bm_values m') \<longleftrightarrow>
    meaning ` set (bm_values m) = meaning ` set (bm_values m')"
proof
  assume "map form (bm_values m) = map form (bm_values m')"
  then have "form ` set (bm_values m) = form ` set (bm_values m')" by (metis list.set_map)
  then show "meaning ` set (bm_values m) = meaning ` set (bm_values m')"
    by (rule image_eq_transfer) (simp add: same)
next
  assume "meaning ` set (bm_values m) = meaning ` set (bm_values m')"
  then have sets: "form ` set (bm_values m) = form ` set (bm_values m')"
    by (rule image_eq_transfer) (simp add: same)
  have fsts: "map fst (map form (bm_values n)) = bm_keys n" if "keyed key n" for n
    using keyed_map_values [OF that] by (simp add: comp_def fst_form)
  show "map form (bm_values m) = map form (bm_values m')"
  proof (rule map_sorted_distinct_set_unique [where f = fst])
    show "inj_on fst (set (map form (bm_values m)) \<union> set (map form (bm_values m')))"
      using fsts [OF keys(1)] sets distinct_bm_keys [of m] by (metis Un_absorb distinct_map list.set_map)
  qed (use fsts [OF keys(1)] fsts [OF keys(2)] sets in \<open>simp_all del: map_map\<close>)
qed

lemma validated_meaning:
  assumes v: "valid_definition d" and v': "valid_definition d'"
  shows "canonical_text (task_map d) (full_map d) = canonical_text (task_map d') (full_map d') \<longleftrightarrow>
    task_meaning ` set (rn_tasks d) = task_meaning ` set (rn_tasks d') \<and>
    capability_meaning ` effective_capabilities d = capability_meaning ` effective_capabilities d'"
proof -
  have tasks: "keyed td_id (task_map x)" "set (bm_values (task_map x)) = set (rn_tasks x)"
    and caps: "keyed cl_id (full_map x)" "set (bm_values (full_map x)) = effective_capabilities x"
    if "valid_definition x" for x
    using that full_map_values [of x]
    by (simp_all add: valid_definition_def task_map_def keyed_index_by index_by_values)
  have "task_form x = task_form y \<longleftrightarrow> task_meaning x = task_meaning y"
    if "x \<in> set (rn_tasks d)" "y \<in> set (rn_tasks d')" for x y
    using that v v'
    by (simp add: valid_definition_def task_ok_def requirements_ok_def task_form_def task_meaning_def
        sort_eq_iff sort_key_eq_iff)
  then have t: "map task_form (bm_values (task_map d)) = map task_form (bm_values (task_map d')) \<longleftrightarrow>
      task_meaning ` set (bm_values (task_map d)) = task_meaning ` set (bm_values (task_map d'))"
    using tasks [OF v] tasks [OF v'] by (intro form_lists_iff [where key = td_id]) (simp_all add: task_form_def)
  have ok: "capability_ok c" if "valid_definition x" "c \<in> effective_capabilities x" for x c
    using that effective_ok [of x _ c] by (auto simp: valid_definition_def)
  have "capability_form x = capability_form y \<longleftrightarrow> capability_meaning x = capability_meaning y"
    if "x \<in> effective_capabilities d" "y \<in> effective_capabilities d'" for x y
    using ok [OF v that(1)] ok [OF v' that(2)]
    by (simp add: capability_ok_def requirements_ok_def capability_form_def capability_meaning_def
        sort_key_eq_iff)
  then have c: "map capability_form (bm_values (full_map d)) = map capability_form (bm_values (full_map d')) \<longleftrightarrow>
      capability_meaning ` set (bm_values (full_map d)) = capability_meaning ` set (bm_values (full_map d'))"
    using caps [OF v] caps [OF v'] by (intro form_lists_iff [where key = cl_id]) (simp_all add: capability_form_def)
  show ?thesis
    using t c by (auto simp: canonical_text_inject tasks(2) [OF v] tasks(2) [OF v'] caps(2) [OF v] caps(2) [OF v'])
qed

lemma identity_Inr_iff:
  "run_definition_identity d = Inr w \<longleftrightarrow>
     valid_definition d \<and> w = WorkflowReplayIdentity (canonical_text (task_map d) (full_map d))"
proof -
  have "run_definition_identity d = Inr w \<longleftrightarrow> (\<exists>v. validated d = Inr v \<and> w = vd_identity v)"
    by (auto simp: run_definition_identity_def split: sum.splits)
  then show ?thesis by (auto simp: validated_Inr_iff validated_form_def)
qed

section \<open>Properties\<close>

text \<open>
  C28: A run definition is accepted exactly when its task and capability identities are
  unique, prerequisites are distinct and declared, no requirement list repeats a capability,
  every definition identity is non-blank, all statements about one capability agree on its
  identity, no two tasks own the same operation, and the prerequisite graph and the
  capability dependency graph are acyclic. Validation and identity agree on acceptance.
\<close>
theorem definition_accepted_iff:
  "((\<exists>w. run_definition_identity d = Inr w) \<longleftrightarrow>
      distinct (map td_id (rn_tasks d)) \<and> distinct (map cl_id (rn_capabilities d)) \<and>
      (\<forall>t\<in>set (rn_tasks d).
         distinct (td_dependencies t) \<and> set (td_dependencies t) \<subseteq> td_id ` set (rn_tasks d) \<and>
         distinct (map cq_capability_id (td_required_capabilities t))) \<and>
      (\<forall>c\<in>set (rn_capabilities d).
         \<not> trim_is_empty (identity_str (cl_definition_identity c)) \<and>
         distinct (map cq_capability_id (cl_dependencies c))) \<and>
      (\<forall>r\<in>requirements_in d. \<not> trim_is_empty (identity_str (cq_definition_identity r))) \<and>
      (\<forall>r\<in>requirements_in d. \<forall>c\<in>set (rn_capabilities d).
         cl_id c = cq_capability_id r \<longrightarrow> cl_definition_identity c = cq_definition_identity r) \<and>
      (\<forall>r\<in>requirements_in d. \<forall>r'\<in>requirements_in d.
         cq_capability_id r' = cq_capability_id r \<longrightarrow> cq_definition_identity r' = cq_definition_identity r) \<and>
      distinct (concat (map task_operations (rn_tasks d))) \<and>
      acyclic {(cl_id c, cq_capability_id r) |c r. c \<in> set (rn_capabilities d) \<and> r \<in> set (cl_dependencies c)} \<and>
      acyclic {(td_id t, i) |t i. t \<in> set (rn_tasks d) \<and> i \<in> set (td_dependencies t)})
   \<and> (definition_validate d = Inr () \<longleftrightarrow> (\<exists>w. run_definition_identity d = Inr w))"
proof -
  have split: "(\<forall>r\<in>requirements_in d. nonblank_identity (cq_definition_identity r)) \<longleftrightarrow>
      (\<forall>t\<in>set (rn_tasks d). \<forall>r\<in>set (td_required_capabilities t). nonblank_identity (cq_definition_identity r)) \<and>
      (\<forall>c\<in>set (rn_capabilities d). \<forall>r\<in>set (cl_dependencies c). nonblank_identity (cq_definition_identity r))"
    by (auto simp: requirements_in_def)
  have accepted: "(\<exists>w. run_definition_identity d = Inr w) \<longleftrightarrow> valid_definition d"
    by (simp add: identity_Inr_iff)
  have "definition_validate d = Inr () \<longleftrightarrow> valid_definition d"
    using validated_Inr_iff [of d "validated_form d"] validated_Inr_iff [of d]
    by (cases "validated d") (auto simp: definition_validate_def)
  with accepted split show ?thesis
    unfolding valid_definition_def task_ok_def capability_ok_def requirements_ok_def
      identities_agree_def capability_edges_def task_edges_def nonblank_identity_def ball_conj_distrib
    by argo
qed

text \<open>Two ways to author the same definition, and one that differs in a single byte.\<close>

definition demo_requirement :: CapabilityRequirement where
  "demo_requirement = CapabilityRequirement_new (Id ''db'') (DefinitionIdentity ''v1'')"

definition demo_load :: TaskDefinition where
  "demo_load = TaskDefinition_new (Id ''load'') ''Load''"

definition demo_store :: "string \<Rightarrow> string \<Rightarrow> TaskDefinition" where
  "demo_store label operation =
     task_with_effect
       (task_require_capability
         (task_depends_on (TaskDefinition_new (Id ''store'') label) (Id ''load'')) demo_requirement)
       (OperationId (Id operation)) Idempotent"

definition demo_implicit :: RunDefinition where
  "demo_implicit = definition_with_task (definition_with_task RunDefinition_new demo_load) (demo_store ''Store'' ''op'')"

definition demo_explicit :: "string \<Rightarrow> RunDefinition" where
  "demo_explicit operation =
     definition_with_capability
       (definition_with_task (definition_with_task RunDefinition_new (demo_store ''Persist'' operation)) demo_load)
       (CapabilityDeclaration_new (Id ''db'') ''capability'' (DefinitionIdentity ''v1''))"

lemma demo_identities:
  "\<exists>w. run_definition_identity demo_implicit = Inr w"
  "\<exists>w. run_definition_identity (demo_explicit ''op'') = Inr w"
  "\<exists>w. run_definition_identity (demo_explicit ''oq'') = Inr w"
proof -
  have "isl (run_definition_identity demo_implicit) = False" by code_simp
  then show "\<exists>w. run_definition_identity demo_implicit = Inr w" by (cases "run_definition_identity demo_implicit") auto
  have "isl (run_definition_identity (demo_explicit ''op'')) = False" by code_simp
  then show "\<exists>w. run_definition_identity (demo_explicit ''op'') = Inr w"
    by (cases "run_definition_identity (demo_explicit ''op'')") auto
  have "isl (run_definition_identity (demo_explicit ''oq'')) = False" by code_simp
  then show "\<exists>w. run_definition_identity (demo_explicit ''oq'') = Inr w"
    by (cases "run_definition_identity (demo_explicit ''oq'')") auto
qed

theorem definition_accepted_iff_witness:
  "distinct (map td_id (rn_tasks demo_implicit)) \<and>
   acyclic {(td_id t, i) |t i. t \<in> set (rn_tasks demo_implicit) \<and> i \<in> set (td_dependencies t)}"
  using definition_accepted_iff [of demo_implicit] demo_identities(1) by blast

text \<open>
  C15: The canonical identity stands for the meaning of a definition. Two accepted
  definitions have the same identity exactly when they have the same tasks (identity,
  prerequisites, requirements and effect, in any order and with any labels) and the same
  capabilities, where a capability that is only required counts as declared with the default
  kind. No choice of names or values makes two different definitions collide.
\<close>
theorem canonical_identity_determines_meaning:
  assumes "run_definition_identity d = Inr w" and "run_definition_identity d' = Inr w'"
  shows "w = w' \<longleftrightarrow>
    task_meaning ` set (rn_tasks d) = task_meaning ` set (rn_tasks d') \<and>
    capability_meaning ` effective_capabilities d = capability_meaning ` effective_capabilities d'"
  using assms validated_meaning [of d d'] by (simp add: identity_Inr_iff)

theorem canonical_identity_determines_meaning_witness:
  "run_definition_identity demo_implicit = run_definition_identity (demo_explicit ''op'') \<and>
   run_definition_identity demo_implicit \<noteq> run_definition_identity (demo_explicit ''oq'')"
proof -
  obtain w w1 w2 where w: "run_definition_identity demo_implicit = Inr w"
    "run_definition_identity (demo_explicit ''op'') = Inr w1"
    "run_definition_identity (demo_explicit ''oq'') = Inr w2"
    using demo_identities by blast
  have meaning: "task_meaning ` set (rn_tasks demo_implicit) = {task_meaning demo_load, task_meaning (demo_store ''Store'' ''op'')}"
    "task_meaning ` set (rn_tasks (demo_explicit q)) = {task_meaning demo_load, task_meaning (demo_store ''Persist'' q)}"
    "task_meaning (demo_store ''Store'' q) = task_meaning (demo_store ''Persist'' q)" for q
    by (auto simp: demo_implicit_def demo_explicit_def definition_with_task_def
        definition_with_capability_def RunDefinition_new_def task_meaning_def demo_store_def
        task_with_effect_def task_require_capability_def task_depends_on_def TaskDefinition_new_def)
  have "effective_capabilities demo_implicit = {CapabilityDeclaration_new (Id ''db'') ''capability'' (DefinitionIdentity ''v1'')}"
    "effective_capabilities (demo_explicit ''op'') = {CapabilityDeclaration_new (Id ''db'') ''capability'' (DefinitionIdentity ''v1'')}"
    by (auto simp: effective_capabilities_def requirements_in_def demo_implicit_def demo_explicit_def
        definition_with_task_def definition_with_capability_def RunDefinition_new_def demo_store_def
        task_with_effect_def task_require_capability_def task_depends_on_def TaskDefinition_new_def
        demo_load_def demo_requirement_def CapabilityRequirement_new_def declaration_implicit_def
        CapabilityDeclaration_new_def)
  then have "w = w1"
    using canonical_identity_determines_meaning [OF w(1,2)] meaning by simp
  moreover have "task_meaning (demo_store ''Persist'' ''op'') \<notin> task_meaning ` set (rn_tasks (demo_explicit ''oq''))"
    unfolding meaning(2)
    by (simp add: demo_load_def demo_store_def task_meaning_def task_with_effect_def
        task_require_capability_def task_depends_on_def TaskDefinition_new_def)
  then have "w \<noteq> w2"
    using canonical_identity_determines_meaning [OF w(1,3)] meaning by auto
  ultimately show ?thesis using w by simp
qed

end
