(* ===== verification/Composition_Modules.thy ===== *)
theory Composition_Modules
  imports Run_Definition
begin

text \<open>
  Module declarations, process-local registrations and the host configuration of
  \<^verbatim>\<open>runtime-composition\<close> (\<^verbatim>\<open>definition.rs\<close>, \<^verbatim>\<open>registration.rs\<close>, \<^verbatim>\<open>config.rs\<close>), with
  its error types (\<^verbatim>\<open>error.rs\<close>). Executable objects are opaque: \<open>'f\<close> is the type of
  capability factories, \<open>'p\<close> of plugin runtimes and \<open>'h\<close> of lifecycle hooks. Planning
  reads of a plugin runtime only its identity and the capability it publishes. \<open>'r\<close> is the
  error type of the runtime that activation constructs.
\<close>

section \<open>Declarations\<close>

record ConfigRequirement =
  cf_key :: Id
  cf_required :: bool

record ReactiveCapabilityDeclaration =
  rc_capability_id :: Id
  rc_kind :: string
  rc_definition_identity :: DefinitionIdentity

datatype CapabilityOwnership = OwnedDeclarative | OwnedReactive

datatype CapabilityContribution =
    Declarative CapabilityDeclaration
  | Reactive ReactiveCapabilityDeclaration

fun contribution_capability_id :: "CapabilityContribution \<Rightarrow> Id" where
  "contribution_capability_id (Declarative c) = cl_id c"
| "contribution_capability_id (Reactive c) = rc_capability_id c"

fun contribution_definition_identity :: "CapabilityContribution \<Rightarrow> DefinitionIdentity" where
  "contribution_definition_identity (Declarative c) = cl_definition_identity c"
| "contribution_definition_identity (Reactive c) = rc_definition_identity c"

fun contribution_kind :: "CapabilityContribution \<Rightarrow> string" where
  "contribution_kind (Declarative c) = cl_kind c"
| "contribution_kind (Reactive c) = rc_kind c"

fun contribution_ownership :: "CapabilityContribution \<Rightarrow> CapabilityOwnership" where
  "contribution_ownership (Declarative _) = OwnedDeclarative"
| "contribution_ownership (Reactive _) = OwnedReactive"

record ModuleDefinition =
  md_id :: Id
  md_dependencies :: "Id list"
  md_tasks :: "TaskDefinition list"
  md_capabilities :: "CapabilityContribution list"
  md_config_requirements :: "ConfigRequirement list"

definition ModuleDefinition_new :: "Id \<Rightarrow> ModuleDefinition" where
  "ModuleDefinition_new i =
     \<lparr>md_id = i, md_dependencies = [], md_tasks = [], md_capabilities = [],
      md_config_requirements = []\<rparr>"

definition module_depends_on :: "ModuleDefinition \<Rightarrow> Id \<Rightarrow> ModuleDefinition" where
  "module_depends_on m dependency_id = m\<lparr>md_dependencies := md_dependencies m @ [dependency_id]\<rparr>"

definition module_with_task :: "ModuleDefinition \<Rightarrow> TaskDefinition \<Rightarrow> ModuleDefinition" where
  "module_with_task m t = m\<lparr>md_tasks := md_tasks m @ [t]\<rparr>"

definition module_with_capability ::
    "ModuleDefinition \<Rightarrow> CapabilityContribution \<Rightarrow> ModuleDefinition" where
  "module_with_capability m contribution = m\<lparr>md_capabilities := md_capabilities m @ [contribution]\<rparr>"

definition module_with_declarative_capability ::
    "ModuleDefinition \<Rightarrow> CapabilityDeclaration \<Rightarrow> ModuleDefinition" where
  "module_with_declarative_capability m c =
     m\<lparr>md_capabilities := md_capabilities m @ [Declarative c]\<rparr>"

definition module_with_reactive_capability ::
    "ModuleDefinition \<Rightarrow> Id \<Rightarrow> string \<Rightarrow> DefinitionIdentity \<Rightarrow> ModuleDefinition" where
  "module_with_reactive_capability m capability_id kind definition_identity =
     m\<lparr>md_capabilities := md_capabilities m @
         [Reactive \<lparr>rc_capability_id = capability_id, rc_kind = kind,
                    rc_definition_identity = definition_identity\<rparr>]\<rparr>"

definition module_requiring_config :: "ModuleDefinition \<Rightarrow> Id \<Rightarrow> ModuleDefinition" where
  "module_requiring_config m key =
     m\<lparr>md_config_requirements := md_config_requirements m @ [\<lparr>cf_key = key, cf_required = True\<rparr>]\<rparr>"

definition module_with_optional_config :: "ModuleDefinition \<Rightarrow> Id \<Rightarrow> ModuleDefinition" where
  "module_with_optional_config m key =
     m\<lparr>md_config_requirements := md_config_requirements m @ [\<lparr>cf_key = key, cf_required = False\<rparr>]\<rparr>"

section \<open>Registrations\<close>

record 'f FactoryContribution =
  fc_capability_id :: Id
  fc_definition_identity :: DefinitionIdentity
  fc_factory :: 'f

record 'p PluginContribution =
  pc_plugin_id :: Id
  pc_capability :: CapabilityDefinition
  pc_plugin :: 'p
  pc_config :: string

record ('f, 'p, 'h) ModuleRegistration =
  mr_definition :: ModuleDefinition
  mr_factories :: "'f FactoryContribution list"
  mr_plugins :: "'p PluginContribution list"
  mr_on_activate :: "'h option"
  mr_on_dispose :: "'h option"

definition ModuleRegistration_new :: "ModuleDefinition \<Rightarrow> ('f, 'p, 'h) ModuleRegistration" where
  "ModuleRegistration_new d =
     \<lparr>mr_definition = d, mr_factories = [], mr_plugins = [], mr_on_activate = None,
      mr_on_dispose = None\<rparr>"

definition registration_factory :: "('f, 'p, 'h) ModuleRegistration \<Rightarrow> Id \<Rightarrow> DefinitionIdentity \<Rightarrow>
    'f \<Rightarrow> ('f, 'p, 'h) ModuleRegistration" where
  "registration_factory m capability_id definition_identity factory =
     m\<lparr>mr_factories := mr_factories m @
         [\<lparr>fc_capability_id = capability_id, fc_definition_identity = definition_identity,
           fc_factory = factory\<rparr>]\<rparr>"

definition registration_plugin_with_config :: "('f, 'p, 'h) ModuleRegistration \<Rightarrow> Id \<Rightarrow>
    CapabilityDefinition \<Rightarrow> 'p \<Rightarrow> string \<Rightarrow> ('f, 'p, 'h) ModuleRegistration" where
  "registration_plugin_with_config m plugin_id capability plugin config =
     m\<lparr>mr_plugins := mr_plugins m @
         [\<lparr>pc_plugin_id = plugin_id, pc_capability = capability, pc_plugin = plugin,
           pc_config = config\<rparr>]\<rparr>"

definition registration_plugin :: "('f, 'p, 'h) ModuleRegistration \<Rightarrow> Id \<Rightarrow>
    CapabilityDefinition \<Rightarrow> 'p \<Rightarrow> ('f, 'p, 'h) ModuleRegistration" where
  "registration_plugin m plugin_id capability plugin =
     registration_plugin_with_config m plugin_id capability plugin []"

definition registration_on_activate ::
    "('f, 'p, 'h) ModuleRegistration \<Rightarrow> 'h \<Rightarrow> ('f, 'p, 'h) ModuleRegistration" where
  "registration_on_activate m hook = m\<lparr>mr_on_activate := Some hook\<rparr>"

definition registration_on_dispose ::
    "('f, 'p, 'h) ModuleRegistration \<Rightarrow> 'h \<Rightarrow> ('f, 'p, 'h) ModuleRegistration" where
  "registration_on_dispose m hook = m\<lparr>mr_on_dispose := Some hook\<rparr>"

section \<open>Host configuration\<close>

record HostConfig =
  hc_values :: "(Id, string) fmap"

definition HostConfig_new :: HostConfig where
  "HostConfig_new = \<lparr>hc_values = fmempty\<rparr>"

definition config_provide :: "HostConfig \<Rightarrow> Id \<Rightarrow> string \<Rightarrow> HostConfig" where
  "config_provide c key value = c\<lparr>hc_values := fmupd key value (hc_values c)\<rparr>"

definition config_get :: "HostConfig \<Rightarrow> Id \<Rightarrow> string option" where
  "config_get c key = fmlookup (hc_values c) key"

definition config_contains :: "HostConfig \<Rightarrow> Id \<Rightarrow> bool" where
  "config_contains c key \<longleftrightarrow> contains_key (hc_values c) key"

section \<open>Errors\<close>

datatype CleanupResource =
    DisposeHook
  | FiberResource Id  \<comment> \<open>plugin\<close>
  | PluginRegistrationResource Id  \<comment> \<open>plugin\<close>

record RollbackFailure =
  rb_module_id :: Id
  rb_resource :: CleanupResource
  rb_reason :: string

record RollbackReport =
  rr_cleaned :: "Id list"
  rr_failures :: "RollbackFailure list"

definition RollbackReport_is_success :: "RollbackReport \<Rightarrow> bool" where
  "RollbackReport_is_success r \<longleftrightarrow> rr_failures r = []"

datatype CapabilityConflictReason =
    UnownedRequirement
  | RequiredOnReactiveSlot Id  \<comment> \<open>module\<close>
  | RequirementIdentityMismatch DefinitionIdentity DefinitionIdentity  \<comment> \<open>required, declared\<close>

datatype FactoryConflictReason =
    UndeclaredSlot
  | FactoryOnReactiveSlot Id  \<comment> \<open>module\<close>
  | FactoryIdentityMismatch DefinitionIdentity  \<comment> \<open>declared\<close>
  | DuplicateFactory Id Id  \<comment> \<open>module, previous module\<close>
  | FactoryMissing
  | FactoryInvalidDefinitionIdentity

datatype PluginConflictReason =
    DuplicateRegistration Id Id  \<comment> \<open>module, previous module\<close>
  | SlotAlreadyClaimed Id Id  \<comment> \<open>module, previous module\<close>
  | UnownedPublication
  | StaticSlotCollision Id  \<comment> \<open>module\<close>
  | DefinitionMismatch string

datatype ActivationStage =
    PluginRegistrationStage Id string  \<comment> \<open>plugin, reason\<close>
  | FiberInstantiate Id string
  | FiberStart Id string
  | ActivateHook string

datatype ConstructionStage = ConstructionStart | ConstructionRestore

datatype 'r CompositionError =
    DuplicateModule Id
  | MissingModuleDependency Id Id  \<comment> \<open>module, dependency\<close>
  | ModuleDependencyCycle "Id list"
  | DuplicateTaskContribution Id Id Id  \<comment> \<open>task, module, previous module\<close>
  | DuplicateCapabilityOwnership Id Id Id  \<comment> \<open>capability, module, previous module\<close>
  | CapabilityDefinitionConflict Id CapabilityConflictReason
  | MissingCapabilityPlugin Id Id  \<comment> \<open>capability, module\<close>
  | CapabilityPluginConflict Id PluginConflictReason
  | ConfigurationConflict Id Id Id  \<comment> \<open>key, module, previous module\<close>
  | MissingConfiguration Id Id  \<comment> \<open>module, key\<close>
  | FactoryConflict Id DefinitionIdentity FactoryConflictReason
  | InvalidMergedDefinition DefinitionError
  | ActivationFailed Id ActivationStage
  | ReconciliationFailed string
  | RollbackFailed "RollbackFailure list"
  | RuntimeConstructionFailed ConstructionStage 'r
  | CompositionPanic  \<comment> \<open>not a value of the source: a failed \<^verbatim>\<open>expect\<close> or index of planning\<close>

end
