(* ===== verification/Composition_Order.thy ===== *)
theory Composition_Order
  imports Composition_Modules Dependency_Dfs
begin

text \<open>
  The activation order of \<^verbatim>\<open>runtime-composition\<close> (\<^verbatim>\<open>deterministic_order\<close> of
  \<^verbatim>\<open>plan.rs\<close>): Kahn's algorithm with the smallest module identity first, and the walk that
  reports a cycle when modules remain.
\<close>

type_synonym ('f, 'p, 'h) modules = "(Id, ('f, 'p, 'h) ModuleRegistration) fmap"

definition dependency_sets :: "('f, 'p, 'h) modules \<Rightarrow> (Id, Id fset) fmap" where
  "dependency_sets modules =
     fmmap (\<lambda>registration. fset_of_list (md_dependencies (mr_definition registration))) modules"

definition validate_dependencies :: "('f, 'p, 'h) modules \<Rightarrow> 'r CompositionError + unit" where
  "validate_dependencies modules =
     try_fold
       (\<lambda>_ module_id.
          case fmlookup modules module_id of
            None \<Rightarrow> Inl CompositionPanic
          | Some registration \<Rightarrow>
              try_fold
                (\<lambda>_ dependency_id.
                   if contains_key modules dependency_id then Inr ()
                   else Inl (MissingModuleDependency module_id dependency_id))
                () (md_dependencies (mr_definition registration)))
       () (bm_keys modules)"

section \<open>Kahn's algorithm\<close>

record kahn =
  kh_indegree :: "(Id, nat) fmap"
  kh_dependents :: "(Id, Id fset) fmap"

definition kahn_edge :: "Id \<Rightarrow> Id \<Rightarrow> kahn \<Rightarrow> kahn" where
  "kahn_edge module_id dependency_id k =
     k\<lparr>kh_indegree :=
          fmupd module_id
            ((case fmlookup (kh_indegree k) module_id of None \<Rightarrow> 0 | Some n \<Rightarrow> n) + 1) (kh_indegree k),
        kh_dependents :=
          fmupd dependency_id
            (finsert module_id
              (case fmlookup (kh_dependents k) dependency_id of None \<Rightarrow> {||} | Some s \<Rightarrow> s))
            (kh_dependents k)\<rparr>"

definition kahn_module :: "(Id, Id fset) fmap \<Rightarrow> Id \<Rightarrow> kahn \<Rightarrow> kahn" where
  "kahn_module dependencies module_id k =
     (case fmlookup dependencies module_id of
        None \<Rightarrow> k
      | Some ds \<Rightarrow> fold (kahn_edge module_id) (sorted_list_of_fset ds) k)"

definition kahn_start :: "(Id, Id fset) fmap \<Rightarrow> kahn" where
  "kahn_start dependencies =
     fold (kahn_module dependencies) (bm_keys dependencies)
       \<lparr>kh_indegree = fold (\<lambda>i m. fmupd i 0 m) (bm_keys dependencies) fmempty,
        kh_dependents = fmempty\<rparr>"

text \<open>
  The inner loop of an iteration: the counter of every dependent goes down, and a dependent
  whose counter reaches zero becomes ready. \<open>None\<close> is the panic of a missing counter or of
  a counter below zero.
\<close>

fun release_dependents :: "Id list \<Rightarrow> (Id, nat) fmap \<times> Id fset \<Rightarrow> ((Id, nat) fmap \<times> Id fset) option"
where
  "release_dependents [] st = Some st"
| "release_dependents (d # ds) (indegree, ready) =
     (case fmlookup indegree d of
        None \<Rightarrow> None
      | Some 0 \<Rightarrow> None
      | Some (Suc n) \<Rightarrow>
          release_dependents ds
            (fmupd d n indegree, if n = 0 then finsert d ready else ready))"

definition dependents_of :: "(Id, Id fset) fmap \<Rightarrow> Id \<Rightarrow> Id list" where
  "dependents_of dependents module_id =
     (case fmlookup dependents module_id of None \<Rightarrow> [] | Some s \<Rightarrow> sorted_list_of_fset s)"

definition counter_sum :: "(Id, nat) fmap \<Rightarrow> nat" where
  "counter_sum m = (\<Sum>i\<in>fmdom' m. the (fmlookup m i))"

lemma counter_sum_decrement:
  assumes "fmlookup m d = Some (Suc n)"
  shows "Suc (counter_sum (fmupd d n m)) = counter_sum m"
proof -
  have d: "d \<in> fmdom' m" using assms by (auto simp: fmlookup_dom'_iff)
  have rest: "(\<Sum>i\<in>fmdom' m - {d}. the (fmlookup (fmupd d n m) i)) =
      (\<Sum>i\<in>fmdom' m - {d}. the (fmlookup m i))"
    by (rule sum.cong) auto
  have "counter_sum (fmupd d n m) = n + (\<Sum>i\<in>fmdom' m - {d}. the (fmlookup m i))"
    unfolding rest [symmetric] using d
    by (simp add: counter_sum_def insert_absorb sum.remove [of "fmdom' m" d])
  with d assms show ?thesis by (simp add: counter_sum_def sum.remove [of "fmdom' m" d])
qed

lemma release_dependents_measure:
  "release_dependents ds (indegree, ready) = Some (indegree', ready') \<Longrightarrow>
     counter_sum indegree' + fcard ready' \<le> counter_sum indegree + fcard ready"
proof (induction ds arbitrary: indegree ready)
  case (Cons d ds)
  from Cons.prems obtain n where n: "fmlookup indegree d = Some (Suc n)"
    and rest: "release_dependents ds (fmupd d n indegree, if n = 0 then finsert d ready else ready) =
      Some (indegree', ready')"
    by (auto split: option.splits nat.splits)
  have "fcard (if n = 0 then finsert d ready else ready) \<le> Suc (fcard ready)"
    by (simp add: fcard_finsert_if)
  then show ?case using Cons.IH [OF rest] counter_sum_decrement [OF n] by simp
qed simp

function kahn_loop :: "(Id, Id fset) fmap \<Rightarrow> (Id, nat) fmap \<Rightarrow> Id fset \<Rightarrow> Id list \<Rightarrow> Id list option" where
  "kahn_loop dependents indegree ready order =
     (case sorted_list_of_fset ready of
        [] \<Rightarrow> Some order
      | module_id # _ \<Rightarrow>
          (case release_dependents (dependents_of dependents module_id)
                  (indegree, ready |-| {|module_id|}) of
             None \<Rightarrow> None
           | Some (indegree', ready') \<Rightarrow>
               kahn_loop dependents indegree' ready' (order @ [module_id])))"
  by pat_completeness auto

termination
proof (relation "measure (\<lambda>(_, indegree, ready, _). counter_sum indegree + fcard ready)")
  fix dependents indegree ready order i xs st indegree' ready'
  assume first: "sorted_list_of_fset ready = i # xs"
    and released: "release_dependents (dependents_of dependents i) (indegree, ready |-| {|i|}) = Some st"
    and st: "(indegree', ready') = st"
  have i: "i |\<in>| ready" using first by (metis list.set_intros(1) sorted_list_of_fset_simps(1))
  then have "fcard ready = Suc (fcard (ready |-| {|i|}))"
    by (metis fcard_Suc_fminus1)
  with release_dependents_measure [OF released [folded st]]
  show "((dependents, indegree', ready', order @ [i]), (dependents, indegree, ready, order))
      \<in> measure (\<lambda>(_, indegree, ready, _). counter_sum indegree + fcard ready)"
    by simp
qed simp

declare kahn_loop.simps [simp del]

definition initially_ready :: "(Id, nat) fmap \<Rightarrow> Id fset" where
  "initially_ready indegree =
     fset_of_list (filter (\<lambda>i. fmlookup indegree i = Some 0) (bm_keys indegree))"

section \<open>The cycle walk\<close>

definition next_remaining :: "(Id, Id fset) fmap \<Rightarrow> Id fset \<Rightarrow> Id \<Rightarrow> Id option" where
  "next_remaining dependencies remaining cursor =
     (case fmlookup dependencies cursor of
        None \<Rightarrow> None
      | Some ds \<Rightarrow> find (\<lambda>d. d |\<in>| remaining) (sorted_list_of_fset ds))"

lemma next_remaining_Some:
  "next_remaining dependencies remaining cursor = Some d \<Longrightarrow> d |\<in>| remaining"
  by (auto simp: next_remaining_def dest: find_Some_mem split: option.splits)

text \<open>\<open>None\<close> is the panic of a cursor without a remaining dependency.\<close>

function cycle_walk :: "(Id, Id fset) fmap \<Rightarrow> Id fset \<Rightarrow> Id list \<Rightarrow> (Id, nat) fmap \<Rightarrow> Id \<Rightarrow> Id list option"
where
  "cycle_walk dependencies remaining path positions cursor =
     (case fmlookup positions cursor of
        Some start \<Rightarrow> Some (drop start path @ [cursor])
      | None \<Rightarrow>
          (case next_remaining dependencies remaining cursor of
             None \<Rightarrow> None
           | Some cursor' \<Rightarrow>
               cycle_walk dependencies remaining (path @ [cursor])
                 (fmupd cursor (length path) positions) cursor'))"
  by pat_completeness auto

termination
proof (relation "measure (\<lambda>(_, remaining, _, positions, cursor).
    card (fset remaining - fmdom' positions) + (if cursor |\<in>| remaining then 0 else 1))")
  fix dependencies :: "(Id, Id fset) fmap" and remaining path and positions :: "(Id, nat) fmap"
    and cursor cursor'
  assume new: "fmlookup positions cursor = None"
    and nxt: "next_remaining dependencies remaining cursor = Some cursor'"
  have in_rem: "cursor' |\<in>| remaining" using nxt by (rule next_remaining_Some)
  have "cursor \<notin> fmdom' positions" using new by (auto simp: fmlookup_dom'_iff)
  then have "cursor |\<in>| remaining \<Longrightarrow>
      card (fset remaining - insert cursor (fmdom' positions)) < card (fset remaining - fmdom' positions)"
    by (intro psubset_card_mono) auto
  moreover have "cursor |\<notin>| remaining \<Longrightarrow>
      card (fset remaining - insert cursor (fmdom' positions)) \<le> card (fset remaining - fmdom' positions)"
    by (intro card_mono) auto
  ultimately show "((dependencies, remaining, path @ [cursor], fmupd cursor (length path) positions, cursor'),
      (dependencies, remaining, path, positions, cursor))
      \<in> measure (\<lambda>(_, remaining, _, positions, cursor).
          card (fset remaining - fmdom' positions) + (if cursor |\<in>| remaining then 0 else 1))"
    using in_rem by auto
qed simp

declare cycle_walk.simps [simp del]

section \<open>The order\<close>

definition remaining_modules :: "('f, 'p, 'h) modules \<Rightarrow> Id list \<Rightarrow> Id fset" where
  "remaining_modules modules order = ffilter (\<lambda>i. i \<notin> set order) (fmdom modules)"

definition deterministic_order :: "('f, 'p, 'h) modules \<Rightarrow> 'r CompositionError + Id list" where
  "deterministic_order modules =
     (let dependencies = dependency_sets modules;
          k = kahn_start dependencies
      in case kahn_loop (kh_dependents k) (kh_indegree k) (initially_ready (kh_indegree k)) [] of
           None \<Rightarrow> Inl CompositionPanic
         | Some order \<Rightarrow>
             if length order = length (bm_keys modules) then Inr order
             else
               let remaining = remaining_modules modules order in
               (case sorted_list_of_fset remaining of
                  [] \<Rightarrow> Inl CompositionPanic
                | cursor # _ \<Rightarrow>
                    (case cycle_walk dependencies remaining [] fmempty cursor of
                       None \<Rightarrow> Inl CompositionPanic
                     | Some cycle \<Rightarrow> Inl (ModuleDependencyCycle cycle))))"

end
