(* ===== verification/Composition_Plan.thy ===== *)
theory Composition_Plan
  imports Composition_Order
begin

text \<open>
  Side-effect-free composition planning (\<^verbatim>\<open>plan.rs\<close>): the builder, the validation of
  contributions against the capability slot table, the merged run definition and factory
  registry, and the plan they form.
\<close>

section \<open>The builder\<close>

record ('f, 'p, 'h) CompositionBuilder =
  cb_modules :: "('f, 'p, 'h) modules"

definition CompositionBuilder_new :: "('f, 'p, 'h) CompositionBuilder" where
  "CompositionBuilder_new = \<lparr>cb_modules = fmempty\<rparr>"

definition composition_register :: "('f, 'p, 'h) CompositionBuilder \<Rightarrow> ('f, 'p, 'h) ModuleRegistration \<Rightarrow>
    'r CompositionError + ('f, 'p, 'h) CompositionBuilder" where
  "composition_register b registration =
     (let module_id = md_id (mr_definition registration) in
      if contains_key (cb_modules b) module_id then Inl (DuplicateModule module_id)
      else Inr (b\<lparr>cb_modules := fmupd module_id registration (cb_modules b)\<rparr>))"

section \<open>Capability slots and tasks\<close>

record CapabilitySlot =
  sl_module_id :: Id
  sl_ownership :: CapabilityOwnership
  sl_definition_identity :: DefinitionIdentity
  sl_kind :: string

definition slot_of :: "Id \<Rightarrow> CapabilityContribution \<Rightarrow> CapabilitySlot" where
  "slot_of module_id contribution =
     \<lparr>sl_module_id = module_id, sl_ownership = contribution_ownership contribution,
      sl_definition_identity = contribution_definition_identity contribution,
      sl_kind = contribution_kind contribution\<rparr>"

definition claim_slot :: "Id \<Rightarrow> (Id, CapabilitySlot) fmap \<Rightarrow> CapabilityContribution \<Rightarrow>
    'r CompositionError + (Id, CapabilitySlot) fmap" where
  "claim_slot module_id slots contribution =
     (let capability_id = contribution_capability_id contribution in
      case fmlookup slots capability_id of
        Some previous \<Rightarrow>
          Inl (DuplicateCapabilityOwnership capability_id module_id (sl_module_id previous))
      | None \<Rightarrow> Inr (fmupd capability_id (slot_of module_id contribution) slots))"

definition validate_capability_slots ::
    "('f, 'p, 'h) modules \<Rightarrow> 'r CompositionError + (Id, CapabilitySlot) fmap" where
  "validate_capability_slots modules =
     try_fold
       (\<lambda>slots (module_id, registration).
          try_fold (claim_slot module_id) slots (md_capabilities (mr_definition registration)))
       fmempty (bm_items modules)"

definition claim_task :: "Id \<Rightarrow> (Id, Id) fmap \<Rightarrow> TaskDefinition \<Rightarrow> 'r CompositionError + (Id, Id) fmap" where
  "claim_task module_id owners t =
     (case fmlookup owners (td_id t) of
        Some previous_module_id \<Rightarrow>
          Inl (DuplicateTaskContribution (td_id t) module_id previous_module_id)
      | None \<Rightarrow> Inr (fmupd (td_id t) module_id owners))"

definition validate_task_contributions :: "('f, 'p, 'h) modules \<Rightarrow> 'r CompositionError + unit" where
  "validate_task_contributions modules =
     (case try_fold
             (\<lambda>owners (module_id, registration).
                try_fold (claim_task module_id) owners (md_tasks (mr_definition registration)))
             fmempty (bm_items modules) of
        Inl e \<Rightarrow> Inl e
      | Inr _ \<Rightarrow> Inr ())"

section \<open>Requirements\<close>

definition validate_requirement :: "(Id, CapabilitySlot) fmap \<Rightarrow> CapabilityRequirement \<Rightarrow>
    'r CompositionError + unit" where
  "validate_requirement slots requirement =
     (let capability_id = cq_capability_id requirement;
          required_identity = cq_definition_identity requirement
      in case fmlookup slots capability_id of
           None \<Rightarrow> Inl (CapabilityDefinitionConflict capability_id UnownedRequirement)
         | Some slot \<Rightarrow>
             if sl_ownership slot = OwnedReactive then
               Inl (CapabilityDefinitionConflict capability_id (RequiredOnReactiveSlot (sl_module_id slot)))
             else if sl_definition_identity slot \<noteq> required_identity then
               Inl (CapabilityDefinitionConflict capability_id
                      (RequirementIdentityMismatch required_identity (sl_definition_identity slot)))
             else Inr ())"

text \<open>The requirements of a module in the order the two loops visit them.\<close>

definition module_requirements :: "('f, 'p, 'h) ModuleRegistration \<Rightarrow> CapabilityRequirement list" where
  "module_requirements registration =
     concat (map td_required_capabilities (md_tasks (mr_definition registration))) @
     concat (map (\<lambda>contribution. case contribution of
                    Declarative c \<Rightarrow> cl_dependencies c
                  | Reactive _ \<Rightarrow> [])
               (md_capabilities (mr_definition registration)))"

definition validate_requirements ::
    "('f, 'p, 'h) modules \<Rightarrow> (Id, CapabilitySlot) fmap \<Rightarrow> 'r CompositionError + unit" where
  "validate_requirements modules slots =
     try_fold
       (\<lambda>_ registration.
          try_fold (\<lambda>_. validate_requirement slots) () (module_requirements registration))
       () (bm_values modules)"

section \<open>Factories\<close>

definition first_factory_owner :: "('f, 'p, 'h) modules \<Rightarrow> Id \<Rightarrow> DefinitionIdentity \<Rightarrow> Id option" where
  "first_factory_owner modules capability_id definition_identity =
     map_option fst
       (find (\<lambda>(_, registration).
                list_ex (\<lambda>c. fc_capability_id c = capability_id \<and>
                             fc_definition_identity c = definition_identity) (mr_factories registration))
          (bm_items modules))"

definition claim_factory :: "('f, 'p, 'h) modules \<Rightarrow> (Id, CapabilitySlot) fmap \<Rightarrow> Id \<Rightarrow>
    'f FactoryRegistry \<Rightarrow> 'f FactoryContribution \<Rightarrow> 'r CompositionError + 'f FactoryRegistry" where
  "claim_factory modules slots module_id factories contribution =
     (let capability_id = fc_capability_id contribution;
          definition_identity = fc_definition_identity contribution
      in if trim_is_empty (identity_str definition_identity) then
           Inl (FactoryConflict capability_id definition_identity FactoryInvalidDefinitionIdentity)
         else
           (case fmlookup slots capability_id of
              None \<Rightarrow> Inl (FactoryConflict capability_id definition_identity UndeclaredSlot)
            | Some slot \<Rightarrow>
                if sl_ownership slot = OwnedReactive then
                  Inl (FactoryConflict capability_id definition_identity
                         (FactoryOnReactiveSlot (sl_module_id slot)))
                else if sl_definition_identity slot \<noteq> definition_identity then
                  Inl (FactoryConflict capability_id definition_identity
                         (FactoryIdentityMismatch (sl_definition_identity slot)))
                else
                  (case factory_register factories capability_id definition_identity
                          (fc_factory contribution) of
                     (factories', Inr _) \<Rightarrow> Inr factories'
                   | (_, Inl _) \<Rightarrow>
                       (case first_factory_owner modules capability_id definition_identity of
                          None \<Rightarrow> Inl CompositionPanic
                        | Some previous_module_id \<Rightarrow>
                            Inl (FactoryConflict capability_id definition_identity
                                   (DuplicateFactory module_id previous_module_id))))))"

definition check_slot_factory ::
    "'f FactoryRegistry \<Rightarrow> unit \<Rightarrow> Id \<times> CapabilitySlot \<Rightarrow> 'r CompositionError + unit" where
  "check_slot_factory factories u = (\<lambda>(capability_id, slot).
     if sl_ownership slot = OwnedDeclarative
        \<and> \<not> factory_contains factories capability_id (sl_definition_identity slot) then
       Inl (FactoryConflict capability_id (sl_definition_identity slot) FactoryMissing)
     else Inr ())"

definition validate_factories :: "('f, 'p, 'h) modules \<Rightarrow> (Id, CapabilitySlot) fmap \<Rightarrow>
    'r CompositionError + 'f FactoryRegistry" where
  "validate_factories modules slots =
     (case try_fold
             (\<lambda>factories (module_id, registration).
                try_fold (claim_factory modules slots module_id) factories (mr_factories registration))
             FactoryRegistry_new (bm_items modules) of
        Inl e \<Rightarrow> Inl e
      | Inr factories \<Rightarrow>
          (case try_fold (check_slot_factory factories) () (bm_items slots) of
             Inl e \<Rightarrow> Inl e
           | Inr _ \<Rightarrow> Inr factories))"

section \<open>Plugins\<close>

definition first_plugin_owner :: "('f, 'p, 'h) modules \<Rightarrow> Id \<Rightarrow> Id option" where
  "first_plugin_owner modules plugin_id =
     map_option fst
       (find (\<lambda>(_, registration). list_ex (\<lambda>c. pc_plugin_id c = plugin_id) (mr_plugins registration))
          (bm_items modules))"

record plugin_scan =
  ps_plugin_owners :: "Id fset"
  ps_reactive_claims :: "(Id, Id) fmap"

definition check_plugin_dependency ::
    "(Id, CapabilitySlot) fmap \<Rightarrow> unit \<Rightarrow> Id \<Rightarrow> 'r CompositionError + unit" where
  "check_plugin_dependency slots u dependency =
     (if contains_key slots dependency then Inr ()
      else Inl (CapabilityDefinitionConflict dependency UnownedRequirement))"

definition claim_reactive_slot :: "Id \<Rightarrow> 'p PluginContribution \<Rightarrow> CapabilitySlot \<Rightarrow> plugin_scan \<Rightarrow>
    'r CompositionError + plugin_scan" where
  "claim_reactive_slot module_id contribution slot scan =
     (let plugin_id = pc_plugin_id contribution;
          capability = pc_capability contribution
      in case fmlookup (ps_reactive_claims scan) (cd_id capability) of
           Some previous_module_id \<Rightarrow>
             Inl (CapabilityPluginConflict plugin_id (SlotAlreadyClaimed module_id previous_module_id))
         | None \<Rightarrow>
             if cd_kind capability \<noteq> sl_kind slot then
               Inl (CapabilityPluginConflict plugin_id
                      (DefinitionMismatch (''plugin kind '' @ cd_kind capability @
                         '' differs from slot kind '' @ sl_kind slot)))
             else if cd_replay_identity capability \<noteq> identity_str (sl_definition_identity slot) then
               Inl (CapabilityPluginConflict plugin_id
                      (DefinitionMismatch (''plugin replay identity '' @ cd_replay_identity capability @
                         '' differs from slot identity '' @ identity_str (sl_definition_identity slot))))
             else
               Inr (scan\<lparr>ps_reactive_claims :=
                           fmupd (cd_id capability) module_id (ps_reactive_claims scan)\<rparr>))"

definition claim_plugin :: "('f, 'p, 'h) modules \<Rightarrow> (Id, CapabilitySlot) fmap \<Rightarrow> Id \<Rightarrow> plugin_scan \<Rightarrow>
    'p PluginContribution \<Rightarrow> 'r CompositionError + plugin_scan" where
  "claim_plugin modules slots module_id scan contribution =
     (let plugin_id = pc_plugin_id contribution;
          capability = pc_capability contribution
      in if plugin_id |\<in>| ps_plugin_owners scan then
           (case first_plugin_owner modules plugin_id of
              None \<Rightarrow> Inl CompositionPanic
            | Some previous_module_id \<Rightarrow>
                Inl (CapabilityPluginConflict plugin_id
                       (DuplicateRegistration module_id previous_module_id)))
         else
           (case try_fold (check_plugin_dependency slots) () (definition_requirements capability) of
              Inl e \<Rightarrow> Inl e
            | Inr _ \<Rightarrow>
                (case fmlookup slots (cd_id capability) of
                   None \<Rightarrow> Inl (CapabilityPluginConflict plugin_id UnownedPublication)
                 | Some slot \<Rightarrow>
                     if sl_ownership slot = OwnedDeclarative then
                       Inl (CapabilityPluginConflict plugin_id (StaticSlotCollision (sl_module_id slot)))
                     else
                       claim_reactive_slot module_id contribution slot
                         (scan\<lparr>ps_plugin_owners := finsert plugin_id (ps_plugin_owners scan)\<rparr>))))"

definition check_slot_plugin ::
    "(Id, Id) fmap \<Rightarrow> unit \<Rightarrow> Id \<times> CapabilitySlot \<Rightarrow> 'r CompositionError + unit" where
  "check_slot_plugin claims u = (\<lambda>(capability_id, slot).
     if sl_ownership slot = OwnedReactive \<and> \<not> contains_key claims capability_id then
       Inl (MissingCapabilityPlugin capability_id (sl_module_id slot))
     else Inr ())"

definition validate_plugins ::
    "('f, 'p, 'h) modules \<Rightarrow> (Id, CapabilitySlot) fmap \<Rightarrow> 'r CompositionError + unit" where
  "validate_plugins modules slots =
     (case try_fold
             (\<lambda>scan (module_id, registration).
                try_fold (claim_plugin modules slots module_id) scan (mr_plugins registration))
             \<lparr>ps_plugin_owners = {||}, ps_reactive_claims = fmempty\<rparr> (bm_items modules) of
        Inl e \<Rightarrow> Inl e
      | Inr scan \<Rightarrow> try_fold (check_slot_plugin (ps_reactive_claims scan)) () (bm_items slots))"

section \<open>Configuration\<close>

definition claim_config :: "Id \<Rightarrow> (Id, Id \<times> bool) fmap \<Rightarrow> ConfigRequirement \<Rightarrow>
    'r CompositionError + (Id, Id \<times> bool) fmap" where
  "claim_config module_id claims requirement =
     (case fmlookup claims (cf_key requirement) of
        Some (previous_module_id, previous_required) \<Rightarrow>
          if previous_required \<noteq> cf_required requirement then
            Inl (ConfigurationConflict (cf_key requirement) module_id previous_module_id)
          else Inr (fmupd (cf_key requirement) (module_id, cf_required requirement) claims)
      | None \<Rightarrow> Inr (fmupd (cf_key requirement) (module_id, cf_required requirement) claims))"

definition validate_configuration :: "('f, 'p, 'h) modules \<Rightarrow> 'r CompositionError + unit" where
  "validate_configuration modules =
     (case try_fold
             (\<lambda>claims (module_id, registration).
                try_fold (claim_config module_id) claims
                  (md_config_requirements (mr_definition registration)))
             fmempty (bm_items modules) of
        Inl e \<Rightarrow> Inl e
      | Inr _ \<Rightarrow> Inr ())"

section \<open>The merged definition and the plan\<close>

definition declarative_declarations :: "('f, 'p, 'h) modules \<Rightarrow> CapabilityDeclaration list" where
  "declarative_declarations modules =
     concat (map (\<lambda>registration.
                    concat (map (\<lambda>contribution. case contribution of
                                   Declarative c \<Rightarrow> [c]
                                 | Reactive _ \<Rightarrow> [])
                              (md_capabilities (mr_definition registration))))
               (bm_values modules))"

definition merge_tasks :: "('f, 'p, 'h) modules \<Rightarrow> Id list \<Rightarrow> 'r CompositionError + RunDefinition" where
  "merge_tasks modules order =
     try_fold
       (\<lambda>d module_id.
          case fmlookup modules module_id of
            None \<Rightarrow> Inl CompositionPanic
          | Some registration \<Rightarrow> Inr (fold (\<lambda>t d. add_task d t) (md_tasks (mr_definition registration)) d))
       RunDefinition_new order"

definition merge_definition :: "('f, 'p, 'h) modules \<Rightarrow> Id list \<Rightarrow> (Id, CapabilitySlot) fmap \<Rightarrow>
    'r CompositionError + RunDefinition" where
  "merge_definition modules order slots =
     (case merge_tasks modules order of
        Inl e \<Rightarrow> Inl e
      | Inr d \<Rightarrow>
          let declarations = fold (\<lambda>c m. fmupd (cl_id c) c m) (declarative_declarations modules) fmempty;
              merged = fold (\<lambda>capability_id d.
                               case fmlookup declarations capability_id of
                                 Some c \<Rightarrow> add_capability d c
                               | None \<Rightarrow> d) (bm_keys slots) d
          in (case definition_validate merged of
                Inl e \<Rightarrow> Inl (InvalidMergedDefinition e)
              | Inr _ \<Rightarrow> Inr merged))"

record ('f, 'p, 'h) CompositionPlan =
  cp_modules :: "('f, 'p, 'h) modules"
  cp_order :: "Id list"
  cp_definition :: RunDefinition
  cp_factories :: "'f FactoryRegistry"
  cp_slots :: "(Id, CapabilitySlot) fmap"

definition composition_build ::
    "('f, 'p, 'h) CompositionBuilder \<Rightarrow> 'r CompositionError + ('f, 'p, 'h) CompositionPlan" where
  "composition_build b =
     (let modules = cb_modules b in
     (case validate_dependencies modules of Inl e \<Rightarrow> Inl e | Inr _ \<Rightarrow>
     (case deterministic_order modules of Inl e \<Rightarrow> Inl e | Inr order \<Rightarrow>
     (case validate_capability_slots modules of Inl e \<Rightarrow> Inl e | Inr slots \<Rightarrow>
     (case validate_task_contributions modules of Inl e \<Rightarrow> Inl e | Inr _ \<Rightarrow>
     (case validate_requirements modules slots of Inl e \<Rightarrow> Inl e | Inr _ \<Rightarrow>
     (case validate_factories modules slots of Inl e \<Rightarrow> Inl e | Inr factories \<Rightarrow>
     (case validate_plugins modules slots of Inl e \<Rightarrow> Inl e | Inr _ \<Rightarrow>
     (case validate_configuration modules of Inl e \<Rightarrow> Inl e | Inr _ \<Rightarrow>
     (case merge_definition modules order slots of Inl e \<Rightarrow> Inl e | Inr d \<Rightarrow>
        Inr \<lparr>cp_modules = modules, cp_order = order, cp_definition = d,
             cp_factories = factories, cp_slots = slots\<rparr>))))))))))"

text \<open>The first check of \<^verbatim>\<open>activate\<close>: the host provides every required configuration key.\<close>

definition check_host_config ::
    "('f, 'p, 'h) CompositionPlan \<Rightarrow> HostConfig \<Rightarrow> 'r CompositionError + unit" where
  "check_host_config plan config =
     try_fold
       (\<lambda>_ (module_id, registration).
          try_fold
            (\<lambda>_ requirement.
               if cf_required requirement \<and> \<not> config_contains config (cf_key requirement) then
                 Inl (MissingConfiguration module_id (cf_key requirement))
               else Inr ())
            () (md_config_requirements (mr_definition registration)))
       () (bm_items (cp_modules plan))"

end
