(* ===== verification/Composition_Kahn.thy ===== *)
theory Composition_Kahn
  imports Composition_Order Keyed_Loops
begin

text \<open>
  Correctness of the activation order. \<open>greedy_order\<close> is the specification: at every
  position stands the smallest module whose dependencies all stand before it. The loop
  computes it without a panic, and when modules remain the walk finds a closed path among
  them.
\<close>

definition succ_list :: "(Id, Id fset) fmap \<Rightarrow> Id \<Rightarrow> Id list" where
  "succ_list deps i = (case fmlookup deps i of None \<Rightarrow> [] | Some ds \<Rightarrow> sorted_list_of_fset ds)"

lemma succ_list_support: "support (succ_list deps) \<subseteq> fmdom' deps"
  by (auto simp: support_def succ_list_def fmlookup_dom'_iff split: option.splits)

interpretation module_graph: dependency_graph "succ_list deps" for deps
  by unfold_locales (rule finite_subset [OF succ_list_support], simp)

text \<open>The modules that may come next after \<open>xs\<close>.\<close>

definition eligible :: "(Id, Id fset) fmap \<Rightarrow> Id list \<Rightarrow> Id set" where
  "eligible deps xs = {i \<in> fmdom' deps. i \<notin> set xs \<and> set (succ_list deps i) \<subseteq> set xs}"

definition greedy_order :: "(Id, Id fset) fmap \<Rightarrow> Id list \<Rightarrow> bool" where
  "greedy_order deps xs \<longleftrightarrow>
     (\<forall>k<length xs. xs ! k \<in> eligible deps (take k xs) \<and>
        (\<forall>i\<in>eligible deps (take k xs). xs ! k \<le> i))"

lemma greedy_order_snoc:
  "greedy_order deps (xs @ [x]) \<longleftrightarrow>
     greedy_order deps xs \<and> x \<in> eligible deps xs \<and> (\<forall>i\<in>eligible deps xs. x \<le> i)"
proof -
  have "(\<forall>k<Suc n. P k) \<longleftrightarrow> (\<forall>k<n. P k) \<and> P n" for P and n :: nat
    by (auto simp: less_Suc_eq)
  then show ?thesis by (simp add: greedy_order_def nth_append)
qed

lemma greedy_order_distinct: "greedy_order deps xs \<Longrightarrow> distinct xs \<and> set xs \<subseteq> fmdom' deps"
  by (induction xs rule: rev_induct) (auto simp: greedy_order_snoc eligible_def)

lemma greedy_order_dfs_inv: "greedy_order deps xs \<Longrightarrow> dfs_inv (succ_list deps) (set xs) []"
proof (induction xs rule: rev_induct)
  case Nil
  then show ?case by (simp add: dfs_inv_start)
next
  case (snoc x xs)
  then have "dfs_inv (succ_list deps) (set xs) []" and x: "x \<notin> set xs" "set (succ_list deps x) \<subseteq> set xs"
    by (auto simp: greedy_order_snoc eligible_def)
  then have "dfs_inv (succ_list deps) (set xs) ([] @ [x])"
    by (intro dfs_inv_push) simp_all
  then have "dfs_inv (succ_list deps) (insert x (set xs)) []" using x(2) by (rule dfs_inv_pop)
  then show ?case by simp
qed

text \<open>A greedy order is determined by the dependencies and its length.\<close>

lemma greedy_order_unique:
  assumes "greedy_order deps xs" and "greedy_order deps ys" and "length xs = length ys"
  shows "xs = ys"
  using assms(3,1,2)
proof (induction xs ys rule: rev_induct2)
  case (3 x xs)
  then show ?case by simp
next
  case (4 x xs y ys)
  then have "xs = ys" by (simp add: greedy_order_snoc)
  with 4 show ?case by (auto simp: greedy_order_snoc intro: antisym)
qed simp_all

section \<open>The counters\<close>

lemma fold_kahn_edge:
  assumes "fmlookup (kh_indegree k) i = Some n"
  shows "kh_indegree (fold (kahn_edge i) ds k) = fmupd i (n + length ds) (kh_indegree k)"
    and "set (dependents_of (kh_dependents (fold (kahn_edge i) ds k)) d) =
      set (dependents_of (kh_dependents k) d) \<union> (if d \<in> set ds then {i} else {})"
  using assms
proof (induction ds arbitrary: k n)
  case Nil
  {
    case (1 k n)
    then have "fmupd i n (kh_indegree k) = kh_indegree k" by (intro fmap_ext) auto
    then show ?case by simp
  next
    case 2
    then show ?case by simp
  }
next
  case (Cons e ds)
  {
    case (1 k n)
    then have k: "kh_indegree (kahn_edge i e k) = fmupd i (Suc n) (kh_indegree k)"
      by (simp add: kahn_edge_def)
    have "fmupd i m (fmupd i (Suc n) (kh_indegree k)) = fmupd i m (kh_indegree k)" for m
      by (intro fmap_ext) auto
    then show ?case using Cons.IH(1) [of "kahn_edge i e k" "Suc n"] k by simp
  next
    case (2 k n)
    have "set (dependents_of (kh_dependents (kahn_edge i e k)) d) =
        set (dependents_of (kh_dependents k) d) \<union> (if d = e then {i} else {})"
      by (auto simp: kahn_edge_def dependents_of_def split: option.splits)
    moreover have "fmlookup (kh_indegree (kahn_edge i e k)) i = Some (Suc n)"
      using 2 by (simp add: kahn_edge_def)
    ultimately show ?case using Cons.IH(2) [of "kahn_edge i e k" "Suc n"] by auto
  }
qed

lemma kahn_module_effect:
  assumes "fmlookup (kh_indegree k) i = Some n"
  shows "kh_indegree (kahn_module deps i k) = fmupd i (n + length (succ_list deps i)) (kh_indegree k)"
    and "set (dependents_of (kh_dependents (kahn_module deps i k)) d) =
      set (dependents_of (kh_dependents k) d) \<union> (if d \<in> set (succ_list deps i) then {i} else {})"
proof -
  have "kahn_module deps i k = fold (kahn_edge i) (succ_list deps i) k"
    by (simp add: kahn_module_def succ_list_def split: option.splits)
  then show "kh_indegree (kahn_module deps i k) = fmupd i (n + length (succ_list deps i)) (kh_indegree k)"
    and "set (dependents_of (kh_dependents (kahn_module deps i k)) d) =
      set (dependents_of (kh_dependents k) d) \<union> (if d \<in> set (succ_list deps i) then {i} else {})"
    using fold_kahn_edge [OF assms] by simp_all
qed

lemma fold_kahn_module:
  assumes "distinct ms" and "\<forall>i\<in>set ms. fmlookup (kh_indegree k) i = Some 0"
  shows "fmlookup (kh_indegree (fold (kahn_module deps) ms k)) j =
      (if j \<in> set ms then Some (length (succ_list deps j)) else fmlookup (kh_indegree k) j)"
    and "set (dependents_of (kh_dependents (fold (kahn_module deps) ms k)) d) =
      set (dependents_of (kh_dependents k) d) \<union> {i \<in> set ms. d \<in> set (succ_list deps i)}"
  using assms
proof (induction ms arbitrary: k)
  case Nil
  {
    case 1
    then show ?case by simp
  next
    case 2
    then show ?case by simp
  }
next
  case (Cons i ms)
  have keep: "\<forall>x\<in>set ms. fmlookup (kh_indegree (kahn_module deps i k)) x = Some 0"
    if "distinct (i # ms)" "\<forall>x\<in>set (i # ms). fmlookup (kh_indegree k) x = Some 0" for k
    using that kahn_module_effect(1) [of k i 0 deps] by auto
  {
    case (1 k)
    then show ?case
      using Cons.IH(1) [of "kahn_module deps i k"] keep [of k] kahn_module_effect(1) [of k i 0 deps]
      by auto
  next
    case (2 k)
    then show ?case
      using Cons.IH(2) [of "kahn_module deps i k"] keep [of k] kahn_module_effect(2) [of k i 0 deps d]
      by auto
  }
qed

lemma fold_zero_lookup:
  "fmlookup (fold (\<lambda>i m. fmupd i 0 m) ms m) j = (if j \<in> set ms then Some 0 else fmlookup m j)"
  by (induction ms arbitrary: m) auto

lemma kahn_start_indegree:
  "fmlookup (kh_indegree (kahn_start deps)) i =
     (if i \<in> fmdom' deps then Some (card (set (succ_list deps i))) else None)"
proof -
  have "distinct (succ_list deps i)"
    by (simp add: succ_list_def sorted_list_of_fset.rep_eq split: option.splits)
  then show ?thesis
    using fold_kahn_module(1) [of "bm_keys deps" _ deps]
    by (simp add: kahn_start_def fold_zero_lookup distinct_card)
qed

lemma kahn_start_dependents:
  "set (dependents_of (kh_dependents (kahn_start deps)) d) =
     {i \<in> fmdom' deps. d \<in> set (succ_list deps i)}"
  using fold_kahn_module(2) [of "bm_keys deps" _ deps]
  by (simp add: kahn_start_def fold_zero_lookup dependents_of_def)

lemma distinct_dependents_of: "distinct (dependents_of m i)"
  by (simp add: dependents_of_def sorted_list_of_fset.rep_eq split: option.splits)

section \<open>The loop\<close>

lemma release_dependents_counts:
  assumes "distinct ds" and "\<forall>d\<in>set ds. fmlookup indegree d = Some (Suc (count d))"
  shows "\<exists>indegree' ready'.
    release_dependents ds (indegree, ready) = Some (indegree', ready') \<and>
    (\<forall>i. fmlookup indegree' i = (if i \<in> set ds then Some (count i) else fmlookup indegree i)) \<and>
    fset ready' = fset ready \<union> {d \<in> set ds. count d = 0}"
  using assms
proof (induction ds arbitrary: indegree ready)
  case (Cons d ds)
  let ?i = "fmupd d (count d) indegree" and ?r = "if count d = 0 then finsert d ready else ready"
  have "\<forall>e\<in>set ds. fmlookup ?i e = Some (Suc (count e))" using Cons.prems by auto
  then obtain indegree' ready' where
      "release_dependents ds (?i, ?r) = Some (indegree', ready')"
      "\<forall>i. fmlookup indegree' i = (if i \<in> set ds then Some (count i) else fmlookup ?i i)"
      "fset ready' = fset ?r \<union> {d \<in> set ds. count d = 0}"
    using Cons.IH [of ?i ?r] Cons.prems(1) by auto
  with Cons.prems show ?case by (intro exI [of _ indegree'] exI [of _ ready']) auto
qed simp

definition kahn_inv :: "(Id, Id fset) fmap \<Rightarrow> (Id, nat) fmap \<Rightarrow> Id fset \<Rightarrow> Id list \<Rightarrow> bool" where
  "kahn_inv deps indegree ready order \<longleftrightarrow>
     greedy_order deps order \<and> fset ready = eligible deps order \<and>
     (\<forall>i\<in>fmdom' deps. fmlookup indegree i = Some (card (set (succ_list deps i) - set order)))"

lemma kahn_inv_start:
  "kahn_inv deps (kh_indegree (kahn_start deps)) (initially_ready (kh_indegree (kahn_start deps))) []"
proof -
  have "fmdom' (kh_indegree (kahn_start deps)) = fmdom' deps"
    by (auto simp: fmlookup_dom'_iff kahn_start_indegree split: if_splits)
  then show ?thesis
    by (auto simp: kahn_inv_def greedy_order_def eligible_def initially_ready_def kahn_start_indegree
        fset_of_list.rep_eq)
qed

lemma kahn_inv_step:
  assumes inv: "kahn_inv deps indegree ready order"
    and first: "sorted_list_of_fset ready = i # rest"
    and dependents: "\<And>d. set (dependents_of dependents d) = {j \<in> fmdom' deps. d \<in> set (succ_list deps j)}"
  shows "\<exists>indegree' ready'.
    release_dependents (dependents_of dependents i) (indegree, ready |-| {|i|}) = Some (indegree', ready') \<and>
    kahn_inv deps indegree' ready' (order @ [i])"
proof -
  define left where "left j = set (succ_list deps j) - set order" for j
  have fin: "finite (left j)" for j by (simp add: left_def)
  have sorted: "sorted (i # rest)" and mem: "set (i # rest) = fset ready"
    using first by (metis sorted_list_of_fset.rep_eq sorted_list_of_set.sorted_sorted_key_list_of_set map_ident)
      (metis first sorted_list_of_fset_simps(1))
  have least: "i \<in> eligible deps order" "\<forall>j\<in>eligible deps order. i \<le> j"
    using sorted mem inv by (auto simp: kahn_inv_def)
  have greedy: "greedy_order deps (order @ [i])"
    using inv least by (simp add: greedy_order_snoc kahn_inv_def)
  have new: "i \<notin> set order" using least(1) by (simp add: eligible_def)
  let ?ds = "dependents_of dependents i"
  have "\<forall>j\<in>set ?ds. fmlookup indegree j = Some (Suc (card (left j - {i})))"
  proof
    fix j
    assume "j \<in> set ?ds"
    then have "j \<in> fmdom' deps" and "i \<in> left j" using new by (auto simp: dependents left_def)
    then show "fmlookup indegree j = Some (Suc (card (left j - {i})))"
      using inv card.remove [OF fin \<open>i \<in> left j\<close>] by (simp add: kahn_inv_def left_def)
  qed
  then obtain indegree' ready' where
      rel: "release_dependents ?ds (indegree, ready |-| {|i|}) = Some (indegree', ready')"
      and counts: "\<And>j. fmlookup indegree' j =
        (if j \<in> set ?ds then Some (card (left j - {i})) else fmlookup indegree j)"
      and ready': "fset ready' = fset (ready |-| {|i|}) \<union> {j \<in> set ?ds. card (left j - {i}) = 0}"
    using release_dependents_counts [OF distinct_dependents_of, of dependents i indegree
        "\<lambda>j. card (left j - {i})" "ready |-| {|i|}"] by blast
  have left': "set (succ_list deps j) - set (order @ [i]) = left j - {i}" for j
    by (auto simp: left_def)
  have "fmlookup indegree' j = Some (card (left j - {i}))" if "j \<in> fmdom' deps" for j
  proof (cases "j \<in> set ?ds")
    case False
    then have "i \<notin> left j" using that by (auto simp: dependents left_def)
    then show ?thesis using False counts inv that by (simp add: kahn_inv_def left_def)
  qed (simp add: counts)
  moreover have "fset ready' = eligible deps (order @ [i])"
  proof -
    have "card (left j - {i}) = 0 \<longleftrightarrow> set (succ_list deps j) \<subseteq> set (order @ [i])" for j
      using fin [of j] by (auto simp: left_def)
    moreover have "set (succ_list deps j) \<subseteq> set order" if "j \<in> set order" for j
      using that greedy_order_dfs_inv inv by (auto simp: kahn_inv_def dfs_inv_def)
    ultimately show ?thesis
      unfolding ready' using inv new least(1) by (auto simp: kahn_inv_def eligible_def dependents)
  qed
  ultimately have "kahn_inv deps indegree' ready' (order @ [i])"
    using greedy unfolding kahn_inv_def left' by blast
  with rel show ?thesis by blast
qed

lemma kahn_loop_correct:
  assumes "kahn_inv deps indegree ready order"
    and "\<And>d. set (dependents_of dependents d) = {j \<in> fmdom' deps. d \<in> set (succ_list deps j)}"
  shows "\<exists>order'. kahn_loop dependents indegree ready order = Some order' \<and>
    greedy_order deps order' \<and> eligible deps order' = {}"
  using assms
proof (induction dependents indegree ready order rule: kahn_loop.induct)
  case (1 dependents indegree ready order)
  show ?case
  proof (cases "sorted_list_of_fset ready")
    case Nil
    then have "fset ready = {}" by (metis list.set(1) sorted_list_of_fset_simps(1))
    with Nil 1(2) show ?thesis by (simp add: kahn_loop.simps kahn_inv_def)
  next
    case (Cons i rest)
    obtain indegree' ready' where
        rel: "release_dependents (dependents_of dependents i) (indegree, ready |-| {|i|}) =
          Some (indegree', ready')"
        and inv: "kahn_inv deps indegree' ready' (order @ [i])"
      using kahn_inv_step [OF 1(2) Cons 1(3)] by blast
    show ?thesis
      using 1(1) [OF Cons rel refl inv 1(3)] Cons rel by (simp add: kahn_loop.simps [of _ indegree])
  qed
qed

section \<open>The cycle walk\<close>

definition walk_ok :: "(Id, Id fset) fmap \<Rightarrow> Id fset \<Rightarrow> Id list \<Rightarrow> (Id, nat) fmap \<Rightarrow> Id \<Rightarrow> bool" where
  "walk_ok deps remaining path positions cursor \<longleftrightarrow>
     distinct path \<and> cursor |\<in>| remaining \<and>
     successively (\<lambda>x y. y \<in> set (succ_list deps x)) (path @ [cursor]) \<and>
     (\<forall>x p. fmlookup positions x = Some p \<longleftrightarrow> p < length path \<and> path ! p = x)"

lemma walk_ok_seen:
  assumes "walk_ok deps remaining path positions cursor" and "fmlookup positions cursor = Some p"
  shows "closed_path (succ_list deps) (drop p path @ [cursor])"
proof -
  have p: "p < length path" "path ! p = cursor" and dist: "distinct path"
    and walk: "successively (\<lambda>x y. y \<in> set (succ_list deps x)) (path @ [cursor])"
    using assms by (auto simp: walk_ok_def)
  have split: "drop p path = cursor # drop (Suc p) path" using p by (metis Cons_nth_drop_Suc)
  have "cursor \<notin> set (drop (Suc p) path)"
    using dist split by (metis distinct.simps(2) distinct_drop)
  moreover have "successively (\<lambda>x y. y \<in> set (succ_list deps x)) (drop p path @ [cursor])"
    using walk append_take_drop_id [of p path] by (metis append.assoc successively_append_iff)
  ultimately show ?thesis using dist by (simp add: closed_path_def split)
qed

lemma walk_ok_step:
  assumes ok: "walk_ok deps remaining path positions cursor" and new: "fmlookup positions cursor = None"
    and nxt: "next_remaining deps remaining cursor = Some c"
  shows "walk_ok deps remaining (path @ [cursor]) (fmupd cursor (length path) positions) c"
proof -
  have c: "c |\<in>| remaining" "c \<in> set (succ_list deps cursor)"
    using nxt by (auto simp: next_remaining_def succ_list_def dest: find_Some_mem split: option.splits)
  have "cursor \<notin> set path"
    using ok new unfolding walk_ok_def by (metis in_set_conv_nth option.distinct(1))
  moreover have "fmlookup (fmupd cursor (length path) positions) x = Some p \<longleftrightarrow>
      p < length (path @ [cursor]) \<and> (path @ [cursor]) ! p = x" for x p
    using ok \<open>cursor \<notin> set path\<close> by (auto simp: walk_ok_def nth_append less_Suc_eq)
  ultimately show ?thesis
    using ok c by (simp add: walk_ok_def successively_append_iff)
qed

lemma cycle_walk_correct:
  assumes "walk_ok deps remaining path positions cursor"
    and "\<And>i. i |\<in>| remaining \<Longrightarrow> next_remaining deps remaining i \<noteq> None"
  shows "\<exists>c. cycle_walk deps remaining path positions cursor = Some c \<and> closed_path (succ_list deps) c"
  using assms
proof (induction deps remaining path positions cursor rule: cycle_walk.induct)
  case (1 deps remaining path positions cursor)
  show ?case
  proof (cases "fmlookup positions cursor")
    case (Some p)
    then show ?thesis using walk_ok_seen [OF 1(2)] by (simp add: cycle_walk.simps)
  next
    case None
    obtain c where c: "next_remaining deps remaining cursor = Some c"
      using 1(2) 1(3) [of cursor] unfolding walk_ok_def by blast
    then show ?thesis
      using 1(1) [OF None c walk_ok_step [OF 1(2) None c] 1(3)] None
      by (simp add: cycle_walk.simps [of _ _ _ positions cursor])
  qed
qed

section \<open>The whole function\<close>

lemma succ_list_modules:
  "set (succ_list (dependency_sets modules) i) =
     (case fmlookup modules i of None \<Rightarrow> {} | Some r \<Rightarrow> set (md_dependencies (mr_definition r)))"
  by (simp add: succ_list_def dependency_sets_def fset_of_list.rep_eq split: option.splits)

lemma fmdom_dependency_sets: "fmdom' (dependency_sets modules) = fmdom' modules"
  by (simp add: dependency_sets_def fmdom'_alt_def)

lemma deterministic_order_cases:
  fixes modules :: "('f, 'p, 'h) modules"
  assumes closed: "\<And>i. set (succ_list (dependency_sets modules) i) \<subseteq> fmdom' modules"
  shows "case deterministic_order modules of
      Inr order \<Rightarrow> greedy_order (dependency_sets modules) order \<and> set order = fmdom' modules \<and>
        acyclic (edges_of (succ_list (dependency_sets modules)))
    | Inl e \<Rightarrow> \<exists>c. e = ModuleDependencyCycle c \<and> closed_path (succ_list (dependency_sets modules)) c"
proof -
  let ?deps = "dependency_sets modules"
  let ?k = "kahn_start ?deps"
  obtain order where loop: "kahn_loop (kh_dependents ?k) (kh_indegree ?k) (initially_ready (kh_indegree ?k)) [] =
      Some order"
    and greedy: "greedy_order ?deps order" and stuck: "eligible ?deps order = {}"
    using kahn_loop_correct [OF kahn_inv_start kahn_start_dependents] by blast
  have order: "distinct order" "set order \<subseteq> fmdom' modules"
    using greedy_order_distinct [OF greedy] by (simp_all add: fmdom_dependency_sets)
  have len: "length (bm_keys modules) = card (fmdom' modules)"
    using distinct_card [of "bm_keys modules"] by simp
  show ?thesis
  proof (cases "length order = length (bm_keys modules)")
    case True
    then have all: "set order = fmdom' modules"
      using order len distinct_card [OF order(1)] by (intro card_subset_eq) auto
    then have "acyclic (edges_of (succ_list ?deps))"
      using dfs_inv_all_acyclic [OF greedy_order_dfs_inv [OF greedy]] succ_list_support [of ?deps]
      by (simp add: fmdom_dependency_sets)
    then show ?thesis using True loop greedy all by (simp add: deterministic_order_def Let_def)
  next
    case False
    let ?rem = "remaining_modules modules order"
    have rem: "fset ?rem = fmdom' modules - set order"
      by (auto simp: remaining_modules_def fmdom'_alt_def)
    have nxt: "next_remaining ?deps ?rem i \<noteq> None" if "i |\<in>| ?rem" for i
    proof -
      have "i \<in> fmdom' ?deps" "i \<notin> set order" using that rem by (auto simp: fmdom_dependency_sets)
      then obtain d where "d \<in> set (succ_list ?deps i)" "d \<notin> set order"
        using stuck by (auto simp: eligible_def)
      then have "d \<in> set (succ_list ?deps i)" "d |\<in>| ?rem" using closed rem by auto
      moreover from this have "next_remaining ?deps ?rem i = find (\<lambda>d. d |\<in>| ?rem) (succ_list ?deps i)"
        by (auto simp: next_remaining_def succ_list_def split: option.splits)
      ultimately show ?thesis by (auto simp: find_None_all simp del: not_None_eq)
    qed
    have "fset ?rem \<noteq> {}"
    proof
      assume "fset ?rem = {}"
      then have "set order = fmdom' modules" using rem order(2) by auto
      then show False using False len distinct_card [OF order(1)] by simp
    qed
    then obtain cursor rest where cursor: "sorted_list_of_fset ?rem = cursor # rest"
      by (cases "sorted_list_of_fset ?rem") (metis list.set(1) sorted_list_of_fset_simps(1))+
    then have "cursor |\<in>| ?rem" by (metis list.set_intros(1) sorted_list_of_fset_simps(1))
    then have "walk_ok ?deps ?rem [] fmempty cursor" by (simp add: walk_ok_def)
    then obtain c where "cycle_walk ?deps ?rem [] fmempty cursor = Some c" "closed_path (succ_list ?deps) c"
      using cycle_walk_correct nxt by blast
    then show ?thesis using False loop cursor by (simp add: deterministic_order_def Let_def)
  qed
qed

lemma validate_dependencies_Inr_iff:
  "validate_dependencies modules = Inr () \<longleftrightarrow>
     (\<forall>i. set (succ_list (dependency_sets modules) i) \<subseteq> fmdom' modules)"
proof -
  have inner: "try_fold (\<lambda>_ d. if contains_key modules d then Inr () else Inl (MissingModuleDependency i d)) () ds =
      Inr () \<longleftrightarrow> set ds \<subseteq> fmdom' modules" for i ds
    by (induction ds) (auto simp: contains_key_iff fmlookup_dom'_iff)
  show ?thesis
    unfolding validate_dependencies_def check_fold
    by (auto simp: succ_list_modules inner split: option.splits)
       (force simp: fmlookup_dom'_iff)+
qed

end
