(* ===== verification/Composition_Contract.thy ===== *)
theory Composition_Contract
  imports Composition_Plan Composition_Kahn Definition_Acceptance
begin

text \<open>
  What an accepted composition guarantees. The nested loops of planning are read as one
  loop over the contributions of all modules; the slot table, the factory registry and the
  plugin claims are then functions of those contributions, and the merged definition is one
  that the runtime can construct with the merged registry.
\<close>

section \<open>Contributions\<close>

definition contributed :: "(('f, 'p, 'h) ModuleRegistration \<Rightarrow> 'a list) \<Rightarrow> ('f, 'p, 'h) modules \<Rightarrow>
    (Id \<times> 'a) list" where
  "contributed part modules = concat (map (\<lambda>(i, r). map (Pair i) (part r)) (bm_items modules))"

lemma nested_try_fold:
  "try_fold (\<lambda>s (i, r). try_fold (f i) s (part r)) s items =
     try_fold (\<lambda>s (i, x). f i s x) s (concat (map (\<lambda>(i, r). map (Pair i) (part r)) items))"
proof (induction items arbitrary: s)
  case (Cons p items)
  obtain i r where p: "p = (i, r)" by (cases p)
  have "try_fold (f i) s xs = try_fold (\<lambda>s (i, x). f i s x) s (map (Pair i) xs)" for s xs
    by (induction xs arbitrary: s) (auto split: sum.splits)
  with Cons p show ?case by (auto simp: try_fold_append split: sum.splits)
qed simp

lemma contributed_fold:
  "try_fold (\<lambda>s (i, r). try_fold (f i) s (part r)) s (bm_items modules) =
     try_fold (\<lambda>s (i, x). f i s x) s (contributed part modules)"
  by (simp add: nested_try_fold contributed_def)

lemma set_contributed:
  "(i, x) \<in> set (contributed part modules) \<longleftrightarrow> (\<exists>r. fmlookup modules i = Some r \<and> x \<in> set (part r))"
  by (auto simp: contributed_def set_bm_items)

lemma map_snd_contributed: "map snd (contributed part modules) = concat (map part (bm_values modules))"
proof -
  have "map snd (concat (map (\<lambda>(i, r). map (Pair i) (part r)) (map (\<lambda>k. (k, v k)) ks))) =
      concat (map part (map v ks))" for ks v
    by (induction ks) (simp_all add: comp_def)
  then show ?thesis by (simp add: contributed_def bm_items_def bm_values_def)
qed

section \<open>Claims\<close>

lemma claim_fold:
  assumes free: "\<And>m x. \<not> contains_key m (key x) \<Longrightarrow> f m x = Inr (fmupd (key x) (val x) m)"
    and taken: "\<And>m x. contains_key m (key x) \<Longrightarrow> \<exists>e. f m x = Inl e"
  shows "try_fold f m xs = Inr m' \<longleftrightarrow>
    distinct (map key xs) \<and> (\<forall>x\<in>set xs. \<not> contains_key m (key x)) \<and>
    m' = fold (\<lambda>x m. fmupd (key x) (val x) m) xs m"
proof (induction xs arbitrary: m)
  case (Cons x xs)
  have fresh: "(\<forall>y\<in>set xs. \<not> contains_key (fmupd (key x) (val x) m) (key y)) \<longleftrightarrow>
      key x \<notin> key ` set xs \<and> (\<forall>y\<in>set xs. \<not> contains_key m (key y))"
    by (simp add: image_iff) metis
  show ?case
  proof (cases "contains_key m (key x)")
    case True
    then show ?thesis using taken [of m x] by auto
  next
    case False
    then show ?thesis using Cons.IH [of "fmupd (key x) (val x) m"] free [of m x] fresh by auto
  qed
qed auto

lemma claim_fold_empty:
  assumes "\<And>m x. \<not> contains_key m (key x) \<Longrightarrow> f m x = Inr (fmupd (key x) (val x) m)"
    and "\<And>m x. contains_key m (key x) \<Longrightarrow> \<exists>e. f m x = Inl e"
  shows "try_fold f fmempty xs = Inr m \<longleftrightarrow>
    distinct (map key xs) \<and> m = fold (\<lambda>x m. fmupd (key x) (val x) m) xs fmempty"
  using claim_fold [of key f val fmempty xs m, OF assms] by simp

lemma claim_lookup:
  assumes "distinct (map key xs)"
  shows "fmlookup (fold (\<lambda>x m. fmupd (key x) (val x) m) xs fmempty) k = Some v \<longleftrightarrow>
    (\<exists>x\<in>set xs. key x = k \<and> v = val x)"
proof -
  have "fmlookup (fold (\<lambda>x m. fmupd (key x) (val x) m) xs m) k =
      (case find (\<lambda>x. key x = k) xs of Some x \<Rightarrow> Some (val x) | None \<Rightarrow> fmlookup m k)" for m
    using assms
  proof (induction xs arbitrary: m)
    case (Cons y xs)
    then have "find (\<lambda>x. key x = key y) xs = None" by (simp add: find_None_iff image_iff) metis
    with Cons show ?case by (auto split: option.splits)
  qed simp
  moreover have "(\<exists>x. find (\<lambda>x. key x = k) xs = Some x \<and> v = val x) \<longleftrightarrow> (\<exists>x\<in>set xs. key x = k \<and> v = val x)"
    using find_distinct_key [OF assms, of k] by blast
  ultimately show ?thesis by (auto split: option.splits)
qed

section \<open>Slots\<close>

definition slot_key :: "Id \<times> CapabilityContribution \<Rightarrow> Id" where
  "slot_key p = contribution_capability_id (snd p)"

definition module_capabilities :: "('f, 'p, 'h) ModuleRegistration \<Rightarrow> CapabilityContribution list" where
  "module_capabilities r = md_capabilities (mr_definition r)"

lemma validate_capability_slots_Inr:
  assumes "validate_capability_slots modules = (Inr slots :: 'r CompositionError + _)"
  shows "distinct (map slot_key (contributed module_capabilities modules))"
    and "fmlookup slots k = Some s \<longleftrightarrow>
      (\<exists>i c. (i, c) \<in> set (contributed module_capabilities modules) \<and>
         contribution_capability_id c = k \<and> s = slot_of i c)"
proof -
  let ?f = "\<lambda>s (i, x). claim_slot i s x :: 'r CompositionError + _"
  have fold: "try_fold ?f fmempty (contributed module_capabilities modules) = Inr slots"
    using assms unfolding contributed_fold [symmetric] validate_capability_slots_def
      module_capabilities_def .
  have "try_fold ?f fmempty (contributed module_capabilities modules) = Inr slots \<longleftrightarrow>
      distinct (map slot_key (contributed module_capabilities modules)) \<and>
      slots = fold (\<lambda>x m. fmupd (slot_key x) (slot_of (fst x) (snd x)) m)
        (contributed module_capabilities modules) fmempty"
    by (rule claim_fold_empty [where key = slot_key and val = "\<lambda>x. slot_of (fst x) (snd x)"])
       (auto simp: claim_slot_def slot_key_def contains_key_def Let_def split: option.splits)
  with fold have d: "distinct (map slot_key (contributed module_capabilities modules))"
    and s: "slots = fold (\<lambda>x m. fmupd (slot_key x) (slot_of (fst x) (snd x)) m)
        (contributed module_capabilities modules) fmempty" by auto
  show "distinct (map slot_key (contributed module_capabilities modules))" by (rule d)
  show "fmlookup slots k = Some s \<longleftrightarrow>
      (\<exists>i c. (i, c) \<in> set (contributed module_capabilities modules) \<and>
         contribution_capability_id c = k \<and> s = slot_of i c)"
    unfolding s claim_lookup [OF d] by (force simp: slot_key_def)
qed

section \<open>Requirements\<close>

definition served :: "(Id, CapabilitySlot) fmap \<Rightarrow> CapabilityRequirement \<Rightarrow> bool" where
  "served slots r \<longleftrightarrow>
     (\<exists>slot. fmlookup slots (cq_capability_id r) = Some slot \<and> sl_ownership slot = OwnedDeclarative \<and>
        sl_definition_identity slot = cq_definition_identity r)"

lemma ownership_cases: "sl_ownership s \<noteq> OwnedReactive \<longleftrightarrow> sl_ownership s = OwnedDeclarative"
  by (cases "sl_ownership s") auto

lemma validate_requirement_Inr: "validate_requirement slots r = Inr u \<longleftrightarrow> served slots r"
  by (auto simp: validate_requirement_def served_def Let_def ownership_cases [symmetric]
      split: option.splits)

lemma validate_requirements_composition:
  assumes "validate_requirements modules slots = Inr u" and "fmlookup modules i = Some r"
    and "q \<in> set (module_requirements r)"
  shows "served slots q"
  using assms
  by (auto simp: validate_requirements_def check_fold validate_requirement_Inr set_bm_values)

section \<open>Factories\<close>

lemma claim_factory_Inr:
  assumes "claim_factory modules slots i factories c = Inr factories'"
  shows "\<exists>slot. fmlookup slots (fc_capability_id c) = Some slot \<and> sl_ownership slot = OwnedDeclarative \<and>
      sl_definition_identity slot = fc_definition_identity c"
    and "\<not> factory_contains factories (fc_capability_id c) (fc_definition_identity c)"
    and "fr_factories factories' =
      fmupd \<lparr>fk_capability_id = fc_capability_id c, fk_definition_identity = fc_definition_identity c\<rparr>
        (fc_factory c) (fr_factories factories)"
  using assms
  by (auto simp: claim_factory_def factory_register_def factory_contains_def Let_def
      ownership_cases [symmetric] split: if_splits option.splits prod.splits sum.splits)

definition registry_sound :: "(Id, CapabilitySlot) fmap \<Rightarrow> 'f FactoryRegistry \<Rightarrow> bool" where
  "registry_sound slots factories \<longleftrightarrow>
     (\<forall>key. contains_key (fr_factories factories) key \<longrightarrow>
        (\<exists>slot. fmlookup slots (fk_capability_id key) = Some slot \<and>
           sl_ownership slot = OwnedDeclarative \<and>
           sl_definition_identity slot = fk_definition_identity key))"

lemma validate_factories_Inr:
  fixes modules :: "('f, 'p, 'h) modules"
  assumes "validate_factories modules slots = (Inr factories :: 'r CompositionError + _)"
  shows "factory_contains factories c d \<longleftrightarrow>
    (\<exists>slot. fmlookup slots c = Some slot \<and> sl_ownership slot = OwnedDeclarative \<and>
       sl_definition_identity slot = d)"
proof -
  let ?f = "\<lambda>s (i, x). claim_factory modules slots i s x :: 'r CompositionError + _"
  from assms have fold: "try_fold ?f FactoryRegistry_new (contributed mr_factories modules) = Inr factories"
    and checked: "try_fold (check_slot_factory factories) () (bm_items slots) = (Inr () :: 'r CompositionError + _)"
    unfolding contributed_fold [symmetric] by (auto simp: validate_factories_def split: sum.splits)
  have "registry_sound slots factories"
    using fold
  proof (rule try_fold_invariant [where P = "registry_sound slots", rotated 2])
    show "registry_sound slots FactoryRegistry_new"
      by (simp add: registry_sound_def FactoryRegistry_new_def)
  next
    fix s s' :: "'f FactoryRegistry" and x
    assume sound: "registry_sound slots s" and step: "?f s x = Inr s'"
    obtain i c where "x = (i, c)" by (cases x)
    with step have "claim_factory modules slots i s c = (Inr s' :: 'r CompositionError + _)" by simp
    from claim_factory_Inr [OF this] sound show "registry_sound slots s'"
      by (auto simp: registry_sound_def)
  qed
  then have "factory_contains factories c d \<Longrightarrow> \<exists>slot. fmlookup slots c = Some slot \<and>
      sl_ownership slot = OwnedDeclarative \<and> sl_definition_identity slot = d"
    by (fastforce simp: registry_sound_def factory_contains_def)
  moreover have "factory_contains factories c (sl_definition_identity slot)"
    if "fmlookup slots c = Some slot" "sl_ownership slot = OwnedDeclarative" for slot
    using checked that by (auto simp: check_fold check_slot_factory_def set_bm_items split: if_splits)
  ultimately show ?thesis by auto
qed

section \<open>Plugins\<close>

definition plugin_fits :: "(Id, CapabilitySlot) fmap \<Rightarrow> 'p PluginContribution \<Rightarrow> bool" where
  "plugin_fits slots c \<longleftrightarrow>
     (\<exists>slot. fmlookup slots (cd_id (pc_capability c)) = Some slot \<and> sl_ownership slot = OwnedReactive \<and>
        sl_kind slot = cd_kind (pc_capability c) \<and>
        identity_str (sl_definition_identity slot) = cd_replay_identity (pc_capability c)) \<and>
     set (definition_requirements (pc_capability c)) \<subseteq> fmdom' slots"

lemma ownership_reactive: "sl_ownership s \<noteq> OwnedDeclarative \<longleftrightarrow> sl_ownership s = OwnedReactive"
  by (cases "sl_ownership s") auto

lemma claim_plugin_Inr:
  assumes "claim_plugin modules slots i scan c = (Inr scan' :: 'r CompositionError + _)"
  shows "plugin_fits slots c" and "pc_plugin_id c |\<notin>| ps_plugin_owners scan"
    and "fmlookup (ps_reactive_claims scan) (cd_id (pc_capability c)) = None"
    and "ps_plugin_owners scan' = finsert (pc_plugin_id c) (ps_plugin_owners scan)"
    and "ps_reactive_claims scan' = fmupd (cd_id (pc_capability c)) i (ps_reactive_claims scan)"
proof -
  obtain slot where new: "pc_plugin_id c |\<notin>| ps_plugin_owners scan"
    and deps: "try_fold (check_plugin_dependency slots) () (definition_requirements (pc_capability c)) = (Inr () :: 'r CompositionError + unit)"
    and slot: "fmlookup slots (cd_id (pc_capability c)) = Some slot" "sl_ownership slot = OwnedReactive"
    and claim: "claim_reactive_slot i c slot
      (scan\<lparr>ps_plugin_owners := finsert (pc_plugin_id c) (ps_plugin_owners scan)\<rparr>) =
        (Inr scan' :: 'r CompositionError + _)"
    using assms
    by (auto simp: claim_plugin_def Let_def ownership_reactive [symmetric]
        split: if_splits option.splits sum.splits)
  have "set (definition_requirements (pc_capability c)) \<subseteq> fmdom' slots"
    using deps by (auto simp: check_fold check_plugin_dependency_def contains_key_iff fmlookup_dom'_iff
        split: if_splits)
  with slot claim show "plugin_fits slots c"
    by (auto simp: plugin_fits_def claim_reactive_slot_def Let_def split: option.splits if_splits)
  show "pc_plugin_id c |\<notin>| ps_plugin_owners scan" by (rule new)
  show "fmlookup (ps_reactive_claims scan) (cd_id (pc_capability c)) = None"
    and "ps_plugin_owners scan' = finsert (pc_plugin_id c) (ps_plugin_owners scan)"
    and "ps_reactive_claims scan' = fmupd (cd_id (pc_capability c)) i (ps_reactive_claims scan)"
    using claim by (auto simp: claim_reactive_slot_def Let_def split: option.splits if_splits)
qed

lemma plugin_fold:
  assumes "try_fold (\<lambda>scan (i, c). claim_plugin modules slots i scan c) scan xs = (Inr scan' :: 'r CompositionError + _)"
  shows "(\<forall>x\<in>set xs. plugin_fits slots (snd x)) \<and>
    distinct (map (pc_plugin_id \<circ> snd) xs) \<and> (pc_plugin_id \<circ> snd) ` set xs \<inter> fset (ps_plugin_owners scan) = {} \<and>
    distinct (map (cd_id \<circ> pc_capability \<circ> snd) xs) \<and>
    (cd_id \<circ> pc_capability \<circ> snd) ` set xs \<inter> fmdom' (ps_reactive_claims scan) = {} \<and>
    fmdom' (ps_reactive_claims scan') =
      fmdom' (ps_reactive_claims scan) \<union> (cd_id \<circ> pc_capability \<circ> snd) ` set xs"
  using assms
proof (induction xs arbitrary: scan)
  case (Cons x xs)
  obtain i c where x: "x = (i, c)" by (cases x)
  from Cons.prems obtain mid where step: "claim_plugin modules slots i scan c = (Inr mid :: 'r CompositionError + _)"
    and rest: "try_fold (\<lambda>scan (i, c). claim_plugin modules slots i scan c) mid xs = (Inr scan' :: 'r CompositionError + _)"
    by (auto simp: x split: sum.splits)
  note c = claim_plugin_Inr [OF step]
  have "cd_id (pc_capability c) \<notin> fmdom' (ps_reactive_claims scan)"
    using c(3) by (simp add: fmdom'_notI)
  then show ?case using Cons.IH [OF rest] c by (auto simp: x)
qed simp

lemma validate_plugins_Inr:
  assumes "validate_plugins modules slots = (Inr u :: 'r CompositionError + _)"
  shows "\<forall>x\<in>set (contributed mr_plugins modules). plugin_fits slots (snd x)"
    and "distinct (map (pc_plugin_id \<circ> snd) (contributed mr_plugins modules))"
    and "distinct (map (cd_id \<circ> pc_capability \<circ> snd) (contributed mr_plugins modules))"
    and "fmlookup slots k = Some slot \<Longrightarrow> sl_ownership slot = OwnedReactive \<Longrightarrow>
      k \<in> (cd_id \<circ> pc_capability \<circ> snd) ` set (contributed mr_plugins modules)"
proof -
  let ?scan = "\<lparr>ps_plugin_owners = {||}, ps_reactive_claims = fmempty\<rparr>"
  obtain scan where
      "try_fold (\<lambda>scan (i, r). try_fold (claim_plugin modules slots i) scan (mr_plugins r)) ?scan (bm_items modules) =
        (Inr scan :: 'r CompositionError + _)"
      and checked: "try_fold (check_slot_plugin (ps_reactive_claims scan)) () (bm_items slots) =
        (Inr () :: 'r CompositionError + _)"
    using assms by (auto simp: validate_plugins_def split: sum.splits)
  then have "try_fold (\<lambda>scan (i, c). claim_plugin modules slots i scan c) ?scan (contributed mr_plugins modules) =
      (Inr scan :: 'r CompositionError + _)"
    by (simp only: contributed_fold)
  note facts = plugin_fold [OF this]
  show "\<forall>x\<in>set (contributed mr_plugins modules). plugin_fits slots (snd x)"
    and "distinct (map (pc_plugin_id \<circ> snd) (contributed mr_plugins modules))"
    and "distinct (map (cd_id \<circ> pc_capability \<circ> snd) (contributed mr_plugins modules))"
    using facts by blast+
  assume "fmlookup slots k = Some slot" "sl_ownership slot = OwnedReactive"
  then have "contains_key (ps_reactive_claims scan) k"
    using checked by (auto simp: check_fold check_slot_plugin_def set_bm_items split: if_splits)
  moreover have "fmdom' (ps_reactive_claims scan) =
      (cd_id \<circ> pc_capability \<circ> snd) ` set (contributed mr_plugins modules)"
    using facts by simp
  ultimately show "k \<in> (cd_id \<circ> pc_capability \<circ> snd) ` set (contributed mr_plugins modules)"
    by (metis contains_key_iff fmlookup_dom'_iff)
qed

section \<open>The merged definition\<close>

fun declared_by :: "CapabilityContribution \<Rightarrow> CapabilityDeclaration list" where
  "declared_by (Declarative c) = [c]"
| "declared_by (Reactive _) = []"

lemma declarative_declarations_contributed:
  fixes modules :: "('f, 'p, 'h) modules"
  shows "declarative_declarations modules =
     concat (map declared_by (map snd (contributed module_capabilities modules)))"
proof -
  have case_eq: "(case c of Declarative c \<Rightarrow> [c] | Reactive _ \<Rightarrow> []) = declared_by c" for c
    by (cases c) simp_all
  have "concat (map declared_by (concat (map module_capabilities rs))) =
      concat (map (\<lambda>r. concat (map declared_by (module_capabilities r))) rs)"
    for rs :: "('f, 'p, 'h) ModuleRegistration list"
    by (induction rs) simp_all
  then show ?thesis
    unfolding map_snd_contributed declarative_declarations_def case_eq
    by (simp only: module_capabilities_def)
qed

lemma mem_declarative_declarations:
  "c \<in> set (declarative_declarations modules) \<longleftrightarrow>
     (\<exists>i. (i, Declarative c) \<in> set (contributed module_capabilities modules))"
proof -
  have "c \<in> set (declared_by x) \<longleftrightarrow> x = Declarative c" for x by (cases x) auto
  then show ?thesis by (force simp: declarative_declarations_contributed)
qed

lemma distinct_declarative_declarations:
  assumes "distinct (map slot_key (contributed module_capabilities modules))"
  shows "distinct (map cl_id (declarative_declarations modules))"
proof -
  have "distinct (map cl_id (concat (map declared_by cs)))" if "distinct (map contribution_capability_id cs)" for cs
    using that
  proof (induction cs)
    case (Cons c cs)
    have "cl_id ` set (concat (map declared_by cs)) \<subseteq> contribution_capability_id ` set cs"
    proof
      fix k
      assume "k \<in> cl_id ` set (concat (map declared_by cs))"
      then obtain x d where x: "x \<in> set cs" "d \<in> set (declared_by x)" "k = cl_id d" by auto
      have "contribution_capability_id x = k" by (cases x) (use x(2,3) in auto)
      with x(1) show "k \<in> contribution_capability_id ` set cs" by (metis imageI)
    qed
    with Cons show ?case by (cases c) auto
  qed simp
  moreover have "map contribution_capability_id (map snd (contributed module_capabilities modules)) =
      map slot_key (contributed module_capabilities modules)"
    by (simp add: slot_key_def)
  ultimately show ?thesis using assms by (metis declarative_declarations_contributed)
qed

definition tasks_in_order :: "('f, 'p, 'h) modules \<Rightarrow> Id list \<Rightarrow> TaskDefinition list" where
  "tasks_in_order modules order =
     concat (map (\<lambda>i. md_tasks (mr_definition (the (fmlookup modules i)))) order)"

lemma merge_tasks_Inr:
  assumes "merge_tasks modules order = (Inr d :: 'r CompositionError + _)"
  shows "rn_tasks d = tasks_in_order modules order \<and> rn_capabilities d = [] \<and> set order \<subseteq> fmdom' modules"
proof -
  have add: "fold (\<lambda>t d. add_task d t) ts d = d\<lparr>rn_tasks := rn_tasks d @ ts\<rparr>" for ts d
    by (induction ts arbitrary: d) (simp_all add: add_task_def)
  have "rn_tasks d = rn_tasks d0 @ tasks_in_order modules order \<and> rn_capabilities d = rn_capabilities d0 \<and>
      set order \<subseteq> fmdom' modules"
    if "try_fold (\<lambda>d i. case fmlookup modules i of None \<Rightarrow> Inl CompositionPanic
        | Some r \<Rightarrow> Inr (fold (\<lambda>t d. add_task d t) (md_tasks (mr_definition r)) d)) d0 order =
      (Inr d :: 'r CompositionError + _)" for d0
    using that
    by (induction order arbitrary: d0)
       (auto simp: tasks_in_order_def add fmlookup_dom'_iff split: option.splits)
  from this [OF assms [unfolded merge_tasks_def]] show ?thesis by (simp add: RunDefinition_new_def)
qed

lemma merge_definition_Inr:
  assumes merged: "merge_definition modules order slots = (Inr d :: 'r CompositionError + _)"
    and slots: "validate_capability_slots modules = (Inr slots :: 'r CompositionError + _)"
  shows "rn_tasks d = tasks_in_order modules order" and "set order \<subseteq> fmdom' modules"
    and "set (rn_capabilities d) = set (declarative_declarations modules)"
    and "definition_validate d = Inr ()"
proof -
  let ?decls = "fold (\<lambda>c m. fmupd (cl_id c) c m) (declarative_declarations modules) fmempty"
  let ?add = "\<lambda>k d. case fmlookup ?decls k of Some c \<Rightarrow> add_capability d c | None \<Rightarrow> d"
  obtain d0 where d0: "merge_tasks modules order = (Inr d0 :: 'r CompositionError + _)" and d: "d = fold ?add (bm_keys slots) d0"
    and "definition_validate d = Inr ()"
    using merged by (auto simp: merge_definition_def Let_def split: sum.splits)
  have "rn_tasks (fold ?add ks e) = rn_tasks e \<and>
      set (rn_capabilities (fold ?add ks e)) = set (rn_capabilities e) \<union> {c. \<exists>k\<in>set ks. fmlookup ?decls k = Some c}"
    for ks e
    by (induction ks arbitrary: e) (auto simp: add_capability_def split: option.splits)
  then have tasks: "rn_tasks d = rn_tasks d0"
    and caps: "set (rn_capabilities d) = set (rn_capabilities d0) \<union> {c. \<exists>k\<in>fmdom' slots. fmlookup ?decls k = Some c}"
    using d by auto
  show "definition_validate d = Inr ()" by fact
  show "rn_tasks d = tasks_in_order modules order" and "set order \<subseteq> fmdom' modules"
    using merge_tasks_Inr [OF d0] tasks by simp_all
  have decls: "fmlookup ?decls k = Some c \<longleftrightarrow> c \<in> set (declarative_declarations modules) \<and> cl_id c = k" for k c
    using index_by_lookup [OF distinct_declarative_declarations [OF validate_capability_slots_Inr(1) [OF slots]]]
    by (simp add: index_by_def)
  moreover have "cl_id c \<in> fmdom' slots" if "c \<in> set (declarative_declarations modules)" for c
  proof -
    from that obtain i where "(i, Declarative c) \<in> set (contributed module_capabilities modules)"
      unfolding mem_declarative_declarations ..
    then have "fmlookup slots (cl_id c) = Some (slot_of i (Declarative c))"
      using validate_capability_slots_Inr(2) [OF slots, of "cl_id c" "slot_of i (Declarative c)"]
      by fastforce
    then show ?thesis by (auto simp: fmlookup_dom'_iff)
  qed
  ultimately have "{c. \<exists>k\<in>fmdom' slots. fmlookup ?decls k = Some c} = set (declarative_declarations modules)"
    unfolding decls by blast
  then show "set (rn_capabilities d) = set (declarative_declarations modules)"
    using caps merge_tasks_Inr [OF d0] by simp
qed

end
