(* ===== verification/Composition_Properties.thy ===== *)
theory Composition_Properties
  imports Composition_Contract Definition_Properties
begin

text \<open>
  The contract of composition planning: the activation order, the ownership of capability
  slots, and that an accepted plan can be constructed.
\<close>

section \<open>A plan and its parts\<close>

lemma composition_build_Inr:
  assumes "composition_build b = (Inr plan :: 'r CompositionError + _)"
  shows "cp_modules plan = cb_modules b"
    and "validate_dependencies (cp_modules plan) = (Inr () :: 'r CompositionError + _)"
    and "deterministic_order (cp_modules plan) = (Inr (cp_order plan) :: 'r CompositionError + _)"
    and "validate_capability_slots (cp_modules plan) = (Inr (cp_slots plan) :: 'r CompositionError + _)"
    and "validate_requirements (cp_modules plan) (cp_slots plan) = (Inr () :: 'r CompositionError + _)"
    and "validate_factories (cp_modules plan) (cp_slots plan) = (Inr (cp_factories plan) :: 'r CompositionError + _)"
    and "validate_plugins (cp_modules plan) (cp_slots plan) = (Inr () :: 'r CompositionError + _)"
    and "merge_definition (cp_modules plan) (cp_order plan) (cp_slots plan) =
      (Inr (cp_definition plan) :: 'r CompositionError + _)"
  using assms by (auto simp: composition_build_def Let_def split: sum.splits)

lemma plan_requirement_declared:
  assumes plan: "composition_build b = (Inr plan :: 'r CompositionError + _)"
    and r: "r \<in> requirements_in (cp_definition plan)"
  shows "cq_capability_id r \<in> cl_id ` set (rn_capabilities (cp_definition plan))"
proof -
  note parts = composition_build_Inr [OF plan]
  note merged = merge_definition_Inr [OF parts(8) parts(4)]
  have "\<exists>i m. fmlookup (cp_modules plan) i = Some m \<and> r \<in> set (module_requirements m)"
  proof -
    consider t where "t \<in> set (rn_tasks (cp_definition plan))" "r \<in> set (td_required_capabilities t)"
      | c where "c \<in> set (rn_capabilities (cp_definition plan))" "r \<in> set (cl_dependencies c)"
      using r by (auto simp: requirements_in_def)
    then show ?thesis
    proof cases
      case 1
      then obtain i where "i \<in> set (cp_order plan)"
          "t \<in> set (md_tasks (mr_definition (the (fmlookup (cp_modules plan) i))))"
        by (auto simp: merged(1) tasks_in_order_def)
      then show ?thesis
        using 1(2) merged(2) by (auto simp: module_requirements_def fmlookup_dom'_iff subset_iff) (metis option.sel)
    next
      case 2
      then obtain i m where "fmlookup (cp_modules plan) i = Some m" "Declarative c \<in> set (module_capabilities m)"
        unfolding merged(3) mem_declarative_declarations set_contributed by blast
      then show ?thesis
        using 2(2) by (force simp: module_requirements_def module_capabilities_def)
    qed
  qed
  then have "served (cp_slots plan) r"
    using validate_requirements_composition [OF parts(5)] by blast
  then obtain i c where c: "(i, c) \<in> set (contributed module_capabilities (cp_modules plan))"
      "contribution_capability_id c = cq_capability_id r" "contribution_ownership c = OwnedDeclarative"
    unfolding served_def validate_capability_slots_Inr(2) [OF parts(4)] by (auto simp: slot_of_def)
  then obtain decl where "c = Declarative decl" by (cases c) auto
  with c have "decl \<in> set (rn_capabilities (cp_definition plan))" and "cl_id decl = cq_capability_id r"
    unfolding merged(3) mem_declarative_declarations by auto
  then show ?thesis by (metis imageI)
qed

lemma plan_declaration_slot:
  assumes plan: "composition_build b = (Inr plan :: 'r CompositionError + _)"
    and c: "c \<in> set (rn_capabilities (cp_definition plan))"
  shows "factory_contains (cp_factories plan) (cl_id c) (cl_definition_identity c)"
proof -
  note parts = composition_build_Inr [OF plan]
  from c obtain i where i: "(i, Declarative c) \<in> set (contributed module_capabilities (cp_modules plan))"
    unfolding merge_definition_Inr(3) [OF parts(8) parts(4)] mem_declarative_declarations ..
  have "fmlookup (cp_slots plan) (cl_id c) = Some (slot_of i (Declarative c))"
    unfolding validate_capability_slots_Inr(2) [OF parts(4)] using i by force
  then show ?thesis
    unfolding validate_factories_Inr [OF parts(6)] by (simp add: slot_of_def)
qed

lemma slot_plugin:
  assumes fits: "\<forall>x\<in>set plugins. plugin_fits slots (snd x)"
    and "distinct (map (pc_plugin_id \<circ> snd) plugins)"
    and distinct: "distinct (map (cd_id \<circ> pc_capability \<circ> snd) plugins)"
    and claimed: "\<And>k slot. fmlookup slots k = Some slot \<Longrightarrow> sl_ownership slot = OwnedReactive \<Longrightarrow>
      k \<in> (cd_id \<circ> pc_capability \<circ> snd) ` set plugins"
    and slot: "fmlookup slots c = Some slot"
  shows "if sl_ownership slot = OwnedReactive
    then \<exists>!p. p \<in> snd ` set plugins \<and> cd_id (pc_capability p) = c \<and>
           cd_kind (pc_capability p) = sl_kind slot \<and>
           cd_replay_identity (pc_capability p) = identity_str (sl_definition_identity slot)
    else \<forall>p\<in>snd ` set plugins. cd_id (pc_capability p) \<noteq> c"
proof (cases "sl_ownership slot = OwnedReactive")
  case True
  from claimed [OF slot True] obtain x where x: "x \<in> set plugins" "cd_id (pc_capability (snd x)) = c" by auto
  then have match: "cd_kind (pc_capability (snd x)) = sl_kind slot"
      "cd_replay_identity (pc_capability (snd x)) = identity_str (sl_definition_identity slot)"
    using fits slot by (auto simp: plugin_fits_def)
  have "p = snd x" if "p \<in> snd ` set plugins" "cd_id (pc_capability p) = c" for p
  proof -
    from that obtain y where y: "y \<in> set plugins" "p = snd y" by auto
    have "inj_on (cd_id \<circ> pc_capability \<circ> snd) (set plugins)" using distinct by (simp add: distinct_map)
    then have "y = x" by (rule inj_onD) (use x y that(2) in simp_all)
    with y show ?thesis by simp
  qed
  then have "\<exists>!p. p \<in> snd ` set plugins \<and> cd_id (pc_capability p) = c \<and>
      cd_kind (pc_capability p) = sl_kind slot \<and>
      cd_replay_identity (pc_capability p) = identity_str (sl_definition_identity slot)"
    using x match by (intro ex1I [of _ "snd x"]) blast+
  with True show ?thesis by simp
next
  case False
  then show ?thesis using fits slot by (auto simp: plugin_fits_def)
qed

section \<open>Properties\<close>

text \<open>
  When every module dependency is registered, the activation order is decided. The
  planner returns an order exactly for an acyclic dependency graph: every module once, and
  at each position the smallest module identity among those whose dependencies all come
  earlier, so the order does not depend on registration. Otherwise it returns a simple
  closed path along module dependencies. No panic of the planner is reachable.
\<close>
theorem module_order_decided:
  fixes modules :: "('f, 'p, 'h) modules"
  assumes "validate_dependencies modules = (Inr () :: 'r CompositionError + _)"
  defines "dependencies i \<equiv>
    (case fmlookup modules i of None \<Rightarrow> {} | Some r \<Rightarrow> set (md_dependencies (mr_definition r)))"
  shows "case (deterministic_order modules :: 'r CompositionError + _) of
      Inr order \<Rightarrow>
        distinct order \<and> set order = set (bm_keys modules) \<and>
        acyclic {(i, d). d \<in> dependencies i} \<and>
        (\<forall>k<length order.
           dependencies (order ! k) \<subseteq> set (take k order) \<and>
           (\<forall>i\<in>set (bm_keys modules) - set (take k order).
              dependencies i \<subseteq> set (take k order) \<longrightarrow> order ! k \<le> i))
    | Inl (ModuleDependencyCycle c) \<Rightarrow>
        2 \<le> length c \<and> hd c = last c \<and> distinct (tl c) \<and>
        successively (\<lambda>i d. d \<in> dependencies i) c
    | Inl _ \<Rightarrow> False"
proof -
  have deps: "set (succ_list (dependency_sets modules) i) = dependencies i" for i
    unfolding dependencies_def by (rule succ_list_modules)
  have closed: "set (succ_list (dependency_sets modules) i) \<subseteq> fmdom' modules" for i
    using assms(1) unfolding validate_dependencies_Inr_iff by blast
  have edges: "edges_of (succ_list (dependency_sets modules)) = {(i, d). d \<in> dependencies i}"
    by (auto simp: edges_of_def deps)
  have greedy: "(\<forall>k<length order. dependencies (order ! k) \<subseteq> set (take k order) \<and>
        (\<forall>i\<in>set (bm_keys modules) - set (take k order).
           dependencies i \<subseteq> set (take k order) \<longrightarrow> order ! k \<le> i))"
    if "greedy_order (dependency_sets modules) order" for order
    using that by (auto simp: greedy_order_def eligible_def deps fmdom_dependency_sets)
  have cases: "case (deterministic_order modules :: 'r CompositionError + _) of
      Inr order \<Rightarrow> greedy_order (dependency_sets modules) order \<and> set order = fmdom' modules \<and>
        acyclic (edges_of (succ_list (dependency_sets modules)))
    | Inl e \<Rightarrow> \<exists>c. e = ModuleDependencyCycle c \<and> closed_path (succ_list (dependency_sets modules)) c"
    using closed by (rule deterministic_order_cases)
  show ?thesis
  proof (cases "deterministic_order modules :: 'r CompositionError + _")
    case (Inl e)
    then show ?thesis using cases by (auto simp: closed_path_def deps)
  next
    case (Inr order)
    then have "greedy_order (dependency_sets modules) order" "set order = fmdom' modules"
        "acyclic (edges_of (succ_list (dependency_sets modules)))"
      using cases by simp_all
    then show ?thesis
      using Inr greedy greedy_order_distinct edges by simp
  qed
qed

text \<open>
  C27: In an accepted plan every capability slot is owned by exactly one contribution of one
  module and served by exactly one kind of provider: a declarative slot by a registered
  factory for its definition identity and by no plugin, a reactive slot by exactly one plugin
  of the same kind and replay identity and by no factory. Every requirement of a task or of
  a declarative capability names a declarative slot with that definition identity, and every
  dependency of a plugin names a slot.
\<close>
theorem composition_slots_served:
  fixes b :: "('f, 'p, 'h) CompositionBuilder"
  assumes plan: "composition_build b = (Inr plan :: 'r CompositionError + _)"
  defines "plugins \<equiv> contributed mr_plugins (cb_modules b)"
  shows "(\<forall>c slot. fmlookup (cp_slots plan) c = Some slot \<longleftrightarrow>
       (\<exists>i contribution. (i, contribution) \<in> set (contributed module_capabilities (cb_modules b)) \<and>
          contribution_capability_id contribution = c \<and> slot = slot_of i contribution)) \<and>
     distinct (map (contribution_capability_id \<circ> snd) (contributed module_capabilities (cb_modules b))) \<and>
     (\<forall>c d. factory_contains (cp_factories plan) c d \<longleftrightarrow>
       (\<exists>slot. fmlookup (cp_slots plan) c = Some slot \<and> sl_ownership slot = OwnedDeclarative \<and>
          sl_definition_identity slot = d)) \<and>
     distinct (map (pc_plugin_id \<circ> snd) plugins) \<and>
     (\<forall>c slot. fmlookup (cp_slots plan) c = Some slot \<longrightarrow>
       (if sl_ownership slot = OwnedReactive
        then \<exists>!p. p \<in> snd ` set plugins \<and> cd_id (pc_capability p) = c \<and>
               cd_kind (pc_capability p) = sl_kind slot \<and>
               cd_replay_identity (pc_capability p) = identity_str (sl_definition_identity slot)
        else \<forall>p\<in>snd ` set plugins. cd_id (pc_capability p) \<noteq> c)) \<and>
     (\<forall>i r q. fmlookup (cb_modules b) i = Some r \<longrightarrow> q \<in> set (module_requirements r) \<longrightarrow>
       (\<exists>slot. fmlookup (cp_slots plan) (cq_capability_id q) = Some slot \<and>
          sl_ownership slot = OwnedDeclarative \<and> sl_definition_identity slot = cq_definition_identity q)) \<and>
     (\<forall>p\<in>snd ` set plugins. set (definition_requirements (pc_capability p)) \<subseteq> fmdom' (cp_slots plan))"
proof -
  note parts = composition_build_Inr [OF plan, unfolded composition_build_Inr(1) [OF plan]]
  note slots = validate_capability_slots_Inr [OF parts(4)]
  note fits = validate_plugins_Inr [OF parts(7), folded plugins_def]
  have "distinct (map (contribution_capability_id \<circ> snd) (contributed module_capabilities (cb_modules b)))"
    using slots(1) by (simp add: slot_key_def [abs_def] comp_def)
  moreover have "if sl_ownership slot = OwnedReactive
        then \<exists>!p. p \<in> snd ` set plugins \<and> cd_id (pc_capability p) = c \<and>
               cd_kind (pc_capability p) = sl_kind slot \<and>
               cd_replay_identity (pc_capability p) = identity_str (sl_definition_identity slot)
        else \<forall>p\<in>snd ` set plugins. cd_id (pc_capability p) \<noteq> c"
    if slot: "fmlookup (cp_slots plan) c = Some slot" for c slot
    using slot_plugin [OF fits slot] .
  moreover have "\<forall>p\<in>snd ` set plugins. set (definition_requirements (pc_capability p)) \<subseteq> fmdom' (cp_slots plan)"
    using fits(1) by (auto simp: plugin_fits_def)
  moreover have "\<exists>slot. fmlookup (cp_slots plan) (cq_capability_id q) = Some slot \<and>
          sl_ownership slot = OwnedDeclarative \<and> sl_definition_identity slot = cq_definition_identity q"
    if "fmlookup (cb_modules b) i = Some r" "q \<in> set (module_requirements r)" for i r q
    using validate_requirements_composition [OF parts(5)] that by (auto simp: served_def)
  ultimately show ?thesis
    using slots(2) validate_factories_Inr [OF parts(6)] fits(2) by blast
qed

text \<open>
  A plan that the builder accepts can be constructed. Its merged run definition is
  valid, holds the tasks of the modules in activation order and every declarative
  capability, leaves no capability implicit, and the merged factory registry passes the
  check that constructing a runtime performs on that definition.
\<close>
theorem composition_plan_constructible:
  assumes plan: "composition_build b = (Inr plan :: 'r CompositionError + _)"
  shows "\<exists>v. validated (cp_definition plan) = Inr v \<and> registry_validate (cp_factories plan) v = Inr () \<and>
      rn_tasks (cp_definition plan) =
        concat (map (\<lambda>i. md_tasks (mr_definition (the (fmlookup (cb_modules b) i)))) (cp_order plan)) \<and>
      set (bm_values (vd_capabilities v)) =
        {c. \<exists>i r. fmlookup (cb_modules b) i = Some r \<and> Declarative c \<in> set (md_capabilities (mr_definition r))}"
proof -
  note parts = composition_build_Inr [OF plan]
  note merged = merge_definition_Inr [OF parts(8) parts(4)]
  let ?d = "cp_definition plan"
  have "validated ?d = Inr (validated_form ?d)" and valid: "valid_definition ?d"
    using merged(4) validated_Inr_iff [of ?d] by (auto simp: definition_validate_def split: sum.splits)
  moreover have caps: "set (bm_values (full_map ?d)) = set (rn_capabilities ?d)"
    using full_map_values(1) [of ?d] valid plan_requirement_declared [OF plan]
    by (auto simp: valid_definition_def effective_capabilities_def)
  have "registry_validate (cp_factories plan) (validated_form ?d) = Inr ()"
    using plan_declaration_slot [OF plan]
    by (simp add: registry_validate_def validated_form_def check_fold registry_validate_step_def caps)
  moreover have "set (rn_capabilities ?d) =
      {c. \<exists>i r. fmlookup (cb_modules b) i = Some r \<and> Declarative c \<in> set (md_capabilities (mr_definition r))}"
    unfolding merged(3) parts(1)
    by (simp only: set_eq_iff mem_declarative_declarations set_contributed module_capabilities_def mem_Collect_eq)
       simp
  ultimately show ?thesis
    using merged(1) caps parts(1) by (simp add: validated_form_def tasks_in_order_def)
qed

section \<open>Witnesses\<close>

text \<open>
  Two modules: \<^verbatim>\<open>api\<close> depends on \<^verbatim>\<open>store\<close>, which owns the declarative slot \<^verbatim>\<open>db\<close>
  with its factory and the reactive slot \<^verbatim>\<open>bus\<close> with its plugin.
\<close>

definition demo_bus :: CapabilityDefinition where
  "demo_bus =
     depends_on (with_replay_identity (CapabilityDefinition_new (Id ''bus'') ''queue'') ''v1'') (Id ''db'')"

definition demo_api_module :: "(unit, unit, unit) ModuleRegistration" where
  "demo_api_module =
     ModuleRegistration_new
       (module_with_task
         (module_with_task (module_depends_on (ModuleDefinition_new (Id ''api'')) (Id ''store'')) demo_load)
         (demo_store ''Store'' ''op''))"

definition demo_store_module :: "(unit, unit, unit) ModuleRegistration" where
  "demo_store_module =
     registration_plugin
       (registration_factory
         (ModuleRegistration_new
           (module_with_reactive_capability
             (module_with_declarative_capability (ModuleDefinition_new (Id ''store''))
               (CapabilityDeclaration_new (Id ''db'') ''sql'' (DefinitionIdentity ''v1'')))
             (Id ''bus'') ''queue'' (DefinitionIdentity ''v1'')))
         (Id ''db'') (DefinitionIdentity ''v1'') ())
       (Id ''plug'') demo_bus ()"

definition demo_builder :: "(unit, unit, unit) CompositionBuilder" where
  "demo_builder =
     \<lparr>cb_modules = fmap_of_list [(Id ''api'', demo_api_module), (Id ''store'', demo_store_module)]\<rparr>"

lemma demo_plan: "\<exists>plan. composition_build demo_builder = (Inr plan :: unit CompositionError + _)"
proof -
  have "isl (composition_build demo_builder :: unit CompositionError + _) = False" by code_simp
  then show ?thesis by (cases "composition_build demo_builder :: unit CompositionError + _") auto
qed

theorem module_order_decided_witness:
  "deterministic_order (cb_modules demo_builder) = (Inr [Id ''store'', Id ''api''] :: unit CompositionError + _) \<and>
   acyclic {(i, d). d \<in> (case fmlookup (cb_modules demo_builder) i of None \<Rightarrow> {} | Some r \<Rightarrow> set (md_dependencies (mr_definition r)))}"
proof -
  have deps: "validate_dependencies (cb_modules demo_builder) = (Inr () :: unit CompositionError + _)" by code_simp
  have "deterministic_order (cb_modules demo_builder) = (Inr [Id ''store'', Id ''api''] :: unit CompositionError + _)"
    by code_simp
  with module_order_decided [OF deps] show ?thesis by simp
qed

theorem composition_slots_served_witness:
  "\<exists>plan. composition_build demo_builder = (Inr plan :: unit CompositionError + _) \<and>
     (\<exists>slot. fmlookup (cp_slots plan) (Id ''db'') = Some slot \<and> sl_ownership slot = OwnedDeclarative \<and>
        sl_definition_identity slot = DefinitionIdentity ''v1'')"
proof -
  obtain plan where plan: "composition_build demo_builder = (Inr plan :: unit CompositionError + _)"
    using demo_plan ..
  have "fmlookup (cb_modules demo_builder) (Id ''api'') = Some demo_api_module"
    by (simp add: demo_builder_def)
  moreover have "demo_requirement \<in> set (module_requirements demo_api_module)" by code_simp
  moreover have "cq_capability_id demo_requirement = Id ''db''"
      "cq_definition_identity demo_requirement = DefinitionIdentity ''v1''"
    by code_simp+
  ultimately have "\<exists>slot. fmlookup (cp_slots plan) (Id ''db'') = Some slot \<and> sl_ownership slot = OwnedDeclarative \<and>
        sl_definition_identity slot = DefinitionIdentity ''v1''"
    using composition_slots_served [OF plan] by metis
  with plan show ?thesis by blast
qed

theorem composition_plan_constructible_witness:
  "\<exists>plan v. composition_build demo_builder = (Inr plan :: unit CompositionError + _) \<and>
     validated (cp_definition plan) = Inr v \<and> registry_validate (cp_factories plan) v = Inr ()"
  using demo_plan composition_plan_constructible by blast

end
