(* ===== verification/Module_Catalog.thy ===== *)
theory Module_Catalog
  imports Kernel_Core Composition_Plan
begin

text \<open>
  Exact module references of \<^verbatim>\<open>runtime-loader\<close> (\<^verbatim>\<open>reference.rs\<close>) with their textual form
  \<^verbatim>\<open>id@version\<close>, and the error types of the loader (\<^verbatim>\<open>error.rs\<close>).
\<close>

section \<open>Versions and references\<close>

datatype ModuleVersion = ModuleVersion (version_str: string)

datatype ModuleReference = ModuleReference (reference_id: Id) (reference_version: ModuleVersion)

text \<open>The derived orders: by string, and by identity first and version second.\<close>

instantiation ModuleVersion :: linorder
begin

definition less_eq_ModuleVersion :: "ModuleVersion \<Rightarrow> ModuleVersion \<Rightarrow> bool" where
  "less_eq_ModuleVersion a b \<longleftrightarrow> version_str a \<le> version_str b"

definition less_ModuleVersion :: "ModuleVersion \<Rightarrow> ModuleVersion \<Rightarrow> bool" where
  "less_ModuleVersion a b \<longleftrightarrow> version_str a < version_str b"

instance
  by standard (auto simp: less_eq_ModuleVersion_def less_ModuleVersion_def ModuleVersion.expand)

end

instantiation ModuleReference :: linorder
begin

definition less_eq_ModuleReference :: "ModuleReference \<Rightarrow> ModuleReference \<Rightarrow> bool" where
  "less_eq_ModuleReference a b \<longleftrightarrow>
     reference_id a < reference_id b \<or>
     (reference_id a = reference_id b \<and> reference_version a \<le> reference_version b)"

definition less_ModuleReference :: "ModuleReference \<Rightarrow> ModuleReference \<Rightarrow> bool" where
  "less_ModuleReference a b \<longleftrightarrow>
     reference_id a < reference_id b \<or>
     (reference_id a = reference_id b \<and> reference_version a < reference_version b)"

instance
  by standard (auto simp: less_eq_ModuleReference_def less_ModuleReference_def ModuleReference.expand)

end

section \<open>Errors\<close>

datatype ModuleFactoryError = ModuleFactoryError (factory_reason: string)

datatype InvalidReferenceReason = BlankModuleId | BlankVersion | ReservedVersionDelimiter

datatype IncompatibleEntryReason =
    ProducedIdentityMismatch Id  \<comment> \<open>actual\<close>
  | DeclaredDependenciesDisagree "Id list" "Id list"  \<comment> \<open>declared, produced\<close>

datatype LoaderError =
    InvalidReference string InvalidReferenceReason
  | DuplicateCatalogEntry ModuleReference
  | DuplicateRootReference ModuleReference
  | MissingReference ModuleReference "ModuleReference option" "ModuleReference list"
      \<comment> \<open>requested, required by, path\<close>
  | DependencyCycle "ModuleReference list"
  | IncompatibleEntry ModuleReference IncompatibleEntryReason
  | RegistrationConstructionFailed ModuleReference ModuleFactoryError
  | LoaderPanic  \<comment> \<open>not a value of the source: a failed \<^verbatim>\<open>expect\<close>\<close>

section \<open>Construction\<close>

definition ModuleVersion_new :: "string \<Rightarrow> LoaderError + ModuleVersion" where
  "ModuleVersion_new value =
     (if trim_is_empty value then Inl (InvalidReference value BlankVersion)
      else if CHR ''@'' \<in> set value then Inl (InvalidReference value ReservedVersionDelimiter)
      else Inr (ModuleVersion value))"

definition ModuleReference_new :: "string \<Rightarrow> string \<Rightarrow> LoaderError + ModuleReference" where
  "ModuleReference_new id_value version =
     (case Id_new id_value of
        Inl _ \<Rightarrow> Inl (InvalidReference id_value BlankModuleId)
      | Inr parsed_id \<Rightarrow>
          (case ModuleVersion_new version of
             Inl e \<Rightarrow> Inl e
           | Inr v \<Rightarrow> Inr (ModuleReference parsed_id v)))"

section \<open>Textual form\<close>

definition reference_display :: "ModuleReference \<Rightarrow> string" where
  "reference_display r = as_str (reference_id r) @ ''@'' @ version_str (reference_version r)"

text \<open>\<^verbatim>\<open>Serialize\<close> writes the display form.\<close>

definition reference_serialize :: "ModuleReference \<Rightarrow> string" where
  "reference_serialize r = reference_display r"

text \<open>\<^verbatim>\<open>str::rsplit_once\<close> with an ASCII delimiter: the text before and after its last occurrence.\<close>

fun rsplit_once :: "char \<Rightarrow> string \<Rightarrow> (string \<times> string) option" where
  "rsplit_once d [] = None"
| "rsplit_once d (c # s) =
     (case rsplit_once d s of
        Some (before, after) \<Rightarrow> Some (c # before, after)
      | None \<Rightarrow> if c = d then Some ([], s) else None)"

text \<open>
  \<^verbatim>\<open>serde::de::Error::custom\<close> renders its argument as text; the model keeps the argument.
\<close>

datatype reference_decode_error = ReferenceForm | ReferenceRejected LoaderError

definition version_deserialize :: "string \<Rightarrow> reference_decode_error + ModuleVersion" where
  "version_deserialize value =
     (case ModuleVersion_new value of Inl e \<Rightarrow> Inl (ReferenceRejected e) | Inr v \<Rightarrow> Inr v)"

definition reference_deserialize :: "string \<Rightarrow> reference_decode_error + ModuleReference" where
  "reference_deserialize value =
     (case rsplit_once (CHR ''@'') value of
        None \<Rightarrow> Inl ReferenceForm
      | Some (i, version) \<Rightarrow>
          (case ModuleReference_new i version of
             Inl e \<Rightarrow> Inl (ReferenceRejected e)
           | Inr r \<Rightarrow> Inr r))"

section \<open>The grammar is unambiguous\<close>

text \<open>The values of the Rust type: the ones its constructor returns.\<close>

definition valid_reference :: "ModuleReference \<Rightarrow> bool" where
  "valid_reference r \<longleftrightarrow>
     valid_id (reference_id r) \<and> \<not> trim_is_empty (version_str (reference_version r)) \<and>
     CHR ''@'' \<notin> set (version_str (reference_version r))"

lemma ModuleReference_new_Inr_iff:
  "ModuleReference_new i v = Inr r \<longleftrightarrow> r = ModuleReference (Id i) (ModuleVersion v) \<and> valid_reference r"
  by (auto simp: ModuleReference_new_def ModuleVersion_new_def Id_new_def valid_reference_def valid_id_def
      split: sum.splits)

lemma rsplit_once_None_iff: "rsplit_once d s = None \<longleftrightarrow> d \<notin> set s"
  by (induction s) (auto split: option.splits)

lemma rsplit_once_Some_iff:
  "rsplit_once d s = Some (before, after) \<longleftrightarrow> s = before @ [d] @ after \<and> d \<notin> set after"
proof (induction s arbitrary: before)
  case (Cons c s)
  show ?case
  proof (cases "rsplit_once d s")
    case None
    then have "d \<notin> set s" by (simp add: rsplit_once_None_iff)
    with None show ?thesis by (cases before) auto
  next
    case (Some p)
    obtain b a where p: "p = (b, a)" by (cases p)
    from Some have "d \<in> set s" using rsplit_once_None_iff [of d s] by auto
    with Some p Cons.IH show ?thesis by (cases before) auto
  qed
qed simp

text \<open>
  The explicit module catalog of \<^verbatim>\<open>runtime-loader\<close> (\<^verbatim>\<open>catalog.rs\<close>). A registration factory
  is host code: a function that may read and change process-local state of the type \<open>'w\<close>
  and returns a fresh registration or its failure.
\<close>

type_synonym ('f, 'p, 'h, 'w) ModuleRegistrationFactory =
  "'w \<Rightarrow> (ModuleFactoryError + ('f, 'p, 'h) ModuleRegistration) \<times> 'w"

record ('f, 'p, 'h, 'w) CatalogEntry =
  ce_reference :: ModuleReference
  ce_dependencies :: "ModuleReference list"
  ce_factory :: "('f, 'p, 'h, 'w) ModuleRegistrationFactory"

definition CatalogEntry_with_factory ::
    "ModuleReference \<Rightarrow> ('f, 'p, 'h, 'w) ModuleRegistrationFactory \<Rightarrow> ('f, 'p, 'h, 'w) CatalogEntry" where
  "CatalogEntry_with_factory reference factory =
     \<lparr>ce_reference = reference, ce_dependencies = [], ce_factory = factory\<rparr>"

definition CatalogEntry_new ::
    "ModuleReference \<Rightarrow> ('f, 'p, 'h, 'w) ModuleRegistrationFactory \<Rightarrow> ('f, 'p, 'h, 'w) CatalogEntry" where
  "CatalogEntry_new reference factory =
     \<lparr>ce_reference = reference, ce_dependencies = [], ce_factory = factory\<rparr>"

definition entry_depends_on ::
    "('f, 'p, 'h, 'w) CatalogEntry \<Rightarrow> ModuleReference \<Rightarrow> ('f, 'p, 'h, 'w) CatalogEntry" where
  "entry_depends_on e dependency = e\<lparr>ce_dependencies := ce_dependencies e @ [dependency]\<rparr>"

definition entry_depends_on_all ::
    "('f, 'p, 'h, 'w) CatalogEntry \<Rightarrow> ModuleReference list \<Rightarrow> ('f, 'p, 'h, 'w) CatalogEntry" where
  "entry_depends_on_all e deps = e\<lparr>ce_dependencies := ce_dependencies e @ deps\<rparr>"

record ('f, 'p, 'h, 'w) ModuleCatalog =
  mc_entries :: "(ModuleReference, ('f, 'p, 'h, 'w) CatalogEntry) fmap"

definition ModuleCatalog_new :: "('f, 'p, 'h, 'w) ModuleCatalog" where
  "ModuleCatalog_new = \<lparr>mc_entries = fmempty\<rparr>"

definition catalog_register :: "('f, 'p, 'h, 'w) ModuleCatalog \<Rightarrow> ('f, 'p, 'h, 'w) CatalogEntry \<Rightarrow>
    LoaderError + ('f, 'p, 'h, 'w) ModuleCatalog" where
  "catalog_register c entry =
     (if contains_key (mc_entries c) (ce_reference entry) then
        Inl (DuplicateCatalogEntry (ce_reference entry))
      else Inr \<lparr>mc_entries = fmupd (ce_reference entry) entry (mc_entries c)\<rparr>)"

definition catalog_contains :: "('f, 'p, 'h, 'w) ModuleCatalog \<Rightarrow> ModuleReference \<Rightarrow> bool" where
  "catalog_contains c reference \<longleftrightarrow> contains_key (mc_entries c) reference"

definition catalog_get ::
    "('f, 'p, 'h, 'w) ModuleCatalog \<Rightarrow> ModuleReference \<Rightarrow> ('f, 'p, 'h, 'w) CatalogEntry option" where
  "catalog_get c reference = fmlookup (mc_entries c) reference"

definition catalog_references :: "('f, 'p, 'h, 'w) ModuleCatalog \<Rightarrow> ModuleReference list" where
  "catalog_references c = bm_keys (mc_entries c)"

definition catalog_len :: "('f, 'p, 'h, 'w) ModuleCatalog \<Rightarrow> nat" where
  "catalog_len c = length (bm_keys (mc_entries c))"

definition catalog_is_empty :: "('f, 'p, 'h, 'w) ModuleCatalog \<Rightarrow> bool" where
  "catalog_is_empty c \<longleftrightarrow> mc_entries c = fmempty"

end
