(* ===== verification/Loader_Resolve.thy ===== *)
theory Loader_Resolve
  imports Module_Catalog Dependency_Dfs
begin

text \<open>
  Reference resolution (\<^verbatim>\<open>resolve.rs\<close>): the breadth-first closure of the roots, the cycle
  classification, the construction of fresh registrations and the hand-over to composition.
\<close>

section \<open>Roots and dependencies\<close>

definition collect_roots :: "ModuleReference list \<Rightarrow> LoaderError + ModuleReference fset" where
  "collect_roots roots =
     (let sorted_roots = sort roots in
      case find (\<lambda>(a, b). a = b) (zip sorted_roots (tl sorted_roots)) of
        Some (duplicate, _) \<Rightarrow> Inl (DuplicateRootReference duplicate)
      | None \<Rightarrow> Inr (fset_of_list sorted_roots))"

definition sorted_dependencies :: "('f, 'p, 'h, 'w) CatalogEntry \<Rightarrow> ModuleReference list" where
  "sorted_dependencies entry = sort (ce_dependencies entry)"

section \<open>The breadth-first closure\<close>

record Discovered =
  dv_required_by :: "ModuleReference option"
  dv_path :: "ModuleReference list"

type_synonym discovery_map = "(ModuleReference, Discovered) fmap"

text \<open>\<^verbatim>\<open>map.entry(key).or_insert(value)\<close>.\<close>

definition or_insert :: "'k \<Rightarrow> 'v \<Rightarrow> ('k, 'v) fmap \<Rightarrow> ('k, 'v) fmap" where
  "or_insert k v m = (if contains_key m k then m else fmupd k v m)"

record search =
  se_resolved :: discovery_map
  se_missing :: discovery_map
  se_next :: discovery_map

definition discover_dependency ::
    "ModuleReference \<Rightarrow> Discovered \<Rightarrow> ModuleReference \<Rightarrow> search \<Rightarrow> search" where
  "discover_dependency reference discovery dependency s =
     (if contains_key (se_resolved s) dependency then s
      else s\<lparr>se_next := or_insert dependency
               \<lparr>dv_required_by = Some reference, dv_path = dv_path discovery @ [dependency]\<rparr> (se_next s)\<rparr>)"

definition expand_reference ::
    "('f, 'p, 'h, 'w) ModuleCatalog \<Rightarrow> ModuleReference \<times> Discovered \<Rightarrow> search \<Rightarrow> search" where
  "expand_reference catalog = (\<lambda>(reference, discovery) s.
     if contains_key (se_resolved s) reference then s
     else
       (case catalog_get catalog reference of
          None \<Rightarrow> s\<lparr>se_missing := or_insert reference discovery (se_missing s)\<rparr>
        | Some entry \<Rightarrow>
            fold (discover_dependency reference discovery) (sorted_dependencies entry)
              (s\<lparr>se_resolved := fmupd reference discovery (se_resolved s)\<rparr>)))"

definition expand_frontier :: "('f, 'p, 'h, 'w) ModuleCatalog \<Rightarrow> discovery_map \<Rightarrow> discovery_map \<Rightarrow>
    discovery_map \<Rightarrow> search" where
  "expand_frontier catalog resolved missing frontier =
     fold (expand_reference catalog) (bm_items frontier)
       \<lparr>se_resolved = resolved, se_missing = missing, se_next = fmempty\<rparr>"

definition root_frontier :: "ModuleReference fset \<Rightarrow> discovery_map" where
  "root_frontier roots =
     fold (\<lambda>r m. fmupd r \<lparr>dv_required_by = None, dv_path = [r]\<rparr> m) (sorted_list_of_fset roots) fmempty"

text \<open>
  Each iteration with a non-empty next frontier resolves at least one more catalog entry,
  so the loop ends.
\<close>

definition unresolved :: "('f, 'p, 'h, 'w) ModuleCatalog \<Rightarrow> discovery_map \<Rightarrow> nat" where
  "unresolved catalog resolved = card (fmdom' (mc_entries catalog) - fmdom' resolved)"

lemma fold_discover_dependency:
  "se_resolved (fold (discover_dependency r d) ds s) = se_resolved s"
  "se_missing (fold (discover_dependency r d) ds s) = se_missing s"
  by (induction ds arbitrary: s) (auto simp: discover_dependency_def)

lemma expand_reference_progress:
  "(expand_reference catalog p s = s \<or> se_next (expand_reference catalog p s) = se_next s) \<and>
     se_resolved (expand_reference catalog p s) = se_resolved s
   \<or> fst p \<in> fmdom' (mc_entries catalog) - fmdom' (se_resolved s) \<and>
     fmdom' (se_resolved (expand_reference catalog p s)) = insert (fst p) (fmdom' (se_resolved s))"
  by (auto simp: expand_reference_def fold_discover_dependency catalog_get_def contains_key_def
      fmlookup_dom'_iff split: prod.splits option.splits)

lemma fold_expand_reference_progress:
  fixes catalog :: "('f, 'p, 'h, 'w) ModuleCatalog"
  defines "rest \<equiv> \<lambda>s :: search. fmdom' (mc_entries catalog) - fmdom' (se_resolved s)"
  shows "rest (fold (expand_reference catalog) ps s) \<subseteq> rest s \<and>
    (se_next (fold (expand_reference catalog) ps s) \<noteq> se_next s \<longrightarrow>
       rest (fold (expand_reference catalog) ps s) \<subset> rest s)"
proof (induction ps arbitrary: s)
  case (Cons p ps)
  let ?t = "expand_reference catalog p s"
  have "rest ?t \<subseteq> rest s \<and> (se_next ?t \<noteq> se_next s \<longrightarrow> rest ?t \<subset> rest s)"
    using expand_reference_progress [of catalog p s] unfolding rest_def by auto
  with Cons.IH [of ?t] show ?case by (cases "se_next ?t = se_next s") auto
qed simp

function closure_loop :: "('f, 'p, 'h, 'w) ModuleCatalog \<Rightarrow> discovery_map \<Rightarrow> discovery_map \<Rightarrow>
    discovery_map \<Rightarrow> discovery_map \<times> discovery_map" where
  "closure_loop catalog resolved missing frontier =
     (if frontier = fmempty then (resolved, missing)
      else
        let s = expand_frontier catalog resolved missing frontier in
        closure_loop catalog (se_resolved s) (se_missing s) (se_next s))"
  by pat_completeness auto

termination
proof (relation "measure (\<lambda>(catalog, resolved, _, frontier).
    2 * unresolved catalog resolved + (if frontier = fmempty then 0 else 1))")
  fix catalog :: "('f, 'p, 'h, 'w) ModuleCatalog" and resolved missing frontier s
  assume "frontier \<noteq> fmempty" and s: "s = expand_frontier catalog resolved missing frontier"
  have sub: "fmdom' (mc_entries catalog) - fmdom' (se_resolved s) \<subseteq> fmdom' (mc_entries catalog) - fmdom' resolved"
    and less: "se_next s \<noteq> fmempty \<Longrightarrow>
      fmdom' (mc_entries catalog) - fmdom' (se_resolved s) \<subset> fmdom' (mc_entries catalog) - fmdom' resolved"
    using fold_expand_reference_progress [of catalog "bm_items frontier"
        "\<lparr>se_resolved = resolved, se_missing = missing, se_next = fmempty\<rparr>"]
    by (simp_all add: s expand_frontier_def)
  have "unresolved catalog (se_resolved s) \<le> unresolved catalog resolved"
    unfolding unresolved_def using sub by (intro card_mono) auto
  moreover have "unresolved catalog (se_resolved s) < unresolved catalog resolved" if "se_next s \<noteq> fmempty"
    unfolding unresolved_def using less [OF that] by (intro psubset_card_mono) auto
  ultimately show "((catalog, se_resolved s, se_missing s, se_next s), catalog, resolved, missing, frontier)
      \<in> measure (\<lambda>(catalog, resolved, _, frontier).
          2 * unresolved catalog resolved + (if frontier = fmempty then 0 else 1))"
    using \<open>frontier \<noteq> fmempty\<close> by (cases "se_next s = fmempty") auto
qed simp

declare closure_loop.simps [simp del]

section \<open>Cycle classification\<close>

text \<open>
  \<^verbatim>\<open>rotate_to_smallest\<close>: \<^verbatim>\<open>min_by_key\<close> returns the first smallest element. \<open>None\<close> is the
  panic on an empty slice.
\<close>

definition rotate_to_smallest :: "ModuleReference list \<Rightarrow> ModuleReference list option" where
  "rotate_to_smallest cycle =
     (case position (\<lambda>r. \<forall>x\<in>set cycle. r \<le> x) cycle of
        None \<Rightarrow> None
      | Some smallest \<Rightarrow> Some (rotate smallest cycle))"

definition cycle_error :: "ModuleReference list \<Rightarrow> nat \<Rightarrow> LoaderError" where
  "cycle_error path start =
     (case rotate_to_smallest (drop start path) of
        None \<Rightarrow> LoaderPanic
      | Some [] \<Rightarrow> LoaderPanic
      | Some (first # rest) \<Rightarrow> DependencyCycle (first # rest @ [first]))"

text \<open>
  The walk. \<^verbatim>\<open>path\<close> and \<^verbatim>\<open>on_path\<close> are mutable in the source and restored before every
  successful return, so they are passed as values here; \<^verbatim>\<open>completed\<close> is threaded.
\<close>

function loader_visit :: "discovery_map \<Rightarrow> ('f, 'p, 'h, 'w) ModuleCatalog \<Rightarrow> ModuleReference list \<Rightarrow>
    (ModuleReference, nat) fmap \<Rightarrow> ModuleReference fset \<Rightarrow> ModuleReference \<Rightarrow>
    LoaderError + ModuleReference fset" where
  "loader_visit resolved catalog path on_path completed reference =
     (if reference |\<in>| completed then Inr completed
      else
        (case fmlookup on_path reference of
           Some start \<Rightarrow> Inl (cycle_error path start)
         | None \<Rightarrow>
             (case catalog_get catalog reference of
                None \<Rightarrow> Inl LoaderPanic
              | Some entry \<Rightarrow>
                  (case try_fold
                          (\<lambda>completed dependency.
                             if contains_key resolved dependency then
                               loader_visit resolved catalog (path @ [reference])
                                 (fmupd reference (length path) on_path) completed dependency
                             else Inr completed)
                          completed (sorted_dependencies entry) of
                     Inl e \<Rightarrow> Inl e
                   | Inr completed' \<Rightarrow> Inr (finsert reference completed')))))"
  by pat_completeness auto

termination
proof (relation "measure (\<lambda>(_, catalog, _, on_path, _, _).
    card (fmdom' (mc_entries catalog) - fmdom' on_path))")
  fix catalog :: "('f, 'p, 'h, 'w) ModuleCatalog" and resolved path and on_path :: "(ModuleReference, nat) fmap"
    and completed reference entry c dependency
  assume "fmlookup on_path reference = None" "catalog_get catalog reference = Some entry"
  then have "reference \<in> fmdom' (mc_entries catalog) - fmdom' on_path"
    by (auto simp: catalog_get_def fmlookup_dom'_iff)
  then have "card (fmdom' (mc_entries catalog) - insert reference (fmdom' on_path)) <
      card (fmdom' (mc_entries catalog) - fmdom' on_path)"
    by (intro psubset_card_mono) auto
  then show "((resolved, catalog, path @ [reference], fmupd reference (length path) on_path, c, dependency),
      resolved, catalog, path, on_path, completed, reference)
      \<in> measure (\<lambda>(_, catalog, _, on_path, _, _). card (fmdom' (mc_entries catalog) - fmdom' on_path))"
    by simp
qed simp

declare loader_visit.simps [simp del]

definition detect_cycles ::
    "ModuleReference fset \<Rightarrow> discovery_map \<Rightarrow> ('f, 'p, 'h, 'w) ModuleCatalog \<Rightarrow> LoaderError + unit" where
  "detect_cycles roots resolved catalog =
     (case try_fold
             (\<lambda>completed root.
                if root |\<in>| completed then Inr completed
                else loader_visit resolved catalog [] fmempty completed root)
             {||} (sorted_list_of_fset roots) of
        Inl e \<Rightarrow> Inl e
      | Inr _ \<Rightarrow> Inr ())"

section \<open>Resolution\<close>

definition resolve_graph ::
    "('f, 'p, 'h, 'w) ModuleCatalog \<Rightarrow> ModuleReference fset \<Rightarrow> LoaderError + discovery_map" where
  "resolve_graph catalog roots =
     (case closure_loop catalog fmempty fmempty (root_frontier roots) of
        (resolved, missing) \<Rightarrow>
          (case bm_items missing of
             (requested, discovery) # _ \<Rightarrow>
               Inl (MissingReference requested (dv_required_by discovery) (dv_path discovery))
           | [] \<Rightarrow>
               (case detect_cycles roots resolved catalog of
                  Inl e \<Rightarrow> Inl e
                | Inr _ \<Rightarrow> Inr resolved)))"

record ('f, 'p, 'h) ResolvedEntry =
  re_reference :: ModuleReference
  re_registration :: "('f, 'p, 'h) ModuleRegistration"

record ('f, 'p, 'h) ResolvedModules =
  rm_entries :: "('f, 'p, 'h) ResolvedEntry list"

definition check_registration :: "ModuleReference \<Rightarrow> ('f, 'p, 'h, 'w) CatalogEntry \<Rightarrow>
    ('f, 'p, 'h) ModuleRegistration \<Rightarrow> LoaderError + ('f, 'p, 'h) ResolvedEntry" where
  "check_registration reference entry registration =
     (let d = mr_definition registration;
          declared = fset_of_list (map reference_id (ce_dependencies entry));
          produced = fset_of_list (md_dependencies d)
      in if md_id d \<noteq> reference_id reference then
           Inl (IncompatibleEntry reference (ProducedIdentityMismatch (md_id d)))
         else if declared \<noteq> produced then
           Inl (IncompatibleEntry reference
                  (DeclaredDependenciesDisagree (sorted_list_of_fset declared) (sorted_list_of_fset produced)))
         else Inr \<lparr>re_reference = reference, re_registration = registration\<rparr>)"

definition construct_entry :: "('f, 'p, 'h, 'w) ModuleCatalog \<Rightarrow> ModuleReference \<Rightarrow> 'w \<Rightarrow>
    (LoaderError + ('f, 'p, 'h) ResolvedEntry) \<times> 'w" where
  "construct_entry catalog reference w =
     (case catalog_get catalog reference of
        None \<Rightarrow> (Inl LoaderPanic, w)
      | Some entry \<Rightarrow>
          (case ce_factory entry w of
             (Inl source, w') \<Rightarrow> (Inl (RegistrationConstructionFailed reference source), w')
           | (Inr registration, w') \<Rightarrow> (check_registration reference entry registration, w')))"

fun construct_entries :: "('f, 'p, 'h, 'w) ModuleCatalog \<Rightarrow> ModuleReference list \<Rightarrow>
    ('f, 'p, 'h) ResolvedEntry list \<Rightarrow> 'w \<Rightarrow> (LoaderError + ('f, 'p, 'h) ResolvedEntry list) \<times> 'w" where
  "construct_entries catalog [] entries w = (Inr entries, w)"
| "construct_entries catalog (reference # references) entries w =
     (case construct_entry catalog reference w of
        (Inl e, w') \<Rightarrow> (Inl e, w')
      | (Inr entry, w') \<Rightarrow> construct_entries catalog references (entries @ [entry]) w')"

definition construct :: "('f, 'p, 'h, 'w) ModuleCatalog \<Rightarrow> discovery_map \<Rightarrow> 'w \<Rightarrow>
    (LoaderError + ('f, 'p, 'h) ResolvedModules) \<times> 'w" where
  "construct catalog resolved w =
     (case construct_entries catalog (bm_keys resolved) [] w of
        (Inl e, w') \<Rightarrow> (Inl e, w')
      | (Inr entries, w') \<Rightarrow> (Inr \<lparr>rm_entries = entries\<rparr>, w'))"

definition loader_resolve :: "('f, 'p, 'h, 'w) ModuleCatalog \<Rightarrow> ModuleReference list \<Rightarrow> 'w \<Rightarrow>
    (LoaderError + ('f, 'p, 'h) ResolvedModules) \<times> 'w" where
  "loader_resolve catalog roots w =
     (case collect_roots roots of
        Inl e \<Rightarrow> (Inl e, w)
      | Inr root_set \<Rightarrow>
          (case resolve_graph catalog root_set of
             Inl e \<Rightarrow> (Inl e, w)
           | Inr resolved \<Rightarrow> construct catalog resolved w))"

section \<open>Resolved modules\<close>

definition resolved_references :: "('f, 'p, 'h) ResolvedModules \<Rightarrow> ModuleReference list" where
  "resolved_references m = map re_reference (rm_entries m)"

definition resolved_registrations :: "('f, 'p, 'h) ResolvedModules \<Rightarrow> ('f, 'p, 'h) ModuleRegistration list" where
  "resolved_registrations m = map re_registration (rm_entries m)"

definition resolved_len :: "('f, 'p, 'h) ResolvedModules \<Rightarrow> nat" where
  "resolved_len m = length (rm_entries m)"

definition resolved_is_empty :: "('f, 'p, 'h) ResolvedModules \<Rightarrow> bool" where
  "resolved_is_empty m \<longleftrightarrow> rm_entries m = []"

definition into_composition_builder ::
    "('f, 'p, 'h) ResolvedModules \<Rightarrow> 'r CompositionError + ('f, 'p, 'h) CompositionBuilder" where
  "into_composition_builder m =
     try_fold composition_register CompositionBuilder_new (map re_registration (rm_entries m))"

definition resolved_compose ::
    "('f, 'p, 'h) ResolvedModules \<Rightarrow> 'r CompositionError + ('f, 'p, 'h) CompositionPlan" where
  "resolved_compose m =
     (case into_composition_builder m of Inl e \<Rightarrow> Inl e | Inr b \<Rightarrow> composition_build b)"

end
