(* ===== verification/Loader_Cycles.thy ===== *)
theory Loader_Cycles
  imports Loader_Resolve
begin

text \<open>
  Correctness of the breadth-first closure: it ends with exactly the references reachable
  from the roots, split into the ones the catalog has and the missing ones, each with a
  genuine path from a root.
\<close>

section \<open>The reference graph\<close>

definition reference_successors :: "('f, 'p, 'h, 'w) ModuleCatalog \<Rightarrow> ModuleReference \<Rightarrow> ModuleReference list" where
  "reference_successors catalog r =
     (case catalog_get catalog r of None \<Rightarrow> [] | Some entry \<Rightarrow> ce_dependencies entry)"

definition reference_closure ::
    "('f, 'p, 'h, 'w) ModuleCatalog \<Rightarrow> ModuleReference set \<Rightarrow> ModuleReference set" where
  "reference_closure catalog roots =
     {r. \<exists>root\<in>roots. (root, r) \<in> (edges_of (reference_successors catalog))\<^sup>*}"

lemma reference_support: "support (reference_successors catalog) \<subseteq> fmdom' (mc_entries catalog)"
  by (auto simp: support_def reference_successors_def catalog_get_def fmlookup_dom'_iff split: option.splits)

interpretation reference_graph: dependency_graph "reference_successors catalog" for catalog
  by unfold_locales (rule finite_subset [OF reference_support], simp)

lemma roots_in_closure: "roots \<subseteq> reference_closure catalog roots"
  by (auto simp: reference_closure_def)

lemma closure_step:
  "r \<in> reference_closure catalog roots \<Longrightarrow> set (reference_successors catalog r) \<subseteq> reference_closure catalog roots"
proof
  fix x
  assume "r \<in> reference_closure catalog roots" "x \<in> set (reference_successors catalog r)"
  then obtain root where "root \<in> roots" "(root, r) \<in> (edges_of (reference_successors catalog))\<^sup>*"
      "(r, x) \<in> edges_of (reference_successors catalog)"
    by (auto simp: reference_closure_def)
  then show "x \<in> reference_closure catalog roots"
    unfolding reference_closure_def by (blast intro: rtrancl_into_rtrancl)
qed

lemma closure_least:
  assumes "roots \<subseteq> S" and "\<And>r. r \<in> S \<Longrightarrow> set (reference_successors catalog r) \<subseteq> S"
  shows "reference_closure catalog roots \<subseteq> S"
proof
  fix r
  assume "r \<in> reference_closure catalog roots"
  then obtain root where "root \<in> roots" and "(root, r) \<in> (edges_of (reference_successors catalog))\<^sup>*"
    by (auto simp: reference_closure_def)
  then show "r \<in> S" using closed_set_no_exit [of S] assms by blast
qed

section \<open>Discoveries\<close>

definition genuine_discovery ::
    "('f, 'p, 'h, 'w) ModuleCatalog \<Rightarrow> ModuleReference set \<Rightarrow> ModuleReference \<Rightarrow> Discovered \<Rightarrow> bool" where
  "genuine_discovery catalog roots r d \<longleftrightarrow>
     dv_path d \<noteq> [] \<and> hd (dv_path d) \<in> roots \<and> last (dv_path d) = r \<and>
     successively (\<lambda>x y. y \<in> set (reference_successors catalog x)) (dv_path d) \<and>
     dv_required_by d = (case butlast (dv_path d) of [] \<Rightarrow> None | p # ps \<Rightarrow> Some (last (p # ps)))"

lemma genuine_root: "r \<in> roots \<Longrightarrow> genuine_discovery catalog roots r \<lparr>dv_required_by = None, dv_path = [r]\<rparr>"
  by (simp add: genuine_discovery_def)

lemma genuine_extend:
  assumes "genuine_discovery catalog roots r d" and "x \<in> set (reference_successors catalog r)"
  shows "genuine_discovery catalog roots x \<lparr>dv_required_by = Some r, dv_path = dv_path d @ [x]\<rparr>"
  using assms
  by (auto simp: genuine_discovery_def successively_append_iff neq_Nil_conv split: list.splits)

lemma successively_rtrancl:
  "successively (\<lambda>x y. (x, y) \<in> r) p \<Longrightarrow> p \<noteq> [] \<Longrightarrow> (hd p, last p) \<in> r\<^sup>*"
  by (induction p rule: induct_list012) (auto intro: converse_rtrancl_into_rtrancl)

lemma genuine_reachable:
  assumes "genuine_discovery catalog roots r d"
  shows "r \<in> reference_closure catalog roots"
proof -
  have "(hd (dv_path d), last (dv_path d)) \<in> (edges_of (reference_successors catalog))\<^sup>*"
    using assms by (intro successively_rtrancl) (auto simp: genuine_discovery_def)
  with assms show ?thesis by (auto simp: genuine_discovery_def reference_closure_def)
qed

definition genuine_map ::
    "('f, 'p, 'h, 'w) ModuleCatalog \<Rightarrow> ModuleReference set \<Rightarrow> discovery_map \<Rightarrow> bool" where
  "genuine_map catalog roots m \<longleftrightarrow> (\<forall>r d. fmlookup m r = Some d \<longrightarrow> genuine_discovery catalog roots r d)"

lemma genuine_map_upd:
  "genuine_map catalog roots m \<Longrightarrow> genuine_discovery catalog roots r d \<Longrightarrow> genuine_map catalog roots (fmupd r d m)"
  by (simp add: genuine_map_def)

lemma genuine_map_or_insert:
  "genuine_map catalog roots m \<Longrightarrow> genuine_discovery catalog roots r d \<Longrightarrow>
     genuine_map catalog roots (or_insert r d m)"
  by (simp add: or_insert_def genuine_map_upd)

lemma fmdom_or_insert: "fmdom' (or_insert k v m) = insert k (fmdom' m)"
  by (auto simp: or_insert_def contains_key_iff fmlookup_dom'_iff)

section \<open>The invariant of the search\<close>

text \<open>
  Every known reference is resolved, missing, in the next frontier or still pending in the
  current one; resolved references have all their dependencies known.
\<close>

definition search_inv :: "('f, 'p, 'h, 'w) ModuleCatalog \<Rightarrow> ModuleReference set \<Rightarrow> ModuleReference set \<Rightarrow>
    search \<Rightarrow> bool" where
  "search_inv catalog roots pending s \<longleftrightarrow>
     genuine_map catalog roots (se_resolved s) \<and> genuine_map catalog roots (se_missing s) \<and>
     genuine_map catalog roots (se_next s) \<and>
     fmdom' (se_resolved s) \<subseteq> fmdom' (mc_entries catalog) \<and>
     fmdom' (se_missing s) \<inter> fmdom' (mc_entries catalog) = {} \<and>
     (let known = fmdom' (se_resolved s) \<union> fmdom' (se_missing s) \<union> fmdom' (se_next s) \<union> pending
      in roots \<subseteq> known \<and> (\<forall>r\<in>fmdom' (se_resolved s). set (reference_successors catalog r) \<subseteq> known))"

lemma fold_discover_next:
  assumes d: "genuine_discovery catalog roots r d" and ds: "set ds \<subseteq> set (reference_successors catalog r)"
    and nxt: "genuine_map catalog roots (se_next s)"
  shows "genuine_map catalog roots (se_next (fold (discover_dependency r d) ds s)) \<and>
    fmdom' (se_next (fold (discover_dependency r d) ds s)) =
      fmdom' (se_next s) \<union> (set ds - fmdom' (se_resolved s))"
  using ds nxt
proof (induction ds arbitrary: s)
  case (Cons x ds)
  let ?s = "discover_dependency r d x s"
  have "genuine_map catalog roots (se_next ?s)"
    using Cons.prems genuine_extend [OF d, of x]
    by (auto simp: discover_dependency_def intro!: genuine_map_or_insert)
  moreover have "fmdom' (se_next ?s) = fmdom' (se_next s) \<union> ({x} - fmdom' (se_resolved s))"
      "se_resolved ?s = se_resolved s"
    by (auto simp: discover_dependency_def fmdom_or_insert contains_key_iff fmlookup_dom'_iff)
  ultimately show ?case using Cons.IH [of ?s] Cons.prems by auto
qed simp

lemma expand_reference_inv:
  assumes inv: "search_inv catalog roots (insert r pending) s" and d: "genuine_discovery catalog roots r d"
  shows "search_inv catalog roots pending (expand_reference catalog (r, d) s)"
proof (cases "contains_key (se_resolved s) r")
  case True
  then have "r \<in> fmdom' (se_resolved s)" by (auto simp: contains_key_iff fmlookup_dom'_iff)
  then show ?thesis using True inv by (auto simp: expand_reference_def search_inv_def Let_def)
next
  case new: False
  show ?thesis
  proof (cases "catalog_get catalog r")
    case None
    then have "r \<notin> fmdom' (mc_entries catalog)" by (simp add: catalog_get_def fmdom'_notI)
    with new None inv d show ?thesis
      by (auto simp: expand_reference_def search_inv_def Let_def fmdom_or_insert genuine_map_or_insert)
  next
    case (Some entry)
    let ?t = "s\<lparr>se_resolved := fmupd r d (se_resolved s)\<rparr>"
    have ds: "set (sorted_dependencies entry) = set (reference_successors catalog r)"
      by (simp add: sorted_dependencies_def reference_successors_def Some)
    have cat: "r \<in> fmdom' (mc_entries catalog)" using Some by (auto simp: catalog_get_def fmlookup_dom'_iff)
    have eq: "expand_reference catalog (r, d) s = fold (discover_dependency r d) (sorted_dependencies entry) ?t"
      using new Some by (simp add: expand_reference_def)
    have "genuine_map catalog roots (se_next ?t)" using inv by (simp add: search_inv_def)
    note nxt = fold_discover_next [OF d _ this, of "sorted_dependencies entry"]
    show ?thesis
      using inv d cat nxt ds
      unfolding eq search_inv_def Let_def fold_discover_dependency
      by (auto simp: genuine_map_upd)
  qed
qed

lemma fold_expand_inv:
  assumes "search_inv catalog roots (fst ` set ps) s"
    and "\<forall>(r, d)\<in>set ps. genuine_discovery catalog roots r d"
  shows "search_inv catalog roots {} (fold (expand_reference catalog) ps s)"
  using assms
proof (induction ps arbitrary: s)
  case (Cons p ps)
  obtain r d where p: "p = (r, d)" by (cases p)
  then have "search_inv catalog roots (fst ` set ps) (expand_reference catalog (r, d) s)"
    using Cons.prems by (intro expand_reference_inv) auto
  then show ?case using Cons p by simp
qed simp

definition frontier_inv :: "('f, 'p, 'h, 'w) ModuleCatalog \<Rightarrow> ModuleReference set \<Rightarrow> discovery_map \<Rightarrow>
    discovery_map \<Rightarrow> discovery_map \<Rightarrow> bool" where
  "frontier_inv catalog roots resolved missing frontier \<longleftrightarrow>
     search_inv catalog roots {} \<lparr>se_resolved = resolved, se_missing = missing, se_next = frontier\<rparr>"

lemma frontier_inv_step:
  assumes "frontier_inv catalog roots resolved missing frontier"
  defines "s \<equiv> expand_frontier catalog resolved missing frontier"
  shows "frontier_inv catalog roots (se_resolved s) (se_missing s) (se_next s)"
proof -
  let ?s = "\<lparr>se_resolved = resolved, se_missing = missing, se_next = fmempty\<rparr>"
  have items: "set (bm_items frontier) = {(k, v). fmlookup frontier k = Some v}"
    by (force simp: bm_items_def fmlookup_dom'_iff image_iff)
  have "fst ` set (bm_items frontier) = fmdom' frontier"
    by (force simp: items fmlookup_dom'_iff)
  then have "search_inv catalog roots {} (fold (expand_reference catalog) (bm_items frontier) ?s)"
    using assms(1)
    by (intro fold_expand_inv)
       (auto simp: frontier_inv_def search_inv_def genuine_map_def items Let_def)
  then show ?thesis
    unfolding s_def expand_frontier_def frontier_inv_def search_inv_def by simp
qed

lemma closure_loop_inv:
  assumes "frontier_inv catalog roots resolved missing frontier"
  shows "case closure_loop catalog resolved missing frontier of
    (resolved', missing') \<Rightarrow> frontier_inv catalog roots resolved' missing' fmempty"
  using assms
proof (induction catalog resolved missing frontier rule: closure_loop.induct)
  case (1 catalog resolved missing frontier)
  show ?case
  proof (cases "frontier = fmempty")
    case True
    with 1(2) show ?thesis by (subst closure_loop.simps) simp
  next
    case False
    with 1(1) [OF False refl frontier_inv_step [OF 1(2)]] show ?thesis
      by (subst closure_loop.simps) (simp add: Let_def)
  qed
qed

lemma root_frontier_lookup:
  "fmlookup (root_frontier roots) r =
     (if r |\<in>| roots then Some \<lparr>dv_required_by = None, dv_path = [r]\<rparr> else None)"
proof -
  have "fmlookup (fold (\<lambda>r m. fmupd r \<lparr>dv_required_by = None, dv_path = [r]\<rparr> m) rs m) r =
      (if r \<in> set rs then Some \<lparr>dv_required_by = None, dv_path = [r]\<rparr> else fmlookup m r)" for rs m
    by (induction rs arbitrary: m) auto
  then show ?thesis by (simp add: root_frontier_def)
qed

theorem closure_loop_correct:
  assumes "closure_loop catalog fmempty fmempty (root_frontier roots) = (resolved, missing)"
  defines "closure \<equiv> reference_closure catalog (fset roots)"
  shows "fmdom' resolved = closure \<inter> fmdom' (mc_entries catalog)"
    and "fmdom' missing = closure - fmdom' (mc_entries catalog)"
    and "genuine_map catalog (fset roots) missing"
proof -
  have "frontier_inv catalog (fset roots) fmempty fmempty (root_frontier roots)"
  proof -
    have "fmdom' (root_frontier roots) = fset roots"
      by (auto simp: fmlookup_dom'_iff root_frontier_lookup set_eq_iff)
    then show ?thesis
      by (simp add: frontier_inv_def search_inv_def genuine_map_def root_frontier_lookup genuine_root)
  qed
  from closure_loop_inv [OF this] assms(1)
  have inv: "frontier_inv catalog (fset roots) resolved missing fmempty" by simp
  show "genuine_map catalog (fset roots) missing"
    using inv by (simp add: frontier_inv_def search_inv_def)
  let ?known = "fmdom' resolved \<union> fmdom' missing"
  have none: "reference_successors catalog r = []" if "r \<in> fmdom' missing" for r
    using that inv reference_graph.no_successors [of r catalog] reference_support [of catalog]
    by (auto simp: frontier_inv_def search_inv_def)
  have "closure \<subseteq> ?known"
    unfolding closure_def using inv none
    by (intro closure_least) (auto simp: frontier_inv_def search_inv_def Let_def)
  moreover have "?known \<subseteq> closure"
    using inv genuine_reachable
    by (fastforce simp: frontier_inv_def search_inv_def genuine_map_def closure_def fmlookup_dom'_iff)
  ultimately show "fmdom' resolved = closure \<inter> fmdom' (mc_entries catalog)"
    and "fmdom' missing = closure - fmdom' (mc_entries catalog)"
    using inv by (auto simp: frontier_inv_def search_inv_def)
qed

text \<open>
  Correctness of the cycle classification of the loader and of the phases before
  construction: the walk ends without a cycle exactly when the closure is acyclic, and a
  reported cycle is a simple closed path of the closure that starts at its smallest
  reference.
\<close>

section \<open>Rotated cycles\<close>

lemma closed_path_snoc_hd:
  "closed_path succ (xs @ [hd xs]) \<longleftrightarrow>
     xs \<noteq> [] \<and> distinct xs \<and> successively (\<lambda>x y. y \<in> set (succ x)) xs \<and> hd xs \<in> set (succ (last xs))"
proof (cases "xs = []")
  case False
  have "distinct (tl (xs @ [hd xs])) \<longleftrightarrow> distinct xs" using False by (cases xs) auto
  moreover have "successively (\<lambda>x y. y \<in> set (succ x)) (xs @ [hd xs]) \<longleftrightarrow>
      successively (\<lambda>x y. y \<in> set (succ x)) xs \<and> hd xs \<in> set (succ (last xs))"
    using False by (simp add: successively_append_iff)
  moreover have "2 \<le> length (xs @ [hd xs])" using False by (cases xs) auto
  ultimately show ?thesis using False by (simp add: closed_path_def)
qed (simp add: closed_path_def)

lemma closed_path_rotate:
  assumes "closed_path succ (xs @ [hd xs])"
  shows "closed_path succ (rotate n xs @ [hd (rotate n xs)])"
proof (induction n)
  case (Suc n)
  have "closed_path succ (rotate1 ys @ [hd (rotate1 ys)])" if ys: "closed_path succ (ys @ [hd ys])" for ys
  proof (cases ys)
    case (Cons z zs)
    show ?thesis
    proof (cases "zs = []")
      case False
      then show ?thesis
        using ys unfolding closed_path_snoc_hd
        by (simp add: Cons successively_append_iff successively_Cons)
    qed (use ys Cons in simp)
  qed (use ys in simp)
  with Suc show ?case by simp
qed (use assms in simp)

lemma hd_rotate: "n < length xs \<Longrightarrow> hd (rotate n xs) = xs ! n"
  by (metis hd_rotate_conv_nth length_greater_0_conv mod_less not_less_zero list.size(3))

definition reported_cycle :: "('f, 'p, 'h, 'w) ModuleCatalog \<Rightarrow> ModuleReference set \<Rightarrow> LoaderError \<Rightarrow> bool" where
  "reported_cycle catalog S e \<longleftrightarrow>
     (\<exists>c. e = DependencyCycle c \<and> closed_path (reference_successors catalog) c \<and> set c \<subseteq> S \<and>
        (\<forall>x\<in>set c. hd c \<le> x))"

lemma cycle_error_reported:
  assumes cycle: "closed_path (reference_successors catalog) (drop k path @ [hd (drop k path)])"
    and "set path \<subseteq> S"
  shows "reported_cycle catalog S (cycle_error path k)"
proof -
  let ?c = "drop k path"
  have ne: "?c \<noteq> []" using cycle by (simp add: closed_path_snoc_hd)
  then have "Min (set ?c) \<in> set ?c" "\<forall>x\<in>set ?c. Min (set ?c) \<le> x" by auto
  then obtain n where n: "position (\<lambda>r. \<forall>x\<in>set ?c. r \<le> x) ?c = Some n"
    using position_None_iff [of "\<lambda>r. \<forall>x\<in>set ?c. r \<le> x" ?c] by fastforce
  then have less: "n < length ?c" and least: "\<forall>x\<in>set ?c. ?c ! n \<le> x"
    using position_Some_less by fastforce+
  define r where "r = rotate n ?c"
  have r: "hd r = ?c ! n" "set r = set ?c" "r \<noteq> []"
    using less ne by (simp_all add: r_def hd_rotate)
  then obtain x xs where xs: "r = x # xs" by (cases r) auto
  have "cycle_error path k = DependencyCycle (r @ [hd r])"
    using n xs by (simp add: cycle_error_def rotate_to_smallest_def r_def)
  moreover have "closed_path (reference_successors catalog) (r @ [hd r])"
    unfolding r_def using cycle by (rule closed_path_rotate)
  moreover have "hd (r @ [hd r]) = ?c ! n" "set (r @ [hd r]) = set ?c"
    using r xs by (auto simp: insert_absorb)
  ultimately show ?thesis
    using assms(2) least set_drop_subset [of k path] by (auto simp: reported_cycle_def)
qed

section \<open>The walk\<close>

lemma try_fold_reaches:
  assumes "\<And>s x. P s \<Longrightarrow> x \<in> set xs \<Longrightarrow>
      (case f s x of Inl e \<Rightarrow> Q e | Inr s' \<Rightarrow> P s' \<and> fset s \<subseteq> fset s' \<and> x |\<in>| s')"
    and "P s"
  shows "case try_fold f s xs of Inl e \<Rightarrow> Q e | Inr s' \<Rightarrow> P s' \<and> fset s \<subseteq> fset s' \<and> set xs \<subseteq> fset s'"
  using assms
proof (induction xs arbitrary: s)
  case (Cons x xs)
  show ?case
  proof (cases "f s x")
    case (Inl e)
    then show ?thesis using Cons.prems(1) [of s x] Cons.prems(2) by simp
  next
    case (Inr t)
    then have t: "P t" "fset s \<subseteq> fset t" "x |\<in>| t" using Cons.prems(1) [of s x] Cons.prems(2) by auto
    have "case try_fold f t xs of Inl e \<Rightarrow> Q e | Inr s' \<Rightarrow> P s' \<and> fset t \<subseteq> fset s' \<and> set xs \<subseteq> fset s'"
      using Cons.prems(1) t(1) by (intro Cons.IH) simp_all
    then show ?thesis using Inr t by (auto split: sum.splits)
  qed
qed simp

definition positions_of :: "ModuleReference list \<Rightarrow> (ModuleReference, nat) fmap \<Rightarrow> bool" where
  "positions_of path on_path \<longleftrightarrow>
     (\<forall>x k. fmlookup on_path x = Some k \<longleftrightarrow> k < length path \<and> path ! k = x)"

lemma positions_of_push:
  assumes "positions_of path on_path" and "x \<notin> set path"
  shows "positions_of (path @ [x]) (fmupd x (length path) on_path)"
  using assms by (auto simp: positions_of_def nth_append less_Suc_eq)

lemma positions_of_mem: "positions_of path on_path \<Longrightarrow> fmlookup on_path x = None \<longleftrightarrow> x \<notin> set path"
  unfolding positions_of_def in_set_conv_nth by (metis not_None_eq)

lemma positions_of_drop:
  assumes "positions_of path on_path" and "distinct path" and "fmlookup on_path x = Some k"
  shows "drop k path = dropWhile (\<lambda>y. y \<noteq> x) path" and "x \<in> set path"
proof -
  have k: "k < length path" "path ! k = x" using assms(1,3) by (auto simp: positions_of_def)
  show "x \<in> set path" using k by auto
  have split: "path = take k path @ x # drop (Suc k) path" using k id_take_nth_drop by blast
  have "distinct (take k path @ x # drop (Suc k) path)" unfolding split [symmetric] by (rule assms(2))
  then have "\<forall>y\<in>set (take k path). y \<noteq> x" by auto
  then have "dropWhile (\<lambda>y. y \<noteq> x) (take k path @ x # drop (Suc k) path) = x # drop (Suc k) path"
    by (simp add: dropWhile_append2)
  then show "drop k path = dropWhile (\<lambda>y. y \<noteq> x) path"
    unfolding split [symmetric] using k Cons_nth_drop_Suc [of k path] by simp
qed

definition visit_inv :: "('f, 'p, 'h, 'w) ModuleCatalog \<Rightarrow> ModuleReference set \<Rightarrow> ModuleReference list \<Rightarrow>
    ModuleReference fset \<Rightarrow> bool" where
  "visit_inv catalog S path completed \<longleftrightarrow>
     dfs_inv (reference_successors catalog) (fset completed) path \<and> fset completed \<subseteq> S \<and> set path \<subseteq> S"

lemma loader_visit_correct:
  assumes "\<And>r. r \<in> fmdom' resolved \<Longrightarrow> set (reference_successors catalog r) \<subseteq> fmdom' resolved"
    and "fmdom' resolved \<subseteq> fmdom' (mc_entries catalog)"
    and "visit_inv catalog (fmdom' resolved) path completed" and "positions_of path on_path"
    and "reference \<in> fmdom' resolved"
    and "path \<noteq> [] \<Longrightarrow> reference \<in> set (reference_successors catalog (last path))"
  shows "case loader_visit resolved catalog path on_path completed reference of
      Inl e \<Rightarrow> reported_cycle catalog (fmdom' resolved) e
    | Inr completed' \<Rightarrow> visit_inv catalog (fmdom' resolved) path completed' \<and>
        fset completed \<subseteq> fset completed' \<and> reference |\<in>| completed'"
  using assms
proof (induction resolved catalog path on_path completed reference rule: loader_visit.induct)
  case (1 resolved catalog path on_path completed reference)
  note closed = 1(2) and known = 1(3) and inv = 1(4) and pos = 1(5)
  let ?S = "fmdom' resolved"
  have dfs: "dfs_inv (reference_successors catalog) (fset completed) path"
    using inv by (simp add: visit_inv_def)
  show ?case
  proof (cases "reference |\<in>| completed")
    case True
    with inv show ?thesis by (subst loader_visit.simps) simp
  next
    case fresh: False
    show ?thesis
    proof (cases "fmlookup on_path reference")
      case (Some k)
      have dist: "distinct path" using dfs by (simp add: dfs_inv_def)
      note drop = positions_of_drop [OF pos dist Some]
      then have "path \<noteq> []" by auto
      with drop 1(7) have "closed_path (reference_successors catalog) (dropWhile (\<lambda>x. x \<noteq> reference) path @ [reference])"
        using dfs by (intro dfs_inv_back_edge) auto
      moreover have "hd (drop k path) = reference"
        using drop dropWhile_neq_hd [OF drop(2)] by auto
      ultimately have "reported_cycle catalog ?S (cycle_error path k)"
        using drop(1) inv by (intro cycle_error_reported) (auto simp: visit_inv_def)
      then show ?thesis using fresh Some by (subst loader_visit.simps) simp
    next
      case None
      then have new: "reference \<notin> set path" using positions_of_mem [OF pos] by simp
      obtain entry where entry: "catalog_get catalog reference = Some entry"
        using 1(6) known by (auto simp: catalog_get_def fmlookup_dom'_iff subset_iff)
      let ?path = "path @ [reference]" and ?on = "fmupd reference (length path) on_path"
      let ?step = "\<lambda>completed d. if contains_key resolved d
          then loader_visit resolved catalog ?path ?on completed d else Inr completed"
      have deps: "set (sorted_dependencies entry) = set (reference_successors catalog reference)"
        by (simp add: sorted_dependencies_def reference_successors_def entry)
      have "case try_fold ?step completed (sorted_dependencies entry) of
          Inl e \<Rightarrow> reported_cycle catalog ?S e
        | Inr c \<Rightarrow> visit_inv catalog ?S ?path c \<and> fset completed \<subseteq> fset c \<and>
            set (sorted_dependencies entry) \<subseteq> fset c"
      proof (rule try_fold_reaches)
        show "visit_inv catalog ?S ?path completed"
          using inv fresh new 1(6,7) dfs by (auto simp: visit_inv_def intro: dfs_inv_push)
      next
        fix c d
        assume c: "visit_inv catalog ?S ?path c" and d: "d \<in> set (sorted_dependencies entry)"
        then have res: "d \<in> ?S" using closed [OF 1(6)] deps by auto
        then have key: "contains_key resolved d" by (auto simp: contains_key_iff fmlookup_dom'_iff)
        show "case ?step c d of Inl e \<Rightarrow> reported_cycle catalog ?S e
            | Inr c' \<Rightarrow> visit_inv catalog ?S ?path c' \<and> fset c \<subseteq> fset c' \<and> d |\<in>| c'"
          using 1(1) [OF fresh None entry d key closed known c positions_of_push [OF pos new] res]
            deps d key by simp
      qed
      moreover have "visit_inv catalog ?S path (finsert reference c)"
        if "visit_inv catalog ?S ?path c" "set (sorted_dependencies entry) \<subseteq> fset c" for c
        using that 1(6) deps dfs_inv_pop [of "reference_successors catalog" "fset c" path reference]
        by (auto simp: visit_inv_def)
      ultimately show ?thesis
        using fresh None entry by (subst loader_visit.simps) (auto split: sum.splits)
    qed
  qed
qed

section \<open>The closure is acyclic or a cycle is reported\<close>

lemma detect_cycles_correct:
  assumes closed: "\<And>r. r \<in> fmdom' resolved \<Longrightarrow> set (reference_successors catalog r) \<subseteq> fmdom' resolved"
    and known: "fmdom' resolved \<subseteq> fmdom' (mc_entries catalog)"
    and roots: "fset roots \<subseteq> fmdom' resolved"
  shows "case detect_cycles roots resolved catalog of
      Inl e \<Rightarrow> reported_cycle catalog (fmdom' resolved) e
    | Inr _ \<Rightarrow> \<forall>r\<in>reference_closure catalog (fset roots). (r, r) \<notin> (edges_of (reference_successors catalog))\<^sup>+"
proof -
  let ?step = "\<lambda>completed root. if root |\<in>| completed then Inr completed
      else loader_visit resolved catalog [] fmempty completed root"
  have "case try_fold ?step {||} (sorted_list_of_fset roots) of
      Inl e \<Rightarrow> reported_cycle catalog (fmdom' resolved) e
    | Inr c \<Rightarrow> visit_inv catalog (fmdom' resolved) [] c \<and> fset {||} \<subseteq> fset c \<and> set (sorted_list_of_fset roots) \<subseteq> fset c"
  proof (rule try_fold_reaches)
    show "visit_inv catalog (fmdom' resolved) [] {||}"
      by (simp add: visit_inv_def dfs_inv_start)
  next
    fix c root
    assume "visit_inv catalog (fmdom' resolved) [] c" and "root \<in> set (sorted_list_of_fset roots)"
    then show "case ?step c root of Inl e \<Rightarrow> reported_cycle catalog (fmdom' resolved) e
        | Inr c' \<Rightarrow> visit_inv catalog (fmdom' resolved) [] c' \<and> fset c \<subseteq> fset c' \<and> root |\<in>| c'"
      using loader_visit_correct [OF closed known, of "[]" c fmempty root] roots
      by (auto simp: positions_of_def)
  qed
  moreover have "(r, r) \<notin> (edges_of (reference_successors catalog))\<^sup>+"
    if inv: "visit_inv catalog (fmdom' resolved) [] c" and "fset roots \<subseteq> fset c"
      and r: "r \<in> reference_closure catalog (fset roots)" for c r
  proof -
    have "reference_closure catalog (fset roots) \<subseteq> fset c"
      using that(2) inv by (intro closure_least) (auto simp: visit_inv_def dfs_inv_def)
    with r inv show ?thesis by (auto simp: visit_inv_def dfs_inv_def)
  qed
  ultimately show ?thesis by (auto simp: detect_cycles_def split: sum.splits)
qed

lemma resolve_graph_cases:
  fixes catalog :: "('f, 'p, 'h, 'w) ModuleCatalog"
  defines "closure \<equiv> reference_closure catalog" and "entries \<equiv> fmdom' (mc_entries catalog)"
  shows "case resolve_graph catalog roots of
      Inr resolved \<Rightarrow> fmdom' resolved = closure (fset roots) \<and> closure (fset roots) \<subseteq> entries \<and>
        (\<forall>r\<in>closure (fset roots). (r, r) \<notin> (edges_of (reference_successors catalog))\<^sup>+)
    | Inl e \<Rightarrow>
        (\<exists>r d. e = MissingReference r (dv_required_by d) (dv_path d) \<and> genuine_discovery catalog (fset roots) r d \<and>
           r \<notin> entries \<and> (\<forall>x\<in>closure (fset roots) - entries. r \<le> x))
        \<or> closure (fset roots) \<subseteq> entries \<and> reported_cycle catalog (closure (fset roots)) e"
proof -
  obtain resolved missing where loop: "closure_loop catalog fmempty fmempty (root_frontier roots) = (resolved, missing)"
    by (cases "closure_loop catalog fmempty fmempty (root_frontier roots)")
  note closure = closure_loop_correct [OF loop]
  show ?thesis
  proof (cases "bm_keys missing")
    case Nil
    then have sub: "closure (fset roots) \<subseteq> entries"
      using closure(2) set_bm_keys [of missing] by (auto simp: closure_def entries_def)
    then have res: "fmdom' resolved = closure (fset roots)" using closure(1) by (auto simp: closure_def entries_def)
    have step: "set (reference_successors catalog r) \<subseteq> fmdom' resolved" if "r \<in> fmdom' resolved" for r
      using that closure_step unfolding res closure_def by blast
    have "case detect_cycles roots resolved catalog of
        Inl e \<Rightarrow> reported_cycle catalog (closure (fset roots)) e
      | Inr _ \<Rightarrow> \<forall>r\<in>closure (fset roots). (r, r) \<notin> (edges_of (reference_successors catalog))\<^sup>+"
      using detect_cycles_correct [of resolved catalog roots, OF step] roots_in_closure [of "fset roots" catalog] sub
      unfolding res unfolding closure_def entries_def by simp
    then show ?thesis
      using Nil res sub by (auto simp: resolve_graph_def loop bm_items_def split: sum.splits)
  next
    case (Cons r rs)
    then have r: "r \<in> fmdom' missing" and least: "\<forall>x\<in>fmdom' missing. r \<le> x"
      using set_bm_keys [of missing] sorted_bm_keys [of missing] by (metis list.set_intros(1), force)
    then obtain d where d: "fmlookup missing r = Some d" by (auto simp: fmlookup_dom'_iff)
    then have "genuine_discovery catalog (fset roots) r d" using closure(3) by (simp add: genuine_map_def)
    with r least closure(2) Cons d show ?thesis
      by (auto simp: resolve_graph_def loop bm_items_def closure_def entries_def)
  qed
qed

lemma collect_roots_cases:
  "case collect_roots roots of
      Inr s \<Rightarrow> distinct roots \<and> fset s = set roots
    | Inl e \<Rightarrow> \<exists>r. e = DuplicateRootReference r \<and> 2 \<le> count_list roots r"
proof -
  have dup: "case find (\<lambda>(a, b). a = b) (zip xs (tl xs)) of None \<Rightarrow> distinct xs | Some (a, b) \<Rightarrow> 2 \<le> count_list xs a"
    if "sorted xs" for xs :: "ModuleReference list"
    using that
  proof (induction xs)
    case (Cons x xs)
    show ?case
    proof (cases xs)
      case (Cons y ys)
      have "count_list (x # y # ys) a \<ge> count_list (y # ys) a" for a by simp
      then show ?thesis using Cons.IH Cons.prems
        by (auto simp: Cons split: option.splits prod.splits)
    qed simp
  qed simp
  have "count_list (insort x xs) r = count_list (x # xs) r" for x r and xs :: "ModuleReference list"
    by (induction xs) auto
  then have "count_list (sort xs) r = count_list xs r" for r and xs :: "ModuleReference list"
    by (induction xs) simp_all
  then show ?thesis using dup [of "sort roots"] by (auto simp: collect_roots_def Let_def fset_of_list_elem split: option.splits prod.splits)
qed

end
