(* ===== verification/Loader_Construction.thy ===== *)
theory Loader_Construction
  imports Loader_Cycles Composition_Contract
begin

text \<open>
  Construction of fresh registrations in reference order, and what the resolved modules are
  when they reach the composition builder: their dependency graph by module identity is the
  reference graph of the closure with the versions forgotten.
\<close>

section \<open>Construction\<close>

text \<open>A registration that agrees with its catalog entry on identity and logical dependencies.\<close>

definition entry_agrees ::
    "('f, 'p, 'h, 'w) ModuleCatalog \<Rightarrow> ('f, 'p, 'h) ResolvedEntry \<Rightarrow> bool" where
  "entry_agrees catalog e \<longleftrightarrow>
     md_id (mr_definition (re_registration e)) = reference_id (re_reference e) \<and>
     set (md_dependencies (mr_definition (re_registration e))) =
       reference_id ` set (reference_successors catalog (re_reference e))"

definition call_factory :: "('f, 'p, 'h, 'w) ModuleCatalog \<Rightarrow> ModuleReference \<Rightarrow> 'w \<Rightarrow> 'w" where
  "call_factory catalog r w =
     (case catalog_get catalog r of None \<Rightarrow> w | Some entry \<Rightarrow> snd (ce_factory entry w))"

definition construction_failure :: "ModuleReference set \<Rightarrow> LoaderError \<Rightarrow> bool" where
  "construction_failure S e \<longleftrightarrow>
     (\<exists>r\<in>S. (\<exists>source. e = RegistrationConstructionFailed r source) \<or> (\<exists>reason. e = IncompatibleEntry r reason))"

lemma check_registration_cases:
  assumes entry: "catalog_get catalog r = Some entry"
  shows "case check_registration r entry registration of
      Inr e \<Rightarrow> re_reference e = r \<and> entry_agrees catalog e
    | Inl e \<Rightarrow> construction_failure {r} e"
proof -
  have "fset_of_list (map reference_id (ce_dependencies entry)) = fset_of_list ds \<longleftrightarrow>
      reference_id ` set (ce_dependencies entry) = set ds" for ds
    by (metis fset_inject fset_of_list.rep_eq list.set_map)
  then show ?thesis
    unfolding check_registration_def Let_def
    by (auto simp: entry_agrees_def construction_failure_def reference_successors_def entry)
qed

lemma construct_entry_cases:
  assumes "r \<in> fmdom' (mc_entries catalog)"
  shows "case construct_entry catalog r w of
      (Inr e, w') \<Rightarrow> re_reference e = r \<and> entry_agrees catalog e \<and> w' = call_factory catalog r w
    | (Inl e, w') \<Rightarrow> construction_failure {r} e"
proof -
  obtain entry where entry: "catalog_get catalog r = Some entry"
    using assms by (auto simp: catalog_get_def fmlookup_dom'_iff)
  obtain res w' where res: "ce_factory entry w = (res, w')" by (cases "ce_factory entry w")
  show ?thesis
  proof (cases res)
    case (Inl source)
    then show ?thesis using entry res by (simp add: construct_entry_def construction_failure_def)
  next
    case (Inr registration)
    then show ?thesis
      using entry res check_registration_cases [OF entry, of registration]
      by (cases "check_registration r entry registration") (simp_all add: construct_entry_def call_factory_def)
  qed
qed

lemma construct_entries_cases:
  assumes "set rs \<subseteq> fmdom' (mc_entries catalog)"
  shows "case construct_entries catalog rs es w of
      (Inr es', w') \<Rightarrow> w' = fold (call_factory catalog) rs w \<and>
        (\<exists>new. es' = es @ new \<and> map re_reference new = rs \<and> (\<forall>e\<in>set new. entry_agrees catalog e))
    | (Inl e, w') \<Rightarrow> construction_failure (set rs) e"
  using assms
proof (induction rs arbitrary: es w)
  case (Cons r rs)
  obtain res w' where step: "construct_entry catalog r w = (res, w')" by (cases "construct_entry catalog r w")
  note c = construct_entry_cases [of r catalog w, unfolded step]
  show ?case
  proof (cases res)
    case (Inl e)
    then show ?thesis using c Cons.prems step by (simp add: construction_failure_def)
  next
    case (Inr x)
    then have x: "re_reference x = r" "entry_agrees catalog x" "w' = call_factory catalog r w"
      using c Cons.prems by auto
    obtain rest w'' where rest: "construct_entries catalog rs (es @ [x]) w' = (rest, w'')"
      by (cases "construct_entries catalog rs (es @ [x]) w'")
    note IH = Cons.IH [where es = "es @ [x]" and w = w', unfolded rest]
    show ?thesis
    proof (cases rest)
      case (Inl e)
      then show ?thesis using IH Cons.prems step Inr rest by (auto simp: construction_failure_def)
    next
      case (Inr es')
      then obtain new where "w'' = fold (call_factory catalog) rs w'" "es' = (es @ [x]) @ new"
          "map re_reference new = rs" "\<forall>e\<in>set new. entry_agrees catalog e"
        using IH Cons.prems by auto
      then have "w'' = fold (call_factory catalog) (r # rs) w" "es' = es @ (x # new)"
          "map re_reference (x # new) = r # rs" "\<forall>e\<in>set (x # new). entry_agrees catalog e"
        using x by simp_all
      then show ?thesis using step \<open>res = Inr x\<close> rest Inr by (auto simp del: fold.simps)
    qed
  qed
qed simp

lemma loader_resolve_Inr:
  assumes "loader_resolve catalog roots w = (Inr m, w')"
  shows "distinct roots"
    and "resolved_references m = sorted_list_of_set (reference_closure catalog (set roots))"
    and "reference_closure catalog (set roots) \<subseteq> fmdom' (mc_entries catalog)"
    and "\<forall>r\<in>reference_closure catalog (set roots). (r, r) \<notin> (edges_of (reference_successors catalog))\<^sup>+"
    and "\<forall>e\<in>set (rm_entries m). entry_agrees catalog e"
    and "w' = fold (call_factory catalog) (resolved_references m) w"
proof -
  obtain s where s: "collect_roots roots = Inr s" and "distinct roots" and set: "fset s = set roots"
    using assms collect_roots_cases [of roots] by (auto simp: loader_resolve_def split: sum.splits)
  obtain resolved where g: "resolve_graph catalog s = Inr resolved"
    and c: "construct catalog resolved w = (Inr m, w')"
    using assms s by (auto simp: loader_resolve_def split: sum.splits)
  have graph: "fmdom' resolved = reference_closure catalog (set roots)"
      "reference_closure catalog (set roots) \<subseteq> fmdom' (mc_entries catalog)"
      "\<forall>r\<in>reference_closure catalog (set roots). (r, r) \<notin> (edges_of (reference_successors catalog))\<^sup>+"
    using resolve_graph_cases [of catalog s] g set by simp_all
  have keys: "bm_keys resolved = sorted_list_of_set (reference_closure catalog (set roots))"
    by (simp add: bm_keys_def sorted_list_of_fset.rep_eq graph(1) [symmetric] fmdom'_alt_def)
  have "set (bm_keys resolved) \<subseteq> fmdom' (mc_entries catalog)" using graph by simp
  from construct_entries_cases [OF this, where es = "[]" and w = w] c
  have entries: "w' = fold (call_factory catalog) (bm_keys resolved) w" "map re_reference (rm_entries m) = bm_keys resolved"
      "\<forall>e\<in>set (rm_entries m). entry_agrees catalog e"
    by (auto simp: construct_def split: prod.splits sum.splits)
  show "distinct roots" by fact
  show "resolved_references m = sorted_list_of_set (reference_closure catalog (set roots))"
    and "w' = fold (call_factory catalog) (resolved_references m) w"
    using entries keys by (simp_all add: resolved_references_def)
  show "reference_closure catalog (set roots) \<subseteq> fmdom' (mc_entries catalog)"
    and "\<forall>r\<in>reference_closure catalog (set roots). (r, r) \<notin> (edges_of (reference_successors catalog))\<^sup>+"
    and "\<forall>e\<in>set (rm_entries m). entry_agrees catalog e"
    by fact+
qed

section \<open>Hand-over to composition\<close>

abbreviation registration_id :: "('f, 'p, 'h) ModuleRegistration \<Rightarrow> Id" where
  "registration_id r \<equiv> md_id (mr_definition r)"

lemma register_all_Inr:
  assumes "try_fold composition_register b rs = (Inr b' :: 'r CompositionError + _)"
  shows "distinct (map registration_id rs) \<and> (\<forall>r\<in>set rs. \<not> contains_key (cb_modules b) (registration_id r)) \<and>
    cb_modules b' = fold (\<lambda>r m. fmupd (registration_id r) r m) rs (cb_modules b)"
  using assms
proof (induction rs arbitrary: b)
  case (Cons r rs)
  let ?b = "b\<lparr>cb_modules := fmupd (registration_id r) r (cb_modules b)\<rparr>"
  have new: "\<not> contains_key (cb_modules b) (registration_id r)"
    and rest: "try_fold composition_register ?b rs = (Inr b' :: 'r CompositionError + _)"
    using Cons.prems by (auto simp: composition_register_def [of b r] Let_def split: if_splits)
  from Cons.IH [OF rest] new show ?case by auto
qed simp

lemma register_all_Inl:
  assumes "try_fold composition_register b rs = (Inl e :: 'r CompositionError + _)"
  shows "\<exists>i. e = DuplicateModule i \<and>
    (contains_key (cb_modules b) i \<and> 1 \<le> count_list (map registration_id rs) i
     \<or> 2 \<le> count_list (map registration_id rs) i)"
  using assms
proof (induction rs arbitrary: b)
  case (Cons r rs)
  show ?case
  proof (cases "contains_key (cb_modules b) (registration_id r)")
    case True
    then have "e = DuplicateModule (registration_id r)"
      using Cons.prems by (simp add: composition_register_def [of b r] Let_def)
    with True show ?thesis by simp
  next
    case False
    then have "try_fold composition_register (b\<lparr>cb_modules := fmupd (registration_id r) r (cb_modules b)\<rparr>) rs =
        (Inl e :: 'r CompositionError + _)"
      using Cons.prems by (simp add: composition_register_def [of b r] Let_def)
    from Cons.IH [OF this] show ?thesis by auto
  qed
qed simp

lemma acyclic_if_no_loops: "(\<And>x. x \<in> Domain r \<Longrightarrow> (x, x) \<notin> r\<^sup>+) \<Longrightarrow> acyclic r"
  unfolding acyclic_def by (metis Domain.DomainI tranclD)

text \<open>Forgetting the versions keeps a graph acyclic when no two versions of a module occur.\<close>

lemma acyclic_image:
  assumes "finite r" and "acyclic r" and "inj_on f (Domain r \<union> Range r)"
  shows "acyclic (map_prod f f ` r)"
proof -
  have "wf r" using assms(1,2) by (rule finite_acyclic_wf)
  then have "wf (map_prod f f ` r)"
    by (rule wf_map_prod_image_Dom_Ran) (use assms(3) in \<open>auto dest: inj_onD\<close>)
  then show ?thesis by (rule wf_acyclic)
qed

lemma handed_over_modules:
  fixes m :: "('f, 'p, 'h) ResolvedModules"
  assumes resolved: "loader_resolve catalog roots w = (Inr m, w')"
    and builder: "into_composition_builder m = (Inr b :: 'r CompositionError + _)"
  shows "inj_on reference_id (reference_closure catalog (set roots))"
    and "fmdom' (cb_modules b) = reference_id ` reference_closure catalog (set roots)"
    and "d \<in> set (succ_list (dependency_sets (cb_modules b)) i) \<longleftrightarrow>
      (\<exists>r x. r \<in> reference_closure catalog (set roots) \<and> x \<in> set (reference_successors catalog r) \<and>
         i = reference_id r \<and> d = reference_id x)"
proof -
  note parts = loader_resolve_Inr [OF resolved]
  let ?C = "reference_closure catalog (set roots)" and ?regs = "map re_registration (rm_entries m)"
  have fin: "finite ?C" using parts(3) by (rule finite_subset) simp
  have refs: "map re_reference (rm_entries m) = sorted_list_of_set ?C"
    using parts(2) by (simp add: resolved_references_def)
  have ids: "map registration_id ?regs = map reference_id (sorted_list_of_set ?C)"
    using parts(5) unfolding refs [symmetric] by (auto simp: entry_agrees_def)
  have dist: "distinct (map registration_id ?regs)"
    and mods: "cb_modules b = index_by registration_id ?regs"
    using register_all_Inr [OF builder [unfolded into_composition_builder_def]]
    by (simp_all add: CompositionBuilder_new_def index_by_def)
  show "inj_on reference_id ?C" using dist fin unfolding ids by (simp add: distinct_map)
  show dom: "fmdom' (cb_modules b) = reference_id ` ?C"
    unfolding mods index_by_keys [OF dist] list.set_map [symmetric] ids using fin by simp
  have entry: "\<exists>e\<in>set (rm_entries m). re_reference e = r" if "r \<in> ?C" for r
    using that refs fin by (metis image_iff list.set_map set_sorted_list_of_set)
  have in_closure: "re_reference e \<in> ?C" if "e \<in> set (rm_entries m)" for e
    using that refs fin by (metis image_eqI list.set_map set_sorted_list_of_set)
  have "fmlookup (cb_modules b) i = Some reg \<longleftrightarrow> (\<exists>e\<in>set (rm_entries m). reg = re_registration e \<and> i = reference_id (re_reference e))" for i reg
    unfolding mods index_by_lookup [OF dist] using parts(5) by (auto simp: entry_agrees_def)
  then have "d \<in> set (succ_list (dependency_sets (cb_modules b)) i) \<longleftrightarrow>
      (\<exists>e\<in>set (rm_entries m). i = reference_id (re_reference e) \<and>
         d \<in> set (md_dependencies (mr_definition (re_registration e))))"
    unfolding succ_list_modules by (auto split: option.splits) (metis option.sel not_None_eq)+
  also have "\<dots> \<longleftrightarrow> (\<exists>r x. r \<in> ?C \<and> x \<in> set (reference_successors catalog r) \<and> i = reference_id r \<and> d = reference_id x)"
  proof
    assume "\<exists>e\<in>set (rm_entries m). i = reference_id (re_reference e) \<and>
      d \<in> set (md_dependencies (mr_definition (re_registration e)))"
    then obtain e where e: "e \<in> set (rm_entries m)" "i = reference_id (re_reference e)"
        "d \<in> set (md_dependencies (mr_definition (re_registration e)))" by blast
    then have "d \<in> reference_id ` set (reference_successors catalog (re_reference e))"
      using parts(5) by (simp add: entry_agrees_def)
    then show "\<exists>r x. r \<in> ?C \<and> x \<in> set (reference_successors catalog r) \<and> i = reference_id r \<and> d = reference_id x"
      using in_closure [OF e(1)] e(2) by blast
  next
    assume "\<exists>r x. r \<in> ?C \<and> x \<in> set (reference_successors catalog r) \<and> i = reference_id r \<and> d = reference_id x"
    then obtain r x where r: "r \<in> ?C" "x \<in> set (reference_successors catalog r)" "i = reference_id r" "d = reference_id x"
      by blast
    obtain e where e: "e \<in> set (rm_entries m)" "re_reference e = r" using entry [OF r(1)] by blast
    then have "d \<in> set (md_dependencies (mr_definition (re_registration e)))"
      using parts(5) r by (simp add: entry_agrees_def)
    with e r show "\<exists>e\<in>set (rm_entries m). i = reference_id (re_reference e) \<and>
      d \<in> set (md_dependencies (mr_definition (re_registration e)))" by blast
  qed
  finally show "d \<in> set (succ_list (dependency_sets (cb_modules b)) i) \<longleftrightarrow>
      (\<exists>r x. r \<in> ?C \<and> x \<in> set (reference_successors catalog r) \<and> i = reference_id r \<and> d = reference_id x)" .
qed

lemma handed_over_acyclic:
  fixes m :: "('f, 'p, 'h) ResolvedModules"
  assumes resolved: "loader_resolve catalog roots w = (Inr m, w')"
    and builder: "into_composition_builder m = (Inr b :: 'r CompositionError + _)"
  shows "acyclic (edges_of (succ_list (dependency_sets (cb_modules b))))"
proof -
  let ?C = "reference_closure catalog (set roots)"
  let ?E = "{(r, x). r \<in> ?C \<and> x \<in> set (reference_successors catalog r)}"
  note parts = loader_resolve_Inr [OF resolved]
  note graph = handed_over_modules [OF resolved builder]
  have sub: "?E \<subseteq> edges_of (reference_successors catalog)" by auto
  have "finite ?E" using sub reference_graph.finite_edges by (rule finite_subset)
  moreover have "acyclic ?E"
  proof (rule acyclic_if_no_loops)
    show "(x, x) \<notin> ?E\<^sup>+" if "x \<in> Domain ?E" for x
      using parts(4) that trancl_mono [OF _ sub] by blast
  qed
  moreover have "inj_on reference_id (Domain ?E \<union> Range ?E)"
    using closure_step by (intro inj_on_subset [OF graph(1)]) blast
  ultimately have "acyclic (map_prod reference_id reference_id ` ?E)" by (rule acyclic_image)
  moreover have "edges_of (succ_list (dependency_sets (cb_modules b))) = map_prod reference_id reference_id ` ?E"
    unfolding edges_of_def graph(3) by auto
  ultimately show ?thesis by simp
qed

lemma handed_over_duplicate:
  fixes m :: "('f, 'p, 'h) ResolvedModules"
  assumes resolved: "loader_resolve catalog roots w = (Inr m, w')"
    and builder: "into_composition_builder m = (Inl e :: 'r CompositionError + _)"
  shows "\<exists>i. e = DuplicateModule i \<and>
    (\<exists>r x. {r, x} \<subseteq> set (resolved_references m) \<and> r \<noteq> x \<and> reference_id r = i \<and> reference_id x = i)"
proof -
  note parts = loader_resolve_Inr [OF resolved]
  let ?refs = "resolved_references m"
  have ids: "map registration_id (map re_registration (rm_entries m)) = map reference_id ?refs"
    using parts(5) by (auto simp: resolved_references_def entry_agrees_def)
  obtain i where i: "e = DuplicateModule i" "2 \<le> count_list (map reference_id ?refs) i"
    using register_all_Inl [OF builder [unfolded into_composition_builder_def]] unfolding ids
    by (auto simp: CompositionBuilder_new_def)
  have twice: "\<exists>r x. {r, x} \<subseteq> set rs \<and> r \<noteq> x \<and> reference_id r = i \<and> reference_id x = i"
    if "2 \<le> count_list (map reference_id rs) i" "distinct rs" for rs
    using that
  proof (induction rs)
    case (Cons r rs)
    show ?case
    proof (cases "reference_id r = i")
      case True
      then have "count_list (map reference_id rs) i \<noteq> 0" using Cons.prems by simp
      then obtain x where "x \<in> set rs" "reference_id x = i" by (auto simp: count_list_0_iff)
      then show ?thesis using True Cons.prems(2) by auto
    next
      case False
      then show ?thesis using Cons by auto
    qed
  qed simp
  have "distinct ?refs" unfolding parts(2) by simp
  with i twice show ?thesis by blast
qed

section \<open>Failures\<close>

definition loader_failure :: "('f, 'p, 'h, 'w) ModuleCatalog \<Rightarrow> ModuleReference list \<Rightarrow> 'w \<Rightarrow> LoaderError \<Rightarrow>
    'w \<Rightarrow> bool" where
  "loader_failure catalog roots w e w' \<longleftrightarrow>
     (let closure = reference_closure catalog (set roots); entries = fmdom' (mc_entries catalog) in
      (\<exists>r. e = DuplicateRootReference r \<and> w' = w \<and> 2 \<le> count_list roots r)
      \<or> (\<exists>r required path. e = MissingReference r required path \<and> w' = w \<and> distinct roots \<and> r \<in> closure - entries \<and>
           (\<forall>x\<in>closure - entries. r \<le> x) \<and>
           genuine_discovery catalog (set roots) r \<lparr>dv_required_by = required, dv_path = path\<rparr>)
      \<or> w' = w \<and> distinct roots \<and> reported_cycle catalog closure e
      \<or> distinct roots \<and> construction_failure closure e)"

lemma Discovered_collapse: "\<lparr>dv_required_by = dv_required_by d, dv_path = dv_path d\<rparr> = d"
  by simp

lemma loader_resolve_Inl:
  assumes "loader_resolve catalog roots w = (Inl e, w')"
  shows "loader_failure catalog roots w e w'"
proof (cases "collect_roots roots")
  case (Inl d)
  then show ?thesis
    using assms collect_roots_cases [of roots] by (auto simp: loader_resolve_def loader_failure_def Let_def)
next
  case (Inr s)
  then have dist: "distinct roots" and set: "fset s = set roots" using collect_roots_cases [of roots] by auto
  show ?thesis
  proof (cases "resolve_graph catalog s")
    case (Inl g)
    then have "w' = w" "g = e" using assms Inr by (simp_all add: loader_resolve_def)
    then show ?thesis
      using resolve_graph_cases [of catalog s] Inl dist genuine_reachable [of catalog "set roots"]
      unfolding set loader_failure_def Let_def by (auto simp: Discovered_collapse)
  next
    case (Inr resolved)
    then have c: "construct catalog resolved w = (Inl e, w')"
      using assms \<open>collect_roots roots = Inr s\<close> by (simp add: loader_resolve_def)
    have dom: "fmdom' resolved = reference_closure catalog (set roots)"
        "reference_closure catalog (set roots) \<subseteq> fmdom' (mc_entries catalog)"
      using resolve_graph_cases [of catalog s] Inr set by simp_all
    then have "set (bm_keys resolved) \<subseteq> fmdom' (mc_entries catalog)" by simp
    from construct_entries_cases [OF this, where es = "[]" and w = w] c dom(1)
    have "construction_failure (reference_closure catalog (set roots)) e"
      by (auto simp: construct_def split: prod.splits sum.splits)
    with dist show ?thesis by (simp add: loader_failure_def Let_def)
  qed
qed

end
