(* ===== verification/Loader_Properties.thy ===== *)
theory Loader_Properties
  imports Loader_Construction Composition_Properties
begin

text \<open>
  The contract of the loader: textual references, resolution, and the hand-over to
  composition.
\<close>

section \<open>Properties\<close>

text \<open>
  The textual form of references is bijective. A text deserializes to a reference exactly
  when the reference is one that typed construction can return and the text is its
  serialization; a module identity may contain the delimiter, because the last one splits.
\<close>
theorem reference_text_bijective:
  "reference_deserialize s = Inr r \<longleftrightarrow>
     (\<exists>i v. ModuleReference_new i v = Inr r) \<and> s = reference_serialize r"
proof -
  have "reference_deserialize s = Inr r \<longleftrightarrow>
      (\<exists>i v. rsplit_once (CHR ''@'') s = Some (i, v) \<and> ModuleReference_new i v = Inr r)"
    by (auto simp: reference_deserialize_def split: option.splits sum.splits)
  then show ?thesis
    by (auto simp: rsplit_once_Some_iff ModuleReference_new_Inr_iff reference_serialize_def
        reference_display_def valid_reference_def)
qed


text \<open>
  What the loader resolves never fails composition for a module dependency. Registering
  the resolved modules fails only when the closure holds two versions of one module, which
  the error names; otherwise every dependency is registered and the planner finds an
  activation order, so a dependency error or a cycle of composition is impossible.
\<close>
theorem resolved_modules_order:
  fixes catalog :: "('f, 'p, 'h, 'w) ModuleCatalog"
  assumes resolved: "loader_resolve catalog roots w = (Inr m, w')"
  shows "case (into_composition_builder m :: 'r CompositionError + _) of
      Inl e \<Rightarrow> \<exists>i. e = DuplicateModule i \<and>
        (\<exists>r x. {r, x} \<subseteq> set (resolved_references m) \<and> r \<noteq> x \<and> reference_id r = i \<and> reference_id x = i)
    | Inr b \<Rightarrow>
        validate_dependencies (cb_modules b) = (Inr () :: 'r CompositionError + _) \<and>
        (\<exists>order. deterministic_order (cb_modules b) = (Inr order :: 'r CompositionError + _) \<and>
           set order = reference_id ` set (resolved_references m))"
proof (cases "into_composition_builder m :: 'r CompositionError + _")
  case (Inl e)
  then show ?thesis using handed_over_duplicate [OF resolved] by simp
next
  case (Inr b)
  note graph = handed_over_modules [OF resolved Inr]
  have refs: "set (resolved_references m) = reference_closure catalog (set roots)"
    using loader_resolve_Inr(2,3) [OF resolved] finite_subset [of _ "fmdom' (mc_entries catalog)"] by simp
  have closed: "set (succ_list (dependency_sets (cb_modules b)) i) \<subseteq> fmdom' (cb_modules b)" for i
    unfolding graph(2) using graph(3) closure_step by blast
  have "case (deterministic_order (cb_modules b) :: 'r CompositionError + _) of
      Inr order \<Rightarrow> greedy_order (dependency_sets (cb_modules b)) order \<and> set order = fmdom' (cb_modules b) \<and>
        acyclic (edges_of (succ_list (dependency_sets (cb_modules b))))
    | Inl e \<Rightarrow> \<exists>c. e = ModuleDependencyCycle c \<and> closed_path (succ_list (dependency_sets (cb_modules b))) c"
    using closed by (rule deterministic_order_cases)
  then have "\<exists>order. deterministic_order (cb_modules b) = (Inr order :: 'r CompositionError + _) \<and>
      set order = fmdom' (cb_modules b)"
    using handed_over_acyclic [OF resolved Inr] closed_path_not_acyclic by (auto split: sum.splits)
  moreover have "validate_dependencies (cb_modules b) = (Inr () :: 'r CompositionError + _)"
    using closed by (simp add: validate_dependencies_Inr_iff)
  ultimately show ?thesis using Inr refs graph(2) by simp
qed

section \<open>Witnesses\<close>

text \<open>A catalog of two modules whose factories count their calls.\<close>

definition demo_reference :: "string \<Rightarrow> ModuleReference" where
  "demo_reference i = ModuleReference (Id i) (ModuleVersion ''1'')"

definition demo_factory :: "ModuleDefinition \<Rightarrow> (unit, unit, unit, nat) ModuleRegistrationFactory" where
  "demo_factory d n = (Inr (ModuleRegistration_new d), Suc n)"

definition demo_catalog :: "(unit, unit, unit, nat) ModuleCatalog" where
  "demo_catalog = \<lparr>mc_entries = fmap_of_list
     [(demo_reference ''app'',
       entry_depends_on
         (CatalogEntry_new (demo_reference ''app'')
            (demo_factory (module_depends_on (ModuleDefinition_new (Id ''app'')) (Id ''db''))))
         (demo_reference ''db'')),
      (demo_reference ''db'',
       CatalogEntry_new (demo_reference ''db'') (demo_factory (ModuleDefinition_new (Id ''db''))))]\<rparr>"

lemma demo_resolution:
  "\<exists>m. loader_resolve demo_catalog [demo_reference ''app''] 0 = (Inr m, 2) \<and>
     resolved_references m = [demo_reference ''app'', demo_reference ''db'']"
proof -
  have "snd (loader_resolve demo_catalog [demo_reference ''app''] 0) = 2 \<and>
      \<not> isl (fst (loader_resolve demo_catalog [demo_reference ''app''] 0)) \<and>
      resolved_references (projr (fst (loader_resolve demo_catalog [demo_reference ''app''] 0))) =
        [demo_reference ''app'', demo_reference ''db'']"
    by code_simp
  then show ?thesis
    by (cases "loader_resolve demo_catalog [demo_reference ''app''] 0"; cases "fst (loader_resolve demo_catalog [demo_reference ''app''] 0)")
       auto
qed


theorem resolved_modules_order_witness:
  "\<exists>m b order. loader_resolve demo_catalog [demo_reference ''app''] 0 = (Inr m, 2) \<and>
     into_composition_builder m = (Inr b :: unit CompositionError + _) \<and>
     deterministic_order (cb_modules b) = (Inr order :: unit CompositionError + _) \<and>
     set order = {Id ''app'', Id ''db''}"
proof -
  obtain m where m: "loader_resolve demo_catalog [demo_reference ''app''] 0 = (Inr m, 2)"
      and refs: "resolved_references m = [demo_reference ''app'', demo_reference ''db'']"
    using demo_resolution by blast
  have order: "case (into_composition_builder m :: unit CompositionError + _) of
      Inl e \<Rightarrow> \<exists>i. e = DuplicateModule i \<and>
        (\<exists>r x. {r, x} \<subseteq> set (resolved_references m) \<and> r \<noteq> x \<and> reference_id r = i \<and> reference_id x = i)
    | Inr b \<Rightarrow>
        validate_dependencies (cb_modules b) = (Inr () :: unit CompositionError + _) \<and>
        (\<exists>order. deterministic_order (cb_modules b) = (Inr order :: unit CompositionError + _) \<and>
           set order = reference_id ` set (resolved_references m))"
    using m by (rule resolved_modules_order)
  have "reference_id (demo_reference ''app'') \<noteq> reference_id (demo_reference ''db'')"
    by (simp add: demo_reference_def)
  then obtain b where "into_composition_builder m = (Inr b :: unit CompositionError + _)"
    using order by (cases "into_composition_builder m :: unit CompositionError + _") (auto simp: refs)
  with order m show ?thesis by (auto simp: refs demo_reference_def)
qed

end
