(* ===== verification/Capability_Scope.thy ===== *)
theory Capability_Scope
  imports Capability_Graph
begin

text \<open>
  Scopes of \<^verbatim>\<open>capability-graph\<close> (\<^verbatim>\<open>runtime.rs\<close>): publication, replacement, withdrawal and
  teardown of capability entries in a tree of scopes.

  A \<^verbatim>\<open>Scope\<close> is a shared pointer; here it is the path of child positions up to the root,
  innermost first, so the parent of \<open>k # p\<close> is \<open>p\<close>. The tree under one root shares one
  topology lock: an operation that holds it is one step of the model, and a panic while the
  write lock is held poisons it. \<open>'v\<close> is the type of capability values, which the runtime
  stores and never inspects.
\<close>

section \<open>Handles and entries\<close>

datatype 'v InstanceSlot =
    InstanceSlot (slot_value: 'v) (slot_dependencies: "(Id \<times> 'v CapabilityHandle) list")
and 'v CapabilityHandle =
    CapabilityHandle (handle_definition: CapabilityDefinition) (handle_instance: "'v InstanceSlot")
      (handle_generation: Generation) (handle_entry_id: EntryId)

text \<open>\<^verbatim>\<open>ResolvedDependencies\<close>: the handles in ascending identifier order.\<close>

type_synonym 'v ResolvedDependencies = "(Id \<times> 'v CapabilityHandle) list"

definition dependencies_get :: "'v ResolvedDependencies \<Rightarrow> Id \<Rightarrow> 'v CapabilityHandle option" where
  "dependencies_get ds i = map_of ds i"

definition dependencies_len :: "'v ResolvedDependencies \<Rightarrow> nat" where
  "dependencies_len ds = length ds"

definition dependencies_is_empty :: "'v ResolvedDependencies \<Rightarrow> bool" where
  "dependencies_is_empty ds \<longleftrightarrow> ds = []"

definition handle_id :: "'v CapabilityHandle \<Rightarrow> Id" where
  "handle_id h = cd_id (handle_definition h)"

definition handle_kind :: "'v CapabilityHandle \<Rightarrow> string" where
  "handle_kind h = cd_kind (handle_definition h)"

definition handle_replay_identity :: "'v CapabilityHandle \<Rightarrow> string" where
  "handle_replay_identity h = cd_replay_identity (handle_definition h)"

definition handle_value :: "'v CapabilityHandle \<Rightarrow> 'v" where
  "handle_value h = slot_value (handle_instance h)"

definition handle_dependencies :: "'v CapabilityHandle \<Rightarrow> 'v ResolvedDependencies" where
  "handle_dependencies h = slot_dependencies (handle_instance h)"

record 'v CapabilityEntry =
  en_definition :: CapabilityDefinition
  en_instance :: "'v InstanceSlot"
  en_generation :: Generation
  en_entry_id :: EntryId

definition entry_handle :: "'v CapabilityEntry \<Rightarrow> 'v CapabilityHandle" where
  "entry_handle e = CapabilityHandle (en_definition e) (en_instance e) (en_generation e) (en_entry_id e)"

section \<open>Scopes\<close>

datatype Lifecycle = Open | Closing | Closed

type_synonym scope = "nat list"

record 'v ScopeState =
  ss_entries :: "(Id, 'v CapabilityEntry) fmap"
  ss_lifecycle :: Lifecycle
  ss_children :: nat  \<comment> \<open>the length of the vector of weak child pointers\<close>

record 'v scopes =
  sc_states :: "(scope, 'v ScopeState) fmap"  \<comment> \<open>the live scopes\<close>
  sc_next_entry_id :: u64
  sc_poisoned :: bool

datatype ScopeError =
    GraphAdmission CapabilityGraphError
  | ScopeMissingDependency Id Id  \<comment> \<open>capability, dependency\<close>
  | ConstructionFailed Id string
  | AlreadyProvided Id Generation
  | NoLocalEntry Id
  | ReplacementConflict Id Generation Generation  \<comment> \<open>capability, expected, actual\<close>
  | DependencyChanged Id Id  \<comment> \<open>capability, dependency\<close>
  | GenerationExhausted Id
  | ScopeClosed
  | ScopePanic  \<comment> \<open>not a value of the source: a failed \<^verbatim>\<open>expect\<close>\<close>

fun scope_error_from :: "CapabilityGraphError \<Rightarrow> ScopeError" where
  "scope_error_from (MissingDependency capability dependency) = ScopeMissingDependency capability dependency"
| "scope_error_from ResolverPanic = ScopePanic"
| "scope_error_from e = GraphAdmission e"

datatype PublishExpectation = PublishNew | PublishReplace Generation

definition empty_scope :: "Lifecycle \<Rightarrow> 'v ScopeState" where
  "empty_scope lifecycle = \<lparr>ss_entries = fmempty, ss_lifecycle = lifecycle, ss_children = 0\<rparr>"

definition scope_state :: "'v scopes \<Rightarrow> scope \<Rightarrow> 'v ScopeState" where
  "scope_state st p = (case fmlookup (sc_states st) p of Some s \<Rightarrow> s | None \<Rightarrow> empty_scope Closed)"

definition update_scope :: "scope \<Rightarrow> 'v ScopeState \<Rightarrow> 'v scopes \<Rightarrow> 'v scopes" where
  "update_scope p s st = st\<lparr>sc_states := fmupd p s (sc_states st)\<rparr>"

definition allocate_monotonic :: "u64 \<Rightarrow> (u64 \<times> u64) option" where
  "allocate_monotonic counter =
     (case checked_add_u64 counter 1 of None \<Rightarrow> None | Some n \<Rightarrow> Some (counter, n))"

definition scope_root :: "u64 \<Rightarrow> 'v scopes" where
  "scope_root next_entry_id =
     \<lparr>sc_states = fmupd [] (empty_scope Open) fmempty, sc_next_entry_id = next_entry_id, sc_poisoned = False\<rparr>"

definition scope_is_open :: "'v scopes \<Rightarrow> scope \<Rightarrow> bool" where
  "scope_is_open st p \<longleftrightarrow> ss_lifecycle (scope_state st p) = Open"

text \<open>\<open>None\<close> is the panic of a poisoned lock.\<close>

definition scope_child :: "'v scopes \<Rightarrow> scope \<Rightarrow> 'v scopes \<times> scope option" where
  "scope_child st p =
     (if sc_poisoned st then (st, None)
      else
        let s = scope_state st p;
            child = ss_children s # p;
            lifecycle = (if \<not> scope_is_open st p then Closed else Open)
        in (update_scope p (s\<lparr>ss_children := Suc (ss_children s)\<rparr>)
              (update_scope child (empty_scope lifecycle) st), Some child))"

fun scope_get :: "'v scopes \<Rightarrow> scope \<Rightarrow> Id \<Rightarrow> 'v CapabilityHandle option" where
  "scope_get st [] i =
     (if \<not> scope_is_open st [] then None
      else map_option entry_handle (fmlookup (ss_entries (scope_state st [])) i))"
| "scope_get st (k # p) i =
     (if \<not> scope_is_open st (k # p) then None
      else
        (case fmlookup (ss_entries (scope_state st (k # p))) i of
           Some e \<Rightarrow> Some (entry_handle e)
         | None \<Rightarrow> scope_get st p i))"

definition scope_get_local :: "'v scopes \<Rightarrow> scope \<Rightarrow> Id \<Rightarrow> 'v CapabilityHandle option" where
  "scope_get_local st p i =
     (if \<not> scope_is_open st p then None
      else map_option entry_handle (fmlookup (ss_entries (scope_state st p)) i))"

definition scope_generation :: "'v scopes \<Rightarrow> scope \<Rightarrow> Id \<Rightarrow> Generation option" where
  "scope_generation st p i = map_option handle_generation (scope_get st p i)"

definition has_local_entry :: "'v scopes \<Rightarrow> scope \<Rightarrow> Id \<Rightarrow> bool" where
  "has_local_entry st p i \<longleftrightarrow> contains_key (ss_entries (scope_state st p)) i"

section \<open>The visible graph\<close>

definition overlay_definitions ::
    "(Id, CapabilityDefinition) fmap \<Rightarrow> (Id, 'v CapabilityEntry) fmap \<Rightarrow> (Id, CapabilityDefinition) fmap" where
  "overlay_definitions definitions entries =
     fold (\<lambda>i m. case fmlookup entries i of None \<Rightarrow> m | Some e \<Rightarrow> fmupd i (en_definition e) m)
       (bm_keys entries) definitions"

fun visible_definitions :: "'v scopes \<Rightarrow> scope \<Rightarrow> (Id, CapabilityDefinition) fmap" where
  "visible_definitions st [] =
     (if \<not> scope_is_open st [] then fmempty
      else overlay_definitions fmempty (ss_entries (scope_state st [])))"
| "visible_definitions st (k # p) =
     (if \<not> scope_is_open st (k # p) then fmempty
      else overlay_definitions (visible_definitions st p) (ss_entries (scope_state st (k # p))))"

definition visible_graph :: "'v scopes \<Rightarrow> scope \<Rightarrow> CapabilityGraph" where
  "visible_graph st p = from_definitions (bm_values (visible_definitions st p))"

definition parent_definitions :: "'v scopes \<Rightarrow> scope \<Rightarrow> (Id, CapabilityDefinition) fmap" where
  "parent_definitions st p = (case p of [] \<Rightarrow> fmempty | _ # q \<Rightarrow> visible_definitions st q)"

definition visible_graph_with_entries ::
    "'v scopes \<Rightarrow> scope \<Rightarrow> (Id, 'v CapabilityEntry) fmap \<Rightarrow> CapabilityGraph" where
  "visible_graph_with_entries st p entries =
     from_definitions (bm_values (overlay_definitions (parent_definitions st p) entries))"

definition scope_validate_definition :: "'v scopes \<Rightarrow> scope \<Rightarrow> CapabilityDefinition \<Rightarrow>
    ScopeError + ValidatedCapabilityDefinition" where
  "scope_validate_definition st p d =
     (if sc_poisoned st then Inl ScopePanic
      else if \<not> scope_is_open st p then Inl ScopeClosed
      else
        (case validate_candidate (visible_graph st p) d of
           Inl e \<Rightarrow> Inl (scope_error_from e)
         | Inr v \<Rightarrow> Inr v))"

definition resolve_dependencies ::
    "'v scopes \<Rightarrow> scope \<Rightarrow> CapabilityDefinition \<Rightarrow> ScopeError + 'v ResolvedDependencies" where
  "resolve_dependencies st p d =
     try_fold
       (\<lambda>handles i.
          case scope_get st p i of
            None \<Rightarrow> Inl (ScopeMissingDependency (cd_id d) i)
          | Some h \<Rightarrow> Inr (handles @ [(i, h)]))
       [] (definition_requirements d)"

section \<open>Descendants\<close>

definition live_children :: "'v scopes \<Rightarrow> scope \<Rightarrow> scope list" where
  "live_children st p =
     filter (contains_key (sc_states st)) (map (\<lambda>k. k # p) [0..<ss_children (scope_state st p)])"

lemma deeper_scopes_decrease:
  assumes "c \<in> set (live_children st p)"
  shows "card {q \<in> fmdom' (sc_states st). length c < length q} < card {q \<in> fmdom' (sc_states st). length p < length q}"
proof -
  have c: "c \<in> fmdom' (sc_states st)" "length c = Suc (length p)"
    using assms by (auto simp: live_children_def contains_key_iff fmlookup_dom'_iff)
  have "{q \<in> fmdom' (sc_states st). length c < length q} \<subseteq> {q \<in> fmdom' (sc_states st). length p < length q}"
    using c(2) by auto
  moreover have "c \<in> {q \<in> fmdom' (sc_states st). length p < length q}" using c by simp
  moreover have "c \<notin> {q \<in> fmdom' (sc_states st). length c < length q}" by simp
  ultimately have "{q \<in> fmdom' (sc_states st). length c < length q} \<subset> {q \<in> fmdom' (sc_states st). length p < length q}"
    by blast
  then show ?thesis by (intro psubset_card_mono) simp_all
qed

function live_descendants :: "'v scopes \<Rightarrow> scope \<Rightarrow> scope list" where
  "live_descendants st p =
     concat (map (\<lambda>child. child # live_descendants st child) (live_children st p))"
  by pat_completeness auto

termination
  by (relation "measure (\<lambda>(st, p). card {q \<in> fmdom' (sc_states st). length p < length q})")
     (simp, simp only: in_measure prod.case, erule deeper_scopes_decrease)

declare live_descendants.simps [simp del]

text \<open>Equations that unfold only once the children are known, for evaluation by rewriting.\<close>

lemma live_descendants_code [code]:
  "live_descendants st p =
     (case live_children st p of
        [] \<Rightarrow> []
      | c # cs \<Rightarrow> concat (map (\<lambda>child. child # live_descendants st child) (c # cs)))"
  by (subst live_descendants.simps) (simp split: list.split)

function collect_descendants_child_first :: "'v scopes \<Rightarrow> scope \<Rightarrow> scope list" where
  "collect_descendants_child_first st p =
     concat (map (\<lambda>child. collect_descendants_child_first st child @ [child]) (live_children st p))"
  by pat_completeness auto

termination
  by (relation "measure (\<lambda>(st, p). card {q \<in> fmdom' (sc_states st). length p < length q})")
     (simp, simp only: in_measure prod.case, erule deeper_scopes_decrease)

declare collect_descendants_child_first.simps [simp del]

lemma collect_descendants_code [code]:
  "collect_descendants_child_first st p =
     (case live_children st p of
        [] \<Rightarrow> []
      | c # cs \<Rightarrow>
          concat (map (\<lambda>child. collect_descendants_child_first st child @ [child]) (c # cs)))"
  by (subst collect_descendants_child_first.simps) (simp split: list.split)

fun candidate_affects :: "'v scopes \<Rightarrow> scope \<Rightarrow> scope \<Rightarrow> Id \<Rightarrow> bool" where
  "candidate_affects st self [] i \<longleftrightarrow> self = []"
| "candidate_affects st self (k # p) i \<longleftrightarrow>
     self = k # p \<or>
     (scope_is_open st (k # p) \<and> \<not> has_local_entry st (k # p) i \<and> candidate_affects st self p i)"

definition validate_descendant_admission ::
    "'v scopes \<Rightarrow> scope \<Rightarrow> CapabilityDefinition \<Rightarrow> ScopeError + unit" where
  "validate_descendant_admission st p d =
     try_fold
       (\<lambda>_ descendant.
          if \<not> scope_is_open st descendant \<or> \<not> candidate_affects st p descendant (cd_id d) then Inr ()
          else
            (case validate_candidate (visible_graph st descendant) d of
               Inl e \<Rightarrow> Inl (scope_error_from e)
             | Inr _ \<Rightarrow> Inr ()))
       () (live_descendants st p)"

section \<open>Publication\<close>

definition check_expectation_locked :: "'v scopes \<Rightarrow> scope \<Rightarrow> Id \<Rightarrow> PublishExpectation \<Rightarrow>
    (Id, 'v CapabilityEntry) fmap \<Rightarrow> ScopeError + unit" where
  "check_expectation_locked st p capability expectation entries =
     (if \<not> scope_is_open st p then Inl ScopeClosed
      else
        (case expectation of
           PublishNew \<Rightarrow>
             (case fmlookup entries capability of
                Some entry \<Rightarrow> Inl (AlreadyProvided capability (en_generation entry))
              | None \<Rightarrow> Inr ())
         | PublishReplace expected \<Rightarrow>
             (case fmlookup entries capability of
                None \<Rightarrow> Inl (NoLocalEntry capability)
              | Some entry \<Rightarrow>
                  if en_generation entry \<noteq> expected then
                    Inl (ReplacementConflict capability expected (en_generation entry))
                  else Inr ())))"

definition check_expectation ::
    "'v scopes \<Rightarrow> scope \<Rightarrow> Id \<Rightarrow> PublishExpectation \<Rightarrow> ScopeError + unit" where
  "check_expectation st p capability expectation =
     check_expectation_locked st p capability expectation (ss_entries (scope_state st p))"

definition check_same_dependency :: "CapabilityDefinition \<Rightarrow> 'v ResolvedDependencies \<Rightarrow>
    'v ResolvedDependencies \<Rightarrow> unit \<Rightarrow> Id \<Rightarrow> ScopeError + unit" where
  "check_same_dependency d dependencies current_dependencies u i =
     (case dependencies_get dependencies i of
        None \<Rightarrow> Inl ScopePanic
      | Some expected \<Rightarrow>
          (case dependencies_get current_dependencies i of
             None \<Rightarrow> Inl ScopePanic
           | Some current \<Rightarrow>
               if handle_generation current \<noteq> handle_generation expected
                  \<or> handle_entry_id current \<noteq> handle_entry_id expected then
                 Inl (DependencyChanged (cd_id d) i)
               else Inr ()))"

definition publish_generation :: "Id \<Rightarrow> PublishExpectation \<Rightarrow> (Id, 'v CapabilityEntry) fmap \<Rightarrow>
    ScopeError + Generation" where
  "publish_generation capability expectation entries =
     (case expectation of
        PublishNew \<Rightarrow> Inr Generation_FIRST
      | PublishReplace _ \<Rightarrow>
          (case fmlookup entries capability of
             None \<Rightarrow> Inl ScopePanic
           | Some entry \<Rightarrow>
               (case Generation_checked_next (en_generation entry) of
                  None \<Rightarrow> Inl (GenerationExhausted capability)
                | Some g \<Rightarrow> Inr g)))"

text \<open>The checks of a publication under the write lock, up to the new generation.\<close>

definition admit_publication :: "'v scopes \<Rightarrow> scope \<Rightarrow> CapabilityDefinition \<Rightarrow> PublishExpectation \<Rightarrow>
    'v ResolvedDependencies \<Rightarrow> ScopeError + Generation" where
  "admit_publication st p d expectation dependencies =
     (let entries = ss_entries (scope_state st p) in
     (case resolve_dependencies st p d of Inl e \<Rightarrow> Inl e | Inr current_dependencies \<Rightarrow>
     (case try_fold (check_same_dependency d dependencies current_dependencies) () (definition_requirements d) of
        Inl e \<Rightarrow> Inl e | Inr _ \<Rightarrow>
     (case validate_descendant_admission st p d of Inl e \<Rightarrow> Inl e | Inr _ \<Rightarrow>
     (case check_expectation_locked st p (cd_id d) expectation entries of Inl e \<Rightarrow> Inl e | Inr _ \<Rightarrow>
     (case validate_candidate (visible_graph_with_entries st p entries) d of
        Inl e \<Rightarrow> Inl (scope_error_from e) | Inr _ \<Rightarrow>
      publish_generation (cd_id d) expectation entries))))))"

text \<open>A panic while the write lock is held poisons it.\<close>

definition poison_on_panic :: "'v scopes \<Rightarrow> ScopeError \<Rightarrow> 'v scopes" where
  "poison_on_panic st e = (if e = ScopePanic then st\<lparr>sc_poisoned := True\<rparr> else st)"

definition publish_preconstructed :: "'v scopes \<Rightarrow> scope \<Rightarrow> CapabilityDefinition \<Rightarrow> PublishExpectation \<Rightarrow>
    'v ResolvedDependencies \<Rightarrow> 'v \<Rightarrow> 'v scopes \<times> (ScopeError + 'v CapabilityHandle)" where
  "publish_preconstructed st p d expectation dependencies v =
     (if sc_poisoned st then (st, Inl ScopePanic)
      else
        (case admit_publication st p d expectation dependencies of
           Inl e \<Rightarrow> (poison_on_panic st e, Inl e)
         | Inr generation \<Rightarrow>
             (case allocate_monotonic (sc_next_entry_id st) of
                None \<Rightarrow> (poison_on_panic st ScopePanic, Inl ScopePanic)
              | Some (n, next) \<Rightarrow>
                  let entry = \<lparr>en_definition = d, en_instance = InstanceSlot v dependencies,
                               en_generation = generation, en_entry_id = EntryId n\<rparr>;
                      s = scope_state st p
                  in (update_scope p (s\<lparr>ss_entries := fmupd (cd_id d) entry (ss_entries s)\<rparr>)
                        (st\<lparr>sc_next_entry_id := next\<rparr>),
                      Inr (entry_handle entry)))))"

text \<open>
  The first phase of a publication, under the read lock. The constructor then runs without
  the lock: it is a parameter that returns a value or a reason and the state it leaves, in
  which other threads may have changed the tree.
\<close>

definition publish_admission :: "'v scopes \<Rightarrow> scope \<Rightarrow> CapabilityDefinition \<Rightarrow> PublishExpectation \<Rightarrow>
    ScopeError + 'v ResolvedDependencies" where
  "publish_admission st p d expectation =
     (if sc_poisoned st then Inl ScopePanic
      else
     (case check_expectation st p (cd_id d) expectation of Inl e \<Rightarrow> Inl e | Inr _ \<Rightarrow>
     (case validate_candidate (visible_graph st p) d of Inl e \<Rightarrow> Inl (scope_error_from e) | Inr _ \<Rightarrow>
      resolve_dependencies st p d)))"

type_synonym 'v constructor = "'v ResolvedDependencies \<Rightarrow> 'v scopes \<Rightarrow> (string + 'v) \<times> 'v scopes"

definition scope_publish :: "'v scopes \<Rightarrow> scope \<Rightarrow> CapabilityDefinition \<Rightarrow> PublishExpectation \<Rightarrow>
    'v constructor \<Rightarrow> 'v scopes \<times> (ScopeError + 'v CapabilityHandle)" where
  "scope_publish st p d expectation construct =
     (case publish_admission st p d expectation of
        Inl e \<Rightarrow> (st, Inl e)
      | Inr dependencies \<Rightarrow>
          (case construct dependencies st of
             (Inl reason, st') \<Rightarrow> (st', Inl (ConstructionFailed (cd_id d) reason))
           | (Inr v, st') \<Rightarrow> publish_preconstructed st' p d expectation dependencies v))"

definition scope_provide :: "'v scopes \<Rightarrow> scope \<Rightarrow> CapabilityDefinition \<Rightarrow> 'v constructor \<Rightarrow>
    'v scopes \<times> (ScopeError + 'v CapabilityHandle)" where
  "scope_provide st p d construct = scope_publish st p d PublishNew construct"

definition scope_replace :: "'v scopes \<Rightarrow> scope \<Rightarrow> CapabilityDefinition \<Rightarrow> Generation \<Rightarrow> 'v constructor \<Rightarrow>
    'v scopes \<times> (ScopeError + 'v CapabilityHandle)" where
  "scope_replace st p d expected_generation construct =
     scope_publish st p d (PublishReplace expected_generation) construct"

definition check_current_dependency :: "'v scopes \<Rightarrow> scope \<Rightarrow> CapabilityDefinition \<Rightarrow>
    'v ResolvedDependencies \<Rightarrow> unit \<Rightarrow> Id \<Rightarrow> ScopeError + unit" where
  "check_current_dependency st p d dependencies u i =
     (case dependencies_get dependencies i of
        None \<Rightarrow> Inl ScopePanic
      | Some expected \<Rightarrow>
          (case scope_get st p i of
             None \<Rightarrow> Inl (ScopeMissingDependency (cd_id d) i)
           | Some current \<Rightarrow>
               if handle_generation current \<noteq> handle_generation expected
                  \<or> handle_entry_id current \<noteq> handle_entry_id expected then
                 Inl (DependencyChanged (cd_id d) i)
               else Inr ()))"

definition scope_provide_value :: "'v scopes \<Rightarrow> scope \<Rightarrow> CapabilityDefinition \<Rightarrow> 'v ResolvedDependencies \<Rightarrow>
    'v \<Rightarrow> 'v scopes \<times> (ScopeError + 'v CapabilityHandle)" where
  "scope_provide_value st p d dependencies v =
     (case try_fold (check_current_dependency st p d dependencies) () (definition_requirements d) of
        Inl e \<Rightarrow> (st, Inl e)
      | Inr _ \<Rightarrow> publish_preconstructed st p d PublishNew dependencies v)"

section \<open>Withdrawal\<close>

definition scope_withdraw :: "'v scopes \<Rightarrow> scope \<Rightarrow> Id \<Rightarrow> Generation \<Rightarrow>
    'v scopes \<times> (ScopeError + 'v CapabilityHandle)" where
  "scope_withdraw st p capability expected_generation =
     (if sc_poisoned st then (st, Inl ScopePanic)
      else if \<not> scope_is_open st p then (st, Inl ScopeClosed)
      else
        let s = scope_state st p in
        (case fmlookup (ss_entries s) capability of
           None \<Rightarrow> (st, Inl (NoLocalEntry capability))
         | Some entry \<Rightarrow>
             if en_generation entry \<noteq> expected_generation then
               (st, Inl (ReplacementConflict capability expected_generation (en_generation entry)))
             else
               (update_scope p (s\<lparr>ss_entries := fmdrop capability (ss_entries s)\<rparr>) st,
                Inr (entry_handle entry))))"

definition scope_remove_local :: "'v scopes \<Rightarrow> scope \<Rightarrow> Id \<Rightarrow> Generation \<Rightarrow> 'v scopes \<times> (ScopeError + unit)" where
  "scope_remove_local st p capability expected_generation =
     (case scope_withdraw st p capability expected_generation of
        (st', Inl e) \<Rightarrow> (st', Inl e)
      | (st', Inr _) \<Rightarrow> (st', Inr ()))"

section \<open>Teardown\<close>

record snapshot_walk =
  sw_definitions :: "(Id, CapabilityDefinition) fmap"
  sw_visited :: "EntryId fset"

fun insert_snapshot :: "'v CapabilityHandle \<Rightarrow> snapshot_walk \<Rightarrow> snapshot_walk"
  and insert_snapshots :: "'v ResolvedDependencies \<Rightarrow> snapshot_walk \<Rightarrow> snapshot_walk" where
  "insert_snapshot (CapabilityHandle d (InstanceSlot v ds) g e) w =
     (if e |\<in>| sw_visited w then w
      else
        insert_snapshots ds
          (w\<lparr>sw_visited := finsert e (sw_visited w),
             sw_definitions :=
               (if contains_key (sw_definitions w) (cd_id d) then sw_definitions w
                else fmupd (cd_id d) d (sw_definitions w))\<rparr>))"
| "insert_snapshots [] w = w"
| "insert_snapshots ((_, h) # ds) w = insert_snapshots ds (insert_snapshot h w)"

definition runtime_graph :: "(Id, 'v CapabilityEntry) fmap \<Rightarrow> CapabilityGraph" where
  "runtime_graph entries =
     (let current = fold (\<lambda>e w.
             w\<lparr>sw_definitions := fmupd (cd_id (en_definition e)) (en_definition e) (sw_definitions w),
               sw_visited := finsert (en_entry_id e) (sw_visited w)\<rparr>)
           (bm_values entries) \<lparr>sw_definitions = fmempty, sw_visited = {||}\<rparr>
      in \<lparr>cg_definitions = sw_definitions
           (fold (\<lambda>e. insert_snapshots (slot_dependencies (en_instance e))) (bm_values entries) current)\<rparr>)"

text \<open>\<open>None\<close> is the panic of \<^verbatim>\<open>expect\<close>.\<close>

definition runtime_teardown_order :: "(Id, 'v CapabilityEntry) fmap \<Rightarrow> Id list option" where
  "runtime_teardown_order entries =
     (case resolve (runtime_graph entries) of
        Inl _ \<Rightarrow> None
      | Inr r \<Rightarrow> Some (teardown_order r))"

record 'v TeardownPlan =
  tp_entries :: "(Id, 'v CapabilityEntry) fmap"
  tp_order :: "Id list"

fun close_scopes :: "scope list \<Rightarrow> 'v scopes \<Rightarrow> 'v TeardownPlan list \<Rightarrow>
    'v scopes \<times> 'v TeardownPlan list option" where
  "close_scopes [] st plans = (st, Some plans)"
| "close_scopes (p # ps) st plans =
     (let s = scope_state st p in
      if ss_lifecycle s \<noteq> Open then close_scopes ps st plans
      else
        let entries = ss_entries s;
            taken = s\<lparr>ss_entries := fmempty, ss_lifecycle := Closing\<rparr>
        in case runtime_teardown_order entries of
             None \<Rightarrow> (poison_on_panic (update_scope p taken st) ScopePanic, None)
           | Some order \<Rightarrow>
               close_scopes ps (update_scope p (taken\<lparr>ss_lifecycle := Closed\<rparr>) st)
                 (plans @ [\<lparr>tp_entries = entries, tp_order = order\<rparr>]))"

fun drop_in_order :: "Id list \<Rightarrow> (Id, 'v CapabilityEntry) fmap \<Rightarrow>
    EntryId list \<times> (Id, 'v CapabilityEntry) fmap" where
  "drop_in_order [] entries = ([], entries)"
| "drop_in_order (i # ids) entries =
     (case fmlookup entries i of
        None \<Rightarrow> drop_in_order ids entries
      | Some e \<Rightarrow>
          (case drop_in_order ids (fmdrop i entries) of
             (dropped, rest) \<Rightarrow> (en_entry_id e # dropped, rest)))"

text \<open>The entries in the order in which the runtime gives up its ownership of them.\<close>

definition drop_plan :: "'v TeardownPlan \<Rightarrow> EntryId list" where
  "drop_plan plan =
     (case drop_in_order (tp_order plan) (tp_entries plan) of
        (dropped, rest) \<Rightarrow> dropped @ map en_entry_id (bm_values rest))"

definition drop_teardown_plans :: "'v TeardownPlan list \<Rightarrow> EntryId list" where
  "drop_teardown_plans plans = concat (map drop_plan plans)"

definition scope_teardown :: "'v scopes \<Rightarrow> scope \<Rightarrow> 'v scopes \<times> EntryId list option" where
  "scope_teardown st p =
     (if sc_poisoned st then (st, None)
      else
        (case close_scopes (collect_descendants_child_first st p @ [p]) st [] of
           (st', None) \<Rightarrow> (st', None)
         | (st', Some plans) \<Rightarrow> (st', Some (drop_teardown_plans plans))))"

text \<open>
  The host gives up its last pointer to a scope. A scope with a live child stays alive,
  because the child holds its parent.
\<close>

definition scope_release :: "'v scopes \<Rightarrow> scope \<Rightarrow> 'v scopes" where
  "scope_release st p =
     (if \<exists>q\<in>fmdom' (sc_states st). q \<noteq> [] \<and> tl q = p then st
      else st\<lparr>sc_states := fmdrop p (sc_states st)\<rparr>)"

end
