(* ===== verification/Scope_Handles.thy ===== *)
theory Scope_Handles
  imports Capability_Scope Capability_Resolution Keyed_Loops
begin

text \<open>
  The handles of a tree of scopes. A handle can only come from the runtime, so the handles
  that exist are a set \<open>H\<close> with one handle per entry identity, closed under the dependency
  snapshots, in which every dependency is older than its dependent. Every operation keeps
  this, and it makes the check of a dependency by entry identity a check of the exact
  publication.
\<close>

section \<open>Entry identities\<close>

lemma allocate_monotonic_Some:
  "allocate_monotonic c = Some (n, m) \<longleftrightarrow> n = c \<and> c \<noteq> u64_max \<and> m = c + 1"
  using checked_add_one_None_iff [of c]
  by (auto simp: allocate_monotonic_def checked_add_u64_def split: option.splits if_splits)

lemma allocate_monotonic_None: "allocate_monotonic c = None \<longleftrightarrow> c = u64_max"
  using checked_add_one_None_iff [of c] by (auto simp: allocate_monotonic_def split: option.splits)

lemma allocate_monotonic_less: "allocate_monotonic c = Some (n, m) \<Longrightarrow> n < m"
  using checked_add_one_less [of c m] by (auto simp: allocate_monotonic_def split: option.splits)

section \<open>The universe of handles\<close>

definition covers :: "'v ResolvedDependencies \<Rightarrow> CapabilityDefinition \<Rightarrow> bool" where
  "covers ds d \<longleftrightarrow> set (definition_requirements d) \<subseteq> fst ` set ds"

definition handle_universe :: "'v scopes \<Rightarrow> 'v CapabilityHandle set \<Rightarrow> bool" where
  "handle_universe st H \<longleftrightarrow>
     inj_on handle_entry_id H \<and>
     (\<forall>h\<in>H. entry_get (handle_entry_id h) < sc_next_entry_id st \<and>
        covers (handle_dependencies h) (handle_definition h) \<and>
        (\<forall>(i, x)\<in>set (handle_dependencies h). x \<in> H \<and> handle_id x = i \<and>
           entry_get (handle_entry_id x) < entry_get (handle_entry_id h))) \<and>
     (\<forall>p i e. fmlookup (ss_entries (scope_state st p)) i = Some e \<longrightarrow>
        cd_id (en_definition e) = i \<and> entry_handle e \<in> H)"

lemma entry_handle_sel [simp]:
  "handle_definition (entry_handle e) = en_definition e"
  "handle_instance (entry_handle e) = en_instance e"
  "handle_generation (entry_handle e) = en_generation e"
  "handle_entry_id (entry_handle e) = en_entry_id e"
  "handle_id (entry_handle e) = cd_id (en_definition e)"
  "handle_dependencies (entry_handle e) = slot_dependencies (en_instance e)"
  by (simp_all add: entry_handle_def handle_id_def handle_dependencies_def)

lemma universe_entry:
  assumes "handle_universe st H" and "fmlookup (ss_entries (scope_state st p)) i = Some e"
  shows "cd_id (en_definition e) = i" and "entry_handle e \<in> H"
  using assms unfolding handle_universe_def by blast+

lemma universe_handle:
  assumes "handle_universe st H" and "h \<in> H"
  shows "entry_get (handle_entry_id h) < sc_next_entry_id st"
    and "covers (handle_dependencies h) (handle_definition h)"
    and "(i, x) \<in> set (handle_dependencies h) \<Longrightarrow>
      x \<in> H \<and> handle_id x = i \<and> entry_get (handle_entry_id x) < entry_get (handle_entry_id h)"
  using assms unfolding handle_universe_def by blast+

lemma universe_get:
  assumes "handle_universe st H"
  shows "scope_get st p i = Some h \<Longrightarrow> h \<in> H \<and> handle_id h = i"
proof (induction p)
  case Nil
  then show ?case using universe_entry [OF assms, of "[]" i] by (auto split: if_splits)
next
  case (Cons k p)
  then show ?case using universe_entry [OF assms, of "k # p" i] by (auto split: if_splits option.splits)
qed

text \<open>A change of the states that only removes entries keeps the universe.\<close>

lemma universe_shrink:
  assumes "handle_universe st H" and "sc_next_entry_id st' = sc_next_entry_id st"
    and "\<And>p i e. fmlookup (ss_entries (scope_state st' p)) i = Some e \<Longrightarrow>
      fmlookup (ss_entries (scope_state st p)) i = Some e"
  shows "handle_universe st' H"
  using assms(1,3) unfolding handle_universe_def assms(2) by blast

lemma scope_state_update [simp]:
  "scope_state (update_scope p s st) q = (if q = p then s else scope_state st q)"
  by (simp add: scope_state_def update_scope_def)

lemma update_scope_sel [simp]:
  "sc_next_entry_id (update_scope p s st) = sc_next_entry_id st"
  "sc_poisoned (update_scope p s st) = sc_poisoned st"
  "scope_state (st\<lparr>sc_next_entry_id := n\<rparr>) q = scope_state st q"
  "scope_state (st\<lparr>sc_poisoned := b\<rparr>) q = scope_state st q"
  by (simp_all add: update_scope_def scope_state_def)

lemma empty_scope_sel [simp]:
  "ss_entries (empty_scope l) = fmempty" "ss_lifecycle (empty_scope l) = l" "ss_children (empty_scope l) = 0"
  by (simp_all add: empty_scope_def)

section \<open>Resolved dependencies\<close>

lemma resolve_dependencies_Inr:
  "resolve_dependencies st p d = Inr ds \<longleftrightarrow>
     map fst ds = definition_requirements d \<and> (\<forall>(i, h)\<in>set ds. scope_get st p i = Some h)"
proof -
  have "try_fold (\<lambda>hs i. case scope_get st p i of None \<Rightarrow> Inl (ScopeMissingDependency (cd_id d) i)
        | Some h \<Rightarrow> Inr (hs @ [(i, h)])) acc is = Inr ds \<longleftrightarrow>
      (\<exists>new. ds = acc @ new \<and> map fst new = is \<and> (\<forall>(i, h)\<in>set new. scope_get st p i = Some h))"
    for acc "is"
  proof (induction "is" arbitrary: acc)
    case (Cons i ids)
    show ?case
    proof (cases "scope_get st p i")
      case None
      then show ?thesis by auto
    next
      case (Some h)
      have "(\<exists>new. ds = (acc @ [(i, h)]) @ new \<and> map fst new = ids \<and> (\<forall>(i, h)\<in>set new. scope_get st p i = Some h))
          \<longleftrightarrow> (\<exists>new. ds = acc @ new \<and> map fst new = i # ids \<and> (\<forall>(i, h)\<in>set new. scope_get st p i = Some h))"
        using Some by (auto simp: map_eq_Cons_conv)
      then show ?thesis using Some Cons.IH [of "acc @ [(i, h)]"] by simp
    qed
  qed auto
  from this [of "[]" "definition_requirements d"] show ?thesis by (simp add: resolve_dependencies_def)
qed

lemma distinct_requirements: "distinct (definition_requirements d)"
proof -
  have "inj dep_id" by (rule injI) (simp add: Dependency.expand)
  then show ?thesis
    by (simp add: definition_requirements_def distinct_map sorted_list_of_fset.rep_eq inj_on_subset [of dep_id UNIV])
qed

lemma resolved_lookup:
  assumes "resolve_dependencies st p d = Inr ds" and "i \<in> set (definition_requirements d)"
  shows "\<exists>h. dependencies_get ds i = Some h \<and> scope_get st p i = Some h"
proof -
  have ds: "map fst ds = definition_requirements d" "\<forall>(i, h)\<in>set ds. scope_get st p i = Some h"
    using assms(1) by (auto simp: resolve_dependencies_Inr)
  then obtain h where h: "(i, h) \<in> set ds" using assms(2) by (metis (no_types, lifting) imageE list.set_map prod.collapse)
  have "distinct (map fst ds)" using ds(1) distinct_requirements by simp
  with h ds(2) show ?thesis by (auto simp: dependencies_get_def)
qed

text \<open>Dependencies that a caller holds: handles of the universe under their own identifiers.\<close>

definition held_dependencies :: "'v CapabilityHandle set \<Rightarrow> 'v ResolvedDependencies \<Rightarrow> bool" where
  "held_dependencies H ds \<longleftrightarrow> (\<forall>(i, h)\<in>set ds. h \<in> H \<and> handle_id h = i)"

lemma resolved_held:
  assumes "handle_universe st H" and "resolve_dependencies st p d = Inr ds"
  shows "held_dependencies H ds" and "covers ds d"
proof -
  show "held_dependencies H ds"
    using assms universe_get [OF assms(1)] by (auto simp: held_dependencies_def resolve_dependencies_Inr)
  have "map fst ds = definition_requirements d" using assms(2) by (simp add: resolve_dependencies_Inr)
  then show "covers ds d" by (metis covers_def list.set_map subset_refl)
qed

lemma same_dependency_exact:
  assumes universe: "handle_universe st H" and held: "held_dependencies H ds"
    and current: "resolve_dependencies st p d = Inr cs"
    and same: "try_fold (check_same_dependency d ds cs) () (definition_requirements d) = Inr u"
    and i: "i \<in> set (definition_requirements d)"
  shows "dependencies_get ds i = scope_get st p i" and "scope_get st p i \<noteq> None"
proof -
  obtain h where h: "dependencies_get cs i = Some h" "scope_get st p i = Some h"
    using resolved_lookup [OF current i] by blast
  have "check_same_dependency d ds cs () i = Inr ()" using same i by (simp add: check_fold)
  then obtain x where x: "dependencies_get ds i = Some x" "handle_entry_id x = handle_entry_id h"
    using h(1) by (auto simp: check_same_dependency_def split: option.splits if_splits)
  have "x \<in> H" using x(1) held by (auto simp: dependencies_get_def held_dependencies_def dest: map_of_SomeD)
  moreover have "h \<in> H" using universe_get [OF universe h(2)] by simp
  moreover have "inj_on handle_entry_id H" using universe by (simp add: handle_universe_def)
  ultimately have "x = h" using x(2) by (auto dest: inj_onD)
  then show "dependencies_get ds i = scope_get st p i" and "scope_get st p i \<noteq> None" using x(1) h(2) by simp_all
qed

section \<open>Operations keep the universe\<close>

lemma universe_child:
  assumes "handle_universe st H" and "ss_entries (scope_state st (ss_children (scope_state st p) # p)) = fmempty"
  shows "handle_universe (fst (scope_child st p)) H"
  using assms(1)
  by (rule universe_shrink)
     (use assms(2) in \<open>auto simp: scope_child_def Let_def split: if_splits\<close>)

lemma universe_withdraw:
  assumes "handle_universe st H"
  shows "handle_universe (fst (scope_withdraw st p i g)) H"
  using assms
  by (rule universe_shrink)
     (auto simp: scope_withdraw_def Let_def split: if_splits option.splits)

lemma universe_release:
  assumes "handle_universe st H"
  shows "handle_universe (scope_release st p) H"
  using assms
  by (rule universe_shrink) (auto simp: scope_release_def scope_state_def split: if_splits option.splits)

lemma close_scopes_shrink:
  "sc_next_entry_id (fst (close_scopes ps st plans)) = sc_next_entry_id st \<and>
   (\<forall>p i e. fmlookup (ss_entries (scope_state (fst (close_scopes ps st plans)) p)) i = Some e \<longrightarrow>
      fmlookup (ss_entries (scope_state st p)) i = Some e)"
proof (induction ps arbitrary: st plans)
  case (Cons p ps)
  let ?s = "scope_state st p"
  let ?taken = "?s\<lparr>ss_entries := fmempty, ss_lifecycle := Closing\<rparr>"
  show ?case
  proof (cases "ss_lifecycle ?s = Open")
    case False
    with Cons.IH [of st plans] show ?thesis by simp
  next
    case True
    show ?thesis
    proof (cases "runtime_teardown_order (ss_entries ?s)")
      case None
      with True show ?thesis by (auto simp: Let_def poison_on_panic_def split: if_splits)
    next
      case (Some order)
      let ?st = "update_scope p (?taken\<lparr>ss_lifecycle := Closed\<rparr>) st"
      have "fmlookup (ss_entries (scope_state ?st q)) i = Some e \<Longrightarrow> fmlookup (ss_entries (scope_state st q)) i = Some e"
        for q i e by (auto split: if_splits)
      with True Some Cons.IH [of ?st "plans @ [\<lparr>tp_entries = ss_entries ?s, tp_order = order\<rparr>]"]
      show ?thesis by (simp add: Let_def)
    qed
  qed
qed simp

lemma universe_teardown:
  assumes "handle_universe st H"
  shows "handle_universe (fst (scope_teardown st p)) H"
proof (rule universe_shrink [OF assms])
  have "fst (scope_teardown st p) = st \<or>
      fst (scope_teardown st p) = fst (close_scopes (collect_descendants_child_first st p @ [p]) st [])"
    by (auto simp: scope_teardown_def split: prod.splits option.splits)
  then show "sc_next_entry_id (fst (scope_teardown st p)) = sc_next_entry_id st"
    and "\<And>q i e. fmlookup (ss_entries (scope_state (fst (scope_teardown st p)) q)) i = Some e \<Longrightarrow>
      fmlookup (ss_entries (scope_state st q)) i = Some e"
    using close_scopes_shrink [of "collect_descendants_child_first st p @ [p]" st "[]"] by metis+
qed

end
