(* ===== verification/Capability_Context.thy ===== *)
theory Capability_Context
  imports Scope_Handles
begin

text \<open>
  Context views over scopes (\<^verbatim>\<open>CapabilityContext\<close> in \<^verbatim>\<open>semantic.rs\<close>): a chain of scopes in
  which a link can cut the fallback of a capability to its parent (isolation) or override the
  configuration of a plugin (interception). A context never changes after it is made; the
  scopes it names live in the scope tree.
\<close>

datatype CapabilityContext =
  CapabilityContext (ctx_scope: scope) (ctx_parent: "CapabilityContext option")
    (ctx_isolation: "Id fset") (ctx_intercepts: "(Id, string) fmap")

fun context_from_scope :: "scope \<Rightarrow> CapabilityContext" where
  "context_from_scope [] = CapabilityContext [] None {||} fmempty"
| "context_from_scope (k # p) = CapabilityContext (k # p) (Some (context_from_scope p)) {||} fmempty"

definition context_root :: "u64 \<Rightarrow> 'v scopes \<times> CapabilityContext" where
  "context_root next_entry_id = (scope_root next_entry_id, context_from_scope [])"

fun root_context :: "CapabilityContext \<Rightarrow> CapabilityContext" where
  "root_context (CapabilityContext p None isolation intercepts) = CapabilityContext p None isolation intercepts"
| "root_context (CapabilityContext p (Some parent) isolation intercepts) = root_context parent"

text \<open>\<open>None\<close> is the panic of a poisoned scope tree, as for \<open>scope_child\<close>.\<close>

definition derived_context :: "'v scopes \<Rightarrow> CapabilityContext \<Rightarrow> Id fset \<Rightarrow> (Id, string) fmap \<Rightarrow>
    'v scopes \<times> CapabilityContext option" where
  "derived_context st ctx isolation intercepts =
     (case scope_child st (ctx_scope ctx) of
        (st', None) \<Rightarrow> (st', None)
      | (st', Some p) \<Rightarrow> (st', Some (CapabilityContext p (Some ctx) isolation intercepts)))"

definition child_context :: "'v scopes \<Rightarrow> CapabilityContext \<Rightarrow> 'v scopes \<times> CapabilityContext option" where
  "child_context st ctx = derived_context st ctx {||} fmempty"

definition context_extend :: "'v scopes \<Rightarrow> CapabilityContext \<Rightarrow> 'v scopes \<times> CapabilityContext option" where
  "context_extend st ctx = child_context st ctx"

definition isolate :: "'v scopes \<Rightarrow> CapabilityContext \<Rightarrow> Id \<Rightarrow> 'v scopes \<times> CapabilityContext option" where
  "isolate st ctx capability = derived_context st ctx {|capability|} fmempty"

definition intercept :: "'v scopes \<Rightarrow> CapabilityContext \<Rightarrow> Id \<Rightarrow> string \<Rightarrow>
    'v scopes \<times> CapabilityContext option" where
  "intercept st ctx plugin config = derived_context st ctx {||} (fmupd plugin config fmempty)"

text \<open>The loop of \<^verbatim>\<open>get\<close> walks to the parent until an entry or a boundary stops it.\<close>

fun context_get :: "'v scopes \<Rightarrow> CapabilityContext \<Rightarrow> Id \<Rightarrow> 'v CapabilityHandle option" where
  "context_get st (CapabilityContext p parent isolation intercepts) i =
     (if has_local_entry st p i then scope_get st p i
      else if i |\<in>| isolation then None
      else (case parent of None \<Rightarrow> None | Some ctx \<Rightarrow> context_get st ctx i))"

fun intercepted_config :: "CapabilityContext \<Rightarrow> Id \<Rightarrow> string option" where
  "intercepted_config (CapabilityContext p parent isolation intercepts) plugin =
     (case fmlookup intercepts plugin of
        Some config \<Rightarrow> Some config
      | None \<Rightarrow> (case parent of None \<Rightarrow> None | Some ctx \<Rightarrow> intercepted_config ctx plugin))"

definition context_resolve_dependencies ::
    "'v scopes \<Rightarrow> CapabilityContext \<Rightarrow> CapabilityDefinition \<Rightarrow> ScopeError + 'v ResolvedDependencies" where
  "context_resolve_dependencies st ctx d =
     try_fold
       (\<lambda>handles i.
          case context_get st ctx i of
            None \<Rightarrow> Inl (ScopeMissingDependency (cd_id d) i)
          | Some h \<Rightarrow> Inr (handles @ [(i, h)]))
       [] (definition_requirements d)"

definition context_provide :: "'v scopes \<Rightarrow> CapabilityContext \<Rightarrow> CapabilityDefinition \<Rightarrow> 'v constructor \<Rightarrow>
    'v scopes \<times> (ScopeError + 'v CapabilityHandle)" where
  "context_provide st ctx d construct =
     (case context_resolve_dependencies st ctx d of
        Inl e \<Rightarrow> (st, Inl e)
      | Inr _ \<Rightarrow> scope_provide st (ctx_scope ctx) d construct)"

definition context_teardown :: "'v scopes \<Rightarrow> CapabilityContext \<Rightarrow> 'v scopes \<times> EntryId list option" where
  "context_teardown st ctx = scope_teardown st (ctx_scope ctx)"

section \<open>Lookup\<close>

text \<open>
  Over a chain of open scopes a context without boundaries sees what its scope sees. A closed
  scope sees nothing, but a context over it still falls back to its parents.
\<close>

lemma context_get_from_scope:
  assumes "\<forall>ks q. p = ks @ q \<longrightarrow> scope_is_open st q"
  shows "context_get st (context_from_scope p) i = scope_get st p i"
  using assms
proof (induction p)
  case Nil
  then show ?case by (simp add: has_local_entry_def contains_key_def split: option.split)
next
  case (Cons k p)
  have "scope_is_open st (k # p)" using Cons.prems by (metis append_Nil)
  moreover have "\<forall>ks q. p = ks @ q \<longrightarrow> scope_is_open st q" using Cons.prems by (metis append_Cons)
  ultimately show ?case
    using Cons.IH by (auto simp: has_local_entry_def contains_key_def split: option.split)
qed

text \<open>What a context finds is an issued handle of the identifier asked for.\<close>

lemma context_get_universe:
  assumes "handle_universe st H" and "context_get st ctx i = Some h"
  shows "h \<in> H" and "handle_id h = i"
  using assms(2)
proof (induction ctx)
  case (CapabilityContext p parent isolation intercepts)
  {
    case 1
    then show ?case
      using universe_get [OF assms(1)] CapabilityContext.IH(1)
      by (auto split: if_splits option.splits)
  next
    case 2
    then show ?case
      using universe_get [OF assms(1)] CapabilityContext.IH(2)
      by (auto split: if_splits option.splits)
  }
qed

end
