(* ===== verification/Runtime_Core.thy ===== *)
theory Runtime_Core
  imports Capability_Context Execution_Stream Run_Definition Recovery_Views
begin

text \<open>
  The synchronous coordinator of \<^verbatim>\<open>runtime-core\<close> (\<^verbatim>\<open>lib.rs\<close>): the data types, the state of a
  \<^verbatim>\<open>Runtime\<close> and the operations on it. A method on \<^verbatim>\<open>&mut self\<close> takes the runtime and returns
  the runtime it leaves behind with its result, also when it fails. \<^verbatim>\<open>RuntimePanic\<close> stands for
  the \<^verbatim>\<open>expect\<close> and \<^verbatim>\<open>unreachable!\<close> calls of the source.

  The durable store is the type parameter \<^verbatim>\<open>S\<close> of the source: its three operations are the
  record \<open>ops\<close>. The scope tree is shared with the host, so it is a field that the operations
  of the runtime read and never change.
\<close>

section \<open>Attempts, configurations and observations\<close>

record 'v CapabilityPin =
  cp_capability_id :: Id
  cp_generation :: Generation
  cp_entry_id :: EntryId
  cp_replay_identity :: CapabilityReplayIdentity
  cp_handle :: "'v CapabilityHandle"

record 'v TaskAttempt =
  ta_run_id :: RunId
  ta_task_id :: Id
  ta_attempt_id :: AttemptId
  ta_operation_id :: "OperationId option"
  ta_capability_pins :: "'v CapabilityPin list"

definition attempt_capability :: "'v TaskAttempt \<Rightarrow> Id \<Rightarrow> 'v CapabilityPin option" where
  "attempt_capability a capability_id = find (\<lambda>pin. cp_capability_id pin = capability_id) (ta_capability_pins a)"

record TaskConfig =
  tc_required_capabilities :: "(Id, string option) fmap"
  tc_effect :: "EffectSpec option"

definition TaskConfig_new :: TaskConfig where
  "TaskConfig_new = \<lparr>tc_required_capabilities = fmempty, tc_effect = None\<rparr>"

definition config_require_capability :: "TaskConfig \<Rightarrow> Id \<Rightarrow> TaskConfig" where
  "config_require_capability c capability_id =
     (if contains_key (tc_required_capabilities c) capability_id then c
      else c\<lparr>tc_required_capabilities := fmupd capability_id None (tc_required_capabilities c)\<rparr>)"

definition require_capability_with_identity :: "TaskConfig \<Rightarrow> Id \<Rightarrow> string \<Rightarrow> TaskConfig" where
  "require_capability_with_identity c capability_id definition_identity =
     c\<lparr>tc_required_capabilities := fmupd capability_id (Some definition_identity) (tc_required_capabilities c)\<rparr>"

definition config_with_effect :: "TaskConfig \<Rightarrow> OperationId \<Rightarrow> EffectSemantics \<Rightarrow> TaskConfig" where
  "config_with_effect c operation_id semantics =
     c\<lparr>tc_effect := Some \<lparr>es_operation_id = operation_id, es_semantics = semantics\<rparr>\<rparr>"

definition config_required_capabilities :: "TaskConfig \<Rightarrow> Id list" where
  "config_required_capabilities c = bm_keys (tc_required_capabilities c)"

datatype RuntimeEvent =
    TaskStarted RunId Id AttemptId
  | TaskProgress Id u8
  | TaskCompleted RunId Id AttemptId
  | Telemetry string

datatype StepResult =
    StepCompleted Id AttemptId
  | EffectPending Id AttemptId OperationId
  | Blocked Id "OperationId option" RecoveryAction
  | Idle

datatype Cancellation =
    NotDispatched Id
  | AlreadyDispatched Id OperationId AttemptId

section \<open>Errors\<close>

datatype ReconstructionError =
    ReconstructionCapabilityGraph CapabilityGraphError
  | CapabilityPublication Id ScopeError
  | ReconstructionInvariantViolation string

datatype LegacyMutationOperation = ConfigureTask | ApplyWorkflowMutation

datatype RuntimeError =
    RuntimeDefinition DefinitionError
  | RuntimeFactory FactoryResolutionError
  | RuntimeReconstruction ReconstructionError
  | RuntimeWorkflow WorkflowGraphError
  | RuntimeCapability ScopeError
  | RuntimeJournal JournalError
  | RuntimeStore StoreError
  | RuntimeStream SequenceError
  | RuntimeUnknownTask Id
  | MissingCapability Id Id  \<comment> \<open>task, capability\<close>
  | CapabilityReplayMismatch Id Id  \<comment> \<open>task, capability\<close>
  | WorkflowReplayIdentityMismatch WorkflowReplayIdentity "WorkflowReplayIdentity option"
  | DefinitionMismatch WorkflowReplayIdentity "WorkflowReplayIdentity option"
  | LegacyDefinitionIdentityUnsupported WorkflowReplayIdentity string
  | DeclarativeMutationUnsupported LegacyMutationOperation
  | PrecompletedWorkflow Id
  | AttemptIdExhausted
  | CancelledBeforeDispatch Id
  | CancelledAfterDispatch Id OperationId
  | ReconciliationRequired OperationId
  | OutcomeAlreadyKnown OperationId
  | ProgressBackpressure
  | ExecutionBackpressure "RuntimeEvent StreamItem"
  | RuntimePanic  \<comment> \<open>not a value of the source\<close>

section \<open>The runtime\<close>

text \<open>The trait \<^verbatim>\<open>DurableStore\<close>: the operations a runtime is instantiated with.\<close>

record 'st store_ops =
  so_create_run :: "'st \<Rightarrow> RunId \<Rightarrow> 'st \<times> (StoreError + StoreRevision)"
  so_load_run :: "'st \<Rightarrow> RunId \<Rightarrow> StoreError + DurableRunState"
  so_commit :: "'st \<Rightarrow> CommitRequest \<Rightarrow> 'st \<times> (StoreError + CommitResult)"

datatype IdentityProvenance = LegacyLiveObject | DeclarativeDefinition

record ('v, 'st) Runtime =
  rt_run_id :: RunId
  rt_workflow :: WorkflowGraph
  rt_scopes :: "'v scopes"
  rt_context :: CapabilityContext
  rt_journal :: DurableJournal
  rt_store :: 'st
  rt_store_revision :: StoreRevision
  rt_identity_provenance :: IdentityProvenance
  rt_task_configs :: "(Id, TaskConfig) fmap"
  rt_attempts :: "'v TaskAttempt list"
  rt_pending_started :: "('v TaskAttempt \<times> RuntimeEvent StreamItem) option"
  rt_cancelled :: "Id fset"
  rt_next_attempt_number :: u64
  rt_execution_sequencer :: StreamSequencer
  rt_progress_sequencer :: StreamSequencer
  rt_telemetry_sequencer :: StreamSequencer
  rt_execution_events :: "RuntimeEvent LosslessBuffer"
  rt_progress_events :: "(Id, RuntimeEvent) CoalescingBuffer"
  rt_telemetry_events :: "RuntimeEvent LossyBuffer"

text \<open>The operator \<^verbatim>\<open>?\<close> on a stateful result.\<close>

definition and_then :: "'s \<times> ('e + 'a) \<Rightarrow> ('s \<Rightarrow> 'a \<Rightarrow> 's \<times> ('e + 'b)) \<Rightarrow> 's \<times> ('e + 'b)" where
  "and_then r f = (case r of (s, Inl e) \<Rightarrow> (s, Inl e) | (s, Inr x) \<Rightarrow> f s x)"

lemma and_then_simps [simp]:
  "and_then (s, Inl e) f = (s, Inl e)"
  "and_then (s, Inr x) f = f s x"
  by (simp_all add: and_then_def)

lemma and_then_Inr:
  assumes "and_then r f = (s', Inr y)"
  obtains s x where "r = (s, Inr x)" "f s x = (s', Inr y)"
  using assms by (auto simp: and_then_def split: prod.splits sum.splits)

text \<open>A string with a visible ASCII character is not blank.\<close>

lemma blank_ascii_white:
  "trim_is_empty s \<Longrightarrow> c \<in> set s \<Longrightarrow> byte_of c < 128 \<Longrightarrow> white1 (byte_of c)"
proof (induction s rule: trim_is_empty.induct)
  case 1
  then show ?case by simp
next
  case (2 a s)
  show ?case
  proof (cases "white1 (byte_of a)")
    case True
    then show ?thesis using 2 by auto
  next
    case False
    then obtain b s' where s: "s = b # s'" using 2(4) by (cases s) simp_all
    show ?thesis
    proof (cases "white2 (byte_of a) (byte_of b)")
      case True
      then have "128 \<le> byte_of a" "128 \<le> byte_of b" by (auto simp: white2_def)
      then show ?thesis using 2(2) [OF False s True] 2(4-6) False True s by auto
    next
      case F: False
      then obtain d s'' where s': "s' = d # s''" and w: "white3 (byte_of a) (byte_of b) (byte_of d)" "trim_is_empty s''"
        using 2(4) False s by (cases s') simp_all
      then have "128 \<le> byte_of a" "128 \<le> byte_of b" "128 \<le> byte_of d" by (auto simp: white3_def)
      then show ?thesis using 2(3) [OF False s F s'] 2(5,6) s s' w by auto
    qed
  qed
qed

lemma visible_not_blank: "c \<in> set s \<Longrightarrow> 33 \<le> byte_of c \<Longrightarrow> byte_of c < 128 \<Longrightarrow> \<not> trim_is_empty s"
  using blank_ascii_white [of s c] by (auto simp: white1_def)

section \<open>Durable commits and lifecycle events\<close>

definition durable_state :: "'st store_ops \<Rightarrow> ('v, 'st) Runtime \<Rightarrow> RuntimeError + DurableRunState" where
  "durable_state ops rt =
     (case so_load_run ops (rt_store rt) (rt_run_id rt) of Inl e \<Rightarrow> Inl (RuntimeStore e) | Inr s \<Rightarrow> Inr s)"

definition commit_durable :: "'st store_ops \<Rightarrow> ('v, 'st) Runtime \<Rightarrow> string \<Rightarrow> DurableMutation list \<Rightarrow>
    ('v, 'st) Runtime \<times> (RuntimeError + StoreRevision)" where
  "commit_durable ops rt idempotency_key mutations =
     (case IdempotencyKey_new idempotency_key of
        Inl e \<Rightarrow> (rt, Inl (RuntimeStore e))
      | Inr key \<Rightarrow>
          (case so_commit ops (rt_store rt)
                  \<lparr>rq_run_id = rt_run_id rt, rq_expected_revision = rt_store_revision rt,
                   rq_idempotency_key = key, rq_mutations = mutations\<rparr> of
             (st, Inl e) \<Rightarrow> (rt\<lparr>rt_store := st\<rparr>, Inl (RuntimeStore e))
           | (st, Inr result) \<Rightarrow>
               (rt\<lparr>rt_store := st, rt_store_revision := cm_revision result\<rparr>, Inr (cm_revision result))))"

definition enqueue_execution :: "('v, 'st) Runtime \<Rightarrow> RuntimeEvent StreamItem \<Rightarrow>
    ('v, 'st) Runtime \<times> (RuntimeError + unit)" where
  "enqueue_execution rt item =
     (case lossless_try_push (rt_execution_events rt) item of
        (b, Inl (Backpressure item)) \<Rightarrow> (rt\<lparr>rt_execution_events := b\<rparr>, Inl (ExecutionBackpressure item))
      | (b, Inr _) \<Rightarrow> (rt\<lparr>rt_execution_events := b\<rparr>, Inr ()))"

definition emit_execution :: "('v, 'st) Runtime \<Rightarrow> RuntimeEvent \<Rightarrow>
    ('v, 'st) Runtime \<times> (RuntimeError + RuntimeEvent StreamItem)" where
  "emit_execution rt event =
     (case emit (rt_execution_sequencer rt) event of
        (q, Inl e) \<Rightarrow> (rt\<lparr>rt_execution_sequencer := q\<rparr>, Inl (RuntimeStream e))
      | (q, Inr item) \<Rightarrow> (rt\<lparr>rt_execution_sequencer := q\<rparr>, Inr item))"

definition emit_completed :: "('v, 'st) Runtime \<Rightarrow> Id \<Rightarrow> AttemptId \<Rightarrow>
    ('v, 'st) Runtime \<times> (RuntimeError + unit)" where
  "emit_completed rt task_id attempt_id =
     and_then (emit_execution rt (TaskCompleted (rt_run_id rt) task_id attempt_id)) enqueue_execution"

definition commit_workflow_identity :: "'st store_ops \<Rightarrow> ('v, 'st) Runtime \<Rightarrow> WorkflowReplayIdentity \<Rightarrow>
    ('v, 'st) Runtime \<times> (RuntimeError + StoreRevision)" where
  "commit_workflow_identity ops rt replay_identity =
     commit_durable ops rt
       (''workflow-identity:'' @ decimal (unat (store_revision_get (rt_store_revision rt))) @ '':'' @
        replay_identity_str replay_identity)
       [RecordWorkflowReplayIdentity replay_identity]"

definition complete_task :: "'st store_ops \<Rightarrow> ('v, 'st) Runtime \<Rightarrow> Id \<Rightarrow> AttemptId \<Rightarrow>
    ('v, 'st) Runtime \<times> (RuntimeError + unit)" where
  "complete_task ops rt task_id attempt_id =
     (case complete (rt_workflow rt) task_id of
        (_, Inl e) \<Rightarrow> (rt, Inl (RuntimeWorkflow e))
      | (candidate, Inr _) \<Rightarrow>
          and_then
            (commit_durable ops rt (''completion:'' @ as_str task_id @ '':'' @ AttemptId_as_str attempt_id)
               [RecordCompletion \<lparr>dc_task_id = task_id, dc_attempt_id = attempt_id\<rparr>])
            (\<lambda>rt _. emit_completed (rt\<lparr>rt_workflow := candidate\<rparr>) task_id attempt_id))"

section \<open>Attempts\<close>

definition attempt_matches :: "Id \<Rightarrow> OperationId option \<Rightarrow> 'v TaskAttempt \<Rightarrow> bool" where
  "attempt_matches task_id operation_id a \<longleftrightarrow> ta_task_id a = task_id \<and> ta_operation_id a = operation_id"

definition attempt_for_task :: "('v, 'st) Runtime \<Rightarrow> Id \<Rightarrow> OperationId option \<Rightarrow> AttemptId option" where
  "attempt_for_task rt task_id operation_id =
     (case rt_pending_started rt of
        Some (a, _) \<Rightarrow>
          if attempt_matches task_id operation_id a then Some (ta_attempt_id a)
          else map_option ta_attempt_id (find (attempt_matches task_id operation_id) (rev (rt_attempts rt)))
      | None \<Rightarrow> map_option ta_attempt_id (find (attempt_matches task_id operation_id) (rev (rt_attempts rt))))"

definition pending_attempt :: "('v, 'st) Runtime \<Rightarrow> Id \<Rightarrow> OperationId \<Rightarrow> AttemptId option" where
  "pending_attempt rt task_id operation_id = attempt_for_task rt task_id (Some operation_id)"

definition capture_pin :: "('v, 'st) Runtime \<Rightarrow> Id \<Rightarrow> 'v CapabilityPin list \<Rightarrow> Id \<times> string option \<Rightarrow>
    RuntimeError + 'v CapabilityPin list" where
  "capture_pin rt task_id pins required =
     (case required of (capability_id, configured_identity) \<Rightarrow>
        (case context_get (rt_scopes rt) (rt_context rt) capability_id of
           None \<Rightarrow> Inl (MissingCapability task_id capability_id)
         | Some handle \<Rightarrow>
             if (case configured_identity of None \<Rightarrow> False | Some configured \<Rightarrow> configured \<noteq> handle_replay_identity handle)
             then Inl (CapabilityReplayMismatch task_id capability_id)
             else Inr (pins @
               [\<lparr>cp_capability_id = capability_id, cp_generation = handle_generation handle,
                 cp_entry_id = handle_entry_id handle,
                 cp_replay_identity = CapabilityReplayIdentity_new capability_id (handle_replay_identity handle),
                 cp_handle = handle\<rparr>])))"

definition expected_identities :: "CapabilityReplayIdentity list \<Rightarrow> (Id, CapabilityReplayIdentity) fmap" where
  "expected_identities expected = fold (\<lambda>c m. fmupd (cri_capability_id c) c m) expected fmempty"

definition check_expected_pins :: "Id \<Rightarrow> CapabilityReplayIdentity list \<Rightarrow> 'v CapabilityPin list \<Rightarrow>
    RuntimeError + 'v CapabilityPin list" where
  "check_expected_pins task_id expected pins =
     (let expected = expected_identities expected in
      if fcard (fmdom expected) \<noteq> length pins
         \<or> list_ex (\<lambda>pin. fmlookup expected (cp_capability_id pin) \<noteq> Some (cp_replay_identity pin)) pins then
        Inl (CapabilityReplayMismatch task_id
          (case pins of
             pin # _ \<Rightarrow> cp_capability_id pin
           | [] \<Rightarrow>
               (case bm_keys expected of
                  capability_id # _ \<Rightarrow> capability_id
                | [] \<Rightarrow> Id ''durable-capability-mismatch'')))
      else Inr pins)"

definition required_identities :: "('v, 'st) Runtime \<Rightarrow> Id \<Rightarrow> (Id \<times> string option) list" where
  "required_identities rt task_id =
     (case fmlookup (rt_task_configs rt) task_id of
        None \<Rightarrow> []
      | Some config \<Rightarrow> bm_items (tc_required_capabilities config))"

definition capture_capability_pins :: "('v, 'st) Runtime \<Rightarrow> Id \<Rightarrow> CapabilityReplayIdentity list option \<Rightarrow>
    RuntimeError + 'v CapabilityPin list" where
  "capture_capability_pins rt task_id expected =
     (case try_fold (capture_pin rt task_id) [] (required_identities rt task_id) of
        Inl e \<Rightarrow> Inl e
      | Inr pins \<Rightarrow>
          (case expected of
             None \<Rightarrow> Inr pins
           | Some expected \<Rightarrow> check_expected_pins task_id expected pins))"

definition attempt_admission :: "'v TaskAttempt \<Rightarrow> AttemptAdmission" where
  "attempt_admission a =
     \<lparr>aa_run_id = ta_run_id a, aa_task_id = ta_task_id a, aa_attempt_id = ta_attempt_id a,
      aa_operation_id = ta_operation_id a, aa_capabilities = map cp_replay_identity (ta_capability_pins a)\<rparr>"

text \<open>The tail of \<^verbatim>\<open>begin_attempt\<close>: the started event, and the attempt kept back when it does not fit.\<close>

definition publish_started :: "('v, 'st) Runtime \<Rightarrow> 'v TaskAttempt \<Rightarrow>
    ('v, 'st) Runtime \<times> (RuntimeError + AttemptId)" where
  "publish_started rt a =
     and_then (emit_execution rt (TaskStarted (rt_run_id rt) (ta_task_id a) (ta_attempt_id a)))
       (\<lambda>rt item.
          case enqueue_execution rt item of
            (rt, Inr _) \<Rightarrow> (rt\<lparr>rt_attempts := rt_attempts rt @ [a]\<rparr>, Inr (ta_attempt_id a))
          | (rt, Inl (ExecutionBackpressure item)) \<Rightarrow>
              (rt\<lparr>rt_pending_started := Some (a, item)\<rparr>, Inl (ExecutionBackpressure item))
          | (rt, Inl e) \<Rightarrow> (rt, Inl e))"

definition attempt_name :: "RunId \<Rightarrow> u64 \<Rightarrow> string" where
  "attempt_name run_id n = RunId_as_str run_id @ ''-attempt-'' @ decimal (unat n)"

definition begin_attempt :: "'st store_ops \<Rightarrow> ('v, 'st) Runtime \<Rightarrow> Id \<Rightarrow> OperationId option \<Rightarrow>
    ('v, 'st) Runtime \<times> (RuntimeError + AttemptId)" where
  "begin_attempt ops rt task_id operation_id =
     (case capture_capability_pins rt task_id None of
        Inl e \<Rightarrow> (rt, Inl e)
      | Inr pins \<Rightarrow>
          (case AttemptId_new (attempt_name (rt_run_id rt) (rt_next_attempt_number rt)) of
             Inl _ \<Rightarrow> (rt, Inl RuntimePanic)
           | Inr attempt_id \<Rightarrow>
               let a = \<lparr>ta_run_id = rt_run_id rt, ta_task_id = task_id, ta_attempt_id = attempt_id,
                        ta_operation_id = operation_id, ta_capability_pins = pins\<rparr>
               in and_then
                    (commit_durable ops rt (''admit:'' @ AttemptId_as_str attempt_id) [AdmitAttempt (attempt_admission a)])
                    (\<lambda>rt _.
                       case checked_add_u64 (rt_next_attempt_number rt) 1 of
                         None \<Rightarrow> (rt, Inl AttemptIdExhausted)
                       | Some n \<Rightarrow> publish_started (rt\<lparr>rt_next_attempt_number := n\<rparr>) a)))"

definition attempt_or_begin :: "'st store_ops \<Rightarrow> ('v, 'st) Runtime \<Rightarrow> Id \<Rightarrow> OperationId option \<Rightarrow>
    ('v, 'st) Runtime \<times> (RuntimeError + AttemptId)" where
  "attempt_or_begin ops rt task_id operation_id =
     (case attempt_for_task rt task_id operation_id of
        Some attempt_id \<Rightarrow> (rt, Inr attempt_id)
      | None \<Rightarrow> begin_attempt ops rt task_id operation_id)"

end
