(* ===== verification/Runtime_Operations.thy ===== *)
theory Runtime_Operations
  imports Runtime_Core Workflow_Invariants
begin

text \<open>
  The public operations of \<^verbatim>\<open>Runtime\<close> in \<^verbatim>\<open>lib.rs\<close>: effects, recovery, cancellation, the
  scheduler step and its loop, observations, and the two mutations that only a runtime over
  live objects allows.
\<close>

section \<open>Effects\<close>

definition record_effect_intent :: "'st store_ops \<Rightarrow> ('v, 'st) Runtime \<Rightarrow> Id \<Rightarrow> OperationId \<Rightarrow> EffectSemantics \<Rightarrow>
    ('v, 'st) Runtime \<times> (RuntimeError + unit)" where
  "record_effect_intent ops rt task_id operation_id semantics =
     (if graph_task (rt_workflow rt) task_id = None then (rt, Inl (RuntimeUnknownTask task_id))
      else if graph_is_completed (rt_workflow rt) task_id then
        (rt, Inl (RuntimeWorkflow (TaskAlreadyCompleted task_id)))
      else
        let intent = \<lparr>ei_task_id = task_id, ei_operation_id = operation_id, ei_semantics = semantics\<rparr> in
        (case persist_intent (rt_journal rt) intent of
           Inl e \<Rightarrow> (rt, Inl (RuntimeJournal e))
         | Inr candidate \<Rightarrow>
             and_then
               (commit_durable ops rt (''intent:'' @ OperationId_as_str operation_id) [RecordIntent intent])
               (\<lambda>rt _. (rt\<lparr>rt_journal := candidate\<rparr>, Inr ()))))"

text \<open>The attempt a dispatch uses, or the reason why there is none.\<close>

definition dispatch_attempt :: "'st store_ops \<Rightarrow> ('v, 'st) Runtime \<Rightarrow> EffectIntent \<Rightarrow> OperationId \<Rightarrow>
    ('v, 'st) Runtime \<times> (RuntimeError + AttemptId)" where
  "dispatch_attempt ops rt intent operation_id =
     (case journal_state (rt_journal rt) operation_id of
        Prepared \<Rightarrow> attempt_or_begin ops rt (ei_task_id intent) (Some operation_id)
      | OutcomeUnknown \<Rightarrow>
          if ei_semantics intent = NonIdempotent then (rt, Inl (ReconciliationRequired operation_id))
          else begin_attempt ops rt (ei_task_id intent) (Some operation_id)
      | OutcomeKnown _ \<Rightarrow> (rt, Inl (OutcomeAlreadyKnown operation_id))
      | EffectNotPrepared \<Rightarrow> (rt, Inl RuntimePanic))"

definition record_dispatch_fact :: "'st store_ops \<Rightarrow> OperationId \<Rightarrow> ('v, 'st) Runtime \<Rightarrow> AttemptId \<Rightarrow>
    ('v, 'st) Runtime \<times> (RuntimeError + AttemptId)" where
  "record_dispatch_fact ops operation_id rt attempt_id =
     (let dispatch = \<lparr>dr_operation_id = operation_id, dr_attempt_id = attempt_id\<rparr> in
      (case persist_dispatch (rt_journal rt) dispatch of
         Inl e \<Rightarrow> (rt, Inl (RuntimeJournal e))
       | Inr candidate \<Rightarrow>
           and_then
             (commit_durable ops rt (''dispatch:'' @ AttemptId_as_str attempt_id) [RecordDispatch dispatch])
             (\<lambda>rt _. (rt\<lparr>rt_journal := candidate\<rparr>, Inr attempt_id))))"

definition dispatch_effect :: "'st store_ops \<Rightarrow> ('v, 'st) Runtime \<Rightarrow> OperationId \<Rightarrow>
    ('v, 'st) Runtime \<times> (RuntimeError + AttemptId)" where
  "dispatch_effect ops rt operation_id =
     (case journal_intent (rt_journal rt) operation_id of
        Inl e \<Rightarrow> (rt, Inl (RuntimeJournal e))
      | Inr intent \<Rightarrow>
          if ei_task_id intent |\<in>| rt_cancelled rt then
            (case journal_state (rt_journal rt) operation_id of
               OutcomeUnknown \<Rightarrow> (rt, Inl (CancelledAfterDispatch (ei_task_id intent) operation_id))
             | _ \<Rightarrow> (rt, Inl (CancelledBeforeDispatch (ei_task_id intent))))
          else
            and_then (dispatch_attempt ops rt intent operation_id) (record_dispatch_fact ops operation_id))"

definition record_effect_outcome :: "'st store_ops \<Rightarrow> ('v, 'st) Runtime \<Rightarrow> OperationId \<Rightarrow> AttemptId \<Rightarrow>
    KnownEffectOutcome \<Rightarrow> ('v, 'st) Runtime \<times> (RuntimeError + unit)" where
  "record_effect_outcome ops rt operation_id attempt_id known =
     (let out = \<lparr>or_operation_id = operation_id, or_attempt_id = attempt_id, or_outcome = known\<rparr> in
      (case persist_outcome (rt_journal rt) out of
         Inl e \<Rightarrow> (rt, Inl (RuntimeJournal e))
       | Inr candidate \<Rightarrow>
           and_then
             (commit_durable ops rt (''outcome:'' @ AttemptId_as_str attempt_id) [RecordOutcome out])
             (\<lambda>rt _. (rt\<lparr>rt_journal := candidate\<rparr>, Inr ()))))"

section \<open>Recovery and cancellation\<close>

text \<open>A panic inside the classification unwinds through the runtime.\<close>

definition classify_runtime :: "('v, 'st) Runtime \<Rightarrow> OperationId \<Rightarrow> RuntimeError + RecoveryDecision" where
  "classify_runtime rt operation_id =
     (case classify_recovery (rt_workflow rt) (rt_journal rt) operation_id of
        Inl ClassifyPanic \<Rightarrow> Inl RuntimePanic
      | Inl e \<Rightarrow> Inl (RuntimeJournal e)
      | Inr decision \<Rightarrow> Inr decision)"

definition recover :: "'st store_ops \<Rightarrow> ('v, 'st) Runtime \<Rightarrow> OperationId \<Rightarrow>
    ('v, 'st) Runtime \<times> (RuntimeError + RecoveryDecision)" where
  "recover ops rt operation_id =
     (case classify_runtime rt operation_id of
        Inl e \<Rightarrow> (rt, Inl e)
      | Inr decision \<Rightarrow>
          if rd_action decision \<noteq> CompleteWithoutReexecution then (rt, Inr decision)
          else
            (case journal_intent (rt_journal rt) operation_id of
               Inl e \<Rightarrow> (rt, Inl (RuntimeJournal e))
             | Inr intent \<Rightarrow>
                 (case known_outcome (rt_journal rt) operation_id of
                    None \<Rightarrow> (rt, Inl RuntimePanic)
                  | Some out \<Rightarrow>
                      if graph_is_completed (rt_workflow rt) (ei_task_id intent) then (rt, Inr decision)
                      else and_then (complete_task ops rt (ei_task_id intent) (or_attempt_id out))
                             (\<lambda>rt _. (rt, Inr decision)))))"

definition cancel_task :: "'st store_ops \<Rightarrow> ('v, 'st) Runtime \<Rightarrow> Id \<Rightarrow>
    ('v, 'st) Runtime \<times> (RuntimeError + Cancellation)" where
  "cancel_task ops rt task_id =
     (if graph_task (rt_workflow rt) task_id = None then (rt, Inl (RuntimeUnknownTask task_id))
      else
        let operation_id = journal_operation_for_task (rt_journal rt) task_id;
            attempt_id = (case operation_id of None \<Rightarrow> None | Some x \<Rightarrow> attempt_for_task rt task_id (Some x));
            already_dispatched = (case operation_id of None \<Rightarrow> None | Some x \<Rightarrow> journal_latest_dispatch (rt_journal rt) x)
        in and_then
             (commit_durable ops rt (''cancel:'' @ as_str task_id)
                [RecordCancellation \<lparr>ca_run_id = rt_run_id rt, ca_task_id = task_id,
                                     ca_operation_id = operation_id, ca_attempt_id = attempt_id\<rparr>])
             (\<lambda>rt _.
                (rt\<lparr>rt_cancelled := finsert task_id (rt_cancelled rt)\<rparr>,
                 Inr (case (operation_id, already_dispatched) of
                        (Some x, Some dispatch) \<Rightarrow> AlreadyDispatched task_id x (dr_attempt_id dispatch)
                      | _ \<Rightarrow> NotDispatched task_id))))"

section \<open>The scheduler\<close>

definition ensure_configured_effect :: "'st store_ops \<Rightarrow> ('v, 'st) Runtime \<Rightarrow> Id \<Rightarrow>
    ('v, 'st) Runtime \<times> (RuntimeError + (OperationId \<times> EffectSemantics) option)" where
  "ensure_configured_effect ops rt task_id =
     (case journal_operation_for_task (rt_journal rt) task_id of
        Some operation_id \<Rightarrow>
          (case journal_intent (rt_journal rt) operation_id of
             Inl e \<Rightarrow> (rt, Inl (RuntimeJournal e))
           | Inr intent \<Rightarrow> (rt, Inr (Some (operation_id, ei_semantics intent))))
      | None \<Rightarrow>
          (case fmlookup (rt_task_configs rt) task_id of
             None \<Rightarrow> (rt, Inr None)
           | Some config \<Rightarrow>
               (case tc_effect config of
                  None \<Rightarrow> (rt, Inr None)
                | Some effect \<Rightarrow>
                    and_then (record_effect_intent ops rt task_id (es_operation_id effect) (es_semantics effect))
                      (\<lambda>rt _. (rt, Inr (Some (es_operation_id effect, es_semantics effect)))))))"

definition complete_step_task :: "'st store_ops \<Rightarrow> Id \<Rightarrow> ('v, 'st) Runtime \<Rightarrow> AttemptId \<Rightarrow>
    ('v, 'st) Runtime \<times> (RuntimeError + StepResult)" where
  "complete_step_task ops task_id rt attempt_id =
     and_then (complete_task ops rt task_id attempt_id) (\<lambda>rt _. (rt, Inr (StepCompleted task_id attempt_id)))"

definition step_effect :: "'st store_ops \<Rightarrow> Id \<Rightarrow> ('v, 'st) Runtime \<Rightarrow> OperationId \<Rightarrow>
    ('v, 'st) Runtime \<times> (RuntimeError + StepResult)" where
  "step_effect ops task_id rt operation_id =
     (case journal_state (rt_journal rt) operation_id of
        Prepared \<Rightarrow>
          and_then (attempt_or_begin ops rt task_id (Some operation_id))
            (\<lambda>rt attempt_id. (rt, Inr (EffectPending task_id attempt_id operation_id)))
      | OutcomeUnknown \<Rightarrow>
          (case classify_runtime rt operation_id of
             Inl e \<Rightarrow> (rt, Inl e)
           | Inr decision \<Rightarrow> (rt, Inr (Blocked task_id (Some operation_id) (rd_action decision))))
      | OutcomeKnown Succeeded \<Rightarrow>
          (case known_outcome (rt_journal rt) operation_id of
             None \<Rightarrow> (rt, Inl RuntimePanic)
           | Some out \<Rightarrow> complete_step_task ops task_id rt (or_attempt_id out))
      | OutcomeKnown Failed \<Rightarrow> (rt, Inr (Blocked task_id (Some operation_id) ObserveFailure))
      | EffectNotPrepared \<Rightarrow> (rt, Inl RuntimePanic))"

definition step_task :: "'st store_ops \<Rightarrow> ('v, 'st) Runtime \<Rightarrow> Id \<Rightarrow>
    ('v, 'st) Runtime \<times> (RuntimeError + StepResult)" where
  "step_task ops rt task_id =
     and_then (ensure_configured_effect ops rt task_id)
       (\<lambda>rt operation.
          case operation of
            None \<Rightarrow> and_then (attempt_or_begin ops rt task_id None) (complete_step_task ops task_id)
          | Some (operation_id, _) \<Rightarrow> step_effect ops task_id rt operation_id)"

definition next_ready :: "('v, 'st) Runtime \<Rightarrow> Id option" where
  "next_ready rt = find (\<lambda>t. t |\<notin>| rt_cancelled rt) (ready_tasks (rt_workflow rt))"

definition runtime_step :: "'st store_ops \<Rightarrow> ('v, 'st) Runtime \<Rightarrow>
    ('v, 'st) Runtime \<times> (RuntimeError + StepResult)" where
  "runtime_step ops rt =
     (case rt_pending_started rt of
        Some (_, item) \<Rightarrow> (rt, Inl (ExecutionBackpressure item))
      | None \<Rightarrow>
          (case next_ready rt of
             None \<Rightarrow> (rt, Inr Idle)
           | Some task_id \<Rightarrow> step_task ops rt task_id))"

section \<open>Frames\<close>

text \<open>
  \<open>same_state\<close>: everything but the store, its revision, the event streams and their sequencers;
  \<open>same_store\<close>: the store and its revision.
\<close>

definition same_state :: "('v, 'st) Runtime \<Rightarrow> ('v, 'st) Runtime \<Rightarrow> bool" where
  "same_state rt rt' \<longleftrightarrow>
     rt_run_id rt' = rt_run_id rt \<and> rt_workflow rt' = rt_workflow rt \<and> rt_scopes rt' = rt_scopes rt \<and>
     rt_context rt' = rt_context rt \<and> rt_journal rt' = rt_journal rt \<and>
     rt_identity_provenance rt' = rt_identity_provenance rt \<and> rt_task_configs rt' = rt_task_configs rt \<and>
     rt_attempts rt' = rt_attempts rt \<and> rt_pending_started rt' = rt_pending_started rt \<and>
     rt_cancelled rt' = rt_cancelled rt \<and> rt_next_attempt_number rt' = rt_next_attempt_number rt"

definition same_store :: "('v, 'st) Runtime \<Rightarrow> ('v, 'st) Runtime \<Rightarrow> bool" where
  "same_store rt rt' \<longleftrightarrow> rt_store rt' = rt_store rt \<and> rt_store_revision rt' = rt_store_revision rt"

lemma same_state_refl [simp]: "same_state rt rt"
  by (simp add: same_state_def)

lemma same_store_refl [simp]: "same_store rt rt"
  by (simp add: same_store_def)

lemma same_trans: "same_state a b \<Longrightarrow> same_state b c \<Longrightarrow> same_state a c" "same_store a b \<Longrightarrow> same_store b c \<Longrightarrow> same_store a c"
  by (simp_all add: same_state_def same_store_def)

lemma commit_durable_same:
  assumes "commit_durable ops rt key ms = (rt', r)"
  shows "same_state rt rt'"
  using assms by (auto simp: commit_durable_def same_state_def split: sum.splits prod.splits)

lemma enqueue_execution_same:
  assumes "enqueue_execution rt item = (rt', r)"
  shows "same_state rt rt' \<and> same_store rt rt'"
  using assms
  by (auto simp: enqueue_execution_def same_state_def same_store_def split: sum.splits prod.splits PushError.splits)

lemma emit_execution_same:
  assumes "emit_execution rt event = (rt', r)"
  shows "same_state rt rt' \<and> same_store rt rt'"
  using assms by (auto simp: emit_execution_def same_state_def same_store_def split: sum.splits prod.splits)

lemma emit_completed_same:
  assumes "emit_completed rt t a = (rt', r)"
  shows "same_state rt rt' \<and> same_store rt rt'"
proof -
  obtain rt1 r1 where e: "emit_execution rt (TaskCompleted (rt_run_id rt) t a) = (rt1, r1)" by fastforce
  show ?thesis
  proof (cases r1)
    case (Inl x)
    then show ?thesis using assms e emit_execution_same [OF e] by (simp add: emit_completed_def)
  next
    case (Inr item)
    then have "enqueue_execution rt1 item = (rt', r)" using assms e by (simp add: emit_completed_def)
    then show ?thesis using emit_execution_same [OF e] enqueue_execution_same by (blast intro: same_trans)
  qed
qed

text \<open>The three ends of a completion: refused by the workflow, refused by the store, committed.\<close>

lemma complete_task_cases:
  assumes "complete_task ops rt t a = (rt', r)"
  obtains (refused) e where "complete (rt_workflow rt) t = (rt_workflow rt, Inl e)" "rt' = rt" "r = Inl (RuntimeWorkflow e)"
  | (store) w c e where "complete (rt_workflow rt) t = (w, Inr c)"
      "commit_durable ops rt (''completion:'' @ as_str t @ '':'' @ AttemptId_as_str a)
         [RecordCompletion \<lparr>dc_task_id = t, dc_attempt_id = a\<rparr>] = (rt', Inl e)" "r = Inl e"
  | (committed) w c v rt1 where "complete (rt_workflow rt) t = (w, Inr c)"
      "commit_durable ops rt (''completion:'' @ as_str t @ '':'' @ AttemptId_as_str a)
         [RecordCompletion \<lparr>dc_task_id = t, dc_attempt_id = a\<rparr>] = (rt1, Inr v)"
      "same_state (rt1\<lparr>rt_workflow := w\<rparr>) rt'" "same_store rt1 rt'"
proof (cases "complete (rt_workflow rt) t")
  case (Pair w out)
  show thesis
  proof (cases out)
    case (Inl e)
    have "w = rt_workflow rt" using Pair Inl by (auto simp: complete_def Let_def split: if_splits option.splits)
    then show thesis using refused assms Pair Inl by (simp add: complete_task_def)
  next
    case (Inr c)
    let ?com = "commit_durable ops rt (''completion:'' @ as_str t @ '':'' @ AttemptId_as_str a)
         [RecordCompletion \<lparr>dc_task_id = t, dc_attempt_id = a\<rparr>]"
    note g = Pair [unfolded Inr]
    show thesis
    proof (cases "snd ?com")
      case (Inl e)
      then have "?com = (rt', Inl e)" "r = Inl e"
        using assms g by (cases ?com; simp add: complete_task_def)+
      then show thesis using store g by blast
    next
      case (Inr v)
      then obtain rt1 where com: "?com = (rt1, Inr v)" by (metis prod.collapse)
      then have "emit_completed (rt1\<lparr>rt_workflow := w\<rparr>) t a = (rt', r)"
        using assms g by (simp add: complete_task_def)
      then show thesis using committed [OF g com] emit_completed_same by (fastforce simp: same_store_def)
    qed
  qed
qed

lemma AttemptId_new_name [simp]: "AttemptId_new (attempt_name run n) = Inr (AttemptId (Id (attempt_name run n)))"
proof -
  have "\<not> trim_is_empty (attempt_name run n)"
    by (rule visible_not_blank [of "CHR ''-''"]) (simp_all add: attempt_name_def byte_of_def)
  then show ?thesis by (simp add: AttemptId_new_def Id_new_def)
qed

text \<open>The ends of a started attempt; in the last four the admission was committed.\<close>

lemma publish_started_cases:
  assumes "publish_started rt a = (rt', r)"
  obtains (stream) e where "r = Inl (RuntimeStream e)" "same_state rt rt'" "same_store rt rt'"
  | (queued) "r = Inr (ta_attempt_id a)" "same_state (rt\<lparr>rt_attempts := rt_attempts rt @ [a]\<rparr>) rt'" "same_store rt rt'"
  | (held) item where "r = Inl (ExecutionBackpressure item)"
      "same_state (rt\<lparr>rt_pending_started := Some (a, item)\<rparr>) rt'" "same_store rt rt'"
proof -
  let ?e = "emit_execution rt (TaskStarted (rt_run_id rt) (ta_task_id a) (ta_attempt_id a))"
  obtain rt1 r1 where e: "?e = (rt1, r1)" by fastforce
  note same = emit_execution_same [OF e]
  show thesis
  proof (cases r1)
    case (Inl x)
    then obtain x' where "x = RuntimeStream x'"
      using e by (auto simp: emit_execution_def split: prod.splits sum.splits)
    then have "rt' = rt1" "r = Inl (RuntimeStream x')" using assms e Inl by (simp_all add: publish_started_def)
    then show thesis using stream same by blast
  next
    case (Inr item)
    obtain rt2 r2 where q: "enqueue_execution rt1 item = (rt2, r2)" by fastforce
    note same2 = enqueue_execution_same [OF q]
    have both: "same_state rt rt2" "same_store rt rt2" using same same2 by (blast intro: same_trans)+
    have r2: "r2 = Inr () \<or> (\<exists>i. r2 = Inl (ExecutionBackpressure i))"
      using q by (auto simp: enqueue_execution_def split: prod.splits sum.splits PushError.splits)
    then show thesis
    proof
      assume "r2 = Inr ()"
      then have "rt' = rt2\<lparr>rt_attempts := rt_attempts rt2 @ [a]\<rparr>" "r = Inr (ta_attempt_id a)"
        using assms e Inr q by (simp_all add: publish_started_def)
      then show thesis using queued both by (simp add: same_state_def same_store_def)
    next
      assume "\<exists>i. r2 = Inl (ExecutionBackpressure i)"
      then obtain i where "r2 = Inl (ExecutionBackpressure i)" ..
      then have "rt' = rt2\<lparr>rt_pending_started := Some (a, i)\<rparr>" "r = Inl (ExecutionBackpressure i)"
        using assms e Inr q by (simp_all add: publish_started_def)
      then show thesis using held both by (simp add: same_state_def same_store_def)
    qed
  qed
qed

definition new_attempt :: "('v, 'st) Runtime \<Rightarrow> Id \<Rightarrow> OperationId option \<Rightarrow> 'v CapabilityPin list \<Rightarrow> 'v TaskAttempt" where
  "new_attempt rt task_id operation_id pins =
     \<lparr>ta_run_id = rt_run_id rt, ta_task_id = task_id,
      ta_attempt_id = AttemptId (Id (attempt_name (rt_run_id rt) (rt_next_attempt_number rt))),
      ta_operation_id = operation_id, ta_capability_pins = pins\<rparr>"

lemma begin_attempt_cases:
  assumes "begin_attempt ops rt t x = (rt', r)"
  obtains (pins) e where "capture_capability_pins rt t None = Inl e" "rt' = rt" "r = Inl e"
  | (store) ps a e where "capture_capability_pins rt t None = Inr ps" "a = new_attempt rt t x ps"
      "commit_durable ops rt (''admit:'' @ AttemptId_as_str (ta_attempt_id a)) [AdmitAttempt (attempt_admission a)] = (rt', Inl e)"
      "r = Inl e"
  | (exhausted) ps a v where "capture_capability_pins rt t None = Inr ps" "a = new_attempt rt t x ps"
      "commit_durable ops rt (''admit:'' @ AttemptId_as_str (ta_attempt_id a)) [AdmitAttempt (attempt_admission a)] = (rt', Inr v)"
      "checked_add_u64 (rt_next_attempt_number rt) 1 = None" "r = Inl AttemptIdExhausted"
  | (admitted) ps a v rt1 n where "capture_capability_pins rt t None = Inr ps" "a = new_attempt rt t x ps"
      "commit_durable ops rt (''admit:'' @ AttemptId_as_str (ta_attempt_id a)) [AdmitAttempt (attempt_admission a)] = (rt1, Inr v)"
      "checked_add_u64 (rt_next_attempt_number rt) 1 = Some n"
      "publish_started (rt1\<lparr>rt_next_attempt_number := n\<rparr>) a = (rt', r)"
proof (cases "capture_capability_pins rt t None")
  case (Inl e)
  then show thesis using pins assms by (simp add: begin_attempt_def)
next
  case (Inr ps)
  define a where "a = new_attempt rt t x ps"
  let ?com = "commit_durable ops rt (''admit:'' @ AttemptId_as_str (ta_attempt_id a)) [AdmitAttempt (attempt_admission a)]"
  have run: "and_then ?com (\<lambda>rt _. case checked_add_u64 (rt_next_attempt_number rt) 1 of
      None \<Rightarrow> (rt, Inl AttemptIdExhausted) | Some n \<Rightarrow> publish_started (rt\<lparr>rt_next_attempt_number := n\<rparr>) a) = (rt', r)"
    using assms unfolding begin_attempt_def a_def new_attempt_def by (simp add: Inr Let_def)
  obtain rt1 r1 where com: "?com = (rt1, r1)" by fastforce
  have next1: "rt_next_attempt_number rt1 = rt_next_attempt_number rt"
    using commit_durable_same [OF com] by (simp add: same_state_def)
  show thesis
  proof (cases r1)
    case (Inl e)
    then show thesis using store [OF \<open>_ = Inr ps\<close> a_def] com run by simp
  next
    case (Inr v)
    show thesis
    proof (cases "checked_add_u64 (rt_next_attempt_number rt) 1")
      case None
      then show thesis using exhausted [OF \<open>_ = Inr ps\<close> a_def _ None] com run Inr next1 by simp
    next
      case (Some n)
      then show thesis using admitted [OF \<open>_ = Inr ps\<close> a_def _ Some] com run Inr next1 by simp
    qed
  qed
qed

lemma begin_attempt_workflow:
  assumes "begin_attempt ops rt t x = (rt', r)"
  shows "rt_workflow rt' = rt_workflow rt"
  using assms
proof (cases rule: begin_attempt_cases)
  case (admitted ps a v rt1 n)
  have "rt_workflow rt1 = rt_workflow rt" using commit_durable_same [OF admitted(3)] by (simp add: same_state_def)
  with admitted(5) show ?thesis by (cases rule: publish_started_cases) (simp_all add: same_state_def)
qed (auto dest: commit_durable_same simp: same_state_def)

lemma attempt_or_begin_workflow:
  "attempt_or_begin ops rt t x = (rt', r) \<Longrightarrow> rt_workflow rt' = rt_workflow rt"
  by (auto simp: attempt_or_begin_def dest: begin_attempt_workflow split: option.splits)

lemma record_effect_intent_workflow:
  assumes "record_effect_intent ops rt t x k = (rt', r)"
  shows "rt_workflow rt' = rt_workflow rt"
proof -
  let ?c = "commit_durable ops rt (''intent:'' @ OperationId_as_str x)
      [RecordIntent \<lparr>ei_task_id = t, ei_operation_id = x, ei_semantics = k\<rparr>]"
  obtain rt1 r1 where c: "?c = (rt1, r1)" by fastforce
  then have "rt_workflow rt1 = rt_workflow rt" by (auto dest: commit_durable_same simp: same_state_def)
  then show ?thesis
    using assms c by (cases r1) (auto simp: record_effect_intent_def Let_def split: if_splits sum.splits)
qed

lemma ensure_configured_effect_workflow:
  assumes "ensure_configured_effect ops rt t = (rt', r)"
  shows "rt_workflow rt' = rt_workflow rt"
proof -
  have "rt_workflow rt1 = rt_workflow rt" if "record_effect_intent ops rt t x k = (rt1, r1)" for rt1 r1 x k
    using that by (rule record_effect_intent_workflow)
  then show ?thesis
    using assms
    by (auto simp: ensure_configured_effect_def and_then_def split: option.splits sum.splits prod.splits)
qed

subsection \<open>The loop ends\<close>

lemma complete_step_task_completed:
  assumes "complete_step_task ops t rt a = (rt', Inr res)"
  shows "res = StepCompleted t a" and "\<exists>c. complete (rt_workflow rt) t = (rt_workflow rt', Inr c)"
proof -
  obtain x where run: "complete_task ops rt t a = (rt', Inr x)" and res: "res = StepCompleted t a"
    using assms by (auto simp: complete_step_task_def elim!: and_then_Inr)
  show "res = StepCompleted t a" by (rule res)
  from run show "\<exists>c. complete (rt_workflow rt) t = (rt_workflow rt', Inr c)"
    by (cases rule: complete_task_cases) (auto simp: same_state_def)
qed

lemma step_effect_completed:
  assumes "step_effect ops t rt x = (rt', Inr (StepCompleted t' a))"
  shows "t' = t \<and> (\<exists>c. complete (rt_workflow rt) t = (rt_workflow rt', Inr c))"
  using assms complete_step_task_completed [of ops t rt _ rt']
  by (auto simp: step_effect_def and_then_def
      split: RecoveredEffectState.splits KnownEffectOutcome.splits sum.splits prod.splits option.splits)

lemma step_task_completed:
  assumes "step_task ops rt t = (rt', Inr (StepCompleted t' a))"
  shows "t' = t \<and> (\<exists>c. complete (rt_workflow rt) t = (rt_workflow rt', Inr c))"
proof -
  obtain rt1 operation where e: "ensure_configured_effect ops rt t = (rt1, Inr operation)"
    and k: "(case operation of None \<Rightarrow> and_then (attempt_or_begin ops rt1 t None) (complete_step_task ops t)
          | Some (x, _) \<Rightarrow> step_effect ops t rt1 x) = (rt', Inr (StepCompleted t' a))"
    using assms unfolding step_task_def by (rule and_then_Inr)
  have w: "rt_workflow rt1 = rt_workflow rt" using e by (rule ensure_configured_effect_workflow)
  show ?thesis
  proof (cases operation)
    case None
    then obtain rt2 a' where "attempt_or_begin ops rt1 t None = (rt2, Inr a')"
      and fin: "complete_step_task ops t rt2 a' = (rt', Inr (StepCompleted t' a))"
      using k by (auto elim!: and_then_Inr)
    then have "rt_workflow rt2 = rt_workflow rt" using attempt_or_begin_workflow w by metis
    then show ?thesis using complete_step_task_completed [OF fin] by simp
  next
    case (Some y)
    then show ?thesis using k w step_effect_completed [of ops t rt1 "fst y" rt'] by (simp add: case_prod_beta)
  qed
qed

lemma runtime_step_completed:
  assumes "runtime_step ops rt = (rt', Inr (StepCompleted t a))"
  shows "\<exists>c. complete (rt_workflow rt) t = (rt_workflow rt', Inr c)"
  using assms step_task_completed [of ops rt _ rt' t a]
  by (auto simp: runtime_step_def split: option.splits)

text \<open>Every completed step finishes a task, so the loop of \<^verbatim>\<open>run_until_blocked\<close> ends.\<close>

function run_until_blocked :: "'st store_ops \<Rightarrow> ('v, 'st) Runtime \<Rightarrow> StepResult list \<Rightarrow>
    ('v, 'st) Runtime \<times> (RuntimeError + StepResult list)" where
  "run_until_blocked ops rt results =
     (case runtime_step ops rt of
        (rt', Inl e) \<Rightarrow> (rt', Inl e)
      | (rt', Inr (StepCompleted t a)) \<Rightarrow> run_until_blocked ops rt' (results @ [StepCompleted t a])
      | (rt', Inr result) \<Rightarrow> (rt', Inr (results @ [result])))"
  by pat_completeness auto

termination
proof (relation "measure (\<lambda>(ops, rt, results). card (unfinished (rt_workflow rt)))", goal_cases)
  case 1
  then show ?case by simp
next
  case (2 ops rt results rt' r res t a)
  then have "runtime_step ops rt = (rt', Inr (StepCompleted t a))" by simp
  then obtain c where "complete (rt_workflow rt) t = (rt_workflow rt', Inr c)"
    using runtime_step_completed by blast
  from complete_unfinished [OF this] have "card (unfinished (rt_workflow rt)) = Suc (card (unfinished (rt_workflow rt')))"
    by (simp add: finite_unfinished)
  then show ?case by simp
qed

declare run_until_blocked.simps [simp del]

section \<open>Observations\<close>

definition emit_progress :: "('v, 'st) Runtime \<Rightarrow> Id \<Rightarrow> u8 \<Rightarrow> ('v, 'st) Runtime \<times> (RuntimeError + unit)" where
  "emit_progress rt task_id progress =
     (case emit (rt_progress_sequencer rt) (TaskProgress task_id progress) of
        (q, Inl e) \<Rightarrow> (rt\<lparr>rt_progress_sequencer := q\<rparr>, Inl (RuntimeStream e))
      | (q, Inr item) \<Rightarrow>
          (case coalescing_try_push (rt_progress_events rt) \<lparr>ki_key = task_id, ki_item = item\<rparr> of
             (b, Inl _) \<Rightarrow> (rt\<lparr>rt_progress_sequencer := q, rt_progress_events := b\<rparr>, Inl ProgressBackpressure)
           | (b, Inr _) \<Rightarrow> (rt\<lparr>rt_progress_sequencer := q, rt_progress_events := b\<rparr>, Inr ())))"

definition emit_telemetry :: "('v, 'st) Runtime \<Rightarrow> string \<Rightarrow> ('v, 'st) Runtime \<times> (RuntimeError + unit)" where
  "emit_telemetry rt message =
     (case emit (rt_telemetry_sequencer rt) (Telemetry message) of
        (q, Inl e) \<Rightarrow> (rt\<lparr>rt_telemetry_sequencer := q\<rparr>, Inl (RuntimeStream e))
      | (q, Inr item) \<Rightarrow>
          (rt\<lparr>rt_telemetry_sequencer := q, rt_telemetry_events := fst (lossy_push (rt_telemetry_events rt) item)\<rparr>, Inr ()))"

definition drain_execution_events :: "('v, 'st) Runtime \<Rightarrow> ('v, 'st) Runtime \<times> RuntimeEvent StreamItem list" where
  "drain_execution_events rt =
     (let (b, items) = drain_lossless (rt_execution_events rt) in (rt\<lparr>rt_execution_events := b\<rparr>, items))"

definition retry_execution_event :: "('v, 'st) Runtime \<Rightarrow> RuntimeEvent StreamItem \<Rightarrow>
    ('v, 'st) Runtime \<times> (RuntimeError + unit)" where
  "retry_execution_event rt item =
     (case rt_pending_started rt of
        Some (a, pending_item) \<Rightarrow>
          (case enqueue_execution (rt\<lparr>rt_pending_started := None\<rparr>) pending_item of
             (rt, Inr _) \<Rightarrow> (rt\<lparr>rt_attempts := rt_attempts rt @ [a]\<rparr>, Inr ())
           | (rt, Inl e) \<Rightarrow> (rt\<lparr>rt_pending_started := Some (a, pending_item)\<rparr>, Inl e))
      | None \<Rightarrow> enqueue_execution rt item)"

definition drain_progress_events :: "('v, 'st) Runtime \<Rightarrow>
    ('v, 'st) Runtime \<times> (Id, RuntimeEvent) KeyedStreamItem list" where
  "drain_progress_events rt =
     (let (b, items) = drain_coalescing (rt_progress_events rt) in (rt\<lparr>rt_progress_events := b\<rparr>, items))"

definition drain_telemetry_events :: "('v, 'st) Runtime \<Rightarrow> ('v, 'st) Runtime \<times> RuntimeEvent StreamItem list" where
  "drain_telemetry_events rt =
     (let (b, items) = drain_lossy (rt_telemetry_events rt) in (rt\<lparr>rt_telemetry_events := b\<rparr>, items))"

end
