(* ===== verification/Runtime_Lifecycle.thy ===== *)
theory Runtime_Lifecycle
  imports Runtime_Operations
begin

text \<open>
  How a runtime comes to be (\<^verbatim>\<open>lib.rs\<close>): a fresh run or a restored one, from live objects or
  from a declarative definition, and the identity that ties a durable run to its inputs. The
  start functions consume the store, so they return the store they leave behind with their
  result; a restore only reads it.
\<close>

section \<open>Identities of a run\<close>

definition append_identity_part :: "string \<Rightarrow> string \<Rightarrow> string" where
  "append_identity_part canonical part = canonical @ '':'' @ decimal (length part) @ '':'' @ part"

definition append_required :: "string \<Rightarrow> Id \<times> string option \<Rightarrow> string" where
  "append_required canonical required =
     (case required of (capability_id, definition_identity) \<Rightarrow>
        let canonical = append_identity_part (append_identity_part canonical ''capability'') (as_str capability_id) in
        (case definition_identity of
           Some i \<Rightarrow> append_identity_part (append_identity_part canonical ''specified'') i
         | None \<Rightarrow> append_identity_part canonical ''unspecified''))"

definition append_effect :: "string \<Rightarrow> EffectSpec option \<Rightarrow> string" where
  "append_effect canonical effect =
     (case effect of
        Some e \<Rightarrow>
          append_identity_part
            (append_identity_part (append_identity_part canonical ''effect'') (OperationId_as_str (es_operation_id e)))
            (case es_semantics e of Idempotent \<Rightarrow> ''idempotent'' | NonIdempotent \<Rightarrow> ''non-idempotent'')
      | None \<Rightarrow> append_identity_part canonical ''no-effect'')"

definition append_task :: "(Id, TaskConfig) fmap \<Rightarrow> string \<Rightarrow> Task \<Rightarrow> string" where
  "append_task task_configs canonical t =
     (let canonical = append_identity_part canonical ''task'';
          canonical = append_identity_part canonical (as_str (t_id t));
          canonical = append_identity_part canonical (t_label t);
          canonical = append_identity_part canonical ''config''
      in (case fmlookup task_configs (t_id t) of
            Some config \<Rightarrow>
              append_effect (foldl append_required canonical (bm_items (tc_required_capabilities config))) (tc_effect config)
          | None \<Rightarrow> append_identity_part canonical ''no-effect''))"

definition append_edge :: "string \<Rightarrow> Id \<times> Id \<Rightarrow> string" where
  "append_edge canonical edge =
     append_identity_part (append_identity_part canonical (as_str (fst edge))) (as_str (snd edge))"

definition legacy_identity_text :: "WorkflowGraph \<Rightarrow> (Id, TaskConfig) fmap \<Rightarrow> string" where
  "legacy_identity_text workflow task_configs =
     (let canonical = append_identity_part ''kernis-workflow-replay-v1'' ''tasks'';
          canonical = foldl (append_task task_configs) canonical (topology_tasks (wg_topology workflow));
          canonical = append_identity_part canonical ''edges''
      in foldl append_edge canonical (graph_edges workflow))"

definition legacy_workflow_replay_identity :: "WorkflowGraph \<Rightarrow> (Id, TaskConfig) fmap \<Rightarrow>
    StoreError + WorkflowReplayIdentity" where
  "legacy_workflow_replay_identity workflow task_configs =
     WorkflowReplayIdentity_new (legacy_identity_text workflow task_configs)"

definition LEGACY_RUN_DEFINITION_FORMAT_V1 :: string where
  "LEGACY_RUN_DEFINITION_FORMAT_V1 = ''kernis-run-definition-v1''"

definition starts_with :: "string \<Rightarrow> string \<Rightarrow> bool" where
  "starts_with s p \<longleftrightarrow> take (length p) s = p"

definition is_legacy_run_definition_identity :: "string \<Rightarrow> bool" where
  "is_legacy_run_definition_identity i \<longleftrightarrow>
     i = LEGACY_RUN_DEFINITION_FORMAT_V1 \<or> starts_with i (LEGACY_RUN_DEFINITION_FORMAT_V1 @ '':'')"

definition ensure_restorable_definition_identity ::
    "WorkflowReplayIdentity \<Rightarrow> WorkflowReplayIdentity option \<Rightarrow> RuntimeError + unit" where
  "ensure_restorable_definition_identity computed durable =
     (case durable of
        None \<Rightarrow> Inl (DefinitionMismatch computed None)
      | Some durable \<Rightarrow>
          if is_legacy_run_definition_identity (replay_identity_str durable) then
            Inl (LegacyDefinitionIdentityUnsupported durable RUN_DEFINITION_FORMAT)
          else if durable \<noteq> computed then Inl (DefinitionMismatch computed (Some durable))
          else Inr ())"

section \<open>Inputs\<close>

definition ensure_unfinished_workflow :: "WorkflowGraph \<Rightarrow> RuntimeError + unit" where
  "ensure_unfinished_workflow workflow =
     (case ef_completion_log (wg_facts workflow) of
        [] \<Rightarrow> Inr ()
      | completion # _ \<Rightarrow> Inl (PrecompletedWorkflow (cr_task_id completion)))"

definition collect_task_config :: "WorkflowGraph \<Rightarrow> (Id, TaskConfig) fmap \<Rightarrow> Id \<times> TaskConfig \<Rightarrow>
    RuntimeError + (Id, TaskConfig) fmap" where
  "collect_task_config workflow configs entry =
     (if graph_task workflow (fst entry) = None then Inl (RuntimeUnknownTask (fst entry))
      else Inr (fmupd (fst entry) (snd entry) configs))"

definition collect_task_configs :: "WorkflowGraph \<Rightarrow> (Id \<times> TaskConfig) list \<Rightarrow>
    RuntimeError + (Id, TaskConfig) fmap" where
  "collect_task_configs workflow task_configs = try_fold (collect_task_config workflow) fmempty task_configs"

definition definition_task_config :: "TaskDefinition \<Rightarrow> TaskConfig" where
  "definition_task_config t =
     (let config = fold (\<lambda>requirement c. require_capability_with_identity c (cq_capability_id requirement)
                           (identity_str (cq_definition_identity requirement)))
                     (td_required_capabilities t) TaskConfig_new
      in (case td_effect t of
            None \<Rightarrow> config
          | Some effect \<Rightarrow> config_with_effect config (es_operation_id effect) (es_semantics effect)))"

definition runtime_inputs :: "ValidatedRunDefinition \<Rightarrow> RuntimeError + WorkflowGraph \<times> (Id, TaskConfig) fmap" where
  "runtime_inputs d =
     (let mutations = definition_mutations (vd_tasks d);
          task_configs = fold (\<lambda>t m. fmupd (td_id t) (definition_task_config t) m) (bm_values (vd_tasks d)) fmempty;
          workflow = WorkflowGraph_default
      in if mutations = [] then Inr (workflow, task_configs)
         else
           (case apply_batch workflow (wg_topology_revision workflow) (MutationBatch_from_mutations mutations) of
              (_, Inl e) \<Rightarrow> Inl (RuntimeWorkflow e)
            | (workflow, Inr _) \<Rightarrow> Inr (workflow, task_configs)))"

text \<open>One turn of the loop of \<^verbatim>\<open>reconstruct_scope\<close>: look up, then publish through the factory.\<close>

definition publish_declared :: "ValidatedRunDefinition \<Rightarrow> 'v constructor FactoryRegistry \<Rightarrow> 'v scopes \<Rightarrow> Id \<Rightarrow>
    RuntimeError + 'v scopes" where
  "publish_declared d factories st capability_id =
     (case fmlookup (vd_capabilities d) capability_id of
        None \<Rightarrow> Inl (RuntimeReconstruction (ReconstructionInvariantViolation
                 (''resolved unknown capability '' @ as_str capability_id)))
      | Some c \<Rightarrow>
          (case factory_for factories (cl_id c) (cl_definition_identity c) of
             None \<Rightarrow> Inl (RuntimeReconstruction (ReconstructionInvariantViolation
                      (''prevalidated factory disappeared for capability '' @ as_str (cl_id c) @
                       '' definition '' @ identity_str (cl_definition_identity c))))
           | Some factory \<Rightarrow>
               (case scope_provide st [] (declared_capability c) factory of
                  (st, Inr _) \<Rightarrow> Inr st
                | (st, Inl (ScopeError.ConstructionFailed _ reason)) \<Rightarrow>
                    Inl (RuntimeFactory (FactoryResolutionError.ConstructionFailed (cl_id c) (cl_definition_identity c) reason))
                | (st, Inl e) \<Rightarrow> Inl (RuntimeReconstruction (CapabilityPublication (cl_id c) e)))))"

definition reconstruct_scope :: "u64 \<Rightarrow> ValidatedRunDefinition \<Rightarrow> 'v constructor FactoryRegistry \<Rightarrow>
    RuntimeError + 'v scopes" where
  "reconstruct_scope next_entry_id d factories =
     (case resolve (declared_graph (vd_capabilities d)) of
        Inl e \<Rightarrow> Inl (RuntimeReconstruction (ReconstructionCapabilityGraph e))
      | Inr resolution \<Rightarrow>
          try_fold (publish_declared d factories) (scope_root next_entry_id) (rg_construction_order resolution))"

section \<open>Starting\<close>

definition runtime_build :: "RunId \<Rightarrow> WorkflowGraph \<Rightarrow> 'v scopes \<Rightarrow> scope \<Rightarrow> (Id, TaskConfig) fmap \<Rightarrow> DurableJournal \<Rightarrow>
    'st \<Rightarrow> StoreRevision \<Rightarrow> RuntimeError + ('v, 'st) Runtime" where
  "runtime_build run_id workflow scopes scope task_configs journal store revision =
     (case (LosslessBuffer_new 128, CoalescingBuffer_new 8, LossyBuffer_new 1) of
        (Inr execution_events, Inr progress_events, Inr telemetry_events) \<Rightarrow>
          Inr \<lparr>rt_run_id = run_id, rt_workflow = workflow, rt_scopes = scopes, rt_context = context_from_scope scope,
               rt_journal = journal, rt_store = store, rt_store_revision = revision,
               rt_identity_provenance = LegacyLiveObject, rt_task_configs = task_configs, rt_attempts = [],
               rt_pending_started = None, rt_cancelled = {||}, rt_next_attempt_number = 1,
               rt_execution_sequencer = StreamSequencer_new (Id ''runtime-events''),
               rt_progress_sequencer = StreamSequencer_new (Id ''runtime-progress''),
               rt_telemetry_sequencer = StreamSequencer_new (Id ''runtime-telemetry''),
               rt_execution_events = execution_events, rt_progress_events = progress_events,
               rt_telemetry_events = telemetry_events\<rparr>
      | _ \<Rightarrow> Inl RuntimePanic)"

text \<open>The revision a new run starts from: a fresh run, or one that was created and never used.\<close>

definition created_revision :: "'st store_ops \<Rightarrow> 'st \<Rightarrow> RunId \<Rightarrow> 'st \<times> (RuntimeError + StoreRevision)" where
  "created_revision ops store run_id =
     (case so_create_run ops store run_id of
        (store, Inr revision) \<Rightarrow> (store, Inr revision)
      | (store, Inl (RunAlreadyExists existing)) \<Rightarrow>
          (case so_load_run ops store run_id of
             Inl e \<Rightarrow> (store, Inl (RuntimeStore e))
           | Inr s \<Rightarrow>
               if \<not> is_pristine_bootstrap s then (store, Inl (RuntimeStore (RunAlreadyExists existing)))
               else (store, Inr StoreRevision_INITIAL))
      | (store, Inl e) \<Rightarrow> (store, Inl (RuntimeStore e)))"

definition start_with_identity :: "'st store_ops \<Rightarrow> RunId \<Rightarrow> WorkflowGraph \<Rightarrow> 'v scopes \<Rightarrow> scope \<Rightarrow>
    (Id, TaskConfig) fmap \<Rightarrow> WorkflowReplayIdentity \<Rightarrow> IdentityProvenance \<Rightarrow> 'st \<Rightarrow>
    'st \<times> (RuntimeError + ('v, 'st) Runtime)" where
  "start_with_identity ops run_id workflow scopes scope task_configs replay_identity provenance store =
     (case ensure_unfinished_workflow workflow of
        Inl e \<Rightarrow> (store, Inl e)
      | Inr _ \<Rightarrow>
          and_then (created_revision ops store run_id)
            (\<lambda>store created.
               case IdempotencyKey_new ''workflow-replay-identity'' of
                 Inl e \<Rightarrow> (store, Inl (RuntimeStore e))
               | Inr key \<Rightarrow>
                   (case so_commit ops store
                           (CommitRequest_single run_id created key (RecordWorkflowReplayIdentity replay_identity)) of
                      (store, Inl e) \<Rightarrow> (store, Inl (RuntimeStore e))
                    | (store, Inr result) \<Rightarrow>
                        (case runtime_build run_id workflow scopes scope task_configs DurableJournal_new store
                                (cm_revision result) of
                           Inl e \<Rightarrow> (store, Inl e)
                         | Inr rt \<Rightarrow> (store, Inr (rt\<lparr>rt_identity_provenance := provenance\<rparr>))))))"

definition start_run_with_store :: "'st store_ops \<Rightarrow> RunId \<Rightarrow> WorkflowGraph \<Rightarrow> 'v scopes \<Rightarrow> scope \<Rightarrow>
    (Id \<times> TaskConfig) list \<Rightarrow> 'st \<Rightarrow> 'st \<times> (RuntimeError + ('v, 'st) Runtime)" where
  "start_run_with_store ops run_id workflow scopes scope task_configs store =
     (case ensure_unfinished_workflow workflow of
        Inl e \<Rightarrow> (store, Inl e)
      | Inr _ \<Rightarrow>
          (case collect_task_configs workflow task_configs of
             Inl e \<Rightarrow> (store, Inl e)
           | Inr configs \<Rightarrow>
               (case legacy_workflow_replay_identity workflow configs of
                  Inl e \<Rightarrow> (store, Inl (RuntimeStore e))
                | Inr i \<Rightarrow> start_with_identity ops run_id workflow scopes scope configs i LegacyLiveObject store)))"

definition start_from_definition_with_store :: "'st store_ops \<Rightarrow> u64 \<Rightarrow> RunId \<Rightarrow> RunDefinition \<Rightarrow>
    'v constructor FactoryRegistry \<Rightarrow> 'st \<Rightarrow> 'st \<times> (RuntimeError + ('v, 'st) Runtime)" where
  "start_from_definition_with_store ops next_entry_id run_id d factories store =
     (case validated d of
        Inl e \<Rightarrow> (store, Inl (RuntimeDefinition e))
      | Inr v \<Rightarrow>
          (case registry_validate factories v of
             Inl e \<Rightarrow> (store, Inl (RuntimeFactory e))
           | Inr _ \<Rightarrow>
               (case runtime_inputs v of
                  Inl e \<Rightarrow> (store, Inl e)
                | Inr (workflow, configs) \<Rightarrow>
                    (case reconstruct_scope next_entry_id v factories of
                       Inl e \<Rightarrow> (store, Inl e)
                     | Inr scopes \<Rightarrow>
                         start_with_identity ops run_id workflow scopes [] configs (vd_identity v)
                           DeclarativeDefinition store))))"

text \<open>The two constructors over a fresh in-memory store.\<close>

definition memory_ops :: "binding_encoder \<Rightarrow> InMemoryDurableStore store_ops" where
  "memory_ops enc = \<lparr>so_create_run = memory_create_run, so_load_run = memory_load_run, so_commit = memory_commit enc\<rparr>"

definition start_run :: "binding_encoder \<Rightarrow> RunId \<Rightarrow> WorkflowGraph \<Rightarrow> 'v scopes \<Rightarrow> scope \<Rightarrow> (Id \<times> TaskConfig) list \<Rightarrow>
    InMemoryDurableStore \<times> (RuntimeError + ('v, InMemoryDurableStore) Runtime)" where
  "start_run enc run_id workflow scopes scope task_configs =
     start_run_with_store (memory_ops enc) run_id workflow scopes scope task_configs InMemoryDurableStore_new"

definition start_from_definition :: "binding_encoder \<Rightarrow> u64 \<Rightarrow> RunId \<Rightarrow> RunDefinition \<Rightarrow> 'v constructor FactoryRegistry \<Rightarrow>
    InMemoryDurableStore \<times> (RuntimeError + ('v, InMemoryDurableStore) Runtime)" where
  "start_from_definition enc next_entry_id run_id d factories =
     start_from_definition_with_store (memory_ops enc) next_entry_id run_id d factories InMemoryDurableStore_new"

section \<open>Restoring\<close>

text \<open>\<^verbatim>\<open>to_string\<close> of a workflow error.\<close>

fun join_path :: "Id list \<Rightarrow> string" where
  "join_path [] = []"
| "join_path [i] = as_str i"
| "join_path (i # is) = as_str i @ '' -> '' @ join_path is"

fun workflow_error_text :: "WorkflowGraphError \<Rightarrow> string" where
  "workflow_error_text (UnknownTask i) = ''unknown task: '' @ as_str i"
| "workflow_error_text (DuplicateTask i) = ''duplicate task identity: '' @ as_str i"
| "workflow_error_text (DuplicateDependency t d) =
     ''duplicate dependency: '' @ as_str t @ '' already depends on '' @ as_str d"
| "workflow_error_text (Cycle path) = ''workflow dependency cycle: '' @ join_path path"
| "workflow_error_text (CompletedTaskMutation i) =
     ''completed task cannot have its definition or prerequisites changed: '' @ as_str i"
| "workflow_error_text (TaskAlreadyCompleted i) = ''task is already completed: '' @ as_str i"
| "workflow_error_text (IncompletePrerequisite t d) =
     ''cannot complete '' @ as_str t @ ''; prerequisite is incomplete: '' @ as_str d"
| "workflow_error_text (RevisionConflict expected actual) =
     ''workflow topology revision conflict: expected '' @ decimal (unat (revision_get expected)) @
     '', actual '' @ decimal (unat (revision_get actual))"
| "workflow_error_text EmptyMutationBatch = ''workflow mutation batch is empty''"
| "workflow_error_text (RevisionExhausted current) =
     ''workflow topology revision exhausted at '' @ decimal (unat (revision_get current))"
| "workflow_error_text (ReplayRevisionMismatch expected actual) =
     ''workflow replay revision mismatch: expected '' @ decimal (unat (revision_get expected)) @
     '', record has '' @ decimal (unat (revision_get actual))"
| "workflow_error_text WorkflowPanic = []"

fun replay_invariant :: "WorkflowGraphError \<Rightarrow> StoreInvariant" where
  "replay_invariant (UnknownTask i) = CompletionUnknownTask i"
| "replay_invariant (IncompletePrerequisite t d) = CompletionPrerequisiteMismatch t d"
| "replay_invariant (TaskAlreadyCompleted i) =
     CompletionReplayRejected (Some i) ''task completion was replayed twice''"
| "replay_invariant e = CompletionReplayRejected None (workflow_error_text e)"

definition replay_workflow :: "WorkflowGraph \<Rightarrow> DurableCompletion list \<Rightarrow> RuntimeError + WorkflowGraph" where
  "replay_workflow supplied durable_completions =
     (case replay_with_facts (wg_mutation_log supplied)
             (map (\<lambda>c. \<lparr>cr_task_id = dc_task_id c\<rparr>) durable_completions) of
        Inl WorkflowPanic \<Rightarrow> Inl RuntimePanic
      | Inl e \<Rightarrow> Inl (RuntimeStore (InvariantViolation (replay_invariant e)))
      | Inr g \<Rightarrow> Inr g)"

definition restore_attempt :: "('v, 'st) Runtime \<Rightarrow> AttemptAdmission \<Rightarrow> RuntimeError + ('v, 'st) Runtime" where
  "restore_attempt rt admission =
     (case capture_capability_pins rt (aa_task_id admission) (Some (aa_capabilities admission)) of
        Inl e \<Rightarrow> Inl e
      | Inr pins \<Rightarrow>
          Inr (rt\<lparr>rt_attempts := rt_attempts rt @
            [\<lparr>ta_run_id = aa_run_id admission, ta_task_id = aa_task_id admission,
              ta_attempt_id = aa_attempt_id admission, ta_operation_id = aa_operation_id admission,
              ta_capability_pins = pins\<rparr>]\<rparr>))"

text \<open>The attempt counter is a 64-bit sum; an overflow is a panic of a checked build.\<close>

definition restore_loaded :: "RunId \<Rightarrow> WorkflowGraph \<Rightarrow> 'v scopes \<Rightarrow> scope \<Rightarrow> (Id, TaskConfig) fmap \<Rightarrow> 'st \<Rightarrow>
    IdentityProvenance \<Rightarrow> DurableRunState \<Rightarrow> RuntimeError + ('v, 'st) Runtime" where
  "restore_loaded run_id workflow scopes scope task_configs store provenance s =
     (case replay_workflow workflow (ds_completion_history s) of
        Inl e \<Rightarrow> Inl e
      | Inr workflow \<Rightarrow>
          (case from_durable_state s of
             Inl e \<Rightarrow> Inl (RuntimeJournal e)
           | Inr journal \<Rightarrow>
               (case runtime_build run_id workflow scopes scope task_configs journal store (ds_revision s) of
                  Inl e \<Rightarrow> Inl e
                | Inr rt \<Rightarrow>
                    (case try_fold restore_attempt
                            (rt\<lparr>rt_identity_provenance := provenance,
                                rt_cancelled := fold (\<lambda>c m. finsert (ca_task_id c) m) (ds_cancellations_values s) {||}\<rparr>)
                            (ds_admission_history s) of
                       Inl e \<Rightarrow> Inl e
                     | Inr rt \<Rightarrow>
                         (case checked_add_u64 (word_of_nat (length (ds_admission_history s))) 1 of
                            None \<Rightarrow> Inl RuntimePanic
                          | Some n \<Rightarrow> Inr (rt\<lparr>rt_next_attempt_number := n\<rparr>))))))"

definition restore_run :: "'st store_ops \<Rightarrow> RunId \<Rightarrow> WorkflowGraph \<Rightarrow> 'v scopes \<Rightarrow> scope \<Rightarrow> (Id \<times> TaskConfig) list \<Rightarrow> 'st \<Rightarrow>
    RuntimeError + ('v, 'st) Runtime" where
  "restore_run ops run_id workflow scopes scope task_configs store =
     (case ensure_unfinished_workflow workflow of
        Inl e \<Rightarrow> Inl e
      | Inr _ \<Rightarrow>
          (case collect_task_configs workflow task_configs of
             Inl e \<Rightarrow> Inl e
           | Inr configs \<Rightarrow>
               (case so_load_run ops store run_id of
                  Inl e \<Rightarrow> Inl (RuntimeStore e)
                | Inr s \<Rightarrow>
                    (case legacy_workflow_replay_identity workflow configs of
                       Inl e \<Rightarrow> Inl (RuntimeStore e)
                     | Inr expected \<Rightarrow>
                         if ds_workflow_replay_identity s \<noteq> Some expected then
                           Inl (WorkflowReplayIdentityMismatch expected (ds_workflow_replay_identity s))
                         else restore_loaded run_id workflow scopes scope configs store LegacyLiveObject s))))"

definition restore_from_definition :: "'st store_ops \<Rightarrow> u64 \<Rightarrow> RunId \<Rightarrow> RunDefinition \<Rightarrow> 'v constructor FactoryRegistry \<Rightarrow>
    'st \<Rightarrow> RuntimeError + ('v, 'st) Runtime" where
  "restore_from_definition ops next_entry_id run_id d factories store =
     (case validated d of
        Inl e \<Rightarrow> Inl (RuntimeDefinition e)
      | Inr v \<Rightarrow>
          (case registry_validate factories v of
             Inl e \<Rightarrow> Inl (RuntimeFactory e)
           | Inr _ \<Rightarrow>
               (case so_load_run ops store run_id of
                  Inl e \<Rightarrow> Inl (RuntimeStore e)
                | Inr s \<Rightarrow>
                    (case ensure_restorable_definition_identity (vd_identity v) (ds_workflow_replay_identity s) of
                       Inl e \<Rightarrow> Inl e
                     | Inr _ \<Rightarrow>
                         (case runtime_inputs v of
                            Inl e \<Rightarrow> Inl e
                          | Inr (workflow, configs) \<Rightarrow>
                              (case reconstruct_scope next_entry_id v factories of
                                 Inl e \<Rightarrow> Inl e
                               | Inr scopes \<Rightarrow>
                                   restore_loaded run_id workflow scopes [] configs store DeclarativeDefinition s))))))"

section \<open>Mutations of a runtime over live objects\<close>

definition ensure_legacy_mutation_allowed :: "('v, 'st) Runtime \<Rightarrow> LegacyMutationOperation \<Rightarrow> RuntimeError + unit" where
  "ensure_legacy_mutation_allowed rt operation =
     (if rt_identity_provenance rt = DeclarativeDefinition then Inl (DeclarativeMutationUnsupported operation)
      else Inr ())"

definition configure_task :: "'st store_ops \<Rightarrow> ('v, 'st) Runtime \<Rightarrow> Id \<Rightarrow> TaskConfig \<Rightarrow>
    ('v, 'st) Runtime \<times> (RuntimeError + unit)" where
  "configure_task ops rt task_id config =
     (case ensure_legacy_mutation_allowed rt ConfigureTask of
        Inl e \<Rightarrow> (rt, Inl e)
      | Inr _ \<Rightarrow>
          if graph_task (rt_workflow rt) task_id = None then (rt, Inl (RuntimeUnknownTask task_id))
          else
            let candidate_configs = fmupd task_id config (rt_task_configs rt) in
            (case legacy_workflow_replay_identity (rt_workflow rt) candidate_configs of
               Inl e \<Rightarrow> (rt, Inl (RuntimeStore e))
             | Inr i \<Rightarrow>
                 and_then (commit_workflow_identity ops rt i)
                   (\<lambda>rt _. (rt\<lparr>rt_task_configs := candidate_configs\<rparr>, Inr ()))))"

definition apply_workflow_mutation :: "'st store_ops \<Rightarrow> ('v, 'st) Runtime \<Rightarrow> Revision \<Rightarrow> MutationBatch \<Rightarrow>
    ('v, 'st) Runtime \<times> (RuntimeError + WorkflowMutationRecord)" where
  "apply_workflow_mutation ops rt expected_revision batch =
     (case ensure_legacy_mutation_allowed rt ApplyWorkflowMutation of
        Inl e \<Rightarrow> (rt, Inl e)
      | Inr _ \<Rightarrow>
          (case apply_batch (rt_workflow rt) expected_revision batch of
             (_, Inl e) \<Rightarrow> (rt, Inl (RuntimeWorkflow e))
           | (candidate, Inr entry) \<Rightarrow>
               (case legacy_workflow_replay_identity candidate (rt_task_configs rt) of
                  Inl e \<Rightarrow> (rt, Inl (RuntimeStore e))
                | Inr i \<Rightarrow>
                    and_then (commit_workflow_identity ops rt i)
                      (\<lambda>rt _. (rt\<lparr>rt_workflow := candidate\<rparr>, Inr entry)))))"

end
