(* ===== verification/Runtime_Views.thy ===== *)
theory Runtime_Views
  imports Runtime_Lifecycle
begin

text \<open>
  What ties the memory of a runtime to the durable state: every committed request is a
  recorded fact, and the journal that the runtime updates beside its commits is the journal a
  restart would rebuild.
\<close>

section \<open>Committed facts\<close>

fun fact_recorded :: "DurableRunState \<Rightarrow> DurableMutation \<Rightarrow> bool" where
  "fact_recorded s (RecordWorkflowReplayIdentity i) \<longleftrightarrow> True"
| "fact_recorded s (AdmitAttempt a) \<longleftrightarrow> fmlookup (ds_admissions s) (aa_attempt_id a) = Some a"
| "fact_recorded s (RecordIntent i) \<longleftrightarrow> fmlookup (ds_intents s) (ei_operation_id i) = Some i"
| "fact_recorded s (RecordCancellation c) \<longleftrightarrow> fmlookup (ds_cancellations s) (ca_task_id c) = Some c"
| "fact_recorded s (RecordDispatch d) \<longleftrightarrow> fmlookup (ds_dispatches s) (dr_attempt_id d) = Some d"
| "fact_recorded s (RecordOutcome out) \<longleftrightarrow>
     (\<exists>o'. fmlookup (ds_outcomes s) (or_attempt_id out) = Some o' \<and> or_outcome o' = or_outcome out)"
| "fact_recorded s (RecordCompletion c) \<longleftrightarrow> fmlookup (ds_completions s) (dc_task_id c) = Some c"

lemma fact_recorded_grow:
  assumes "facts_grow s s'" and "fact_recorded s m"
  shows "fact_recorded s' m"
  using assms(2) facts_grow_lookup [OF assms(1)] by (cases m) auto

lemma fact_recorded_with_ledger [simp]: "fact_recorded (with_ledger r l k s) m = fact_recorded s m"
  by (cases m) simp_all

lemma apply_durable_mutation_recorded:
  "apply_durable_mutation s m = Inr s' \<Longrightarrow> fact_recorded s' m"
  by (cases m) (auto simp: mutation_defs split: option.splits if_splits)

lemma apply_durable_mutations_recorded:
  "apply_durable_mutations s ms = Inr s' \<Longrightarrow> m \<in> set ms \<Longrightarrow> fact_recorded s' m"
proof (induction ms arbitrary: s)
  case Nil
  then show ?case by simp
next
  case (Cons x ms)
  then obtain t where t: "apply_durable_mutation s x = Inr t" "apply_durable_mutations t ms = Inr s'"
    by (auto simp: apply_durable_mutations_def split: sum.splits)
  then show ?case
    using Cons apply_durable_mutation_recorded [OF t(1)] apply_durable_mutations_grow [OF t(2)] fact_recorded_grow
    by auto
qed

lemma durable_reachable_recorded:
  assumes "durable_reachable enc s" and "fmlookup (ds_idempotency s) k = Some (ms, v)" and "m \<in> set ms"
  shows "fact_recorded s m"
  using assms
proof (induction arbitrary: k ms v m rule: durable_reachable.induct)
  case (create run_id)
  then show ?case by (simp add: DurableRunState_new_def)
next
  case (commit s request s' result)
  from commit.hyps(3) show ?case
  proof (cases rule: commit_state_cases)
    case replayed
    then show ?thesis using commit.IH commit.prems by simp
  next
    case (fresh revision candidate)
    obtain r l i where s': "s' = with_ledger r l i candidate"
      using fresh(6) record_commit_with_ledger by metis
    have idem: "ds_idempotency s' = fmupd (rq_idempotency_key request) (rq_mutations request, revision) (ds_idempotency s)"
      using fresh(6) apply_durable_mutations_ledger [OF fresh(5)] by (simp add: record_commit_def)
    show ?thesis
    proof (cases "k = rq_idempotency_key request")
      case True
      then have "m \<in> set (rq_mutations request)" using commit.prems idem by simp
      then show ?thesis using apply_durable_mutations_recorded [OF fresh(5)] s' by simp
    next
      case False
      then have "fact_recorded s m" using commit.IH commit.prems idem by simp
      then show ?thesis using fact_recorded_grow apply_durable_mutations_grow [OF fresh(5)] s' by simp
    qed
  qed
qed

text \<open>Identifiers of recorded facts are never blank.\<close>

definition facts_valid :: "DurableRunState \<Rightarrow> bool" where
  "facts_valid s \<longleftrightarrow> valid_run (ds_run_id s) \<and>
     (\<forall>a\<in>set (ds_admission_history s). valid_mutation (AdmitAttempt a)) \<and>
     (\<forall>x i. fmlookup (ds_intents s) x = Some i \<longrightarrow> valid_mutation (RecordIntent i))"

lemma apply_durable_mutation_valid:
  assumes "facts_valid s" and "valid_mutation m" and "apply_durable_mutation s m = Inr s'"
  shows "facts_valid s'"
proof (cases m)
  case (AdmitAttempt a)
  then show ?thesis using assms by (auto simp: facts_valid_def admit_attempt_def split: if_splits)
next
  case (RecordIntent i)
  then show ?thesis
    using assms by (auto simp: facts_valid_def record_intent_def split: option.splits if_splits)
next
  case (RecordWorkflowReplayIdentity i)
  then show ?thesis using assms by (auto simp: facts_valid_def record_replay_identity_def split: if_splits)
next
  case (RecordCancellation c)
  then show ?thesis
    using assms by (auto simp: facts_valid_def record_cancellation_def split: option.splits if_splits)
next
  case (RecordDispatch d)
  then show ?thesis using assms by (auto simp: facts_valid_def record_dispatch_def split: option.splits if_splits)
next
  case (RecordOutcome out)
  then show ?thesis using assms by (auto simp: facts_valid_def record_outcome_def split: option.splits if_splits)
next
  case (RecordCompletion c)
  then show ?thesis
    using assms by (auto simp: facts_valid_def record_completion_def insert_completion_def split: option.splits if_splits)
qed

lemma durable_reachable_valid: "durable_reachable enc s \<Longrightarrow> facts_valid s"
proof (induction rule: durable_reachable.induct)
  case (create run_id)
  then show ?case by (simp add: facts_valid_def DurableRunState_new_def)
next
  case (commit s request s' result)
  from commit.hyps(3) show ?case
  proof (cases rule: commit_state_cases)
    case replayed
    then show ?thesis using commit.IH by simp
  next
    case (fresh revision candidate)
    have "facts_valid candidate \<and> list_all valid_mutation (rq_mutations request)"
      using fresh(5) commit.IH commit.hyps(2) unfolding apply_durable_mutations_def
    proof (induction "rq_mutations request" arbitrary: s request)
      case Nil
      then show ?case by (simp add: valid_request_def valid_batch_def)
    next
      case (Cons x ms)
      let ?q = "request\<lparr>rq_mutations := ms\<rparr>"
      obtain t where t: "apply_durable_mutation s x = Inr t" "try_fold apply_durable_mutation t ms = Inr candidate"
        using Cons.prems(1) Cons.hyps(2) [symmetric] by (auto split: sum.splits)
      have valid: "list_all valid_mutation (x # ms)"
        using Cons.prems(3) Cons.hyps(2) by (simp add: valid_request_def valid_batch_def)
      then have "facts_valid t" using apply_durable_mutation_valid [OF Cons.prems(2) _ t(1)] by simp
      moreover have "valid_request ?q"
        using Cons.prems(3) valid by (simp add: valid_request_def valid_batch_def)
      ultimately show ?case using Cons.hyps(1) [of ?q t] t(2) valid Cons.hyps(2) by simp
    qed
    then show ?thesis using fresh(6) by (simp add: facts_valid_def record_commit_def)
  qed
qed

section \<open>The journal mirrors the durable state\<close>

definition journal_mirror :: "DurableJournal \<Rightarrow> DurableRunState \<Rightarrow> bool" where
  "journal_mirror j s \<longleftrightarrow>
     journal_views j s \<and> jr_task_operations j = ds_task_operations s \<and>
     (\<forall>x. fmlookup (jr_operation_attempts j) x \<noteq> Some [])"

lemma journal_mirror_unique:
  assumes "journal_mirror j s" and "journal_mirror j' s"
  shows "j = j'"
proof -
  have "fmlookup (jr_operation_attempts j) x = fmlookup (jr_operation_attempts j') x" for x
  proof -
    have "attempts_entry j x = attempts_entry j' x" using assms by (simp add: journal_mirror_def journal_views_def)
    moreover have "fmlookup (jr_operation_attempts j) x \<noteq> Some []" "fmlookup (jr_operation_attempts j') x \<noteq> Some []"
      using assms by (simp_all add: journal_mirror_def)
    ultimately show ?thesis by (auto simp: attempts_entry_def split: option.splits)
  qed
  then have "jr_operation_attempts j = jr_operation_attempts j'" by (rule fmap_ext)
  then show ?thesis
    using assms by (cases j; cases j') (simp add: journal_mirror_def journal_views_def)
qed

text \<open>The task index of a journal is determined by its intents.\<close>

definition task_index_ok :: "DurableJournal \<Rightarrow> bool" where
  "task_index_ok j \<longleftrightarrow>
     (\<forall>t x. fmlookup (jr_task_operations j) t = Some x \<longleftrightarrow>
        (\<exists>i. fmlookup (jr_intents j) x = Some i \<and> ei_task_id i = t)) \<and>
     (\<forall>x. fmlookup (jr_operation_attempts j) x \<noteq> Some [])"

lemma persist_keeps_task_index:
  "task_index_ok j \<Longrightarrow> persist_intent j i = Inr j' \<Longrightarrow> task_index_ok j'"
  "task_index_ok j \<Longrightarrow> persist_dispatch j d = Inr j' \<Longrightarrow> task_index_ok j'"
  "task_index_ok j \<Longrightarrow> persist_outcome j out = Inr j' \<Longrightarrow> task_index_ok j'"
proof -
  assume ok: "task_index_ok j" and run: "persist_intent j i = Inr j'"
  have fresh: "fmlookup (jr_intents j) (ei_operation_id i) = None" "fmlookup (jr_task_operations j) (ei_task_id i) = None"
    and j': "j' = j\<lparr>jr_task_operations := fmupd (ei_task_id i) (ei_operation_id i) (jr_task_operations j),
        jr_intents := fmupd (ei_operation_id i) i (jr_intents j)\<rparr>"
    using run by (auto simp: persist_intent_def contains_key_def split: if_splits option.splits)
  have "\<not> (\<exists>x i'. fmlookup (jr_intents j) x = Some i' \<and> ei_task_id i' = ei_task_id i)"
    using ok fresh(2) unfolding task_index_ok_def by (metis option.distinct(1))
  then show "task_index_ok j'"
    using ok fresh unfolding j' task_index_ok_def by auto
next
  show "task_index_ok j \<Longrightarrow> persist_dispatch j d = Inr j' \<Longrightarrow> task_index_ok j'"
    by (auto simp: task_index_ok_def persist_dispatch_def split: if_splits)
next
  show "task_index_ok j \<Longrightarrow> persist_outcome j out = Inr j' \<Longrightarrow> task_index_ok j'"
    by (auto simp: task_index_ok_def persist_outcome_def split: if_splits option.splits)
qed

lemma from_durable_state_task_index:
  assumes "from_durable_state s = Inr j"
  shows "task_index_ok j"
proof -
  obtain j1 j2 where j: "try_fold persist_intent DurableJournal_new (ds_intents_values s) = Inr j1"
    "try_fold persist_dispatch j1 (ds_dispatch_history s) = Inr j2"
    "try_fold persist_outcome j2 (ds_outcome_history s) = Inr j"
    using assms by (auto simp: from_durable_state_def split: sum.splits)
  have new: "task_index_ok DurableJournal_new" by (simp add: task_index_ok_def DurableJournal_new_def)
  have ok1: "task_index_ok j1"
    using j(1) by (rule try_fold_invariant [where P = task_index_ok, rotated 2]) (auto simp: new intro: persist_keeps_task_index)
  have ok2: "task_index_ok j2"
    using j(2) by (rule try_fold_invariant [where P = task_index_ok, rotated 2]) (auto simp: ok1 intro: persist_keeps_task_index)
  show ?thesis
    using j(3) by (rule try_fold_invariant [where P = task_index_ok, rotated 2]) (auto simp: ok2 intro: persist_keeps_task_index)
qed

lemma task_index_mirror:
  assumes "task_index_ok j" and "journal_views j s" and "lineage s"
  shows "journal_mirror j s"
proof -
  have "fmlookup (jr_task_operations j) t = Some x \<longleftrightarrow> fmlookup (ds_task_operations s) t = Some x" for t x
    using assms by (auto simp: task_index_ok_def journal_views_def lineage_def intents_ok_def)
  then have "jr_task_operations j = ds_task_operations s" by (intro fmap_ext) (metis not_Some_eq)
  then show ?thesis using assms by (simp add: journal_mirror_def task_index_ok_def)
qed

lemma mirror_rebuild:
  assumes "lineage s"
  shows "from_durable_state s = Inr j \<longleftrightarrow> journal_mirror j s"
proof -
  obtain k where k: "from_durable_state s = Inr k" "journal_views k s"
    using from_durable_state_views [OF assms] by blast
  then have "journal_mirror k s" using task_index_mirror from_durable_state_task_index assms by blast
  then show ?thesis using k(1) journal_mirror_unique by auto
qed

lemma journal_mirror_with_ledger [simp]: "journal_mirror j (with_ledger r l m s) = journal_mirror j s"
  by (simp add: journal_mirror_def journal_views_def dispatches_of_def)

lemma journal_mirror_new: "journal_mirror DurableJournal_new (DurableRunState_new r)"
  by (simp add: journal_mirror_def journal_views_def DurableJournal_new_def DurableRunState_new_def
      attempts_entry_def dispatches_of_def)

text \<open>The facts of a journal are written on both sides; the other facts on one.\<close>

lemma mirror_intent:
  assumes "journal_mirror j s" and "persist_intent j i = Inr j'" and "record_intent s i = Inr s'"
  shows "journal_mirror j' s'"
proof -
  have fresh: "fmlookup (jr_intents j) (ei_operation_id i) = None"
    and j': "j' = j\<lparr>jr_task_operations := fmupd (ei_task_id i) (ei_operation_id i) (jr_task_operations j),
      jr_intents := fmupd (ei_operation_id i) i (jr_intents j)\<rparr>"
    using assms(2) by (auto simp: persist_intent_def contains_key_def split: if_splits option.splits)
  have "fmlookup (ds_intents s) (ei_operation_id i) = None"
    using fresh assms(1) by (simp add: journal_mirror_def journal_views_def)
  then have s': "s' = s\<lparr>ds_task_operations := fmupd (ei_task_id i) (ei_operation_id i) (ds_task_operations s),
      ds_intents := fmupd (ei_operation_id i) i (ds_intents s)\<rparr>"
    using assms(3) by (auto simp: record_intent_def split: option.splits)
  show ?thesis
    using assms(1) unfolding journal_mirror_def journal_views_def j' s'
    by (simp add: attempts_entry_def dispatches_of_def)
qed

lemma mirror_dispatch:
  assumes "journal_mirror j s" and "persist_dispatch j d = Inr j'" and "record_dispatch s d = Inr s'"
  shows "journal_mirror j' s'"
proof -
  have j': "j' = j\<lparr>jr_operation_attempts := fmupd (dr_operation_id d) (attempts_entry j (dr_operation_id d) @ [dr_attempt_id d])
      (jr_operation_attempts j), jr_dispatches := fmupd (dr_attempt_id d) d (jr_dispatches j)\<rparr>"
    using assms(2) by (auto simp: persist_dispatch_def split: if_splits)
  have s': "s' = s\<lparr>ds_dispatches := fmupd (dr_attempt_id d) d (ds_dispatches s),
      ds_dispatch_history := ds_dispatch_history s @ [d]\<rparr>"
    using assms(3) by (auto simp: record_dispatch_def split: option.splits if_splits)
  show ?thesis
    using assms(1) unfolding journal_mirror_def journal_views_def j' s'
    by (simp add: attempts_entry_def dispatches_of_def)
qed

lemma mirror_outcome:
  assumes "journal_mirror j s" and "persist_outcome j out = Inr j'" and "record_outcome s out = Inr s'"
  shows "journal_mirror j' s'"
proof (cases "fmlookup (ds_outcomes s) (or_attempt_id out)")
  case None
  then have "fmlookup (jr_outcomes j) (or_attempt_id out) = None"
    using assms(1) by (simp add: journal_mirror_def journal_views_def)
  then have j': "j' = j\<lparr>jr_outcomes := fmupd (or_attempt_id out) out (jr_outcomes j)\<rparr>"
    using assms(2) by (auto simp: persist_outcome_def split: if_splits option.splits)
  have s': "s' = s\<lparr>ds_outcomes := fmupd (or_attempt_id out) out (ds_outcomes s),
      ds_outcome_history := ds_outcome_history s @ [out]\<rparr>"
    using None assms(3) by (auto simp: record_outcome_def split: if_splits option.splits)
  show ?thesis
    using assms(1) unfolding journal_mirror_def journal_views_def j' s'
    by (simp add: attempts_entry_def dispatches_of_def)
next
  case (Some known)
  then have "fmlookup (jr_outcomes j) (or_attempt_id out) = Some known"
    using assms(1) by (simp add: journal_mirror_def journal_views_def)
  then have "j' = j" using assms(2) by (auto simp: persist_outcome_def split: if_splits option.splits)
  moreover have "s' = s" using Some assms(3) by (auto simp: record_outcome_def split: if_splits option.splits)
  ultimately show ?thesis using assms(1) by simp
qed

lemma mirror_other:
  assumes "journal_mirror j s" and "apply_durable_mutation s m = Inr s'"
    and "case m of RecordIntent _ \<Rightarrow> False | RecordDispatch _ \<Rightarrow> False | RecordOutcome _ \<Rightarrow> False | _ \<Rightarrow> True"
  shows "journal_mirror j s'"
  using assms
  by (cases m) (auto simp: journal_mirror_def journal_views_def mutation_defs dispatches_of_def
      split: if_splits option.splits)

end
