(* ===== verification/Runtime_Invariant.thy ===== *)
theory Runtime_Invariant
  imports Runtime_Views
begin

text \<open>
  The invariant of a runtime: its memory is a view of the durable state of its run. The store
  is any implementation of the trait \<^verbatim>\<open>DurableStore\<close>, through the locale \<open>durable_store\<close>.
\<close>

section \<open>What one commit does\<close>

text \<open>
  A successful commit of one mutation under a key: a replay of the same request, which changes
  nothing, or the mutation applied and indexed under the key at the next revision.
\<close>

definition committed :: "DurableRunState \<Rightarrow> string \<Rightarrow> DurableMutation \<Rightarrow> DurableRunState \<Rightarrow> bool" where
  "committed s key m s' \<longleftrightarrow>
     (s' = s \<and> fact_recorded s m \<and> contains_key (ds_idempotency s) (IdempotencyKey key)) \<or>
     (\<not> contains_key (ds_idempotency s) (IdempotencyKey key) \<and>
      (\<exists>c v l. apply_durable_mutation s m = Inr c \<and>
         unat (store_revision_get v) = Suc (unat (store_revision_get (ds_revision s))) \<and>
         s' = with_ledger v l (fmupd (IdempotencyKey key) ([m], v) (ds_idempotency s)) c))"

lemma committed_cases:
  assumes "committed s key m s'"
  obtains (replay) "s' = s" "fact_recorded s m" "contains_key (ds_idempotency s) (IdempotencyKey key)"
  | (fresh) c v l where "apply_durable_mutation s m = Inr c"
      "unat (store_revision_get v) = Suc (unat (store_revision_get (ds_revision s)))"
      "s' = with_ledger v l (fmupd (IdempotencyKey key) ([m], v) (ds_idempotency s)) c"
  using assms by (auto simp: committed_def)

lemma commit_state_committed:
  assumes reach: "durable_reachable enc s"
    and run: "commit_state enc s q = Inr (s', result)"
    and q: "rq_idempotency_key q = IdempotencyKey key" "rq_mutations q = [m]"
  shows "committed s key m s'" and "cm_revision result = ds_revision s'"
proof -
  have "committed s key m s' \<and> cm_revision result = ds_revision s'"
    using run
  proof (cases rule: commit_state_cases)
    case (replayed r)
    then have "fact_recorded s m" using durable_reachable_recorded [OF reach] q by simp
    then show ?thesis using replayed q by (simp add: committed_def contains_key_def)
  next
    case (fresh v c)
    have c: "apply_durable_mutation s m = Inr c"
      using fresh(5) q(2) by (auto simp: apply_durable_mutations_def split: sum.splits)
    have "s' = with_ledger v (ds_commit_ledger c @ [\<lparr>le_idempotency_key = IdempotencyKey key, le_mutations = [m],
        le_revision = v, le_binding = commit_binding enc (IdempotencyKey key) [m] v\<rparr>])
        (fmupd (IdempotencyKey key) ([m], v) (ds_idempotency s)) c"
      using fresh(6) q apply_durable_mutations_ledger [OF fresh(5)] by (simp add: record_commit_def with_ledger_def)
    moreover have "unat (store_revision_get v) = Suc (unat (store_revision_get (ds_revision s)))"
      using store_revision.step_Some [OF fresh(4)] .
    ultimately show ?thesis using c fresh q(1) unfolding committed_def by (auto simp: contains_key_def)
  qed
  then show "committed s key m s'" "cm_revision result = ds_revision s'" by simp_all
qed

lemma committed_frame:
  assumes "committed s key m s'"
  shows "ds_run_id s' = ds_run_id s" and "facts_grow s s'"
  using assms
  by (cases rule: committed_cases; auto dest: apply_durable_mutation_ledger apply_durable_mutation_grows)+

section \<open>The view\<close>

definition known_attempts :: "('v, 'st) Runtime \<Rightarrow> 'v TaskAttempt list" where
  "known_attempts rt = rt_attempts rt @ (case rt_pending_started rt of None \<Rightarrow> [] | Some (a, _) \<Rightarrow> [a])"

definition attempt_id_at :: "RunId \<Rightarrow> nat \<Rightarrow> AttemptId" where
  "attempt_id_at run k = AttemptId (Id (RunId_as_str run @ ''-attempt-'' @ decimal k))"

lemma attempt_id_at_inject [simp]: "attempt_id_at run k = attempt_id_at run k' \<longleftrightarrow> k = k'"
  by (simp add: attempt_id_at_def)

text \<open>Attempts are numbered from one in the order of their admission, and the counter is ahead of them.\<close>

definition attempts_numbered :: "DurableRunState \<Rightarrow> u64 \<Rightarrow> bool" where
  "attempts_numbered s n \<longleftrightarrow>
     map aa_attempt_id (ds_admission_history s) =
       map (attempt_id_at (ds_run_id s)) [1..<Suc (length (ds_admission_history s))] \<and>
     (unat n = Suc (length (ds_admission_history s)) \<or>
      n = u64_max \<and> length (ds_admission_history s) = unat n)"

definition identity_keys_old :: "DurableRunState \<Rightarrow> bool" where
  "identity_keys_old s \<longleftrightarrow>
     (\<forall>n rest. contains_key (ds_idempotency s) (IdempotencyKey (''workflow-identity:'' @ decimal n @ CHR '':'' # rest)) \<longrightarrow>
        n < unat (store_revision_get (ds_revision s)))"

definition dispatched_once :: "DurableRunState \<Rightarrow> bool" where
  "dispatched_once s \<longleftrightarrow>
     (\<forall>x i. fmlookup (ds_intents s) x = Some i \<longrightarrow> ei_semantics i = NonIdempotent \<longrightarrow> length (dispatches_of s x) \<le> 1)"

text \<open>An admission lists the identities of its capabilities in the order of their identifiers.\<close>

definition pins_ordered :: "DurableRunState \<Rightarrow> bool" where
  "pins_ordered s \<longleftrightarrow>
     list_all (\<lambda>adm. sorted_wrt (<) (map cri_capability_id (aa_capabilities adm))) (ds_admission_history s)"

definition valid_config :: "TaskConfig \<Rightarrow> bool" where
  "valid_config c \<longleftrightarrow>
     (\<forall>i. contains_key (tc_required_capabilities c) i \<longrightarrow> valid_id i) \<and>
     (\<forall>e. tc_effect c = Some e \<longrightarrow> valid_id (operation_id_of (es_operation_id e)))"

definition valid_inputs :: "WorkflowGraph \<Rightarrow> (Id, TaskConfig) fmap \<Rightarrow> bool" where
  "valid_inputs g configs \<longleftrightarrow>
     (\<forall>t. graph_task g t \<noteq> None \<longrightarrow> valid_id t) \<and> (\<forall>t c. fmlookup configs t = Some c \<longrightarrow> valid_config c)"

definition runtime_view :: "binding_encoder \<Rightarrow> ('v, 'st) Runtime \<Rightarrow> DurableRunState \<Rightarrow> bool" where
  "runtime_view enc rt s \<longleftrightarrow>
     durable_reachable enc s \<and> ds_run_id s = rt_run_id rt \<and> ds_revision s = rt_store_revision rt \<and>
     journal_mirror (rt_journal rt) s \<and>
     reachable_graph (rt_workflow rt) \<and>
     completion_ids (wg_facts (rt_workflow rt)) = map dc_task_id (ds_completion_history s) \<and>
     rt_cancelled rt = fmdom (ds_cancellations s) \<and>
     attempt_admission ` set (known_attempts rt) \<subseteq> set (ds_admission_history s) \<and>
     attempts_numbered s (rt_next_attempt_number rt) \<and>
     identity_keys_old s \<and> dispatched_once s \<and> pins_ordered s \<and> valid_inputs (rt_workflow rt) (rt_task_configs rt) \<and>
     (rt_identity_provenance rt = LegacyLiveObject \<longrightarrow>
        ds_workflow_replay_identity s =
          Some (WorkflowReplayIdentity (legacy_identity_text (rt_workflow rt) (rt_task_configs rt))))"

lemma view_lineage: "runtime_view enc rt s \<Longrightarrow> lineage s"
  unfolding runtime_view_def by (blast intro: durable_reachable_lineage)

lemma view_facts_valid: "runtime_view enc rt s \<Longrightarrow> facts_valid s"
  unfolding runtime_view_def by (blast intro: durable_reachable_valid)

text \<open>The view does not look at the event streams or at the scopes.\<close>

lemma view_same:
  assumes "same_state rt rt'" and "rt_store_revision rt' = rt_store_revision rt"
  shows "runtime_view enc rt' s \<longleftrightarrow> runtime_view enc rt s"
  using assms by (simp add: runtime_view_def same_state_def known_attempts_def)

lemma identity_keys_committed:
  assumes "identity_keys_old s" and "committed s key m s'"
    and "\<And>n rest. key = ''workflow-identity:'' @ decimal n @ CHR '':'' # rest \<Longrightarrow>
      n \<le> unat (store_revision_get (ds_revision s))"
  shows "identity_keys_old s'"
  using assms(2)
proof (cases rule: committed_cases)
  case replay
  then show ?thesis using assms(1) by simp
next
  case (fresh c v l)
  show ?thesis
    unfolding identity_keys_old_def
  proof (intro allI impI)
    fix n rest
    let ?k = "''workflow-identity:'' @ decimal n @ CHR '':'' # rest"
    assume "contains_key (ds_idempotency s') (IdempotencyKey ?k)"
    then have "?k = key \<or> contains_key (ds_idempotency s) (IdempotencyKey ?k)"
      using fresh(3) by (auto simp: contains_key_def split: if_splits)
    then have "n \<le> unat (store_revision_get (ds_revision s))"
      using assms(1,3) by (auto simp: identity_keys_old_def)
    then show "n < unat (store_revision_get (ds_revision s'))" using fresh by simp
  qed
qed

text \<open>The keys of the other commits are no identity keys.\<close>

definition plain_key :: "string \<Rightarrow> bool" where
  "plain_key key \<longleftrightarrow> (\<exists>c rest. key = c # rest \<and> c \<noteq> CHR ''w'')"

lemma plain_keys [simp]:
  "plain_key (''intent:'' @ x)" "plain_key (''admit:'' @ x)" "plain_key (''dispatch:'' @ x)"
  "plain_key (''outcome:'' @ x)" "plain_key (''cancel:'' @ x)" "plain_key (''completion:'' @ x)"
  by (simp_all add: plain_key_def)

lemma identity_keys_plain:
  assumes "identity_keys_old s" and "committed s key m s'" and "plain_key key"
  shows "identity_keys_old s'"
  using assms(1,2) by (rule identity_keys_committed) (use assms(3) in \<open>auto simp: plain_key_def\<close>)

lemma no_intent_no_dispatch:
  assumes "lineage s" and "fmlookup (ds_intents s) x = None"
  shows "dispatches_of s x = []"
proof -
  have "dr_operation_id d \<noteq> x" if "d \<in> set (ds_dispatch_history s)" for d
    using assms that by (auto simp: lineage_def list_all_iff dispatch_ok_def)
  then show ?thesis by (auto simp: dispatches_of_def filter_empty_conv)
qed

section \<open>Each commit keeps the view\<close>

lemma view_intent:
  assumes view: "runtime_view enc rt s" and com: "committed s key (RecordIntent i) s'"
    and reach: "durable_reachable enc s'" and key: "plain_key key"
    and journal: "persist_intent (rt_journal rt) i = Inr j"
  shows "runtime_view enc (rt\<lparr>rt_store_revision := ds_revision s', rt_journal := j\<rparr>) s'"
proof -
  have mirror: "journal_mirror (rt_journal rt) s" using view by (simp add: runtime_view_def)
  have none: "fmlookup (ds_intents s) (ei_operation_id i) = None"
    using journal mirror
    by (auto simp: persist_intent_def contains_key_def journal_mirror_def journal_views_def split: if_splits)
  have keys: "identity_keys_old s'" using view identity_keys_plain [OF _ com key] by (simp add: runtime_view_def)
  from com show ?thesis
  proof (cases rule: committed_cases)
    case replay
    then show ?thesis using none by simp
  next
    case (fresh c v l)
    then have c: "record_intent s i = Inr c" by simp
    then have c': "c = s\<lparr>ds_task_operations := fmupd (ei_task_id i) (ei_operation_id i) (ds_task_operations s),
        ds_intents := fmupd (ei_operation_id i) i (ds_intents s)\<rparr>"
      using none by (auto simp: record_intent_def split: option.splits)
    have "journal_mirror j s'" using mirror_intent [OF mirror journal c] fresh(3) by simp
    moreover have "dispatched_once s'"
      using view no_intent_no_dispatch [OF view_lineage [OF view] none] fresh(3)
      by (auto simp: runtime_view_def dispatched_once_def c' dispatches_of_def)
    ultimately show ?thesis
      using view reach keys fresh(3) by (simp add: runtime_view_def c' known_attempts_def attempts_numbered_def pins_ordered_def)
  qed
qed

lemma view_dispatch:
  assumes view: "runtime_view enc rt s" and com: "committed s key (RecordDispatch d) s'"
    and reach: "durable_reachable enc s'" and key: "plain_key key"
    and journal: "persist_dispatch (rt_journal rt) d = Inr j"
    and once: "\<And>i. fmlookup (ds_intents s) (dr_operation_id d) = Some i \<Longrightarrow> ei_semantics i = NonIdempotent \<Longrightarrow>
      dispatches_of s (dr_operation_id d) = []"
  shows "runtime_view enc (rt\<lparr>rt_store_revision := ds_revision s', rt_journal := j\<rparr>) s'"
    and "ds_dispatch_history s' = ds_dispatch_history s @ [d]" and "\<not> is_cancelled s (aa_task_id (the (fmlookup (ds_admissions s) (dr_attempt_id d))))"
proof -
  have mirror: "journal_mirror (rt_journal rt) s" using view by (simp add: runtime_view_def)
  have none: "fmlookup (ds_dispatches s) (dr_attempt_id d) = None"
    using journal mirror
    by (auto simp: persist_dispatch_def contains_key_def journal_mirror_def journal_views_def split: if_splits)
  have keys: "identity_keys_old s'" using view identity_keys_plain [OF _ com key] by (simp add: runtime_view_def)
  have "runtime_view enc (rt\<lparr>rt_store_revision := ds_revision s', rt_journal := j\<rparr>) s' \<and>
      ds_dispatch_history s' = ds_dispatch_history s @ [d] \<and>
      \<not> is_cancelled s (aa_task_id (the (fmlookup (ds_admissions s) (dr_attempt_id d))))"
    using com
  proof (cases rule: committed_cases)
    case replay
    then show ?thesis using none by simp
  next
    case (fresh c v l)
    then have c: "record_dispatch s d = Inr c" by simp
    then have c': "c = s\<lparr>ds_dispatches := fmupd (dr_attempt_id d) d (ds_dispatches s),
        ds_dispatch_history := ds_dispatch_history s @ [d]\<rparr>"
      and live: "\<not> is_cancelled s (aa_task_id (the (fmlookup (ds_admissions s) (dr_attempt_id d))))"
      using none by (auto simp: record_dispatch_def is_cancelled_def contains_key_def split: option.splits if_splits)
    have "journal_mirror j s'" using mirror_dispatch [OF mirror journal c] fresh(3) by simp
    moreover have "dispatched_once s'"
      using view once fresh(3) by (auto simp: runtime_view_def dispatched_once_def c' dispatches_of_def)
    ultimately show ?thesis
      using view reach keys fresh(3) live by (simp add: runtime_view_def c' known_attempts_def attempts_numbered_def pins_ordered_def)
  qed
  then show "runtime_view enc (rt\<lparr>rt_store_revision := ds_revision s', rt_journal := j\<rparr>) s'"
    "ds_dispatch_history s' = ds_dispatch_history s @ [d]"
    "\<not> is_cancelled s (aa_task_id (the (fmlookup (ds_admissions s) (dr_attempt_id d))))" by simp_all
qed

lemma view_outcome:
  assumes view: "runtime_view enc rt s" and com: "committed s key (RecordOutcome out) s'"
    and reach: "durable_reachable enc s'" and key: "plain_key key"
    and journal: "persist_outcome (rt_journal rt) out = Inr j"
  shows "runtime_view enc (rt\<lparr>rt_store_revision := ds_revision s', rt_journal := j\<rparr>) s'"
proof -
  have mirror: "journal_mirror (rt_journal rt) s" using view by (simp add: runtime_view_def)
  have keys: "identity_keys_old s'" using view identity_keys_plain [OF _ com key] by (simp add: runtime_view_def)
  from com show ?thesis
  proof (cases rule: committed_cases)
    case replay
    then have "j = rt_journal rt"
      using mirror journal
      by (auto simp: persist_outcome_def journal_mirror_def journal_views_def split: if_splits option.splits)
    then show ?thesis using view replay by (simp add: runtime_view_def known_attempts_def)
  next
    case (fresh c v l)
    then have c: "record_outcome s out = Inr c" by simp
    have "journal_mirror j s'" using mirror_outcome [OF mirror journal c] fresh(3) by simp
    moreover have "ds_run_id c = ds_run_id s" "ds_admission_history c = ds_admission_history s"
      "ds_completion_history c = ds_completion_history s" "ds_cancellations c = ds_cancellations s"
      "ds_intents c = ds_intents s" "ds_dispatch_history c = ds_dispatch_history s"
      "ds_workflow_replay_identity c = ds_workflow_replay_identity s"
      using c by (auto simp: record_outcome_def split: option.splits if_splits)
    ultimately show ?thesis
      using view reach keys fresh(3)
      by (simp add: runtime_view_def known_attempts_def attempts_numbered_def pins_ordered_def dispatched_once_def dispatches_of_def)
  qed
qed

lemma view_cancellation:
  assumes view: "runtime_view enc rt s" and com: "committed s key (RecordCancellation x) s'"
    and reach: "durable_reachable enc s'" and key: "plain_key key"
  shows "runtime_view enc (rt\<lparr>rt_store_revision := ds_revision s',
      rt_cancelled := finsert (ca_task_id x) (rt_cancelled rt)\<rparr>) s'"
proof -
  have mirror: "journal_mirror (rt_journal rt) s" using view by (simp add: runtime_view_def)
  have keys: "identity_keys_old s'" using view identity_keys_plain [OF _ com key] by (simp add: runtime_view_def)
  from com show ?thesis
  proof (cases rule: committed_cases)
    case replay
    then have "ca_task_id x |\<in>| fmdom (ds_cancellations s)" by (auto intro: fmdomI)
    then show ?thesis using view replay by (simp add: runtime_view_def known_attempts_def finsert_absorb)
  next
    case (fresh c v l)
    then have "journal_mirror (rt_journal rt) s'" using mirror_other [OF mirror fresh(1)] by simp
    moreover have "ds_run_id c = ds_run_id s" "ds_admission_history c = ds_admission_history s"
      "ds_completion_history c = ds_completion_history s" "ds_intents c = ds_intents s"
      "ds_dispatch_history c = ds_dispatch_history s" "ds_workflow_replay_identity c = ds_workflow_replay_identity s"
      using fresh(1) by (auto simp: record_cancellation_def split: option.splits if_splits)
    moreover have "fmdom (ds_cancellations c) = finsert (ca_task_id x) (fmdom (ds_cancellations s))"
      using fresh(1) by (auto simp: record_cancellation_def intro: fmdomI split: option.splits if_splits)
    ultimately show ?thesis
      using view reach keys fresh(3)
      by (simp add: runtime_view_def known_attempts_def attempts_numbered_def pins_ordered_def dispatched_once_def dispatches_of_def)
  qed
qed

lemma view_completed_iff:
  assumes "runtime_view enc rt s"
  shows "graph_is_completed (rt_workflow rt) t \<longleftrightarrow> fmlookup (ds_completions s) t \<noteq> None"
proof -
  have "wf_facts (wg_topology (rt_workflow rt)) (wg_facts (rt_workflow rt))"
    using assms reachable_graph_wf by (auto simp: runtime_view_def wf_graph_def)
  then have "graph_is_completed (rt_workflow rt) t \<longleftrightarrow> t \<in> dc_task_id ` set (ds_completion_history s)"
    using assms by (simp add: runtime_view_def graph_is_completed_def wf_facts_is_completed)
  moreover have "indexed dc_task_id (ds_completions s) (ds_completion_history s)"
    using view_lineage [OF assms] by (simp add: lineage_def)
  ultimately show ?thesis by (auto simp: indexed_def)
qed

lemma view_completion:
  assumes view: "runtime_view enc rt s" and com: "committed s key (RecordCompletion x) s'"
    and reach: "durable_reachable enc s'" and key: "plain_key key"
    and step: "complete (rt_workflow rt) (dc_task_id x) = (w, Inr r)"
  shows "runtime_view enc (rt\<lparr>rt_store_revision := ds_revision s', rt_workflow := w\<rparr>) s'"
    and "ds_completion_history s' = ds_completion_history s @ [x]"
proof -
  have mirror: "journal_mirror (rt_journal rt) s" using view by (simp add: runtime_view_def)
  have keys: "identity_keys_old s'" using view identity_keys_plain [OF _ com key] by (simp add: runtime_view_def)
  have w: "w = (rt_workflow rt)\<lparr>wg_facts := (wg_facts (rt_workflow rt))\<lparr>
      ef_completed := finsert (dc_task_id x) (ef_completed (wg_facts (rt_workflow rt))),
      ef_completion_log := ef_completion_log (wg_facts (rt_workflow rt)) @ [\<lparr>cr_task_id = dc_task_id x\<rparr>]\<rparr>\<rparr>"
    and open_task: "\<not> graph_is_completed (rt_workflow rt) (dc_task_id x)"
    using step by (auto simp: complete_def graph_is_completed_def Let_def split: if_splits option.splits)
  have graph: "reachable_graph w" using view step by (auto simp: runtime_view_def intro: reachable_graph.completion)
  have none: "fmlookup (ds_completions s) (dc_task_id x) = None" using open_task view_completed_iff [OF view] by simp
  have "runtime_view enc (rt\<lparr>rt_store_revision := ds_revision s', rt_workflow := w\<rparr>) s' \<and>
      ds_completion_history s' = ds_completion_history s @ [x]"
    using com
  proof (cases rule: committed_cases)
    case replay
    then show ?thesis using none by simp
  next
    case (fresh c v l)
    then have "journal_mirror (rt_journal rt) s'" using mirror_other [OF mirror fresh(1)] by simp
    moreover have "c = s\<lparr>ds_completions := fmupd (dc_task_id x) x (ds_completions s),
        ds_completion_history := ds_completion_history s @ [x]\<rparr>"
      using fresh(1) none
      by (auto simp: record_completion_def insert_completion_def split: option.splits if_splits)
    ultimately show ?thesis
      using view reach keys fresh(3) graph
      by (simp add: runtime_view_def known_attempts_def attempts_numbered_def pins_ordered_def dispatched_once_def dispatches_of_def
          w completion_ids_def valid_inputs_def graph_task_def legacy_identity_text_def graph_edges_def)
  qed
  then show "runtime_view enc (rt\<lparr>rt_store_revision := ds_revision s', rt_workflow := w\<rparr>) s'"
    "ds_completion_history s' = ds_completion_history s @ [x]" by simp_all
qed

lemma view_identity:
  assumes view: "runtime_view enc rt s"
    and com: "committed s (''workflow-identity:'' @ decimal (unat (store_revision_get (ds_revision s))) @ CHR '':'' # rest)
      (RecordWorkflowReplayIdentity (WorkflowReplayIdentity (legacy_identity_text w configs))) s'"
    and reach: "durable_reachable enc s'" and graph: "reachable_graph w" and inputs: "valid_inputs w configs"
    and facts: "completion_ids (wg_facts w) = completion_ids (wg_facts (rt_workflow rt))"
  shows "runtime_view enc (rt\<lparr>rt_store_revision := ds_revision s', rt_workflow := w, rt_task_configs := configs\<rparr>) s'"
proof -
  have mirror: "journal_mirror (rt_journal rt) s" and old: "identity_keys_old s" using view by (simp_all add: runtime_view_def)
  have keys: "identity_keys_old s'"
  proof (rule identity_keys_committed [OF old com])
    fix n r
    assume "''workflow-identity:'' @ decimal (unat (store_revision_get (ds_revision s))) @ CHR '':'' # rest =
      ''workflow-identity:'' @ decimal n @ CHR '':'' # r"
    then show "n \<le> unat (store_revision_get (ds_revision s))"
      using decimal_delimited [of "CHR '':''" "unat (store_revision_get (ds_revision s))" rest n r]
      by (simp add: is_digit_def byte_of_def)
  qed
  from com show ?thesis
  proof (cases rule: committed_cases)
    case replay
    then show ?thesis using old unfolding identity_keys_old_def by blast
  next
    case (fresh c v l)
    then have "journal_mirror (rt_journal rt) s'" using mirror_other [OF mirror fresh(1)] by simp
    moreover have "c = s\<lparr>ds_workflow_replay_identity := Some (WorkflowReplayIdentity (legacy_identity_text w configs))\<rparr>"
      using fresh(1) by (auto simp: record_replay_identity_def split: if_splits)
    ultimately show ?thesis
      using view reach keys fresh(3) graph inputs facts
      by (simp add: runtime_view_def known_attempts_def attempts_numbered_def pins_ordered_def dispatched_once_def dispatches_of_def)
  qed
qed

subsection \<open>Admissions\<close>

lemma numbered_admission:
  assumes num: "attempts_numbered s n" and com: "committed s key (AdmitAttempt a) s'" and lin: "lineage s"
    and name: "aa_attempt_id a = attempt_id_at (ds_run_id s) (unat n)"
  shows "checked_add_u64 n 1 = Some m \<Longrightarrow>
      ds_admission_history s' = ds_admission_history s @ [a] \<and> attempts_numbered s' m"
    and "checked_add_u64 n 1 = None \<Longrightarrow> attempts_numbered s' n"
proof -
  let ?h = "ds_admission_history s"
  have ids: "map aa_attempt_id ?h = map (attempt_id_at (ds_run_id s)) [1..<Suc (length ?h)]"
    and counter: "unat n = Suc (length ?h) \<or> n = u64_max \<and> length ?h = unat n"
    using num by (simp_all add: attempts_numbered_def)
  have known: "fmlookup (ds_admissions s) (aa_attempt_id a) \<noteq> None \<longleftrightarrow> aa_attempt_id a \<in> aa_attempt_id ` set ?h"
  proof -
    have "indexed aa_attempt_id (ds_admissions s) ?h" using lin by (simp add: lineage_def)
    then have "fmlookup (ds_admissions s) (aa_attempt_id a) \<noteq> None \<longleftrightarrow> (\<exists>v\<in>set ?h. aa_attempt_id v = aa_attempt_id a)"
      by (auto simp: indexed_def)
    then show ?thesis by (metis image_iff)
  qed
  have mem: "aa_attempt_id a \<in> aa_attempt_id ` set ?h \<longleftrightarrow> unat n \<le> length ?h"
  proof -
    have "aa_attempt_id ` set ?h = attempt_id_at (ds_run_id s) ` {1..<Suc (length ?h)}"
      using arg_cong [OF ids, of set] by (simp only: list.set_map set_upt)
    moreover have "1 \<le> unat n" using counter by (auto simp: unat_u64_max)
    ultimately show ?thesis using name by (auto simp: image_iff)
  qed
  have fresh_state: "ds_admission_history s' = ?h @ [a] \<and> ds_run_id s' = ds_run_id s" if "unat n = Suc (length ?h)"
    using com
  proof (cases rule: committed_cases)
    case replay
    then show ?thesis using known mem that by simp
  next
    case (fresh c v l)
    then show ?thesis by (auto simp: admit_attempt_def split: if_splits)
  qed
  have extended: "map aa_attempt_id (?h @ [a]) = map (attempt_id_at (ds_run_id s)) [1..<Suc (length (?h @ [a]))]"
    if "unat n = Suc (length ?h)"
    using ids name that by simp
  show "ds_admission_history s' = ?h @ [a] \<and> attempts_numbered s' m" if "checked_add_u64 n 1 = Some m"
  proof -
    have "unat m = Suc (unat n)" and "n \<noteq> u64_max"
      using that checked_add_one_Some checked_add_one_None_iff [of n] by auto
    then have "unat n = Suc (length ?h)" using counter by simp
    then show ?thesis using fresh_state extended \<open>unat m = _\<close> by (simp add: attempts_numbered_def)
  qed
  show "attempts_numbered s' n" if "checked_add_u64 n 1 = None"
  proof -
    have max: "n = u64_max" using that checked_add_one_None_iff by blast
    show ?thesis
    proof (cases "unat n = Suc (length ?h)")
      case True
      then show ?thesis using fresh_state extended max by (simp add: attempts_numbered_def)
    next
      case False
      then have full: "length ?h = unat n" using counter by simp
      from com show ?thesis
      proof (cases rule: committed_cases)
        case replay
        then show ?thesis using num by simp
      next
        case (fresh c v l)
        then have "fmlookup (ds_admissions s) (aa_attempt_id a) = None"
          by (auto simp: admit_attempt_def contains_key_def split: if_splits)
        then show ?thesis using known mem full by simp
      qed
    qed
  qed
qed

lemma view_admission:
  assumes view: "runtime_view enc rt s" and com: "committed s key (AdmitAttempt (attempt_admission a)) s'"
    and reach: "durable_reachable enc s'" and key: "plain_key key" and a: "a = new_attempt rt t x ps"
    and ordered: "sorted_wrt (<) (map cri_capability_id (aa_capabilities (attempt_admission a)))"
  shows "checked_add_u64 (rt_next_attempt_number rt) 1 = Some n \<Longrightarrow>
      set (known_attempts rt') \<subseteq> insert a (set (known_attempts rt)) \<Longrightarrow>
      same_state (rt\<lparr>rt_next_attempt_number := n, rt_attempts := rt_attempts rt', rt_pending_started := rt_pending_started rt'\<rparr>) rt' \<Longrightarrow>
      rt_store_revision rt' = ds_revision s' \<Longrightarrow> runtime_view enc rt' s'"
    and "checked_add_u64 (rt_next_attempt_number rt) 1 = None \<Longrightarrow>
      runtime_view enc (rt\<lparr>rt_store_revision := ds_revision s'\<rparr>) s'"
proof -
  have mirror: "journal_mirror (rt_journal rt) s" using view by (simp add: runtime_view_def)
  have keys: "identity_keys_old s'" using view identity_keys_plain [OF _ com key] by (simp add: runtime_view_def)
  have name: "aa_attempt_id (attempt_admission a) = attempt_id_at (ds_run_id s) (unat (rt_next_attempt_number rt))"
    using view by (simp add: a attempt_admission_def new_attempt_def attempt_id_at_def attempt_name_def runtime_view_def)
  note num = numbered_admission [OF _ com view_lineage [OF view] name]
  have sub: "set (ds_admission_history s) \<subseteq> set (ds_admission_history s')"
    using committed_frame(2) [OF com] by (auto simp: facts_grow_def)
  have rest: "ds_completion_history s' = ds_completion_history s \<and> ds_cancellations s' = ds_cancellations s \<and>
      ds_intents s' = ds_intents s \<and> ds_dispatch_history s' = ds_dispatch_history s \<and>
      ds_workflow_replay_identity s' = ds_workflow_replay_identity s \<and> journal_mirror (rt_journal rt) s'"
    using com
  proof (cases rule: committed_cases)
    case replay
    then show ?thesis using mirror by simp
  next
    case (fresh c v l)
    then show ?thesis using mirror_other [OF mirror fresh(1)] by (auto simp: admit_attempt_def split: if_splits)
  qed
  have once: "dispatched_once s'" using view rest by (simp add: runtime_view_def dispatched_once_def dispatches_of_def)
  have pins: "pins_ordered s'"
    using com
  proof (cases rule: committed_cases)
    case replay
    then show ?thesis using view by (simp add: runtime_view_def)
  next
    case (fresh c v l)
    then have "ds_admission_history s' = ds_admission_history s @ [attempt_admission a]"
      by (auto simp: admit_attempt_def split: if_splits)
    then show ?thesis using view ordered by (simp add: runtime_view_def pins_ordered_def)
  qed
  show "runtime_view enc rt' s'"
    if n: "checked_add_u64 (rt_next_attempt_number rt) 1 = Some n"
      and sub': "set (known_attempts rt') \<subseteq> insert a (set (known_attempts rt))"
      and same: "same_state (rt\<lparr>rt_next_attempt_number := n, rt_attempts := rt_attempts rt', rt_pending_started := rt_pending_started rt'\<rparr>) rt'"
      and rev: "rt_store_revision rt' = ds_revision s'"
  proof -
    have h: "ds_admission_history s' = ds_admission_history s @ [attempt_admission a]" "attempts_numbered s' n"
      using num(1) [OF _ n] view by (simp_all add: runtime_view_def)
    have "attempt_admission ` set (known_attempts rt') \<subseteq> set (ds_admission_history s')"
      using sub' view h(1) by (auto simp: runtime_view_def)
    then show ?thesis
      using view reach keys rest once pins h(2) rev same committed_frame(1) [OF com]
      by (simp add: runtime_view_def same_state_def)
  qed
  show "runtime_view enc (rt\<lparr>rt_store_revision := ds_revision s'\<rparr>) s'" if "checked_add_u64 (rt_next_attempt_number rt) 1 = None"
    using view reach keys rest once pins num(2) [OF _ that] committed_frame(1) [OF com] sub
    by (auto simp: runtime_view_def known_attempts_def)
qed

end
