(* ===== verification/Runtime_Steps.thy ===== *)
theory Runtime_Steps
  imports Runtime_Invariant
begin

text \<open>
  Every operation of a runtime keeps the invariant, whatever its result, over any store that
  obeys the contract of \<open>durable_store\<close>.
\<close>

section \<open>Captured pins\<close>

definition pin_for :: "('v, 'st) Runtime \<Rightarrow> Id \<Rightarrow> 'v CapabilityPin" where
  "pin_for rt i =
     (let h = the (context_get (rt_scopes rt) (rt_context rt) i)
      in \<lparr>cp_capability_id = i, cp_generation = handle_generation h, cp_entry_id = handle_entry_id h,
          cp_replay_identity = CapabilityReplayIdentity_new i (handle_replay_identity h), cp_handle = h\<rparr>)"

definition capability_available :: "('v, 'st) Runtime \<Rightarrow> Id \<times> string option \<Rightarrow> bool" where
  "capability_available rt required \<longleftrightarrow>
     (\<exists>h. context_get (rt_scopes rt) (rt_context rt) (fst required) = Some h \<and>
        (\<forall>d. snd required = Some d \<longrightarrow> d = handle_replay_identity h))"

lemma capture_pin_Inr:
  "capture_pin rt t ps r = Inr ps' \<longleftrightarrow> capability_available rt r \<and> ps' = ps @ [pin_for rt (fst r)]"
  by (cases r) (auto simp: capture_pin_def capability_available_def pin_for_def split: option.splits)

lemma capture_fold_Inr:
  "try_fold (capture_pin rt t) ps rs = Inr ps' \<longleftrightarrow>
     list_all (capability_available rt) rs \<and> ps' = ps @ map (\<lambda>r. pin_for rt (fst r)) rs"
proof (induction rs arbitrary: ps)
  case Nil
  then show ?case by auto
next
  case (Cons r rs)
  show ?case
  proof (cases "capture_pin rt t ps r")
    case (Inl e)
    then have "\<not> capability_available rt r" using capture_pin_Inr [of rt t ps r] by auto
    then show ?thesis using Inl by simp
  next
    case (Inr ps1)
    then have "capability_available rt r" "ps1 = ps @ [pin_for rt (fst r)]"
      using capture_pin_Inr [of rt t ps r ps1] by simp_all
    then show ?thesis using Inr by (simp add: Cons.IH)
  qed
qed

lemma captured_pins:
  assumes "capture_capability_pins rt t None = Inr ps"
  shows "ps = map (\<lambda>r. pin_for rt (fst r)) (required_identities rt t)"
  using assms capture_fold_Inr [of rt t "[]" "required_identities rt t" ps]
  by (simp add: capture_capability_pins_def split: sum.splits)

lemma required_identities_valid:
  assumes "valid_inputs g (rt_task_configs rt)" and "r \<in> set (required_identities rt t)"
  shows "valid_id (fst r)"
proof (cases "fmlookup (rt_task_configs rt) t")
  case None
  then show ?thesis using assms(2) by (simp add: required_identities_def)
next
  case (Some c)
  then have "valid_config c" using assms(1) by (simp add: valid_inputs_def)
  then show ?thesis
    using assms(2) Some by (auto simp: required_identities_def valid_config_def set_bm_items contains_key_def)
qed

lemma new_attempt_valid:
  assumes view: "runtime_view enc rt s" and pins: "capture_capability_pins rt t None = Inr ps"
    and t: "valid_id t" and x: "case_option True (\<lambda>i. valid_id (operation_id_of i)) x"
  shows "valid_mutation (AdmitAttempt (attempt_admission (new_attempt rt t x ps)))"
proof -
  have "valid_run (rt_run_id rt)"
    using view_facts_valid [OF view] view by (simp add: facts_valid_def runtime_view_def)
  moreover have "\<not> trim_is_empty (attempt_name (rt_run_id rt) (rt_next_attempt_number rt))"
    by (rule visible_not_blank [of "CHR ''-''"]) (simp_all add: attempt_name_def byte_of_def)
  moreover have "list_all valid_capability (map cp_replay_identity ps)"
    using required_identities_valid [of "rt_workflow rt" rt] view captured_pins [OF pins]
    by (auto simp: list_all_iff valid_capability_def pin_for_def CapabilityReplayIdentity_new_def Let_def runtime_view_def)
  ultimately show ?thesis
    using t x by (simp add: new_attempt_def attempt_admission_def valid_run_def valid_id_def)
qed

lemma pin_for_simps [simp]:
  "cp_capability_id (pin_for rt i) = i" "cri_capability_id (cp_replay_identity (pin_for rt i)) = i"
  by (simp_all add: pin_for_def CapabilityReplayIdentity_new_def Let_def)

lemma required_identities_ordered: "sorted_wrt (<) (map fst (required_identities rt t))"
  by (auto simp: required_identities_def bm_items_def comp_def strict_sorted_iff split: option.splits)

lemma new_attempt_ordered:
  assumes "capture_capability_pins rt t None = Inr ps"
  shows "sorted_wrt (<) (map cri_capability_id (aa_capabilities (attempt_admission (new_attempt rt t x ps))))"
  using required_identities_ordered [of rt t] captured_pins [OF assms]
  by (simp add: new_attempt_def attempt_admission_def comp_def)

section \<open>What an attempt leaves alone\<close>

lemma begin_attempt_keeps:
  assumes "begin_attempt ops rt t x = (rt', r)"
  shows "rt_run_id rt' = rt_run_id rt \<and> rt_workflow rt' = rt_workflow rt \<and> rt_journal rt' = rt_journal rt \<and>
    rt_task_configs rt' = rt_task_configs rt \<and> rt_cancelled rt' = rt_cancelled rt \<and>
    rt_identity_provenance rt' = rt_identity_provenance rt"
  using assms
proof (cases rule: begin_attempt_cases)
  case (admitted ps a v rt1 n)
  note same1 = commit_durable_same [OF admitted(3)]
  from admitted(5) show ?thesis
    by (cases rule: publish_started_cases) (use same1 in \<open>simp_all add: same_state_def\<close>)
qed (auto dest: commit_durable_same simp: same_state_def)

lemma attempt_or_begin_keeps:
  assumes "attempt_or_begin ops rt t x = (rt', r)"
  shows "rt_run_id rt' = rt_run_id rt \<and> rt_workflow rt' = rt_workflow rt \<and> rt_journal rt' = rt_journal rt \<and>
    rt_task_configs rt' = rt_task_configs rt \<and> rt_cancelled rt' = rt_cancelled rt \<and>
    rt_identity_provenance rt' = rt_identity_provenance rt"
  using assms begin_attempt_keeps [of ops rt t x rt' r] by (auto simp: attempt_or_begin_def split: option.splits)

text \<open>A dispatch goes on only for a prepared effect, or for an idempotent one of unknown outcome.\<close>

lemma dispatch_attempt_Inr:
  assumes "dispatch_attempt ops rt i x = (rt', Inr a)"
  shows "journal_state (rt_journal rt) x = Prepared \<and> attempt_or_begin ops rt (ei_task_id i) (Some x) = (rt', Inr a) \<or>
    journal_state (rt_journal rt) x = OutcomeUnknown \<and> ei_semantics i = Idempotent \<and>
      begin_attempt ops rt (ei_task_id i) (Some x) = (rt', Inr a)"
  using assms
  by (auto simp: dispatch_attempt_def intro: EffectSemantics.exhaust split: RecoveredEffectState.splits if_splits)

lemma view_intent_valid:
  assumes "runtime_view enc rt s" and "fmlookup (jr_intents (rt_journal rt)) x = Some i"
  shows "fmlookup (ds_intents s) x = Some i" and "ei_operation_id i = x" and "valid_id (ei_task_id i)"
    and "valid_id (operation_id_of x)"
proof -
  show s: "fmlookup (ds_intents s) x = Some i"
    using assms by (simp add: runtime_view_def journal_mirror_def journal_views_def)
  then show x: "ei_operation_id i = x" using view_lineage [OF assms(1)] by (auto simp: lineage_def intents_ok_def)
  show "valid_id (ei_task_id i)" "valid_id (operation_id_of x)"
    using view_facts_valid [OF assms(1)] s x by (auto simp: facts_valid_def)
qed

text \<open>Identifiers of attempts that the runtime or the durable state know are not blank.\<close>

lemma admitted_valid:
  assumes "facts_valid s" and "lineage s" and "fmlookup (ds_admissions s) a = Some adm"
  shows "valid_id (attempt_id_of a)"
proof -
  have "adm \<in> set (ds_admission_history s)" "aa_attempt_id adm = a"
    using assms(2,3) by (auto simp: lineage_def dest: indexed_lookup_mem)
  then show ?thesis using assms(1) by (auto simp: facts_valid_def)
qed

lemma dispatched_valid:
  assumes "facts_valid s" and "lineage s" and "fmlookup (ds_dispatches s) a = Some d"
  shows "valid_id (attempt_id_of a)"
proof -
  have d: "d \<in> set (ds_dispatch_history s)" "dr_attempt_id d = a"
    using assms(2,3) by (auto simp: lineage_def dest: indexed_lookup_mem)
  then have "dispatch_ok s d" using assms(2) by (auto simp: lineage_def list_all_iff)
  then obtain adm where "fmlookup (ds_admissions s) a = Some adm" using d(2) by (auto simp: dispatch_ok_def)
  then show ?thesis using admitted_valid assms(1,2) by blast
qed

lemma find_rev_mem: "find p (rev xs) = Some x \<Longrightarrow> x \<in> set xs \<and> p x"
  using find_Some_mem [of p "rev xs" x] by simp

lemma attempt_for_task_known:
  assumes "attempt_for_task rt t x = Some a"
  shows "\<exists>k\<in>set (known_attempts rt). ta_attempt_id k = a \<and> ta_task_id k = t \<and> ta_operation_id k = x"
proof -
  have "\<exists>k\<in>set (known_attempts rt). attempt_matches t x k \<and> ta_attempt_id k = a"
  proof (cases "\<exists>p. rt_pending_started rt = Some p \<and> attempt_matches t x (fst p)")
    case True
    then obtain p where p: "rt_pending_started rt = Some p" "attempt_matches t x (fst p)" by blast
    then have "ta_attempt_id (fst p) = a" using assms by (simp add: attempt_for_task_def case_prod_beta)
    then show ?thesis using p by (intro bexI [of _ "fst p"]) (simp_all add: known_attempts_def case_prod_beta)
  next
    case False
    then obtain k where "find (attempt_matches t x) (rev (rt_attempts rt)) = Some k" "ta_attempt_id k = a"
      using assms by (auto simp: attempt_for_task_def split: option.splits if_splits)
    then show ?thesis using find_rev_mem [of "attempt_matches t x"] by (intro bexI [of _ k]) (auto simp: known_attempts_def)
  qed
  then show ?thesis by (auto simp: attempt_matches_def)
qed

lemma attempt_for_task_admitted:
  assumes "runtime_view enc rt s" and "attempt_for_task rt t x = Some a"
  shows "\<exists>adm\<in>set (ds_admission_history s). aa_attempt_id adm = a \<and> aa_task_id adm = t \<and> aa_operation_id adm = x"
proof -
  obtain k where k: "k \<in> set (known_attempts rt)" "ta_attempt_id k = a" "ta_task_id k = t" "ta_operation_id k = x"
    using attempt_for_task_known [OF assms(2)] by blast
  then have "attempt_admission k \<in> set (ds_admission_history s)" using assms(1) by (auto simp: runtime_view_def)
  then show ?thesis using k by (intro bexI [of _ "attempt_admission k"]) (simp_all add: attempt_admission_def)
qed

lemma attempt_for_task_valid:
  assumes "runtime_view enc rt s" and "attempt_for_task rt t x = Some a"
  shows "valid_id (attempt_id_of a)"
  using attempt_for_task_admitted [OF assms] view_facts_valid [OF assms(1)] by (auto simp: facts_valid_def)

lemma begin_attempt_Inr_valid:
  assumes "begin_attempt ops rt t x = (rt', Inr a)"
  shows "valid_id (attempt_id_of a)"
proof -
  have "\<not> trim_is_empty (attempt_name (rt_run_id rt) (rt_next_attempt_number rt))"
    by (rule visible_not_blank [of "CHR ''-''"]) (simp_all add: attempt_name_def byte_of_def)
  moreover have "a = AttemptId (Id (attempt_name (rt_run_id rt) (rt_next_attempt_number rt)))"
    using assms
  proof (cases rule: begin_attempt_cases)
    case (admitted ps b v rt1 n)
    from admitted(5) show ?thesis
      by (cases rule: publish_started_cases) (use admitted(2) in \<open>simp_all add: new_attempt_def\<close>)
  qed simp_all
  ultimately show ?thesis by (simp add: valid_id_def)
qed

lemma attempt_or_begin_valid:
  assumes "runtime_view enc rt s" and "attempt_or_begin ops rt t x = (rt', Inr a)"
  shows "valid_id (attempt_id_of a)"
  using assms attempt_for_task_valid begin_attempt_Inr_valid
  by (auto simp: attempt_or_begin_def split: option.splits)

lemma known_outcome_valid:
  assumes view: "runtime_view enc rt s" and out: "known_outcome (rt_journal rt) x = Some out"
  shows "valid_id (attempt_id_of (or_attempt_id out))"
proof -
  have "latest_outcome s x = Some out"
    using views_queries(2) [OF _ view_lineage [OF view]] view out by (auto simp: runtime_view_def journal_mirror_def)
  then obtain d where "latest_dispatch s x = Some d" "fmlookup (ds_outcomes s) (dr_attempt_id d) = Some out"
    by (auto simp: latest_outcome_def outcome_for_attempt_def split: option.splits)
  then have "out \<in> set (ds_outcome_history s)"
    using view_lineage [OF view] by (auto simp: lineage_def dest: indexed_lookup_mem)
  then have "fmlookup (ds_dispatches s) (or_attempt_id out) \<noteq> None"
    using view_lineage [OF view] by (auto simp: lineage_def list_all_iff outcome_ok_def)
  then show ?thesis using dispatched_valid [OF view_facts_valid [OF view] view_lineage [OF view]] by blast
qed

section \<open>Keys\<close>

lemma colon_not_blank: "CHR '':'' \<in> set k \<Longrightarrow> \<not> trim_is_empty k"
  by (rule visible_not_blank [of "CHR '':''"]) (simp_all add: byte_of_def)

lemma key_not_blank:
  "\<not> trim_is_empty (''intent:'' @ x)" "\<not> trim_is_empty (''admit:'' @ x)" "\<not> trim_is_empty (''dispatch:'' @ x)"
  "\<not> trim_is_empty (''outcome:'' @ x)" "\<not> trim_is_empty (''cancel:'' @ x)" "\<not> trim_is_empty (''completion:'' @ x)"
  "\<not> trim_is_empty (''workflow-identity:'' @ x)"
  by (rule colon_not_blank, simp)+

section \<open>The host of a runtime\<close>

definition runtime_inv :: "binding_encoder \<Rightarrow> ('st \<Rightarrow> bool) \<Rightarrow> ('st \<Rightarrow> RunId \<Rightarrow> DurableRunState option) \<Rightarrow>
    ('v, 'st) Runtime \<Rightarrow> bool" where
  "runtime_inv enc store_ok runs rt \<longleftrightarrow>
     store_ok (rt_store rt) \<and> (\<exists>s. runs (rt_store rt) (rt_run_id rt) = Some s \<and> runtime_view enc rt s)"

lemma runtime_inv_same:
  assumes "same_state rt rt'" and "same_store rt rt'"
  shows "runtime_inv enc store_ok runs rt' \<longleftrightarrow> runtime_inv enc store_ok runs rt"
  using assms view_same [OF assms(1), of enc] by (simp add: runtime_inv_def same_store_def same_state_def)

locale runtime_host = durable_store enc "so_create_run ops" "so_load_run ops" "so_commit ops" store_ok runs
  for enc :: binding_encoder and ops :: "'st store_ops" and store_ok :: "'st \<Rightarrow> bool"
    and runs :: "'st \<Rightarrow> RunId \<Rightarrow> DurableRunState option"
begin

lemma commit_durable_committed:
  assumes ok: "store_ok (rt_store rt)" and s: "runs (rt_store rt) (rt_run_id rt) = Some s"
    and key: "\<not> trim_is_empty key" and m: "valid_mutation m"
    and run: "commit_durable ops rt key [m] = (rt', r)"
  shows "store_ok (rt_store rt')"
    and "r = Inl e \<Longrightarrow> same_store rt rt' \<or> runs (rt_store rt') = runs (rt_store rt) \<and> rt_store_revision rt' = rt_store_revision rt"
    and "r = Inr v \<Longrightarrow> \<exists>s'. runs (rt_store rt') (rt_run_id rt) = Some s' \<and> durable_reachable enc s' \<and>
      committed s key m s' \<and> rt_store_revision rt' = ds_revision s'"
proof -
  let ?q = "\<lparr>rq_run_id = rt_run_id rt, rq_expected_revision = rt_store_revision rt,
      rq_idempotency_key = IdempotencyKey key, rq_mutations = [m]\<rparr>"
  have q: "valid_request ?q" using key m by (simp add: valid_request_def valid_batch_def)
  obtain st out where c: "so_commit ops (rt_store rt) ?q = (st, out)" by fastforce
  have rt': "rt' = (case out of Inl _ \<Rightarrow> rt\<lparr>rt_store := st\<rparr>
      | Inr res \<Rightarrow> rt\<lparr>rt_store := st, rt_store_revision := cm_revision res\<rparr>)"
    and r: "r = (case out of Inl e \<Rightarrow> Inl (RuntimeStore e) | Inr res \<Rightarrow> Inr (cm_revision res))"
    using run c key by (auto simp: commit_durable_def IdempotencyKey_new_def split: sum.splits)
  show "store_ok (rt_store rt')"
    using commit_store_ok [OF ok q] c rt' by (simp split: sum.splits)
  show "same_store rt rt' \<or> runs (rt_store rt') = runs (rt_store rt) \<and> rt_store_revision rt' = rt_store_revision rt"
    if "r = Inl e"
    using that r rt' c commit_error [OF ok, of ?q st] by (auto split: sum.splits)
  show "\<exists>s'. runs (rt_store rt') (rt_run_id rt) = Some s' \<and> durable_reachable enc s' \<and>
      committed s key m s' \<and> rt_store_revision rt' = ds_revision s'" if v: "r = Inr v"
  proof -
    obtain res where out: "out = Inr res" using v r by (cases out) simp_all
    obtain s' where s': "commit_state enc s ?q = Inr (s', res)" "runs st (rt_run_id rt) = Some s'"
      using commit_ok [OF ok q c [unfolded out]] s by auto
    have reach: "durable_reachable enc s" using runs_reachable [OF ok s] by simp
    have "durable_reachable enc s'" using durable_reachable.commit [OF reach q s'(1)] .
    then show ?thesis
      using commit_state_committed [OF reach s'(1), of key m] s'(2) rt' out by simp
  qed
qed

text \<open>The invariant after a refused commit.\<close>

lemma commit_durable_refused:
  assumes "runtime_inv enc store_ok runs rt" and "\<not> trim_is_empty key" and "valid_mutation m"
    and run: "commit_durable ops rt key [m] = (rt', Inl e)"
  shows "runtime_inv enc store_ok runs rt'"
proof -
  obtain s where ok: "store_ok (rt_store rt)" and s: "runs (rt_store rt) (rt_run_id rt) = Some s" and view: "runtime_view enc rt s"
    using assms(1) by (auto simp: runtime_inv_def)
  note c = commit_durable_committed [OF ok s assms(2,3) run]
  have "runs (rt_store rt') = runs (rt_store rt)" "rt_store_revision rt' = rt_store_revision rt"
    using c(2) by (auto simp: same_store_def)
  then show ?thesis
    using c(1) s view view_same [OF commit_durable_same [OF run]] commit_durable_same [OF run]
    by (auto simp: runtime_inv_def same_state_def)
qed

text \<open>After an accepted one: the view of the changed runtime on the committed state.\<close>

lemma commit_durable_accepted:
  assumes inv: "runtime_inv enc store_ok runs rt" and key: "\<not> trim_is_empty key" and m: "valid_mutation m"
    and run: "commit_durable ops rt key [m] = (rt1, Inr v)"
    and same: "same_state (change rt1) rt'" "same_store rt1 rt'" "rt_run_id (change rt1) = rt_run_id rt1"
    and keeps: "\<And>s s'. runtime_view enc rt s \<Longrightarrow> committed s key m s' \<Longrightarrow> durable_reachable enc s' \<Longrightarrow>
      rt_store_revision rt1 = ds_revision s' \<Longrightarrow> runtime_view enc rt' s'"
  shows "runtime_inv enc store_ok runs rt'"
proof -
  obtain s where ok: "store_ok (rt_store rt)" and s: "runs (rt_store rt) (rt_run_id rt) = Some s" and view: "runtime_view enc rt s"
    using inv by (auto simp: runtime_inv_def)
  note c = commit_durable_committed [OF ok s key m run]
  obtain s' where s': "runs (rt_store rt1) (rt_run_id rt) = Some s'" "durable_reachable enc s'" "committed s key m s'"
    "rt_store_revision rt1 = ds_revision s'"
    using c(3) by blast
  have "rt_run_id rt' = rt_run_id rt"
    using same commit_durable_same [OF run] by (simp add: same_state_def)
  then show ?thesis
    using c(1) s' keeps [OF view s'(3,2,4)] same(2) by (auto simp: runtime_inv_def same_store_def)
qed

section \<open>Each operation\<close>

lemma begin_attempt_inv:
  assumes inv: "runtime_inv enc store_ok runs rt" and t: "valid_id t"
    and x: "case_option True (\<lambda>i. valid_id (operation_id_of i)) x"
    and run: "begin_attempt ops rt t x = (rt', r)"
  shows "runtime_inv enc store_ok runs rt'"
  using run
proof (cases rule: begin_attempt_cases)
  case (pins e)
  then show ?thesis using inv by simp
next
  case (store ps a e)
  obtain s where "runtime_view enc rt s" using inv by (auto simp: runtime_inv_def)
  then have "valid_mutation (AdmitAttempt (attempt_admission a))" using new_attempt_valid store(1,2) t x by blast
  then show ?thesis by (rule commit_durable_refused [OF inv key_not_blank(2) _ store(3)])
next
  case (exhausted ps a v)
  obtain s where "runtime_view enc rt s" using inv by (auto simp: runtime_inv_def)
  then have valid: "valid_mutation (AdmitAttempt (attempt_admission a))" using new_attempt_valid exhausted(1,2) t x by blast
  show ?thesis
  proof (rule commit_durable_accepted [OF inv key_not_blank(2) valid exhausted(3), of id])
    fix s s'
    assume "runtime_view enc rt s" "committed s (''admit:'' @ AttemptId_as_str (ta_attempt_id a)) (AdmitAttempt (attempt_admission a)) s'"
      "durable_reachable enc s'" "rt_store_revision rt' = ds_revision s'"
    then show "runtime_view enc rt' s'"
      using view_admission(2) [OF _ _ _ plain_keys(2) exhausted(2) new_attempt_ordered [OF exhausted(1), of x, folded exhausted(2)], of enc s _ s'] exhausted(4)
        view_same [of "rt\<lparr>rt_store_revision := ds_revision s'\<rparr>" rt' enc s'] commit_durable_same [OF exhausted(3)]
      by (simp add: same_state_def)
  qed simp_all
next
  case (admitted ps a v rt1 n)
  obtain s where "runtime_view enc rt s" using inv by (auto simp: runtime_inv_def)
  then have valid: "valid_mutation (AdmitAttempt (attempt_admission a))" using new_attempt_valid admitted(1,2) t x by blast
  note same1 = commit_durable_same [OF admitted(3)]
  have ends: "same_store rt1 rt' \<and> set (known_attempts rt') \<subseteq> insert a (set (known_attempts rt)) \<and>
      same_state (rt\<lparr>rt_next_attempt_number := n, rt_attempts := rt_attempts rt', rt_pending_started := rt_pending_started rt'\<rparr>) rt'"
    using admitted(5)
    by (cases rule: publish_started_cases)
      (use same1 in \<open>auto simp: same_state_def same_store_def known_attempts_def split: option.splits\<close>)
  show ?thesis
  proof (rule commit_durable_accepted [OF inv key_not_blank(2) valid admitted(3), of "\<lambda>_. rt'"])
    fix s s'
    assume "runtime_view enc rt s" "committed s (''admit:'' @ AttemptId_as_str (ta_attempt_id a)) (AdmitAttempt (attempt_admission a)) s'"
      "durable_reachable enc s'" "rt_store_revision rt1 = ds_revision s'"
    then show "runtime_view enc rt' s'"
      using view_admission(1) [OF _ _ _ plain_keys(2) admitted(2) new_attempt_ordered [OF admitted(1), of x, folded admitted(2)] admitted(4), of enc s _ s' rt'] ends by (simp add: same_store_def)
  qed (use ends same1 in \<open>simp_all add: same_state_def\<close>)
qed

lemma attempt_or_begin_inv:
  assumes inv: "runtime_inv enc store_ok runs rt" and "valid_id t"
    and "case_option True (\<lambda>i. valid_id (operation_id_of i)) x"
    and run: "attempt_or_begin ops rt t x = (rt', r)"
  shows "runtime_inv enc store_ok runs rt'"
  using assms begin_attempt_inv [OF assms(1-3)] by (auto simp: attempt_or_begin_def split: option.splits)

text \<open>An operation that commits one mutation and then changes its own memory.\<close>

lemma commit_then_inv:
  assumes inv: "runtime_inv enc store_ok runs rt" and key: "\<not> trim_is_empty key" and m: "valid_mutation m"
    and run: "and_then (commit_durable ops rt key [m]) (\<lambda>rt _. (f rt, Inr y)) = (rt', r)"
    and f: "\<And>rt. same_store rt (f rt)" "\<And>rt. rt_run_id (f rt) = rt_run_id rt"
    and view: "\<And>s s' rt1. runtime_view enc rt s \<Longrightarrow> committed s key m s' \<Longrightarrow> durable_reachable enc s' \<Longrightarrow>
      same_state rt rt1 \<Longrightarrow> rt_store_revision rt1 = ds_revision s' \<Longrightarrow> runtime_view enc (f rt1) s'"
  shows "runtime_inv enc store_ok runs rt'"
proof -
  obtain rt1 r1 where com: "commit_durable ops rt key [m] = (rt1, r1)" by fastforce
  show ?thesis
  proof (cases r1)
    case (Inl e)
    then have "rt' = rt1" using run com by simp
    then show ?thesis using commit_durable_refused [OF inv key m] com Inl by blast
  next
    case (Inr v)
    then have rt': "rt' = f rt1" using run com by simp
    show ?thesis
      by (rule commit_durable_accepted [OF inv key m com [unfolded Inr], of f])
        (use rt' f view commit_durable_same [OF com] in simp_all)
  qed
qed

lemma record_effect_intent_inv:
  assumes inv: "runtime_inv enc store_ok runs rt" and x: "valid_id (operation_id_of x)"
    and run: "record_effect_intent ops rt t x k = (rt', r)"
  shows "runtime_inv enc store_ok runs rt'"
proof -
  let ?i = "\<lparr>ei_task_id = t, ei_operation_id = x, ei_semantics = k\<rparr>"
  show ?thesis
  proof (cases "graph_task (rt_workflow rt) t = None \<or> graph_is_completed (rt_workflow rt) t \<or>
      (\<exists>e. persist_intent (rt_journal rt) ?i = Inl e)")
    case True
    then have "rt' = rt" using run by (auto simp: record_effect_intent_def split: if_splits)
    then show ?thesis using inv by simp
  next
    case False
    then obtain j y where j: "persist_intent (rt_journal rt) ?i = Inr j" and t: "graph_task (rt_workflow rt) t = Some y"
      by (metis old.sum.exhaust option.exhaust)
    have valid: "valid_mutation (RecordIntent ?i)"
      using inv t x by (auto simp: runtime_inv_def runtime_view_def valid_inputs_def)
    have rt': "and_then (commit_durable ops rt (''intent:'' @ OperationId_as_str x) [RecordIntent ?i])
        (\<lambda>rt _. (rt\<lparr>rt_journal := j\<rparr>, Inr ())) = (rt', r)"
      using run False j t unfolding record_effect_intent_def by (simp add: Let_def)
    show ?thesis
    proof (rule commit_then_inv [OF inv key_not_blank(1) valid rt'])
      fix s s' rt1
      assume asm: "runtime_view enc rt s" "committed s (''intent:'' @ OperationId_as_str x) (RecordIntent ?i) s'"
        "durable_reachable enc s'" "same_state rt rt1" "rt_store_revision rt1 = ds_revision s'"
      then show "runtime_view enc (rt1\<lparr>rt_journal := j\<rparr>) s'"
        using asm view_intent [OF asm(1-3) plain_keys(1) j]
          view_same [of "rt\<lparr>rt_store_revision := ds_revision s', rt_journal := j\<rparr>" "rt1\<lparr>rt_journal := j\<rparr>"]
        by (simp add: same_state_def)
    qed (simp_all add: same_store_def)
  qed
qed

lemma record_effect_outcome_inv:
  assumes inv: "runtime_inv enc store_ok runs rt" and run: "record_effect_outcome ops rt x a k = (rt', r)"
  shows "runtime_inv enc store_ok runs rt'"
proof -
  let ?out = "\<lparr>or_operation_id = x, or_attempt_id = a, or_outcome = k\<rparr>"
  show ?thesis
  proof (cases "persist_outcome (rt_journal rt) ?out")
    case (Inl e)
    then show ?thesis using run inv by (auto simp: record_effect_outcome_def)
  next
    case (Inr j)
    obtain s where view: "runtime_view enc rt s" using inv by (auto simp: runtime_inv_def)
    obtain i d where i: "fmlookup (jr_intents (rt_journal rt)) x = Some i" and "fmlookup (jr_dispatches (rt_journal rt)) a = Some d"
      using Inr by (auto simp: persist_outcome_def contains_key_def split: if_splits option.splits)
    then have "fmlookup (ds_dispatches s) a = Some d"
      using view by (simp add: runtime_view_def journal_mirror_def journal_views_def)
    then have valid: "valid_mutation (RecordOutcome ?out)"
      using dispatched_valid [OF view_facts_valid [OF view] view_lineage [OF view]] view_intent_valid(4) [OF view i] by simp
    have rt': "and_then (commit_durable ops rt (''outcome:'' @ AttemptId_as_str a) [RecordOutcome ?out])
        (\<lambda>rt _. (rt\<lparr>rt_journal := j\<rparr>, Inr ())) = (rt', r)"
      using run Inr unfolding record_effect_outcome_def by (simp add: Let_def)
    show ?thesis
    proof (rule commit_then_inv [OF inv key_not_blank(4) valid rt'])
      fix s s' rt1
      assume asm: "runtime_view enc rt s" "committed s (''outcome:'' @ AttemptId_as_str a) (RecordOutcome ?out) s'"
        "durable_reachable enc s'" "same_state rt rt1" "rt_store_revision rt1 = ds_revision s'"
      then show "runtime_view enc (rt1\<lparr>rt_journal := j\<rparr>) s'"
        using asm view_outcome [OF asm(1-3) plain_keys(4) Inr]
          view_same [of "rt\<lparr>rt_store_revision := ds_revision s', rt_journal := j\<rparr>" "rt1\<lparr>rt_journal := j\<rparr>"]
        by (simp add: same_state_def)
    qed (simp_all add: same_store_def)
  qed
qed

lemma cancel_task_inv:
  assumes inv: "runtime_inv enc store_ok runs rt" and run: "cancel_task ops rt t = (rt', r)"
  shows "runtime_inv enc store_ok runs rt'"
proof (cases "graph_task (rt_workflow rt) t")
  case None
  then show ?thesis using run inv by (auto simp: cancel_task_def)
next
  case (Some y)
  obtain s where view: "runtime_view enc rt s" using inv by (auto simp: runtime_inv_def)
  define x where "x = journal_operation_for_task (rt_journal rt) t"
  define a where "a = (case x of None \<Rightarrow> None | Some z \<Rightarrow> attempt_for_task rt t (Some z))"
  let ?c = "\<lparr>ca_run_id = rt_run_id rt, ca_task_id = t, ca_operation_id = x, ca_attempt_id = a\<rparr>"
  have "valid_id (operation_id_of z)" if "x = Some z" for z
  proof -
    have "fmlookup (ds_task_operations s) t = Some z"
      using that view by (simp add: x_def journal_operation_for_task_def runtime_view_def journal_mirror_def)
    then obtain i where "fmlookup (ds_intents s) z = Some i"
      using view_lineage [OF view] unfolding lineage_def intents_ok_def by blast
    then have "fmlookup (jr_intents (rt_journal rt)) z = Some i"
      using view by (simp add: runtime_view_def journal_mirror_def journal_views_def)
    then show ?thesis using view_intent_valid(4) [OF view] by blast
  qed
  moreover have "valid_id (attempt_id_of b)" if "a = Some b" for b
    using that attempt_for_task_valid [OF view] by (auto simp: a_def split: option.splits)
  moreover have "valid_id t" "valid_run (rt_run_id rt)"
    using view Some view_facts_valid [OF view] by (auto simp: runtime_view_def valid_inputs_def facts_valid_def)
  ultimately have valid: "valid_mutation (RecordCancellation ?c)"
    by (simp add: valid_run_def split: option.splits)
  have "\<exists>y. and_then (commit_durable ops rt (''cancel:'' @ as_str t) [RecordCancellation ?c])
      (\<lambda>rt _. (rt\<lparr>rt_cancelled := finsert t (rt_cancelled rt)\<rparr>, Inr y)) = (rt', r)"
    using run Some unfolding cancel_task_def a_def x_def Let_def by (simp, blast)
  then obtain y where rt': "and_then (commit_durable ops rt (''cancel:'' @ as_str t) [RecordCancellation ?c])
      (\<lambda>rt _. (rt\<lparr>rt_cancelled := finsert t (rt_cancelled rt)\<rparr>, Inr y)) = (rt', r)" ..
  show ?thesis
  proof (rule commit_then_inv [OF inv key_not_blank(5) valid rt'])
    fix s s' rt1
    assume asm: "runtime_view enc rt s" "committed s (''cancel:'' @ as_str t) (RecordCancellation ?c) s'"
      "durable_reachable enc s'" "same_state rt rt1" "rt_store_revision rt1 = ds_revision s'"
    then show "runtime_view enc (rt1\<lparr>rt_cancelled := finsert t (rt_cancelled rt1)\<rparr>) s'"
      using asm view_cancellation [OF asm(1-3) plain_keys(5)]
        view_same [of "rt\<lparr>rt_store_revision := ds_revision s', rt_cancelled := finsert t (rt_cancelled rt)\<rparr>"
          "rt1\<lparr>rt_cancelled := finsert t (rt_cancelled rt1)\<rparr>"]
      by (simp add: same_state_def)
  qed (simp_all add: same_store_def)
qed

lemma complete_task_inv:
  assumes inv: "runtime_inv enc store_ok runs rt" and a: "valid_id (attempt_id_of a)"
    and run: "complete_task ops rt t a = (rt', r)"
  shows "runtime_inv enc store_ok runs rt'"
  using run
proof (cases rule: complete_task_cases)
  case (refused e)
  then show ?thesis using inv by simp
next
  case (store w c e)
  have "valid_id t"
    using store(1) inv
    by (auto simp: complete_Inr_iff runtime_inv_def runtime_view_def valid_inputs_def graph_task_def topology_task_def
        contains_task_def contains_key_def)
  then have "valid_mutation (RecordCompletion \<lparr>dc_task_id = t, dc_attempt_id = a\<rparr>)" using a by simp
  then show ?thesis using commit_durable_refused [OF inv key_not_blank(6) _ store(2)] by blast
next
  case (committed w c v rt1)
  have "valid_id t"
    using committed(1) inv
    by (auto simp: complete_Inr_iff runtime_inv_def runtime_view_def valid_inputs_def graph_task_def topology_task_def
        contains_task_def contains_key_def)
  then have valid: "valid_mutation (RecordCompletion \<lparr>dc_task_id = t, dc_attempt_id = a\<rparr>)" using a by simp
  show ?thesis
  proof (rule commit_durable_accepted [OF inv key_not_blank(6) valid committed(2), of "\<lambda>rt. rt\<lparr>rt_workflow := w\<rparr>"])
    fix s s'
    assume asm: "runtime_view enc rt s" "durable_reachable enc s'" "rt_store_revision rt1 = ds_revision s'"
      "Runtime_Invariant.committed s (''completion:'' @ as_str t @ '':'' @ AttemptId_as_str a)
        (RecordCompletion \<lparr>dc_task_id = t, dc_attempt_id = a\<rparr>) s'"
    then show "runtime_view enc rt' s'"
      using asm view_completion(1) [OF asm(1,4,2) plain_keys(6), of w c] committed(1,3,4)
        view_same [of "rt\<lparr>rt_store_revision := ds_revision s', rt_workflow := w\<rparr>" rt'] commit_durable_same [OF committed(2)]
      by (simp add: same_state_def same_store_def)
  qed (use committed in simp_all)
qed

text \<open>The dispatch fact: committed for an admitted attempt of the operation, before the call returns.\<close>

lemma record_dispatch_fact_inv:
  assumes inv: "runtime_inv enc store_ok runs rt" and i: "fmlookup (jr_intents (rt_journal rt)) x = Some i"
    and a: "valid_id (attempt_id_of a)"
    and once: "ei_semantics i = NonIdempotent \<Longrightarrow> journal_state (rt_journal rt) x = Prepared"
    and run: "record_dispatch_fact ops x rt a = (rt', r)"
  shows "runtime_inv enc store_ok runs rt'"
    and "r = Inr b \<Longrightarrow> \<exists>s s'. runs (rt_store rt) (rt_run_id rt) = Some s \<and> runs (rt_store rt') (rt_run_id rt') = Some s' \<and>
      runtime_view enc rt s \<and> b = a \<and> \<not> is_cancelled s (ei_task_id i) \<and>
      ds_dispatch_history s' = ds_dispatch_history s @ [\<lparr>dr_operation_id = x, dr_attempt_id = a\<rparr>]"
proof -
  let ?d = "\<lparr>dr_operation_id = x, dr_attempt_id = a\<rparr>"
  let ?com = "commit_durable ops rt (''dispatch:'' @ AttemptId_as_str a) [RecordDispatch ?d]"
  obtain s where ok: "store_ok (rt_store rt)" and s: "runs (rt_store rt) (rt_run_id rt) = Some s" and view: "runtime_view enc rt s"
    using inv by (auto simp: runtime_inv_def)
  note intent = view_intent_valid [OF view i]
  have valid: "valid_mutation (RecordDispatch ?d)" using intent(4) a by simp
  have first: "dispatches_of s x = []" if "ei_semantics i = NonIdempotent"
  proof -
    have "journal_views (rt_journal rt) s" using view by (simp add: runtime_view_def journal_mirror_def)
    then have "effect_state s x = Prepared"
      using views_queries(4) [OF _ view_lineage [OF view]] once [OF that] by metis
    then show ?thesis by (auto simp: effect_state_def latest_dispatch_def split: if_splits option.splits list.splits)
  qed
  have "runtime_inv enc store_ok runs rt' \<and> (r = Inr b \<longrightarrow> (\<exists>s'. runs (rt_store rt') (rt_run_id rt') = Some s' \<and>
      b = a \<and> \<not> is_cancelled s (ei_task_id i) \<and> ds_dispatch_history s' = ds_dispatch_history s @ [?d]))"
  proof (cases "persist_dispatch (rt_journal rt) ?d")
    case (Inl e)
    then show ?thesis using run inv by (auto simp: record_dispatch_fact_def)
  next
    case (Inr j)
    have rt': "and_then ?com (\<lambda>rt _. (rt\<lparr>rt_journal := j\<rparr>, Inr a)) = (rt', r)"
      using run Inr unfolding record_dispatch_fact_def by (simp add: Let_def)
    obtain rt1 r1 where com: "?com = (rt1, r1)" by fastforce
    note same1 = commit_durable_same [OF com]
    show ?thesis
    proof (cases r1)
      case (Inl e)
      then have "rt' = rt1" "r = Inl e" using rt' com by simp_all
      then show ?thesis using commit_durable_refused [OF inv key_not_blank(3) valid] com Inl by blast
    next
      case ok1: (Inr v)
      then have rt'': "rt' = rt1\<lparr>rt_journal := j\<rparr>" and r: "r = Inr a" using rt' com by simp_all
      obtain s' where s': "runs (rt_store rt1) (rt_run_id rt) = Some s'" "durable_reachable enc s'"
        "committed s (''dispatch:'' @ AttemptId_as_str a) (RecordDispatch ?d) s'" "rt_store_revision rt1 = ds_revision s'"
        using commit_durable_committed(3) [OF ok s key_not_blank(3) valid com] ok1 by blast
      note facts = view_dispatch [OF view s'(3,2) plain_keys(3) Inr]
      have f: "runtime_view enc (rt\<lparr>rt_store_revision := ds_revision s', rt_journal := j\<rparr>) s'"
        "ds_dispatch_history s' = ds_dispatch_history s @ [?d]"
        "\<not> is_cancelled s (aa_task_id (the (fmlookup (ds_admissions s) a)))"
        using facts first intent(1) by auto
      have "?d \<in> set (ds_dispatch_history s')" using f(2) by simp
      then have "dispatch_ok s' ?d" using durable_reachable_lineage [OF s'(2)] by (auto simp: lineage_def list_all_iff)
      then obtain adm where adm: "fmlookup (ds_admissions s') a = Some adm" "aa_task_id adm = ei_task_id i"
        using facts_grow_lookup(2) [OF committed_frame(2) [OF s'(3)] intent(1)] by (auto simp: dispatch_ok_def)
      have "ds_admissions s' = ds_admissions s"
        using s'(3) by (cases rule: committed_cases) (auto simp: record_dispatch_def split: option.splits if_splits)
      then have "\<not> is_cancelled s (ei_task_id i)" using f(3) adm by simp
      moreover have "runtime_view enc rt' s'"
        using f(1) view_same [of "rt\<lparr>rt_store_revision := ds_revision s', rt_journal := j\<rparr>" rt'] same1 s'(4)
        by (simp add: rt'' same_state_def)
      moreover have "runs (rt_store rt') (rt_run_id rt') = Some s'" "store_ok (rt_store rt')"
        using s'(1) rt'' same1 commit_durable_committed(1) [OF ok s key_not_blank(3) valid com] by (simp_all add: same_state_def)
      ultimately show ?thesis using r f(2) by (auto simp: runtime_inv_def)
    qed
  qed
  then show "runtime_inv enc store_ok runs rt'"
    "r = Inr b \<Longrightarrow> \<exists>s s'. runs (rt_store rt) (rt_run_id rt) = Some s \<and> runs (rt_store rt') (rt_run_id rt') = Some s' \<and>
      runtime_view enc rt s \<and> b = a \<and> \<not> is_cancelled s (ei_task_id i) \<and> ds_dispatch_history s' = ds_dispatch_history s @ [?d]"
    using s view by blast+
qed

lemma dispatch_effect_inv:
  assumes inv: "runtime_inv enc store_ok runs rt" and run: "dispatch_effect ops rt x = (rt', r)"
  shows "runtime_inv enc store_ok runs rt'"
    and "r = Inr b \<Longrightarrow> \<exists>i rt1 s s'. journal_intent (rt_journal rt) x = Inr i \<and> ei_task_id i |\<notin>| rt_cancelled rt \<and>
      (journal_state (rt_journal rt) x = Prepared \<or>
       journal_state (rt_journal rt) x = OutcomeUnknown \<and> ei_semantics i = Idempotent) \<and>
      dispatch_attempt ops rt i x = (rt1, Inr b) \<and>
      runs (rt_store rt1) (rt_run_id rt) = Some s \<and> runs (rt_store rt') (rt_run_id rt') = Some s' \<and> runtime_view enc rt1 s \<and>
      \<not> is_cancelled s (ei_task_id i) \<and>
      ds_dispatch_history s' = ds_dispatch_history s @ [\<lparr>dr_operation_id = x, dr_attempt_id = b\<rparr>]"
proof -
  let ?ready = "\<lambda>i. journal_state (rt_journal rt) x = Prepared \<or>
      journal_state (rt_journal rt) x = OutcomeUnknown \<and> ei_semantics i = Idempotent"
  let ?ok = "\<lambda>b. \<exists>i rt1 s s'. journal_intent (rt_journal rt) x = Inr i \<and> ei_task_id i |\<notin>| rt_cancelled rt \<and> ?ready i \<and>
      dispatch_attempt ops rt i x = (rt1, Inr b) \<and>
      runs (rt_store rt1) (rt_run_id rt) = Some s \<and> runs (rt_store rt') (rt_run_id rt') = Some s' \<and> runtime_view enc rt1 s \<and>
      \<not> is_cancelled s (ei_task_id i) \<and>
      ds_dispatch_history s' = ds_dispatch_history s @ [\<lparr>dr_operation_id = x, dr_attempt_id = b\<rparr>]"
  obtain s where view: "runtime_view enc rt s" using inv by (auto simp: runtime_inv_def)
  have "runtime_inv enc store_ok runs rt' \<and> (r = Inr b \<longrightarrow> ?ok b)"
  proof (cases "journal_intent (rt_journal rt) x")
    case (Inl e)
    then show ?thesis using run inv by (auto simp: dispatch_effect_def)
  next
    case (Inr i)
    then have i: "fmlookup (jr_intents (rt_journal rt)) x = Some i"
      by (simp add: journal_intent_def split: option.splits)
    note valid = view_intent_valid [OF view i]
    show ?thesis
    proof (cases "ei_task_id i |\<in>| rt_cancelled rt")
      case True
      then show ?thesis using run inv Inr by (auto simp: dispatch_effect_def split: RecoveredEffectState.splits)
    next
      case False
      obtain rt1 r1 where d: "dispatch_attempt ops rt i x = (rt1, r1)" by fastforce
      have next_run: "and_then (rt1, r1) (record_dispatch_fact ops x) = (rt', r)"
        using run Inr False d by (simp add: dispatch_effect_def)
      have inv1: "runtime_inv enc store_ok runs rt1"
        using d attempt_or_begin_inv [OF inv valid(3), of "Some x" rt1 r1] begin_attempt_inv [OF inv valid(3), of "Some x" rt1 r1]
          valid(4) inv
        by (auto simp: dispatch_attempt_def split: RecoveredEffectState.splits if_splits)
      show ?thesis
      proof (cases r1)
        case (Inl e)
        then show ?thesis using next_run inv1 by auto
      next
        case ok: (Inr a)
        note cases1 = dispatch_attempt_Inr [OF d [unfolded ok]]
        have keep: "rt_run_id rt1 = rt_run_id rt" "rt_journal rt1 = rt_journal rt"
          using cases1 attempt_or_begin_keeps begin_attempt_keeps by metis+
        have a: "valid_id (attempt_id_of a)"
          using cases1 attempt_or_begin_valid [OF view] begin_attempt_Inr_valid by blast
        have fact: "record_dispatch_fact ops x rt1 a = (rt', r)" using next_run ok by simp
        have i1: "fmlookup (jr_intents (rt_journal rt1)) x = Some i" using i keep by simp
        have once: "journal_state (rt_journal rt1) x = Prepared" if "ei_semantics i = NonIdempotent"
          using cases1 keep that by auto
        note facts = record_dispatch_fact_inv [OF inv1 i1 a once fact]
        show ?thesis
        proof (intro conjI impI)
          show "runtime_inv enc store_ok runs rt'" by (rule facts(1))
          assume "r = Inr b"
          then obtain s1 s' where s1: "runs (rt_store rt1) (rt_run_id rt1) = Some s1"
            "runs (rt_store rt') (rt_run_id rt') = Some s'" "runtime_view enc rt1 s1" "b = a" "\<not> is_cancelled s1 (ei_task_id i)"
            "ds_dispatch_history s' = ds_dispatch_history s1 @ [\<lparr>dr_operation_id = x, dr_attempt_id = a\<rparr>]"
            using facts(2) by blast
          have "?ready i" using cases1 by auto
          then show "?ok b" using Inr False d ok s1 keep(1) by auto
        qed
      qed
    qed
  qed
  then show "runtime_inv enc store_ok runs rt'" "r = Inr b \<Longrightarrow> ?ok b" by blast+
qed

end

end
