(* ===== verification/Runtime_Histories.thy ===== *)
theory Runtime_Histories
  imports Runtime_Steps
begin

text \<open>
  The scheduler, recovery, the two live mutations and the observations keep the invariant too;
  then the histories of a run: every sequence of calls a host can make.
\<close>

section \<open>What the guards of an operation know\<close>

lemma ready_task_in_graph: "t \<in> set (ready_tasks g) \<Longrightarrow> graph_task g t \<noteq> None"
  by (auto simp: ready_tasks_def graph_task_def topology_task_def fmdom'_notI fmlookup_dom'_iff)

lemma next_ready_in_graph: "next_ready rt = Some t \<Longrightarrow> graph_task (rt_workflow rt) t \<noteq> None \<and> t |\<notin>| rt_cancelled rt"
  using find_Some_mem [of "\<lambda>t. t |\<notin>| rt_cancelled rt" "ready_tasks (rt_workflow rt)" t] ready_task_in_graph
  by (auto simp: next_ready_def)

lemma view_task_valid:
  assumes "runtime_view enc rt s" and "graph_task (rt_workflow rt) t \<noteq> None"
  shows "valid_id t"
  using assms by (auto simp: runtime_view_def valid_inputs_def)

lemma view_operation_valid:
  assumes view: "runtime_view enc rt s" and x: "journal_operation_for_task (rt_journal rt) t = Some x"
  shows "\<exists>i. fmlookup (jr_intents (rt_journal rt)) x = Some i \<and> ei_task_id i = t"
proof -
  have "fmlookup (ds_task_operations s) t = Some x"
    using x view by (simp add: journal_operation_for_task_def runtime_view_def journal_mirror_def)
  then obtain i where "fmlookup (ds_intents s) x = Some i" "ei_task_id i = t"
    using view_lineage [OF view] unfolding lineage_def intents_ok_def by blast
  then show ?thesis using view by (auto simp: runtime_view_def journal_mirror_def journal_views_def)
qed

lemma configured_effect_Inr:
  assumes "ensure_configured_effect ops rt t = (rt', Inr (Some (x, k)))"
  shows "journal_operation_for_task (rt_journal rt) t = Some x \<or>
    (\<exists>c e. fmlookup (rt_task_configs rt) t = Some c \<and> tc_effect c = Some e \<and> x = es_operation_id e)"
  using assms by (auto simp: ensure_configured_effect_def and_then_def split: option.splits sum.splits prod.splits)

lemma configured_effect_valid:
  assumes view: "runtime_view enc rt s" and "ensure_configured_effect ops rt t = (rt', Inr (Some (x, k)))"
  shows "valid_id (operation_id_of x)"
  using configured_effect_Inr [OF assms(2)]
proof
  assume "journal_operation_for_task (rt_journal rt) t = Some x"
  then show ?thesis using view_operation_valid [OF view] view_intent_valid(4) [OF view] by blast
next
  assume "\<exists>c e. fmlookup (rt_task_configs rt) t = Some c \<and> tc_effect c = Some e \<and> x = es_operation_id e"
  then show ?thesis using view by (auto simp: runtime_view_def valid_inputs_def valid_config_def)
qed

section \<open>Batches of valid tasks\<close>

fun valid_task_mutation :: "WorkflowMutation \<Rightarrow> bool" where
  "valid_task_mutation (AddTask t) \<longleftrightarrow> valid_id (t_id t)"
| "valid_task_mutation (AddDependency _ _) \<longleftrightarrow> True"

lemma apply_batch_valid:
  assumes "apply_batch g r b = (g', Inr entry)" and "list_all valid_task_mutation (mb_mutations b)"
    and old: "\<forall>t. graph_task g t \<noteq> None \<longrightarrow> valid_id t"
  shows "\<forall>t. graph_task g' t \<noteq> None \<longrightarrow> valid_id t"
proof -
  obtain c rev where fold: "try_fold apply_mutation_step g (mb_mutations b) = Inr c"
    and g': "wg_topology g' = wg_topology c"
    using assms(1) by (auto elim!: apply_batch_Inr)
  let ?P = "\<lambda>g. \<forall>t. graph_task g t \<noteq> None \<longrightarrow> valid_id t"
  have "?P c"
  proof (rule try_fold_invariant [where P = ?P, OF _ old fold])
    fix h m h'
    assume old: "?P h" and m: "m \<in> set (mb_mutations b)" and step: "apply_mutation_step h m = Inr h'"
    have "wg_topology h' = added_to (wg_topology h) m"
      using step by (simp add: apply_mutation_step_Inr apply_mutation_success_iff del: apply_mutation.simps)
    moreover have "valid_task_mutation m" using assms(2) m by (simp add: list_all_iff)
    ultimately show "?P h'"
      using old by (cases m) (auto simp: added_to_def graph_task_def topology_task_def insert_dependency_def split: if_splits)
  qed
  then show ?thesis by (simp add: g' graph_task_def)
qed

lemma apply_batch_completion_ids:
  assumes "wf_graph g" and "apply_batch g r b = (g', Inr entry)"
  shows "completion_ids (wg_facts g') = completion_ids (wg_facts g)"
proof -
  obtain c where "try_fold apply_mutation_step g (mb_mutations b) = Inr c" "wg_facts g' = wg_facts c"
    using assms(2) by (auto elim!: apply_batch_Inr)
  then show ?thesis using batch_inv_fold [OF assms(1)] by (auto simp: batch_inv_def)
qed

context runtime_host
begin

section \<open>Recovery and the scheduler\<close>

lemma recover_inv:
  assumes inv: "runtime_inv enc store_ok runs rt" and run: "recover ops rt x = (rt', r)"
  shows "runtime_inv enc store_ok runs rt'"
proof -
  obtain s where view: "runtime_view enc rt s" using inv by (auto simp: runtime_inv_def)
  have step: "runtime_inv enc store_ok runs rt1"
    if "known_outcome (rt_journal rt) x = Some out" "complete_task ops rt t (or_attempt_id out) = (rt1, r1)" for out t rt1 r1
    using complete_task_inv [OF inv known_outcome_valid [OF view that(1)] that(2)] .
  have "rt' = rt \<or> (\<exists>out t r1. known_outcome (rt_journal rt) x = Some out \<and>
      complete_task ops rt t (or_attempt_id out) = (rt', r1))"
    using run by (auto simp: recover_def and_then_def split: sum.splits option.splits if_splits prod.splits)
  then show ?thesis using inv step by auto
qed

lemma ensure_configured_effect_inv:
  assumes inv: "runtime_inv enc store_ok runs rt" and run: "ensure_configured_effect ops rt t = (rt', r)"
  shows "runtime_inv enc store_ok runs rt'"
proof -
  obtain s where view: "runtime_view enc rt s" using inv by (auto simp: runtime_inv_def)
  have "rt' = rt \<or> (\<exists>c e r1. fmlookup (rt_task_configs rt) t = Some c \<and> tc_effect c = Some e \<and>
      record_effect_intent ops rt t (es_operation_id e) (es_semantics e) = (rt', r1))"
    using run by (auto simp: ensure_configured_effect_def and_then_def split: option.splits sum.splits prod.splits)
  moreover have "valid_id (operation_id_of (es_operation_id e))"
    if "fmlookup (rt_task_configs rt) t = Some c" "tc_effect c = Some e" for c e
    using that view by (auto simp: runtime_view_def valid_inputs_def valid_config_def)
  ultimately show ?thesis using inv record_effect_intent_inv by blast
qed

lemma complete_step_task_inv:
  assumes "runtime_inv enc store_ok runs rt" and "valid_id (attempt_id_of a)" and run: "complete_step_task ops t rt a = (rt', r)"
  shows "runtime_inv enc store_ok runs rt'"
proof -
  obtain r1 where "complete_task ops rt t a = (rt', r1)"
    using run by (auto simp: complete_step_task_def and_then_def split: prod.splits sum.splits)
  then show ?thesis using complete_task_inv assms(1,2) by blast
qed

lemma step_effect_inv:
  assumes inv: "runtime_inv enc store_ok runs rt" and t: "valid_id t" and x: "valid_id (operation_id_of x)"
    and run: "step_effect ops t rt x = (rt', r)"
  shows "runtime_inv enc store_ok runs rt'"
proof -
  obtain s where view: "runtime_view enc rt s" using inv by (auto simp: runtime_inv_def)
  have "rt' = rt \<or> (\<exists>r1. attempt_or_begin ops rt t (Some x) = (rt', r1)) \<or>
      (\<exists>out r1. known_outcome (rt_journal rt) x = Some out \<and> complete_step_task ops t rt (or_attempt_id out) = (rt', r1))"
    using run
    by (auto simp: step_effect_def and_then_def
        split: RecoveredEffectState.splits KnownEffectOutcome.splits sum.splits prod.splits option.splits)
  then show ?thesis
    using inv attempt_or_begin_inv [OF inv t, of "Some x" rt', simplified, OF x]
      complete_step_task_inv [OF inv known_outcome_valid [OF view]] by blast
qed

lemma step_task_inv:
  assumes inv: "runtime_inv enc store_ok runs rt" and t: "graph_task (rt_workflow rt) t \<noteq> None"
    and run: "step_task ops rt t = (rt', r)"
  shows "runtime_inv enc store_ok runs rt'"
proof -
  obtain s where view: "runtime_view enc rt s" using inv by (auto simp: runtime_inv_def)
  note t' = view_task_valid [OF view t]
  obtain rt1 r1 where e: "ensure_configured_effect ops rt t = (rt1, r1)" by fastforce
  note inv1 = ensure_configured_effect_inv [OF inv e]
  obtain s1 where view1: "runtime_view enc rt1 s1" using inv1 by (auto simp: runtime_inv_def)
  show ?thesis
  proof (cases r1)
    case (Inl x)
    then show ?thesis using run e inv1 by (simp add: step_task_def)
  next
    case (Inr operation)
    show ?thesis
    proof (cases operation)
      case None
      obtain rt2 r2 where b: "attempt_or_begin ops rt1 t None = (rt2, r2)" by fastforce
      note inv2 = attempt_or_begin_inv [OF inv1 t' _ b, simplified]
      have fin: "and_then (rt2, r2) (complete_step_task ops t) = (rt', r)" using run e Inr None b by (simp add: step_task_def)
      show ?thesis
      proof (cases r2)
        case (Inl x)
        then show ?thesis using fin inv2 by simp
      next
        case (Inr a)
        then show ?thesis
          using fin complete_step_task_inv [OF inv2 attempt_or_begin_valid [OF view1 b [unfolded Inr]]] by simp
      qed
    next
      case (Some y)
      then obtain x k where y: "operation = Some (x, k)" by (cases y) auto
      then have step: "step_effect ops t rt1 x = (rt', r)" using run e Inr by (simp add: step_task_def)
      show ?thesis
        by (rule step_effect_inv [OF inv1 t' configured_effect_valid [OF view e [unfolded Inr y]] step])
    qed
  qed
qed

lemma runtime_step_inv:
  assumes "runtime_inv enc store_ok runs rt" and "runtime_step ops rt = (rt', r)"
  shows "runtime_inv enc store_ok runs rt'"
  using assms step_task_inv [of rt _ rt' r] next_ready_in_graph [of rt]
  by (auto simp: runtime_step_def split: option.splits)

lemma run_until_blocked_inv:
  assumes "runtime_inv enc store_ok runs rt" and "run_until_blocked ops rt rs = (rt', r)"
  shows "runtime_inv enc store_ok runs rt'"
  using assms
proof (induction ops' \<equiv> ops rt rs rule: run_until_blocked.induct)
  case (1 rt rs)
  obtain rt1 r1 where step: "runtime_step ops rt = (rt1, r1)" by fastforce
  note inv1 = runtime_step_inv [OF 1(2) step]
  show ?case
  proof (cases "\<exists>t a. r1 = Inr (StepCompleted t a)")
    case True
    then obtain t a where r1: "r1 = Inr (StepCompleted t a)" by blast
    then have "run_until_blocked ops rt1 (rs @ [StepCompleted t a]) = (rt', r)"
      using 1(3) step by (simp add: run_until_blocked.simps [of ops rt])
    then show ?thesis using 1(1) [OF step [symmetric] r1 refl inv1] by simp
  next
    case False
    then have "rt' = rt1"
      using 1(3) step by (auto simp: run_until_blocked.simps [of ops rt] split: sum.splits StepResult.splits)
    then show ?thesis using inv1 by simp
  qed
qed

section \<open>The live mutations\<close>

lemma identity_commit_inv:
  assumes inv: "runtime_inv enc store_ok runs rt"
    and graph: "reachable_graph w" and inputs: "valid_inputs w configs"
    and facts: "completion_ids (wg_facts w) = completion_ids (wg_facts (rt_workflow rt))"
    and i: "legacy_workflow_replay_identity w configs = Inr i"
    and run: "and_then (commit_workflow_identity ops rt i)
      (\<lambda>rt _. (rt\<lparr>rt_workflow := w, rt_task_configs := configs\<rparr>, Inr y)) = (rt', r)"
  shows "runtime_inv enc store_ok runs rt'"
proof -
  let ?key = "''workflow-identity:'' @ decimal (unat (store_revision_get (rt_store_revision rt))) @ '':'' @ legacy_identity_text w configs"
  have i': "i = WorkflowReplayIdentity (legacy_identity_text w configs)"
    and text': "\<not> trim_is_empty (legacy_identity_text w configs)"
    using i by (simp_all add: legacy_workflow_replay_identity_def WorkflowReplayIdentity_new_def split: if_splits)
  have valid: "valid_mutation (RecordWorkflowReplayIdentity i)" using i' text' by simp
  have rt': "and_then (commit_durable ops rt ?key [RecordWorkflowReplayIdentity i])
      (\<lambda>rt _. (rt\<lparr>rt_workflow := w, rt_task_configs := configs\<rparr>, Inr y)) = (rt', r)"
    using run by (simp add: commit_workflow_identity_def i')
  show ?thesis
  proof (rule commit_then_inv [OF inv key_not_blank(7) valid rt'])
    fix s s' rt1
    assume asm: "runtime_view enc rt s" "committed s ?key (RecordWorkflowReplayIdentity i) s'"
      "durable_reachable enc s'" "same_state rt rt1" "rt_store_revision rt1 = ds_revision s'"
    then have "ds_revision s = rt_store_revision rt" by (simp add: runtime_view_def)
    then have "runtime_view enc (rt\<lparr>rt_store_revision := ds_revision s', rt_workflow := w, rt_task_configs := configs\<rparr>) s'"
      using view_identity [OF asm(1) _ asm(3) graph inputs facts, of "legacy_identity_text w configs"] asm(2) i' by simp
    then show "runtime_view enc (rt1\<lparr>rt_workflow := w, rt_task_configs := configs\<rparr>) s'"
      using view_same [of "rt\<lparr>rt_store_revision := ds_revision s', rt_workflow := w, rt_task_configs := configs\<rparr>"
          "rt1\<lparr>rt_workflow := w, rt_task_configs := configs\<rparr>" enc s'] asm(4,5)
      by (simp add: same_state_def)
  qed (simp_all add: same_store_def)
qed

lemma configure_task_inv:
  assumes inv: "runtime_inv enc store_ok runs rt" and config: "valid_config config"
    and run: "configure_task ops rt t config = (rt', r)"
  shows "runtime_inv enc store_ok runs rt'"
proof (cases "rt' = rt")
  case True
  then show ?thesis using inv by simp
next
  case False
  let ?configs = "fmupd t config (rt_task_configs rt)"
  obtain i where i: "legacy_workflow_replay_identity (rt_workflow rt) ?configs = Inr i"
    and com: "and_then (commit_workflow_identity ops rt i) (\<lambda>rt _. (rt\<lparr>rt_task_configs := ?configs\<rparr>, Inr ())) = (rt', r)"
    using run False by (auto simp: configure_task_def Let_def split: sum.splits if_splits)
  obtain s where view: "runtime_view enc rt s" using inv by (auto simp: runtime_inv_def)
  have "and_then (commit_workflow_identity ops rt i)
      (\<lambda>rt1 _. (rt1\<lparr>rt_workflow := rt_workflow rt, rt_task_configs := ?configs\<rparr>, Inr ())) = (rt', r)"
    using com by (cases "commit_workflow_identity ops rt i"; cases "snd (commit_workflow_identity ops rt i)")
      (auto simp: commit_workflow_identity_def same_state_def dest: commit_durable_same)
  then show ?thesis
    by (rule identity_commit_inv [OF inv, rotated 4])
      (use view i config in \<open>auto simp: runtime_view_def valid_inputs_def split: if_splits\<close>)
qed

lemma apply_workflow_mutation_inv:
  assumes inv: "runtime_inv enc store_ok runs rt" and valid: "list_all valid_task_mutation (mb_mutations b)"
    and run: "apply_workflow_mutation ops rt v b = (rt', r)"
  shows "runtime_inv enc store_ok runs rt'"
proof (cases "rt' = rt")
  case True
  then show ?thesis using inv by simp
next
  case False
  obtain w entry i where w: "apply_batch (rt_workflow rt) v b = (w, Inr entry)"
    and i: "legacy_workflow_replay_identity w (rt_task_configs rt) = Inr i"
    and com: "and_then (commit_workflow_identity ops rt i) (\<lambda>rt _. (rt\<lparr>rt_workflow := w\<rparr>, Inr entry)) = (rt', r)"
    using run False by (auto simp: apply_workflow_mutation_def Let_def split: sum.splits if_splits prod.splits)
  obtain s where view: "runtime_view enc rt s" using inv by (auto simp: runtime_inv_def)
  have old: "reachable_graph (rt_workflow rt)" using view by (simp add: runtime_view_def)
  have "and_then (commit_workflow_identity ops rt i)
      (\<lambda>rt1 _. (rt1\<lparr>rt_workflow := w, rt_task_configs := rt_task_configs rt\<rparr>, Inr entry)) = (rt', r)"
    using com by (cases "commit_workflow_identity ops rt i"; cases "snd (commit_workflow_identity ops rt i)")
      (auto simp: commit_workflow_identity_def same_state_def dest: commit_durable_same)
  then show ?thesis
  proof (rule identity_commit_inv [OF inv, rotated 4])
    show "reachable_graph w" using old w by (rule reachable_graph.batch)
    show "valid_inputs w (rt_task_configs rt)"
      using apply_batch_valid [OF w valid] view by (simp add: runtime_view_def valid_inputs_def)
    show "completion_ids (wg_facts w) = completion_ids (wg_facts (rt_workflow rt))"
      by (rule apply_batch_completion_ids [OF reachable_graph_wf [OF old] w])
  qed (rule i)
qed

section \<open>Observations\<close>

lemma retry_execution_event_inv:
  assumes inv: "runtime_inv enc store_ok runs rt" and run: "retry_execution_event rt item = (rt', r)"
  shows "runtime_inv enc store_ok runs rt'"
proof (cases "rt_pending_started rt")
  case None
  then show ?thesis
    using run enqueue_execution_same [of rt item rt' r] runtime_inv_same [of rt rt'] inv by (simp add: retry_execution_event_def)
next
  case (Some p)
  obtain a held where p: "p = (a, held)" by fastforce
  obtain rt1 r1 where q: "enqueue_execution (rt\<lparr>rt_pending_started := None\<rparr>) held = (rt1, r1)" by fastforce
  note same1 = enqueue_execution_same [OF q]
  have rt': "rt' = (case r1 of Inr _ \<Rightarrow> rt1\<lparr>rt_attempts := rt_attempts rt1 @ [a]\<rparr>
      | Inl _ \<Rightarrow> rt1\<lparr>rt_pending_started := Some (a, held)\<rparr>)"
    using run Some p q by (cases r1) (auto simp: retry_execution_event_def)
  have attempts: "known_attempts rt' = known_attempts rt"
    using same1 Some p rt' by (simp add: known_attempts_def same_state_def split: sum.splits)
  have "rt_run_id rt' = rt_run_id rt \<and> rt_store rt' = rt_store rt \<and> rt_store_revision rt' = rt_store_revision rt \<and>
      rt_journal rt' = rt_journal rt \<and> rt_workflow rt' = rt_workflow rt \<and> rt_cancelled rt' = rt_cancelled rt \<and>
      rt_next_attempt_number rt' = rt_next_attempt_number rt \<and> rt_task_configs rt' = rt_task_configs rt \<and>
      rt_identity_provenance rt' = rt_identity_provenance rt"
    using same1 rt' by (simp add: same_state_def same_store_def split: sum.splits)
  then have "runtime_view enc rt' s \<longleftrightarrow> runtime_view enc rt s" "same_store rt rt'" "rt_run_id rt' = rt_run_id rt" for s
    using attempts by (simp_all add: runtime_view_def same_store_def)
  then show ?thesis using inv by (auto simp: runtime_inv_def same_store_def)
qed

end

text \<open>The other observations leave the state and the store alone.\<close>

lemma observation_same:
  "emit_progress rt t p = (rt', r) \<Longrightarrow> same_state rt rt' \<and> same_store rt rt'"
  "emit_telemetry rt m = (rt', r) \<Longrightarrow> same_state rt rt' \<and> same_store rt rt'"
  "drain_execution_events rt = (rt', items) \<Longrightarrow> same_state rt rt' \<and> same_store rt rt'"
  "drain_progress_events rt = (rt', progress) \<Longrightarrow> same_state rt rt' \<and> same_store rt rt'"
  "drain_telemetry_events rt = (rt', items) \<Longrightarrow> same_state rt rt' \<and> same_store rt rt'"
  by (auto simp: emit_progress_def emit_telemetry_def drain_execution_events_def drain_progress_events_def
      drain_telemetry_events_def same_state_def same_store_def Let_def split: prod.splits sum.splits)

end
