(* ===== verification/Runtime_Runs.thy ===== *)
theory Runtime_Runs
  imports Runtime_Histories Physical_Refinement Definition_Acceptance
begin

text \<open>
  Starting and restoring: a started runtime satisfies the invariant, and a runtime that is
  rebuilt from the durable state of a run satisfies it again, with the same memory.
\<close>

section \<open>Starting\<close>

lemma pristine_is_new:
  assumes "is_pristine_bootstrap s" and "ds_run_id s = r"
  shows "s = DurableRunState_new r"
  using assms by (cases s) (simp add: is_pristine_bootstrap_def DurableRunState_new_def)

text \<open>The state a new run has once its identity is recorded.\<close>

definition run_state :: "binding_encoder \<Rightarrow> DurableRunState \<Rightarrow> bool" where
  "run_state enc s \<longleftrightarrow>
     durable_reachable enc s \<and> identity_keys_old s \<and> dispatched_once s \<and> pins_ordered s \<and>
     (\<exists>n. attempts_numbered s n)"

lemma view_run_state: "runtime_view enc rt s \<Longrightarrow> run_state enc s"
  by (auto simp: runtime_view_def run_state_def)

lemma new_run_identity:
  assumes "committed (DurableRunState_new r) ''workflow-replay-identity'' (RecordWorkflowReplayIdentity i) s"
  shows "ds_workflow_replay_identity s = Some i \<and> ds_run_id s = r \<and> journal_mirror DurableJournal_new s \<and>
    ds_completion_history s = [] \<and> ds_admission_history s = [] \<and> ds_dispatch_history s = [] \<and>
    fmdom (ds_cancellations s) = {||} \<and> identity_keys_old s"
  using assms
proof (cases rule: committed_cases)
  case replay
  then show ?thesis by (simp add: DurableRunState_new_def contains_key_def)
next
  case (fresh c v l)
  then have c: "c = (DurableRunState_new r)\<lparr>ds_workflow_replay_identity := Some i\<rparr>"
    by (auto simp: record_replay_identity_def DurableRunState_new_def split: if_splits)
  have "journal_mirror DurableJournal_new c"
    using mirror_other [OF journal_mirror_new fresh(1)] by simp
  moreover have "identity_keys_old s"
    unfolding identity_keys_old_def fresh(3)
    by (auto simp: c DurableRunState_new_def contains_key_def split: if_splits)
  ultimately show ?thesis using fresh(3) c by (simp add: DurableRunState_new_def)
qed

lemma runtime_build_Inr:
  "runtime_build r w scopes sc configs j st v = Inr rt \<Longrightarrow>
     rt_run_id rt = r \<and> rt_workflow rt = w \<and> rt_scopes rt = scopes \<and> rt_context rt = context_from_scope sc \<and>
     rt_journal rt = j \<and> rt_store rt = st \<and> rt_store_revision rt = v \<and> rt_task_configs rt = configs \<and>
     rt_attempts rt = [] \<and> rt_pending_started rt = None \<and> rt_cancelled rt = {||} \<and> rt_next_attempt_number rt = 1"
  by (auto simp: runtime_build_def split: sum.splits)

lemma runtime_build_total: "\<exists>rt. runtime_build r w scopes sc configs j st v = Inr rt"
  by (simp add: runtime_build_def LosslessBuffer_new_def CoalescingBuffer_new_def LossyBuffer_new_def)

context runtime_host
begin

lemma created_revision_new:
  assumes ok: "store_ok st" and r: "valid_run r" and run: "created_revision ops st r = (st', Inr v)"
  shows "store_ok st' \<and> v = StoreRevision_INITIAL \<and> runs st' r = Some (DurableRunState_new r)"
proof -
  obtain st1 out where c: "so_create_run ops st r = (st1, out)" by fastforce
  show ?thesis
  proof (cases out)
    case (Inr v1)
    then show ?thesis using run c create_ok [OF ok r] by (auto simp: created_revision_def)
  next
    case (Inl e)
    then obtain existing s where "st' = st1" "v = StoreRevision_INITIAL" and load: "so_load_run ops st1 r = Inr s"
      and pristine: "is_pristine_bootstrap s"
      using run c by (auto simp: created_revision_def split: StoreError.splits sum.splits if_splits)
    moreover have "store_ok st1" using create_error [OF ok] c Inl by blast
    moreover have "runs st1 r = Some s" using load_ok [OF _ load] \<open>store_ok st1\<close> by simp
    ultimately show ?thesis using runs_reachable pristine_is_new [OF pristine] by metis
  qed
qed

lemma start_with_identity_inv:
  assumes ok: "store_ok st" and r: "valid_run r" and graph: "reachable_graph w" and inputs: "valid_inputs w configs"
    and i: "\<not> trim_is_empty (replay_identity_str i)"
    and legacy: "provenance = LegacyLiveObject \<Longrightarrow> i = WorkflowReplayIdentity (legacy_identity_text w configs)"
    and run: "start_with_identity ops r w scopes sc configs i provenance st = (st', Inr rt)"
  shows "runtime_inv enc store_ok runs rt" and "rt_store rt = st'" and "rt_run_id rt = r"
    and "rt_identity_provenance rt = provenance"
    and "\<exists>s. runs st' r = Some s \<and> ds_workflow_replay_identity s = Some i"
proof -
  let ?key = "''workflow-replay-identity''"
  have key: "\<not> trim_is_empty ?key" by (rule visible_not_blank [of "CHR ''w''"]) (simp_all add: byte_of_def)
  have done0: "ensure_unfinished_workflow w = Inr ()"
    using run by (auto simp: start_with_identity_def ensure_unfinished_workflow_def split: list.splits)
  then have facts: "completion_ids (wg_facts w) = []"
    by (auto simp: ensure_unfinished_workflow_def completion_ids_def split: list.splits)
  obtain st1 v where created: "created_revision ops st r = (st1, Inr v)"
    using run done0 by (auto simp: start_with_identity_def elim!: and_then_Inr)
  note new = created_revision_new [OF ok r created]
  let ?q = "CommitRequest_single r v (IdempotencyKey ?key) (RecordWorkflowReplayIdentity i)"
  obtain res rt0 where com: "so_commit ops st1 ?q = (st', Inr res)"
    and build: "runtime_build r w scopes sc configs DurableJournal_new st' (cm_revision res) = Inr rt0"
    and rt: "rt = rt0\<lparr>rt_identity_provenance := provenance\<rparr>"
    using run done0 created key by (auto simp: start_with_identity_def IdempotencyKey_new_def split: sum.splits prod.splits)
  have q: "valid_request ?q" using i key by (simp add: valid_request_def valid_batch_def CommitRequest_single_def)
  have q': "rq_run_id ?q = r" "rq_idempotency_key ?q = IdempotencyKey ?key" "rq_mutations ?q = [RecordWorkflowReplayIdentity i]"
    by (simp_all add: CommitRequest_single_def)
  obtain s where s: "commit_state enc (DurableRunState_new r) ?q = Inr (s, res)" "runs st' r = Some s" and ok': "store_ok st'"
    using commit_ok [OF _ q com] new q' by auto
  have reach: "durable_reachable enc (DurableRunState_new r)" using runs_reachable new by blast
  note com' = commit_state_committed [OF reach s(1) q'(2,3)]
  note ends = new_run_identity [OF com'(1)]
  have "durable_reachable enc s" using runs_reachable [OF ok' s(2)] by simp
  moreover have "attempts_numbered s 1" "dispatched_once s" "pins_ordered s"
    using ends by (simp_all add: attempts_numbered_def dispatched_once_def dispatches_of_def pins_ordered_def)
  ultimately have "runtime_view enc rt s"
    using ends runtime_build_Inr [OF build] rt graph inputs facts legacy com'(2)
    by (simp add: runtime_view_def known_attempts_def)
  then show "runtime_inv enc store_ok runs rt"
    using ok' s(2) runtime_build_Inr [OF build] rt by (simp add: runtime_inv_def)
  show "rt_store rt = st'" "rt_run_id rt = r" "rt_identity_provenance rt = provenance"
    using runtime_build_Inr [OF build] rt by simp_all
  show "\<exists>s. runs st' r = Some s \<and> ds_workflow_replay_identity s = Some i" using s(2) ends by blast
qed

end

section \<open>Restoring\<close>

lemma complete_fold_Inr:
  assumes "reachable_graph g" and "try_fold complete_step g cs = Inr g'"
  shows "reachable_graph g' \<and> completion_ids (wg_facts g') = completion_ids (wg_facts g) @ map cr_task_id cs \<and>
    wg_topology g' = wg_topology g \<and> wg_mutation_log g' = wg_mutation_log g"
  using assms
proof (induction cs arbitrary: g)
  case Nil
  then show ?case by simp
next
  case (Cons c cs)
  obtain h out where h: "complete g (cr_task_id c) = (h, Inr out)" and rest: "try_fold complete_step h cs = Inr g'"
    using Cons.prems(2) by (auto simp: complete_step_def [of g c] split: sum.splits prod.splits)
  have "reachable_graph h" using Cons.prems(1) h by (rule reachable_graph.completion)
  moreover have "completion_ids (wg_facts h) = completion_ids (wg_facts g) @ [cr_task_id c]" "wg_topology h = wg_topology g"
    "wg_mutation_log h = wg_mutation_log g"
    using h by (auto simp: complete_Inr_iff completion_ids_def)
  ultimately show ?case using Cons.IH [OF _ rest] by simp
qed

lemma without_facts_id:
  assumes "reachable_graph g" and "completion_ids (wg_facts g) = []"
  shows "without_facts g = g"
proof -
  have "wg_facts g = facts_of (completion_ids (wg_facts g))"
    using reachable_graph_wf [OF assms(1)] by (auto simp: wf_graph_def intro: wf_facts_facts_of)
  then have "wg_facts g = wg_facts (without_facts g)" using assms(2) by (simp add: without_facts_def facts_of_def)
  then show ?thesis by (cases g) (simp add: without_facts_def)
qed

lemma unfinished_no_ids: "ensure_unfinished_workflow w = Inr u \<Longrightarrow> completion_ids (wg_facts w) = []"
  by (auto simp: ensure_unfinished_workflow_def completion_ids_def split: list.splits)

lemma replay_workflow_Inr:
  assumes graph: "reachable_graph w" and new: "completion_ids (wg_facts w) = []" and run: "replay_workflow w cs = Inr w'"
  shows "reachable_graph w'" and "completion_ids (wg_facts w') = map dc_task_id cs"
    and "wg_topology w' = wg_topology w"
proof -
  have "try_fold complete_step w (map (\<lambda>c. \<lparr>cr_task_id = dc_task_id c\<rparr>) cs) = Inr w'"
    using run reachable_replay [OF graph] without_facts_id [OF graph new]
    by (auto simp: replay_workflow_def replay_with_facts_def split: sum.splits WorkflowGraphError.splits)
  from complete_fold_Inr [OF graph this] new show "reachable_graph w'" "completion_ids (wg_facts w') = map dc_task_id cs"
    "wg_topology w' = wg_topology w" by (simp_all add: comp_def)
qed

subsection \<open>Pins\<close>

lemma expected_identities_lookup:
  assumes "distinct (map cri_capability_id cs)"
  shows "fmlookup (expected_identities cs) k = map_of (map (\<lambda>c. (cri_capability_id c, c)) cs) k"
proof -
  have "fmlookup (fold (\<lambda>c m. fmupd (cri_capability_id c) c m) cs m) k =
      (case map_of (map (\<lambda>c. (cri_capability_id c, c)) cs) k of None \<Rightarrow> fmlookup m k | Some c \<Rightarrow> Some c)" for m
    using assms
  proof (induction cs arbitrary: m)
    case Nil
    then show ?case by simp
  next
    case (Cons c cs)
    have "map_of (map (\<lambda>c. (cri_capability_id c, c)) cs) (cri_capability_id c) = None"
      using Cons.prems by (auto simp: map_of_eq_None_iff)
    then show ?case using Cons by (auto split: option.splits)
  qed
  then show ?thesis by (auto simp: expected_identities_def split: option.splits)
qed

lemma ordered_by_id_unique:
  assumes "sorted_wrt (<) (map cri_capability_id xs)" and "sorted_wrt (<) (map cri_capability_id ys)"
    and sub: "set xs \<subseteq> set ys" and len: "length xs = length ys"
  shows "xs = ys"
proof -
  have d: "distinct (map cri_capability_id xs)" "distinct (map cri_capability_id ys)"
    using assms(1,2) strict_sorted_iff by blast+
  then have "card (set xs) = card (set ys)" using len by (metis distinct_card distinct_map)
  then have "set xs = set ys" using sub by (simp add: card_subset_eq)
  moreover from this have "map cri_capability_id xs = map cri_capability_id ys"
    using assms(1,2) by (intro strict_sorted_equal) simp_all
  moreover have "inj_on cri_capability_id (set ys)" using d(2) by (simp add: distinct_map)
  ultimately show ?thesis by (metis map_inj_on Un_absorb)
qed

lemma expected_pins_exact:
  assumes exp: "sorted_wrt (<) (map cri_capability_id expected)" and pins: "pins = map (\<lambda>r. pin_for rt (fst r)) (required_identities rt t)"
    and run: "check_expected_pins t expected pins = Inr ps"
  shows "ps = pins \<and> map cp_replay_identity pins = expected"
proof -
  have d: "distinct (map cri_capability_id expected)" using exp strict_sorted_iff by blast
  have ps: "ps = pins" and card: "fcard (fmdom (expected_identities expected)) = length pins"
    and mem: "\<forall>p\<in>set pins. fmlookup (expected_identities expected) (cp_capability_id p) = Some (cp_replay_identity p)"
    using run by (auto simp: check_expected_pins_def Let_def list_ex_iff split: if_splits)
  have "fmdom' (expected_identities expected) = set (map cri_capability_id expected)"
    unfolding set_eq_iff fmlookup_dom'_iff expected_identities_lookup [OF d] by (force dest: map_of_SomeD simp: map_of_eq_Some_iff d comp_def)
  then have "fcard (fmdom (expected_identities expected)) = length expected"
    using d distinct_card [of "map cri_capability_id expected"] by (simp add: fcard.rep_eq fmdom'_alt_def)
  then have "length (map cp_replay_identity pins) = length expected" using card by simp
  moreover have "set (map cp_replay_identity pins) \<subseteq> set expected"
    using mem by (auto simp: expected_identities_lookup [OF d] dest!: map_of_SomeD)
  moreover have "sorted_wrt (<) (map cri_capability_id (map cp_replay_identity pins))"
    using required_identities_ordered [of rt t] by (simp add: pins comp_def)
  ultimately show ?thesis using ordered_by_id_unique [OF _ exp] ps by blast
qed

lemma restore_attempt_Inr:
  assumes "restore_attempt rt adm = Inr rt'" and "sorted_wrt (<) (map cri_capability_id (aa_capabilities adm))"
  shows "\<exists>a. rt' = rt\<lparr>rt_attempts := rt_attempts rt @ [a]\<rparr> \<and> attempt_admission a = adm"
proof -
  obtain ps where ps: "capture_capability_pins rt (aa_task_id adm) (Some (aa_capabilities adm)) = Inr ps"
    and rt': "rt' = rt\<lparr>rt_attempts := rt_attempts rt @ [\<lparr>ta_run_id = aa_run_id adm, ta_task_id = aa_task_id adm,
              ta_attempt_id = aa_attempt_id adm, ta_operation_id = aa_operation_id adm, ta_capability_pins = ps\<rparr>]\<rparr>"
    using assms(1) by (auto simp: restore_attempt_def split: sum.splits)
  obtain pins where fold: "try_fold (capture_pin rt (aa_task_id adm)) [] (required_identities rt (aa_task_id adm)) = Inr pins"
    and check: "check_expected_pins (aa_task_id adm) (aa_capabilities adm) pins = Inr ps"
    using ps by (auto simp: capture_capability_pins_def split: sum.splits)
  have "pins = map (\<lambda>r. pin_for rt (fst r)) (required_identities rt (aa_task_id adm))"
    using fold by (simp add: capture_fold_Inr)
  then have "map cp_replay_identity ps = aa_capabilities adm" using expected_pins_exact [OF assms(2) _ check] by blast
  then have "attempt_admission \<lparr>ta_run_id = aa_run_id adm, ta_task_id = aa_task_id adm, ta_attempt_id = aa_attempt_id adm,
      ta_operation_id = aa_operation_id adm, ta_capability_pins = ps\<rparr> = adm"
    by (cases adm) (simp add: attempt_admission_def)
  then show ?thesis using rt' by blast
qed

lemma restore_attempts_Inr:
  assumes "try_fold restore_attempt rt adms = Inr rt'"
    and "list_all (\<lambda>adm. sorted_wrt (<) (map cri_capability_id (aa_capabilities adm))) adms"
  shows "\<exists>xs. rt' = rt\<lparr>rt_attempts := rt_attempts rt @ xs\<rparr> \<and> map attempt_admission xs = adms"
  using assms
proof (induction adms arbitrary: rt)
  case Nil
  then show ?case by (intro exI [of _ "[]"]) simp
next
  case (Cons adm adms)
  then obtain rt1 where first: "restore_attempt rt adm = Inr rt1" and rest: "try_fold restore_attempt rt1 adms = Inr rt'"
    by (auto split: sum.splits)
  obtain a where a: "rt1 = rt\<lparr>rt_attempts := rt_attempts rt @ [a]\<rparr>" "attempt_admission a = adm"
    using restore_attempt_Inr [OF first] Cons.prems(2) by auto
  obtain xs where "rt' = rt1\<lparr>rt_attempts := rt_attempts rt1 @ xs\<rparr>" "map attempt_admission xs = adms"
    using Cons.IH [OF rest] Cons.prems(2) by auto
  then show ?case using a by (intro exI [of _ "a # xs"]) simp
qed

lemma cancelled_fold:
  assumes "cancellations_ok s"
  shows "fold (\<lambda>c m. finsert (ca_task_id c) m) (ds_cancellations_values s) {||} = fmdom (ds_cancellations s)"
proof -
  have "fold (\<lambda>c m. finsert (ca_task_id c) m) cs A = A |\<union>| fset_of_list (map ca_task_id cs)" for cs A
    by (induction cs arbitrary: A) auto
  from this [of "ds_cancellations_values s" "{||}"]
  have "fold (\<lambda>c m. finsert (ca_task_id c) m) (ds_cancellations_values s) {||} =
      fset_of_list (map ca_task_id (ds_cancellations_values s))" by simp
  also have "map ca_task_id (ds_cancellations_values s) = bm_keys (ds_cancellations s)"
    using assms by (auto simp: ds_cancellations_values_def bm_values_def cancellations_ok_def fmlookup_dom'_iff intro!: map_idI)
  also have "fset_of_list (bm_keys (ds_cancellations s)) = fmdom (ds_cancellations s)"
    by (simp add: fset_eq_iff fset_of_list_elem fmdom'_alt_def)
  finally show ?thesis .
qed

lemma restored_number:
  assumes "attempts_numbered s m" and "checked_add_u64 (word_of_nat (length (ds_admission_history s))) 1 = Some n"
  shows "attempts_numbered s n"
proof -
  let ?k = "length (ds_admission_history s)"
  have small: "?k < 2 ^ 64"
    using assms(1) unsigned_less [of m, where ?'a = nat] by (auto simp: attempts_numbered_def)
  then have k: "unat (word_of_nat ?k :: u64) = ?k" by (simp add: unsigned_of_nat take_bit_nat_eq_self)
  then have "unat n = Suc ?k" using checked_add_one_Some [OF assms(2)] by simp
  then show ?thesis using assms(1) by (simp add: attempts_numbered_def)
qed

lemma legacy_identity_text_topology:
  "wg_topology w' = wg_topology w \<Longrightarrow> legacy_identity_text w' configs = legacy_identity_text w configs"
  by (simp add: legacy_identity_text_def graph_edges_def)

lemma restore_loaded_view:
  assumes state: "run_state enc s" and run_id: "ds_run_id s = r"
    and graph: "reachable_graph w" and new: "completion_ids (wg_facts w) = []" and inputs: "valid_inputs w configs"
    and legacy: "provenance = LegacyLiveObject \<Longrightarrow>
      ds_workflow_replay_identity s = Some (WorkflowReplayIdentity (legacy_identity_text w configs))"
    and run: "restore_loaded r w scopes sc configs st provenance s = Inr rt"
  shows "runtime_view enc rt s" and "rt_store rt = st" and "rt_identity_provenance rt = provenance"
    and "map attempt_admission (rt_attempts rt) = ds_admission_history s" and "rt_pending_started rt = None"
    and "rt_task_configs rt = configs" and "wg_topology (rt_workflow rt) = wg_topology w"
proof -
  have reach: "durable_reachable enc s" using state by (simp add: run_state_def)
  note lin = durable_reachable_lineage [OF reach]
  obtain w' j rt0 rt1 n where w': "replay_workflow w (ds_completion_history s) = Inr w'"
    and j: "from_durable_state s = Inr j"
    and build: "runtime_build r w' scopes sc configs j st (ds_revision s) = Inr rt0"
    and fold: "try_fold restore_attempt (rt0\<lparr>rt_identity_provenance := provenance, rt_cancelled :=
        fold (\<lambda>c m. finsert (ca_task_id c) m) (ds_cancellations_values s) {||}\<rparr>) (ds_admission_history s) = Inr rt1"
    and n: "checked_add_u64 (word_of_nat (length (ds_admission_history s))) 1 = Some n"
    and rt: "rt = rt1\<lparr>rt_next_attempt_number := n\<rparr>"
    using run by (auto simp: restore_loaded_def split: sum.splits option.splits)
  note graph' = replay_workflow_Inr [OF graph new w']
  note b = runtime_build_Inr [OF build]
  have "cancellations_ok s" using lin by (simp add: lineage_def)
  note cancelled = cancelled_fold [OF this]
  obtain xs where rt1: "rt1 = rt0\<lparr>rt_identity_provenance := provenance, rt_cancelled := fmdom (ds_cancellations s),
      rt_attempts := rt_attempts rt0 @ xs\<rparr>" and xs: "map attempt_admission xs = ds_admission_history s"
    using restore_attempts_Inr [OF fold] state by (auto simp: run_state_def pins_ordered_def cancelled)
  have num: "attempts_numbered s n" using restored_number [OF _ n] state by (auto simp: run_state_def)
  have task_eq: "graph_task w' t = graph_task w t" for t using graph'(3) by (simp add: graph_task_def)
  have mem: "attempt_admission ` set xs \<subseteq> set (ds_admission_history s)" using arg_cong [OF xs, of set] by simp
  have "runtime_view enc rt s"
    unfolding runtime_view_def
    using state run_id b rt rt1 mem num j lin graph' inputs legacy legacy_identity_text_topology [OF graph'(3), of configs]
    by (simp add: run_state_def known_attempts_def mirror_rebuild valid_inputs_def task_eq)
  then show "runtime_view enc rt s" .
  show "rt_store rt = st" "rt_identity_provenance rt = provenance" "rt_pending_started rt = None"
    "map attempt_admission (rt_attempts rt) = ds_admission_history s" "rt_task_configs rt = configs"
    "wg_topology (rt_workflow rt) = wg_topology w"
    using b rt rt1 xs graph'(3) by simp_all
qed

text \<open>
  The histories of a run: it is started, from live objects or from a definition, its host makes
  any calls in any order, and now and then the process is lost and the run is restored from its
  store. Every runtime in a history satisfies the invariant.
\<close>

section \<open>Valid inputs\<close>

text \<open>
  Identifiers of the source cannot be blank (\<^verbatim>\<open>Id::new\<close> rejects them); a value of the model
  is valid when its identifiers are.
\<close>

definition valid_task_definition :: "TaskDefinition \<Rightarrow> bool" where
  "valid_task_definition t \<longleftrightarrow>
     valid_id (td_id t) \<and> list_all (\<lambda>q. valid_id (cq_capability_id q)) (td_required_capabilities t) \<and>
     (\<forall>e. td_effect t = Some e \<longrightarrow> valid_id (operation_id_of (es_operation_id e)))"

definition valid_live_inputs :: "WorkflowGraph \<Rightarrow> (Id \<times> TaskConfig) list \<Rightarrow> bool" where
  "valid_live_inputs w configs \<longleftrightarrow>
     reachable_graph w \<and> (\<forall>t. graph_task w t \<noteq> None \<longrightarrow> valid_id t) \<and> list_all (\<lambda>c. valid_config (snd c)) configs"

lemma collect_task_configs_valid:
  assumes "valid_live_inputs w configs" and "collect_task_configs w configs = Inr m"
  shows "valid_inputs w m"
proof -
  let ?P = "\<lambda>m. \<forall>t c. fmlookup m t = Some c \<longrightarrow> valid_config c"
  have "?P m"
    using assms(2) unfolding collect_task_configs_def
    by (rule try_fold_invariant [where P = ?P, rotated 2])
      (use assms(1) in \<open>auto simp: collect_task_config_def valid_live_inputs_def list_all_iff split: if_splits\<close>)
  then show ?thesis using assms(1) by (simp add: valid_inputs_def valid_live_inputs_def)
qed

lemma fold_keeps:
  assumes "\<And>x s. x \<in> set xs \<Longrightarrow> P s \<Longrightarrow> P (f x s)" and "P s"
  shows "P (fold f xs s)"
  using assms by (induction xs arbitrary: s) auto

lemma definition_task_config_valid:
  assumes "valid_task_definition t"
  shows "valid_config (definition_task_config t)"
proof -
  define c where "c = fold (\<lambda>q c. require_capability_with_identity c (cq_capability_id q) (identity_str (cq_definition_identity q)))
      (td_required_capabilities t) TaskConfig_new"
  have "valid_config c"
    unfolding c_def
  proof (rule fold_keeps)
    fix q a
    assume "q \<in> set (td_required_capabilities t)" "valid_config a"
    then show "valid_config (require_capability_with_identity a (cq_capability_id q) (identity_str (cq_definition_identity q)))"
      using assms
      by (simp add: valid_task_definition_def list_all_iff valid_config_def require_capability_with_identity_def contains_key_def)
  qed (simp add: valid_config_def TaskConfig_new_def contains_key_def)
  then show ?thesis
    using assms
    by (auto simp: definition_task_config_def c_def [symmetric] Let_def config_with_effect_def valid_config_def
        valid_task_definition_def split: option.splits)
qed

lemma fold_fmupd_range:
  assumes "\<forall>x\<in>set xs. P (g x)" and "\<forall>t c. fmlookup m t = Some c \<longrightarrow> P c"
  shows "\<forall>t c. fmlookup (fold (\<lambda>x m. fmupd (f x) (g x) m) xs m) t = Some c \<longrightarrow> P c"
  by (rule fold_keeps [where P = "\<lambda>m. \<forall>t c. fmlookup m t = Some c \<longrightarrow> P c"]) (use assms in auto)

lemma runtime_inputs_valid:
  assumes v: "\<forall>t\<in>set (bm_values (vd_tasks v)). valid_task_definition t" and run: "runtime_inputs v = Inr (w, configs)"
  shows "reachable_graph w" and "valid_inputs w configs"
proof -
  have configs: "configs = fold (\<lambda>t m. fmupd (td_id t) (definition_task_config t) m) (bm_values (vd_tasks v)) fmempty"
    and w: "w = WorkflowGraph_default \<or> (\<exists>entry. apply_batch WorkflowGraph_default (wg_topology_revision WorkflowGraph_default)
        (MutationBatch_from_mutations (definition_mutations (vd_tasks v))) = (w, Inr entry))"
    using run by (auto simp: runtime_inputs_def Let_def split: if_splits prod.splits sum.splits)
  show "reachable_graph w" using w reachable_graph.batch [OF reachable_graph.default] reachable_graph.default by blast
  have "\<forall>t c. fmlookup configs t = Some c \<longrightarrow> valid_config c"
    unfolding configs by (rule fold_fmupd_range) (use v definition_task_config_valid in auto)
  moreover have "list_all valid_task_mutation (mb_mutations (MutationBatch_from_mutations (definition_mutations (vd_tasks v))))"
    using v by (auto simp: MutationBatch_from_mutations_def definition_mutations_def list_all_iff valid_task_definition_def)
  then have "\<forall>t. graph_task w t \<noteq> None \<longrightarrow> valid_id t"
    using w apply_batch_valid [of WorkflowGraph_default]
    by (auto simp: WorkflowGraph_default_def graph_task_def topology_task_def)
  ultimately show "valid_inputs w configs" by (simp add: valid_inputs_def)
qed

definition valid_run_definition :: "RunDefinition \<Rightarrow> bool" where
  "valid_run_definition d \<longleftrightarrow> list_all valid_task_definition (rn_tasks d)"

lemma validated_inputs_valid:
  assumes "valid_run_definition d" and "validated d = Inr v" and "runtime_inputs v = Inr (w, configs)"
  shows "reachable_graph w" and "valid_inputs w configs"
proof -
  have v: "valid_definition d" "v = validated_form d" using assms(2) by (simp_all add: validated_Inr_iff)
  then have "set (bm_values (vd_tasks v)) \<subseteq> set (rn_tasks d)"
    by (auto simp: validated_form_def task_map_def valid_definition_def index_by_values)
  then have "\<forall>t\<in>set (bm_values (vd_tasks v)). valid_task_definition t"
    using assms(1) by (auto simp: valid_run_definition_def list_all_iff)
  from runtime_inputs_valid [OF this assms(3)] show "reachable_graph w" "valid_inputs w configs" .
qed

lemma runtime_inputs_no_facts:
  assumes "runtime_inputs v = Inr (w, configs)"
  shows "completion_ids (wg_facts w) = []"
proof -
  have "w = WorkflowGraph_default \<or> (\<exists>r b entry. apply_batch WorkflowGraph_default r b = (w, Inr entry))"
    using assms by (auto simp: runtime_inputs_def Let_def split: if_splits prod.splits sum.splits)
  moreover have "wf_graph WorkflowGraph_default" by (rule reachable_graph_wf [OF reachable_graph.default])
  ultimately have "completion_ids (wg_facts w) = completion_ids (wg_facts WorkflowGraph_default)"
    using apply_batch_completion_ids by metis
  then show ?thesis by (simp add: WorkflowGraph_default_def completion_ids_def)
qed

section \<open>Calls and histories\<close>

text \<open>
  One call of the host on a runtime, with any arguments and any result; in between the host may
  change its scopes, which the runtime only reads.
\<close>

inductive runtime_call :: "'st store_ops \<Rightarrow> ('v, 'st) Runtime \<Rightarrow> ('v, 'st) Runtime \<Rightarrow> bool" for ops where
  call_intent: "valid_id (operation_id_of x) \<Longrightarrow> record_effect_intent ops rt t x k = (rt', ri) \<Longrightarrow> runtime_call ops rt rt'"
| call_dispatch: "dispatch_effect ops rt x = (rt', rd) \<Longrightarrow> runtime_call ops rt rt'"
| call_outcome: "record_effect_outcome ops rt x a out = (rt', ro) \<Longrightarrow> runtime_call ops rt rt'"
| call_recover: "recover ops rt x = (rt', rr) \<Longrightarrow> runtime_call ops rt rt'"
| call_cancel: "cancel_task ops rt t = (rt', rc) \<Longrightarrow> runtime_call ops rt rt'"
| call_step: "runtime_step ops rt = (rt', rs) \<Longrightarrow> runtime_call ops rt rt'"
| call_run: "run_until_blocked ops rt [] = (rt', rb) \<Longrightarrow> runtime_call ops rt rt'"
| call_configure: "valid_config c \<Longrightarrow> configure_task ops rt t c = (rt', rf) \<Longrightarrow> runtime_call ops rt rt'"
| call_mutate: "list_all valid_task_mutation (mb_mutations b) \<Longrightarrow> apply_workflow_mutation ops rt v b = (rt', rm) \<Longrightarrow>
    runtime_call ops rt rt'"
| call_retry: "retry_execution_event rt item = (rt', re) \<Longrightarrow> runtime_call ops rt rt'"
| call_progress: "emit_progress rt t p = (rt', rp) \<Longrightarrow> runtime_call ops rt rt'"
| call_telemetry: "emit_telemetry rt m = (rt', ru) \<Longrightarrow> runtime_call ops rt rt'"
| call_drain_execution: "drain_execution_events rt = (rt', items) \<Longrightarrow> runtime_call ops rt rt'"
| call_drain_progress: "drain_progress_events rt = (rt', updates) \<Longrightarrow> runtime_call ops rt rt'"
| call_drain_telemetry: "drain_telemetry_events rt = (rt', items) \<Longrightarrow> runtime_call ops rt rt'"
| host_scopes: "runtime_call ops rt (rt\<lparr>rt_scopes := st\<rparr>)"

text \<open>A run from its start, over any number of losses of the process.\<close>

inductive run_history :: "'st store_ops \<Rightarrow> ('st \<Rightarrow> bool) \<Rightarrow> ('v, 'st) Runtime \<Rightarrow> bool" for ops store_ok where
  started: "store_ok st \<Longrightarrow> valid_run r \<Longrightarrow> valid_live_inputs w configs \<Longrightarrow>
    start_run_with_store ops r w scopes sc configs st = (st', Inr rt) \<Longrightarrow> run_history ops store_ok rt"
| declared: "store_ok st \<Longrightarrow> valid_run r \<Longrightarrow> valid_run_definition d \<Longrightarrow>
    start_from_definition_with_store ops n r d factories st = (st', Inr rt) \<Longrightarrow> run_history ops store_ok rt"
| called: "run_history ops store_ok rt \<Longrightarrow> runtime_call ops rt rt' \<Longrightarrow> run_history ops store_ok rt'"
| restored: "run_history ops store_ok rt \<Longrightarrow> valid_live_inputs w configs \<Longrightarrow>
    restore_run ops (rt_run_id rt) w scopes sc configs (rt_store rt) = Inr rt' \<Longrightarrow> run_history ops store_ok rt'"
| redeclared: "run_history ops store_ok rt \<Longrightarrow> valid_run_definition d \<Longrightarrow>
    restore_from_definition ops n (rt_run_id rt) d factories (rt_store rt) = Inr rt' \<Longrightarrow> run_history ops store_ok rt'"

lemma canonical_identity_visible:
  assumes "validated d = Inr v"
  shows "\<not> trim_is_empty (replay_identity_str (vd_identity v))"
  using assms
  by (auto simp: validated_def canonical_identity_def WorkflowReplayIdentity_new_def split: sum.splits if_splits)

lemma legacy_identity_Inr:
  "legacy_workflow_replay_identity w m = Inr i \<longleftrightarrow>
     i = WorkflowReplayIdentity (legacy_identity_text w m) \<and> \<not> trim_is_empty (legacy_identity_text w m)"
  by (auto simp: legacy_workflow_replay_identity_def WorkflowReplayIdentity_new_def)

context runtime_host
begin

lemma runtime_call_inv:
  assumes "runtime_call ops rt rt'" and "runtime_inv enc store_ok runs rt"
  shows "runtime_inv enc store_ok runs rt'"
  using assms
proof (cases rule: runtime_call.cases)
  case (host_scopes st)
  then show ?thesis using assms(2) by (simp add: runtime_inv_def runtime_view_def known_attempts_def)
qed (blast dest: record_effect_intent_inv dispatch_effect_inv(1) record_effect_outcome_inv recover_inv cancel_task_inv
    runtime_step_inv run_until_blocked_inv configure_task_inv apply_workflow_mutation_inv retry_execution_event_inv
    observation_same runtime_inv_same)+

lemma start_run_inv:
  assumes "store_ok st" and "valid_run r" and "valid_live_inputs w configs"
    and run: "start_run_with_store ops r w scopes sc configs st = (st', Inr rt)"
  shows "runtime_inv enc store_ok runs rt"
proof -
  obtain m i where m: "collect_task_configs w configs = Inr m" and i: "legacy_workflow_replay_identity w m = Inr i"
    and start: "start_with_identity ops r w scopes sc m i LegacyLiveObject st = (st', Inr rt)"
    using run by (auto simp: start_run_with_store_def split: sum.splits)
  show ?thesis
    by (rule start_with_identity_inv(1) [OF assms(1,2) _ collect_task_configs_valid [OF assms(3) m] _ _ start])
      (use assms(3) i in \<open>auto simp: valid_live_inputs_def legacy_identity_Inr\<close>)
qed

lemma start_from_definition_inv:
  assumes "store_ok st" and "valid_run r" and "valid_run_definition d"
    and run: "start_from_definition_with_store ops n r d factories st = (st', Inr rt)"
  shows "runtime_inv enc store_ok runs rt"
proof -
  obtain v w configs scopes where v: "validated d = Inr v" and inputs: "runtime_inputs v = Inr (w, configs)"
    and start: "start_with_identity ops r w scopes [] configs (vd_identity v) DeclarativeDefinition st = (st', Inr rt)"
    using run by (auto simp: start_from_definition_with_store_def split: sum.splits)
  note valid = validated_inputs_valid [OF assms(3) v inputs]
  show ?thesis
    by (rule start_with_identity_inv(1) [OF assms(1,2) valid canonical_identity_visible [OF v] _ start]) simp
qed

lemma restore_loaded_inv:
  assumes inv: "runtime_inv enc store_ok runs rt" and load: "so_load_run ops (rt_store rt) (rt_run_id rt) = Inr s"
    and "reachable_graph w" and "completion_ids (wg_facts w) = []" and "valid_inputs w configs"
    and "provenance = LegacyLiveObject \<Longrightarrow>
      ds_workflow_replay_identity s = Some (WorkflowReplayIdentity (legacy_identity_text w configs))"
    and run: "restore_loaded (rt_run_id rt) w scopes sc configs (rt_store rt) provenance s = Inr rt'"
  shows "runtime_inv enc store_ok runs rt'"
proof -
  have ok: "store_ok (rt_store rt)" and s: "runs (rt_store rt) (rt_run_id rt) = Some s" and view: "runtime_view enc rt s"
    using inv load_ok [OF _ load] by (auto simp: runtime_inv_def)
  have "ds_run_id s = rt_run_id rt" using view by (simp add: runtime_view_def)
  note r = restore_loaded_view [OF view_run_state [OF view] this assms(3-6) run]
  have "rt_run_id rt' = rt_run_id rt" using r(1) view by (simp add: runtime_view_def)
  then show ?thesis using r(1,2) ok s by (auto simp: runtime_inv_def)
qed

lemma restore_run_inv:
  assumes inv: "runtime_inv enc store_ok runs rt" and valid: "valid_live_inputs w configs"
    and run: "restore_run ops (rt_run_id rt) w scopes sc configs (rt_store rt) = Inr rt'"
  shows "runtime_inv enc store_ok runs rt'"
proof -
  obtain m s i where new: "ensure_unfinished_workflow w = Inr ()" and m: "collect_task_configs w configs = Inr m"
    and load: "so_load_run ops (rt_store rt) (rt_run_id rt) = Inr s" and i: "legacy_workflow_replay_identity w m = Inr i"
    and same: "ds_workflow_replay_identity s = Some i"
    and loaded: "restore_loaded (rt_run_id rt) w scopes sc m (rt_store rt) LegacyLiveObject s = Inr rt'"
    using run by (auto simp: restore_run_def split: sum.splits if_splits)
  show ?thesis
    by (rule restore_loaded_inv [OF inv load _ unfinished_no_ids [OF new] collect_task_configs_valid [OF valid m] _ loaded])
      (use valid i same in \<open>auto simp: valid_live_inputs_def legacy_identity_Inr\<close>)
qed

lemma restore_from_definition_inv:
  assumes inv: "runtime_inv enc store_ok runs rt" and valid: "valid_run_definition d"
    and run: "restore_from_definition ops n (rt_run_id rt) d factories (rt_store rt) = Inr rt'"
  shows "runtime_inv enc store_ok runs rt'"
proof -
  obtain v s w configs scopes where v: "validated d = Inr v" and load: "so_load_run ops (rt_store rt) (rt_run_id rt) = Inr s"
    and inputs: "runtime_inputs v = Inr (w, configs)"
    and loaded: "restore_loaded (rt_run_id rt) w scopes [] configs (rt_store rt) DeclarativeDefinition s = Inr rt'"
    using run by (auto simp: restore_from_definition_def split: sum.splits)
  note ok = validated_inputs_valid [OF valid v inputs]
  show ?thesis
    by (rule restore_loaded_inv [OF inv load ok(1) runtime_inputs_no_facts [OF inputs] ok(2) _ loaded]) simp
qed

lemma history_inv: "run_history ops store_ok rt \<Longrightarrow> runtime_inv enc store_ok runs rt"
proof (induction rule: run_history.induct)
  case (started st r w configs scopes sc st' rt)
  then show ?case by (rule start_run_inv)
next
  case (declared st r d n factories st' rt)
  then show ?case by (rule start_from_definition_inv)
next
  case (called rt rt')
  then show ?case using runtime_call_inv by blast
next
  case (restored rt w configs scopes sc rt')
  then show ?case using restore_run_inv by blast
next
  case (redeclared rt d n factories rt')
  then show ?case using restore_from_definition_inv by blast
qed

end

text \<open>The two stores of the crate host a runtime.\<close>

interpretation memory_host: runtime_host enc "memory_ops enc" "memory_ok enc" "\<lambda>st. fmlookup (im_runs st)" for enc
  using memory.durable_store_axioms [of enc] by (simp add: runtime_host_def memory_ops_def)

definition file_ops :: "postcard \<Rightarrow> 'db redb \<Rightarrow> 'db store_ops" where
  "file_ops pc rb = \<lparr>so_create_run = file_create_run pc rb, so_load_run = file_load_run pc rb, so_commit = file_commit pc rb\<rparr>"

lemma file_host:
  assumes "postcard_roundtrip pc" and "redb_laws rb content"
  shows "runtime_host (pc_binding pc) (file_ops pc rb) (file_ok pc content) (file_runs pc content)"
  using file_durable_store [OF assms] by (simp add: runtime_host_def file_ops_def)

end
