(* ===== verification/Runtime_Safety.thy ===== *)
theory Runtime_Safety
  imports Runtime_Runs
begin

text \<open>
  Two consequences of the invariant: the \<^verbatim>\<open>expect\<close> and \<^verbatim>\<open>unreachable!\<close> calls of the runtime are
  never reached, and a restore in an unchanged environment succeeds with the same memory.
\<close>

section \<open>Panics\<close>

abbreviation panics :: "'s \<times> (RuntimeError + 'a) \<Rightarrow> bool" where
  "panics r \<equiv> snd r = Inl RuntimePanic"

lemma and_then_panics:
  assumes "\<not> panics r" and "\<And>s x. r = (s, Inr x) \<Longrightarrow> \<not> panics (f s x)"
  shows "\<not> panics (and_then r f)"
proof (cases r)
  case (Pair s out)
  then show ?thesis using assms by (cases out) auto
qed

lemma commit_durable_no_panic: "\<not> panics (commit_durable ops rt key ms)"
  by (auto simp: commit_durable_def split: sum.splits prod.splits)

lemma emit_completed_no_panic: "\<not> panics (emit_completed rt t a)"
  by (auto simp: emit_completed_def emit_execution_def enqueue_execution_def and_then_def
      split: sum.splits prod.splits PushError.splits)

lemma complete_task_no_panic: "\<not> panics (complete_task ops rt t a)"
proof (cases "complete (rt_workflow rt) t")
  case (Pair w out)
  show ?thesis
  proof (cases out)
    case (Inl e)
    then show ?thesis using Pair by (simp add: complete_task_def)
  next
    case (Inr c)
    have "\<not> panics (and_then (commit_durable ops rt (''completion:'' @ as_str t @ '':'' @ AttemptId_as_str a)
        [RecordCompletion \<lparr>dc_task_id = t, dc_attempt_id = a\<rparr>]) (\<lambda>rt _. emit_completed (rt\<lparr>rt_workflow := w\<rparr>) t a))"
      by (intro and_then_panics commit_durable_no_panic emit_completed_no_panic)
    then show ?thesis using Pair Inr by (simp add: complete_task_def)
  qed
qed

lemma capture_pins_no_panic: "capture_capability_pins rt t expected \<noteq> Inl RuntimePanic"
proof -
  have "try_fold (capture_pin rt t) ps rs \<noteq> Inl RuntimePanic" for ps rs
    by (induction rs arbitrary: ps) (auto simp: capture_pin_def split: sum.splits option.splits if_splits prod.splits)
  then show ?thesis
    by (auto simp: capture_capability_pins_def check_expected_pins_def Let_def split: sum.splits option.splits if_splits)
qed

lemma begin_attempt_no_panic: "\<not> panics (begin_attempt ops rt t x)"
proof -
  obtain rt' r where run: "begin_attempt ops rt t x = (rt', r)" by fastforce
  then have "r \<noteq> Inl RuntimePanic"
  proof (cases rule: begin_attempt_cases)
    case (pins e)
    then show ?thesis using capture_pins_no_panic [of rt t None] by auto
  next
    case (store ps a e)
    then show ?thesis
      using commit_durable_no_panic [of ops rt "''admit:'' @ AttemptId_as_str (ta_attempt_id a)"
          "[AdmitAttempt (attempt_admission a)]"] by auto
  next
    case (admitted ps a v rt1 n)
    from admitted(5) show ?thesis by (cases rule: publish_started_cases) auto
  qed simp
  then show ?thesis using run by simp
qed

lemma attempt_or_begin_no_panic: "\<not> panics (attempt_or_begin ops rt t x)"
  using begin_attempt_no_panic [of ops rt t x] by (simp add: attempt_or_begin_def split: option.splits)

lemma complete_step_task_no_panic: "\<not> panics (complete_step_task ops t rt a)"
  unfolding complete_step_task_def by (rule and_then_panics) (simp_all add: complete_task_no_panic)

lemma classify_runtime_no_panic: "classify_runtime rt x \<noteq> Inl RuntimePanic"
  by (auto simp: classify_runtime_def classify_recovery_def journal_intent_def journal_state_def decide_def Let_def
      split: option.splits sum.splits JournalError.splits if_splits KnownEffectOutcome.splits EffectSemantics.splits prod.splits)

lemma record_effect_intent_no_panic: "\<not> panics (record_effect_intent ops rt t x k)"
proof -
  have "\<not> panics (and_then (commit_durable ops rt (''intent:'' @ OperationId_as_str x)
      [RecordIntent \<lparr>ei_task_id = t, ei_operation_id = x, ei_semantics = k\<rparr>]) (\<lambda>rt _. (rt\<lparr>rt_journal := j\<rparr>, Inr ())))" for j
    by (rule and_then_panics) (simp_all add: commit_durable_no_panic)
  then show ?thesis unfolding record_effect_intent_def by (auto simp: Let_def split: sum.splits)
qed

lemma ensure_configured_effect_no_panic: "\<not> panics (ensure_configured_effect ops rt t)"
proof -
  have "\<not> panics (and_then (record_effect_intent ops rt t x k) (\<lambda>rt _. (rt, Inr (Some (x, k)))))" for x k
    by (rule and_then_panics) (simp_all add: record_effect_intent_no_panic)
  then show ?thesis
    unfolding ensure_configured_effect_def by (auto split: sum.splits option.splits)
qed

text \<open>Where an intent is recorded, the effect has a state.\<close>

lemma step_effect_no_panic:
  assumes "contains_key (jr_intents (rt_journal rt)) x"
  shows "\<not> panics (step_effect ops t rt x)"
proof (cases "journal_state (rt_journal rt) x")
  case Prepared
  have "\<not> panics (and_then (attempt_or_begin ops rt t (Some x)) (\<lambda>rt a. (rt, Inr (EffectPending t a x))))"
    by (rule and_then_panics) (simp_all add: attempt_or_begin_no_panic)
  then show ?thesis using Prepared by (simp add: step_effect_def)
next
  case OutcomeUnknown
  then show ?thesis using classify_runtime_no_panic [of rt x] by (auto simp: step_effect_def split: sum.splits)
next
  case (OutcomeKnown k)
  then obtain out where "known_outcome (rt_journal rt) x = Some out"
    by (auto simp: journal_state_def split: if_splits option.splits)
  then show ?thesis
    using OutcomeKnown complete_step_task_no_panic by (cases k) (simp_all add: step_effect_def)
next
  case EffectNotPrepared
  then show ?thesis using assms by (auto simp: journal_state_def split: if_splits option.splits)
qed

lemma intent_recorded:
  assumes "record_effect_intent ops rt t x k = (rt', Inr u)"
  shows "contains_key (jr_intents (rt_journal rt')) x"
proof -
  let ?i = "\<lparr>ei_task_id = t, ei_operation_id = x, ei_semantics = k\<rparr>"
  obtain j where j: "persist_intent (rt_journal rt) ?i = Inr j"
    and run: "and_then (commit_durable ops rt (''intent:'' @ OperationId_as_str x) [RecordIntent ?i])
      (\<lambda>rt _. (rt\<lparr>rt_journal := j\<rparr>, Inr ())) = (rt', Inr u)"
    using assms unfolding record_effect_intent_def by (auto simp: Let_def split: if_splits sum.splits)
  have "contains_key (jr_intents j) x"
    using j by (auto simp: persist_intent_def contains_key_def split: if_splits option.splits)
  moreover have "rt_journal rt' = j" using run by (auto elim!: and_then_Inr)
  ultimately show ?thesis by simp
qed

lemma configured_effect_recorded:
  assumes "runtime_view enc rt s" and "ensure_configured_effect ops rt t = (rt', Inr (Some (x, k)))"
  shows "contains_key (jr_intents (rt_journal rt')) x"
proof (cases "journal_operation_for_task (rt_journal rt) t")
  case (Some y)
  then show ?thesis
    using assms(2) view_operation_valid [OF assms(1) Some]
    by (auto simp: ensure_configured_effect_def contains_key_def split: sum.splits)
next
  case None
  then obtain c e u where "fmlookup (rt_task_configs rt) t = Some c" "tc_effect c = Some e"
    "record_effect_intent ops rt t (es_operation_id e) (es_semantics e) = (rt', Inr u)" "x = es_operation_id e"
    using assms(2) by (auto simp: ensure_configured_effect_def elim!: and_then_Inr split: option.splits)
  then show ?thesis using intent_recorded by blast
qed

lemma step_task_no_panic:
  assumes "runtime_view enc rt s"
  shows "\<not> panics (step_task ops rt t)"
  unfolding step_task_def
proof (rule and_then_panics [OF ensure_configured_effect_no_panic])
  fix rt1 operation
  assume run: "ensure_configured_effect ops rt t = (rt1, Inr operation)"
  show "\<not> panics (case operation of None \<Rightarrow> and_then (attempt_or_begin ops rt1 t None) (complete_step_task ops t)
      | Some (x, _) \<Rightarrow> step_effect ops t rt1 x)"
  proof (cases operation)
    case None
    then show ?thesis
      using and_then_panics [OF attempt_or_begin_no_panic complete_step_task_no_panic] by simp
  next
    case (Some y)
    obtain x k where y: "y = (x, k)" by fastforce
    have "contains_key (jr_intents (rt_journal rt1)) x"
      using configured_effect_recorded [OF assms] run Some y by blast
    then show ?thesis using step_effect_no_panic Some y by simp
  qed
qed

lemma runtime_step_no_panic:
  assumes "runtime_view enc rt s"
  shows "\<not> panics (runtime_step ops rt)"
  using step_task_no_panic [OF assms] by (auto simp: runtime_step_def split: option.splits)

lemma dispatch_effect_no_panic: "\<not> panics (dispatch_effect ops rt x)"
proof (cases "journal_intent (rt_journal rt) x")
  case (Inl e)
  then show ?thesis by (simp add: dispatch_effect_def)
next
  case (Inr i)
  have "journal_state (rt_journal rt) x \<noteq> EffectNotPrepared"
    using Inr by (auto simp: journal_intent_def journal_state_def contains_key_def split: option.splits)
  then have "\<not> panics (dispatch_attempt ops rt i x)"
    by (auto simp: dispatch_attempt_def attempt_or_begin_no_panic begin_attempt_no_panic split: RecoveredEffectState.splits)
  moreover have "\<not> panics (record_dispatch_fact ops x rt1 a)" for rt1 a
  proof -
    have "\<not> panics (and_then (commit_durable ops rt1 (''dispatch:'' @ AttemptId_as_str a)
        [RecordDispatch \<lparr>dr_operation_id = x, dr_attempt_id = a\<rparr>]) (\<lambda>rt _. (rt\<lparr>rt_journal := j\<rparr>, Inr a)))" for j
      by (rule and_then_panics) (simp_all add: commit_durable_no_panic)
    then show ?thesis unfolding record_dispatch_fact_def by (auto simp: Let_def split: sum.splits)
  qed
  ultimately have "\<not> panics (and_then (dispatch_attempt ops rt i x) (record_dispatch_fact ops x))"
    by (rule and_then_panics)
  then show ?thesis using Inr by (auto simp: dispatch_effect_def split: RecoveredEffectState.splits)
qed

lemma recover_no_panic: "\<not> panics (recover ops rt x)"
proof -
  have "\<exists>out. known_outcome (rt_journal rt) x = Some out"
    if "classify_runtime rt x = Inr d" "rd_action d = CompleteWithoutReexecution" for d
    using that
    by (auto simp: classify_runtime_def classify_recovery_def decide_def invariant_decision_def Let_def
        split: option.splits sum.splits JournalError.splits if_splits RecoveredEffectState.splits
        KnownEffectOutcome.splits EffectSemantics.splits prod.splits)
  moreover have "\<not> panics (and_then (complete_task ops rt t a) (\<lambda>rt _. (rt, Inr d)))" for t a and d :: RecoveryDecision
    by (rule and_then_panics) (simp_all add: complete_task_no_panic)
  ultimately show ?thesis
    using classify_runtime_no_panic [of rt x]
    unfolding recover_def by (auto split: sum.splits option.splits)
qed

section \<open>A restore that cannot fail\<close>

lemma capture_pins_cong:
  assumes "rt_scopes rt' = rt_scopes rt" and "rt_context rt' = rt_context rt" and "rt_task_configs rt' = rt_task_configs rt"
  shows "capture_capability_pins rt' = capture_capability_pins rt"
proof -
  have "capture_pin rt' = capture_pin rt" using assms by (intro ext) (simp add: capture_pin_def)
  then show ?thesis using assms by (intro ext) (simp add: capture_capability_pins_def required_identities_def)
qed

lemma restore_attempts_total:
  assumes "\<forall>adm\<in>set adms. \<exists>ps. capture_capability_pins rt (aa_task_id adm) (Some (aa_capabilities adm)) = Inr ps"
    and "rt_scopes rt0 = rt_scopes rt" and "rt_context rt0 = rt_context rt" and "rt_task_configs rt0 = rt_task_configs rt"
  shows "\<exists>rt'. try_fold restore_attempt rt0 adms = Inr rt'"
  using assms
proof (induction adms arbitrary: rt0)
  case Nil
  then show ?case by simp
next
  case (Cons adm adms)
  obtain ps where "capture_capability_pins rt (aa_task_id adm) (Some (aa_capabilities adm)) = Inr ps" using Cons.prems(1) by auto
  then have "restore_attempt rt0 adm = Inr (rt0\<lparr>rt_attempts := rt_attempts rt0 @
      [\<lparr>ta_run_id = aa_run_id adm, ta_task_id = aa_task_id adm, ta_attempt_id = aa_attempt_id adm,
        ta_operation_id = aa_operation_id adm, ta_capability_pins = ps\<rparr>]\<rparr>)"
    using capture_pins_cong [OF Cons.prems(2-4)] by (simp add: restore_attempt_def)
  then show ?case using Cons by simp
qed

lemma view_replay_workflow:
  assumes "runtime_view enc rt s"
  shows "replay_workflow (without_facts (rt_workflow rt)) (ds_completion_history s) = Inr (rt_workflow rt)"
proof -
  have graph: "reachable_graph (rt_workflow rt)" and ids: "completion_ids (wg_facts (rt_workflow rt)) = map dc_task_id (ds_completion_history s)"
    using assms by (simp_all add: runtime_view_def)
  have "map (\<lambda>c. \<lparr>cr_task_id = dc_task_id c\<rparr>) (ds_completion_history s) =
      map (\<lambda>i. \<lparr>cr_task_id = i\<rparr>) (completion_ids (wg_facts (rt_workflow rt)))"
    by (simp add: ids)
  also have "\<dots> = ef_completion_log (wg_facts (rt_workflow rt))"
    by (simp add: completion_ids_def map_idI)
  finally show ?thesis
    using replay_with_facts_rebuilds [OF graph] by (simp add: replay_workflow_def without_facts_def)
qed

lemma without_facts_reachable:
  assumes "reachable_graph g"
  shows "reachable_graph (without_facts g)"
  using assms
proof (induction rule: reachable_graph.induct)
  case default
  then show ?case using reachable_graph.default by (simp add: WorkflowGraph_default_def without_facts_def)
next
  case (batch g r b g' res)
  show ?case
  proof (cases res)
    case (Inl e)
    then show ?thesis using batch apply_batch_error_unchanged by fastforce
  next
    case (Inr entry)
    have "replay_record_step (without_facts g) entry = Inr (without_facts g')"
      using replay_record_without_facts batch(2) Inr by blast
    then obtain b' out where "apply_batch (without_facts g) (mr_base_revision entry) b' = (without_facts g', out)"
      by (auto simp: replay_record_step_def split: if_splits option.splits sum.splits prod.splits)
    then show ?thesis using batch(3) reachable_graph.batch by blast
  qed
next
  case (completion g i g' out)
  then have "without_facts g' = without_facts g"
    by (cases out) (auto simp: complete_Inr_iff without_facts_def dest: complete_error_unchanged)
  then show ?case using completion by simp
qed

lemma legacy_identity_text_visible: "\<not> trim_is_empty (legacy_identity_text w configs)"
proof -
  have "CHR '':'' \<in> set (foldl append_edge c es)" if "CHR '':'' \<in> set c" for c es
    using that by (induction es arbitrary: c) (simp_all add: append_edge_def append_identity_part_def)
  then have "CHR '':'' \<in> set (legacy_identity_text w configs)"
    by (simp add: legacy_identity_text_def Let_def append_identity_part_def)
  then show ?thesis by (rule colon_not_blank)
qed

lemma restore_loaded_total:
  assumes view: "runtime_view enc rt s" and ctx: "rt_context rt = context_from_scope sc"
    and pins: "\<forall>adm\<in>set (ds_admission_history s).
      \<exists>ps. capture_capability_pins rt (aa_task_id adm) (Some (aa_capabilities adm)) = Inr ps"
    and room: "length (ds_admission_history s) < unat u64_max"
  shows "\<exists>rt'. restore_loaded (rt_run_id rt) (without_facts (rt_workflow rt)) (rt_scopes rt) sc (rt_task_configs rt) (rt_store rt) p s = Inr rt' \<and>
      rt_workflow rt' = rt_workflow rt \<and> rt_journal rt' = rt_journal rt \<and> rt_cancelled rt' = rt_cancelled rt \<and>
      rt_next_attempt_number rt' = rt_next_attempt_number rt \<and> rt_store_revision rt' = rt_store_revision rt \<and>
      map attempt_admission (rt_attempts rt') = ds_admission_history s"
proof -
  note lin = view_lineage [OF view]
  have j: "from_durable_state s = Inr (rt_journal rt)" using view mirror_rebuild [OF lin] by (simp add: runtime_view_def)
  obtain rt0 where build: "runtime_build (rt_run_id rt) (rt_workflow rt) (rt_scopes rt) sc (rt_task_configs rt) (rt_journal rt)
      (rt_store rt) (ds_revision s) = Inr rt0"
    using runtime_build_total [of "rt_run_id rt" "rt_workflow rt" "rt_scopes rt" sc "rt_task_configs rt" "rt_journal rt" "rt_store rt" "ds_revision s"] ..
  note b = runtime_build_Inr [OF build]
  let ?rt1 = "rt0\<lparr>rt_identity_provenance := p,
      rt_cancelled := fold (\<lambda>c m. finsert (ca_task_id c) m) (ds_cancellations_values s) {||}\<rparr>"
  have "cancellations_ok s" using lin by (simp add: lineage_def)
  note cancelled = cancelled_fold [OF this]
  obtain rt2 where fold: "try_fold restore_attempt ?rt1 (ds_admission_history s) = Inr rt2"
    using restore_attempts_total [OF pins, of ?rt1] b ctx by auto
  obtain xs where rt2: "rt2 = ?rt1\<lparr>rt_attempts := rt_attempts ?rt1 @ xs\<rparr>" and xs: "map attempt_admission xs = ds_admission_history s"
    using restore_attempts_Inr [OF fold] view by (auto simp: runtime_view_def pins_ordered_def)
  let ?k = "word_of_nat (length (ds_admission_history s)) :: u64"
  have "unat ?k = length (ds_admission_history s)"
    using room by (simp add: unat_u64_max unsigned_of_nat take_bit_nat_eq_self)
  then have "?k \<noteq> u64_max" using room by auto
  then obtain n where n: "checked_add_u64 ?k 1 = Some n"
    using checked_add_one_None_iff [of ?k] by (cases "checked_add_u64 ?k 1") auto
  have num: "attempts_numbered s (rt_next_attempt_number rt)" using view by (simp add: runtime_view_def)
  have "unat n = Suc (length (ds_admission_history s))"
    using checked_add_one_Some [OF n] \<open>unat ?k = _\<close> by simp
  moreover have "unat (rt_next_attempt_number rt) = Suc (length (ds_admission_history s))"
    using num room by (auto simp: attempts_numbered_def)
  ultimately have next1: "n = rt_next_attempt_number rt" by (metis word_unat_eq_iff)
  have "restore_loaded (rt_run_id rt) (without_facts (rt_workflow rt)) (rt_scopes rt) sc (rt_task_configs rt) (rt_store rt) p s =
      Inr (rt2\<lparr>rt_next_attempt_number := n\<rparr>)"
    using view_replay_workflow [OF view] j build fold n by (simp add: restore_loaded_def)
  then show ?thesis
    using b rt2 xs next1 cancelled view by (auto simp: runtime_view_def)
qed

section \<open>What a batch of steps reports\<close>

text \<open>A step that completes nothing leaves the workflow as it was.\<close>

lemma step_effect_workflow:
  assumes "step_effect ops t rt x = (rt', Inr z)" and "\<And>t a. z \<noteq> StepCompleted t a"
  shows "rt_workflow rt' = rt_workflow rt"
  using assms complete_step_task_completed(1) [of ops t rt _ rt' z] attempt_or_begin_workflow [of ops rt t "Some x" rt']
  by (auto simp: step_effect_def and_then_def
      split: RecoveredEffectState.splits KnownEffectOutcome.splits sum.splits prod.splits option.splits)

lemma step_task_workflow:
  assumes "step_task ops rt t = (rt', Inr z)" and z: "\<And>t a. z \<noteq> StepCompleted t a"
  shows "rt_workflow rt' = rt_workflow rt"
proof -
  obtain rt1 operation where e: "ensure_configured_effect ops rt t = (rt1, Inr operation)"
    and k: "(case operation of None \<Rightarrow> and_then (attempt_or_begin ops rt1 t None) (complete_step_task ops t)
          | Some (x, _) \<Rightarrow> step_effect ops t rt1 x) = (rt', Inr z)"
    using assms(1) unfolding step_task_def by (rule and_then_Inr)
  have w: "rt_workflow rt1 = rt_workflow rt" using e by (rule ensure_configured_effect_workflow)
  show ?thesis
  proof (cases operation)
    case None
    then obtain rt2 a where "complete_step_task ops t rt2 a = (rt', Inr z)" using k by (auto elim!: and_then_Inr)
    then show ?thesis using complete_step_task_completed(1) z by blast
  next
    case (Some y)
    then show ?thesis using k w z step_effect_workflow [of ops t rt1 "fst y" rt' z] by (simp add: case_prod_beta)
  qed
qed

lemma runtime_step_workflow:
  assumes "runtime_step ops rt = (rt', Inr z)" and "\<And>t a. z \<noteq> StepCompleted t a"
  shows "rt_workflow rt' = rt_workflow rt"
  using assms step_task_workflow [of ops rt _ rt' z] by (auto simp: runtime_step_def split: option.splits)

lemma run_until_blocked_reports:
  assumes "run_until_blocked ops rt rs = (rt', Inr results)"
  shows "\<exists>ds z. results = rs @ map (\<lambda>(t, a). StepCompleted t a) ds @ [z] \<and> (\<forall>t a. z \<noteq> StepCompleted t a) \<and>
    completion_ids (wg_facts (rt_workflow rt')) = completion_ids (wg_facts (rt_workflow rt)) @ map fst ds"
  using assms
proof (induction ops rt rs rule: run_until_blocked.induct)
  case (1 ops rt rs)
  obtain rt1 z where step: "runtime_step ops rt = (rt1, Inr z)"
    using 1(2) by (auto simp: run_until_blocked.simps [of ops rt] split: prod.splits sum.splits)
  show ?case
  proof (cases "\<exists>t a. z = StepCompleted t a")
    case True
    then obtain t a where z: "z = StepCompleted t a" by blast
    obtain c where "complete (rt_workflow rt) t = (rt_workflow rt1, Inr c)"
      using runtime_step_completed step z by blast
    then have ids: "completion_ids (wg_facts (rt_workflow rt1)) = completion_ids (wg_facts (rt_workflow rt)) @ [t]"
      by (auto simp: complete_Inr_iff completion_ids_def)
    have "run_until_blocked ops rt1 (rs @ [StepCompleted t a]) = (rt', Inr results)"
      using 1(2) step z by (simp add: run_until_blocked.simps [of ops rt])
    from 1(1) [OF step [symmetric] refl z this]
    obtain ds y where "results = (rs @ [StepCompleted t a]) @ map (\<lambda>(t, a). StepCompleted t a) ds @ [y]"
      "\<forall>t a. y \<noteq> StepCompleted t a"
      "completion_ids (wg_facts (rt_workflow rt')) = completion_ids (wg_facts (rt_workflow rt1)) @ map fst ds"
      by blast
    then show ?thesis using ids by (intro exI [of _ "(t, a) # ds"] exI [of _ y]) simp
  next
    case False
    then have "rt' = rt1" "results = rs @ [z]"
      using 1(2) step by (auto simp: run_until_blocked.simps [of ops rt] split: StepResult.splits)
    then show ?thesis
      using False runtime_step_workflow [OF step] by (intro exI [of _ "[]"] exI [of _ z]) simp
  qed
qed

end
