(* ===== verification/Runtime_Properties.thy ===== *)
theory Runtime_Properties
  imports Runtime_Safety Recovery_Properties Workflow_Properties Definition_Properties
begin

text \<open>
  The properties of the coordinator, over every history of a run and any store that keeps the
  contract of \<open>durable_store\<close>, with a run over the in-memory store as the concrete case.
\<close>

section \<open>A run\<close>

text \<open>Two tasks; the first owns a non-idempotent effect.\<close>

definition demo_configs :: "(Id \<times> TaskConfig) list" where
  "demo_configs = [(Id ''a'', config_with_effect TaskConfig_new demo_operation NonIdempotent)]"

definition mute_enc :: binding_encoder where
  "mute_enc = (\<lambda>_. [])"

definition demo_ops :: "InMemoryDurableStore store_ops" where
  "demo_ops = memory_ops mute_enc"

definition demo_started :: "InMemoryDurableStore \<times> (RuntimeError + (unit, InMemoryDurableStore) Runtime)" where
  "demo_started = start_run mute_enc demo_run demo_graph (scope_root 1) [] demo_configs"

definition demo_rt :: "(unit, InMemoryDurableStore) Runtime" where
  "demo_rt = projr (snd demo_started)"

definition demo_stepped :: "(unit, InMemoryDurableStore) Runtime" where
  "demo_stepped = fst (runtime_step demo_ops demo_rt)"

definition demo_dispatched :: "(unit, InMemoryDurableStore) Runtime" where
  "demo_dispatched = fst (dispatch_effect demo_ops demo_stepped demo_operation)"

definition demo_settled :: "(unit, InMemoryDurableStore) Runtime" where
  "demo_settled = fst (record_effect_outcome demo_ops demo_dispatched demo_operation (AttemptId (Id ''run-attempt-1'')) Succeeded)"

lemma demo_host: "runtime_host mute_enc demo_ops (memory_ok mute_enc) (\<lambda>st. fmlookup (im_runs st))"
  unfolding demo_ops_def by (rule memory_host.runtime_host_axioms)

lemma demo_inputs: "valid_live_inputs demo_graph demo_configs"
proof -
  have "\<forall>t. graph_task demo_graph t \<noteq> None \<longrightarrow> valid_id t"
  proof (rule apply_batch_valid)
    show "apply_batch WorkflowGraph_default Revision_ZERO demo_batch = (demo_graph, Inr (projr (snd (apply_batch WorkflowGraph_default Revision_ZERO demo_batch))))"
      unfolding demo_graph_def using demo_batch_accepted by (metis prod.collapse sum.sel(2))
    show "list_all valid_task_mutation (mb_mutations demo_batch)" by code_simp
  qed (simp add: WorkflowGraph_default_def graph_task_def topology_task_def)
  moreover have "list_all (\<lambda>c. valid_config (snd c)) demo_configs"
    by (simp add: demo_configs_def valid_config_def config_with_effect_def TaskConfig_new_def contains_key_def
        demo_operation_def valid_id_def trim_is_empty.simps white1_def white2_def white3_def byte_of_def)
  ultimately show ?thesis using demo_graph_reachable by (simp add: valid_live_inputs_def)
qed

text \<open>The whole run, evaluated once: the results of the calls and what the last runtimes hold.\<close>

lemma demo_evaluation:
  "let started = demo_started; rt0 = projr (snd started);
     (rt1, r1) = runtime_step demo_ops rt0;
     (rt2, r2) = dispatch_effect demo_ops rt1 demo_operation;
     (rt3, r3) = record_effect_outcome demo_ops rt2 demo_operation (AttemptId (Id ''run-attempt-1'')) Succeeded;
     (rt4, r4) = runtime_step demo_ops rt3;
     (rt5, r5) = runtime_step demo_ops rt4;
     load = so_load_run demo_ops (rt_store rt3) (rt_run_id rt3)
   in \<not> isl (snd started) \<and>
     r2 = Inr (AttemptId (Id ''run-attempt-1'')) \<and> journal_state (rt_journal rt2) demo_operation = OutcomeUnknown \<and>
     \<not> isl load \<and> rt_run_id rt3 = demo_run \<and>
     rt_identity_provenance rt3 = LegacyLiveObject \<and> rt_context rt3 = context_from_scope [] \<and> rt_next_attempt_number rt3 = 2 \<and>
     collect_task_configs (without_facts (rt_workflow rt3)) demo_configs = Inr (rt_task_configs rt3) \<and>
     ds_admission_history (projr load) = [\<lparr>aa_run_id = demo_run, aa_task_id = Id ''a'',
       aa_attempt_id = AttemptId (Id ''run-attempt-1''), aa_operation_id = Some demo_operation, aa_capabilities = []\<rparr>] \<and>
     capture_capability_pins rt3 (Id ''a'') (Some []) = Inr [] \<and>
     r4 = Inr (StepCompleted (Id ''a'') (AttemptId (Id ''run-attempt-1''))) \<and>
     r5 = Inr (StepCompleted (Id ''b'') (AttemptId (Id ''run-attempt-2''))) \<and>
     snd (runtime_step demo_ops rt5) = Inr Idle \<and>
     rt_run_id rt2 = demo_run \<and> \<not> isl (journal_intent (rt_journal rt1) demo_operation) \<and>
     ei_semantics (projr (journal_intent (rt_journal rt1) demo_operation)) = NonIdempotent \<and>
     map_option (\<lambda>s. (map dr_operation_id (ds_dispatch_history s), map_option ei_semantics (ds_intent s demo_operation)))
       (fmlookup (im_runs (rt_store rt2)) (rt_run_id rt2)) = Some ([demo_operation], Some NonIdempotent)"
  by code_simp

lemmas demo_facts = demo_evaluation [unfolded Let_def case_prod_beta, folded demo_rt_def, folded demo_stepped_def,
  folded demo_dispatched_def, folded demo_settled_def]

lemma demo_started_ok: "\<not> isl (snd demo_started)"
  using demo_facts by blast

lemma demo_history: "run_history demo_ops (memory_ok mute_enc) demo_rt"
proof (rule run_history.started)
  show "memory_ok mute_enc InMemoryDurableStore_new" by (simp add: memory_ok_def InMemoryDurableStore_new_def)
  show "valid_run demo_run" by (rule demo_run_valid)
  show "valid_live_inputs demo_graph demo_configs" by (rule demo_inputs)
  show "start_run_with_store demo_ops demo_run demo_graph (scope_root 1) [] demo_configs InMemoryDurableStore_new =
      (fst demo_started, Inr demo_rt)"
    using demo_started_ok by (cases demo_started; cases "snd demo_started")
      (simp_all add: demo_rt_def demo_started_def start_run_def demo_ops_def)
qed

lemma demo_histories:
  "run_history demo_ops (memory_ok mute_enc) demo_stepped"
  "run_history demo_ops (memory_ok mute_enc) demo_dispatched"
  "run_history demo_ops (memory_ok mute_enc) demo_settled"
proof -
  show 1: "run_history demo_ops (memory_ok mute_enc) demo_stepped"
    unfolding demo_stepped_def
    by (rule run_history.called [OF demo_history runtime_call.call_step]) (rule prod.collapse [symmetric])
  show 2: "run_history demo_ops (memory_ok mute_enc) demo_dispatched"
    unfolding demo_dispatched_def
    by (rule run_history.called [OF 1 runtime_call.call_dispatch]) (rule prod.collapse [symmetric])
  show "run_history demo_ops (memory_ok mute_enc) demo_settled"
    unfolding demo_settled_def
    by (rule run_history.called [OF 2 runtime_call.call_outcome]) (rule prod.collapse [symmetric])
qed

section \<open>Memory and durable state\<close>

text \<open>
  C1: In every history of a run, over any number of restarts, the memory of the runtime is a
  view of the durable state of its run. The store holds the run at the revision the runtime
  expects; its journal is exactly the one a recovery would rebuild; the completions of the
  workflow, in their order, and the cancelled tasks are the durable ones; every attempt the
  runtime knows was admitted; and attempts are numbered one by one in the order of admission.
\<close>
theorem runtime_mirrors_durable_state:
  assumes "runtime_host enc ops ok runs" and "run_history ops ok rt"
  shows "\<exists>s. runs (rt_store rt) (rt_run_id rt) = Some s \<and> durable_reachable enc s \<and>
    ds_revision s = rt_store_revision rt \<and> from_durable_state s = Inr (rt_journal rt) \<and>
    completion_ids (wg_facts (rt_workflow rt)) = map dc_task_id (ds_completion_history s) \<and>
    rt_cancelled rt = fmdom (ds_cancellations s) \<and>
    attempt_admission ` set (known_attempts rt) \<subseteq> set (ds_admission_history s) \<and>
    map aa_attempt_id (ds_admission_history s) =
      map (attempt_id_at (rt_run_id rt)) [1..<Suc (length (ds_admission_history s))]"
proof -
  obtain s where s: "runs (rt_store rt) (rt_run_id rt) = Some s" and view: "runtime_view enc rt s"
    using runtime_host.history_inv [OF assms] by (auto simp: runtime_inv_def)
  then show ?thesis
    using mirror_rebuild [OF view_lineage [OF view]] by (auto simp: runtime_view_def attempts_numbered_def)
qed

theorem runtime_mirrors_durable_state_witness:
  "\<exists>s. fmlookup (im_runs (rt_store demo_dispatched)) (rt_run_id demo_dispatched) = Some s \<and>
     from_durable_state s = Inr (rt_journal demo_dispatched) \<and> journal_state (rt_journal demo_dispatched) demo_operation = OutcomeUnknown"
proof -
  obtain s where s: "fmlookup (im_runs (rt_store demo_dispatched)) (rt_run_id demo_dispatched) = Some s"
    "from_durable_state s = Inr (rt_journal demo_dispatched)"
    using runtime_mirrors_durable_state [OF demo_host demo_histories(2)] by blast
  then show ?thesis using demo_facts by blast
qed



section \<open>Effects\<close>

lemma persist_dispatch_intents: "persist_dispatch j d = Inr j' \<Longrightarrow> jr_intents j' = jr_intents j"
  by (auto simp: persist_dispatch_def Let_def split: if_splits option.splits)

lemma dispatch_effect_intents:
  assumes "dispatch_effect ops rt x = (rt', Inr a)"
  shows "jr_intents (rt_journal rt') = jr_intents (rt_journal rt)"
proof -
  obtain i rt1 b where d: "dispatch_attempt ops rt i x = (rt1, Inr b)" and f: "record_dispatch_fact ops x rt1 b = (rt', Inr a)"
    using assms by (auto simp: dispatch_effect_def elim!: and_then_Inr split: sum.splits if_splits RecoveredEffectState.splits)
  have "rt_journal rt1 = rt_journal rt"
    using dispatch_attempt_Inr [OF d] attempt_or_begin_keeps begin_attempt_keeps by metis
  moreover have "jr_intents (rt_journal rt') = jr_intents (rt_journal rt1)"
    using f persist_dispatch_intents [of "rt_journal rt1" "\<lparr>dr_operation_id = x, dr_attempt_id = b\<rparr>"]
    by (auto simp: record_dispatch_fact_def Let_def elim!: and_then_Inr split: sum.splits)
  ultimately show ?thesis by simp
qed

text \<open>
  C2: \<^verbatim>\<open>dispatch_effect\<close> hands out an attempt only when it is safe to execute the effect. In every
  history, when it returns an attempt, the operation has an intent, its task is not cancelled,
  and either the operation was never dispatched or its outcome is unknown and it is
  idempotent. Before the call returns, the dispatch of exactly this attempt is the last one in
  the durable history of the run, and the attempt was admitted for this task and operation.
\<close>
theorem dispatch_effect_safe:
  assumes host: "runtime_host enc ops ok runs" and history: "run_history ops ok rt"
    and run: "dispatch_effect ops rt x = (rt', Inr a)"
  shows "\<exists>i s'. journal_intent (rt_journal rt) x = Inr i \<and> ei_task_id i |\<notin>| rt_cancelled rt \<and>
    (journal_latest_dispatch (rt_journal rt) x = None \<or>
     journal_state (rt_journal rt) x = OutcomeUnknown \<and> ei_semantics i = Idempotent) \<and>
    runs (rt_store rt') (rt_run_id rt') = Some s' \<and>
    (\<exists>ds. ds_dispatch_history s' = ds @ [\<lparr>dr_operation_id = x, dr_attempt_id = a\<rparr>]) \<and>
    (\<exists>adm. fmlookup (ds_admissions s') a = Some adm \<and> aa_task_id adm = ei_task_id i \<and> aa_operation_id adm = Some x)"
proof -
  note inv = runtime_host.history_inv [OF host history]
  from runtime_host.dispatch_effect_inv(2) [OF host inv run refl]
  obtain i s' and s :: DurableRunState where f: "journal_intent (rt_journal rt) x = Inr i" "ei_task_id i |\<notin>| rt_cancelled rt"
    "journal_state (rt_journal rt) x = Prepared \<or> journal_state (rt_journal rt) x = OutcomeUnknown \<and> ei_semantics i = Idempotent"
    "runs (rt_store rt') (rt_run_id rt') = Some s'"
    "ds_dispatch_history s' = ds_dispatch_history s @ [\<lparr>dr_operation_id = x, dr_attempt_id = a\<rparr>]"
    by blast
  have view': "runtime_view enc rt' s'"
    using runtime_host.dispatch_effect_inv(1) [OF host inv run] f(4) by (auto simp: runtime_inv_def)
  have "journal_state (rt_journal rt) x = Prepared \<Longrightarrow> journal_latest_dispatch (rt_journal rt) x = None"
    by (auto simp: journal_state_def split: if_splits option.splits)
  moreover have "dispatch_ok s' \<lparr>dr_operation_id = x, dr_attempt_id = a\<rparr>"
    using view_lineage [OF view'] f(5) by (simp add: lineage_def list_all_iff)
  then obtain j adm where "fmlookup (ds_intents s') x = Some j" "fmlookup (ds_admissions s') a = Some adm"
    "aa_task_id adm = ei_task_id j" "aa_operation_id adm = Some x"
    by (auto simp: dispatch_ok_def)
  moreover have "j = i"
  proof -
    have "fmlookup (jr_intents (rt_journal rt')) x = Some i"
      using f(1) dispatch_effect_intents [OF run] by (simp add: journal_intent_def split: option.splits)
    then show ?thesis using view_intent_valid(1) [OF view'] \<open>fmlookup (ds_intents s') x = Some j\<close> by simp
  qed
  ultimately show ?thesis using f by blast
qed

theorem dispatch_effect_safe_witness:
  "journal_latest_dispatch (rt_journal demo_stepped) demo_operation = None \<and>
   (\<exists>s ds. fmlookup (im_runs (rt_store demo_dispatched)) demo_run = Some s \<and>
     ds_dispatch_history s = ds @ [\<lparr>dr_operation_id = demo_operation, dr_attempt_id = AttemptId (Id ''run-attempt-1'')\<rparr>])"
proof -
  have run: "dispatch_effect demo_ops demo_stepped demo_operation = (demo_dispatched, Inr (AttemptId (Id ''run-attempt-1'')))"
    using demo_facts by (simp add: demo_dispatched_def prod_eq_iff)
  obtain i where i: "journal_intent (rt_journal demo_stepped) demo_operation = Inr i" "ei_semantics i \<noteq> Idempotent"
    "rt_run_id demo_dispatched = demo_run"
    using demo_facts by (cases "journal_intent (rt_journal demo_stepped) demo_operation") auto
  show ?thesis
    using dispatch_effect_safe [OF demo_host demo_histories(1) run] i by auto
qed

text \<open>
  C3: A non-idempotent effect is executed at most once. In every history of a run, over all
  restarts, retries and recoveries, the durable state holds at most one dispatch of an
  operation that was recorded as non-idempotent.
\<close>
theorem nonidempotent_dispatched_at_most_once:
  assumes "runtime_host enc ops ok runs" and "run_history ops ok rt"
    and "runs (rt_store rt) (rt_run_id rt) = Some s"
    and "ds_intent s x = Some i" and "ei_semantics i = NonIdempotent"
  shows "length (filter (\<lambda>d. dr_operation_id d = x) (ds_dispatch_history s)) \<le> 1"
proof -
  have "runtime_view enc rt s" using runtime_host.history_inv [OF assms(1,2)] assms(3) by (auto simp: runtime_inv_def)
  then have "length (dispatches_of s x) \<le> 1"
    using assms(4,5) by (auto simp: runtime_view_def dispatched_once_def ds_intent_def)
  then show ?thesis by (simp add: dispatches_of_def)
qed

theorem nonidempotent_dispatched_at_most_once_witness:
  "\<exists>s. fmlookup (im_runs (rt_store demo_dispatched)) demo_run = Some s \<and>
     length (filter (\<lambda>d. dr_operation_id d = demo_operation) (ds_dispatch_history s)) = 1"
proof -
  obtain s where s: "fmlookup (im_runs (rt_store demo_dispatched)) (rt_run_id demo_dispatched) = Some s"
    "map dr_operation_id (ds_dispatch_history s) = [demo_operation]" "map_option ei_semantics (ds_intent s demo_operation) = Some NonIdempotent"
    and run: "rt_run_id demo_dispatched = demo_run"
    using demo_facts by (cases "fmlookup (im_runs (rt_store demo_dispatched)) (rt_run_id demo_dispatched)") auto
  obtain i where i: "ds_intent s demo_operation = Some i" "ei_semantics i = NonIdempotent" using s(3) by auto
  have "length (filter (\<lambda>d. dr_operation_id d = demo_operation) (ds_dispatch_history s)) \<le> 1"
    by (rule nonidempotent_dispatched_at_most_once [OF demo_host demo_histories(2) s(1) i])
  moreover have "ds_dispatch_history s \<noteq> []" "\<forall>d\<in>set (ds_dispatch_history s). dr_operation_id d = demo_operation"
    using s(2) by auto
  then have "length (filter (\<lambda>d. dr_operation_id d = demo_operation) (ds_dispatch_history s)) \<noteq> 0" by simp
  ultimately have "length (filter (\<lambda>d. dr_operation_id d = demo_operation) (ds_dispatch_history s)) = 1" by linarith
  then show ?thesis using s(1) run by auto
qed

text \<open>
  C17: The assertions of the coordinator hold. In every history no call of \<^verbatim>\<open>step\<close>,
  \<^verbatim>\<open>dispatch_effect\<close> or \<^verbatim>\<open>recover\<close> reaches one of its \<^verbatim>\<open>expect\<close> or \<^verbatim>\<open>unreachable!\<close> calls,
  whatever the store and the scopes answer.
\<close>
theorem runtime_never_panics:
  assumes "runtime_host enc ops ok runs" and "run_history ops ok rt"
  shows "snd (runtime_step ops rt) \<noteq> Inl RuntimePanic \<and> snd (dispatch_effect ops rt x) \<noteq> Inl RuntimePanic \<and>
    snd (recover ops rt x) \<noteq> Inl RuntimePanic"
proof -
  obtain s where "runtime_view enc rt s" using runtime_host.history_inv [OF assms] by (auto simp: runtime_inv_def)
  then show ?thesis using runtime_step_no_panic dispatch_effect_no_panic recover_no_panic by blast
qed

theorem runtime_never_panics_witness:
  "snd (runtime_step demo_ops demo_dispatched) \<noteq> Inl RuntimePanic \<and> snd (recover demo_ops demo_dispatched demo_operation) \<noteq> Inl RuntimePanic"
  using runtime_never_panics [OF demo_host demo_histories(2)] by blast

text \<open>
  C18: \<^verbatim>\<open>run_until_blocked\<close> ends and reports what it did. When it returns its results, all but the
  last are completions, the last is none, and the tasks completed by the call are exactly the
  reported ones, in the reported order.
\<close>
theorem run_until_blocked_result:
  assumes "run_until_blocked ops rt [] = (rt', Inr results)"
  shows "\<exists>ds z. results = map (\<lambda>(t, a). StepCompleted t a) ds @ [z] \<and> (\<forall>t a. z \<noteq> StepCompleted t a) \<and>
    completion_ids (wg_facts (rt_workflow rt')) = completion_ids (wg_facts (rt_workflow rt)) @ map fst ds"
  using run_until_blocked_reports [OF assms] by simp

theorem run_until_blocked_result_witness:
  "\<exists>rt'. run_until_blocked demo_ops demo_settled [] =
       (rt', Inr [StepCompleted (Id ''a'') (AttemptId (Id ''run-attempt-1'')),
         StepCompleted (Id ''b'') (AttemptId (Id ''run-attempt-2'')), Idle]) \<and>
     completion_ids (wg_facts (rt_workflow rt')) = completion_ids (wg_facts (rt_workflow demo_settled)) @ [Id ''a'', Id ''b'']"
proof -
  define rt4 where "rt4 = fst (runtime_step demo_ops demo_settled)"
  define rt5 where "rt5 = fst (runtime_step demo_ops rt4)"
  define rt6 where "rt6 = fst (runtime_step demo_ops rt5)"
  let ?rs = "[StepCompleted (Id ''a'') (AttemptId (Id ''run-attempt-1'')), StepCompleted (Id ''b'') (AttemptId (Id ''run-attempt-2'')), Idle]"
  have steps: "runtime_step demo_ops demo_settled = (rt4, Inr (StepCompleted (Id ''a'') (AttemptId (Id ''run-attempt-1''))))"
    "runtime_step demo_ops rt4 = (rt5, Inr (StepCompleted (Id ''b'') (AttemptId (Id ''run-attempt-2''))))"
    "runtime_step demo_ops rt5 = (rt6, Inr Idle)"
    using demo_facts by (simp_all add: rt4_def rt5_def rt6_def prod_eq_iff)
  have run: "run_until_blocked demo_ops demo_settled [] = (rt6, Inr ?rs)"
    by (simp add: run_until_blocked.simps [of demo_ops demo_settled] run_until_blocked.simps [of demo_ops rt4]
        run_until_blocked.simps [of demo_ops rt5] steps)
  obtain ds z where ds: "?rs = map (\<lambda>(t, a). StepCompleted t a) ds @ [z]"
    "completion_ids (wg_facts (rt_workflow rt6)) = completion_ids (wg_facts (rt_workflow demo_settled)) @ map fst ds"
    using run_until_blocked_result [OF run] by blast
  have "butlast ?rs = map (\<lambda>(t, a). StepCompleted t a) ds" unfolding ds(1) by simp
  then have "map fst ds = [Id ''a'', Id ''b'']" by (auto simp: Cons_eq_map_conv)
  then show ?thesis using run ds(2) by auto
qed

section \<open>Definitions\<close>

text \<open>
  A run is restored only from a definition that means the same. When
  \<^verbatim>\<open>restore_from_definition\<close> succeeds for a run that recorded the identity of some definition,
  the supplied definition has the same tasks, prerequisites, requirements and effects, and the
  same capabilities, as the recorded one.
\<close>
theorem restored_definition_means_the_same:
  assumes run: "restore_from_definition ops n r d factories st = Inr rt" and load: "so_load_run ops st r = Inr s"
    and w: "run_definition_identity d' = Inr w" and s: "ds_workflow_replay_identity s = Some w"
  shows "task_meaning ` set (rn_tasks d) = task_meaning ` set (rn_tasks d') \<and>
    capability_meaning ` effective_capabilities d = capability_meaning ` effective_capabilities d'"
proof -
  obtain v where v: "validated d = Inr v" and ok: "ensure_restorable_definition_identity (vd_identity v) (Some w) = Inr ()"
    using run load s by (auto simp: restore_from_definition_def split: sum.splits)
  then have "w = vd_identity v" by (simp add: ensure_restorable_definition_identity_def split: if_splits)
  then have "canonical_text (task_map d) (full_map d) = canonical_text (task_map d') (full_map d')"
    using v w by (simp add: identity_Inr_iff validated_Inr_iff validated_form_def)
  then show ?thesis
    using validated_meaning [of d d'] v w by (simp add: identity_Inr_iff validated_Inr_iff)
qed

text \<open>The same task under two labels.\<close>

definition demo_declared :: "string \<Rightarrow> RunDefinition" where
  "demo_declared label = definition_with_task RunDefinition_new (TaskDefinition_new (Id ''a'') label)"

definition demo_declared_store :: InMemoryDurableStore where
  "demo_declared_store =
     fst (start_from_definition mute_enc 1 demo_run (demo_declared ''A'') (FactoryRegistry_new :: unit constructor FactoryRegistry))"

definition demo_redeclared :: "string \<Rightarrow> RuntimeError + (unit, InMemoryDurableStore) Runtime" where
  "demo_redeclared label =
     restore_from_definition demo_ops 1 demo_run (demo_declared label) FactoryRegistry_new demo_declared_store"

lemma demo_declared_evaluation:
  "let st = demo_declared_store; load = so_load_run demo_ops st demo_run;
     i = run_definition_identity (demo_declared ''A'')
   in \<not> isl (restore_from_definition demo_ops 1 demo_run (demo_declared ''B'') (FactoryRegistry_new :: unit constructor FactoryRegistry) st) \<and>
     \<not> isl load \<and> \<not> isl i \<and> ds_workflow_replay_identity (projr load) = Some (projr i)"
  by code_simp

theorem restored_definition_means_the_same_witness:
  "(\<exists>rt. demo_redeclared ''B'' = Inr rt) \<and>
   task_meaning ` set (rn_tasks (demo_declared ''B'')) = task_meaning ` set (rn_tasks (demo_declared ''A''))"
proof -
  let ?load = "so_load_run demo_ops demo_declared_store demo_run" and ?i = "run_definition_identity (demo_declared ''A'')"
  note e = demo_declared_evaluation [unfolded Let_def, folded demo_redeclared_def]
  obtain rt where rt: "demo_redeclared ''B'' = Inr rt" using e by (cases "demo_redeclared ''B''") simp_all
  obtain s where s: "?load = Inr s" using e by (cases ?load) simp_all
  obtain w where w: "?i = Inr w" using e by (cases ?i) simp_all
  have "ds_workflow_replay_identity s = Some w" using e s w by simp
  from restored_definition_means_the_same [OF rt [unfolded demo_redeclared_def] s w this] rt
  show ?thesis by blast
qed

end
