(* ===== verification/Plugin_Effects.thy ===== *)
theory Plugin_Effects
  imports Capability_Context Canonical_Encoding
begin

text \<open>
  Owned effects of capability plugins (\<^verbatim>\<open>semantic.rs\<close>): stacks of disposers that are run in
  reverse order, and the state of the plugin world they live in.

  Factories and disposers are closures of the host. They are named by tokens, and what a token
  does is the record \<open>env\<close>: a function on the whole plugin world, because at the \<^verbatim>\<open>await\<close> of a
  closure any other task may run. Reference-counted objects are indices into the world.
\<close>

section \<open>Texts\<close>

fun join_ids :: "Id list \<Rightarrow> string" where
  "join_ids [] = []"
| "join_ids [i] = as_str i"
| "join_ids (i # is) = as_str i @ '' -> '' @ join_ids is"

fun capability_graph_error_text :: "CapabilityGraphError \<Rightarrow> string" where
  "capability_graph_error_text (UnknownCapability i) = ''unknown capability: '' @ as_str i"
| "capability_graph_error_text (MissingDependency capability dependency) =
     ''capability '' @ as_str capability @ '' requires missing dependency '' @ as_str dependency"
| "capability_graph_error_text (CapabilityCycle path) = ''capability dependency cycle: '' @ join_ids path"
| "capability_graph_error_text ResolverPanic = []"

definition generation_text :: "Generation \<Rightarrow> string" where
  "generation_text g = decimal (unat (generation_get g))"

fun scope_error_text :: "ScopeError \<Rightarrow> string" where
  "scope_error_text (GraphAdmission e) = ''runtime graph admission rejected: '' @ capability_graph_error_text e"
| "scope_error_text (ScopeMissingDependency capability dependency) =
     ''capability '' @ as_str capability @ '' requires missing dependency '' @ as_str dependency"
| "scope_error_text (ConstructionFailed capability reason) =
     ''failed to construct capability '' @ as_str capability @ '': '' @ reason"
| "scope_error_text (AlreadyProvided capability generation) =
     ''capability '' @ as_str capability @ '' already has local generation '' @ generation_text generation"
| "scope_error_text (NoLocalEntry capability) =
     ''capability '' @ as_str capability @ '' has no local entry to replace''"
| "scope_error_text (ReplacementConflict capability expected actual) =
     ''replacement conflict for '' @ as_str capability @ '': expected generation '' @ generation_text expected @
     '', actual '' @ generation_text actual"
| "scope_error_text (DependencyChanged capability dependency) =
     ''dependency '' @ as_str dependency @ '' changed while initializing '' @ as_str capability"
| "scope_error_text (GenerationExhausted capability) =
     ''generation exhausted for capability '' @ as_str capability"
| "scope_error_text ScopeClosed = ''scope is already closing or closed''"
| "scope_error_text ScopePanic = []"

section \<open>Effects\<close>

datatype EffectError =
    EffectClosed
  | EffectDisposer string string  \<comment> \<open>label, reason\<close>
  | EffectScopeError string

definition effect_error_from_scope :: "ScopeError \<Rightarrow> EffectError" where
  "effect_error_from_scope e = EffectScopeError (scope_error_text e)"

text \<open>A disposer of the host, or the one that \<^verbatim>\<open>EffectScope::child\<close> registers for its child.\<close>

datatype 'd disposer = HostDisposer 'd | NestedScope nat

record 'd ScopedEffect =
  sf_label :: string
  sf_disposer :: "'d disposer option"

definition scoped_effect :: "string \<Rightarrow> 'd \<Rightarrow> 'd ScopedEffect" where
  "scoped_effect label d = \<lparr>sf_label = label, sf_disposer = Some (HostDisposer d)\<rparr>"

record 'd EffectStack =
  ek_effects :: "'d ScopedEffect list"
  ek_closed :: bool

definition EffectStack_new :: "'d EffectStack" where
  "EffectStack_new = \<lparr>ek_effects = [], ek_closed = False\<rparr>"

definition stack_push :: "'d EffectStack \<Rightarrow> 'd ScopedEffect \<Rightarrow> 'd EffectStack \<times> (EffectError + unit)" where
  "stack_push k e =
     (if ek_closed k then (k, Inl EffectClosed)
      else (k\<lparr>ek_effects := ek_effects k @ [e]\<rparr>, Inr ()))"

section \<open>Bindings\<close>

record DependencyPin =
  dp_generation :: Generation
  dp_entry_id :: EntryId

type_synonym DependencyBinding = "(Id, DependencyPin) fmap"

definition pin_of_handle :: "'v CapabilityHandle \<Rightarrow> DependencyPin" where
  "pin_of_handle h = \<lparr>dp_generation = handle_generation h, dp_entry_id = handle_entry_id h\<rparr>"

definition binding_from_dependencies :: "'v ResolvedDependencies \<Rightarrow> DependencyBinding" where
  "binding_from_dependencies ds = fold (\<lambda>(i, h) m. fmupd i (pin_of_handle h) m) ds fmempty"

definition binding_iter :: "DependencyBinding \<Rightarrow> (Id \<times> DependencyPin) list" where
  "binding_iter b = bm_items b"

record DependencyEpoch =
  de_transition_token :: u64
  de_binding :: DependencyBinding

definition epoch_from_dependencies :: "u64 \<Rightarrow> 'v ResolvedDependencies \<Rightarrow> DependencyEpoch" where
  "epoch_from_dependencies token ds = \<lparr>de_transition_token = token, de_binding = binding_from_dependencies ds\<rparr>"

section \<open>The plugin world\<close>

type_synonym FiberId = u64

datatype FiberState = FiberPending | FiberLoading | FiberActive | FiberFailed | FiberUnloading | FiberDisposed

datatype FiberError =
    DisposedError
  | InvalidConfig Id string  \<comment> \<open>plugin, reason\<close>
  | InitializationFailed Id string "EffectError list"  \<comment> \<open>plugin, reason, cleanup errors\<close>
  | FiberScope ScopeError
  | InactiveEffect FiberState
  | FiberIdExhausted
  | Cleanup "EffectError list"
  | FiberEffect EffectError

record 'f PluginDefinition =
  pd_id :: Id
  pd_capability :: CapabilityDefinition
  pd_factory :: 'f
  pd_validator :: "string \<Rightarrow> string + unit"

definition PluginDefinition_new :: "Id \<Rightarrow> CapabilityDefinition \<Rightarrow> 'f \<Rightarrow> 'f PluginDefinition" where
  "PluginDefinition_new i capability factory =
     \<lparr>pd_id = i, pd_capability = capability, pd_factory = factory, pd_validator = (\<lambda>_. Inr ())\<rparr>"

definition with_validator :: "'f PluginDefinition \<Rightarrow> (string \<Rightarrow> string + unit) \<Rightarrow> 'f PluginDefinition" where
  "with_validator d validator = d\<lparr>pd_validator := validator\<rparr>"

record ('v, 'f) CapabilityFiber =
  fb_runtime :: nat
  fb_context :: CapabilityContext
  fb_definition :: "'f PluginDefinition"
  fb_config :: string
  fb_state :: FiberState
  fb_requested_epoch :: u64
  fb_dispose_requested :: bool
  fb_force_reload :: bool
  fb_handle :: "'v CapabilityHandle option"
  fb_dependency_epoch :: "DependencyEpoch option"
  fb_loading_binding :: "DependencyBinding option"
  fb_effects :: nat
  fb_cleanup_errors :: "EffectError list"
  fb_error :: "string option"

record 'f PluginRuntime =
  pr_definition :: "'f PluginDefinition"
  pr_fibers :: "FiberId fset"

record ('v, 'd, 'f, 'h) plugins =
  pl_scopes :: "'v scopes"
  pl_stacks :: "'d EffectStack list"
  pl_fibers :: "(FiberId, ('v, 'f) CapabilityFiber) fmap"
  pl_runtimes :: "'f PluginRuntime list"
  pl_next_fiber :: u64
  pl_host :: 'h

record 'v PluginLoadContext =
  lc_context :: CapabilityContext
  lc_config :: string
  lc_dependencies :: "'v ResolvedDependencies"
  lc_effects :: nat

record ('v, 'd, 'f, 'h) plugin_env =
  pe_load :: "'f \<Rightarrow> 'v PluginLoadContext \<Rightarrow> ('v, 'd, 'f, 'h) plugins \<Rightarrow> ('v, 'd, 'f, 'h) plugins \<times> (string + 'v)"
  pe_dispose :: "'d \<Rightarrow> ('v, 'd, 'f, 'h) plugins \<Rightarrow> ('v, 'd, 'f, 'h) plugins \<times> (string + unit)"
  pe_alive :: "('v, 'd, 'f, 'h) plugins \<Rightarrow> FiberId \<Rightarrow> bool"

section \<open>Effect scopes\<close>

definition stack_at :: "('v, 'd, 'f, 'h) plugins \<Rightarrow> nat \<Rightarrow> 'd EffectStack" where
  "stack_at w n = (if n < length (pl_stacks w) then pl_stacks w ! n else EffectStack_new\<lparr>ek_closed := True\<rparr>)"

definition effect_scope_new :: "('v, 'd, 'f, 'h) plugins \<Rightarrow> ('v, 'd, 'f, 'h) plugins \<times> nat" where
  "effect_scope_new w = (w\<lparr>pl_stacks := pl_stacks w @ [EffectStack_new]\<rparr>, length (pl_stacks w))"

definition effect_register :: "('v, 'd, 'f, 'h) plugins \<Rightarrow> nat \<Rightarrow> 'd ScopedEffect \<Rightarrow>
    ('v, 'd, 'f, 'h) plugins \<times> (EffectError + unit)" where
  "effect_register w n e =
     (case stack_push (stack_at w n) e of (k, r) \<Rightarrow> (w\<lparr>pl_stacks := (pl_stacks w)[n := k]\<rparr>, r))"

definition effect_child :: "('v, 'd, 'f, 'h) plugins \<Rightarrow> nat \<Rightarrow> string \<Rightarrow>
    ('v, 'd, 'f, 'h) plugins \<times> (EffectError + nat)" where
  "effect_child w n label =
     (let (w, child) = effect_scope_new w in
      (case effect_register w n \<lparr>sf_label = label, sf_disposer = Some (NestedScope child)\<rparr> of
         (w, Inl e) \<Rightarrow> (w, Inl e)
       | (w, Inr _) \<Rightarrow> (w, Inr child)))"

text \<open>\<^verbatim>\<open>dispose_all\<close> closes the stack and takes its effects before it runs them.\<close>

definition close_stack :: "('v, 'd, 'f, 'h) plugins \<Rightarrow> nat \<Rightarrow> ('v, 'd, 'f, 'h) plugins \<times> 'd ScopedEffect list" where
  "close_stack w n =
     (w\<lparr>pl_stacks := (pl_stacks w)[n := \<lparr>ek_effects = [], ek_closed = True\<rparr>]\<rparr>, ek_effects (stack_at w n))"

definition disposer_error :: "string \<Rightarrow> string + unit \<Rightarrow> EffectError list" where
  "disposer_error label r = (case r of Inl reason \<Rightarrow> [EffectDisposer label reason] | Inr _ \<Rightarrow> [])"

definition nested_result :: "EffectError list \<Rightarrow> string + unit" where
  "nested_result errors =
     (if errors = [] then Inr ()
      else Inl (''nested effect cleanup failed: '' @ decimal (length errors) @ '' error(s)''))"

text \<open>
  \<^verbatim>\<open>run_effects\<close> pops the last effect first. A nested scope is disposed within the run of its
  owner; the host may register effects meanwhile, so the run may not end.
\<close>

partial_function (option) run_effects :: "('v, 'd, 'f, 'h) plugin_env \<Rightarrow> 'd ScopedEffect list \<Rightarrow> EffectError list \<Rightarrow>
    ('v, 'd, 'f, 'h) plugins \<Rightarrow> (('v, 'd, 'f, 'h) plugins \<times> EffectError list) option" where
  "run_effects env effects errors w =
     (if effects = [] then Some (w, errors)
      else
        let effect = last effects; rest = butlast effects in
        (case sf_disposer effect of
           None \<Rightarrow> run_effects env rest errors w
         | Some (HostDisposer d) \<Rightarrow>
             (case pe_dispose env d w of
                (w, r) \<Rightarrow> run_effects env rest (errors @ disposer_error (sf_label effect) r) w)
         | Some (NestedScope n) \<Rightarrow>
             (case close_stack w n of
                (w, inner) \<Rightarrow>
                  Option.bind (run_effects env inner [] w)
                    (\<lambda>(w, inner_errors).
                       run_effects env rest (errors @ disposer_error (sf_label effect) (nested_result inner_errors)) w))))"

definition dispose_all :: "('v, 'd, 'f, 'h) plugin_env \<Rightarrow> ('v, 'd, 'f, 'h) plugins \<Rightarrow> nat \<Rightarrow>
    (('v, 'd, 'f, 'h) plugins \<times> EffectError list) option" where
  "dispose_all env w n = (case close_stack w n of (w, effects) \<Rightarrow> run_effects env effects [] w)"

end
