(* ===== verification/Plugin_Fibers.thy ===== *)
theory Plugin_Fibers
  imports Plugin_Effects
begin

text \<open>
  Plugin fibers and their registry (\<^verbatim>\<open>semantic.rs\<close>). A transition of a fiber holds its
  transition lock; the part of a call before the lock is taken is a step of its own. A call
  is \<open>None\<close> when it does not return, because it waits forever or because a panic of the scope
  tree unwinds through it, else the world it leaves and its result.
\<close>

section \<open>Access\<close>

definition fiber_at :: "('v, 'd, 'f, 'h) plugins \<Rightarrow> FiberId \<Rightarrow> ('v, 'f) CapabilityFiber" where
  "fiber_at w x = the (fmlookup (pl_fibers w) x)"

definition update_fiber :: "FiberId \<Rightarrow> (('v, 'f) CapabilityFiber \<Rightarrow> ('v, 'f) CapabilityFiber) \<Rightarrow>
    ('v, 'd, 'f, 'h) plugins \<Rightarrow> ('v, 'd, 'f, 'h) plugins" where
  "update_fiber x f w = w\<lparr>pl_fibers := fmupd x (f (fiber_at w x)) (pl_fibers w)\<rparr>"

definition set_state :: "FiberId \<Rightarrow> FiberState \<Rightarrow> ('v, 'd, 'f, 'h) plugins \<Rightarrow> ('v, 'd, 'f, 'h) plugins" where
  "set_state x s = update_fiber x (\<lambda>b. b\<lparr>fb_state := s\<rparr>)"

definition plugin_id :: "('v, 'f) CapabilityFiber \<Rightarrow> Id" where
  "plugin_id b = pd_id (fb_definition b)"

definition dependency_binding :: "('v, 'f) CapabilityFiber \<Rightarrow> DependencyBinding option" where
  "dependency_binding b = map_option de_binding (fb_dependency_epoch b)"

definition declares_dependency :: "('v, 'f) CapabilityFiber \<Rightarrow> Id \<Rightarrow> bool" where
  "declares_dependency b capability \<longleftrightarrow> capability \<in> set (definition_requirements (pd_capability (fb_definition b)))"

definition resolved_for :: "('v, 'd, 'f, 'h) plugins \<Rightarrow> ('v, 'f) CapabilityFiber \<Rightarrow> ScopeError + 'v ResolvedDependencies" where
  "resolved_for w b = context_resolve_dependencies (pl_scopes w) (fb_context b) (pd_capability (fb_definition b))"

definition current_binding :: "('v, 'd, 'f, 'h) plugins \<Rightarrow> ('v, 'f) CapabilityFiber \<Rightarrow> DependencyBinding option" where
  "current_binding w b = (case resolved_for w b of Inl _ \<Rightarrow> None | Inr ds \<Rightarrow> Some (binding_from_dependencies ds))"

definition request_epoch :: "FiberId \<Rightarrow> ('v, 'd, 'f, 'h) plugins \<Rightarrow> ('v, 'd, 'f, 'h) plugins" where
  "request_epoch x = update_fiber x (\<lambda>b. b\<lparr>fb_requested_epoch := fb_requested_epoch b + 1\<rparr>)"

definition notify_dependency_change :: "FiberId \<Rightarrow> ('v, 'd, 'f, 'h) plugins \<Rightarrow> ('v, 'd, 'f, 'h) plugins" where
  "notify_dependency_change x = request_epoch x"

definition needs_reconciliation :: "('v, 'd, 'f, 'h) plugins \<Rightarrow> FiberId \<Rightarrow> bool" where
  "needs_reconciliation w x =
     (let b = fiber_at w x; current = current_binding w b in
      (case fb_state b of
         FiberActive \<Rightarrow> current \<noteq> dependency_binding b
       | FiberLoading \<Rightarrow> current \<noteq> fb_loading_binding b
       | FiberPending \<Rightarrow> definition_requirements (pd_capability (fb_definition b)) \<noteq> [] \<and> current \<noteq> None
       | FiberFailed \<Rightarrow> False
       | FiberDisposed \<Rightarrow> False
       | FiberUnloading \<Rightarrow> True))"

definition fiber_effect :: "('v, 'd, 'f, 'h) plugins \<Rightarrow> FiberId \<Rightarrow> 'd ScopedEffect \<Rightarrow>
    ('v, 'd, 'f, 'h) plugins \<times> (FiberError + unit)" where
  "fiber_effect w x e =
     (let b = fiber_at w x in
      if fb_state b \<noteq> FiberActive then (w, Inl (InactiveEffect (fb_state b)))
      else
        (case effect_register w (fb_effects b) e of
           (w, Inl err) \<Rightarrow> (w, Inl (FiberEffect err))
         | (w, Inr _) \<Rightarrow> (w, Inr ())))"

section \<open>Unloading\<close>

definition same_publication :: "'v CapabilityHandle \<Rightarrow> 'v CapabilityHandle \<Rightarrow> bool" where
  "same_publication a b \<longleftrightarrow>
     handle_id a = handle_id b \<and> handle_generation a = handle_generation b \<and> handle_entry_id a = handle_entry_id b"

definition finish_unload :: "FiberId \<Rightarrow> ('v, 'd, 'f, 'h) plugins \<Rightarrow> ('v, 'd, 'f, 'h) plugins" where
  "finish_unload x w =
     (let (w, k) = effect_scope_new w in
      update_fiber x (\<lambda>b. b\<lparr>fb_dependency_epoch := None, fb_loading_binding := None, fb_effects := k,
                           fb_state := FiberPending\<rparr>) w)"

definition withdraw_handle :: "FiberId \<Rightarrow> 'v CapabilityHandle option \<Rightarrow> EffectError list \<Rightarrow> ('v, 'd, 'f, 'h) plugins \<Rightarrow>
    (('v, 'd, 'f, 'h) plugins \<times> EffectError list) option" where
  "withdraw_handle x detached errors w =
     (case fb_handle (fiber_at w x) of
        None \<Rightarrow> Some (finish_unload x w, errors)
      | Some h \<Rightarrow>
          let w = update_fiber x (\<lambda>b. b\<lparr>fb_handle := None\<rparr>) w in
          if (case detached of None \<Rightarrow> False | Some d \<Rightarrow> same_publication d h) then Some (finish_unload x w, errors)
          else
            (case scope_remove_local (pl_scopes w) (ctx_scope (fb_context (fiber_at w x))) (handle_id h) (handle_generation h) of
               (st, Inl ScopePanic) \<Rightarrow> None
             | (st, Inl e) \<Rightarrow>
                 Some (update_fiber x (\<lambda>b. b\<lparr>fb_dependency_epoch := None, fb_state := FiberPending\<rparr>) (w\<lparr>pl_scopes := st\<rparr>),
                       errors @ [effect_error_from_scope e])
             | (st, Inr _) \<Rightarrow> Some (finish_unload x (w\<lparr>pl_scopes := st\<rparr>), errors)))"

definition unload :: "('v, 'd, 'f, 'h) plugin_env \<Rightarrow> FiberId \<Rightarrow> 'v CapabilityHandle option \<Rightarrow> ('v, 'd, 'f, 'h) plugins \<Rightarrow>
    (('v, 'd, 'f, 'h) plugins \<times> EffectError list) option" where
  "unload env x detached w =
     (let w = set_state x FiberUnloading w in
      Option.bind (dispose_all env w (fb_effects (fiber_at w x)))
        (\<lambda>(w, errors). withdraw_handle x detached errors w))"

text \<open>Unloading and keeping the cleanup errors, as the callers of \<^verbatim>\<open>unload\<close> but \<^verbatim>\<open>dispose\<close> do.\<close>

definition unload_keep :: "('v, 'd, 'f, 'h) plugin_env \<Rightarrow> FiberId \<Rightarrow> 'v CapabilityHandle option \<Rightarrow> ('v, 'd, 'f, 'h) plugins \<Rightarrow>
    ('v, 'd, 'f, 'h) plugins option" where
  "unload_keep env x detached w =
     map_option (\<lambda>(w, errors). update_fiber x (\<lambda>b. b\<lparr>fb_cleanup_errors := errors\<rparr>) w) (unload env x detached w)"

definition deactivate_locked :: "('v, 'd, 'f, 'h) plugin_env \<Rightarrow> FiberId \<Rightarrow> 'v CapabilityHandle option \<Rightarrow>
    ('v, 'd, 'f, 'h) plugins \<Rightarrow> (('v, 'd, 'f, 'h) plugins \<times> FiberState) option" where
  "deactivate_locked env x detached w =
     (case fb_state (fiber_at w x) of
        FiberDisposed \<Rightarrow> Some (w, FiberDisposed)
      | s \<Rightarrow>
          if s = FiberActive \<or> s = FiberFailed then
            map_option (\<lambda>w. (w, fb_state (fiber_at w x))) (unload_keep env x detached w)
          else Some (w, s))"

text \<open>It returns \<^verbatim>\<open>Ok\<close> on every path.\<close>

definition deactivate_for_withdrawal_with_detached :: "('v, 'd, 'f, 'h) plugin_env \<Rightarrow> FiberId \<Rightarrow> 'v CapabilityHandle option \<Rightarrow>
    ('v, 'd, 'f, 'h) plugins \<Rightarrow> (('v, 'd, 'f, 'h) plugins \<times> FiberState) option" where
  "deactivate_for_withdrawal_with_detached env x detached w = deactivate_locked env x detached (request_epoch x w)"

section \<open>Loading\<close>

text \<open>
  One turn of the loop of \<^verbatim>\<open>drive\<close>: a result ends the loop, \<open>None\<close> starts the next turn.
  \<open>drive_load\<close> is the part from the state \<^verbatim>\<open>Loading\<close> on.
\<close>

definition begin_load :: "FiberId \<Rightarrow> DependencyEpoch \<Rightarrow> ('v, 'd, 'f, 'h) plugins \<Rightarrow> ('v, 'd, 'f, 'h) plugins" where
  "begin_load x epoch w =
     (let (w, k) = effect_scope_new w in
      update_fiber x (\<lambda>b. b\<lparr>fb_state := FiberLoading, fb_effects := k, fb_error := None,
                           fb_loading_binding := Some (de_binding epoch)\<rparr>) w)"

definition load_context :: "('v, 'd, 'f, 'h) plugins \<Rightarrow> FiberId \<Rightarrow> 'v ResolvedDependencies \<Rightarrow> 'v PluginLoadContext" where
  "load_context w x dependencies =
     (let b = fiber_at w x in
      \<lparr>lc_context = fb_context b,
       lc_config = (case intercepted_config (fb_context b) (plugin_id b) of Some c \<Rightarrow> c | None \<Rightarrow> fb_config b),
       lc_dependencies = dependencies, lc_effects = fb_effects b\<rparr>)"

definition load_is_stale :: "('v, 'd, 'f, 'h) plugins \<Rightarrow> FiberId \<Rightarrow> DependencyEpoch \<Rightarrow> bool" where
  "load_is_stale w x epoch \<longleftrightarrow>
     (let b = fiber_at w x in
      fb_dispose_requested b \<or> fb_force_reload b \<or> current_binding w b \<noteq> Some (de_binding epoch))"

definition publish_loaded :: "FiberId \<Rightarrow> 'v ResolvedDependencies \<Rightarrow> 'v CapabilityHandle \<Rightarrow>
    ('v, 'd, 'f, 'h) plugins \<Rightarrow> ('v, 'd, 'f, 'h) plugins" where
  "publish_loaded x dependencies h =
     update_fiber x (\<lambda>b. b\<lparr>fb_handle := Some h,
       fb_dependency_epoch := Some (epoch_from_dependencies (fb_requested_epoch b) dependencies),
       fb_loading_binding := None, fb_state := FiberActive\<rparr>)"

text \<open>A load that does not become active: its effects are disposed and the fiber settled.\<close>

definition abandon_load :: "('v, 'd, 'f, 'h) plugin_env \<Rightarrow> FiberId \<Rightarrow> nat \<Rightarrow> ('v, 'd, 'f, 'h) plugins \<Rightarrow>
    (('v, 'd, 'f, 'h) plugins \<times> EffectError list) option" where
  "abandon_load env x effects w =
     Option.bind (dispose_all env w effects)
       (\<lambda>(w, errors). Some (update_fiber x (\<lambda>b. b\<lparr>fb_loading_binding := None, fb_cleanup_errors := errors\<rparr>) w, errors))"

definition drive_load :: "('v, 'd, 'f, 'h) plugin_env \<Rightarrow> FiberId \<Rightarrow> 'v ResolvedDependencies \<Rightarrow> DependencyEpoch \<Rightarrow>
    ('v, 'd, 'f, 'h) plugins \<Rightarrow> (('v, 'd, 'f, 'h) plugins \<times> (FiberError + FiberState) option) option" where
  "drive_load env x dependencies epoch w =
     (let w = begin_load x epoch w; effects = fb_effects (fiber_at w x);
          (w, result) = pe_load env (pd_factory (fb_definition (fiber_at w x))) (load_context w x dependencies) w;
          stale = load_is_stale w x epoch
      in (case result of
            Inr v \<Rightarrow>
              if \<not> stale then
                (case scope_provide_value (pl_scopes w) (ctx_scope (fb_context (fiber_at w x)))
                        (pd_capability (fb_definition (fiber_at w x))) dependencies v of
                   (st, Inr h) \<Rightarrow>
                     Some (publish_loaded x dependencies h (w\<lparr>pl_scopes := st\<rparr>), Some (Inr FiberActive))
                 | (st, Inl ScopePanic) \<Rightarrow> None
                 | (st, Inl (DependencyChanged c i)) \<Rightarrow>
                     Option.bind (abandon_load env x effects (w\<lparr>pl_scopes := st\<rparr>))
                       (\<lambda>(w, _). Some (set_state x FiberPending w, None))
                 | (st, Inl e) \<Rightarrow>
                     Option.bind (abandon_load env x effects (w\<lparr>pl_scopes := st\<rparr>))
                       (\<lambda>(w, _). Some (update_fiber x (\<lambda>b. b\<lparr>fb_error := Some (scope_error_text e), fb_state := FiberFailed\<rparr>) w,
                                       Some (Inl (FiberScope e)))))
              else
                Option.bind (abandon_load env x effects w)
                  (\<lambda>(w, _).
                     let w = update_fiber x (\<lambda>b. b\<lparr>fb_force_reload := False\<rparr>) w in
                     if fb_dispose_requested (fiber_at w x) then Some (w, Some (Inl DisposedError))
                     else Some (set_state x FiberPending w, None))
          | Inl reason \<Rightarrow>
              if stale then
                Option.bind (abandon_load env x effects w)
                  (\<lambda>(w, _).
                     let w = update_fiber x (\<lambda>b. b\<lparr>fb_force_reload := False, fb_error := None\<rparr>) w in
                     if fb_dispose_requested (fiber_at w x) then Some (set_state x FiberDisposed w, Some (Inl DisposedError))
                     else Some (set_state x FiberPending w, None))
              else
                Option.bind (abandon_load env x effects w)
                  (\<lambda>(w, errors).
                     Some (update_fiber x (\<lambda>b. b\<lparr>fb_error := Some reason, fb_state := FiberFailed\<rparr>) w,
                           Some (Inl (InitializationFailed (plugin_id (fiber_at w x)) reason errors))))))"

definition clear_active_state :: "('v, 'd, 'f, 'h) plugin_env \<Rightarrow> FiberId \<Rightarrow> ('v, 'd, 'f, 'h) plugins \<Rightarrow>
    ('v, 'd, 'f, 'h) plugins option" where
  "clear_active_state env x w =
     (if fb_state (fiber_at w x) = FiberActive then unload_keep env x None w else Some w)"

definition drive_turn :: "('v, 'd, 'f, 'h) plugin_env \<Rightarrow> FiberId \<Rightarrow> bool \<Rightarrow> ('v, 'd, 'f, 'h) plugins \<Rightarrow>
    (('v, 'd, 'f, 'h) plugins \<times> (FiberError + FiberState) option) option" where
  "drive_turn env x force w =
     (let b = fiber_at w x in
      (case resolved_for w b of
         Inl (ScopeMissingDependency c i) \<Rightarrow>
           map_option (\<lambda>w. (set_state x FiberPending w, Some (Inr FiberPending))) (clear_active_state env x w)
       | Inl e \<Rightarrow> Some (w, Some (Inl (FiberScope e)))
       | Inr dependencies \<Rightarrow>
           let epoch = epoch_from_dependencies (fb_requested_epoch b) dependencies in
           if \<not> force \<and> fb_state b = FiberActive \<and> dependency_binding b = Some (de_binding epoch) then
             Some (update_fiber x (\<lambda>b. b\<lparr>fb_dependency_epoch := Some epoch\<rparr>) w, Some (Inr FiberActive))
           else if fb_state b = FiberActive \<or> fb_state b = FiberFailed then
             map_option
               (\<lambda>w. (w, if fb_dispose_requested (fiber_at w x) then Some (Inl DisposedError) else None))
               (unload_keep env x None w)
           else if fb_dispose_requested b then Some (w, Some (Inl DisposedError))
           else drive_load env x dependencies epoch w))"

partial_function (option) drive_loop :: "('v, 'd, 'f, 'h) plugin_env \<Rightarrow> FiberId \<Rightarrow> bool \<Rightarrow> ('v, 'd, 'f, 'h) plugins \<Rightarrow>
    (('v, 'd, 'f, 'h) plugins \<times> (FiberError + FiberState)) option" where
  "drive_loop env x force w =
     Option.bind (drive_turn env x force w)
       (\<lambda>(w, r). case r of None \<Rightarrow> drive_loop env x force w | Some result \<Rightarrow> Some (w, result))"

definition drive :: "('v, 'd, 'f, 'h) plugin_env \<Rightarrow> FiberId \<Rightarrow> bool \<Rightarrow> ('v, 'd, 'f, 'h) plugins \<Rightarrow>
    (('v, 'd, 'f, 'h) plugins \<times> (FiberError + FiberState)) option" where
  "drive env x force w =
     (let b = fiber_at w x in
      if fb_dispose_requested b then Some (w, Inl DisposedError)
      else if \<not> force \<and> fb_state b = FiberFailed then
        Some (w, Inl (InitializationFailed (plugin_id b)
          (case fb_error b of Some reason \<Rightarrow> reason | None \<Rightarrow> ''plugin initialization failed'') (fb_cleanup_errors b)))
      else
        let requested_force = fb_force_reload b;
            w = update_fiber x (\<lambda>b. b\<lparr>fb_force_reload := False,
                  fb_cleanup_errors := (if fb_state b = FiberPending then [] else fb_cleanup_errors b)\<rparr>) w
        in drive_loop env x (force \<or> requested_force) w)"

section \<open>Calls of the host\<close>

definition fiber_start :: "('v, 'd, 'f, 'h) plugin_env \<Rightarrow> FiberId \<Rightarrow> ('v, 'd, 'f, 'h) plugins \<Rightarrow>
    (('v, 'd, 'f, 'h) plugins \<times> (FiberError + FiberState)) option" where
  "fiber_start env x w = drive env x False w"

definition await_stable :: "('v, 'd, 'f, 'h) plugin_env \<Rightarrow> FiberId \<Rightarrow> ('v, 'd, 'f, 'h) plugins \<Rightarrow>
    (('v, 'd, 'f, 'h) plugins \<times> (FiberError + FiberState)) option" where
  "await_stable env x w = fiber_start env x w"

definition request_restart :: "FiberId \<Rightarrow> ('v, 'd, 'f, 'h) plugins \<Rightarrow> ('v, 'd, 'f, 'h) plugins" where
  "request_restart x w = request_epoch x (update_fiber x (\<lambda>b. b\<lparr>fb_force_reload := True\<rparr>) w)"

definition fiber_restart :: "('v, 'd, 'f, 'h) plugin_env \<Rightarrow> FiberId \<Rightarrow> ('v, 'd, 'f, 'h) plugins \<Rightarrow>
    (('v, 'd, 'f, 'h) plugins \<times> (FiberError + FiberState)) option" where
  "fiber_restart env x w =
     (if fb_state (fiber_at w x) = FiberDisposed then Some (w, Inl DisposedError)
      else drive env x True (request_restart x w))"

definition fiber_update :: "('v, 'd, 'f, 'h) plugin_env \<Rightarrow> FiberId \<Rightarrow> string \<Rightarrow> ('v, 'd, 'f, 'h) plugins \<Rightarrow>
    (('v, 'd, 'f, 'h) plugins \<times> (FiberError + FiberState)) option" where
  "fiber_update env x config w =
     (let b = fiber_at w x in
      if fb_state b = FiberDisposed then Some (w, Inl DisposedError)
      else
        (case pd_validator (fb_definition b) config of
           Inl reason \<Rightarrow> Some (w, Inl (InvalidConfig (plugin_id b) reason))
         | Inr _ \<Rightarrow> fiber_restart env x (update_fiber x (\<lambda>b. b\<lparr>fb_config := config\<rparr>) w)))"

definition request_dispose :: "FiberId \<Rightarrow> ('v, 'd, 'f, 'h) plugins \<Rightarrow> ('v, 'd, 'f, 'h) plugins" where
  "request_dispose x w = request_epoch x (update_fiber x (\<lambda>b. b\<lparr>fb_dispose_requested := True\<rparr>) w)"

definition remove_fiber :: "nat \<Rightarrow> FiberId \<Rightarrow> ('v, 'd, 'f, 'h) plugins \<Rightarrow> ('v, 'd, 'f, 'h) plugins" where
  "remove_fiber n x w =
     (if n < length (pl_runtimes w) then
        w\<lparr>pl_runtimes := (pl_runtimes w)[n := (pl_runtimes w ! n)\<lparr>pr_fibers := pr_fibers (pl_runtimes w ! n) |-| {|x|}\<rparr>]\<rparr>
      else w)"

definition dispose_locked :: "('v, 'd, 'f, 'h) plugin_env \<Rightarrow> FiberId \<Rightarrow> ('v, 'd, 'f, 'h) plugins \<Rightarrow>
    (('v, 'd, 'f, 'h) plugins \<times> (FiberError + unit)) option" where
  "dispose_locked env x w =
     (if fb_state (fiber_at w x) = FiberDisposed then Some (w, Inr ())
      else
        map_option
          (\<lambda>(w, errors).
             (remove_fiber (fb_runtime (fiber_at w x)) x (set_state x FiberDisposed w),
              if errors = [] then Inr () else Inl (Cleanup errors)))
          (unload env x None w))"

definition fiber_dispose :: "('v, 'd, 'f, 'h) plugin_env \<Rightarrow> FiberId \<Rightarrow> ('v, 'd, 'f, 'h) plugins \<Rightarrow>
    (('v, 'd, 'f, 'h) plugins \<times> (FiberError + unit)) option" where
  "fiber_dispose env x w = dispose_locked env x (request_dispose x w)"

section \<open>Runtimes and the registry\<close>

definition fiber_new :: "nat \<Rightarrow> CapabilityContext \<Rightarrow> 'f PluginDefinition \<Rightarrow> string \<Rightarrow> nat \<Rightarrow> ('v, 'f) CapabilityFiber" where
  "fiber_new runtime ctx d config effects =
     \<lparr>fb_runtime = runtime, fb_context = ctx, fb_definition = d, fb_config = config, fb_state = FiberPending,
      fb_requested_epoch = 0, fb_dispose_requested = False, fb_force_reload = False, fb_handle = None,
      fb_dependency_epoch = None, fb_loading_binding = None, fb_effects = effects, fb_cleanup_errors = [],
      fb_error = None\<rparr>"

definition plugin_runtime_new :: "('v, 'd, 'f, 'h) plugins \<Rightarrow> 'f PluginDefinition \<Rightarrow> ('v, 'd, 'f, 'h) plugins \<times> nat" where
  "plugin_runtime_new w d =
     (w\<lparr>pl_runtimes := pl_runtimes w @ [\<lparr>pr_definition = d, pr_fibers = {||}\<rparr>]\<rparr>, length (pl_runtimes w))"

definition create_fiber :: "('v, 'd, 'f, 'h) plugins \<Rightarrow> nat \<Rightarrow> CapabilityContext \<Rightarrow> string \<Rightarrow>
    ('v, 'd, 'f, 'h) plugins \<times> (FiberError + FiberId)" where
  "create_fiber w n ctx config =
     (let r = pl_runtimes w ! n; d = pr_definition r in
      (case pd_validator d config of
         Inl reason \<Rightarrow> (w, Inl (InvalidConfig (pd_id d) reason))
       | Inr _ \<Rightarrow>
           (case allocate_monotonic (pl_next_fiber w) of
              None \<Rightarrow> (w, Inl FiberIdExhausted)
            | Some (x, next_id) \<Rightarrow>
                let (w, k) = effect_scope_new (w\<lparr>pl_next_fiber := next_id\<rparr>) in
                (w\<lparr>pl_fibers := fmupd x (fiber_new n ctx d config k) (pl_fibers w),
                   pl_runtimes := (pl_runtimes w)[n := r\<lparr>pr_fibers := finsert x (pr_fibers r)\<rparr>]\<rparr>, Inr x))))"

text \<open>The loop of \<^verbatim>\<open>dispose_fibers\<close> over the fibers that were live at its start.\<close>

fun dispose_each :: "('v, 'd, 'f, 'h) plugin_env \<Rightarrow> FiberId list \<Rightarrow> FiberError list \<Rightarrow> ('v, 'd, 'f, 'h) plugins \<Rightarrow>
    (('v, 'd, 'f, 'h) plugins \<times> FiberError list) option" where
  "dispose_each env [] errors w = Some (w, errors)"
| "dispose_each env (x # xs) errors w =
     Option.bind (fiber_dispose env x w)
       (\<lambda>(w, r). dispose_each env xs (case r of Inl e \<Rightarrow> errors @ [e] | Inr _ \<Rightarrow> errors) w)"

definition dispose_fibers :: "('v, 'd, 'f, 'h) plugin_env \<Rightarrow> nat \<Rightarrow> ('v, 'd, 'f, 'h) plugins \<Rightarrow>
    (('v, 'd, 'f, 'h) plugins \<times> FiberError list) option" where
  "dispose_fibers env n w =
     map_option
       (\<lambda>(w, errors). (w\<lparr>pl_runtimes := (pl_runtimes w)[n := (pl_runtimes w ! n)\<lparr>pr_fibers := {||}\<rparr>]\<rparr>, errors))
       (dispose_each env (sorted_list_of_fset (pr_fibers (pl_runtimes w ! n))) [] w)"

datatype RegistryError =
    DuplicateRuntime Id
  | UnknownRuntime Id
  | RegistryFiber FiberError
  | DisposeRuntime Id "FiberError list"

type_synonym CapabilityRegistry = "(Id, nat) fmap"

definition registry_register :: "('v, 'd, 'f, 'h) plugins \<Rightarrow> CapabilityRegistry \<Rightarrow> nat \<Rightarrow>
    CapabilityRegistry \<times> (RegistryError + unit)" where
  "registry_register w registry n =
     (let i = pd_id (pr_definition (pl_runtimes w ! n)) in
      if contains_key registry i then (registry, Inl (DuplicateRuntime i))
      else (fmupd i n registry, Inr ()))"

definition registry_get :: "CapabilityRegistry \<Rightarrow> Id \<Rightarrow> nat option" where
  "registry_get registry i = fmlookup registry i"

definition registry_instantiate :: "('v, 'd, 'f, 'h) plugins \<Rightarrow> CapabilityRegistry \<Rightarrow> Id \<Rightarrow> CapabilityContext \<Rightarrow> string \<Rightarrow>
    ('v, 'd, 'f, 'h) plugins \<times> (RegistryError + FiberId)" where
  "registry_instantiate w registry i ctx config =
     (case fmlookup registry i of
        None \<Rightarrow> (w, Inl (UnknownRuntime i))
      | Some n \<Rightarrow>
          (case create_fiber w n ctx config of
             (w, Inl e) \<Rightarrow> (w, Inl (RegistryFiber e))
           | (w, Inr x) \<Rightarrow> (w, Inr x)))"

definition registry_take :: "CapabilityRegistry \<Rightarrow> Id \<Rightarrow> CapabilityRegistry \<times> nat option" where
  "registry_take registry i = (fmdrop i registry, fmlookup registry i)"

definition dispose_taken :: "('v, 'd, 'f, 'h) plugin_env \<Rightarrow> nat \<Rightarrow> ('v, 'd, 'f, 'h) plugins \<Rightarrow>
    (('v, 'd, 'f, 'h) plugins \<times> (RegistryError + unit)) option" where
  "dispose_taken env n w =
     map_option
       (\<lambda>(w, errors).
          (w, if errors = [] then Inr () else Inl (DisposeRuntime (pd_id (pr_definition (pl_runtimes w ! n))) errors)))
       (dispose_fibers env n w)"

definition registry_remove :: "('v, 'd, 'f, 'h) plugin_env \<Rightarrow> CapabilityRegistry \<Rightarrow> Id \<Rightarrow> ('v, 'd, 'f, 'h) plugins \<Rightarrow>
    (('v, 'd, 'f, 'h) plugins \<times> CapabilityRegistry \<times> (RegistryError + nat option)) option" where
  "registry_remove env registry i w =
     (case registry_take registry i of
        (registry, None) \<Rightarrow> Some (w, registry, Inr None)
      | (registry, Some n) \<Rightarrow>
          map_option (\<lambda>(w, r). (w, registry, case r of Inl e \<Rightarrow> Inl e | Inr _ \<Rightarrow> Inr (Some n))) (dispose_taken env n w))"

end
