(* ===== verification/Reactive_Runtime.thy ===== *)
theory Reactive_Runtime
  imports Plugin_Fibers
begin

text \<open>
  The reactive coordinator of capability fibers (\<^verbatim>\<open>reactive.rs\<close>): it watches fibers, drives the
  ones whose providers changed, and withdraws a provider after its dependents.
\<close>

section \<open>State and reports\<close>

record ReactiveCapabilityRuntime =
  rr_context :: CapabilityContext
  rr_registry :: CapabilityRegistry
  rr_fibers :: "FiberId fset"  \<comment> \<open>the keys of the map of weak pointers\<close>

definition ReactiveCapabilityRuntime_new :: "CapabilityContext \<Rightarrow> ReactiveCapabilityRuntime" where
  "ReactiveCapabilityRuntime_new ctx = \<lparr>rr_context = ctx, rr_registry = fmempty, rr_fibers = {||}\<rparr>"

record ReconcileReport =
  rp_driven :: "FiberId list"
  rp_errors :: "(FiberId \<times> FiberError) list"
  rp_cleanup_errors :: "(FiberId \<times> EffectError list) list"
  rp_provider_finalized :: bool

definition ReconcileReport_default :: ReconcileReport where
  "ReconcileReport_default = \<lparr>rp_driven = [], rp_errors = [], rp_cleanup_errors = [], rp_provider_finalized = False\<rparr>"

definition report_is_success :: "ReconcileReport \<Rightarrow> bool" where
  "report_is_success r \<longleftrightarrow> rp_errors r = [] \<and> rp_cleanup_errors r = []"

datatype ReactiveRuntimeError =
    ReactiveScope ScopeError
  | ReactiveRegistry RegistryError
  | DuplicateFiber FiberId

section \<open>Watching\<close>

definition watch :: "('v, 'd, 'f, 'h) plugin_env \<Rightarrow> ('v, 'd, 'f, 'h) plugins \<Rightarrow> ReactiveCapabilityRuntime \<Rightarrow> FiberId \<Rightarrow>
    ReactiveCapabilityRuntime \<times> (ReactiveRuntimeError + unit)" where
  "watch env w r x =
     (if x |\<in>| rr_fibers r \<and> pe_alive env w x then (r, Inl (DuplicateFiber x))
      else (r\<lparr>rr_fibers := finsert x (rr_fibers r)\<rparr>, Inr ()))"

definition reactive_instantiate :: "('v, 'd, 'f, 'h) plugin_env \<Rightarrow> ('v, 'd, 'f, 'h) plugins \<Rightarrow> ReactiveCapabilityRuntime \<Rightarrow>
    Id \<Rightarrow> string \<Rightarrow> ('v, 'd, 'f, 'h) plugins \<times> ReactiveCapabilityRuntime \<times> (ReactiveRuntimeError + FiberId)" where
  "reactive_instantiate env w r plugin config =
     (case registry_instantiate w (rr_registry r) plugin (rr_context r) config of
        (w, Inl e) \<Rightarrow> (w, r, Inl (ReactiveRegistry e))
      | (w, Inr x) \<Rightarrow>
          (case watch env w r x of
             (r, Inl e) \<Rightarrow> (w, r, Inl e)
           | (r, Inr _) \<Rightarrow> (w, r, Inr x)))"

definition snapshot_fibers :: "('v, 'd, 'f, 'h) plugin_env \<Rightarrow> ('v, 'd, 'f, 'h) plugins \<Rightarrow> ReactiveCapabilityRuntime \<Rightarrow>
    ReactiveCapabilityRuntime \<times> FiberId list" where
  "snapshot_fibers env w r =
     (let live = ffilter (pe_alive env w) (rr_fibers r)
      in (r\<lparr>rr_fibers := live\<rparr>, sorted_list_of_fset live))"

section \<open>Publishing\<close>

definition reactive_provide :: "('v, 'd, 'f, 'h) plugins \<Rightarrow> ReactiveCapabilityRuntime \<Rightarrow> CapabilityDefinition \<Rightarrow> 'v constructor \<Rightarrow>
    ('v, 'd, 'f, 'h) plugins \<times> (ScopeError + 'v CapabilityHandle)" where
  "reactive_provide w r d construct =
     (case scope_provide (pl_scopes w) (ctx_scope (rr_context r)) d construct of (st, out) \<Rightarrow> (w\<lparr>pl_scopes := st\<rparr>, out))"

definition reactive_replace :: "('v, 'd, 'f, 'h) plugins \<Rightarrow> ReactiveCapabilityRuntime \<Rightarrow> CapabilityDefinition \<Rightarrow> Generation \<Rightarrow>
    'v constructor \<Rightarrow> ('v, 'd, 'f, 'h) plugins \<times> (ScopeError + 'v CapabilityHandle)" where
  "reactive_replace w r d expected construct =
     (case scope_replace (pl_scopes w) (ctx_scope (rr_context r)) d expected construct of
        (st, out) \<Rightarrow> (w\<lparr>pl_scopes := st\<rparr>, out))"

section \<open>Reconciliation\<close>

definition append_cleanup_failure :: "('v, 'd, 'f, 'h) plugins \<Rightarrow> FiberId \<Rightarrow> ReconcileReport \<Rightarrow> ReconcileReport" where
  "append_cleanup_failure w x report =
     (let errors = fb_cleanup_errors (fiber_at w x) in
      if errors = [] then report
      else report\<lparr>rp_cleanup_errors := rp_cleanup_errors report @ [(x, errors)]\<rparr>)"

definition append_result :: "FiberId \<Rightarrow> FiberError + 'a \<Rightarrow> ReconcileReport \<Rightarrow> ReconcileReport" where
  "append_result x r report =
     (case r of Inl e \<Rightarrow> report\<lparr>rp_errors := rp_errors report @ [(x, e)]\<rparr> | Inr _ \<Rightarrow> report)"

text \<open>One pass over the snapshot; the flag tells whether a fiber was driven.\<close>

fun reconcile_pass :: "('v, 'd, 'f, 'h) plugin_env \<Rightarrow> FiberId list \<Rightarrow> bool \<Rightarrow> ReconcileReport \<Rightarrow> ('v, 'd, 'f, 'h) plugins \<Rightarrow>
    (('v, 'd, 'f, 'h) plugins \<times> ReconcileReport \<times> bool) option" where
  "reconcile_pass env [] drove report w = Some (w, report, drove)"
| "reconcile_pass env (x # xs) drove report w =
     (if \<not> needs_reconciliation w x then reconcile_pass env xs drove report w
      else
        let report = report\<lparr>rp_driven := rp_driven report @ [x]\<rparr> in
        Option.bind (await_stable env x w)
          (\<lambda>(w, r). reconcile_pass env xs True (append_cleanup_failure w x (append_result x r report)) w))"

partial_function (option) reconcile_loop :: "('v, 'd, 'f, 'h) plugin_env \<Rightarrow> ReactiveCapabilityRuntime \<Rightarrow> ReconcileReport \<Rightarrow>
    ('v, 'd, 'f, 'h) plugins \<Rightarrow> (('v, 'd, 'f, 'h) plugins \<times> ReactiveCapabilityRuntime \<times> ReconcileReport) option" where
  "reconcile_loop env r report w =
     (case snapshot_fibers env w r of
        (r, xs) \<Rightarrow>
          Option.bind (reconcile_pass env xs False report w)
            (\<lambda>(w, report, drove). if drove then reconcile_loop env r report w else Some (w, r, report)))"

definition reconcile :: "('v, 'd, 'f, 'h) plugin_env \<Rightarrow> ReactiveCapabilityRuntime \<Rightarrow> ('v, 'd, 'f, 'h) plugins \<Rightarrow>
    (('v, 'd, 'f, 'h) plugins \<times> ReactiveCapabilityRuntime \<times> ReconcileReport) option" where
  "reconcile env r w = reconcile_loop env r ReconcileReport_default w"

definition provide_and_reconcile :: "('v, 'd, 'f, 'h) plugin_env \<Rightarrow> ReactiveCapabilityRuntime \<Rightarrow> CapabilityDefinition \<Rightarrow>
    'v constructor \<Rightarrow> ('v, 'd, 'f, 'h) plugins \<Rightarrow> (('v, 'd, 'f, 'h) plugins \<times> ReactiveCapabilityRuntime \<times>
      (ReactiveRuntimeError + 'v CapabilityHandle \<times> ReconcileReport)) option" where
  "provide_and_reconcile env r d construct w =
     (case reactive_provide w r d construct of
        (w, Inl e) \<Rightarrow> Some (w, r, Inl (ReactiveScope e))
      | (w, Inr h) \<Rightarrow> Option.bind (reconcile env r w) (\<lambda>(w, r, report). Some (w, r, Inr (h, report))))"

definition replace_and_reconcile :: "('v, 'd, 'f, 'h) plugin_env \<Rightarrow> ReactiveCapabilityRuntime \<Rightarrow> CapabilityDefinition \<Rightarrow>
    Generation \<Rightarrow> 'v constructor \<Rightarrow> ('v, 'd, 'f, 'h) plugins \<Rightarrow> (('v, 'd, 'f, 'h) plugins \<times> ReactiveCapabilityRuntime \<times>
      (ReactiveRuntimeError + 'v CapabilityHandle \<times> ReconcileReport)) option" where
  "replace_and_reconcile env r d expected construct w =
     (case reactive_replace w r d expected construct of
        (w, Inl e) \<Rightarrow> Some (w, r, Inl (ReactiveScope e))
      | (w, Inr h) \<Rightarrow> Option.bind (reconcile env r w) (\<lambda>(w, r, report). Some (w, r, Inr (h, report))))"

section \<open>Withdrawal\<close>

type_synonym ProviderIdentity = "Id \<times> Generation \<times> EntryId"

definition identity_of_handle :: "'v CapabilityHandle \<Rightarrow> ProviderIdentity" where
  "identity_of_handle h = (handle_id h, handle_generation h, handle_entry_id h)"

definition identity_of_pin :: "Id \<Rightarrow> DependencyPin \<Rightarrow> ProviderIdentity" where
  "identity_of_pin capability p = (capability, dp_generation p, dp_entry_id p)"

definition provider_identities :: "('v, 'd, 'f, 'h) plugins \<Rightarrow> FiberId list \<Rightarrow> (ProviderIdentity, FiberId) fmap" where
  "provider_identities w xs =
     fold (\<lambda>x m. case fb_handle (fiber_at w x) of None \<Rightarrow> m | Some h \<Rightarrow> fmupd (identity_of_handle h) x m) xs fmempty"

definition fiber_binding :: "('v, 'f) CapabilityFiber \<Rightarrow> DependencyBinding option" where
  "fiber_binding b = (case dependency_binding b of Some binding \<Rightarrow> Some binding | None \<Rightarrow> fb_loading_binding b)"

definition binding_contains :: "DependencyBinding \<Rightarrow> ProviderIdentity \<Rightarrow> bool" where
  "binding_contains binding target \<longleftrightarrow> list_ex (\<lambda>(capability, p). identity_of_pin capability p = target) (binding_iter binding)"

definition directly_affected :: "('v, 'd, 'f, 'h) plugins \<Rightarrow> ProviderIdentity \<Rightarrow> FiberId \<Rightarrow> bool" where
  "directly_affected w retired x \<longleftrightarrow>
     (case fb_handle (fiber_at w x) of None \<Rightarrow> False | Some h \<Rightarrow> identity_of_handle h = retired) \<or>
     (case fiber_binding (fiber_at w x) of None \<Rightarrow> False | Some binding \<Rightarrow> binding_contains binding retired)"

definition depends_on_affected :: "('v, 'd, 'f, 'h) plugins \<Rightarrow> (ProviderIdentity, FiberId) fmap \<Rightarrow> FiberId fset \<Rightarrow> FiberId \<Rightarrow> bool" where
  "depends_on_affected w identities affected x \<longleftrightarrow>
     (case fiber_binding (fiber_at w x) of
        None \<Rightarrow> False
      | Some binding \<Rightarrow>
          list_ex (\<lambda>(capability, p).
            case fmlookup identities (identity_of_pin capability p) of None \<Rightarrow> False | Some provider \<Rightarrow> provider |\<in>| affected)
            (binding_iter binding))"

text \<open>One round of the inner loop; the outer loop ends when a round adds nothing.\<close>

definition affected_step :: "('v, 'd, 'f, 'h) plugins \<Rightarrow> (ProviderIdentity, FiberId) fmap \<Rightarrow> FiberId \<Rightarrow> FiberId fset \<Rightarrow> FiberId fset" where
  "affected_step w identities x affected =
     (if x |\<notin>| affected \<and> depends_on_affected w identities affected x then finsert x affected else affected)"

definition affected_round :: "('v, 'd, 'f, 'h) plugins \<Rightarrow> (ProviderIdentity, FiberId) fmap \<Rightarrow> FiberId list \<Rightarrow> FiberId fset \<Rightarrow> FiberId fset" where
  "affected_round w identities xs affected = fold (affected_step w identities) xs affected"

lemma affected_step_bounds: "affected |\<subseteq>| affected_step w identities x affected"
  "affected_step w identities x affected |\<subseteq>| finsert x affected"
  by (auto simp: affected_step_def)

lemma affected_round_bounds: "affected |\<subseteq>| affected_round w identities xs affected"
  "affected_round w identities xs affected |\<subseteq>| affected |\<union>| fset_of_list xs"
proof -
  show "affected |\<subseteq>| affected_round w identities xs affected"
    unfolding affected_round_def
  proof (induction xs arbitrary: affected)
    case (Cons x xs)
    then show ?case using affected_step_bounds(1) [of affected w identities x] by (simp, blast intro: order_trans)
  qed simp
  show "affected_round w identities xs affected |\<subseteq>| affected |\<union>| fset_of_list xs"
    unfolding affected_round_def
  proof (induction xs arbitrary: affected)
    case (Cons x xs)
    have "fold (affected_step w identities) xs (affected_step w identities x affected) |\<subseteq>|
        affected_step w identities x affected |\<union>| fset_of_list xs" by (rule Cons.IH)
    also have "\<dots> |\<subseteq>| finsert x affected |\<union>| fset_of_list xs" using affected_step_bounds(2) [of w identities x affected] by auto
    finally show ?case by (auto simp: fsubset_iff)
  qed simp
qed

function affected_loop :: "('v, 'd, 'f, 'h) plugins \<Rightarrow> (ProviderIdentity, FiberId) fmap \<Rightarrow> FiberId list \<Rightarrow> FiberId fset \<Rightarrow> FiberId fset" where
  "affected_loop w identities xs affected =
     (let affected' = affected_round w identities xs affected in
      if affected' = affected then affected else affected_loop w identities xs affected')"
  by pat_completeness auto

termination
proof (relation "measure (\<lambda>(w, identities, xs, affected). fcard (fset_of_list xs |-| affected))", goal_cases)
  case 1
  then show ?case by simp
next
  case (2 w identities xs affected affected')
  have "affected |\<subset>| affected'" using 2 affected_round_bounds(1) [of affected w identities xs] by (simp add: pfsubset_eq)
  then obtain x where x: "x |\<in>| affected'" "x |\<notin>| affected" by blast
  then have "x |\<in>| fset_of_list xs" using 2(1) affected_round_bounds(2) [of w identities xs affected] by auto
  then have "fset_of_list xs |-| affected' |\<subset>| fset_of_list xs |-| affected"
    using x \<open>affected |\<subset>| affected'\<close> by auto
  then show ?case by (simp add: pfsubset_fcard_mono)
qed

declare affected_loop.simps [simp del]

definition withdrawal_closure :: "('v, 'd, 'f, 'h) plugins \<Rightarrow> FiberId list \<Rightarrow> 'v CapabilityHandle \<Rightarrow>
    (ProviderIdentity, FiberId) fmap \<Rightarrow> FiberId fset" where
  "withdrawal_closure w xs retired identities =
     affected_loop w identities xs (fset_of_list (filter (directly_affected w (identity_of_handle retired)) xs))"

text \<open>The providers of a fiber within the affected set, in the order of its binding.\<close>

definition affected_providers :: "(FiberId, DependencyBinding) fmap \<Rightarrow> FiberId fset \<Rightarrow> (ProviderIdentity, FiberId) fmap \<Rightarrow>
    FiberId \<Rightarrow> FiberId list" where
  "affected_providers bindings affected identities x =
     (case fmlookup bindings x of
        None \<Rightarrow> []
      | Some binding \<Rightarrow>
          filter (\<lambda>provider. provider |\<in>| affected \<and> provider \<noteq> x)
            (List.map_filter (\<lambda>(capability, p). fmlookup identities (identity_of_pin capability p)) (binding_iter binding)))"

lemma affected_providers_mem:
  assumes "y \<in> set (affected_providers bindings affected identities x)"
  shows "y |\<in>| affected \<and> y \<noteq> x"
proof (cases "fmlookup bindings x")
  case None
  then show ?thesis using assms by (simp add: affected_providers_def)
next
  case (Some binding)
  then show ?thesis using assms unfolding affected_providers_def Some option.case set_filter by blast
qed

text \<open>
  The depth-first walk with its set of fibers on the path. Every provider it walks into is in
  the affected set, so the path cannot grow forever.
\<close>

function dependency_depth :: "(FiberId, DependencyBinding) fmap \<Rightarrow> FiberId fset \<Rightarrow> (ProviderIdentity, FiberId) fmap \<Rightarrow>
    FiberId fset \<Rightarrow> FiberId \<Rightarrow> nat" where
  "dependency_depth bindings affected identities visiting x =
     (if x |\<in>| visiting then 0
      else
        foldr max
          (map (\<lambda>provider. 1 + dependency_depth bindings affected identities (finsert x visiting) provider)
             (affected_providers bindings affected identities x)) 0)"
  by pat_completeness auto

termination
proof (relation "measure (\<lambda>(bindings, affected, identities, visiting, x).
    2 * fcard (affected |-| visiting) + (if x |\<in>| affected then 0 else 1))", goal_cases)
  case 1
  then show ?case by simp
next
  case (2 bindings affected identities visiting x y)
  have y: "y |\<in>| affected" using affected_providers_mem 2(2) by blast
  show ?case
  proof (cases "x |\<in>| affected")
    case True
    then have "affected |-| finsert x visiting |\<subset>| affected |-| visiting" using 2(1) by auto
    then have "fcard (affected |-| finsert x visiting) < fcard (affected |-| visiting)" by (rule pfsubset_fcard_mono)
    then show ?thesis using y True by simp
  next
    case False
    then have "affected |-| finsert x visiting = affected |-| visiting" by auto
    then show ?thesis using y False by simp
  qed
qed

declare dependency_depth.simps [simp del]

definition affected_bindings :: "('v, 'd, 'f, 'h) plugins \<Rightarrow> FiberId list \<Rightarrow> FiberId fset \<Rightarrow> (FiberId, DependencyBinding) fmap" where
  "affected_bindings w xs affected =
     fold (\<lambda>x m. if x |\<in>| affected then (case fiber_binding (fiber_at w x) of None \<Rightarrow> m | Some binding \<Rightarrow> fmupd x binding m) else m)
       xs fmempty"

definition withdrawal_order :: "('v, 'd, 'f, 'h) plugins \<Rightarrow> FiberId list \<Rightarrow> FiberId fset \<Rightarrow> (ProviderIdentity, FiberId) fmap \<Rightarrow>
    FiberId list" where
  "withdrawal_order w xs affected identities =
     (let bindings = affected_bindings w xs affected;
          depth = dependency_depth bindings affected identities {||};
          listed = filter (\<lambda>x. x \<in> set xs) (sorted_list_of_fset affected)
      in sort_key (\<lambda>x. - int (depth x)) listed)"

text \<open>The loop over the ordered fibers.\<close>

fun withdraw_each :: "('v, 'd, 'f, 'h) plugin_env \<Rightarrow> 'v CapabilityHandle \<Rightarrow> FiberId list \<Rightarrow> ReconcileReport \<Rightarrow>
    ('v, 'd, 'f, 'h) plugins \<Rightarrow> (('v, 'd, 'f, 'h) plugins \<times> ReconcileReport) option" where
  "withdraw_each env retired [] report w = Some (w, report)"
| "withdraw_each env retired (x # xs) report w =
     (let report = report\<lparr>rp_driven := rp_driven report @ [x]\<rparr>;
          own = (case fb_handle (fiber_at w x) of None \<Rightarrow> False | Some h \<Rightarrow> identity_of_handle h = identity_of_handle retired)
      in Option.bind
           (deactivate_for_withdrawal_with_detached env x (if own then Some retired else None) w)
           (\<lambda>(w, _). withdraw_each env retired xs (append_cleanup_failure w x report) w))"

definition withdraw_and_reconcile :: "('v, 'd, 'f, 'h) plugin_env \<Rightarrow> ReactiveCapabilityRuntime \<Rightarrow> Id \<Rightarrow> Generation \<Rightarrow>
    ('v, 'd, 'f, 'h) plugins \<Rightarrow> (('v, 'd, 'f, 'h) plugins \<times> ReactiveCapabilityRuntime \<times>
      (ReactiveRuntimeError + ReconcileReport)) option" where
  "withdraw_and_reconcile env r capability expected w =
     (if scope_get_local (pl_scopes w) (ctx_scope (rr_context r)) capability = None then
        Some (w, r, Inr (ReconcileReport_default\<lparr>rp_provider_finalized := True\<rparr>))
      else
        (case scope_withdraw (pl_scopes w) (ctx_scope (rr_context r)) capability expected of
           (st, Inl e) \<Rightarrow> Some (w\<lparr>pl_scopes := st\<rparr>, r, Inl (ReactiveScope e))
         | (st, Inr retired) \<Rightarrow>
             let w = w\<lparr>pl_scopes := st\<rparr>;
                 (r, xs) = snapshot_fibers env w r;
                 identities = provider_identities w xs;
                 affected = withdrawal_closure w xs retired identities;
                 ordered = withdrawal_order w xs affected identities
             in Option.bind (withdraw_each env retired ordered ReconcileReport_default w)
                  (\<lambda>(w, report). Some (w, r, Inr (report\<lparr>rp_provider_finalized := True\<rparr>)))))"

end
