(* ===== verification/Reactive_Order.thy ===== *)
theory Reactive_Order
  imports Reactive_Runtime
begin

text \<open>
  Cleanup of owned effects: a run of disposers goes through the effects in reverse order of
  their registration, continues after a failure and closes every stack it takes. With closures
  that only change the host's own state the run ends, whatever the nesting of effect scopes.
\<close>

section \<open>The order of cleanup\<close>

text \<open>The reference: one effect after the other, in the order given.\<close>

fun run_disposers :: "('v, 'd, 'f, 'h) plugin_env \<Rightarrow> (string \<times> 'd) list \<Rightarrow> ('v, 'd, 'f, 'h) plugins \<Rightarrow>
    ('v, 'd, 'f, 'h) plugins \<times> EffectError list" where
  "run_disposers env [] w = (w, [])"
| "run_disposers env ((label, d) # ds) w =
     (let (w, r) = pe_dispose env d w; (w, errors) = run_disposers env ds w in (w, disposer_error label r @ errors))"

definition host_effects :: "(string \<times> 'd) list \<Rightarrow> 'd ScopedEffect list" where
  "host_effects ds = map (\<lambda>(label, d). scoped_effect label d) ds"

lemma run_effects_Nil [simp]: "run_effects env [] errors w = Some (w, errors)"
  by (subst run_effects.simps) simp

lemma run_effects_snoc:
  "run_effects env (rest @ [effect]) errors w =
     (case sf_disposer effect of
        None \<Rightarrow> run_effects env rest errors w
      | Some (HostDisposer d) \<Rightarrow>
          (case pe_dispose env d w of
             (w, r) \<Rightarrow> run_effects env rest (errors @ disposer_error (sf_label effect) r) w)
      | Some (NestedScope n) \<Rightarrow>
          (case close_stack w n of
             (w, inner) \<Rightarrow>
               Option.bind (run_effects env inner [] w)
                 (\<lambda>(w, inner_errors).
                    run_effects env rest (errors @ disposer_error (sf_label effect) (nested_result inner_errors)) w)))"
  by (subst run_effects.simps) simp

lemma run_effects_host:
  "run_effects env (host_effects ds) errors w =
     Some (case run_disposers env (rev ds) w of (w, es) \<Rightarrow> (w, errors @ es))"
proof (induction ds arbitrary: errors w rule: rev_induct)
  case Nil
  then show ?case by (simp add: host_effects_def)
next
  case (snoc e ds)
  obtain label d where e: "e = (label, d)" by (cases e)
  obtain w' r where d: "pe_dispose env d w = (w', r)" by (cases "pe_dispose env d w")
  have "host_effects (ds @ [e]) = host_effects ds @ [scoped_effect label d]" by (simp add: host_effects_def e)
  then show ?case
    by (simp add: run_effects_snoc scoped_effect_def e d snoc.IH Let_def split: prod.split)
qed

section \<open>The end of cleanup\<close>

abbreviation closed_stack :: "'d EffectStack" where
  "closed_stack \<equiv> \<lparr>ek_effects = [], ek_closed = True\<rparr>"

definition open_effects :: "('v, 'd, 'f, 'h) plugins \<Rightarrow> nat" where
  "open_effects w = sum_list (map (\<lambda>k. length (ek_effects k)) (pl_stacks w))"

text \<open>What cleanup may do to the world when the disposers only change the host's own state.\<close>

definition only_closes :: "('v, 'd, 'f, 'h) plugins \<Rightarrow> ('v, 'd, 'f, 'h) plugins \<Rightarrow> bool" where
  "only_closes w w' \<longleftrightarrow>
     (\<exists>h ks. w' = w\<lparr>pl_host := h, pl_stacks := ks\<rparr> \<and> length ks = length (pl_stacks w) \<and>
        (\<forall>n<length ks. ks ! n = pl_stacks w ! n \<or> ks ! n = closed_stack))"

definition quiet_disposers :: "('v, 'd, 'f, 'h) plugin_env \<Rightarrow> bool" where
  "quiet_disposers env \<longleftrightarrow> (\<forall>d w. \<exists>h. fst (pe_dispose env d w) = w\<lparr>pl_host := h\<rparr>)"

lemma quiet_dispose:
  assumes "quiet_disposers env" "pe_dispose env d w = (w', r)"
  obtains h where "w' = w\<lparr>pl_host := h\<rparr>"
proof -
  obtain h where "fst (pe_dispose env d w) = w\<lparr>pl_host := h\<rparr>" using assms(1) unfolding quiet_disposers_def by blast
  then show ?thesis using assms(2) that by simp
qed

lemma only_closes_refl [simp]: "only_closes w w"
  unfolding only_closes_def by (rule exI [of _ "pl_host w"], rule exI [of _ "pl_stacks w"]) simp

lemma only_closes_host: "only_closes w (w\<lparr>pl_host := h\<rparr>)"
  unfolding only_closes_def by (rule exI [of _ h], rule exI [of _ "pl_stacks w"]) simp

lemma only_closes_trans:
  assumes a: "only_closes u v" and b: "only_closes v w"
  shows "only_closes u w"
proof -
  obtain h ks where v: "v = u\<lparr>pl_host := h, pl_stacks := ks\<rparr>" "length ks = length (pl_stacks u)"
      "\<forall>n<length ks. ks ! n = pl_stacks u ! n \<or> ks ! n = closed_stack"
    using a unfolding only_closes_def by blast
  obtain h' ks' where w: "w = v\<lparr>pl_host := h', pl_stacks := ks'\<rparr>" "length ks' = length (pl_stacks v)"
      "\<forall>n<length ks'. ks' ! n = pl_stacks v ! n \<or> ks' ! n = closed_stack"
    using b unfolding only_closes_def by blast
  have "w = u\<lparr>pl_host := h', pl_stacks := ks'\<rparr>" "length ks' = length (pl_stacks u)"
    using v(1,2) w(1,2) by simp_all
  moreover have "\<forall>n<length ks'. ks' ! n = pl_stacks u ! n \<or> ks' ! n = closed_stack"
  proof (intro allI impI)
    fix n assume n: "n < length ks'"
    then have "ks' ! n = ks ! n \<or> ks' ! n = closed_stack" using w(3) v(1) by simp
    then show "ks' ! n = pl_stacks u ! n \<or> ks' ! n = closed_stack" using v(1,3) w(2) n by auto
  qed
  ultimately show ?thesis unfolding only_closes_def by blast
qed

lemma close_stack_closes:
  assumes "close_stack w n = (w', inner)"
  shows "only_closes w w'" "length inner + open_effects w' = open_effects w"
    "inner = ek_effects (stack_at w n)" "n < length (pl_stacks w) \<Longrightarrow> pl_stacks w' ! n = closed_stack"
proof -
  have w': "w' = w\<lparr>pl_stacks := (pl_stacks w)[n := closed_stack]\<rparr>" and i: "inner = ek_effects (stack_at w n)"
    using assms by (simp_all add: close_stack_def)
  show "only_closes w w'" unfolding only_closes_def w'
    by (rule exI [of _ "pl_host w"], rule exI [of _ "(pl_stacks w)[n := closed_stack]"])
       (simp, metis nth_list_update_eq nth_list_update_neq)
  show "inner = ek_effects (stack_at w n)" by (rule i)
  show "n < length (pl_stacks w) \<Longrightarrow> pl_stacks w' ! n = closed_stack" by (simp add: w')
  show "length inner + open_effects w' = open_effects w"
  proof (cases "n < length (pl_stacks w)")
    case True
    have split: "pl_stacks w = take n (pl_stacks w) @ pl_stacks w ! n # drop (Suc n) (pl_stacks w)"
      using True by (rule id_take_nth_drop)
    have "(pl_stacks w)[n := closed_stack] = take n (pl_stacks w) @ closed_stack # drop (Suc n) (pl_stacks w)"
      using True by (rule upd_conv_take_nth_drop)
    then have "open_effects w' = sum_list (map (\<lambda>k. length (ek_effects k)) (take n (pl_stacks w) @ drop (Suc n) (pl_stacks w)))"
      unfolding open_effects_def w' by simp
    moreover have "open_effects w = length inner + sum_list (map (\<lambda>k. length (ek_effects k)) (take n (pl_stacks w) @ drop (Suc n) (pl_stacks w)))"
      unfolding open_effects_def by (subst split) (simp add: i stack_at_def True)
    ultimately show ?thesis by simp
  next
    case False
    then show ?thesis by (simp add: w' i stack_at_def EffectStack_new_def open_effects_def list_update_beyond)
  qed
qed

lemma open_effects_closes:
  assumes "only_closes w w'"
  shows "open_effects w' \<le> open_effects w"
proof -
  obtain h ks where v: "w' = w\<lparr>pl_host := h, pl_stacks := ks\<rparr>" "length ks = length (pl_stacks w)"
      "\<forall>n<length ks. ks ! n = pl_stacks w ! n \<or> ks ! n = closed_stack"
    using assms unfolding only_closes_def by blast
  have "sum_list (map (\<lambda>k. length (ek_effects k)) ks) \<le> sum_list (map (\<lambda>k. length (ek_effects k)) (pl_stacks w))"
    by (rule sum_list_mono2) (use v(2,3) in \<open>auto dest: spec\<close>)
  then show ?thesis by (simp add: v(1) open_effects_def)
qed

lemma run_effects_returns:
  assumes quiet: "quiet_disposers env"
  shows "\<exists>w' es. run_effects env effects errors w = Some (w', errors @ es) \<and> only_closes w w'"
proof (induction "length effects + open_effects w" arbitrary: effects errors w rule: less_induct)
  case less
  show ?case
  proof (cases effects rule: rev_cases)
    case Nil
    then show ?thesis by simp
  next
    case (snoc rest effect)
    have IH: "\<exists>w' es. run_effects env rest errs v = Some (w', errs @ es) \<and> only_closes v w'"
      if "only_closes w v" for errs v
      by (rule less) (use snoc open_effects_closes [OF that] in simp)
    show ?thesis
    proof (cases "sf_disposer effect")
      case None
      then show ?thesis using IH [of w errors] by (simp add: snoc run_effects_snoc)
    next
      case (Some x)
      show ?thesis
      proof (cases x)
        case (HostDisposer d)
        obtain v r where d: "pe_dispose env d w = (v, r)" by (cases "pe_dispose env d w")
        obtain h where h: "v = w\<lparr>pl_host := h\<rparr>" by (rule quiet_dispose [OF quiet d])
        have v: "only_closes w v" unfolding h by (rule only_closes_host)
        obtain w' es where r: "run_effects env rest (errors @ disposer_error (sf_label effect) r) v =
            Some (w', (errors @ disposer_error (sf_label effect) r) @ es)" "only_closes v w'"
          using IH [OF v] by blast
        have "run_effects env effects errors w = Some (w', errors @ (disposer_error (sf_label effect) r @ es))"
          using r(1) by (simp add: snoc run_effects_snoc Some HostDisposer d)
        then show ?thesis using only_closes_trans [OF v r(2)] by blast
      next
        case (NestedScope n)
        obtain v inner where c: "close_stack w n = (v, inner)" by (cases "close_stack w n")
        note v = close_stack_closes [OF c]
        have "\<exists>w' es. run_effects env inner [] v = Some (w', [] @ es) \<and> only_closes v w'"
          by (rule less) (use v(2) snoc in simp)
        then obtain u ies where u: "run_effects env inner [] v = Some (u, ies)" "only_closes v u" by auto
        have wu: "only_closes w u" using v(1) u(2) by (rule only_closes_trans)
        let ?nested = "disposer_error (sf_label effect) (nested_result ies)"
        obtain w' es where r: "run_effects env rest (errors @ ?nested) u = Some (w', (errors @ ?nested) @ es)" "only_closes u w'"
          using IH [OF wu] by blast
        have "run_effects env effects errors w = Some (w', errors @ (?nested @ es))"
          using r(1) by (simp add: snoc run_effects_snoc Some NestedScope c u(1))
        then show ?thesis using only_closes_trans [OF wu r(2)] by blast
      qed
    qed
  qed
qed

lemma dispose_all_returns:
  assumes quiet: "quiet_disposers env"
  obtains w' errors where "dispose_all env w n = Some (w', errors)" "only_closes w w'"
    "n < length (pl_stacks w) \<Longrightarrow> pl_stacks w' ! n = closed_stack"
proof -
  obtain v inner where c: "close_stack w n = (v, inner)" by (cases "close_stack w n")
  note v = close_stack_closes [OF c]
  obtain w' es where r: "run_effects env inner [] v = Some (w', es)" "only_closes v w'"
    using run_effects_returns [OF quiet, of inner "[]" v] by auto
  have "pl_stacks w' ! n = closed_stack" if "n < length (pl_stacks w)"
  proof -
    have "n < length (pl_stacks w')" using that v(1) r(2) unfolding only_closes_def by auto
    then show ?thesis using v(4) [OF that] r(2) unfolding only_closes_def by auto
  qed
  with that [of w' es] show ?thesis using r(1) only_closes_trans [OF v(1) r(2)] by (simp add: dispose_all_def c)
qed

text \<open>
  The plan of a withdrawal: the affected fibers are the ones that reach the withdrawn provider
  through recorded bindings, and the order drives a fiber before the fibers it depends on.
\<close>

section \<open>The affected fibers\<close>

text \<open>Fiber \<open>x\<close> is bound to the publication of fiber \<open>y\<close>.\<close>

definition bound_to :: "('v, 'd, 'f, 'h) plugins \<Rightarrow> FiberId list \<Rightarrow> (ProviderIdentity, FiberId) fmap \<Rightarrow> (FiberId \<times> FiberId) set" where
  "bound_to w xs identities =
     {(x, y). x \<in> set xs \<and> (\<exists>binding capability p. fiber_binding (fiber_at w x) = Some binding \<and>
        fmlookup binding capability = Some p \<and> fmlookup identities (identity_of_pin capability p) = Some y)}"

definition reaches_withdrawn :: "('v, 'd, 'f, 'h) plugins \<Rightarrow> FiberId list \<Rightarrow> (ProviderIdentity, FiberId) fmap \<Rightarrow>
    ProviderIdentity \<Rightarrow> FiberId set" where
  "reaches_withdrawn w xs identities retired =
     {x. \<exists>y. (x, y) \<in> (bound_to w xs identities)\<^sup>* \<and> y \<in> set xs \<and> directly_affected w retired y}"

lemma depends_on_affected_iff:
  assumes "x \<in> set xs"
  shows "depends_on_affected w identities affected x \<longleftrightarrow> (\<exists>y. (x, y) \<in> bound_to w xs identities \<and> y |\<in>| affected)"
proof (cases "fiber_binding (fiber_at w x)")
  case None
  then show ?thesis by (simp add: depends_on_affected_def bound_to_def)
next
  case (Some binding)
  have "depends_on_affected w identities affected x \<longleftrightarrow>
      (\<exists>(capability, p) \<in> set (binding_iter binding). \<exists>y. fmlookup identities (identity_of_pin capability p) = Some y \<and> y |\<in>| affected)"
    unfolding depends_on_affected_def Some option.case list_ex_iff
    by (intro bex_cong refl) (auto split: option.split)
  also have "\<dots> \<longleftrightarrow> (\<exists>y. (x, y) \<in> bound_to w xs identities \<and> y |\<in>| affected)"
    unfolding bound_to_def binding_iter_def set_bm_items using Some assms by auto
  finally show ?thesis .
qed

lemma affected_round_fixed:
  assumes "affected_round w identities xs affected = affected" "x \<in> set xs" "depends_on_affected w identities affected x"
  shows "x |\<in>| affected"
  using assms(1,2)
proof (induction xs)
  case (Cons y ys)
  let ?next = "affected_step w identities y affected"
  have "?next |\<subseteq>| affected" using affected_round_bounds(1) [of ?next w identities ys] Cons.prems(1)
    by (simp add: affected_round_def)
  then have eq: "?next = affected" using affected_step_bounds(1) by (rule antisym)
  then show ?case
  proof (cases "x = y")
    case True
    then show ?thesis using eq assms(3) unfolding affected_step_def by (metis finsertI1)
  next
    case False
    then show ?thesis using Cons eq by (simp add: affected_round_def)
  qed
qed simp

lemma affected_round_sound:
  assumes "fset affected \<subseteq> T" "\<And>x y. (x, y) \<in> bound_to w xs identities \<Longrightarrow> y \<in> T \<Longrightarrow> x \<in> T" "set ys \<subseteq> set xs"
  shows "fset (affected_round w identities ys affected) \<subseteq> T"
  using assms(1,3)
proof (induction ys arbitrary: affected)
  case (Cons y ys)
  have "fset (affected_step w identities y affected) \<subseteq> T"
    using Cons.prems assms(2) depends_on_affected_iff [of y xs w identities affected]
    by (auto simp: affected_step_def)
  then show ?case using Cons by (simp add: affected_round_def)
qed (simp add: affected_round_def)

lemma affected_loop_sound:
  assumes "fset affected \<subseteq> T" "\<And>x y. (x, y) \<in> bound_to w xs identities \<Longrightarrow> y \<in> T \<Longrightarrow> x \<in> T"
  shows "fset (affected_loop w identities xs affected) \<subseteq> T"
  using assms
proof (induction w identities xs affected rule: affected_loop.induct)
  case (1 w identities xs affected)
  have "fset (affected_round w identities xs affected) \<subseteq> T" by (rule affected_round_sound [OF 1(2,3)]) auto
  then show ?case using 1 by (subst affected_loop.simps) (simp add: Let_def)
qed

lemma affected_loop_complete:
  "affected |\<subseteq>| affected_loop w identities xs affected \<and>
   affected_round w identities xs (affected_loop w identities xs affected) = affected_loop w identities xs affected"
proof (induction w identities xs affected rule: affected_loop.induct)
  case (1 w identities xs affected)
  let ?next = "affected_round w identities xs affected"
  show ?case
  proof (cases "?next = affected")
    case True
    then show ?thesis by (subst (1 2 3) affected_loop.simps) (simp add: Let_def)
  next
    case False
    then have IH: "?next |\<subseteq>| affected_loop w identities xs ?next \<and>
        affected_round w identities xs (affected_loop w identities xs ?next) = affected_loop w identities xs ?next"
      using 1 by simp
    have eq: "affected_loop w identities xs affected = affected_loop w identities xs ?next"
      by (subst affected_loop.simps) (simp add: Let_def False)
    show ?thesis unfolding eq using IH affected_round_bounds(1) [of affected w identities xs] by (metis order_trans)
  qed
qed

theorem withdrawal_closure_exact:
  "fset (withdrawal_closure w xs retired identities) = reaches_withdrawn w xs identities (identity_of_handle retired)"
proof
  let ?T = "reaches_withdrawn w xs identities (identity_of_handle retired)"
  let ?direct = "fset_of_list (filter (directly_affected w (identity_of_handle retired)) xs)"
  show "fset (withdrawal_closure w xs retired identities) \<subseteq> ?T"
    unfolding withdrawal_closure_def
  proof (rule affected_loop_sound)
    show "fset ?direct \<subseteq> ?T" by (auto simp: reaches_withdrawn_def fset_of_list.rep_eq)
    show "x \<in> ?T" if "(x, y) \<in> bound_to w xs identities" "y \<in> ?T" for x y
      using that unfolding reaches_withdrawn_def by (blast intro: converse_rtrancl_into_rtrancl)
  qed
  show "?T \<subseteq> fset (withdrawal_closure w xs retired identities)"
  proof
    fix x assume "x \<in> ?T"
    then obtain y where y: "(x, y) \<in> (bound_to w xs identities)\<^sup>*" "y \<in> set xs" "directly_affected w (identity_of_handle retired) y"
      by (auto simp: reaches_withdrawn_def)
    note C = affected_loop_complete [of ?direct w identities xs, folded withdrawal_closure_def]
    from y(1) show "x \<in> fset (withdrawal_closure w xs retired identities)"
    proof (induction rule: converse_rtrancl_induct)
      case base
      have "y |\<in>| ?direct" using y by (simp add: fset_of_list.rep_eq)
      then show ?case using C by blast
    next
      case (step x z)
      have x: "x \<in> set xs" using step(1) by (simp add: bound_to_def)
      show ?case
        by (rule affected_round_fixed [OF conjunct2 [OF C] x]) (use step depends_on_affected_iff [OF x] in blast)
    qed
  qed
qed

section \<open>The order\<close>

lemma foldr_max_ge: "n \<in> set ns \<Longrightarrow> n \<le> foldr max ns (0::nat)"
  by (induction ns) auto

text \<open>On an acyclic graph the set of fibers on the path makes no difference to the depth.\<close>

lemma dependency_depth_path:
  fixes rank :: "FiberId \<Rightarrow> nat"
  assumes rank: "\<And>x y. y \<in> set (affected_providers bindings affected identities x) \<Longrightarrow> rank y < rank x"
    and path: "\<And>v. v |\<in>| visiting \<Longrightarrow> rank x < rank v"
  shows "dependency_depth bindings affected identities visiting x = dependency_depth bindings affected identities {||} x"
  using path
proof (induction "rank x" arbitrary: visiting x rule: less_induct)
  case less
  have x: "x |\<notin>| visiting" using less.prems by blast
  have "dependency_depth bindings affected identities (finsert x visiting) y =
      dependency_depth bindings affected identities (finsert x {||}) y"
    if y: "y \<in> set (affected_providers bindings affected identities x)" for y
  proof -
    have r: "rank y < rank x" using rank y by blast
    have "dependency_depth bindings affected identities (finsert x visiting) y = dependency_depth bindings affected identities {||} y"
      by (rule less(1) [OF r]) (use r less.prems in fastforce)
    moreover have "dependency_depth bindings affected identities (finsert x {||}) y = dependency_depth bindings affected identities {||} y"
      by (rule less(1) [OF r]) (use r in fastforce)
    ultimately show ?thesis by simp
  qed
  then have maps: "map (\<lambda>y. 1 + dependency_depth bindings affected identities (finsert x visiting) y)
        (affected_providers bindings affected identities x) =
      map (\<lambda>y. 1 + dependency_depth bindings affected identities (finsert x {||}) y)
        (affected_providers bindings affected identities x)" by simp
  have "dependency_depth bindings affected identities visiting x =
      foldr max (map (\<lambda>y. 1 + dependency_depth bindings affected identities (finsert x visiting) y)
        (affected_providers bindings affected identities x)) 0"
    by (subst dependency_depth.simps) (simp only: x if_False)
  also have "\<dots> = dependency_depth bindings affected identities {||} x"
    unfolding maps by (subst (2) dependency_depth.simps) simp
  finally show ?case .
qed

lemma dependency_depth_decreases:
  fixes rank :: "FiberId \<Rightarrow> nat"
  assumes rank: "\<And>x y. y \<in> set (affected_providers bindings affected identities x) \<Longrightarrow> rank y < rank x"
    and y: "y \<in> set (affected_providers bindings affected identities x)"
  shows "dependency_depth bindings affected identities {||} y < dependency_depth bindings affected identities {||} x"
proof -
  let ?depth = "dependency_depth bindings affected identities"
  have "1 + ?depth {|x|} y \<le> ?depth {||} x"
    by (subst (2) dependency_depth.simps) (use y in \<open>simp add: foldr_max_ge\<close>)
  moreover have "?depth {|x|} y = ?depth {||} y"
    by (rule dependency_depth_path [where rank = rank, OF rank]) (use rank [OF y] in auto)
  ultimately show ?thesis by simp
qed

text \<open>A publication is younger than what it is bound to, and no two fibers own the same one.\<close>

definition publications_ordered :: "('v, 'd, 'f, 'h) plugins \<Rightarrow> FiberId list \<Rightarrow> bool" where
  "publications_ordered w xs \<longleftrightarrow>
     (\<forall>x\<in>set xs. \<forall>h. fb_handle (fiber_at w x) = Some h \<longrightarrow>
        (\<forall>y\<in>set xs. \<forall>h'. fb_handle (fiber_at w y) = Some h' \<longrightarrow> handle_entry_id h' = handle_entry_id h \<longrightarrow> x = y) \<and>
        (\<forall>binding capability p. fiber_binding (fiber_at w x) = Some binding \<longrightarrow> fmlookup binding capability = Some p \<longrightarrow>
           entry_get (dp_entry_id p) < entry_get (handle_entry_id h)))"

lemma provider_identities_lookup:
  assumes "fmlookup (provider_identities w xs) i = Some y"
  obtains h where "y \<in> set xs" "fb_handle (fiber_at w y) = Some h" "identity_of_handle h = i"
proof -
  have "fmlookup (fold (\<lambda>x m. case fb_handle (fiber_at w x) of None \<Rightarrow> m | Some h \<Rightarrow> fmupd (identity_of_handle h) x m) xs m) i = Some y \<Longrightarrow>
      fmlookup m i = Some y \<or> (\<exists>h. y \<in> set xs \<and> fb_handle (fiber_at w y) = Some h \<and> identity_of_handle h = i)" for m
  proof (induction xs arbitrary: m)
    case (Cons x xs)
    show ?case
      using Cons.IH [of "case fb_handle (fiber_at w x) of None \<Rightarrow> m | Some h \<Rightarrow> fmupd (identity_of_handle h) x m"] Cons.prems
      by (auto split: option.splits if_splits)
  qed simp
  from this [of fmempty] assms that show ?thesis unfolding provider_identities_def by auto
qed

lemma provider_identities_published:
  assumes "publications_ordered w xs" "y \<in> set xs" "fb_handle (fiber_at w y) = Some h"
  shows "fmlookup (provider_identities w xs) (identity_of_handle h) = Some y"
proof -
  have "\<exists>z. fmlookup (fold (\<lambda>x m. case fb_handle (fiber_at w x) of None \<Rightarrow> m | Some h \<Rightarrow> fmupd (identity_of_handle h) x m) ys m)
        (identity_of_handle h) = Some z"
    if "y \<in> set ys \<or> (\<exists>z. fmlookup m (identity_of_handle h) = Some z)" for ys m
    using that
  proof (induction ys arbitrary: m)
    case (Cons x ys)
    have "y \<in> set ys \<or> (\<exists>z. fmlookup (case fb_handle (fiber_at w x) of None \<Rightarrow> m | Some h \<Rightarrow> fmupd (identity_of_handle h) x m)
        (identity_of_handle h) = Some z)"
      using Cons.prems assms(3) by (cases "fb_handle (fiber_at w x)") auto
    from Cons.IH [OF this] show ?case by simp
  qed simp
  from this [of xs fmempty] obtain z where z: "fmlookup (provider_identities w xs) (identity_of_handle h) = Some z"
    using assms(2) unfolding provider_identities_def by blast
  obtain h' where h': "z \<in> set xs" "fb_handle (fiber_at w z) = Some h'" "identity_of_handle h' = identity_of_handle h"
    using provider_identities_lookup [OF z] .
  have "y = z" using assms h' unfolding publications_ordered_def identity_of_handle_def by (metis prod.inject)
  then show ?thesis using z by simp
qed

lemma affected_bindings_lookup:
  "fmlookup (affected_bindings w xs affected) x = (if x \<in> set xs \<and> x |\<in>| affected then fiber_binding (fiber_at w x) else None)"
proof -
  have "fmlookup (fold (\<lambda>x m. if x |\<in>| affected then (case fiber_binding (fiber_at w x) of None \<Rightarrow> m | Some binding \<Rightarrow> fmupd x binding m) else m) xs m) x =
      (if x \<in> set xs \<and> x |\<in>| affected \<and> fiber_binding (fiber_at w x) \<noteq> None then fiber_binding (fiber_at w x) else fmlookup m x)" for m
    by (induction xs arbitrary: m) (auto split: option.split)
  from this [of fmempty] show ?thesis unfolding affected_bindings_def by auto
qed

lemma mem_map_filter: "y \<in> set (List.map_filter f xs) \<longleftrightarrow> (\<exists>x\<in>set xs. f x = Some y)"
  by (induction xs) (auto split: option.split)

lemma affected_providers_iff:
  assumes "x \<in> set xs" "x |\<in>| affected"
  shows "y \<in> set (affected_providers (affected_bindings w xs affected) affected identities x) \<longleftrightarrow>
    (x, y) \<in> bound_to w xs identities \<and> y |\<in>| affected \<and> y \<noteq> x"
proof (cases "fiber_binding (fiber_at w x)")
  case None
  then show ?thesis by (simp add: affected_providers_def affected_bindings_lookup assms bound_to_def)
next
  case (Some binding)
  have "y \<in> set (affected_providers (affected_bindings w xs affected) affected identities x) \<longleftrightarrow>
      y |\<in>| affected \<and> y \<noteq> x \<and>
      (\<exists>capability p. fmlookup binding capability = Some p \<and> fmlookup identities (identity_of_pin capability p) = Some y)"
    by (simp add: affected_providers_def affected_bindings_lookup assms Some mem_map_filter binding_iter_def set_bm_items)
       blast
  also have "\<dots> \<longleftrightarrow> (x, y) \<in> bound_to w xs identities \<and> y |\<in>| affected \<and> y \<noteq> x"
    using assms(1) Some by (auto simp: bound_to_def)
  finally show ?thesis .
qed

definition publication_rank :: "('v, 'd, 'f, 'h) plugins \<Rightarrow> FiberId \<Rightarrow> nat" where
  "publication_rank w x = (case fb_handle (fiber_at w x) of None \<Rightarrow> 2 ^ 64 | Some h \<Rightarrow> unat (entry_get (handle_entry_id h)))"

lemma bound_to_older:
  assumes "publications_ordered w xs" "(x, y) \<in> bound_to w xs (provider_identities w xs)"
  shows "publication_rank w y < publication_rank w x"
proof -
  obtain binding capability p where b: "x \<in> set xs" "fiber_binding (fiber_at w x) = Some binding"
      "fmlookup binding capability = Some p"
      "fmlookup (provider_identities w xs) (identity_of_pin capability p) = Some y"
    using assms(2) unfolding bound_to_def by blast
  obtain h where h: "fb_handle (fiber_at w y) = Some h" "identity_of_handle h = identity_of_pin capability p"
    using provider_identities_lookup [OF b(4)] .
  have id: "handle_entry_id h = dp_entry_id p" using h(2) by (simp add: identity_of_handle_def identity_of_pin_def)
  show ?thesis
  proof (cases "fb_handle (fiber_at w x)")
    case None
    have "unat (entry_get (handle_entry_id h)) < 2 ^ 64" using unsigned_less [of "entry_get (handle_entry_id h)"] by simp
    then show ?thesis by (simp add: publication_rank_def None h(1))
  next
    case (Some h')
    have "entry_get (dp_entry_id p) < entry_get (handle_entry_id h')"
      using assms(1) b(1-3) Some unfolding publications_ordered_def by blast
    then show ?thesis by (simp add: publication_rank_def Some h(1) id word_less_nat_alt)
  qed
qed

lemma withdrawal_order_set:
  assumes "fset affected \<subseteq> set xs"
  shows "set (withdrawal_order w xs affected identities) = fset affected" "distinct (withdrawal_order w xs affected identities)"
  using assms by (auto simp: withdrawal_order_def Let_def sorted_list_of_fset.rep_eq)

lemma withdrawal_order_dependents_first:
  assumes ordered: "publications_ordered w xs"
    and dep: "(x, y) \<in> bound_to w xs (provider_identities w xs)" "x |\<in>| affected" "y |\<in>| affected"
    and i: "i < length zs" "zs ! i = x" and j: "j < length zs" "zs ! j = y"
    and zs: "zs = withdrawal_order w xs affected (provider_identities w xs)"
  shows "i < j"
proof -
  let ?depth = "dependency_depth (affected_bindings w xs affected) affected (provider_identities w xs) {||}"
  have rank: "publication_rank w y < publication_rank w x"
    if "y \<in> set (affected_providers (affected_bindings w xs affected) affected (provider_identities w xs) x)" for x y
  proof (cases "x \<in> set xs \<and> x |\<in>| affected")
    case True
    then show ?thesis using affected_providers_iff [of x xs affected y w "provider_identities w xs"] that
      by (intro bound_to_older [OF ordered]) blast
  next
    case False
    have "affected_providers (affected_bindings w xs affected) affected (provider_identities w xs) x = []"
      unfolding affected_providers_def affected_bindings_lookup using False by auto
    then show ?thesis using that by simp
  qed
  have x: "x \<in> set xs" using dep(1) by (simp add: bound_to_def)
  have ne: "y \<noteq> x" using bound_to_older [OF ordered dep(1)] by auto
  have "y \<in> set (affected_providers (affected_bindings w xs affected) affected (provider_identities w xs) x)"
    using affected_providers_iff [OF x dep(2)] dep ne by blast
  then have deeper: "?depth y < ?depth x" using dependency_depth_decreases [where rank = "publication_rank w", OF rank] by blast
  have sorted: "sorted (map (\<lambda>x. - int (?depth x)) zs)" unfolding zs withdrawal_order_def Let_def by (rule sorted_sort_key)
  show "i < j"
  proof (rule ccontr)
    assume "\<not> i < j"
    then have "- int (?depth (zs ! j)) \<le> - int (?depth (zs ! i))"
      using sorted_nth_mono [OF sorted, of j i] i(1) by simp
    then show False using deeper i(2) j(2) by simp
  qed
qed

end
