(* ===== verification/Scope_Publication.thy ===== *)
theory Scope_Publication
  imports Scope_Handles
begin

text \<open>
  What a publication does: the visible graphs before and after it, the scopes it affects,
  and the exact outcome of \<^verbatim>\<open>publish_preconstructed\<close>.
\<close>

section \<open>The tree of scopes\<close>

definition scope_tree :: "'v scopes \<Rightarrow> bool" where
  "scope_tree st \<longleftrightarrow>
     (\<forall>k p. k # p \<in> fmdom' (sc_states st) \<longrightarrow>
        p \<in> fmdom' (sc_states st) \<and> k < ss_children (scope_state st p))"

lemma live_children_iff:
  assumes "scope_tree st"
  shows "c \<in> set (live_children st p) \<longleftrightarrow> c \<in> fmdom' (sc_states st) \<and> (\<exists>k. c = k # p)"
  using assms
  by (auto simp: live_children_def scope_tree_def contains_key_iff fmlookup_dom'_iff)

lemma scope_tree_suffix: "scope_tree st \<Longrightarrow> ks @ p \<in> fmdom' (sc_states st) \<Longrightarrow> p \<in> fmdom' (sc_states st)"
  by (induction ks) (auto simp: scope_tree_def)

lemma live_descendants_iff:
  "scope_tree st \<Longrightarrow>
     q \<in> set (live_descendants st p) \<longleftrightarrow> q \<in> fmdom' (sc_states st) \<and> (\<exists>ks. ks \<noteq> [] \<and> q = ks @ p)"
proof (induction st p rule: live_descendants.induct)
  case (1 st p)
  have "q \<in> set (live_descendants st p) \<longleftrightarrow>
      (\<exists>c\<in>set (live_children st p). q = c \<or> q \<in> set (live_descendants st c))"
    by (subst live_descendants.simps) auto
  also have "\<dots> \<longleftrightarrow> (\<exists>k ks. k # p \<in> fmdom' (sc_states st) \<and> q \<in> fmdom' (sc_states st) \<and> q = ks @ k # p)"
    using 1 live_children_iff [OF 1(2), of _ p] by (metis append_Nil)
  also have "\<dots> \<longleftrightarrow> q \<in> fmdom' (sc_states st) \<and> (\<exists>ks. ks \<noteq> [] \<and> q = ks @ p)"
    using scope_tree_suffix [OF 1(2)]
    by (metis append.assoc append_Cons append_Nil append_butlast_last_id append_is_Nil_conv list.distinct(1))
  finally show ?case .
qed

lemma candidate_affects_suffix: "candidate_affects st p q i \<Longrightarrow> \<exists>ks. q = ks @ p"
proof (induction q)
  case (Cons k q)
  then show ?case by (metis append_Cons append_Nil candidate_affects.simps(2))
qed auto

section \<open>Visible graphs\<close>

lemma overlay_lookup:
  "fmlookup (overlay_definitions defs entries) i =
     (case fmlookup entries i of Some e \<Rightarrow> Some (en_definition e) | None \<Rightarrow> fmlookup defs i)"
proof -
  have "fmlookup (fold (\<lambda>i m. case fmlookup entries i of None \<Rightarrow> m | Some e \<Rightarrow> fmupd i (en_definition e) m) is m) i =
      (if i \<in> set is then (case fmlookup entries i of Some e \<Rightarrow> Some (en_definition e) | None \<Rightarrow> fmlookup m i)
       else fmlookup m i)" for "is" m
    by (induction "is" arbitrary: m) (auto split: option.splits)
  then show ?thesis
    by (auto simp: overlay_definitions_def fmlookup_dom'_iff split: option.splits)
qed

lemma overlay_upd:
  "cd_id d = i \<Longrightarrow> en_definition e = d \<Longrightarrow>
     overlay_definitions defs (fmupd i e entries) = fmupd i d (overlay_definitions defs entries)"
  by (rule fmap_ext) (simp add: overlay_lookup)

lemma overlay_shadow:
  "contains_key entries i \<Longrightarrow> overlay_definitions (fmupd i d defs) entries = overlay_definitions defs entries"
  by (rule fmap_ext) (auto simp: overlay_lookup contains_key_iff split: option.splits)

lemma overlay_commute:
  "\<not> contains_key entries i \<Longrightarrow>
     overlay_definitions (fmupd i d defs) entries = fmupd i d (overlay_definitions defs entries)"
  by (rule fmap_ext) (auto simp: overlay_lookup contains_key_None split: option.splits)

lemma keyed_visible:
  assumes "handle_universe st H"
  shows "keyed cd_id (visible_definitions st p)"
proof (induction p)
  case Nil
  then show ?case
    using universe_entry(1) [OF assms, of "[]"] by (auto simp: keyed_def overlay_lookup split: option.splits)
next
  case (Cons k p)
  then show ?case
    using universe_entry(1) [OF assms, of "k # p"] by (auto simp: keyed_def overlay_lookup split: option.splits)
qed

lemma from_definitions_values:
  assumes "keyed cd_id m"
  shows "from_definitions (bm_values m) = \<lparr>cg_definitions = m\<rparr>"
proof -
  have "distinct (map cd_id (bm_values m))" using keyed_map_values [OF assms] by simp
  then have "fmlookup (cg_definitions (from_definitions (bm_values m))) i = Some d \<longleftrightarrow> fmlookup m i = Some d" for i d
    using from_definitions_unique assms by (fastforce simp: set_bm_values keyed_def)
  then have "cg_definitions (from_definitions (bm_values m)) = m"
    by (intro fmap_ext) (metis option.exhaust)
  then show ?thesis by (metis (full_types) CapabilityGraph.surjective old.unit.exhaust)
qed

lemma visible_graph_eq:
  "handle_universe st H \<Longrightarrow> visible_graph st p = \<lparr>cg_definitions = visible_definitions st p\<rparr>"
  unfolding visible_graph_def by (rule from_definitions_values) (rule keyed_visible)

lemma visible_entries_eq:
  assumes "handle_universe st H" and "scope_is_open st p"
  shows "visible_graph_with_entries st p (ss_entries (scope_state st p)) = visible_graph st p"
  using assms(2) by (cases p) (simp_all add: visible_graph_with_entries_def visible_graph_def parent_definitions_def)

lemma validate_candidate_cases:
  "case validate_candidate \<lparr>cg_definitions = m\<rparr> d of
     Inr _ \<Rightarrow> resolvable \<lparr>cg_definitions = fmupd (cd_id d) d m\<rparr>
   | Inl e \<Rightarrow> e \<noteq> ResolverPanic \<and> \<not> resolvable \<lparr>cg_definitions = fmupd (cd_id d) d m\<rparr>"
proof -
  let ?g = "\<lparr>cg_definitions = fmupd (cd_id d) d m\<rparr>"
  have eq: "fst (capability_insert \<lparr>cg_definitions = m\<rparr> d) = ?g" by (simp add: capability_insert_def)
  show ?thesis
  proof (cases rule: resolve_cases [of ?g])
    case (error e)
    then have "\<not> resolvable ?g" "e \<noteq> ResolverPanic"
      using genuine_error_not_resolvable [of ?g] by (auto simp: genuine_error_def)
    with error show ?thesis by (simp add: validate_candidate_def eq)
  next
    case (order w)
    then have "resolvable ?g" by (intro resolve_Inr_resolvable)
    with order show ?thesis by (simp add: validate_candidate_def eq)
  qed
qed

lemma scope_error_from_panic: "scope_error_from e = ScopePanic \<longleftrightarrow> e = ResolverPanic"
  by (cases e) simp_all

section \<open>The effect on the visible graphs\<close>

lemma visible_after_publication:
  fixes st :: "'v scopes"
  assumes "scope_is_open st p" and "cd_id d = i" and "en_definition e = d"
  defines "st' \<equiv> update_scope p ((scope_state st p)\<lparr>ss_entries := fmupd i e (ss_entries (scope_state st p))\<rparr>) st"
  shows "visible_definitions st' q =
    (if candidate_affects st p q i then fmupd i d (visible_definitions st q) else visible_definitions st q)"
proof (induction q)
  case Nil
  have "scope_is_open st' [] \<longleftrightarrow> scope_is_open st []" by (simp add: st'_def scope_is_open_def)
  then show ?case
    using assms(1) overlay_upd [OF assms(2,3)] by (auto simp: st'_def)
next
  case (Cons k q)
  have same: "scope_is_open st' (k # q) \<longleftrightarrow> scope_is_open st (k # q)"
    by (simp add: st'_def scope_is_open_def)
  show ?case
  proof (cases "k # q = p")
    case True
    have "\<not> candidate_affects st p q i" using candidate_affects_suffix [of st p q i] True by auto
    then have "visible_definitions st' q = visible_definitions st q" using Cons by simp
    then show ?thesis
      using True assms(1) same overlay_upd [OF assms(2,3)] by (auto simp: st'_def)
  next
    case False
    then have state: "scope_state st' (k # q) = scope_state st (k # q)" by (simp add: st'_def)
    show ?thesis
      using Cons False same overlay_shadow [of "ss_entries (scope_state st (k # q))" i d "visible_definitions st q"]
        overlay_commute [of "ss_entries (scope_state st (k # q))" i d "visible_definitions st q"]
      by (auto simp: state has_local_entry_def)
  qed
qed

section \<open>Admission\<close>

lemma descendant_admission_Inr:
  assumes universe: "handle_universe st H" and tree: "scope_tree st"
    and "validate_descendant_admission st p d = Inr u"
    and "q \<in> fmdom' (sc_states st)" and "q \<noteq> p" and "candidate_affects st p q (cd_id d)"
  shows "resolvable \<lparr>cg_definitions = fmupd (cd_id d) d (visible_definitions st q)\<rparr>"
proof -
  obtain ks where "q = ks @ p" "ks \<noteq> []" using candidate_affects_suffix [OF assms(6)] assms(5) by auto
  then have "q \<in> set (live_descendants st p)" using live_descendants_iff [OF tree] assms(4) by blast
  moreover have "scope_is_open st q" using assms(5,6) by (cases q) auto
  ultimately have "(case validate_candidate (visible_graph st q) d of
      Inl e \<Rightarrow> Inl (scope_error_from e) | Inr _ \<Rightarrow> Inr ()) = Inr ()"
    using assms(3,6) unfolding validate_descendant_admission_def check_fold by (simp del: sum.case) metis
  then show ?thesis
    using validate_candidate_cases [where m = "visible_definitions st q" and d = d] visible_graph_eq [OF universe, of q]
    by (auto split: sum.splits)
qed

lemma check_expectation_Inr:
  "check_expectation_locked st p i x entries = Inr u \<longleftrightarrow>
     scope_is_open st p \<and>
     (case x of
        PublishNew \<Rightarrow> fmlookup entries i = None
      | PublishReplace g \<Rightarrow> \<exists>e. fmlookup entries i = Some e \<and> en_generation e = g)"
  by (auto simp: check_expectation_locked_def split: PublishExpectation.splits option.splits if_splits)

text \<open>What the checks under the write lock establish.\<close>

lemma admit_publication_Inr:
  assumes universe: "handle_universe st H" and held: "held_dependencies H ds"
    and admit: "admit_publication st p d x ds = Inr g"
  shows "scope_is_open st p"
    and "i \<in> set (definition_requirements d) \<Longrightarrow> dependencies_get ds i = scope_get st p i \<and> scope_get st p i \<noteq> None"
    and "validate_descendant_admission st p d = Inr ()"
    and "resolvable \<lparr>cg_definitions = fmupd (cd_id d) d (visible_definitions st p)\<rparr>"
    and "case x of
        PublishNew \<Rightarrow> fmlookup (ss_entries (scope_state st p)) (cd_id d) = None \<and> g = Generation_FIRST
      | PublishReplace expected \<Rightarrow>
          (\<exists>e. fmlookup (ss_entries (scope_state st p)) (cd_id d) = Some e \<and> en_generation e = expected) \<and>
          Generation_checked_next expected = Some g"
proof -
  let ?entries = "ss_entries (scope_state st p)"
  obtain cs where cs: "resolve_dependencies st p d = Inr cs"
    and same: "try_fold (check_same_dependency d ds cs) () (definition_requirements d) = Inr ()"
    and desc: "validate_descendant_admission st p d = Inr ()"
    and expect: "check_expectation_locked st p (cd_id d) x ?entries = Inr ()"
    and valid: "\<not> isl (validate_candidate (visible_graph_with_entries st p ?entries) d)"
    and g: "publish_generation (cd_id d) x ?entries = Inr g"
    using admit unfolding admit_publication_def Let_def by (auto split: sum.splits)
  show op: "scope_is_open st p" using expect by (simp add: check_expectation_Inr)
  show "i \<in> set (definition_requirements d) \<Longrightarrow> dependencies_get ds i = scope_get st p i \<and> scope_get st p i \<noteq> None"
    using same_dependency_exact [OF universe held cs same] by blast
  show "validate_descendant_admission st p d = Inr ()" by (rule desc)
  show "resolvable \<lparr>cg_definitions = fmupd (cd_id d) d (visible_definitions st p)\<rparr>"
    using valid validate_candidate_cases [where m = "visible_definitions st p" and d = d]
    unfolding visible_entries_eq [OF universe op] visible_graph_eq [OF universe] by (auto split: sum.splits)
  show "case x of
        PublishNew \<Rightarrow> fmlookup ?entries (cd_id d) = None \<and> g = Generation_FIRST
      | PublishReplace expected \<Rightarrow>
          (\<exists>e. fmlookup ?entries (cd_id d) = Some e \<and> en_generation e = expected) \<and>
          Generation_checked_next expected = Some g"
    using expect g
    by (auto simp: check_expectation_Inr publish_generation_def split: PublishExpectation.splits option.splits)
qed

lemma resolve_dependencies_no_panic: "resolve_dependencies st p d \<noteq> Inl ScopePanic"
proof -
  have "try_fold (\<lambda>hs i. case scope_get st p i of None \<Rightarrow> Inl (ScopeMissingDependency (cd_id d) i)
      | Some h \<Rightarrow> Inr (hs @ [(i, h)])) acc is \<noteq> Inl ScopePanic" for acc "is"
    by (induction "is" arbitrary: acc) (auto split: option.splits)
  then show ?thesis by (simp add: resolve_dependencies_def)
qed

lemma candidate_no_panic:
  assumes "handle_universe st H" and "validate_candidate (visible_graph st p) d = Inl e"
  shows "scope_error_from e \<noteq> ScopePanic"
  using assms validate_candidate_cases [where m = "visible_definitions st p" and d = d]
  by (simp add: visible_graph_eq scope_error_from_panic)

lemma admit_publication_no_panic:
  assumes universe: "handle_universe st H" and covered: "covers ds d"
  shows "admit_publication st p d x ds \<noteq> Inl ScopePanic"
proof
  let ?entries = "ss_entries (scope_state st p)"
  assume admit: "admit_publication st p d x ds = Inl ScopePanic"
  obtain cs where cs: "resolve_dependencies st p d = Inr cs"
    using admit resolve_dependencies_no_panic [of st p d]
    by (cases "resolve_dependencies st p d") (auto simp: admit_publication_def)
  have "try_fold (check_same_dependency d ds cs) () (definition_requirements d) \<noteq> Inl ScopePanic"
  proof
    assume "try_fold (check_same_dependency d ds cs) () (definition_requirements d) = Inl ScopePanic"
    from check_fold_error [OF this]
    obtain i where i: "i \<in> set (definition_requirements d)" "check_same_dependency d ds cs () i = Inl ScopePanic" ..
    have "i \<in> fst ` set ds" using covered i(1) by (auto simp: covers_def)
    then have "dependencies_get ds i \<noteq> None" by (simp add: dependencies_get_def map_of_eq_None_iff)
    moreover have "dependencies_get cs i \<noteq> None" using resolved_lookup [OF cs i(1)] by auto
    ultimately show False
      using i(2) by (auto simp: check_same_dependency_def split: if_splits)
  qed
  moreover have "validate_descendant_admission st p d \<noteq> Inl ScopePanic"
  proof
    assume "validate_descendant_admission st p d = Inl ScopePanic"
    from check_fold_error [OF this [unfolded validate_descendant_admission_def]]
    obtain q where "(case validate_candidate (visible_graph st q) d of
        Inl e \<Rightarrow> Inl (scope_error_from e) | Inr _ \<Rightarrow> Inr ()) = Inl ScopePanic"
      by (auto split: if_splits)
    then obtain e where "validate_candidate (visible_graph st q) d = Inl e" "scope_error_from e = ScopePanic"
      by (cases "validate_candidate (visible_graph st q) d") auto
    then show False using candidate_no_panic [OF universe] by blast
  qed
  moreover have "check_expectation_locked st p (cd_id d) x ?entries \<noteq> Inl ScopePanic"
    by (auto simp: check_expectation_locked_def split: PublishExpectation.splits option.splits)
  moreover have "scope_is_open st p \<Longrightarrow> validate_candidate (visible_graph_with_entries st p ?entries) d = Inl e \<Longrightarrow>
      scope_error_from e \<noteq> ScopePanic" for e
    using visible_entries_eq [OF universe] candidate_no_panic [OF universe] by simp
  moreover have "check_expectation_locked st p (cd_id d) x ?entries = Inr () \<Longrightarrow>
      scope_is_open st p \<and> publish_generation (cd_id d) x ?entries \<noteq> Inl ScopePanic"
    by (auto simp: check_expectation_Inr publish_generation_def split: PublishExpectation.splits option.splits)
  ultimately show False
    using admit cs unfolding admit_publication_def Let_def by (auto split: sum.splits)
qed

end
