(* ===== verification/Scope_Closing.thy ===== *)
theory Scope_Closing
  imports Scope_Publication
begin

text \<open>
  The graph that teardown resolves: the current entries of a scope and the snapshots they
  retain. It is always closed, so resolution can only fail for a cycle; it has none when the
  retained handles hold one generation of every capability.
\<close>

section \<open>Retained handles\<close>

definition snapshot_edges :: "('v CapabilityHandle \<times> 'v CapabilityHandle) set" where
  "snapshot_edges = {(h, x). x \<in> snd ` set (handle_dependencies h)}"

definition retained :: "(Id, 'v CapabilityEntry) fmap \<Rightarrow> 'v CapabilityHandle set" where
  "retained entries = {x. \<exists>i e. fmlookup entries i = Some e \<and> (entry_handle e, x) \<in> snapshot_edges\<^sup>*}"

lemma retained_entry: "fmlookup entries i = Some e \<Longrightarrow> entry_handle e \<in> retained entries"
  by (auto simp: retained_def)

lemma retained_step:
  assumes "h \<in> retained entries" and "(i, x) \<in> set (handle_dependencies h)"
  shows "x \<in> retained entries"
proof -
  have "(h, x) \<in> snapshot_edges" using assms(2) by (force simp: snapshot_edges_def)
  with assms(1) show ?thesis by (auto simp: retained_def intro: rtrancl_into_rtrancl)
qed

lemma retained_universe:
  assumes "handle_universe st H" and "\<And>i e. fmlookup entries i = Some e \<Longrightarrow> entry_handle e \<in> H"
  shows "retained entries \<subseteq> H"
proof
  fix x
  assume "x \<in> retained entries"
  then obtain i e where "entry_handle e \<in> H" and "(entry_handle e, x) \<in> snapshot_edges\<^sup>*"
    using assms(2) by (auto simp: retained_def)
  from this(2,1) show "x \<in> H"
    by (induction rule: rtrancl_induct) (use universe_handle(3) [OF assms(1)] in \<open>auto simp: snapshot_edges_def\<close>)
qed

section \<open>The snapshot walk\<close>

definition snapshot_closed :: "'v CapabilityHandle set \<Rightarrow> bool" where
  "snapshot_closed S \<longleftrightarrow>
     inj_on handle_entry_id S \<and>
     (\<forall>h\<in>S. covers (handle_dependencies h) (handle_definition h) \<and>
        (\<forall>(i, x)\<in>set (handle_dependencies h). x \<in> S \<and> handle_id x = i))"

definition snapshot_inv :: "'v CapabilityHandle set \<Rightarrow> Id set \<Rightarrow> snapshot_walk \<Rightarrow> bool" where
  "snapshot_inv S pending w \<longleftrightarrow>
     (\<forall>i d. fmlookup (sw_definitions w) i = Some d \<longrightarrow>
        (\<exists>h\<in>S. handle_id h = i \<and> handle_definition h = d) \<and>
        set (definition_requirements d) \<subseteq> fmdom' (sw_definitions w) \<union> pending) \<and>
     (\<forall>h\<in>S. handle_entry_id h |\<in>| sw_visited w \<longrightarrow> handle_id h \<in> fmdom' (sw_definitions w))"

lemma snapshot_inv_known:
  assumes "snapshot_inv S (insert i pending) w" and "i \<in> fmdom' (sw_definitions w)"
  shows "snapshot_inv S pending w"
  using assms by (auto simp: snapshot_inv_def)

lemma snapshot_inv_enter:
  assumes closed: "snapshot_closed S" and h: "h \<in> S" and inv: "snapshot_inv S (insert (handle_id h) pending) w"
  shows "snapshot_inv S (fst ` set (handle_dependencies h) \<union> pending)
    (w\<lparr>sw_visited := finsert (handle_entry_id h) (sw_visited w),
       sw_definitions := (if contains_key (sw_definitions w) (handle_id h) then sw_definitions w
          else fmupd (handle_id h) (handle_definition h) (sw_definitions w))\<rparr>)"
proof -
  let ?defs = "if contains_key (sw_definitions w) (handle_id h) then sw_definitions w
          else fmupd (handle_id h) (handle_definition h) (sw_definitions w)"
  have dom: "fmdom' ?defs = insert (handle_id h) (fmdom' (sw_definitions w))"
    by (auto simp: contains_key_iff fmlookup_dom'_iff)
  have req: "set (definition_requirements (handle_definition h)) \<subseteq> fst ` set (handle_dependencies h)"
    using closed h by (simp add: snapshot_closed_def covers_def)
  have same: "x = h" if "x \<in> S" "handle_entry_id x = handle_entry_id h" for x
    using closed h that by (auto simp: snapshot_closed_def dest: inj_onD)
  have defs: "(\<exists>x\<in>S. handle_id x = i \<and> handle_definition x = d) \<and>
      set (definition_requirements d) \<subseteq> insert (handle_id h) (fmdom' (sw_definitions w)) \<union> (fst ` set (handle_dependencies h) \<union> pending)"
    if "fmlookup ?defs i = Some d" for i d
  proof (cases "fmlookup (sw_definitions w) i = Some d")
    case True
    then show ?thesis using inv unfolding snapshot_inv_def by blast
  next
    case False
    then have "i = handle_id h" "d = handle_definition h" using that by (auto split: if_splits)
    then show ?thesis using h req by blast
  qed
  moreover have "handle_id x \<in> insert (handle_id h) (fmdom' (sw_definitions w))"
    if "x \<in> S" "handle_entry_id x |\<in>| finsert (handle_entry_id h) (sw_visited w)" for x
    using that same inv unfolding snapshot_inv_def by auto
  ultimately show ?thesis unfolding snapshot_inv_def using dom by simp
qed

lemma insert_snapshot_inv:
  "snapshot_closed S \<Longrightarrow> h \<in> S \<Longrightarrow> snapshot_inv S (insert (handle_id h) pending) w \<Longrightarrow>
     snapshot_inv S pending (insert_snapshot h w)"
  "snapshot_closed S \<Longrightarrow> (\<forall>(i, x)\<in>set ds. x \<in> S \<and> handle_id x = i) \<Longrightarrow>
     snapshot_inv S (fst ` set ds \<union> pending) w \<Longrightarrow> snapshot_inv S pending (insert_snapshots ds w)"
proof (induction h w and ds w arbitrary: pending and pending rule: insert_snapshot_insert_snapshots.induct)
  case (1 d v ds g e w)
  let ?h = "CapabilityHandle d (InstanceSlot v ds) g e"
  have sel: "handle_id ?h = cd_id d" "handle_entry_id ?h = e" "handle_definition ?h = d" "handle_dependencies ?h = ds"
    by (simp_all add: handle_id_def handle_dependencies_def)
  show ?case
  proof (cases "e |\<in>| sw_visited w")
    case True
    then have "cd_id d \<in> fmdom' (sw_definitions w)" using 1(3,4) sel unfolding snapshot_inv_def by metis
    then show ?thesis using True 1(4) snapshot_inv_known by (simp add: sel)
  next
    case False
    have "\<forall>(i, x)\<in>set ds. x \<in> S \<and> handle_id x = i" using 1(2,3) sel(4) unfolding snapshot_closed_def by metis
    then show ?thesis
      using False 1(1) [OF False 1(2) _ snapshot_inv_enter [OF 1(2,3,4), unfolded sel]] by simp
  qed
next
  case (2 w)
  then show ?case by simp
next
  case (3 i h ds w)
  then show ?case by simp
qed

lemma insert_snapshot_keeps:
  fixes h :: "'v CapabilityHandle" and ds :: "'v ResolvedDependencies"
  shows "fmlookup (sw_definitions w) i = Some d \<Longrightarrow> fmlookup (sw_definitions (insert_snapshot h w)) i = Some d"
    and "fmlookup (sw_definitions w) i = Some d \<Longrightarrow> fmlookup (sw_definitions (insert_snapshots ds w)) i = Some d"
  by (induction h w and ds w rule: insert_snapshot_insert_snapshots.induct) (auto simp: contains_key_iff)

section \<open>The runtime graph\<close>

definition current_walk :: "(Id, 'v CapabilityEntry) fmap \<Rightarrow> snapshot_walk" where
  "current_walk entries =
     fold (\<lambda>e w.
         w\<lparr>sw_definitions := fmupd (cd_id (en_definition e)) (en_definition e) (sw_definitions w),
           sw_visited := finsert (en_entry_id e) (sw_visited w)\<rparr>)
       (bm_values entries) \<lparr>sw_definitions = fmempty, sw_visited = {||}\<rparr>"

lemma runtime_graph_alt:
  "cg_definitions (runtime_graph entries) =
     sw_definitions (fold (\<lambda>e. insert_snapshots (slot_dependencies (en_instance e))) (bm_values entries) (current_walk entries))"
  by (simp add: runtime_graph_def current_walk_def Let_def)

lemma current_walk_lookup:
  assumes "keyed (cd_id \<circ> en_definition) entries"
  shows "fmlookup (sw_definitions (current_walk entries)) i = map_option en_definition (fmlookup entries i)"
    and "x |\<in>| sw_visited (current_walk entries) \<longleftrightarrow> (\<exists>i e. fmlookup entries i = Some e \<and> en_entry_id e = x)"
proof -
  let ?f = "\<lambda>(e :: 'a CapabilityEntry) w. w\<lparr>sw_definitions := fmupd (cd_id (en_definition e)) (en_definition e) (sw_definitions w),
      sw_visited := finsert (en_entry_id e) (sw_visited w)\<rparr>"
  have "sw_definitions (fold ?f es w) = fold (\<lambda>e m. fmupd (cd_id (en_definition e)) (en_definition e) m) es (sw_definitions w) \<and>
      fset (sw_visited (fold ?f es w)) = en_entry_id ` set es \<union> fset (sw_visited w)" for es w
    by (induction es arbitrary: w) auto
  note split = this [of "bm_values entries" "\<lparr>sw_definitions = fmempty, sw_visited = {||}\<rparr>"]
  have "x |\<in>| sw_visited (current_walk entries) \<longleftrightarrow> x \<in> en_entry_id ` set (bm_values entries)"
    using split by (simp add: current_walk_def)
  then show "x |\<in>| sw_visited (current_walk entries) \<longleftrightarrow> (\<exists>i e. fmlookup entries i = Some e \<and> en_entry_id e = x)"
    by (auto simp: set_bm_values)
  have ids: "distinct (map (\<lambda>e. cd_id (en_definition e)) (bm_values entries))"
    using keyed_map_values [OF assms] by (simp add: comp_def)
  have "fmlookup (fold (\<lambda>e m. fmupd (cd_id (en_definition e)) (en_definition e) m) es m) i =
      (case find (\<lambda>e. cd_id (en_definition e) = i) es of Some e \<Rightarrow> Some (en_definition e) | None \<Rightarrow> fmlookup m i)"
    if "distinct (map (\<lambda>e. cd_id (en_definition e)) es)" for es :: "'a CapabilityEntry list" and m
    using that
  proof (induction es arbitrary: m)
    case (Cons e es)
    then have "find (\<lambda>x. cd_id (en_definition x) = cd_id (en_definition e)) es = None"
      by (simp add: find_None_iff image_iff) metis
    with Cons show ?case by (auto split: option.splits)
  qed simp
  from this [OF ids, of fmempty] split
  have "fmlookup (sw_definitions (current_walk entries)) i =
      map_option en_definition (find (\<lambda>e. cd_id (en_definition e) = i) (bm_values entries))"
    by (simp add: current_walk_def option.case_eq_if map_option_case)
  moreover have "find (\<lambda>e. cd_id (en_definition e) = i) (bm_values entries) = fmlookup entries i"
  proof -
    have "find (\<lambda>e. cd_id (en_definition e) = i) (bm_values entries) = Some e \<longleftrightarrow> fmlookup entries i = Some e" for e
      unfolding find_distinct_key [OF ids] set_bm_values using assms by (auto simp: keyed_def)
    then show ?thesis by (metis option.exhaust)
  qed
  ultimately show "fmlookup (sw_definitions (current_walk entries)) i = map_option en_definition (fmlookup entries i)"
    by simp
qed

text \<open>Entries of a scope: handles of a universe under their own identifiers.\<close>

definition entries_of_universe :: "'v scopes \<Rightarrow> 'v CapabilityHandle set \<Rightarrow> (Id, 'v CapabilityEntry) fmap \<Rightarrow> bool" where
  "entries_of_universe st H entries \<longleftrightarrow>
     handle_universe st H \<and> keyed (cd_id \<circ> en_definition) entries \<and>
     (\<forall>i e. fmlookup entries i = Some e \<longrightarrow> entry_handle e \<in> H)"

lemma scope_entries_of_universe:
  "handle_universe st H \<Longrightarrow> entries_of_universe st H (ss_entries (scope_state st p))"
  using universe_entry [of st H] by (auto simp: entries_of_universe_def keyed_def)

lemma retained_closed:
  assumes "entries_of_universe st H entries"
  shows "snapshot_closed (retained entries)"
proof -
  have sub: "retained entries \<subseteq> H" and u: "handle_universe st H"
    using assms retained_universe [of st H entries] by (auto simp: entries_of_universe_def)
  then have "inj_on handle_entry_id (retained entries)"
    by (auto simp: handle_universe_def intro: inj_on_subset)
  moreover have "covers (handle_dependencies h) (handle_definition h)" if "h \<in> retained entries" for h
    using universe_handle(2) [OF u] sub that by blast
  moreover have "x \<in> retained entries \<and> handle_id x = i"
    if "h \<in> retained entries" "(i, x) \<in> set (handle_dependencies h)" for h i x
    using universe_handle(3) [OF u _ that(2)] retained_step [OF that] sub that(1) by blast
  ultimately show ?thesis by (auto simp: snapshot_closed_def)
qed

lemma runtime_graph_keeps:
  assumes "entries_of_universe st H entries" and "fmlookup entries i = Some e"
  shows "fmlookup (cg_definitions (runtime_graph entries)) i = Some (en_definition e)"
proof -
  have "fmlookup (sw_definitions (fold (\<lambda>e. insert_snapshots (slot_dependencies (en_instance e))) es w)) i = Some d"
    if "fmlookup (sw_definitions w) i = Some d" for es w d
    using that by (induction es arbitrary: w) (auto simp: insert_snapshot_keeps(2))
  then show ?thesis
    using assms current_walk_lookup(1) [of entries i] by (simp add: runtime_graph_alt entries_of_universe_def)
qed

lemma runtime_graph_inv:
  assumes entries: "entries_of_universe st H entries"
  defines "defs \<equiv> cg_definitions (runtime_graph entries)"
  assumes d: "fmlookup defs i = Some d"
  shows "\<exists>h\<in>retained entries. handle_id h = i \<and> handle_definition h = d"
    and "set (definition_requirements d) \<subseteq> fmdom' defs"
proof -
  let ?R = "retained entries" and ?deps = "\<lambda>e :: 'a CapabilityEntry. slot_dependencies (en_instance e)"
  have closed: "snapshot_closed ?R" using entries by (rule retained_closed)
  have keyed: "keyed (cd_id \<circ> en_definition) entries" using entries by (simp add: entries_of_universe_def)
  have step: "snapshot_inv ?R {} (fold (\<lambda>e. insert_snapshots (?deps e)) es w)"
    if "snapshot_inv ?R (\<Union>e\<in>set es. fst ` set (?deps e)) w" "\<forall>e\<in>set es. entry_handle e \<in> ?R" for es w
    using that
  proof (induction es arbitrary: w)
    case (Cons e es)
    have "\<forall>(i, x)\<in>set (?deps e). x \<in> ?R \<and> handle_id x = i"
      using closed Cons.prems(2) unfolding snapshot_closed_def
      by (metis entry_handle_sel(6) list.set_intros(1))
    then have "snapshot_inv ?R (\<Union>e\<in>set es. fst ` set (?deps e)) (insert_snapshots (?deps e) w)"
      using insert_snapshot_inv(2) [OF closed] Cons.prems(1) by simp
    then show ?case using Cons by simp
  qed simp
  have mem: "\<forall>e\<in>set (bm_values entries). entry_handle e \<in> ?R"
    using retained_entry by (auto simp: set_bm_values)
  have "snapshot_inv ?R (\<Union>e\<in>set (bm_values entries). fst ` set (?deps e)) (current_walk entries)"
    unfolding snapshot_inv_def
  proof (intro conjI allI impI ballI)
    fix i d
    assume "fmlookup (sw_definitions (current_walk entries)) i = Some d"
    then obtain e where e: "fmlookup entries i = Some e" "d = en_definition e"
      using current_walk_lookup(1) [OF keyed] by auto
    then have R: "entry_handle e \<in> ?R" by (intro retained_entry)
    moreover have "cd_id (en_definition e) = i" using keyed e by (simp add: keyed_def)
    ultimately show "\<exists>h\<in>?R. handle_id h = i \<and> handle_definition h = d" using e by (metis entry_handle_sel(1,5))
    have "covers (?deps e) d" using closed R e(2) unfolding snapshot_closed_def by (metis entry_handle_sel(1,6))
    then show "set (definition_requirements d) \<subseteq> fmdom' (sw_definitions (current_walk entries)) \<union>
        (\<Union>e\<in>set (bm_values entries). fst ` set (?deps e))"
      using e(1) unfolding covers_def set_bm_values by blast
  next
    fix h
    assume h: "h \<in> ?R" and "handle_entry_id h |\<in>| sw_visited (current_walk entries)"
    then obtain i e where e: "fmlookup entries i = Some e" "en_entry_id e = handle_entry_id h"
      using current_walk_lookup(2) [OF keyed] by auto
    then have "h = entry_handle e"
      using closed h retained_entry [OF e(1)] unfolding snapshot_closed_def by (metis entry_handle_sel(4) inj_onD)
    then have "handle_id h = i" using keyed e(1) by (simp add: keyed_def)
    then show "handle_id h \<in> fmdom' (sw_definitions (current_walk entries))"
      using e(1) current_walk_lookup(1) [OF keyed] by (simp add: fmlookup_dom'_iff)
  qed
  from step [OF this mem] d show "\<exists>h\<in>?R. handle_id h = i \<and> handle_definition h = d"
    and "set (definition_requirements d) \<subseteq> fmdom' defs"
    unfolding defs_def runtime_graph_alt snapshot_inv_def by simp_all
qed

lemma mem_requirements:
  "j \<in> set (requirements g i) \<longleftrightarrow>
     (\<exists>d. fmlookup (cg_definitions g) i = Some d \<and> j \<in> set (definition_requirements d))"
  by (cases "fmlookup (cg_definitions g) i") (simp_all add: requirements_def requirements_of_def)

text \<open>Resolution of the runtime graph fails only for a cycle.\<close>

lemma runtime_teardown_order_Some_iff:
  assumes "entries_of_universe st H entries"
  shows "(\<exists>order. runtime_teardown_order entries = Some order) \<longleftrightarrow> acyclic (edges_of (requirements (runtime_graph entries)))"
proof -
  let ?g = "runtime_graph entries"
  have "contains_key (cg_definitions ?g) j" if "j \<in> set (requirements ?g i)" for i j
  proof -
    from that obtain d where d: "fmlookup (cg_definitions ?g) i = Some d" "j \<in> set (definition_requirements d)"
      by (auto simp: mem_requirements)
    then have "j \<in> fmdom' (cg_definitions ?g)" using runtime_graph_inv(2) [OF assms d(1)] by blast
    then show ?thesis by (auto simp: contains_key_iff fmlookup_dom'_iff)
  qed
  then have "resolvable ?g \<longleftrightarrow> acyclic (edges_of (requirements ?g))" by (auto simp: resolvable_def)
  then show ?thesis
    using resolve_Inr_iff [of ?g] by (auto simp: runtime_teardown_order_def split: sum.splits)
qed

lemma runtime_graph_acyclic:
  assumes entries: "entries_of_universe st H entries" and one: "inj_on handle_id (retained entries)"
  shows "acyclic (edges_of (requirements (runtime_graph entries)))"
proof -
  have u: "handle_universe st H" and sub: "retained entries \<subseteq> H"
    using entries retained_universe [of st H entries] by (auto simp: entries_of_universe_def)
  define age where "age i = unat (entry_get (handle_entry_id (THE h. h \<in> retained entries \<and> handle_id h = i)))" for i
  have age: "age (handle_id h) = unat (entry_get (handle_entry_id h))" if "h \<in> retained entries" for h
  proof -
    have "(THE x. x \<in> retained entries \<and> handle_id x = handle_id h) = h"
      using that one by (intro the_equality) (auto dest: inj_onD)
    then show ?thesis by (simp add: age_def)
  qed
  have "age j < age i" if "(i, j) \<in> edges_of (requirements (runtime_graph entries))" for i j
  proof -
    from that obtain d where d: "fmlookup (cg_definitions (runtime_graph entries)) i = Some d"
        "j \<in> set (definition_requirements d)"
      by (auto simp: mem_requirements)
    obtain h where h: "h \<in> retained entries" "handle_id h = i" "handle_definition h = d"
      using runtime_graph_inv(1) [OF entries d(1)] by blast
    then have "h \<in> H" using sub by blast
    have "covers (handle_dependencies h) d" using universe_handle(2) [OF u \<open>h \<in> H\<close>] h(3) by simp
    then obtain x where x: "(j, x) \<in> set (handle_dependencies h)" using d(2) by (auto simp: covers_def)
    then have "handle_id x = j" "entry_get (handle_entry_id x) < entry_get (handle_entry_id h)"
      using universe_handle(3) [OF u \<open>h \<in> H\<close>] by blast+
    then show ?thesis using age [OF h(1)] age [OF retained_step [OF h(1) x]] h(2) by (simp add: word_less_nat_alt)
  qed
  then have "edges_of (requirements (runtime_graph entries)) \<subseteq> (measure age)\<inverse>" by auto
  then show ?thesis
    by (meson acyclic_converse acyclic_subset wf_acyclic wf_measure)
qed

text \<open>
  The order of a teardown: descendants before their ancestors, and inside a scope dependents
  before the capabilities they require.
\<close>

section \<open>Dropping the entries of one scope\<close>

lemma drop_in_order_eq:
  assumes "distinct order"
  shows "drop_in_order order entries =
    (map (\<lambda>i. en_entry_id (the (fmlookup entries i))) (filter (contains_key entries) order),
     fmdrop_set (set order) entries)"
  using assms
proof (induction order arbitrary: entries)
  case Nil
  then show ?case by (simp add: fmdrop_set_null)
next
  case (Cons i ids)
  have set: "fmdrop_set (set ids) (fmdrop i entries) = fmdrop_set (set (i # ids)) entries"
    by (rule fmap_ext) simp
  show ?case
  proof (cases "fmlookup entries i")
    case None
    then have "fmdrop i entries = entries" by (intro fmap_ext) auto
    with None Cons set show ?thesis by (simp add: contains_key_def)
  next
    case (Some e)
    have keys: "filter (contains_key (fmdrop i entries)) ids = filter (contains_key entries) ids"
      using Cons.prems by (intro filter_cong) (auto simp: contains_key_def)
    have vals: "map (\<lambda>j. en_entry_id (the (fmlookup (fmdrop i entries) j))) (filter (contains_key entries) ids) =
        map (\<lambda>j. en_entry_id (the (fmlookup entries j))) (filter (contains_key entries) ids)"
      using Cons.prems by (intro map_cong) auto
    have key: "contains_key entries i" using Some by (simp add: contains_key_def)
    have rest: "drop_in_order ids (fmdrop i entries) =
        (map (\<lambda>j. en_entry_id (the (fmlookup entries j))) (filter (contains_key entries) ids), fmdrop_set (set (i # ids)) entries)"
      using Cons.IH [of "fmdrop i entries"] Cons.prems unfolding keys vals set by simp
    show ?thesis unfolding drop_in_order.simps Some option.case rest prod.case filter.simps using key Some by simp
  qed
qed

text \<open>
  \<open>dependents_first\<close>: the identifiers in this order hold every entry once, and an entry
  comes before the entries its definition requires.
\<close>

definition dependents_first :: "(Id, 'v CapabilityEntry) fmap \<Rightarrow> Id list \<Rightarrow> bool" where
  "dependents_first entries ids \<longleftrightarrow>
     distinct ids \<and> set ids = fmdom' entries \<and>
     (\<forall>k<length ids. \<forall>e. fmlookup entries (ids ! k) = Some e \<longrightarrow>
        set (definition_requirements (en_definition e)) \<inter> set (take k ids) = {})"

lemma dependency_first_rev:
  assumes "dependency_first succ order" and "distinct order"
    and "k < length order" and "x \<in> set (succ (rev order ! k))"
  shows "x \<notin> set (take k (rev order))"
proof -
  let ?j = "length order - Suc k"
  have "rev order ! k = order ! ?j" using assms(3) by (simp add: rev_nth)
  moreover have "?j < length order" using assms(3) by simp
  then have "set (succ (order ! ?j)) \<subseteq> set (take ?j order)" using assms(1) by (simp add: dependency_first_def)
  ultimately have "x \<in> set (take ?j order)" using assms(4) by auto
  moreover have "take k (rev order) = rev (drop (length order - k) order)" by (simp add: take_rev)
  moreover have "set (take ?j order) \<inter> set (drop (length order - k) order) = {}"
    using assms(2) by (intro set_take_disj_set_drop_if_distinct) auto
  ultimately show ?thesis by auto
qed

lemma filter_take_nth:
  assumes "k < length (filter P xs)"
  obtains j where "j < length xs" "filter P xs ! k = xs ! j" "take k (filter P xs) = filter P (take j xs)"
  using assms
proof (induction xs arbitrary: k thesis)
  case (Cons x xs)
  show ?case
  proof (cases "P x")
    case True
    show ?thesis
    proof (cases k)
      case 0
      with True Cons.prems(1) [of 0] show ?thesis by simp
    next
      case (Suc k')
      with True Cons.prems(2) obtain j where "j < length xs" "filter P xs ! k' = xs ! j"
          "take k' (filter P xs) = filter P (take j xs)"
        using Cons.IH [of k'] by auto
      with True Suc Cons.prems(1) [of "Suc j"] show ?thesis by simp
    qed
  next
    case False
    then obtain j where "j < length xs" "filter P xs ! k = xs ! j" "take k (filter P xs) = filter P (take j xs)"
      using Cons.IH [of k] Cons.prems(2) by auto
    with False Cons.prems(1) [of "Suc j"] show ?thesis by simp
  qed
qed simp

lemma drop_plan_order:
  assumes entries: "entries_of_universe st H entries" and order: "runtime_teardown_order entries = Some order"
  shows "\<exists>ids. dependents_first entries ids \<and>
    drop_plan \<lparr>tp_entries = entries, tp_order = order\<rparr> = map (\<lambda>i. en_entry_id (the (fmlookup entries i))) ids"
proof -
  let ?g = "runtime_graph entries"
  obtain r where r: "resolve ?g = Inr r" and rev: "order = rev (rg_construction_order r)"
    using order by (auto simp: runtime_teardown_order_def teardown_order_def split: sum.splits)
  note res = resolve_order [OF r]
  let ?ids = "filter (contains_key entries) order"
  have all: "fmdom' entries \<subseteq> set order"
    using res(2) runtime_graph_keeps [OF entries] by (force simp: rev fmlookup_dom'_iff)
  have "set (definition_requirements (en_definition e)) \<inter> set (take k ?ids) = {}"
    if k: "k < length ?ids" and e: "fmlookup entries (?ids ! k) = Some e" for k e
  proof -
    obtain j where j: "j < length order" "?ids ! k = order ! j" "take k ?ids = filter (contains_key entries) (take j order)"
      using filter_take_nth [OF k] .
    have "x \<notin> set (take j order)" if "x \<in> set (definition_requirements (en_definition e))" for x
    proof -
      have "x \<in> set (requirements ?g (order ! j))"
        using runtime_graph_keeps [OF entries e] that j(2) by (auto simp: mem_requirements)
      then show ?thesis
        using dependency_first_rev [OF res(3,1), of j x] j(1) by (simp add: rev)
    qed
    then show ?thesis using j(3) by auto
  qed
  then have "dependents_first entries ?ids"
    using res(1) all by (auto simp: dependents_first_def rev contains_key_iff fmlookup_dom'_iff)
  moreover have "fmdrop_set (set order) entries = fmempty"
    using all by (intro fmap_ext) (auto simp: fmdom'_notI fmlookup_dom'_iff subset_iff)
  then have "drop_plan \<lparr>tp_entries = entries, tp_order = order\<rparr> = map (\<lambda>i. en_entry_id (the (fmlookup entries i))) ?ids"
    using drop_in_order_eq [of order entries] res(1) by (simp add: drop_plan_def rev bm_values_def)
  ultimately show ?thesis by blast
qed

section \<open>Descendants, child first\<close>

definition child_first :: "'v scopes \<Rightarrow> scope list \<Rightarrow> bool" where
  "child_first st ps \<longleftrightarrow>
     (\<forall>k<length ps. \<forall>ks. ks \<noteq> [] \<longrightarrow> ks @ ps ! k \<in> fmdom' (sc_states st) \<longrightarrow> ks @ ps ! k \<in> set (take k ps))"

lemma child_first_append: "child_first st ps \<Longrightarrow> child_first st qs \<Longrightarrow> child_first st (ps @ qs)"
  unfolding child_first_def by (auto simp: nth_append)

lemma child_first_concat: "\<forall>b\<in>set bs. child_first st b \<Longrightarrow> child_first st (concat bs)"
  by (induction bs) (auto intro: child_first_append simp: child_first_def [of st "[]"])

lemma collect_descendants_correct:
  "scope_tree st \<Longrightarrow>
     set (collect_descendants_child_first st p) = {q \<in> fmdom' (sc_states st). \<exists>ks. ks \<noteq> [] \<and> q = ks @ p} \<and>
     distinct (collect_descendants_child_first st p) \<and> child_first st (collect_descendants_child_first st p)"
proof (induction st p rule: collect_descendants_child_first.induct)
  case (1 st p)
  let ?block = "\<lambda>c. collect_descendants_child_first st c @ [c]"
  note tree = 1(2)
  have block: "set (?block c) = {q \<in> fmdom' (sc_states st). \<exists>ks. q = ks @ c}" "distinct (?block c)" "child_first st (?block c)"
    if "c \<in> set (live_children st p)" for c
  proof -
    note IH = 1(1) [OF that tree]
    have c: "c \<in> fmdom' (sc_states st)" using that live_children_iff [OF tree] by blast
    show "set (?block c) = {q \<in> fmdom' (sc_states st). \<exists>ks. q = ks @ c}" using IH c by auto
    show "distinct (?block c)" using IH by auto
    have "child_first st [c]" if "\<nexists>ks. ks \<noteq> [] \<and> ks @ c \<in> fmdom' (sc_states st)"
      using that by (auto simp: child_first_def)
    show "child_first st (?block c)"
      unfolding child_first_def
    proof (intro allI impI)
      fix k ks
      assume k: "k < length (?block c)" and ks: "ks \<noteq> []" "ks @ ?block c ! k \<in> fmdom' (sc_states st)"
      show "ks @ ?block c ! k \<in> set (take k (?block c))"
      proof (cases "k < length (collect_descendants_child_first st c)")
        case True
        then show ?thesis using IH ks by (auto simp: child_first_def nth_append)
      next
        case False
        then have "k = length (collect_descendants_child_first st c)" using k by simp
        then show ?thesis using IH ks by auto
      qed
    qed
  qed
  have eq: "collect_descendants_child_first st p = concat (map ?block (live_children st p))"
    by (rule collect_descendants_child_first.simps)
  have "distinct (concat (map ?block cs))" if "distinct cs" "set cs \<subseteq> set (live_children st p)" for cs
    using that
  proof (induction cs)
    case (Cons c cs)
    have "set (?block c) \<inter> set (?block c') = {}" if "c' \<in> set cs" for c'
    proof -
      have c: "c \<in> set (live_children st p)" "c' \<in> set (live_children st p)" "c \<noteq> c'" using Cons.prems that by auto
      then obtain k k' where "c = k # p" "c' = k' # p" using live_children_iff [OF tree] by blast
      then have "ks @ c \<noteq> ks' @ c'" for ks ks' using c(3) by auto
      then show ?thesis using block(1) [OF c(1)] block(1) [OF c(2)] by auto
    qed
    then show ?case using Cons block(2) [of c] by fastforce
  qed simp
  moreover have "distinct (live_children st p)"
    by (auto simp: live_children_def distinct_map inj_on_def)
  ultimately have "distinct (collect_descendants_child_first st p)" unfolding eq by blast
  moreover have "child_first st (collect_descendants_child_first st p)"
    unfolding eq using block(3) by (intro child_first_concat) auto
  moreover have "set (collect_descendants_child_first st p) = {q \<in> fmdom' (sc_states st). \<exists>ks. ks \<noteq> [] \<and> q = ks @ p}"
  proof -
    have "set (collect_descendants_child_first st p) =
        (\<Union>c\<in>set (live_children st p). {q \<in> fmdom' (sc_states st). \<exists>ks. q = ks @ c})"
      unfolding eq using block(1) by simp
    also have "\<dots> = {q \<in> fmdom' (sc_states st). \<exists>k ks. k # p \<in> fmdom' (sc_states st) \<and> q = ks @ k # p}"
      using live_children_iff [OF tree] by auto
    also have "\<dots> = {q \<in> fmdom' (sc_states st). \<exists>ks. ks \<noteq> [] \<and> q = ks @ p}"
      using scope_tree_suffix [OF tree]
      by (auto, metis append_Cons append_assoc append_butlast_last_id append_self_conv2 eq_Nil_appendI)
    finally show ?thesis .
  qed
  ultimately show ?case by blast
qed

section \<open>Closing the scopes\<close>

lemma close_scopes_Some:
  assumes "close_scopes ps st plans = (st', Some plans')" and "distinct ps"
  shows "\<exists>order. plans' = plans @ map (\<lambda>q. \<lparr>tp_entries = ss_entries (scope_state st q), tp_order = order q\<rparr>)
      (filter (scope_is_open st) ps) \<and>
    (\<forall>q\<in>set ps. scope_is_open st q \<longrightarrow> runtime_teardown_order (ss_entries (scope_state st q)) = Some (order q))"
    and "scope_state st' q = (if q \<in> set ps \<and> scope_is_open st q
      then (scope_state st q)\<lparr>ss_entries := fmempty, ss_lifecycle := Closed\<rparr> else scope_state st q)"
    and "sc_poisoned st' = sc_poisoned st"
  using assms
proof (induction ps arbitrary: st plans)
  case (Cons p ps)
  { case (1 st plans)
    let ?s = "scope_state st p"
    let ?closed = "?s\<lparr>ss_entries := fmempty, ss_lifecycle := Closed\<rparr>"
    show ?case
    proof (cases "scope_is_open st p")
      case False
      then show ?thesis using Cons.IH(1) [of st plans] 1 by (simp add: scope_is_open_def)
    next
      case True
      then obtain order where order: "runtime_teardown_order (ss_entries ?s) = Some order"
        using 1(1) by (auto simp: scope_is_open_def Let_def split: option.splits)
      let ?st = "update_scope p ?closed st" and ?plans = "plans @ [\<lparr>tp_entries = ss_entries ?s, tp_order = order\<rparr>]"
      have rest: "close_scopes ps ?st ?plans = (st', Some plans')"
        using 1(1) True order by (simp add: scope_is_open_def Let_def)
      have same: "scope_state ?st q = scope_state st q" "scope_is_open ?st q = scope_is_open st q" if "q \<in> set ps" for q
        using that 1(2) by (auto simp: scope_is_open_def)
      then have filt: "filter (scope_is_open ?st) ps = filter (scope_is_open st) ps" by (intro filter_cong) auto
      obtain f where f: "plans' = ?plans @ map (\<lambda>q. \<lparr>tp_entries = ss_entries (scope_state ?st q), tp_order = f q\<rparr>)
            (filter (scope_is_open ?st) ps)"
          "\<forall>q\<in>set ps. scope_is_open ?st q \<longrightarrow> runtime_teardown_order (ss_entries (scope_state ?st q)) = Some (f q)"
        using Cons.IH(1) [OF rest] 1(2) by auto
      have "map (\<lambda>q. \<lparr>tp_entries = ss_entries (scope_state ?st q), tp_order = f q\<rparr>) (filter (scope_is_open st) ps) =
          map (\<lambda>q. \<lparr>tp_entries = ss_entries (scope_state st q), tp_order = (f(p := order)) q\<rparr>) (filter (scope_is_open st) ps)"
        using same 1(2) by (intro map_cong) auto
      then show ?thesis
        using f order True same 1(2) unfolding filt by (intro exI [of _ "f(p := order)"]) auto
    qed }
  { case (2 st plans)
    let ?s = "scope_state st p"
    let ?closed = "?s\<lparr>ss_entries := fmempty, ss_lifecycle := Closed\<rparr>"
    show ?case
    proof (cases "scope_is_open st p")
      case False
      then show ?thesis using Cons.IH(2) [of st plans] 2 by (auto simp: scope_is_open_def)
    next
      case True
      then obtain order where order: "runtime_teardown_order (ss_entries ?s) = Some order"
        using 2(1) by (auto simp: scope_is_open_def Let_def split: option.splits)
      then have "close_scopes ps (update_scope p ?closed st) (plans @ [\<lparr>tp_entries = ss_entries ?s, tp_order = order\<rparr>]) =
          (st', Some plans')"
        using 2(1) True by (simp add: scope_is_open_def Let_def)
      from Cons.IH(2) [OF this] 2(2) True show ?thesis by (auto simp: scope_is_open_def)
    qed }
  { case (3 st plans)
    then show ?case using Cons.IH(3) by (auto simp: Let_def split: if_splits option.splits) }
qed simp_all

lemma close_scopes_None:
  "distinct ps \<Longrightarrow> snd (close_scopes ps st plans) = None \<longleftrightarrow>
     (\<exists>q\<in>set ps. scope_is_open st q \<and> runtime_teardown_order (ss_entries (scope_state st q)) = None)"
proof (induction ps arbitrary: st plans)
  case (Cons p ps)
  let ?s = "scope_state st p"
  show ?case
  proof (cases "scope_is_open st p")
    case False
    then show ?thesis using Cons by (simp add: scope_is_open_def)
  next
    case True
    show ?thesis
    proof (cases "runtime_teardown_order (ss_entries ?s)")
      case None
      with True show ?thesis by (simp add: scope_is_open_def Let_def)
    next
      case (Some order)
      let ?st = "update_scope p (?s\<lparr>ss_entries := fmempty, ss_lifecycle := Closed\<rparr>) st"
      have "scope_state ?st q = scope_state st q" "scope_is_open ?st q = scope_is_open st q" if "q \<in> set ps" for q
        using that Cons.prems by (auto simp: scope_is_open_def)
      then show ?thesis
        using True Some Cons.IH [of ?st "plans @ [\<lparr>tp_entries = ss_entries ?s, tp_order = order\<rparr>]"] Cons.prems
        by (auto simp: scope_is_open_def Let_def)
    qed
  qed
qed simp

lemma close_scopes_poisoned:
  "close_scopes ps st plans = (st', None) \<Longrightarrow> sc_poisoned st'"
  by (induction ps arbitrary: st plans)
     (auto simp: Let_def poison_on_panic_def split: if_splits option.splits)

end
