(* ===== verification/Scope_Properties.thy ===== *)
theory Scope_Properties
  imports Scope_Closing
begin

text \<open>
  The contract of scopes over all histories: which trees of scopes and which handles exist,
  what a publication commits, and how a teardown ends.
\<close>

section \<open>Reachable trees\<close>

fun issued :: "ScopeError + 'v CapabilityHandle \<Rightarrow> 'v CapabilityHandle set" where
  "issued (Inr h) = {h}"
| "issued (Inl _) = {}"

text \<open>
  The histories of a tree, with the handles issued so far. A publication takes dependencies
  its caller holds; between the admission that resolved them and the publication any other
  operation may have run.
\<close>

inductive scope_reachable :: "'v scopes \<Rightarrow> 'v CapabilityHandle set \<Rightarrow> bool" where
  root: "scope_reachable (scope_root n) {}"
| child: "scope_reachable st H \<Longrightarrow> p \<in> fmdom' (sc_states st) \<Longrightarrow> scope_reachable (fst (scope_child st p)) H"
| publish: "scope_reachable st H \<Longrightarrow> p \<in> fmdom' (sc_states st) \<Longrightarrow> held_dependencies H ds \<Longrightarrow> covers ds d \<Longrightarrow>
    publish_preconstructed st p d x ds v = (st', r) \<Longrightarrow> scope_reachable st' (H \<union> issued r)"
| withdraw: "scope_reachable st H \<Longrightarrow> p \<in> fmdom' (sc_states st) \<Longrightarrow>
    scope_reachable (fst (scope_withdraw st p i g)) H"
| teardown: "scope_reachable st H \<Longrightarrow> p \<in> fmdom' (sc_states st) \<Longrightarrow> scope_reachable (fst (scope_teardown st p)) H"
| release: "scope_reachable st H \<Longrightarrow> scope_reachable (scope_release st p) H"

lemma publish_Inr:
  assumes "publish_preconstructed st p d x ds v = (st', Inr h)"
  shows "\<not> sc_poisoned st" and "admit_publication st p d x ds = Inr (handle_generation h)"
    and "h = CapabilityHandle d (InstanceSlot v ds) (handle_generation h) (EntryId (sc_next_entry_id st))"
    and "sc_next_entry_id st < sc_next_entry_id st'" and "\<not> sc_poisoned st'"
    and "st' = update_scope p ((scope_state st p)\<lparr>ss_entries := fmupd (cd_id d)
        \<lparr>en_definition = d, en_instance = InstanceSlot v ds, en_generation = handle_generation h,
         en_entry_id = EntryId (sc_next_entry_id st)\<rparr> (ss_entries (scope_state st p))\<rparr>)
        (st\<lparr>sc_next_entry_id := sc_next_entry_id st'\<rparr>)"
proof -
  obtain g n m where open_lock: "\<not> sc_poisoned st" and admit: "admit_publication st p d x ds = Inr g"
    and alloc: "allocate_monotonic (sc_next_entry_id st) = Some (n, m)"
    and h: "h = CapabilityHandle d (InstanceSlot v ds) g (EntryId n)"
    and st': "st' = update_scope p ((scope_state st p)\<lparr>ss_entries := fmupd (cd_id d)
        \<lparr>en_definition = d, en_instance = InstanceSlot v ds, en_generation = g, en_entry_id = EntryId n\<rparr>
        (ss_entries (scope_state st p))\<rparr>) (st\<lparr>sc_next_entry_id := m\<rparr>)"
    using assms
    by (auto simp: publish_preconstructed_def Let_def entry_handle_def split: if_splits sum.splits option.splits prod.splits)
  have n: "n = sc_next_entry_id st" using alloc by (simp add: allocate_monotonic_Some)
  have m: "sc_next_entry_id st < m" using allocate_monotonic_less [OF alloc] by (simp add: n)
  have counter: "sc_next_entry_id st' = m" by (simp add: st')
  show "\<not> sc_poisoned st" by (rule open_lock)
  show "admit_publication st p d x ds = Inr (handle_generation h)" using admit h by simp
  show "h = CapabilityHandle d (InstanceSlot v ds) (handle_generation h) (EntryId (sc_next_entry_id st))"
    using h n by simp
  show "sc_next_entry_id st < sc_next_entry_id st'" using m counter by simp
  show "\<not> sc_poisoned st'" using open_lock by (simp add: st')
  show "st' = update_scope p ((scope_state st p)\<lparr>ss_entries := fmupd (cd_id d)
        \<lparr>en_definition = d, en_instance = InstanceSlot v ds, en_generation = handle_generation h,
         en_entry_id = EntryId (sc_next_entry_id st)\<rparr> (ss_entries (scope_state st p))\<rparr>)
        (st\<lparr>sc_next_entry_id := sc_next_entry_id st'\<rparr>)"
    unfolding counter using st' h n by simp
qed

lemma publish_Inl:
  assumes "publish_preconstructed st p d x ds v = (st', Inl e)"
  shows "st' = st \<or> st' = st\<lparr>sc_poisoned := True\<rparr>"
    and "e = ScopePanic \<Longrightarrow> sc_poisoned st \<or> admit_publication st p d x ds = Inl ScopePanic \<or> sc_next_entry_id st = u64_max"
    and "e \<noteq> ScopePanic \<Longrightarrow> st' = st"
  using assms allocate_monotonic_None [of "sc_next_entry_id st"]
  by (auto simp: publish_preconstructed_def Let_def poison_on_panic_def
      split: if_splits sum.splits option.splits prod.splits)

lemma universe_publish:
  assumes u: "handle_universe st H" and held: "held_dependencies H ds" and covered: "covers ds d"
    and pub: "publish_preconstructed st p d x ds v = (st', Inr h)"
  shows "handle_universe st' (insert h H)" and "handle_entry_id h \<notin> handle_entry_id ` H"
proof -
  note h = publish_Inr(3) [OF pub]
  have sel: "handle_entry_id h = EntryId (sc_next_entry_id st)" "handle_definition h = d" "handle_dependencies h = ds"
      "handle_id h = cd_id d"
    by (subst h; simp add: handle_dependencies_def handle_id_def)+
  show fresh: "handle_entry_id h \<notin> handle_entry_id ` H"
    using universe_handle(1) [OF u] sel(1) by fastforce
  have inj: "inj_on handle_entry_id (insert h H)"
    using u fresh by (auto simp: handle_universe_def inj_on_insert)
  have old: "entry_get (handle_entry_id x) < sc_next_entry_id st'" if "x \<in> H" for x
    using universe_handle(1) [OF u that] publish_Inr(4) [OF pub] by (rule order_less_trans)
  have entries: "cd_id (en_definition e) = i \<and> entry_handle e \<in> insert h H"
    if "fmlookup (ss_entries (scope_state st' q)) i = Some e" for q i e
  proof (cases "q = p \<and> i = cd_id d")
    case True
    then have "e = \<lparr>en_definition = d, en_instance = InstanceSlot v ds, en_generation = handle_generation h,
        en_entry_id = EntryId (sc_next_entry_id st)\<rparr>"
      using that by (subst (asm) publish_Inr(6) [OF pub]) simp
    then show ?thesis using h True by (simp add: entry_handle_def)
  next
    case False
    then have "fmlookup (ss_entries (scope_state st q)) i = Some e"
      using that by (subst (asm) publish_Inr(6) [OF pub]) (auto split: if_splits)
    then show ?thesis using universe_entry [OF u] by blast
  qed
  have deps: "y \<in> H \<and> handle_id y = i \<and> entry_get (handle_entry_id y) < entry_get (handle_entry_id h)"
    if "(i, y) \<in> set ds" for i y
    using that held universe_handle(1) [OF u] by (auto simp: held_dependencies_def sel(1))
  show "handle_universe st' (insert h H)"
    unfolding handle_universe_def
  proof (intro conjI ballI allI impI)
    fix k
    assume k: "k \<in> insert h H"
    show "entry_get (handle_entry_id k) < sc_next_entry_id st'"
      using k old publish_Inr(4) [OF pub] by (auto simp: sel(1))
    show "covers (handle_dependencies k) (handle_definition k)"
      using k universe_handle(2) [OF u] covered by (auto simp: sel)
    show "case z of (i, y) \<Rightarrow> y \<in> insert h H \<and> handle_id y = i \<and>
        entry_get (handle_entry_id y) < entry_get (handle_entry_id k)" if "z \<in> set (handle_dependencies k)" for z
    proof -
      obtain i y where z: "z = (i, y)" by (cases z)
      have "y \<in> H \<and> handle_id y = i \<and> entry_get (handle_entry_id y) < entry_get (handle_entry_id k)"
      proof (cases "k = h")
        case True
        then show ?thesis using deps [of i y] that by (simp add: z sel(3))
      next
        case False
        then show ?thesis using universe_handle(3) [OF u, of k i y] k that by (simp add: z)
      qed
      then show ?thesis by (simp add: z)
    qed
  qed (use inj entries in auto)
qed

lemma scope_tree_same:
  assumes "scope_tree st" and "fmdom' (sc_states st') = fmdom' (sc_states st)"
    and "\<And>q. ss_children (scope_state st' q) = ss_children (scope_state st q)"
  shows "scope_tree st'"
  using assms by (simp add: scope_tree_def)

lemma fmdom_update_scope [simp]: "fmdom' (sc_states (update_scope p s st)) = insert p (fmdom' (sc_states st))"
  by (simp add: update_scope_def)

lemma close_scopes_tree:
  "set ps \<subseteq> fmdom' (sc_states st) \<Longrightarrow>
     fmdom' (sc_states (fst (close_scopes ps st plans))) = fmdom' (sc_states st) \<and>
     ss_children (scope_state (fst (close_scopes ps st plans)) q) = ss_children (scope_state st q)"
proof (induction ps arbitrary: st plans)
  case (Cons p ps)
  then show ?case
    by (auto simp: Let_def poison_on_panic_def insert_absorb split: option.splits if_splits)
qed simp

lemma reachable_inv:
  "scope_reachable st H \<Longrightarrow> handle_universe st H \<and> scope_tree st"
proof (induction rule: scope_reachable.induct)
  case (root n)
  then show ?case
    by (auto simp: handle_universe_def scope_tree_def scope_root_def scope_state_def)
next
  case (child st H p)
  let ?k = "ss_children (scope_state st p)"
  have "?k # p \<notin> fmdom' (sc_states st)" using child.IH by (auto simp: scope_tree_def)
  then have "ss_entries (scope_state st (?k # p)) = fmempty"
    by (simp add: scope_state_def fmdom'_notD)
  moreover have "scope_tree (fst (scope_child st p))"
    using child.IH child.hyps(2)
    by (auto simp: scope_child_def Let_def scope_tree_def less_Suc_eq split: if_splits)
  ultimately show ?case using child.IH universe_child by blast
next
  case (publish st H p ds d x v st' r)
  show ?case
  proof (cases r)
    case (Inl e)
    have "st' = st \<or> st' = st\<lparr>sc_poisoned := True\<rparr>" using publish_Inl(1) [OF publish.hyps(5) [unfolded Inl]] .
    then show ?thesis using publish.IH Inl by (auto simp: handle_universe_def scope_tree_def)
  next
    case (Inr h)
    note pub = publish.hyps(5) [unfolded Inr]
    have "handle_universe st' (H \<union> issued r)"
      using universe_publish(1) [OF _ publish.hyps(3,4) pub] publish.IH Inr by simp
    moreover have "scope_tree st'"
    proof (rule scope_tree_same)
      show "scope_tree st" using publish.IH by simp
      show "fmdom' (sc_states st') = fmdom' (sc_states st)"
        by (subst publish_Inr(6) [OF pub]) (simp add: insert_absorb publish.hyps(2))
      show "ss_children (scope_state st' q) = ss_children (scope_state st q)" for q
        by (subst publish_Inr(6) [OF pub]) simp
    qed
    ultimately show ?thesis by simp
  qed
next
  case (withdraw st H p i g)
  have "scope_tree (fst (scope_withdraw st p i g))"
    by (rule scope_tree_same [of st])
       (use withdraw in \<open>auto simp: scope_withdraw_def Let_def insert_absorb split: if_splits option.splits\<close>)
  then show ?case using withdraw.IH universe_withdraw by blast
next
  case (teardown st H p)
  let ?ps = "collect_descendants_child_first st p @ [p]"
  have "set ?ps \<subseteq> fmdom' (sc_states st)"
    using collect_descendants_correct [of st p] teardown by auto
  note tree = close_scopes_tree [OF this, of "[]"]
  have "fst (scope_teardown st p) = st \<or> fst (scope_teardown st p) = fst (close_scopes ?ps st [])"
    by (auto simp: scope_teardown_def split: prod.splits option.splits)
  then have "scope_tree (fst (scope_teardown st p))"
    using teardown.IH tree scope_tree_same [of st] by metis
  then show ?case using teardown.IH universe_teardown by blast
next
  case (release st H p)
  have "scope_tree (scope_release st p)"
    using release.IH by (auto simp: scope_release_def scope_tree_def scope_state_def)
  then show ?case using release.IH universe_release by blast
qed

text \<open>
  \<^verbatim>\<open>provide\<close> and \<^verbatim>\<open>replace\<close> are histories of these steps, whatever the constructor and other
  threads do in between.
\<close>

lemma reachable_scope_publish:
  assumes reach: "scope_reachable st H"
    and env: "\<And>ds r st1. construct ds st = (r, st1) \<Longrightarrow>
      \<exists>H1. H \<subseteq> H1 \<and> scope_reachable st1 H1 \<and> p \<in> fmdom' (sc_states st1)"
  shows "\<exists>H'. H \<subseteq> H' \<and> scope_reachable (fst (scope_publish st p d x construct)) H'"
proof (cases "publish_admission st p d x")
  case (Inl e)
  then show ?thesis using reach by (auto simp: scope_publish_def)
next
  case (Inr ds)
  obtain r st1 where c: "construct ds st = (r, st1)" by (cases "construct ds st")
  then obtain H1 where H1: "H \<subseteq> H1" "scope_reachable st1 H1" "p \<in> fmdom' (sc_states st1)" using env by blast
  have deps: "resolve_dependencies st p d = Inr ds"
    using Inr by (auto simp: publish_admission_def split: if_splits sum.splits)
  have "held_dependencies H ds" "covers ds d" using resolved_held [OF _ deps] reachable_inv [OF reach] by auto
  then have held: "held_dependencies H1 ds" "covers ds d" using H1(1) by (auto simp: held_dependencies_def)
  show ?thesis
  proof (cases r)
    case (Inl reason)
    then show ?thesis using Inr c H1 by (auto simp: scope_publish_def)
  next
    case (Inr v)
    obtain st2 res where "publish_preconstructed st1 p d x ds v = (st2, res)"
      by (cases "publish_preconstructed st1 p d x ds v")
    moreover from scope_reachable.publish [OF H1(2,3) held this]
    have "scope_reachable st2 (H1 \<union> issued res)" .
    moreover have "H \<subseteq> H1 \<union> issued res" using H1(1) by blast
    ultimately show ?thesis
      using \<open>publish_admission st p d x = Inr ds\<close> c Inr by (intro exI [of _ "H1 \<union> issued res"]) (simp add: scope_publish_def)
  qed
qed

section \<open>Concrete histories\<close>

definition plain_constructor :: "unit constructor" where
  "plain_constructor ds st = (Inr (), st)"

definition capability_of :: "string \<Rightarrow> string list \<Rightarrow> CapabilityDefinition" where
  "capability_of i requires = fold (\<lambda>x d. depends_on d (Id x)) requires (CapabilityDefinition_new (Id i) ''plain'')"

definition provided :: "unit scopes \<Rightarrow> string \<Rightarrow> string list \<Rightarrow> unit scopes \<times> (ScopeError + unit CapabilityHandle)" where
  "provided st i requires = scope_provide st [] (capability_of i requires) plain_constructor"


definition demo_handle :: "unit CapabilityHandle" where
  "demo_handle = CapabilityHandle (capability_of ''X'' []) (InstanceSlot () []) Generation_FIRST (EntryId 1)"

definition demo_scopes :: "unit scopes" where
  "demo_scopes = fst (provided (scope_root 1) ''X'' [])"

lemma demo_publish:
  "publish_preconstructed (scope_root 1) [] (capability_of ''X'' []) PublishNew [] () = (demo_scopes, Inr demo_handle)"
  by code_simp

lemma demo_reachable: "scope_reachable demo_scopes {demo_handle}"
proof -
  have "covers ([] :: unit ResolvedDependencies) (capability_of ''X'' [])"
    unfolding covers_def by code_simp
  then show ?thesis
    using scope_reachable.publish [OF scope_reachable.root [of 1] _ _ _ demo_publish]
    by (simp add: held_dependencies_def scope_root_def)
qed

lemma demo_held: "held_dependencies {demo_handle} [(Id ''X'', demo_handle)]"
  by (simp add: held_dependencies_def) code_simp

lemma demo_covers: "covers [(Id ''X'', demo_handle)] (capability_of ''Y'' [''X''])"
  unfolding covers_def by code_simp


section \<open>Properties\<close>

text \<open>
  C32: A publication is an exact compare-and-swap. When it succeeds, the scope was open, the
  slot was empty for a new publication or held exactly the expected generation for a
  replacement, every dependency handle is the one visible from the scope at that moment, the
  new entry has a fresh identity and the first or next generation, no other slot of any scope
  changes, and the visible graph of every live scope that now sees the entry is closed and
  acyclic. When it fails, no scope changes, and it panics only if the lock was poisoned or
  the entry identities are exhausted.
\<close>
theorem scope_publication_exact:
  assumes reach: "scope_reachable st H" and held: "held_dependencies H ds" and covered: "covers ds d"
  shows "case publish_preconstructed st p d x ds v of
      (st', Inr h) \<Rightarrow>
        scope_is_open st p \<and>
        (case x of
           PublishNew \<Rightarrow> \<not> has_local_entry st p (cd_id d) \<and> handle_generation h = Generation_FIRST
         | PublishReplace g \<Rightarrow>
             map_option handle_generation (scope_get_local st p (cd_id d)) = Some g \<and>
             Generation_checked_next g = Some (handle_generation h)) \<and>
        (\<forall>i\<in>set (definition_requirements d). \<exists>dep. scope_get st p i = Some dep \<and> dependencies_get ds i = Some dep) \<and>
        handle_definition h = d \<and> handle_value h = v \<and> handle_dependencies h = ds \<and>
        handle_entry_id h \<notin> handle_entry_id ` H \<and>
        scope_get_local st' p (cd_id d) = Some h \<and>
        (\<forall>q i. (q, i) \<noteq> (p, cd_id d) \<longrightarrow> scope_get_local st' q i = scope_get_local st q i) \<and>
        (\<forall>q\<in>insert p (fmdom' (sc_states st)). candidate_affects st p q (cd_id d) \<longrightarrow> resolvable (visible_graph st' q))
    | (st', Inl e) \<Rightarrow>
        sc_states st' = sc_states st \<and>
        (e = ScopePanic \<longrightarrow> sc_poisoned st \<or> sc_next_entry_id st = u64_max)"
proof (cases "publish_preconstructed st p d x ds v")
  case (Pair st' r)
  have u: "handle_universe st H" and tree: "scope_tree st" using reachable_inv [OF reach] by auto
  show ?thesis
  proof (cases r)
    case (Inl e)
    note pub = Pair [unfolded Inl]
    show ?thesis
      using publish_Inl(1,2) [OF pub] admit_publication_no_panic [OF u covered] unfolding Pair Inl by auto
  next
    case (Inr h)
    note pub = Pair [unfolded Inr]
    note facts = publish_Inr [OF pub] and fresh = universe_publish [OF u held covered pub]
    note admit = admit_publication_Inr [OF u held facts(2)]
    let ?e = "\<lparr>en_definition = d, en_instance = InstanceSlot v ds, en_generation = handle_generation h,
         en_entry_id = EntryId (sc_next_entry_id st)\<rparr>"
    let ?st = "st\<lparr>sc_next_entry_id := sc_next_entry_id st'\<rparr>"
    have state: "scope_state st' q = (if q = p then (scope_state st p)\<lparr>ss_entries := fmupd (cd_id d) ?e (ss_entries (scope_state st p))\<rparr>
        else scope_state st q)" for q
      by (subst facts(6)) simp
    have h: "entry_handle ?e = h" using facts(3) by (simp add: entry_handle_def)
    have visible: "visible_definitions ?st q = visible_definitions st q" "candidate_affects ?st p q i = candidate_affects st p q i" for q i
      by (induction q) (simp_all add: scope_is_open_def has_local_entry_def)
    have after: "visible_definitions st' q = fmupd (cd_id d) d (visible_definitions st q)"
      if "candidate_affects st p q (cd_id d)" for q
      using visible_after_publication [of ?st p d "cd_id d" ?e q] that admit(1) visible
      by (subst facts(6)) (simp add: scope_is_open_def)
    have "resolvable (visible_graph st' q)"
      if "q \<in> insert p (fmdom' (sc_states st))" "candidate_affects st p q (cd_id d)" for q
      using that admit(4) descendant_admission_Inr [OF u tree admit(3), of q] after [OF that(2)]
      unfolding visible_graph_eq [OF fresh(1)] by (cases "q = p") auto
    moreover have "scope_get_local st' p (cd_id d) = Some h"
      using admit(1) h by (simp add: scope_get_local_def state scope_is_open_def)
    moreover have "scope_get_local st' q i = scope_get_local st q i" if "(q, i) \<noteq> (p, cd_id d)" for q i
      using that by (auto simp: scope_get_local_def state scope_is_open_def)
    moreover have "handle_definition h = d" "handle_value h = v" "handle_dependencies h = ds"
      by (subst facts(3); simp add: handle_value_def handle_dependencies_def)+
    moreover have "\<exists>dep. scope_get st p i = Some dep \<and> dependencies_get ds i = Some dep"
      if "i \<in> set (definition_requirements d)" for i
      using admit(2) [OF that] by auto
    moreover have "case x of
           PublishNew \<Rightarrow> \<not> has_local_entry st p (cd_id d) \<and> handle_generation h = Generation_FIRST
         | PublishReplace g \<Rightarrow>
             map_option handle_generation (scope_get_local st p (cd_id d)) = Some g \<and>
             Generation_checked_next g = Some (handle_generation h)"
      using admit(1,5) by (auto simp: has_local_entry_def contains_key_def scope_get_local_def split: PublishExpectation.splits)
    ultimately show ?thesis unfolding Pair Inr using admit(1) fresh(2) by auto
  qed
qed

theorem scope_publication_exact_witness:
  "\<exists>st' h. publish_preconstructed demo_scopes [] (capability_of ''Y'' [''X'']) PublishNew [(Id ''X'', demo_handle)] () = (st', Inr h) \<and>
     handle_entry_id h \<notin> handle_entry_id ` {demo_handle} \<and> scope_get_local st' [] (Id ''Y'') = Some h \<and>
     scope_get_local st' [] (Id ''X'') = Some demo_handle"
proof -
  let ?r = "publish_preconstructed demo_scopes [] (capability_of ''Y'' [''X'']) PublishNew [(Id ''X'', demo_handle)] ()"
  have "\<not> isl (snd ?r)" "scope_get_local demo_scopes [] (Id ''X'') = Some demo_handle"
    "cd_id (capability_of ''Y'' [''X'']) = Id ''Y''" by code_simp+
  then show ?thesis
    using scope_publication_exact [OF demo_reachable demo_held demo_covers, of "[]" PublishNew "()"]
    by (cases ?r; cases "snd ?r") auto
qed

text \<open>
  C33: What every history keeps. Handles with the same entry identity are the same handle;
  the dependency snapshot of a handle has every requirement of its definition, under the
  right identifier and with an older entry; what a scope looks up is an issued handle of the
  identifier asked for; and the ancestors of a live scope are live.
\<close>
theorem scope_history_invariant:
  assumes "scope_reachable st H"
  shows "(\<forall>h\<in>H. \<forall>h'\<in>H. handle_entry_id h = handle_entry_id h' \<longrightarrow> h = h') \<and>
    (\<forall>h\<in>H. entry_get (handle_entry_id h) < sc_next_entry_id st \<and>
       set (definition_requirements (handle_definition h)) \<subseteq> fst ` set (handle_dependencies h) \<and>
       (\<forall>(i, x)\<in>set (handle_dependencies h). x \<in> H \<and> handle_id x = i \<and>
          entry_get (handle_entry_id x) < entry_get (handle_entry_id h))) \<and>
    (\<forall>p i h. scope_get st p i = Some h \<longrightarrow> h \<in> H \<and> handle_id h = i) \<and>
    (\<forall>ks p. ks @ p \<in> fmdom' (sc_states st) \<longrightarrow> p \<in> fmdom' (sc_states st))"
proof -
  have u: "handle_universe st H" and tree: "scope_tree st" using reachable_inv [OF assms] by auto
  have "h = h'" if "h \<in> H" "h' \<in> H" "handle_entry_id h = handle_entry_id h'" for h h'
    using u that by (auto simp: handle_universe_def dest: inj_onD)
  moreover have "set (definition_requirements (handle_definition h)) \<subseteq> fst ` set (handle_dependencies h)" if "h \<in> H" for h
    using universe_handle(2) [OF u that] by (simp add: covers_def)
  ultimately show ?thesis
    using universe_handle(1,3) [OF u] universe_get [OF u] scope_tree_suffix [OF tree] by blast
qed

theorem scope_history_invariant_witness:
  "scope_get demo_scopes [] (Id ''X'') = Some demo_handle \<and> demo_handle \<in> {demo_handle} \<and> handle_id demo_handle = Id ''X'' \<and>
   entry_get (handle_entry_id demo_handle) < sc_next_entry_id demo_scopes"
proof -
  have "scope_get demo_scopes [] (Id ''X'') = Some demo_handle" by code_simp
  then show ?thesis using scope_history_invariant [OF demo_reachable] by blast
qed





end
