(* ===== verification/Plugin_Drive.thy ===== *)
theory Plugin_Drive
  imports Reactive_Order Scope_Properties
begin

text \<open>
  The invariant of the plugin world: an active fiber owns one issued publication and is bound
  to exactly the publications its value was built from; nobody else owns it. Shown here for
  unloading and for one load with closures that only change the host's own state.
\<close>

section \<open>Access\<close>

lemma lookup_update_fiber [simp]:
  "fmlookup (pl_fibers (update_fiber x f w)) y = (if y = x then Some (f (fiber_at w x)) else fmlookup (pl_fibers w) y)"
  by (simp add: update_fiber_def)

lemma fiber_at_update [simp]: "fiber_at (update_fiber x f w) y = (if y = x then f (fiber_at w x) else fiber_at w y)"
  by (simp add: fiber_at_def)

lemma update_fiber_sel [simp]:
  "pl_scopes (update_fiber x f w) = pl_scopes w" "pl_stacks (update_fiber x f w) = pl_stacks w"
  "pl_runtimes (update_fiber x f w) = pl_runtimes w" "pl_next_fiber (update_fiber x f w) = pl_next_fiber w"
  "pl_host (update_fiber x f w) = pl_host w"
  by (simp_all add: update_fiber_def)

lemma fiber_at_frame [simp]:
  "fiber_at (w\<lparr>pl_host := h\<rparr>) x = fiber_at w x" "fiber_at (w\<lparr>pl_stacks := ks\<rparr>) x = fiber_at w x"
  "fiber_at (w\<lparr>pl_scopes := st\<rparr>) x = fiber_at w x" "fiber_at (w\<lparr>pl_runtimes := rs\<rparr>) x = fiber_at w x"
  by (simp_all add: fiber_at_def)

lemma fiber_at_lookup: "fmlookup (pl_fibers w) x = Some b \<Longrightarrow> fiber_at w x = b"
  by (simp add: fiber_at_def)

lemma only_closes_sel:
  assumes "only_closes w w'"
  shows "pl_scopes w' = pl_scopes w" "pl_fibers w' = pl_fibers w" "pl_runtimes w' = pl_runtimes w"
    "pl_next_fiber w' = pl_next_fiber w" "length (pl_stacks w') = length (pl_stacks w)" "fiber_at w' x = fiber_at w x"
  using assms by (auto simp: only_closes_def fiber_at_def)

section \<open>The invariant\<close>

definition fiber_ok :: "'v CapabilityHandle set \<Rightarrow> ('v, 'f) CapabilityFiber \<Rightarrow> bool" where
  "fiber_ok H b \<longleftrightarrow>
     (case fb_handle b of
        None \<Rightarrow> fb_state b \<noteq> FiberActive
      | Some h \<Rightarrow> fb_state b = FiberActive \<and> h \<in> H \<and>
          dependency_binding b = Some (binding_from_dependencies (handle_dependencies h)) \<and>
          handle_definition h = pd_capability (fb_definition b) \<and>
          handle_id h \<notin> set (definition_requirements (pd_capability (fb_definition b))))"

definition plugins_ok :: "('v, 'd, 'f, 'h) plugins \<Rightarrow> bool" where
  "plugins_ok w \<longleftrightarrow>
     (\<exists>H. handle_universe (pl_scopes w) H \<and> (\<forall>x b. fmlookup (pl_fibers w) x = Some b \<longrightarrow> fiber_ok H b)) \<and>
     (\<forall>x y b c h. fmlookup (pl_fibers w) x = Some b \<longrightarrow> fmlookup (pl_fibers w) y = Some c \<longrightarrow>
        fb_handle b = Some h \<longrightarrow> fb_handle c = Some h \<longrightarrow> x = y)"

lemma plugins_okE:
  assumes "plugins_ok w"
  obtains H where "handle_universe (pl_scopes w) H" "\<forall>x b. fmlookup (pl_fibers w) x = Some b \<longrightarrow> fiber_ok H b"
  using assms unfolding plugins_ok_def by blast

lemma plugins_ok_owner:
  assumes "plugins_ok w" "fmlookup (pl_fibers w) x = Some b" "fmlookup (pl_fibers w) y = Some c"
    "fb_handle b = Some h" "fb_handle c = Some h"
  shows "x = y"
  using assms unfolding plugins_ok_def by blast

lemma binding_from_dependencies_lookup:
  assumes "fmlookup (binding_from_dependencies ds) i = Some p"
  obtains h where "(i, h) \<in> set ds" "p = pin_of_handle h"
proof -
  have "fmlookup (fold (\<lambda>(i, h) m. fmupd i (pin_of_handle h) m) ds m) i = Some p \<Longrightarrow>
      fmlookup m i = Some p \<or> (\<exists>h. (i, h) \<in> set ds \<and> p = pin_of_handle h)" for m
    by (induction ds arbitrary: m) (fastforce split: if_splits)+
  from this [of fmempty] assms that show ?thesis unfolding binding_from_dependencies_def by auto
qed

lemma plugins_ok_ordered:
  assumes ok: "plugins_ok w" and known: "set xs \<subseteq> fmdom' (pl_fibers w)"
  shows "publications_ordered w xs"
proof -
  obtain H where u: "handle_universe (pl_scopes w) H" and fb0: "\<forall>x b. fmlookup (pl_fibers w) x = Some b \<longrightarrow> fiber_ok H b"
    using ok by (rule plugins_okE)
  note fb = fb0 [rule_format]
  have lookup: "fmlookup (pl_fibers w) x = Some (fiber_at w x)" if "x \<in> set xs" for x
    using that known by (auto simp: fiber_at_def fmlookup_dom'_iff)
  have own: "h \<in> H \<and> dependency_binding (fiber_at w x) = Some (binding_from_dependencies (handle_dependencies h))"
    if "x \<in> set xs" "fb_handle (fiber_at w x) = Some h" for x h
    using fb [OF lookup [OF that(1)]] that(2) by (simp add: fiber_ok_def)
  show ?thesis unfolding publications_ordered_def
  proof (intro ballI allI impI conjI)
    fix x h y h'
    assume x: "x \<in> set xs" "fb_handle (fiber_at w x) = Some h" and y: "y \<in> set xs" "fb_handle (fiber_at w y) = Some h'"
      and eq: "handle_entry_id h' = handle_entry_id h"
    have "h' = h" using eq own [OF x] own [OF y] u by (auto simp: handle_universe_def dest: inj_onD)
    then show "x = y" using plugins_ok_owner [OF ok lookup [OF x(1)] lookup [OF y(1)]] x(2) y(2) by simp
  next
    fix x h binding capability p
    assume x: "x \<in> set xs" "fb_handle (fiber_at w x) = Some h" and b: "fiber_binding (fiber_at w x) = Some binding"
      and p: "fmlookup binding capability = Some p"
    have "binding = binding_from_dependencies (handle_dependencies h)"
      using own [OF x] b by (simp add: fiber_binding_def)
    then obtain k where k: "(capability, k) \<in> set (handle_dependencies h)" "p = pin_of_handle k"
      using p binding_from_dependencies_lookup by blast
    then show "entry_get (dp_entry_id p) < entry_get (handle_entry_id h)"
      using universe_handle(3) [OF u, of h capability k] own [OF x] by (simp add: pin_of_handle_def)
  qed
qed

text \<open>A change of one fiber that gives up its publication, or keeps it, keeps the invariant.\<close>

definition gives_up :: "('v, 'f) CapabilityFiber \<Rightarrow> ('v, 'f) CapabilityFiber \<Rightarrow> bool" where
  "gives_up b c \<longleftrightarrow>
     fb_handle c = None \<and> fb_state c \<noteq> FiberActive \<or>
     fb_handle c = fb_handle b \<and> fb_state c = fb_state b \<and> dependency_binding c = dependency_binding b \<and>
       fb_definition c = fb_definition b"

lemma plugins_ok_update:
  assumes ok: "plugins_ok w" and old: "fmlookup (pl_fibers w) x = Some b"
    and fibers: "pl_fibers w' = fmupd x c (pl_fibers w)" and gives: "gives_up b c"
    and scopes: "\<And>H. handle_universe (pl_scopes w) H \<Longrightarrow> handle_universe (pl_scopes w') H"
  shows "plugins_ok w'"
proof -
  obtain H where u: "handle_universe (pl_scopes w) H" and fb0: "\<forall>x b. fmlookup (pl_fibers w) x = Some b \<longrightarrow> fiber_ok H b"
    using ok by (rule plugins_okE)
  note fb = fb0 [rule_format]
  have "fiber_ok H c" using gives fb [OF old] unfolding gives_up_def by (auto simp: fiber_ok_def split: option.splits)
  then have "\<forall>y d. fmlookup (pl_fibers w') y = Some d \<longrightarrow> fiber_ok H d" using fb by (simp add: fibers)
  moreover have own: "\<exists>d'. fmlookup (pl_fibers w) y = Some d' \<and> fb_handle d' = Some h"
    if "fmlookup (pl_fibers w') y = Some d" "fb_handle d = Some h" for y d h
    using that gives old unfolding gives_up_def fibers by (auto split: if_splits)
  moreover have "y = z" if "fmlookup (pl_fibers w') y = Some d" "fmlookup (pl_fibers w') z = Some e"
      "fb_handle d = Some h" "fb_handle e = Some h" for y z d e h
    using own [OF that(1,3)] own [OF that(2,4)] plugins_ok_owner [OF ok] by blast
  ultimately show ?thesis unfolding plugins_ok_def using scopes [OF u] by blast
qed

section \<open>Unloading\<close>

text \<open>What a transition never changes in its fiber.\<close>

definition fiber_core :: "('v, 'f) CapabilityFiber \<Rightarrow>
    nat \<times> CapabilityContext \<times> 'f PluginDefinition \<times> string \<times> u64 \<times> bool" where
  "fiber_core b = (fb_runtime b, fb_context b, fb_definition b, fb_config b, fb_requested_epoch b, fb_dispose_requested b)"

definition scopes_shrink :: "Id set \<Rightarrow> 'v scopes \<Rightarrow> 'v scopes \<Rightarrow> bool" where
  "scopes_shrink I st st' \<longleftrightarrow> st' = st \<or> (\<exists>p i g. i \<in> I \<and> st' = fst (scope_withdraw st p i g))"

lemma scope_withdraw_sel [simp]:
  "sc_poisoned (fst (scope_withdraw st p i g)) = sc_poisoned st"
  "sc_next_entry_id (fst (scope_withdraw st p i g)) = sc_next_entry_id st"
  by (simp_all add: scope_withdraw_def Let_def split: option.split)

lemma scopes_shrink_keeps:
  assumes "scopes_shrink I st st'"
  shows "handle_universe st H \<Longrightarrow> handle_universe st' H" "sc_poisoned st' = sc_poisoned st"
    "sc_next_entry_id st' = sc_next_entry_id st"
  using assms universe_withdraw [of st H] by (auto simp: scopes_shrink_def)

lemma scope_remove_local_eq:
  "scope_remove_local st p i g = (case scope_withdraw st p i g of (st', r) \<Rightarrow> (st', case r of Inl e \<Rightarrow> Inl e | Inr _ \<Rightarrow> Inr ()))"
  by (simp add: scope_remove_local_def split: prod.split sum.split)

lemma scope_withdraw_no_panic:
  assumes "\<not> sc_poisoned st"
  shows "snd (scope_withdraw st p i g) \<noteq> Inl ScopePanic"
  using assms by (auto simp: scope_withdraw_def Let_def split: option.split)

text \<open>What an unload leaves of the fiber and the world.\<close>

definition unloaded :: "FiberId \<Rightarrow> ('v, 'd, 'f, 'h) plugins \<Rightarrow> ('v, 'd, 'f, 'h) plugins \<Rightarrow> ('v, 'f) CapabilityFiber \<Rightarrow> bool" where
  "unloaded x w w' c \<longleftrightarrow>
     pl_fibers w' = fmupd x c (pl_fibers w) \<and> scopes_shrink (handle_id ` set_option (fb_handle (fiber_at w x))) (pl_scopes w) (pl_scopes w') \<and>
     pl_runtimes w' = pl_runtimes w \<and> pl_next_fiber w' = pl_next_fiber w \<and>
     fiber_core c = fiber_core (fiber_at w x) \<and> fb_force_reload c = fb_force_reload (fiber_at w x) \<and>
     fb_state c = FiberPending \<and> fb_handle c = None \<and> fb_dependency_epoch c = None"

lemma finish_unload_sel:
  "pl_scopes (finish_unload x w) = pl_scopes w" "pl_runtimes (finish_unload x w) = pl_runtimes w"
  "pl_next_fiber (finish_unload x w) = pl_next_fiber w"
  "pl_fibers (finish_unload x w) = fmupd x ((fiber_at w x)\<lparr>fb_dependency_epoch := None, fb_loading_binding := None,
     fb_effects := length (pl_stacks w), fb_state := FiberPending\<rparr>) (pl_fibers w)"
  by (simp_all add: finish_unload_def effect_scope_new_def) (simp add: update_fiber_def fiber_at_def)

lemma fmupd_twice [simp]: "fmupd k v' (fmupd k v m) = fmupd k v' m"
  by (rule fmap_ext) simp

lemma withdraw_handle_quiet:
  assumes "\<not> sc_poisoned (pl_scopes w)"
  obtains w' es c where "withdraw_handle x detached errors w = Some (w', es)" "unloaded x w w' c"
proof (cases "fb_handle (fiber_at w x)")
  case None
  show ?thesis
    by (rule that [of "finish_unload x w" errors "(fiber_at w x)\<lparr>fb_dependency_epoch := None, fb_loading_binding := None,
          fb_effects := length (pl_stacks w), fb_state := FiberPending\<rparr>"])
       (simp_all add: withdraw_handle_def None unloaded_def finish_unload_sel scopes_shrink_def fiber_core_def)
next
  case (Some h)
  let ?v = "update_fiber x (\<lambda>b. b\<lparr>fb_handle := None\<rparr>) w"
  have v: "pl_fibers ?v = fmupd x ((fiber_at w x)\<lparr>fb_handle := None\<rparr>) (pl_fibers w)" by (simp add: update_fiber_def)
  show ?thesis
  proof (cases "case detached of None \<Rightarrow> False | Some d \<Rightarrow> same_publication d h")
    case True
    show ?thesis
      by (rule that [of "finish_unload x ?v" errors "(fiber_at w x)\<lparr>fb_handle := None, fb_dependency_epoch := None,
            fb_loading_binding := None, fb_effects := length (pl_stacks w), fb_state := FiberPending\<rparr>"])
         (simp_all add: withdraw_handle_def Some True Let_def unloaded_def finish_unload_sel v scopes_shrink_def fiber_core_def)
  next
    case False
    let ?p = "ctx_scope (fb_context (fiber_at w x))"
    obtain st r where sw: "scope_withdraw (pl_scopes w) ?p (handle_id h) (handle_generation h) = (st, r)"
      by (cases "scope_withdraw (pl_scopes w) ?p (handle_id h) (handle_generation h)")
    have shrink: "scopes_shrink (handle_id ` set_option (fb_handle (fiber_at w x))) (pl_scopes w) st"
      unfolding scopes_shrink_def using sw Some by (simp, metis fst_conv)
    have np: "r \<noteq> Inl ScopePanic" using scope_withdraw_no_panic [OF assms] sw by (metis snd_conv)
    show ?thesis
    proof (cases r)
      case (Inl e)
      have eq: "withdraw_handle x detached errors w =
          Some (update_fiber x (\<lambda>b. b\<lparr>fb_dependency_epoch := None, fb_state := FiberPending\<rparr>) (?v\<lparr>pl_scopes := st\<rparr>),
                errors @ [effect_error_from_scope e])"
        using np by (cases e) (simp_all add: withdraw_handle_def Some False Let_def scope_remove_local_eq sw Inl)
      show ?thesis
        by (rule that [OF eq, of "(fiber_at w x)\<lparr>fb_handle := None, fb_dependency_epoch := None, fb_state := FiberPending\<rparr>"])
           (use shrink Some in \<open>simp add: unloaded_def fiber_core_def\<close>, simp add: update_fiber_def fiber_at_def)
    next
      case (Inr a)
      have eq: "withdraw_handle x detached errors w = Some (finish_unload x (?v\<lparr>pl_scopes := st\<rparr>), errors)"
        by (simp add: withdraw_handle_def Some False Let_def scope_remove_local_eq sw Inr)
      show ?thesis
        by (rule that [OF eq, of "(fiber_at w x)\<lparr>fb_handle := None, fb_dependency_epoch := None,
              fb_loading_binding := None, fb_effects := length (pl_stacks w), fb_state := FiberPending\<rparr>"])
           (use shrink Some in \<open>simp add: unloaded_def finish_unload_sel v fiber_core_def\<close>)
    qed
  qed
qed

lemma unload_quiet:
  assumes quiet: "quiet_disposers env" and healthy: "\<not> sc_poisoned (pl_scopes w)"
  obtains w' es c where "unload env x detached w = Some (w', es)" "unloaded x w w' c"
proof -
  let ?v = "set_state x FiberUnloading w"
  have fv: "fiber_at ?v x = (fiber_at w x)\<lparr>fb_state := FiberUnloading\<rparr>" by (simp add: set_state_def)
  obtain u errors where u: "dispose_all env ?v (fb_effects (fiber_at ?v x)) = Some (u, errors)" "only_closes ?v u"
    using dispose_all_returns [OF quiet] .
  note us = only_closes_sel [OF u(2)]
  have "\<not> sc_poisoned (pl_scopes u)" using healthy by (simp add: us set_state_def)
  then obtain w' es c where w': "withdraw_handle x detached errors u = Some (w', es)" "unloaded x u w' c"
    using withdraw_handle_quiet by blast
  have "unloaded x w w' c"
    using w'(2) unfolding unloaded_def us fv
    by (simp add: set_state_def update_fiber_def fiber_core_def)
  then show ?thesis using that w'(1) u(1) by (simp add: unload_def Let_def)
qed

lemma unload_keep_quiet:
  assumes "quiet_disposers env" "\<not> sc_poisoned (pl_scopes w)"
  obtains w' c where "unload_keep env x detached w = Some w'" "unloaded x w w' c"
proof -
  obtain u es c where u: "unload env x detached w = Some (u, es)" "unloaded x w u c" using unload_quiet [OF assms] .
  have c: "fiber_at u x = c" using u(2) by (simp add: unloaded_def fiber_at_def)
  let ?w = "update_fiber x (\<lambda>b. b\<lparr>fb_cleanup_errors := es\<rparr>) u"
  have "unloaded x w ?w (c\<lparr>fb_cleanup_errors := es\<rparr>)"
    using u(2) by (simp add: unloaded_def fiber_core_def c) (simp add: update_fiber_def c)
  then show ?thesis using that u(1) by (simp add: unload_keep_def)
qed

lemma unloaded_ok:
  assumes "unloaded x w w' c" "plugins_ok w" "fmlookup (pl_fibers w) x = Some b"
  shows "plugins_ok w'" "fmlookup (pl_fibers w') x = Some c" "y \<noteq> x \<Longrightarrow> fmlookup (pl_fibers w') y = fmlookup (pl_fibers w) y"
    "sc_poisoned (pl_scopes w') = sc_poisoned (pl_scopes w)" "sc_next_entry_id (pl_scopes w') = sc_next_entry_id (pl_scopes w)"
proof -
  have shrink: "scopes_shrink (handle_id ` set_option (fb_handle (fiber_at w x))) (pl_scopes w) (pl_scopes w')"
    using assms(1) by (simp add: unloaded_def)
  show "plugins_ok w'"
    by (rule plugins_ok_update [OF assms(2,3) _ _ scopes_shrink_keeps(1) [OF shrink], of c])
       (use assms(1) in \<open>auto simp: unloaded_def gives_up_def\<close>)
  show "fmlookup (pl_fibers w') x = Some c" "y \<noteq> x \<Longrightarrow> fmlookup (pl_fibers w') y = fmlookup (pl_fibers w) y"
    using assms(1) by (simp_all add: unloaded_def)
  show "sc_poisoned (pl_scopes w') = sc_poisoned (pl_scopes w)" "sc_next_entry_id (pl_scopes w') = sc_next_entry_id (pl_scopes w)"
    using scopes_shrink_keeps(2,3) [OF shrink] by simp_all
qed

text \<open>
  One drive of a fiber with closures that only change the host's own state and the effects of
  the load: it ends after at most one unload and one load, and leaves the fiber stable.
\<close>

section \<open>Contexts and scopes\<close>

text \<open>A context is a chain of scopes that ends at the root.\<close>

fun context_wf :: "CapabilityContext \<Rightarrow> bool" where
  "context_wf (CapabilityContext p parent isolation intercepts) \<longleftrightarrow>
     (case parent of None \<Rightarrow> p = [] | Some ctx \<Rightarrow> p \<noteq> [] \<and> tl p = ctx_scope ctx \<and> context_wf ctx)"

lemma context_from_scope_wf: "context_wf (context_from_scope p) \<and> ctx_scope (context_from_scope p) = p"
  by (induction p) simp_all

lemma derived_context_wf:
  assumes "context_wf ctx" "derived_context st ctx isolation intercepts = (st', Some ctx')"
  shows "context_wf ctx'"
  using assms by (auto simp: derived_context_def scope_child_def Let_def split: if_splits prod.splits option.splits)

text \<open>The scope of a context sees what the context sees, or nothing.\<close>

lemma context_get_scope:
  assumes "context_wf ctx" "context_get st ctx i = Some h"
  shows "scope_get st (ctx_scope ctx) i = None \<or> scope_get st (ctx_scope ctx) i = Some h"
  using assms
proof (induction ctx)
  case (CapabilityContext p parent isolation intercepts)
  show ?case
  proof (cases "has_local_entry st p i")
    case True
    then show ?thesis using CapabilityContext.prems by simp
  next
    case False
    then obtain ctx where ctx: "parent = Some ctx" "context_get st ctx i = Some h"
      using CapabilityContext.prems(2) by (auto split: if_splits option.splits)
    then obtain k q where p: "p = k # q" "q = ctx_scope ctx" "context_wf ctx"
      using CapabilityContext.prems(1) by (cases p) auto
    have "fmlookup (ss_entries (scope_state st p)) i = None"
      using False by (auto simp: has_local_entry_def contains_key_def split: option.splits)
    then show ?thesis using CapabilityContext.IH [of ctx] ctx p by auto
  qed
qed

lemma context_resolve_Inr:
  "context_resolve_dependencies st ctx d = Inr ds \<longleftrightarrow>
     map fst ds = definition_requirements d \<and> (\<forall>(i, h)\<in>set ds. context_get st ctx i = Some h)"
proof -
  have "try_fold (\<lambda>hs i. case context_get st ctx i of None \<Rightarrow> Inl (ScopeMissingDependency (cd_id d) i)
        | Some h \<Rightarrow> Inr (hs @ [(i, h)])) acc is = Inr ds \<longleftrightarrow>
      (\<exists>new. ds = acc @ new \<and> map fst new = is \<and> (\<forall>(i, h)\<in>set new. context_get st ctx i = Some h))"
    for acc "is"
  proof (induction "is" arbitrary: acc)
    case (Cons i ids)
    show ?case
    proof (cases "context_get st ctx i")
      case None
      then show ?thesis by auto
    next
      case (Some h)
      have "(\<exists>new. ds = (acc @ [(i, h)]) @ new \<and> map fst new = ids \<and> (\<forall>(i, h)\<in>set new. context_get st ctx i = Some h))
          \<longleftrightarrow> (\<exists>new. ds = acc @ new \<and> map fst new = i # ids \<and> (\<forall>(i, h)\<in>set new. context_get st ctx i = Some h))"
        using Some by (auto simp: map_eq_Cons_conv)
      then show ?thesis using Some Cons.IH [of "acc @ [(i, h)]"] by simp
    qed
  qed auto
  from this [of "[]" "definition_requirements d"] show ?thesis by (simp add: context_resolve_dependencies_def)
qed

lemma context_resolve_Inl:
  assumes "context_resolve_dependencies st ctx d = Inl e"
  obtains i where "e = ScopeMissingDependency (cd_id d) i"
proof -
  from assms obtain s i where "(case context_get st ctx i of None \<Rightarrow> Inl (ScopeMissingDependency (cd_id d) i)
      | Some h \<Rightarrow> Inr (s @ [(i, h)])) = Inl e"
    unfolding context_resolve_dependencies_def
    by (rule try_fold_error [where P = "\<lambda>_. True", rotated 2, THEN exE]) auto
  then show ?thesis using that by (auto split: option.splits)
qed

lemma context_resolve_lookup:
  assumes "context_resolve_dependencies st ctx d = Inr ds" "i \<in> set (definition_requirements d)"
  obtains h where "dependencies_get ds i = Some h" "context_get st ctx i = Some h"
proof -
  have ds: "map fst ds = definition_requirements d" "\<forall>(i, h)\<in>set ds. context_get st ctx i = Some h"
    using assms(1) by (auto simp: context_resolve_Inr)
  then obtain h where h: "(i, h) \<in> set ds" using assms(2) by (metis (no_types, lifting) imageE list.set_map prod.collapse)
  have "distinct (map fst ds)" using ds(1) distinct_requirements by simp
  with h ds(2) that show ?thesis by (auto simp: dependencies_get_def)
qed

lemma context_resolve_held:
  assumes "handle_universe st H" "context_resolve_dependencies st ctx d = Inr ds"
  shows "held_dependencies H ds" "covers ds d"
proof -
  show "held_dependencies H ds"
    using assms context_get_universe [OF assms(1)] by (auto simp: held_dependencies_def context_resolve_Inr)
  have "map fst ds = definition_requirements d" using assms(2) by (simp add: context_resolve_Inr)
  then show "covers ds d" by (metis covers_def list.set_map subset_refl)
qed

section \<open>Publishing a loaded value\<close>

lemma admit_publication_changed:
  assumes "admit_publication st p d x ds = Inl (DependencyChanged c i)"
  obtains j cs where "j \<in> set (definition_requirements d)" "resolve_dependencies st p d = Inr cs"
    "check_same_dependency d ds cs () j = Inl (DependencyChanged c i)"
proof -
  let ?entries = "ss_entries (scope_state st p)"
  have sef: "scope_error_from e \<noteq> DependencyChanged c i" for e by (cases e) simp_all
  have rd: "resolve_dependencies st p d \<noteq> Inl (DependencyChanged c i)"
  proof
    assume "resolve_dependencies st p d = Inl (DependencyChanged c i)"
    then obtain s j where "(case scope_get st p j of None \<Rightarrow> Inl (ScopeMissingDependency (cd_id d) j)
        | Some h \<Rightarrow> Inr (s @ [(j, h)])) = Inl (DependencyChanged c i)"
      unfolding resolve_dependencies_def
      by (rule try_fold_error [where P = "\<lambda>_. True", rotated 2, THEN exE]) auto
    then show False by (auto split: option.splits)
  qed
  have va: "validate_descendant_admission st p d \<noteq> Inl (DependencyChanged c i)"
  proof
    assume "validate_descendant_admission st p d = Inl (DependencyChanged c i)"
    from check_fold_error [OF this [unfolded validate_descendant_admission_def]]
    obtain q where "(case validate_candidate (visible_graph st q) d of
        Inl e \<Rightarrow> Inl (scope_error_from e) | Inr _ \<Rightarrow> Inr ()) = Inl (DependencyChanged c i)"
      by (auto split: if_splits)
    then show False using sef by (cases "validate_candidate (visible_graph st q) d") auto
  qed
  have ce: "check_expectation_locked st p (cd_id d) x ?entries \<noteq> Inl (DependencyChanged c i)"
    by (auto simp: check_expectation_locked_def split: PublishExpectation.splits option.splits)
  have pg: "publish_generation (cd_id d) x ?entries \<noteq> Inl (DependencyChanged c i)"
    by (auto simp: publish_generation_def split: PublishExpectation.splits option.splits)
  obtain cs where cs: "resolve_dependencies st p d = Inr cs" using assms rd
    by (cases "resolve_dependencies st p d") (auto simp: admit_publication_def)
  have "try_fold (check_same_dependency d ds cs) () (definition_requirements d) = Inl (DependencyChanged c i)"
    using assms va ce pg sef unfolding admit_publication_def Let_def cs by (auto split: sum.splits)
  from check_fold_error [OF this] cs that show ?thesis by blast
qed

text \<open>
  A value built from the dependencies that the context resolves now: its publication succeeds
  or is rejected for a reason other than a changed dependency.
\<close>

lemma provide_value_now:
  assumes u: "handle_universe st H" and wf: "context_wf ctx" and healthy: "\<not> sc_poisoned st" "sc_next_entry_id st \<noteq> u64_max"
    and ds: "context_resolve_dependencies st ctx d = Inr ds"
    and pv: "scope_provide_value st (ctx_scope ctx) d ds v = (st', r)"
  shows "\<exists>e. r = Inl e \<and> st' = st \<and> e \<noteq> ScopePanic \<and> (\<forall>c i. e \<noteq> DependencyChanged c i)
    \<or> (\<exists>h. r = Inr h \<and> publish_preconstructed st (ctx_scope ctx) d PublishNew ds v = (st', Inr h))"
proof -
  let ?p = "ctx_scope ctx"
  note held = context_resolve_held [OF u ds]
  have same: "\<exists>h. dependencies_get ds i = Some h \<and> (scope_get st ?p i = None \<or> scope_get st ?p i = Some h)"
    if i: "i \<in> set (definition_requirements d)" for i
    using context_resolve_lookup [OF ds i] context_get_scope [OF wf] by metis
  show ?thesis
  proof (cases "try_fold (check_current_dependency st ?p d ds) () (definition_requirements d)")
    case (Inl e)
    from check_fold_error [OF Inl] obtain i where i: "i \<in> set (definition_requirements d)"
        "check_current_dependency st ?p d ds () i = Inl e" by blast
    then have "e = ScopeMissingDependency (cd_id d) i"
      using same [OF i(1)] by (auto simp: check_current_dependency_def)
    then show ?thesis using pv by (auto simp: scope_provide_value_def Inl)
  next
    case (Inr a)
    then have pub: "publish_preconstructed st ?p d PublishNew ds v = (st', r)"
      using pv by (simp add: scope_provide_value_def)
    show ?thesis
    proof (cases r)
      case (Inl e)
      note e = publish_Inl [OF pub [unfolded Inl]]
      have np: "e \<noteq> ScopePanic" using e(2) healthy admit_publication_no_panic [OF u held(2)] by blast
      have "e \<noteq> DependencyChanged c i" for c i
      proof
        assume dc: "e = DependencyChanged c i"
        then have "admit_publication st ?p d PublishNew ds = Inl (DependencyChanged c i)"
          using pub Inl healthy
          by (auto simp: publish_preconstructed_def Let_def split: sum.splits option.splits prod.splits)
        then obtain j cs where j: "j \<in> set (definition_requirements d)" "resolve_dependencies st ?p d = Inr cs"
            "check_same_dependency d ds cs () j = Inl (DependencyChanged c i)"
          by (rule admit_publication_changed)
        obtain h where h: "dependencies_get cs j = Some h" "scope_get st ?p j = Some h"
          using resolved_lookup [OF j(2,1)] by blast
        then show False using j(3) same [OF j(1)] by (auto simp: check_same_dependency_def)
      qed
      then show ?thesis using Inl e(3) [OF np] np by blast
    next
      case (Inr h)
      then show ?thesis using pub by blast
    qed
  qed
qed

text \<open>Publishing does not change what the publication itself depends on.\<close>

lemma resolvable_irreflexive:
  assumes "resolvable \<lparr>cg_definitions = fmupd (cd_id d) d m\<rparr>"
  shows "cd_id d \<notin> set (definition_requirements d)"
proof
  assume r: "cd_id d \<in> set (definition_requirements d)"
  let ?g = "\<lparr>cg_definitions = fmupd (cd_id d) d m\<rparr>"
  have "cd_id d \<in> set (requirements ?g (cd_id d))"
    using r by (simp add: requirements_eq requirements_of_def)
  then have "(cd_id d, cd_id d) \<in> edges_of (requirements ?g)" by (simp add: edges_of_def)
  moreover have "acyclic (edges_of (requirements ?g))" using assms by (simp only: resolvable_def)
  ultimately show False unfolding acyclic_def by (meson r_into_trancl)
qed

lemma publish_other_lookup:
  assumes "publish_preconstructed st p d x ds v = (st', Inr h)" "i \<noteq> cd_id d"
  shows "has_local_entry st' q i = has_local_entry st q i" "scope_get st' q i = scope_get st q i"
proof -
  note st' = publish_Inr(6) [OF assms(1)]
  have l: "fmlookup (ss_entries (scope_state st' q)) i = fmlookup (ss_entries (scope_state st q)) i"
    "scope_is_open st' q = scope_is_open st q" for q
    by (subst st'; simp add: assms(2) assms(2) [symmetric] scope_is_open_def)+
  show "has_local_entry st' q i = has_local_entry st q i" by (simp add: has_local_entry_def contains_key_def l)
  show "scope_get st' q i = scope_get st q i" by (induction q) (simp_all add: l split: option.split)
qed

lemma context_get_publish:
  assumes "publish_preconstructed st p d x ds v = (st', Inr h)" "i \<noteq> cd_id d"
  shows "context_get st' ctx i = context_get st ctx i"
proof (induction ctx)
  case (CapabilityContext p parent isolation intercepts)
  then show ?case using publish_other_lookup [OF assms] by (auto split: option.split)
qed

lemma resolve_after_publish:
  assumes u: "handle_universe st H" and held: "held_dependencies H ds"
    and pub: "publish_preconstructed st p d x ds v = (st', Inr h)"
  shows "context_resolve_dependencies st' ctx d = context_resolve_dependencies st ctx d"
proof -
  have "cd_id d \<notin> set (definition_requirements d)"
    using admit_publication_Inr(4) [OF u held publish_Inr(2) [OF pub]] by (rule resolvable_irreflexive)
  then show ?thesis unfolding context_resolve_dependencies_def
    by (intro try_fold_cong refl) (use context_get_publish [OF pub] in metis)
qed

end
