(* ===== verification/Plugin_Settle.thy ===== *)
theory Plugin_Settle
  imports Plugin_Drive
begin

text \<open>
  A drive ends and leaves its fiber settled: active on the publications its context resolves
  now, pending because a requirement is missing, or failed.
\<close>

section \<open>Settled fibers\<close>

definition quiet_loads :: "('v, 'd, 'f, 'h) plugin_env \<Rightarrow> bool" where
  "quiet_loads env \<longleftrightarrow>
     (\<forall>f c w. \<exists>h k. fst (pe_load env f c w) = w\<lparr>pl_host := h, pl_stacks := (pl_stacks w)[lc_effects c := k]\<rparr>)"

text \<open>
  Closures that change the host's own state, a factory also the effects of its own load: no
  other task runs at their await points.
\<close>

definition quiet :: "('v, 'd, 'f, 'h) plugin_env \<Rightarrow> bool" where
  "quiet env \<longleftrightarrow> quiet_disposers env \<and> quiet_loads env"

definition settled :: "('v, 'd, 'f, 'h) plugins \<Rightarrow> FiberId \<Rightarrow> FiberError + FiberState \<Rightarrow> bool" where
  "settled w x r \<longleftrightarrow>
     (let b = fiber_at w x in
      (case r of
         Inr s \<Rightarrow> fb_state b = s \<and>
           (s = FiberActive \<and> fb_handle b \<noteq> None \<and> current_binding w b \<noteq> None \<and> current_binding w b = dependency_binding b \<or>
            s = FiberPending \<and> fb_handle b = None \<and> current_binding w b = None)
       | Inl e \<Rightarrow> fb_state b = FiberFailed \<and> fb_handle b = None \<and>
           ((\<exists>se. e = FiberScope se) \<or> (\<exists>reason es. e = InitializationFailed (plugin_id b) reason es))))"

lemma settled_stable: "settled w x r \<Longrightarrow> \<not> needs_reconciliation w x"
  by (auto simp: settled_def needs_reconciliation_def Let_def split: sum.splits)

text \<open>What a transition of a fiber leaves of the rest of the world.\<close>

definition transition_of :: "FiberId \<Rightarrow> ('v, 'd, 'f, 'h) plugins \<Rightarrow> ('v, 'd, 'f, 'h) plugins \<Rightarrow> bool" where
  "transition_of x w w' \<longleftrightarrow>
     (\<exists>b c. fmlookup (pl_fibers w) x = Some b \<and> pl_fibers w' = fmupd x c (pl_fibers w) \<and> fiber_core c = fiber_core b) \<and>
     pl_runtimes w' = pl_runtimes w \<and> pl_next_fiber w' = pl_next_fiber w \<and>
     sc_poisoned (pl_scopes w') = sc_poisoned (pl_scopes w)"

lemma transition_of_trans:
  assumes "transition_of x u v" "transition_of x v w"
  shows "transition_of x u w"
  using assms unfolding transition_of_def by auto

lemma transition_of_refl: "fmlookup (pl_fibers w) x = Some b \<Longrightarrow> transition_of x w w"
  unfolding transition_of_def by (auto intro!: exI [of _ b] fmap_ext)

lemma transition_of_other: "transition_of x w w' \<Longrightarrow> y \<noteq> x \<Longrightarrow> fmlookup (pl_fibers w') y = fmlookup (pl_fibers w) y"
  unfolding transition_of_def by auto

lemma transition_of_update:
  assumes "fmlookup (pl_fibers w) x = Some b" "fiber_core (f b) = fiber_core b"
  shows "transition_of x w (update_fiber x f w)"
  unfolding transition_of_def using assms
  by (intro conjI exI [of _ b] exI [of _ "f b"]) (simp_all add: update_fiber_def fiber_at_def)

lemma plugins_ok_change:
  assumes "plugins_ok w" "fmlookup (pl_fibers w) x = Some b" "gives_up b (f b)"
  shows "plugins_ok (update_fiber x f w)"
  by (rule plugins_ok_update [OF assms(1,2) _ assms(3)])
     (simp_all add: update_fiber_def fiber_at_lookup [OF assms(2)])

lemma plugins_ok_frame:
  assumes "plugins_ok w" "pl_fibers w' = pl_fibers w" "pl_scopes w' = pl_scopes w"
  shows "plugins_ok w'"
  using assms unfolding plugins_ok_def by simp

lemma unloaded_transition:
  assumes "unloaded x w w' c" "fmlookup (pl_fibers w) x = Some b"
  shows "transition_of x w w'"
proof -
  have "scopes_shrink (handle_id ` set_option (fb_handle (fiber_at w x))) (pl_scopes w) (pl_scopes w')"
    using assms(1) by (simp add: unloaded_def)
  from scopes_shrink_keeps(2) [OF this] show ?thesis
    using assms by (auto simp: transition_of_def unloaded_def fiber_at_def)
qed

section \<open>A load\<close>

lemma publish_ok:
  assumes ok: "plugins_ok w" and b: "fmlookup (pl_fibers w) x = Some b"
    and ds: "held_dependencies H ds" "covers ds (pd_capability (fb_definition b))"
    and u: "handle_universe (pl_scopes w) H" "\<forall>x b. fmlookup (pl_fibers w) x = Some b \<longrightarrow> fiber_ok H b"
    and pub: "publish_preconstructed (pl_scopes w) p (pd_capability (fb_definition b)) PublishNew ds v = (st, Inr h)"
    and w': "pl_scopes w' = st" "pl_fibers w' = fmupd x c (pl_fibers w)"
    and c: "fb_handle c = Some h" "fb_state c = FiberActive" "fb_definition c = fb_definition b"
      "dependency_binding c = Some (binding_from_dependencies ds)"
  shows "plugins_ok w'"
proof -
  note new = universe_publish [OF u(1) ds pub]
  note hh = publish_Inr(3) [OF pub]
  have h: "handle_definition h = pd_capability (fb_definition b)" "handle_dependencies h = ds"
    by (subst hh; simp add: handle_dependencies_def)+
  have irr: "handle_id h \<notin> set (definition_requirements (pd_capability (fb_definition b)))"
    unfolding handle_id_def h(1)
    using admit_publication_Inr(4) [OF u(1) ds(1) publish_Inr(2) [OF pub]] by (rule resolvable_irreflexive)
  have fresh: "fb_handle d \<noteq> Some h" if "fmlookup (pl_fibers w) y = Some d" for y d
  proof
    assume d: "fb_handle d = Some h"
    have "fiber_ok H d" using u(2) that by blast
    then have "h \<in> H" using d by (simp add: fiber_ok_def)
    then show False using new(2) by blast
  qed
  have ok': "fiber_ok (insert h H) d" if "fmlookup (pl_fibers w') y = Some d" for y d
  proof (cases "y = x")
    case True
    then show ?thesis using that c h irr by (simp add: w'(2) fiber_ok_def)
  next
    case False
    then have "fiber_ok H d" using that u(2) by (simp add: w'(2))
    then show ?thesis by (auto simp: fiber_ok_def split: option.splits)
  qed
  moreover have "y = z" if "fmlookup (pl_fibers w') y = Some d" "fmlookup (pl_fibers w') z = Some e"
      "fb_handle d = Some k" "fb_handle e = Some k" for y z d e k
    using that fresh c(1) plugins_ok_owner [OF ok, of y d z e k] unfolding w'(2) by (auto split: if_splits)
  ultimately show ?thesis unfolding plugins_ok_def w'(1) using new(1) by blast
qed

lemma resolved_for_frame:
  assumes "pl_scopes w' = pl_scopes w" "fb_context b' = fb_context b" "fb_definition b' = fb_definition b"
  shows "resolved_for w' b' = resolved_for w b" "current_binding w' b' = current_binding w b"
  using assms by (simp_all add: resolved_for_def current_binding_def)

lemma abandon_load_quiet:
  assumes quiet: "quiet_disposers env" and b: "fmlookup (pl_fibers w) x = Some b"
  obtains w' errors where "abandon_load env x k w = Some (w', errors)" "pl_scopes w' = pl_scopes w"
    "pl_runtimes w' = pl_runtimes w" "pl_next_fiber w' = pl_next_fiber w"
    "pl_fibers w' = fmupd x (b\<lparr>fb_loading_binding := None, fb_cleanup_errors := errors\<rparr>) (pl_fibers w)"
proof -
  obtain u errors where u: "dispose_all env w k = Some (u, errors)" "only_closes w u"
    using dispose_all_returns [OF quiet] .
  note us = only_closes_sel [OF u(2)]
  show ?thesis
    by (rule that [of "update_fiber x (\<lambda>b. b\<lparr>fb_loading_binding := None, fb_cleanup_errors := errors\<rparr>) u" errors])
       (simp_all add: abandon_load_def u(1) us update_fiber_def fiber_at_lookup [OF b] us(2) fiber_at_def b)
qed

lemma load_failed:
  assumes quiet: "quiet_disposers env" and b: "fmlookup (pl_fibers w) x = Some b" and ok: "plugins_ok w"
    and nohandle: "fb_handle b = None"
  obtains u es where "abandon_load env x k w = Some (u, es)"
    "transition_of x w (update_fiber x (\<lambda>b. b\<lparr>fb_error := Some reason, fb_state := FiberFailed\<rparr>) u)"
    "plugins_ok (update_fiber x (\<lambda>b. b\<lparr>fb_error := Some reason, fb_state := FiberFailed\<rparr>) u)"
    "fb_handle (fiber_at u x) = None" "fb_definition (fiber_at u x) = fb_definition b"
proof -
  obtain u es where u: "abandon_load env x k w = Some (u, es)" "pl_scopes u = pl_scopes w"
      "pl_runtimes u = pl_runtimes w" "pl_next_fiber u = pl_next_fiber w"
      "pl_fibers u = fmupd x (b\<lparr>fb_loading_binding := None, fb_cleanup_errors := es\<rparr>) (pl_fibers w)"
    using abandon_load_quiet [OF quiet b] .
  have l: "fmlookup (pl_fibers u) x = Some (b\<lparr>fb_loading_binding := None, fb_cleanup_errors := es\<rparr>)" by (simp add: u(5))
  have tu: "transition_of x w u" unfolding transition_of_def u(2-5) using b by (auto simp: fiber_core_def)
  have "gives_up b (b\<lparr>fb_loading_binding := None, fb_cleanup_errors := es\<rparr>)"
    by (simp add: gives_up_def nohandle dependency_binding_def)
  then have oku: "plugins_ok u" by (rule plugins_ok_update [OF ok b u(5)]) (simp add: u(2))
  show ?thesis
  proof (rule that [OF u(1)])
    show "transition_of x w (update_fiber x (\<lambda>b. b\<lparr>fb_error := Some reason, fb_state := FiberFailed\<rparr>) u)"
      by (rule transition_of_trans [OF tu transition_of_update [OF l]]) (simp add: fiber_core_def)
    show "plugins_ok (update_fiber x (\<lambda>b. b\<lparr>fb_error := Some reason, fb_state := FiberFailed\<rparr>) u)"
      by (rule plugins_ok_change [OF oku l]) (simp add: gives_up_def nohandle)
  qed (simp_all add: fiber_at_lookup [OF l] nohandle)
qed

text \<open>The world in which the factory has returned.\<close>

lemma drive_load_called:
  assumes quiet: "quiet_loads env" and b: "fmlookup (pl_fibers w) x = Some b"
  obtains w2 result where
    "pe_load env (pd_factory (fb_definition (fiber_at (begin_load x epoch w) x)))
       (load_context (begin_load x epoch w) x ds) (begin_load x epoch w) = (w2, result)"
    "pl_scopes w2 = pl_scopes w" "pl_runtimes w2 = pl_runtimes w" "pl_next_fiber w2 = pl_next_fiber w"
    "fb_effects (fiber_at (begin_load x epoch w) x) = length (pl_stacks w)"
    "pl_fibers w2 = fmupd x (b\<lparr>fb_state := FiberLoading, fb_effects := length (pl_stacks w), fb_error := None,
       fb_loading_binding := Some (de_binding epoch)\<rparr>) (pl_fibers w)"
proof -
  let ?w1 = "begin_load x epoch w"
  have w1: "pl_scopes ?w1 = pl_scopes w" "pl_runtimes ?w1 = pl_runtimes w" "pl_next_fiber ?w1 = pl_next_fiber w"
      "pl_fibers ?w1 = fmupd x (b\<lparr>fb_state := FiberLoading, fb_effects := length (pl_stacks w), fb_error := None,
         fb_loading_binding := Some (de_binding epoch)\<rparr>) (pl_fibers w)"
      "fb_effects (fiber_at ?w1 x) = length (pl_stacks w)"
    by (simp_all add: begin_load_def effect_scope_new_def) (simp add: update_fiber_def fiber_at_def b)
  let ?f = "pd_factory (fb_definition (fiber_at ?w1 x))"
  obtain w2 result where l: "pe_load env ?f (load_context ?w1 x ds) ?w1 = (w2, result)"
    by (cases "pe_load env ?f (load_context ?w1 x ds) ?w1")
  obtain h k where hk: "fst (pe_load env ?f (load_context ?w1 x ds) ?w1) =
      ?w1\<lparr>pl_host := h, pl_stacks := (pl_stacks ?w1)[lc_effects (load_context ?w1 x ds) := k]\<rparr>"
    using quiet unfolding quiet_loads_def by blast
  have "w2 = ?w1\<lparr>pl_host := h, pl_stacks := (pl_stacks ?w1)[lc_effects (load_context ?w1 x ds) := k]\<rparr>"
    using hk l by simp
  with that [OF l] w1 show ?thesis by simp
qed

lemma drive_load_quiet:
  assumes quiet: "quiet env" and b: "fmlookup (pl_fibers w) x = Some b" and ok: "plugins_ok w"
    and healthy: "\<not> sc_poisoned (pl_scopes w)" "sc_next_entry_id (pl_scopes w) \<noteq> u64_max"
    and wf: "context_wf (fb_context b)" and flags: "\<not> fb_dispose_requested b" "\<not> fb_force_reload b"
    and inactive: "fb_state b \<noteq> FiberActive"
    and ds: "resolved_for w b = Inr ds" and epoch: "epoch = epoch_from_dependencies t ds"
  obtains w' r where "drive_load env x ds epoch w = Some (w', Some r)" "transition_of x w w'" "plugins_ok w'" "settled w' x r"
proof -
  let ?b2 = "b\<lparr>fb_state := FiberLoading, fb_effects := length (pl_stacks w), fb_error := None,
       fb_loading_binding := Some (de_binding epoch)\<rparr>"
  obtain w2 result where w2:
      "pe_load env (pd_factory (fb_definition (fiber_at (begin_load x epoch w) x)))
         (load_context (begin_load x epoch w) x ds) (begin_load x epoch w) = (w2, result)"
      "pl_scopes w2 = pl_scopes w" "pl_runtimes w2 = pl_runtimes w" "pl_next_fiber w2 = pl_next_fiber w"
      "fb_effects (fiber_at (begin_load x epoch w) x) = length (pl_stacks w)" "pl_fibers w2 = fmupd x ?b2 (pl_fibers w)"
    using drive_load_called [OF _ b, of env epoch ds] quiet unfolding quiet_def by blast
  have l2: "fmlookup (pl_fibers w2) x = Some ?b2" using w2(6) by simp
  have f2: "fiber_at w2 x = ?b2" by (rule fiber_at_lookup [OF l2])
  obtain H where u: "handle_universe (pl_scopes w) H" "\<forall>x b. fmlookup (pl_fibers w) x = Some b \<longrightarrow> fiber_ok H b"
    using ok by (rule plugins_okE)
  have "fiber_ok H b" using u(2) b by blast
  then have nohandle: "fb_handle b = None" using inactive by (simp add: fiber_ok_def split: option.splits)
  have cds: "context_resolve_dependencies (pl_scopes w) (fb_context b) (pd_capability (fb_definition b)) = Inr ds"
    using ds by (simp add: resolved_for_def)
  note held = context_resolve_held [OF u(1) cds]
  have bind: "current_binding w b = Some (binding_from_dependencies ds)" by (simp add: current_binding_def ds)
  have ok2: "plugins_ok w2"
    by (rule plugins_ok_update [OF ok b w2(6)]) (simp_all add: gives_up_def nohandle w2(2))
  have fresh: "\<not> load_is_stale w2 x epoch"
    using flags bind resolved_for_frame(2) [of w2 w ?b2 b] w2(2)
    by (simp add: load_is_stale_def f2 Let_def epoch epoch_from_dependencies_def)
  have dl: "drive_load env x ds epoch w =
      (case result of
         Inr v \<Rightarrow>
           (case scope_provide_value (pl_scopes w) (ctx_scope (fb_context b)) (pd_capability (fb_definition b)) ds v of
              (st, Inr h) \<Rightarrow> Some (publish_loaded x ds h (w2\<lparr>pl_scopes := st\<rparr>), Some (Inr FiberActive))
            | (st, Inl ScopePanic) \<Rightarrow> None
            | (st, Inl (DependencyChanged c i)) \<Rightarrow>
                Option.bind (abandon_load env x (length (pl_stacks w)) (w2\<lparr>pl_scopes := st\<rparr>))
                  (\<lambda>(w, _). Some (set_state x FiberPending w, None))
            | (st, Inl e) \<Rightarrow>
                Option.bind (abandon_load env x (length (pl_stacks w)) (w2\<lparr>pl_scopes := st\<rparr>))
                  (\<lambda>(w, _). Some (update_fiber x (\<lambda>b. b\<lparr>fb_error := Some (scope_error_text e), fb_state := FiberFailed\<rparr>) w,
                                  Some (Inl (FiberScope e)))))
       | Inl reason \<Rightarrow>
           Option.bind (abandon_load env x (length (pl_stacks w)) w2)
             (\<lambda>(w, errors).
                Some (update_fiber x (\<lambda>b. b\<lparr>fb_error := Some reason, fb_state := FiberFailed\<rparr>) w,
                      Some (Inl (InitializationFailed (plugin_id (fiber_at w x)) reason errors)))))"
    unfolding drive_load_def Let_def w2(1) prod.case w2(5) using fresh by (cases result) (simp_all add: f2 w2(2))
  have qd: "quiet_disposers env" using quiet by (simp add: quiet_def)
  have nh2: "fb_handle ?b2 = None" by (simp add: nohandle)
  have t2: "transition_of x w w2" unfolding transition_of_def w2(2-4,6) using b by (auto simp: fiber_core_def)
  show ?thesis
  proof (cases result)
    case (Inl reason)
    obtain u es where u: "abandon_load env x (length (pl_stacks w)) w2 = Some (u, es)"
        "transition_of x w2 (update_fiber x (\<lambda>b. b\<lparr>fb_error := Some reason, fb_state := FiberFailed\<rparr>) u)"
        "plugins_ok (update_fiber x (\<lambda>b. b\<lparr>fb_error := Some reason, fb_state := FiberFailed\<rparr>) u)"
        "fb_handle (fiber_at u x) = None"
      using load_failed [OF qd l2 ok2 nh2] by blast
    show ?thesis
      by (rule that [OF _ transition_of_trans [OF t2 u(2)] u(3)])
         (simp add: dl Inl u(1), simp add: settled_def u(4) plugin_id_def Let_def)
  next
    case (Inr v)
    obtain st r where pv: "scope_provide_value (pl_scopes w) (ctx_scope (fb_context b)) (pd_capability (fb_definition b)) ds v = (st, r)"
      by (cases "scope_provide_value (pl_scopes w) (ctx_scope (fb_context b)) (pd_capability (fb_definition b)) ds v")
    show ?thesis
    proof (cases r)
      case (Inl e)
      then have e: "st = pl_scopes w" "e \<noteq> ScopePanic" "\<forall>c i. e \<noteq> DependencyChanged c i"
        using provide_value_now [OF u(1) wf healthy cds pv] by auto
      have "w2\<lparr>pl_scopes := st\<rparr> = w2" using e(1) w2(2) by simp
      obtain v es where v: "abandon_load env x (length (pl_stacks w)) w2 = Some (v, es)"
          "transition_of x w2 (update_fiber x (\<lambda>b. b\<lparr>fb_error := Some (scope_error_text e), fb_state := FiberFailed\<rparr>) v)"
          "plugins_ok (update_fiber x (\<lambda>b. b\<lparr>fb_error := Some (scope_error_text e), fb_state := FiberFailed\<rparr>) v)"
          "fb_handle (fiber_at v x) = None"
        using load_failed [OF qd l2 ok2 nh2] by blast
      have "drive_load env x ds epoch w =
          Some (update_fiber x (\<lambda>b. b\<lparr>fb_error := Some (scope_error_text e), fb_state := FiberFailed\<rparr>) v, Some (Inl (FiberScope e)))"
        unfolding dl Inr sum.case pv Inl prod.case \<open>w2\<lparr>pl_scopes := st\<rparr> = w2\<close> v(1)
        using e(2,3) by (cases e) auto
      from that [OF this transition_of_trans [OF t2 v(2)] v(3)] show ?thesis
        by (simp add: settled_def v(4) Let_def)
    next
      case Ok: (Inr h)
      then have pub: "publish_preconstructed (pl_scopes w) (ctx_scope (fb_context b)) (pd_capability (fb_definition b)) PublishNew ds v = (st, Inr h)"
        using provide_value_now [OF u(1) wf healthy cds pv] by auto
      let ?w3 = "publish_loaded x ds h (w2\<lparr>pl_scopes := st\<rparr>)"
      let ?b3 = "?b2\<lparr>fb_handle := Some h, fb_dependency_epoch := Some (epoch_from_dependencies (fb_requested_epoch b) ds),
          fb_loading_binding := None, fb_state := FiberActive\<rparr>"
      have w3: "pl_fibers ?w3 = fmupd x ?b3 (pl_fibers w)" "pl_scopes ?w3 = st"
        by (simp_all add: publish_loaded_def) (simp add: update_fiber_def f2 w2(6))
      have f3: "fiber_at ?w3 x = ?b3" by (simp add: fiber_at_def w3)
      have ok3: "plugins_ok ?w3"
        by (rule publish_ok [OF ok b held u pub w3(2,1)])
           (simp_all add: dependency_binding_def epoch_from_dependencies_def)
      have same: "resolved_for ?w3 ?b3 = Inr ds"
        using cds resolve_after_publish [OF u(1) held(1) pub] by (simp add: resolved_for_def w3(2))
      have "transition_of x w ?w3"
        unfolding transition_of_def w3 using b publish_Inr(1,5) [OF pub]
        by (auto simp: fiber_core_def publish_loaded_def w2(3,4))
      moreover have "current_binding ?w3 ?b3 = Some (binding_from_dependencies ds)" unfolding current_binding_def same by simp
      moreover have "dependency_binding ?b3 = Some (binding_from_dependencies ds)"
        by (simp add: dependency_binding_def epoch_from_dependencies_def)
      ultimately have "transition_of x w ?w3" "settled ?w3 x (Inr FiberActive)" unfolding settled_def Let_def f3 by simp_all
      from that [OF _ this(1) ok3 this(2)] show ?thesis by (simp add: dl Inr pv Ok)
    qed
  qed
qed

section \<open>A drive\<close>

lemma withdraw_other_lookup:
  assumes "j \<noteq> i"
  shows "has_local_entry (fst (scope_withdraw st p i g)) q j = has_local_entry st q j"
    "scope_get (fst (scope_withdraw st p i g)) q j = scope_get st q j"
proof -
  let ?st = "fst (scope_withdraw st p i g)"
  have l: "fmlookup (ss_entries (scope_state ?st q)) j = fmlookup (ss_entries (scope_state st q)) j"
    "scope_is_open ?st q = scope_is_open st q" for q
    using assms by (simp_all add: scope_withdraw_def Let_def scope_is_open_def split: option.split)
  show "has_local_entry ?st q j = has_local_entry st q j" by (simp add: has_local_entry_def contains_key_def l)
  show "scope_get ?st q j = scope_get st q j" by (induction q) (simp_all add: l split: option.split)
qed

lemma context_resolve_shrink:
  assumes "scopes_shrink I st st'" "\<And>i. i \<in> I \<Longrightarrow> i \<notin> set (definition_requirements d)"
  shows "context_resolve_dependencies st' ctx d = context_resolve_dependencies st ctx d"
proof -
  have "context_get st' ctx j = context_get st ctx j" if "j \<in> set (definition_requirements d)" for j
  proof (cases "st' = st")
    case False
    then obtain p i g where i: "i \<in> I" "st' = fst (scope_withdraw st p i g)" using assms(1) unfolding scopes_shrink_def by blast
    have ji: "j \<noteq> i" using i(1) that assms(2) by blast
    show ?thesis unfolding i(2)
    proof (induction ctx)
      case (CapabilityContext p parent isolation intercepts)
      then show ?case by (simp add: withdraw_other_lookup [OF ji] split: option.split)
    qed
  qed simp
  then show ?thesis unfolding context_resolve_dependencies_def
    by (intro try_fold_cong refl) metis
qed

text \<open>An unload does not change what its fiber resolves.\<close>

lemma unloaded_resolved:
  assumes un: "unloaded x w w' c" and ok: "plugins_ok w" and b: "fmlookup (pl_fibers w) x = Some b"
  shows "resolved_for w' c = resolved_for w b"
proof -
  have fb: "fiber_at w x = b" using b by (rule fiber_at_lookup)
  have shrink: "scopes_shrink (handle_id ` set_option (fb_handle b)) (pl_scopes w) (pl_scopes w')"
    and core: "fiber_core c = fiber_core b"
    using un by (simp_all add: unloaded_def fb)
  obtain H where "handle_universe (pl_scopes w) H" "\<forall>x b. fmlookup (pl_fibers w) x = Some b \<longrightarrow> fiber_ok H b"
    using ok by (rule plugins_okE)
  then have "fiber_ok H b" using b by blast
  then have "i \<notin> set (definition_requirements (pd_capability (fb_definition b)))"
    if "i \<in> handle_id ` set_option (fb_handle b)" for i
    using that by (auto simp: fiber_ok_def split: option.splits)
  from context_resolve_shrink [OF shrink this] core show ?thesis
    by (simp add: resolved_for_def fiber_core_def)
qed

text \<open>What a drive needs of its fiber and the scope tree.\<close>

definition drivable :: "('v, 'd, 'f, 'h) plugins \<Rightarrow> FiberId \<Rightarrow> ('v, 'f) CapabilityFiber \<Rightarrow> bool" where
  "drivable w x b \<longleftrightarrow>
     fmlookup (pl_fibers w) x = Some b \<and> plugins_ok w \<and> context_wf (fb_context b) \<and> \<not> fb_dispose_requested b \<and>
     \<not> sc_poisoned (pl_scopes w) \<and> sc_next_entry_id (pl_scopes w) \<noteq> u64_max"

lemma unloaded_drivable:
  assumes un: "unloaded x w w' c" and d: "drivable w x b"
  shows "drivable w' x c" "fb_force_reload c = fb_force_reload b"
proof -
  have b: "fmlookup (pl_fibers w) x = Some b" and ok: "plugins_ok w" using d by (simp_all add: drivable_def)
  have core: "fiber_core c = fiber_core b" using un by (simp add: unloaded_def fiber_at_lookup [OF b])
  show "drivable w' x c"
    using unloaded_ok [OF un ok b] d core by (simp add: drivable_def fiber_core_def)
  show "fb_force_reload c = fb_force_reload b" using un by (simp add: unloaded_def fiber_at_lookup [OF b])
qed

lemma drive_turn_missing:
  assumes quiet: "quiet env" and d: "drivable w x b" and missing: "resolved_for w b = Inl e"
  obtains w' where "drive_turn env x force w = Some (w', Some (Inr FiberPending))"
    "transition_of x w w'" "plugins_ok w'" "settled w' x (Inr FiberPending)"
proof -
  have b: "fmlookup (pl_fibers w) x = Some b" and ok: "plugins_ok w" and hs: "\<not> sc_poisoned (pl_scopes w)"
    using d by (simp_all add: drivable_def)
  obtain i where e: "e = ScopeMissingDependency (cd_id (pd_capability (fb_definition b))) i"
    using missing unfolding resolved_for_def by (rule context_resolve_Inl)
  have qd: "quiet_disposers env" using quiet by (simp add: quiet_def)
  have "\<exists>v c. clear_active_state env x w = Some v \<and> transition_of x w v \<and> plugins_ok v \<and> fmlookup (pl_fibers v) x = Some c \<and>
      fb_handle c = None \<and> resolved_for v c = Inl e"
  proof (cases "fb_state b = FiberActive")
    case True
    obtain v c where v: "unload_keep env x None w = Some v" "unloaded x w v c" using unload_keep_quiet [OF qd hs] .
    then show ?thesis
      using unloaded_ok [OF v(2) ok b] unloaded_transition [OF v(2) b] unloaded_resolved [OF v(2) ok b] missing True
      by (auto simp: clear_active_state_def fiber_at_lookup [OF b] unloaded_def)
  next
    case False
    obtain H where "handle_universe (pl_scopes w) H" "\<forall>x b. fmlookup (pl_fibers w) x = Some b \<longrightarrow> fiber_ok H b"
      using ok by (rule plugins_okE)
    then have "fiber_ok H b" using b by blast
    then have "fb_handle b = None" using False by (simp add: fiber_ok_def split: option.splits)
    then show ?thesis using False transition_of_refl [OF b] ok b missing
      by (auto simp: clear_active_state_def fiber_at_lookup [OF b])
  qed
  then obtain v c where v: "clear_active_state env x w = Some v" "transition_of x w v" "plugins_ok v"
      "fmlookup (pl_fibers v) x = Some c" "fb_handle c = None" "resolved_for v c = Inl e"
    by blast
  let ?w = "set_state x FiberPending v"
  have res: "resolved_for ?w (c\<lparr>fb_state := FiberPending\<rparr>) = Inl e"
    using v(6) by (simp add: resolved_for_def set_state_def)
  show ?thesis
  proof (rule that [of ?w])
    show "drive_turn env x force w = Some (?w, Some (Inr FiberPending))"
      by (simp add: drive_turn_def Let_def fiber_at_lookup [OF b] missing e v(1))
    show "transition_of x w ?w" unfolding set_state_def
      by (rule transition_of_trans [OF v(2) transition_of_update [OF v(4)]]) (simp add: fiber_core_def)
    show "plugins_ok ?w" unfolding set_state_def
      by (rule plugins_ok_change [OF v(3,4)]) (simp add: gives_up_def v(5))
    have "fiber_at ?w x = c\<lparr>fb_state := FiberPending\<rparr>" by (simp add: set_state_def fiber_at_lookup [OF v(4)])
    then show "settled ?w x (Inr FiberPending)"
      unfolding settled_def Let_def current_binding_def using res v(5) by simp
  qed
qed

lemma drive_turn_quiet:
  assumes quiet: "quiet env" and d: "drivable w x b" and calm: "\<not> fb_force_reload b"
  obtains (over) w' r where "drive_turn env x force w = Some (w', Some r)" "transition_of x w w'" "plugins_ok w'" "settled w' x r"
  | (again) w' c where "drive_turn env x force w = Some (w', None)" "transition_of x w w'" "drivable w' x c"
      "\<not> fb_force_reload c" "fb_state c = FiberPending"
proof (cases "resolved_for w b")
  case (Inl e)
  show ?thesis using drive_turn_missing [OF quiet d Inl] over by metis
next
  case (Inr ds)
  have b: "fmlookup (pl_fibers w) x = Some b" and ok: "plugins_ok w" and hs: "\<not> sc_poisoned (pl_scopes w)"
    and nd: "\<not> fb_dispose_requested b"
    using d by (simp_all add: drivable_def)
  have fb: "fiber_at w x = b" by (rule fiber_at_lookup [OF b])
  let ?epoch = "epoch_from_dependencies (fb_requested_epoch b) ds"
  have qd: "quiet_disposers env" using quiet by (simp add: quiet_def)
  consider (keep) "\<not> force" "fb_state b = FiberActive" "dependency_binding b = Some (de_binding ?epoch)"
    | (un) "\<not> (\<not> force \<and> fb_state b = FiberActive \<and> dependency_binding b = Some (de_binding ?epoch))"
        "fb_state b = FiberActive \<or> fb_state b = FiberFailed"
    | (load) "fb_state b \<noteq> FiberActive" "fb_state b \<noteq> FiberFailed"
    by blast
  then show ?thesis
  proof cases
    case keep
    let ?w = "update_fiber x (\<lambda>b. b\<lparr>fb_dependency_epoch := Some ?epoch\<rparr>) w"
    have turn: "drive_turn env x force w = Some (?w, Some (Inr FiberActive))"
      using keep by (simp add: drive_turn_def Let_def fb Inr)
    obtain H where "handle_universe (pl_scopes w) H" "\<forall>x b. fmlookup (pl_fibers w) x = Some b \<longrightarrow> fiber_ok H b"
      using ok by (rule plugins_okE)
    then have "fiber_ok H b" using b by blast
    then have h: "fb_handle b \<noteq> None" using keep(2) by (auto simp: fiber_ok_def split: option.splits)
    have "current_binding ?w (b\<lparr>fb_dependency_epoch := Some ?epoch\<rparr>) = Some (de_binding ?epoch)"
      using resolved_for_frame(1) [of ?w w "b\<lparr>fb_dependency_epoch := Some ?epoch\<rparr>" b] Inr
      by (simp add: current_binding_def epoch_from_dependencies_def)
    then have "settled ?w x (Inr FiberActive)"
      using h keep(2) by (simp add: settled_def Let_def fb dependency_binding_def)
    moreover have "plugins_ok ?w"
      by (rule plugins_ok_change [OF ok b]) (use keep in \<open>auto simp: gives_up_def dependency_binding_def\<close>)
    moreover have "transition_of x w ?w" by (rule transition_of_update [OF b]) (simp add: fiber_core_def)
    ultimately show ?thesis using over turn by blast
  next
    case un
    obtain v c where v: "unload_keep env x None w = Some v" "unloaded x w v c" using unload_keep_quiet [OF qd hs] .
    have vc: "drivable v x c" "fb_force_reload c = fb_force_reload b" using unloaded_drivable [OF v(2) d] .
    have "fiber_at v x = c" using vc(1) by (simp add: drivable_def fiber_at_def)
    then have "drive_turn env x force w = Some (v, None)"
      using un v(1) vc(1) unfolding drive_turn_def Let_def fb Inr by (auto simp: drivable_def)
    moreover have "fb_state c = FiberPending" using v(2) by (simp add: unloaded_def)
    ultimately show ?thesis using again unloaded_transition [OF v(2) b] vc calm by blast
  next
    case load
    have "drive_turn env x force w = drive_load env x ds ?epoch w"
      using load nd by (simp add: drive_turn_def Let_def fb Inr)
    moreover obtain w' r where "drive_load env x ds ?epoch w = Some (w', Some r)" "transition_of x w w'" "plugins_ok w'" "settled w' x r"
      using d calm load(1) drive_load_quiet [OF quiet b ok _ _ _ nd calm load(1) Inr refl]
      unfolding drivable_def by blast
    ultimately show ?thesis using over by simp
  qed
qed

lemma drive_loop_over: "drive_turn env x force w = Some (w', Some r) \<Longrightarrow> drive_loop env x force w = Some (w', r)"
  by (subst drive_loop.simps) simp

lemma drive_loop_again: "drive_turn env x force w = Some (w', None) \<Longrightarrow> drive_loop env x force w = drive_loop env x force w'"
  by (subst drive_loop.simps) simp

lemma drive_loop_quiet:
  assumes quiet: "quiet env" and d: "drivable w x b" and calm: "\<not> fb_force_reload b"
  obtains w' r where "drive_loop env x force w = Some (w', r)" "transition_of x w w'" "plugins_ok w'" "settled w' x r"
proof (cases rule: drive_turn_quiet [OF quiet d calm, of force])
  case (1 w' r)
  then show ?thesis using that drive_loop_over by blast
next
  case (2 v c)
  note first = drive_loop_again [OF 2(1)]
  show ?thesis
  proof (cases rule: drive_turn_quiet [OF quiet 2(3,4), of force])
    case (1 w' r)
    then show ?thesis using that drive_loop_over transition_of_trans [OF 2(2)] first by metis
  next
    case again: (2 w' c')
    have fc: "fiber_at v x = c" using 2(3) by (simp add: drivable_def fiber_at_def)
    have dc: "fmlookup (pl_fibers v) x = Some c" "plugins_ok v" "\<not> sc_poisoned (pl_scopes v)"
        "sc_next_entry_id (pl_scopes v) \<noteq> u64_max" "context_wf (fb_context c)" "\<not> fb_dispose_requested c"
        "fb_state c \<noteq> FiberActive"
      using 2(3,5) by (simp_all add: drivable_def)
    have "drive_turn env x force v \<noteq> Some (w', None)"
    proof (cases "resolved_for v c")
      case (Inl e)
      obtain u where "drive_turn env x force v = Some (u, Some (Inr FiberPending))"
        by (rule drive_turn_missing [OF quiet 2(3) Inl])
      then show ?thesis by simp
    next
      case (Inr ds)
      let ?epoch = "epoch_from_dependencies (fb_requested_epoch c) ds"
      have "drive_turn env x force v = drive_load env x ds ?epoch v"
        using 2(3,5) by (simp add: drive_turn_def Let_def fc Inr drivable_def)
      moreover obtain u r where "drive_load env x ds ?epoch v = Some (u, Some r)"
        using drive_load_quiet [OF quiet dc(1-6) 2(4) dc(7) Inr refl] by blast
      ultimately show ?thesis by simp
    qed
    then show ?thesis using again(1) by blast
  qed
qed

theorem drive_quiet:
  assumes quiet: "quiet env" and d: "drivable w x b"
  obtains w' r where "drive env x force w = Some (w', r)" "transition_of x w w'" "plugins_ok w'" "settled w' x r"
proof (cases "\<not> force \<and> fb_state b = FiberFailed")
  case True
  have b: "fmlookup (pl_fibers w) x = Some b" and ok: "plugins_ok w" and nd: "\<not> fb_dispose_requested b"
    using d by (simp_all add: drivable_def)
  obtain H where "handle_universe (pl_scopes w) H" "\<forall>x b. fmlookup (pl_fibers w) x = Some b \<longrightarrow> fiber_ok H b"
    using ok by (rule plugins_okE)
  then have "fiber_ok H b" using b by blast
  then have "fb_handle b = None" using True by (auto simp: fiber_ok_def split: option.splits)
  then show ?thesis
    using that [OF _ transition_of_refl [OF b] ok] True nd
    by (simp add: drive_def Let_def fiber_at_lookup [OF b] settled_def)
next
  case False
  have b: "fmlookup (pl_fibers w) x = Some b" and ok: "plugins_ok w" and nd: "\<not> fb_dispose_requested b"
    using d by (simp_all add: drivable_def)
  let ?f = "\<lambda>b. b\<lparr>fb_force_reload := False,
      fb_cleanup_errors := (if fb_state b = FiberPending then [] else fb_cleanup_errors b)\<rparr>"
  let ?v = "update_fiber x ?f w"
  have tv: "transition_of x w ?v" by (rule transition_of_update [OF b]) (simp add: fiber_core_def)
  have okv: "plugins_ok ?v" by (rule plugins_ok_change [OF ok b]) (simp add: gives_up_def dependency_binding_def)
  have dv: "drivable ?v x (?f b)" using d okv by (simp add: drivable_def fiber_at_lookup [OF b])
  have calm: "\<not> fb_force_reload (?f b)" by simp
  obtain w' r where r: "drive_loop env x (force \<or> fb_force_reload b) ?v = Some (w', r)" "transition_of x ?v w'" "plugins_ok w'" "settled w' x r"
    using drive_loop_quiet [OF quiet dv calm] .
  have "drive env x force w = Some (w', r)"
    using False nd r(1) by (auto simp: drive_def Let_def fiber_at_lookup [OF b])
  then show ?thesis using that transition_of_trans [OF tv r(2)] r(3,4) by blast
qed

end
