(* ===== verification/Plugin_Runs.thy ===== *)
theory Plugin_Runs
  imports Plugin_Settle
begin

text \<open>
  Withdrawal, disposal and the calls of the host: every call keeps the invariant of the plugin
  world, and a withdrawal leaves none of the affected fibers active.
\<close>

section \<open>Deactivation\<close>

lemma plugins_ok_inactive:
  assumes "plugins_ok w" "fmlookup (pl_fibers w) x = Some b" "fb_state b \<noteq> FiberActive"
  shows "fb_handle b = None"
proof -
  obtain H where "handle_universe (pl_scopes w) H" "\<forall>x b. fmlookup (pl_fibers w) x = Some b \<longrightarrow> fiber_ok H b"
    using assms(1) by (rule plugins_okE)
  then have "fiber_ok H b" using assms(2) by blast
  then show ?thesis using assms(3) by (simp add: fiber_ok_def split: option.splits)
qed

text \<open>The fiber given up, the rest of the world as it was but for its publication.\<close>

definition deactivated :: "FiberId \<Rightarrow> ('v, 'd, 'f, 'h) plugins \<Rightarrow> ('v, 'd, 'f, 'h) plugins \<Rightarrow> bool" where
  "deactivated x w w' \<longleftrightarrow>
     (\<exists>c. pl_fibers w' = fmupd x c (pl_fibers w) \<and> fb_handle c = None \<and> fb_state c \<noteq> FiberActive) \<and>
     plugins_ok w' \<and> \<not> sc_poisoned (pl_scopes w')"

lemma request_epoch_ok:
  assumes "plugins_ok w" "fmlookup (pl_fibers w) x = Some b"
  shows "plugins_ok (request_epoch x w)"
  unfolding request_epoch_def
  by (rule plugins_ok_change [OF assms]) (simp add: gives_up_def dependency_binding_def)

lemma deactivate_quiet:
  assumes quiet: "quiet_disposers env" and ok: "plugins_ok w" and hs: "\<not> sc_poisoned (pl_scopes w)"
    and b: "fmlookup (pl_fibers w) x = Some b"
  obtains w' s where "deactivate_for_withdrawal_with_detached env x detached w = Some (w', s)" "deactivated x w w'"
proof -
  let ?v = "request_epoch x w"
  let ?b = "b\<lparr>fb_requested_epoch := fb_requested_epoch b + 1\<rparr>"
  have lv: "fmlookup (pl_fibers ?v) x = Some ?b" and fv: "pl_fibers ?v = fmupd x ?b (pl_fibers w)"
    by (simp_all add: request_epoch_def fiber_at_lookup [OF b]) (simp add: update_fiber_def fiber_at_lookup [OF b])
  have okv: "plugins_ok ?v" by (rule request_epoch_ok [OF ok b])
  have hv: "\<not> sc_poisoned (pl_scopes ?v)" using hs by (simp add: request_epoch_def)
  show ?thesis
  proof (cases "fb_state b = FiberActive \<or> fb_state b = FiberFailed")
    case True
    obtain u c where u: "unload_keep env x detached ?v = Some u" "unloaded x ?v u c" using unload_keep_quiet [OF quiet hv] .
    have "deactivated x w u"
      using unloaded_ok [OF u(2) okv lv] hv u(2) by (auto simp: deactivated_def unloaded_def fv)
    moreover have "deactivate_for_withdrawal_with_detached env x detached w = Some (u, fb_state (fiber_at u x))"
      using True by (auto simp: deactivate_for_withdrawal_with_detached_def deactivate_locked_def fiber_at_lookup [OF lv] u(1))
    ultimately show ?thesis using that by blast
  next
    case False
    then have "fb_handle ?b = None" using plugins_ok_inactive [OF okv lv] by simp
    then have "deactivated x w ?v" using False okv hv fv by (auto simp: deactivated_def)
    moreover have "deactivate_for_withdrawal_with_detached env x detached w = Some (?v, fb_state b)"
      using False by (cases "fb_state b")
        (auto simp: deactivate_for_withdrawal_with_detached_def deactivate_locked_def fiber_at_lookup [OF lv])
    ultimately show ?thesis using that by blast
  qed
qed

lemma append_cleanup_failure_sel [simp]:
  "rp_driven (append_cleanup_failure w x report) = rp_driven report"
  "rp_errors (append_cleanup_failure w x report) = rp_errors report"
  by (simp_all add: append_cleanup_failure_def Let_def split: option.split)

lemma withdraw_each_quiet:
  assumes quiet: "quiet_disposers env" and ok: "plugins_ok w" and hs: "\<not> sc_poisoned (pl_scopes w)"
    and known: "set zs \<subseteq> fmdom' (pl_fibers w)"
  shows "\<exists>w' report'. withdraw_each env retired zs report w = Some (w', report') \<and>
    rp_driven report' = rp_driven report @ zs \<and> rp_errors report' = rp_errors report \<and>
    plugins_ok w' \<and> \<not> sc_poisoned (pl_scopes w') \<and>
    (\<forall>x\<in>set zs. fb_handle (fiber_at w' x) = None \<and> fb_state (fiber_at w' x) \<noteq> FiberActive) \<and>
    (\<forall>x. x \<notin> set zs \<longrightarrow> fmlookup (pl_fibers w') x = fmlookup (pl_fibers w) x) \<and> fmdom' (pl_fibers w') = fmdom' (pl_fibers w)"
  using ok hs known
proof (induction zs arbitrary: report w)
  case Nil
  then show ?case by simp
next
  case (Cons x zs)
  obtain b where b: "fmlookup (pl_fibers w) x = Some b" using Cons.prems(3) by (auto simp: fmlookup_dom'_iff)
  let ?own = "case fb_handle (fiber_at w x) of None \<Rightarrow> False | Some h \<Rightarrow> identity_of_handle h = identity_of_handle retired"
  let ?det = "if ?own then Some retired else None"
  let ?report = "report\<lparr>rp_driven := rp_driven report @ [x]\<rparr>"
  obtain v s where v: "deactivate_for_withdrawal_with_detached env x ?det w = Some (v, s)" "deactivated x w v"
    using deactivate_quiet [OF quiet Cons.prems(1,2) b] .
  obtain c where c: "pl_fibers v = fmupd x c (pl_fibers w)" "fb_handle c = None" "fb_state c \<noteq> FiberActive"
      "plugins_ok v" "\<not> sc_poisoned (pl_scopes v)"
    using v(2) unfolding deactivated_def by blast
  have dom: "fmdom' (pl_fibers v) = fmdom' (pl_fibers w)" using c(1) b by (auto simp: fmlookup_dom'_iff fmdom'I)
  obtain w' report' where w': "withdraw_each env retired zs (append_cleanup_failure v x ?report) v = Some (w', report')"
      "rp_driven report' = rp_driven report @ x # zs" "rp_errors report' = rp_errors report" "plugins_ok w'" "\<not> sc_poisoned (pl_scopes w')"
      "\<forall>y\<in>set zs. fb_handle (fiber_at w' y) = None \<and> fb_state (fiber_at w' y) \<noteq> FiberActive"
      "\<forall>y. y \<notin> set zs \<longrightarrow> fmlookup (pl_fibers w') y = fmlookup (pl_fibers v) y" "fmdom' (pl_fibers w') = fmdom' (pl_fibers v)"
    using Cons.IH [OF c(4,5), of "append_cleanup_failure v x ?report"] Cons.prems(3) dom by auto
  have "fb_handle (fiber_at w' x) = None \<and> fb_state (fiber_at w' x) \<noteq> FiberActive"
  proof (cases "x \<in> set zs")
    case False
    then have "fiber_at w' x = c" using w'(7) c(1) by (simp add: fiber_at_def)
    then show ?thesis using c(2,3) by simp
  qed (use w'(6) in blast)
  moreover have "withdraw_each env retired (x # zs) report w = Some (w', report')"
    using v(1) w'(1) by (simp add: Let_def)
  ultimately show ?case using w'(2-8) c(1) dom by auto
qed

section \<open>Disposal\<close>

lemma dispose_quiet:
  assumes quiet: "quiet_disposers env" and ok: "plugins_ok w" and hs: "\<not> sc_poisoned (pl_scopes w)"
    and b: "fmlookup (pl_fibers w) x = Some b"
  obtains w' r where "fiber_dispose env x w = Some (w', r)" "deactivated x w w'" "fb_state (fiber_at w' x) = FiberDisposed"
    "fb_state b \<noteq> FiberDisposed \<Longrightarrow> fb_runtime b < length (pl_runtimes w) \<Longrightarrow> x |\<notin>| pr_fibers (pl_runtimes w' ! fb_runtime b)"
proof -
  let ?v = "request_dispose x w"
  let ?b = "b\<lparr>fb_dispose_requested := True, fb_requested_epoch := fb_requested_epoch b + 1\<rparr>"
  have fv: "pl_fibers ?v = fmupd x ?b (pl_fibers w)" and rv: "pl_runtimes ?v = pl_runtimes w"
    by (simp_all add: request_dispose_def request_epoch_def)
       (simp add: update_fiber_def fiber_at_def b)
  have lv: "fmlookup (pl_fibers ?v) x = Some ?b" by (simp add: fv)
  have okv: "plugins_ok ?v" by (rule plugins_ok_update [OF ok b fv])
    (simp_all add: gives_up_def dependency_binding_def request_dispose_def request_epoch_def)
  have hv: "\<not> sc_poisoned (pl_scopes ?v)" using hs by (simp add: request_dispose_def request_epoch_def)
  show ?thesis
  proof (cases "fb_state b = FiberDisposed")
    case True
    then have "fb_handle ?b = None" using plugins_ok_inactive [OF okv lv] by simp
    then have "deactivated x w ?v" using True okv hv fv by (auto simp: deactivated_def)
    then show ?thesis using True that [of ?v "Inr ()"]
      by (simp add: fiber_dispose_def dispose_locked_def fiber_at_lookup [OF lv])
  next
    case False
    obtain u es c where u: "unload env x None ?v = Some (u, es)" "unloaded x ?v u c" using unload_quiet [OF quiet hv] .
    note uo = unloaded_ok [OF u(2) okv lv]
    let ?s = "set_state x FiberDisposed u"
    let ?w = "remove_fiber (fb_runtime (fiber_at u x)) x ?s"
    have fu: "fiber_at u x = c" by (rule fiber_at_lookup [OF uo(2)])
    have fs: "pl_fibers ?w = fmupd x (c\<lparr>fb_state := FiberDisposed\<rparr>) (pl_fibers w)" "pl_scopes ?w = pl_scopes u"
      using u(2) by (simp_all add: remove_fiber_def set_state_def unloaded_def update_fiber_def fu fv)
    have h: "fb_handle c = None" and core: "fiber_core c = fiber_core ?b" and ru: "pl_runtimes u = pl_runtimes w"
      using u(2) by (simp_all add: unloaded_def fiber_at_lookup [OF lv] rv)
    have "plugins_ok ?s" unfolding set_state_def by (rule plugins_ok_change [OF uo(1,2)]) (simp add: gives_up_def h)
    then have "plugins_ok ?w" by (rule plugins_ok_frame) (simp_all add: remove_fiber_def)
    then have "deactivated x w ?w" using fs h uo(4) hv by (auto simp: deactivated_def)
    moreover have "fiber_dispose env x w = Some (?w, if es = [] then Inr () else Inl (Cleanup es))"
      using False by (simp add: fiber_dispose_def dispose_locked_def fiber_at_lookup [OF lv] u(1))
    moreover have "fmlookup (pl_fibers ?w) x = Some (c\<lparr>fb_state := FiberDisposed\<rparr>)" unfolding fs by simp
    then have "fb_state (fiber_at ?w x) = FiberDisposed" using fiber_at_lookup by fastforce
    moreover have "x |\<notin>| pr_fibers (pl_runtimes ?w ! fb_runtime b)" if "fb_runtime b < length (pl_runtimes w)"
      using that core by (simp add: remove_fiber_def fu fiber_core_def set_state_def ru)
    ultimately show ?thesis using that by blast
  qed
qed

section \<open>Histories\<close>

text \<open>
  Calls of the host and of other owners of the scope tree, one after the other. A constructor
  passed to a publication runs alone, as the factories do. A drive is only followed while
  publication identifiers are left: the next publication panics otherwise.
\<close>

inductive plugin_history :: "('v, 'd, 'f, 'h) plugin_env \<Rightarrow> ('v, 'd, 'f, 'h) plugins \<Rightarrow> bool" for env where
  start: "plugin_history env \<lparr>pl_scopes = scope_root n, pl_stacks = [], pl_fibers = fmempty, pl_runtimes = rs,
      pl_next_fiber = m, pl_host = h\<rparr>"
| host: "plugin_history env w \<Longrightarrow> plugin_history env (w\<lparr>pl_host := h\<rparr>)"
| runtime: "plugin_history env w \<Longrightarrow> plugin_history env (fst (plugin_runtime_new w d))"
| child: "plugin_history env w \<Longrightarrow> scope_child (pl_scopes w) p = (st, r) \<Longrightarrow>
    ss_entries (scope_state (pl_scopes w) (ss_children (scope_state (pl_scopes w) p) # p)) = fmempty \<Longrightarrow>
    plugin_history env (w\<lparr>pl_scopes := st\<rparr>)"
| provide: "plugin_history env w \<Longrightarrow> \<forall>ds st. snd (construct ds st) = st \<Longrightarrow>
    scope_publish (pl_scopes w) p d expectation construct = (st, Inr h) \<Longrightarrow> plugin_history env (w\<lparr>pl_scopes := st\<rparr>)"
| withdraw: "plugin_history env w \<Longrightarrow> plugin_history env (w\<lparr>pl_scopes := fst (scope_withdraw (pl_scopes w) p i g)\<rparr>)"
| create: "plugin_history env w \<Longrightarrow> create_fiber w n ctx config = (w', r) \<Longrightarrow> plugin_history env w'"
| effect: "plugin_history env w \<Longrightarrow> fiber_effect w x e = (w', r) \<Longrightarrow> plugin_history env w'"
| notify: "plugin_history env w \<Longrightarrow> x \<in> fmdom' (pl_fibers w) \<Longrightarrow> plugin_history env (notify_dependency_change x w)"
| drive: "plugin_history env w \<Longrightarrow> drivable w x b \<Longrightarrow> drive env x force w = Some (w', r) \<Longrightarrow> plugin_history env w'"
| restart: "plugin_history env w \<Longrightarrow> x \<in> fmdom' (pl_fibers w) \<Longrightarrow> plugin_history env (request_restart x w)"
| dispose: "plugin_history env w \<Longrightarrow> x \<in> fmdom' (pl_fibers w) \<Longrightarrow> fiber_dispose env x w = Some (w', r) \<Longrightarrow> plugin_history env w'"
| deactivate: "plugin_history env w \<Longrightarrow> x \<in> fmdom' (pl_fibers w) \<Longrightarrow>
    deactivate_for_withdrawal_with_detached env x detached w = Some (w', s) \<Longrightarrow> plugin_history env w'"

lemma fiber_ok_mono: "fiber_ok H b \<Longrightarrow> H \<subseteq> H' \<Longrightarrow> fiber_ok H' b"
  by (auto simp: fiber_ok_def split: option.splits)

lemma plugins_ok_fresh:
  assumes ok: "plugins_ok w" and w': "pl_fibers w' = fmupd x c (pl_fibers w)" "pl_scopes w' = pl_scopes w"
    and c: "fb_handle c = None" "fb_state c \<noteq> FiberActive"
  shows "plugins_ok w'"
proof -
  obtain H where H: "handle_universe (pl_scopes w) H" "\<forall>x b. fmlookup (pl_fibers w) x = Some b \<longrightarrow> fiber_ok H b"
    using ok by (rule plugins_okE)
  have "\<forall>y d. fmlookup (pl_fibers w') y = Some d \<longrightarrow> fiber_ok H d" using H(2) c by (simp add: w' fiber_ok_def)
  moreover have "y = z" if "fmlookup (pl_fibers w') y = Some d" "fmlookup (pl_fibers w') z = Some e"
      "fb_handle d = Some h" "fb_handle e = Some h" for y z d e h
    using that c(1) plugins_ok_owner [OF ok, of y d z e h] unfolding w' by (auto split: if_splits)
  ultimately show ?thesis unfolding plugins_ok_def w'(2) using H(1) by blast
qed

lemma plugins_ok_scopes:
  assumes ok: "plugins_ok w" and keep: "\<And>H. handle_universe (pl_scopes w) H \<Longrightarrow> \<exists>H'. H \<subseteq> H' \<and> handle_universe st H'"
  shows "plugins_ok (w\<lparr>pl_scopes := st\<rparr>)"
proof -
  obtain H where H: "handle_universe (pl_scopes w) H" "\<forall>x b. fmlookup (pl_fibers w) x = Some b \<longrightarrow> fiber_ok H b"
    using ok by (rule plugins_okE)
  then obtain H' where "H \<subseteq> H'" "handle_universe st H'" using keep by blast
  moreover from this have "\<forall>x b. fmlookup (pl_fibers w) x = Some b \<longrightarrow> fiber_ok H' b" using H(2) fiber_ok_mono by blast
  ultimately show ?thesis using ok unfolding plugins_ok_def by auto
qed

lemma publish_history:
  assumes ok: "plugins_ok w" and construct: "\<forall>ds st. snd (construct ds st) = st"
    and pub: "scope_publish (pl_scopes w) p d expectation construct = (st, Inr h)"
  shows "plugins_ok (w\<lparr>pl_scopes := st\<rparr>) \<and> \<not> sc_poisoned st"
proof -
  obtain ds where ds: "publish_admission (pl_scopes w) p d expectation = Inr ds"
    using pub by (auto simp: scope_publish_def split: sum.splits)
  obtain v where v: "construct ds (pl_scopes w) = (Inr v, pl_scopes w)"
      "publish_preconstructed (pl_scopes w) p d expectation ds v = (st, Inr h)"
    using pub construct [rule_format, of ds "pl_scopes w"]
    by (auto simp: scope_publish_def ds split: prod.splits sum.splits)
  have res: "resolve_dependencies (pl_scopes w) p d = Inr ds"
    using ds by (auto simp: publish_admission_def split: if_splits sum.splits)
  have "plugins_ok (w\<lparr>pl_scopes := st\<rparr>)"
  proof (rule plugins_ok_scopes [OF ok])
    fix H assume H: "handle_universe (pl_scopes w) H"
    have "handle_universe st (insert h H)" by (rule universe_publish(1) [OF H resolved_held [OF H res] v(2)])
    then show "\<exists>H'. H \<subseteq> H' \<and> handle_universe st H'" by blast
  qed
  then show ?thesis using publish_Inr(5) [OF v(2)] by simp
qed

lemma create_fiber_ok:
  assumes "plugins_ok w" "create_fiber w n ctx config = (w', r)"
  shows "plugins_ok w' \<and> pl_scopes w' = pl_scopes w"
proof (cases "pl_fibers w' = pl_fibers w \<and> pl_scopes w' = pl_scopes w")
  case True
  then show ?thesis using plugins_ok_frame [OF assms(1)] by blast
next
  case False
  then obtain x k where "pl_fibers w' = fmupd x (fiber_new n ctx (pr_definition (pl_runtimes w ! n)) config k) (pl_fibers w)"
      "pl_scopes w' = pl_scopes w"
    using assms(2) by (auto simp: create_fiber_def effect_scope_new_def Let_def split: sum.splits option.splits prod.splits)
  note w' = this
  have "plugins_ok w'" by (rule plugins_ok_fresh [OF assms(1) w']) (simp_all add: fiber_new_def)
  then show ?thesis using w'(2) by blast
qed

lemma history_ok:
  assumes quiet: "quiet env" and "plugin_history env w"
  shows "plugins_ok w \<and> \<not> sc_poisoned (pl_scopes w)"
  using assms(2)
proof induction
  case (start n rs m h)
  have "handle_universe (scope_root n) {}"
    by (auto simp: handle_universe_def scope_root_def scope_state_def split: option.splits if_splits)
  then show ?case by (auto simp: plugins_ok_def scope_root_def)
next
  case (host w h)
  then show ?case using plugins_ok_frame [of w "w\<lparr>pl_host := h\<rparr>"] by simp
next
  case (runtime w d)
  then show ?case using plugins_ok_frame [of w "fst (plugin_runtime_new w d)"] by (simp add: plugin_runtime_new_def)
next
  case (child w p st r)
  have "plugins_ok (w\<lparr>pl_scopes := st\<rparr>)"
    by (rule plugins_ok_scopes) (use child universe_child [of "pl_scopes w" _ p] in \<open>auto intro!: exI\<close>)
  moreover have "sc_poisoned st = sc_poisoned (pl_scopes w)"
    using child(2) by (auto simp: scope_child_def Let_def split: if_splits)
  ultimately show ?case using child by simp
next
  case (provide w construct p d expectation st h)
  from publish_history [OF conjunct1 [OF provide.IH] provide(2,3)] show ?case by simp
next
  case (withdraw w p i g)
  have "plugins_ok (w\<lparr>pl_scopes := fst (scope_withdraw (pl_scopes w) p i g)\<rparr>)"
    by (rule plugins_ok_scopes) (use withdraw universe_withdraw in blast)+
  then show ?case using withdraw by simp
next
  case (create w n ctx config w' r)
  then show ?case using create_fiber_ok by metis
next
  case (effect w x e w' r)
  then have "pl_fibers w' = pl_fibers w" "pl_scopes w' = pl_scopes w"
    by (auto simp: fiber_effect_def Let_def effect_register_def split: if_splits prod.splits sum.splits)
  then show ?case using plugins_ok_frame effect by metis
next
  case (notify w x)
  then obtain b where "fmlookup (pl_fibers w) x = Some b" by (auto simp: fmlookup_dom'_iff)
  then show ?case using notify request_epoch_ok by (auto simp: notify_dependency_change_def request_epoch_def)
next
  case (drive w x b force w' r)
  obtain v s where "drive env x force w = Some (v, s)" "transition_of x w v" "plugins_ok v"
    using drive_quiet [OF quiet drive(2)] .
  then show ?case using drive by (simp add: transition_of_def)
next
  case (restart w x)
  then obtain b where b: "fmlookup (pl_fibers w) x = Some b" by (auto simp: fmlookup_dom'_iff)
  let ?v = "update_fiber x (\<lambda>b. b\<lparr>fb_force_reload := True\<rparr>) w"
  have "plugins_ok ?v" by (rule plugins_ok_change [OF _ b]) (use restart in \<open>simp_all add: gives_up_def dependency_binding_def\<close>)
  then have "plugins_ok (request_epoch x ?v)" by (rule request_epoch_ok) simp
  then show ?case using restart by (simp add: request_restart_def request_epoch_def)
next
  case (dispose w x w' r)
  then obtain b where b: "fmlookup (pl_fibers w) x = Some b" by (auto simp: fmlookup_dom'_iff)
  obtain v s where "fiber_dispose env x w = Some (v, s)" "deactivated x w v"
    using dispose_quiet [OF _ _ _ b, of env] quiet dispose.IH unfolding quiet_def by blast
  then show ?case using dispose by (simp add: deactivated_def)
next
  case (deactivate w x detached w' s)
  then obtain b where b: "fmlookup (pl_fibers w) x = Some b" by (auto simp: fmlookup_dom'_iff)
  obtain v t where "deactivate_for_withdrawal_with_detached env x detached w = Some (v, t)" "deactivated x w v"
    using deactivate_quiet [OF _ _ _ b, of env] quiet deactivate.IH unfolding quiet_def by blast
  then show ?case using deactivate by (simp add: deactivated_def)
qed

end
