(* ===== verification/Plugin_Properties.thy ===== *)
theory Plugin_Properties
  imports Plugin_Runs
begin

text \<open>Properties of plugin effects, plugin fibers and reactive withdrawal, with their witnesses.\<close>

section \<open>A small plugin world\<close>

text \<open>
  A host that logs the disposers it runs. Each factory registers one effect under its own name.
\<close>

definition demo_env :: "(unit, string, string, string list) plugin_env" where
  "demo_env =
     \<lparr>pe_load = (\<lambda>f c w. (w\<lparr>pl_host := pl_host w,
        pl_stacks := (pl_stacks w)[lc_effects c := \<lparr>ek_effects = [scoped_effect f f], ek_closed = False\<rparr>]\<rparr>, Inr ())),
      pe_dispose = (\<lambda>d w. (w\<lparr>pl_host := pl_host w @ [d]\<rparr>, Inr ())),
      pe_alive = (\<lambda>w x. True)\<rparr>"

lemma demo_quiet: "quiet demo_env"
proof -
  have "quiet_disposers demo_env" unfolding quiet_disposers_def demo_env_def by auto
  moreover have "quiet_loads demo_env" unfolding quiet_loads_def
  proof (intro allI)
    fix f :: string and c :: "unit PluginLoadContext" and w :: "(unit, string, string, string list) plugins"
    show "\<exists>h k. fst (pe_load demo_env f c w) = w\<lparr>pl_host := h, pl_stacks := (pl_stacks w)[lc_effects c := k]\<rparr>"
      by (rule exI [of _ "pl_host w"], rule exI [of _ "\<lparr>ek_effects = [scoped_effect f f], ek_closed = False\<rparr>"])
         (simp add: demo_env_def)
  qed
  ultimately show ?thesis by (simp add: quiet_def)
qed

type_synonym demo_world = "(unit, string, string, string list) plugins"

definition demo_empty :: demo_world where
  "demo_empty = \<lparr>pl_scopes = scope_root 0, pl_stacks = [], pl_fibers = fmempty, pl_runtimes = [], pl_next_fiber = 0, pl_host = []\<rparr>"

definition demo_provided :: demo_world where
  "demo_provided = demo_empty\<lparr>pl_scopes := fst (scope_publish (scope_root 0) [] (capability_of ''A'' []) PublishNew plain_constructor)\<rparr>"

definition demo_plugin :: "string \<Rightarrow> string list \<Rightarrow> string PluginDefinition" where
  "demo_plugin name needs = PluginDefinition_new (Id name) (capability_of name needs) name"

text \<open>Fiber 0 provides \<open>B\<close> from \<open>A\<close>, fiber 1 provides \<open>C\<close> from \<open>B\<close>.\<close>

definition demo_created :: demo_world where
  "demo_created =
     fst (create_fiber (fst (create_fiber
       (fst (plugin_runtime_new (fst (plugin_runtime_new demo_provided (demo_plugin ''B'' [''A''])))
         (demo_plugin ''C'' [''B''])))
       0 (context_from_scope []) ''b'')) 1 (context_from_scope []) ''c'')"

definition demo_first :: demo_world where
  "demo_first = fst (the (drive demo_env 0 False demo_created))"

definition demo_active :: demo_world where
  "demo_active = fst (the (drive demo_env 1 False demo_first))"

definition demo_reactive :: ReactiveCapabilityRuntime where
  "demo_reactive = \<lparr>rr_context = context_from_scope [], rr_registry = fmempty, rr_fibers = {|0, 1|}\<rparr>"

definition demo_ready :: "demo_world \<Rightarrow> FiberId \<Rightarrow> bool" where
  "demo_ready w x \<longleftrightarrow>
     fmlookup (pl_fibers w) x \<noteq> None \<and> context_wf (fb_context (fiber_at w x)) \<and> \<not> fb_dispose_requested (fiber_at w x) \<and>
     \<not> sc_poisoned (pl_scopes w) \<and> sc_next_entry_id (pl_scopes w) \<noteq> u64_max"

text \<open>Equations that unfold only once a step is known, for evaluation by rewriting.\<close>

declare run_effects.simps [code del] drive_loop.simps [code del]

fun disposer_step :: "('v, 'd, 'f, 'h) plugin_env \<Rightarrow> 'd disposer option \<Rightarrow> ('v, 'd, 'f, 'h) plugins \<Rightarrow>
    ('v, 'd, 'f, 'h) plugins \<times> (string + unit) \<times> 'd ScopedEffect list option" where
  "disposer_step env None w = (w, Inr (), None)"
| "disposer_step env (Some (HostDisposer d)) w = (case pe_dispose env d w of (w, r) \<Rightarrow> (w, r, None))"
| "disposer_step env (Some (NestedScope n)) w = (case close_stack w n of (w, inner) \<Rightarrow> (w, Inr (), Some inner))"

lemma run_effects_code [code]:
  "run_effects env effects errors w =
     (if effects = [] then Some (w, errors)
      else
        let effect = last effects; step = disposer_step env (sf_disposer effect) w; rest = butlast effects in
        if snd (snd step) = None then run_effects env rest (errors @ disposer_error (sf_label effect) (fst (snd step))) (fst step)
        else
          let nested = run_effects env (the (snd (snd step))) [] (fst step) in
          if nested = None then None
          else run_effects env rest (errors @ disposer_error (sf_label effect) (nested_result (snd (the nested)))) (fst (the nested)))"
proof (cases effects rule: rev_cases)
  case (snoc rest effect)
  show ?thesis
  proof (cases "sf_disposer effect")
    case None
    then show ?thesis by (simp add: snoc run_effects_snoc disposer_error_def Let_def)
  next
    case (Some x)
    then show ?thesis
      by (cases x) (auto simp: snoc run_effects_snoc Let_def split: prod.split Option.bind_split)
  qed
qed simp

lemma drive_loop_code [code]:
  "drive_loop env x force w =
     (let t = drive_turn env x force w in
      if t = None then None
      else if snd (the t) = None then drive_loop env x force (fst (the t))
      else Some (fst (the t), the (snd (the t))))"
  by (subst drive_loop.simps) (auto simp: Let_def split: Option.bind_split option.split)

lemma demo_evaluated:
  "demo_ready demo_created 0 \<and> demo_ready demo_first 1 \<and> \<not> isl (snd (scope_publish (scope_root 0) [] (capability_of ''A'' []) PublishNew plain_constructor)) \<and>
   \<not> isl (snd (scope_withdraw (pl_scopes demo_active) [] (Id ''A'') Generation_FIRST)) \<and>
   fb_state (fiber_at demo_active 0) = FiberActive \<and> fb_state (fiber_at demo_active 1) = FiberActive \<and>
   fmdom' (pl_fibers demo_active) = {0, 1} \<and>
   map_option (\<lambda>(w, r, out). (pl_host w, map_sum (\<lambda>_. ()) rp_driven out))
     (withdraw_and_reconcile demo_env demo_reactive (Id ''A'') Generation_FIRST demo_active) = Some ([''C'', ''B''], Inr [1, 0])"
  by code_simp

lemma plugin_demo_history:
  "plugin_history demo_env demo_active" "drivable demo_first 1 (fiber_at demo_first 1)" "drivable demo_created 0 (fiber_at demo_created 0)"
proof -
  let ?pub = "scope_publish (scope_root 0) [] (capability_of ''A'' []) PublishNew plain_constructor"
  have h0: "plugin_history demo_env demo_empty" unfolding demo_empty_def by (rule plugin_history.start)
  obtain st h where pub: "?pub = (st, Inr h)"
    using demo_evaluated by (metis prod.collapse isl_def sum.collapse(2))
  have h1: "plugin_history demo_env demo_provided"
    unfolding demo_provided_def using plugin_history.provide [OF h0, of plain_constructor "[]" "capability_of ''A'' []" PublishNew st h] pub
    by (simp add: demo_empty_def plain_constructor_def)
  have h2: "plugin_history demo_env demo_created"
    unfolding demo_created_def
    by (intro plugin_history.create [OF _ prod.collapse [symmetric]] plugin_history.runtime h1)
  have ready: "drivable w x (fiber_at w x)" if "demo_ready w x" "plugin_history demo_env w" for w x
    using that history_ok [OF demo_quiet that(2)] by (auto simp: drivable_def demo_ready_def fiber_at_def)
  show d0: "drivable demo_created 0 (fiber_at demo_created 0)" using ready h2 demo_evaluated by blast
  obtain w r where "drive demo_env 0 False demo_created = Some (w, r)" using drive_quiet [OF demo_quiet d0] .
  then have h3: "plugin_history demo_env demo_first"
    using plugin_history.drive [OF h2 d0] by (simp add: demo_first_def)
  show d1: "drivable demo_first 1 (fiber_at demo_first 1)" using ready h3 demo_evaluated by blast
  obtain w r where "drive demo_env 1 False demo_first = Some (w, r)" using drive_quiet [OF demo_quiet d1] .
  then show "plugin_history demo_env demo_active"
    using plugin_history.drive [OF h3 d1] by (simp add: demo_active_def)
qed

section \<open>Effects\<close>

lemma stack_at_register:
  assumes "n < length (pl_stacks w)" "\<not> ek_closed (pl_stacks w ! n)"
  shows "fst (effect_register w n e) =
    w\<lparr>pl_stacks := (pl_stacks w)[n := (pl_stacks w ! n)\<lparr>ek_effects := ek_effects (pl_stacks w ! n) @ [e]\<rparr>]\<rparr>"
  using assms by (simp add: effect_register_def stack_at_def stack_push_def)

lemma register_all:
  "fold (\<lambda>(label, d) w. fst (effect_register w (length ks) (scoped_effect label d))) ds
     (w\<lparr>pl_stacks := ks @ [\<lparr>ek_effects = es, ek_closed = False\<rparr>]\<rparr>) =
   w\<lparr>pl_stacks := ks @ [\<lparr>ek_effects = es @ host_effects ds, ek_closed = False\<rparr>]\<rparr>"
proof (induction ds arbitrary: es)
  case Nil
  then show ?case by (simp add: host_effects_def)
next
  case (Cons d ds)
  then show ?case
    by (cases d) (simp add: stack_at_register host_effects_def)
qed

text \<open>
  C23: The disposers registered in an effect scope are run exactly once each, in reverse order of
  their registration, all of them whatever the earlier ones returned, and the result collects
  their failures in that order.
\<close>
theorem effects_disposed_in_reverse:
  "dispose_all env
     (fold (\<lambda>(label, d) w. fst (effect_register w (snd (effect_scope_new v)) (scoped_effect label d))) ds (fst (effect_scope_new v)))
     (snd (effect_scope_new v)) =
   Some (run_disposers env (rev ds) (v\<lparr>pl_stacks := pl_stacks v @ [closed_stack]\<rparr>))"
proof -
  let ?w = "v\<lparr>pl_stacks := pl_stacks v @ [\<lparr>ek_effects = host_effects ds, ek_closed = False\<rparr>]\<rparr>"
  have "fold (\<lambda>(label, d) w. fst (effect_register w (length (pl_stacks v)) (scoped_effect label d))) ds (fst (effect_scope_new v)) = ?w"
    using register_all [where ks = "pl_stacks v" and w = v and es = "[]"] by (simp add: effect_scope_new_def EffectStack_new_def)
  moreover have "dispose_all env ?w (length (pl_stacks v)) =
      run_effects env (host_effects ds) [] (v\<lparr>pl_stacks := pl_stacks v @ [closed_stack]\<rparr>)"
    by (simp add: dispose_all_def close_stack_def stack_at_def)
  ultimately show ?thesis
    by (simp add: run_effects_host effect_scope_new_def split: prod.split)
qed

text \<open>
  With disposers that only change the host's own state, cleaning up an effect scope ends,
  however deeply effect scopes are nested in it. Afterwards the scope is closed and empty: a
  new effect is refused and a second cleanup runs nothing.
\<close>
theorem cleanup_ends_and_closes:
  assumes "quiet_disposers env" "n < length (pl_stacks w)"
  shows "\<exists>w' errors. dispose_all env w n = Some (w', errors) \<and> stack_at w' n = closed_stack \<and>
    effect_register w' n e = (w', Inl EffectClosed) \<and> dispose_all env w' n = Some (w', [])"
proof -
  obtain w' errors where w': "dispose_all env w n = Some (w', errors)" "only_closes w w'"
      "pl_stacks w' ! n = closed_stack"
    using dispose_all_returns [OF assms(1), of w n] assms(2) by blast
  have n: "n < length (pl_stacks w')" "pl_stacks w' ! n = closed_stack"
    using only_closes_sel(5) [OF w'(2)] w'(3) assms(2) by simp_all
  have same: "(pl_stacks w')[n := closed_stack] = pl_stacks w'" using n by (metis list_update_id)
  have "stack_at w' n = closed_stack" using n by (simp add: stack_at_def)
  then show ?thesis
    using w'(1) by (simp add: effect_register_def stack_push_def dispose_all_def close_stack_def same)
qed

text \<open>A scope that holds one nested scope with one effect.\<close>

theorem cleanup_ends_and_closes_witness:
  "\<exists>w' errors. dispose_all demo_env (demo_empty\<lparr>pl_stacks := [\<lparr>ek_effects = [\<lparr>sf_label = ''n'', sf_disposer = Some (NestedScope 1)\<rparr>], ek_closed = False\<rparr>,
       \<lparr>ek_effects = [scoped_effect ''a'' ''a''], ek_closed = False\<rparr>]\<rparr>) 0 = Some (w', errors) \<and>
    stack_at w' 0 = closed_stack \<and> effect_register w' 0 (scoped_effect ''b'' ''b'') = (w', Inl EffectClosed) \<and>
    dispose_all demo_env w' 0 = Some (w', [])"
  using demo_quiet by (intro cleanup_ends_and_closes) (simp_all add: quiet_def)

section \<open>Fibers\<close>

text \<open>
  C21: With factories and disposers that run alone, starting a fiber returns: active and bound to
  the publications its context resolves now, pending because a requirement is missing, or failed
  with the reason. It then needs no reconciliation, no other fiber has changed, and ownership of
  publications is intact.
\<close>
theorem fiber_start_settles:
  assumes "quiet env" "drivable w x b"
  shows "\<exists>w' r. fiber_start env x w = Some (w', r) \<and> settled w' x r \<and> \<not> needs_reconciliation w' x \<and> plugins_ok w' \<and>
    (\<forall>y. y \<noteq> x \<longrightarrow> fmlookup (pl_fibers w') y = fmlookup (pl_fibers w) y)"
proof -
  obtain w' r where r: "drive env x False w = Some (w', r)" "transition_of x w w'" "plugins_ok w'" "settled w' x r"
    using drive_quiet [OF assms] .
  then show ?thesis using settled_stable [OF r(4)] transition_of_other [OF r(2)] by (auto simp: fiber_start_def)
qed

theorem fiber_start_settles_witness:
  "\<exists>w' r. fiber_start demo_env 1 demo_first = Some (w', r) \<and> settled w' 1 r \<and> \<not> needs_reconciliation w' 1 \<and> plugins_ok w' \<and>
    (\<forall>y. y \<noteq> 1 \<longrightarrow> fmlookup (pl_fibers w') y = fmlookup (pl_fibers demo_first) y)"
  by (rule fiber_start_settles [OF demo_quiet plugin_demo_history(2)])



section \<open>Withdrawal\<close>

lemma plan_frame [simp]:
  "provider_identities (w\<lparr>pl_scopes := st\<rparr>) xs = provider_identities w xs"
  "bound_to (w\<lparr>pl_scopes := st\<rparr>) xs identities = bound_to w xs identities"
  "reaches_withdrawn (w\<lparr>pl_scopes := st\<rparr>) xs identities retired = reaches_withdrawn w xs identities retired"
  by (simp_all add: provider_identities_def bound_to_def reaches_withdrawn_def directly_affected_def)




section \<open>Disposal during a failing load\<close>




end
