(* ===== verification/Async_Driver.thy ===== *)
theory Async_Driver
  imports Runtime_Safety
begin

text \<open>
  The asynchronous driver of \<^verbatim>\<open>runtime-core\<close> (\<^verbatim>\<open>async_driver.rs\<close>): one owner of a runtime that
  serves typed commands from a mailbox, with one-shot response channels and an effect adapter
  that is awaited.

  A response channel is an index into the list of channels; the mailbox is shared by handles
  and owner. Code between two await points is one step. The adapter is not under the
  repository: what it answers is an argument of the step that resumes the owner.
\<close>

section \<open>Requests and results\<close>

datatype EffectDispatchError = UnknownOutcomeError string

definition EffectDispatchError_unknown :: "string \<Rightarrow> EffectDispatchError" where
  "EffectDispatchError_unknown reason = UnknownOutcomeError reason"

fun dispatch_error_reason :: "EffectDispatchError \<Rightarrow> string" where
  "dispatch_error_reason (UnknownOutcomeError reason) = reason"

record EffectDispatchRequest =
  eq_run_id :: RunId
  eq_task_id :: Id
  eq_operation_id :: OperationId
  eq_attempt_id :: AttemptId
  eq_semantics :: EffectSemantics

datatype DriveResult =
    DriveStep StepResult
  | EffectCompleted EffectDispatchRequest KnownEffectOutcome
  | EffectUnknown EffectDispatchRequest EffectDispatchError
  | Backpressured "RuntimeEvent StreamItem"

datatype ShutdownStatus =
    CleanShutdown
  | PendingDispatch OperationId
  | PendingUnknown OperationId
  | ReconciliationRequired OperationId
  | ObservedFailure OperationId

datatype DriverError =
    OwnerDropped
  | ShuttingDown
  | DriverRuntime RuntimeError
  | AttemptLineageMismatch OperationId AttemptId "AttemptId option"  \<comment> \<open>operation, expected, actual\<close>

datatype DriverOwnerState = OwnerRunning | OwnerShutdown | OwnerLost

section \<open>The owner\<close>

record ('v, 'st) RuntimeDriver =
  dv_runtime :: "('v, 'st) Runtime"
  dv_pending_lifecycle :: "RuntimeEvent StreamItem option"

definition RuntimeDriver_new :: "('v, 'st) Runtime \<Rightarrow> ('v, 'st) RuntimeDriver" where
  "RuntimeDriver_new rt = \<lparr>dv_runtime = rt, dv_pending_lifecycle = None\<rparr>"

definition retry_pending_lifecycle :: "('v, 'st) RuntimeDriver \<Rightarrow> ('v, 'st) RuntimeDriver \<times> (RuntimeError + unit)" where
  "retry_pending_lifecycle d =
     (case dv_pending_lifecycle d of
        None \<Rightarrow> (d, Inr ())
      | Some item \<Rightarrow>
          (case retry_execution_event (dv_runtime d) item of
             (rt, Inr _) \<Rightarrow> (d\<lparr>dv_runtime := rt, dv_pending_lifecycle := None\<rparr>, Inr ())
           | (rt, Inl (ExecutionBackpressure rejected)) \<Rightarrow>
               (d\<lparr>dv_runtime := rt, dv_pending_lifecycle := Some rejected\<rparr>, Inl (ExecutionBackpressure rejected))
           | (rt, Inl e) \<Rightarrow> (d\<lparr>dv_runtime := rt, dv_pending_lifecycle := Some item\<rparr>, Inl e)))"

definition hold_rejected :: "RuntimeError \<Rightarrow> ('v, 'st) RuntimeDriver \<Rightarrow> ('v, 'st) RuntimeDriver" where
  "hold_rejected e d = (case e of ExecutionBackpressure item \<Rightarrow> d\<lparr>dv_pending_lifecycle := Some item\<rparr> | _ \<Rightarrow> d)"

definition driver_runtime_error :: "('v, 'st) RuntimeDriver \<Rightarrow> RuntimeError \<Rightarrow> ('v, 'st) RuntimeDriver \<times> (DriverError + 'a)" where
  "driver_runtime_error d e = (hold_rejected e d, Inl (DriverRuntime e))"

definition drive_runtime_error :: "('v, 'st) RuntimeDriver \<Rightarrow> RuntimeError \<Rightarrow>
    ('v, 'st) RuntimeDriver \<times> (DriverError + (DriveResult + EffectDispatchRequest))" where
  "drive_runtime_error d e =
     (case e of
        ExecutionBackpressure item \<Rightarrow> (hold_rejected e d, Inr (Inl (Backpressured item)))
      | _ \<Rightarrow> (d, Inl (DriverRuntime e)))"

text \<open>\<^verbatim>\<open>dispatch_effect_now\<close> up to the call of the adapter, and from its answer on.\<close>

definition lineage_attempt :: "('v, 'st) Runtime \<Rightarrow> EffectIntent \<Rightarrow> OperationId \<Rightarrow> AttemptId option" where
  "lineage_attempt rt intent operation_id =
     map_option ta_attempt_id (find (attempt_matches (ei_task_id intent) (Some operation_id)) (rev (rt_attempts rt)))"

definition dispatch_begin :: "'st store_ops \<Rightarrow> ('v, 'st) RuntimeDriver \<Rightarrow> OperationId \<Rightarrow> AttemptId option \<Rightarrow>
    ('v, 'st) RuntimeDriver \<times> (DriverError + EffectDispatchRequest)" where
  "dispatch_begin ops d operation_id expected =
     (case retry_pending_lifecycle d of
        (d, Inl e) \<Rightarrow> driver_runtime_error d e
      | (d, Inr _) \<Rightarrow>
          (case journal_intent (rt_journal (dv_runtime d)) operation_id of
             Inl e \<Rightarrow> driver_runtime_error d (RuntimeJournal e)
           | Inr intent \<Rightarrow>
               let actual = lineage_attempt (dv_runtime d) intent operation_id in
               if expected \<noteq> None \<and> actual \<noteq> expected then
                 (d, Inl (AttemptLineageMismatch operation_id (the expected) actual))
               else
                 (case dispatch_effect ops (dv_runtime d) operation_id of
                    (rt, Inl e) \<Rightarrow> driver_runtime_error (d\<lparr>dv_runtime := rt\<rparr>) e
                  | (rt, Inr attempt_id) \<Rightarrow>
                      let d = d\<lparr>dv_runtime := rt\<rparr> in
                      if expected \<noteq> None \<and> expected \<noteq> Some attempt_id then
                        (d, Inl (AttemptLineageMismatch operation_id (the expected) (Some attempt_id)))
                      else
                        (d, Inr \<lparr>eq_run_id = rt_run_id rt, eq_task_id = ei_task_id intent, eq_operation_id = operation_id,
                                 eq_attempt_id = attempt_id, eq_semantics = ei_semantics intent\<rparr>))))"

definition dispatch_end :: "'st store_ops \<Rightarrow> ('v, 'st) RuntimeDriver \<Rightarrow> EffectDispatchRequest \<Rightarrow>
    EffectDispatchError + KnownEffectOutcome \<Rightarrow> ('v, 'st) RuntimeDriver \<times> (DriverError + DriveResult)" where
  "dispatch_end ops d request answer =
     (case answer of
        Inr known \<Rightarrow>
          (case record_effect_outcome ops (dv_runtime d) (eq_operation_id request) (eq_attempt_id request) known of
             (rt, Inl e) \<Rightarrow> driver_runtime_error (d\<lparr>dv_runtime := rt\<rparr>) e
           | (rt, Inr _) \<Rightarrow> (d\<lparr>dv_runtime := rt\<rparr>, Inr (EffectCompleted request known)))
      | Inl error \<Rightarrow> (d, Inr (EffectUnknown request error)))"

text \<open>\<^verbatim>\<open>drive_once\<close> up to its end or to the call of the adapter.\<close>

definition drive_begin :: "'st store_ops \<Rightarrow> ('v, 'st) RuntimeDriver \<Rightarrow>
    ('v, 'st) RuntimeDriver \<times> (DriverError + (DriveResult + EffectDispatchRequest))" where
  "drive_begin ops d =
     (case retry_pending_lifecycle d of
        (d, Inl e) \<Rightarrow> drive_runtime_error d e
      | (d, Inr _) \<Rightarrow>
          (case runtime_step ops (dv_runtime d) of
             (rt, Inl e) \<Rightarrow> drive_runtime_error (d\<lparr>dv_runtime := rt\<rparr>) e
           | (rt, Inr (EffectPending task_id attempt_id operation_id)) \<Rightarrow>
               (case dispatch_begin ops (d\<lparr>dv_runtime := rt\<rparr>) operation_id (Some attempt_id) of
                  (d, Inl e) \<Rightarrow> (d, Inl e)
                | (d, Inr request) \<Rightarrow> (d, Inr (Inr request)))
           | (rt, Inr result) \<Rightarrow> (d\<lparr>dv_runtime := rt\<rparr>, Inr (Inl (DriveStep result)))))"

definition recover_now :: "'st store_ops \<Rightarrow> ('v, 'st) RuntimeDriver \<Rightarrow> OperationId \<Rightarrow>
    ('v, 'st) RuntimeDriver \<times> (DriverError + RecoveryDecision)" where
  "recover_now ops d operation_id =
     (case retry_pending_lifecycle d of
        (d, Inl e) \<Rightarrow> driver_runtime_error d e
      | (d, Inr _) \<Rightarrow>
          (case recover ops (dv_runtime d) operation_id of
             (rt, Inl e) \<Rightarrow> driver_runtime_error (d\<lparr>dv_runtime := rt\<rparr>) e
           | (rt, Inr decision) \<Rightarrow> (d\<lparr>dv_runtime := rt\<rparr>, Inr decision)))"

definition cancel_now :: "'st store_ops \<Rightarrow> ('v, 'st) RuntimeDriver \<Rightarrow> Id \<Rightarrow>
    ('v, 'st) RuntimeDriver \<times> (DriverError + Cancellation)" where
  "cancel_now ops d task_id =
     (case cancel_task ops (dv_runtime d) task_id of
        (rt, Inl e) \<Rightarrow> driver_runtime_error (d\<lparr>dv_runtime := rt\<rparr>) e
      | (rt, Inr cancellation) \<Rightarrow> (d\<lparr>dv_runtime := rt\<rparr>, Inr cancellation))"

section \<open>Shutdown\<close>

text \<open>The loop of \<^verbatim>\<open>classify_shutdown\<close>, with the first operation found of each kind.\<close>

fun classify_operations :: "DurableRunState \<Rightarrow> OperationId option \<Rightarrow> OperationId option \<Rightarrow> OperationId option \<Rightarrow>
    OperationId list \<Rightarrow> ShutdownStatus" where
  "classify_operations s pending_dispatch pending_unknown observed_failure [] =
     (case pending_unknown of
        Some operation_id \<Rightarrow> PendingUnknown operation_id
      | None \<Rightarrow>
          (case pending_dispatch of
             Some operation_id \<Rightarrow> PendingDispatch operation_id
           | None \<Rightarrow>
               (case observed_failure of
                  Some operation_id \<Rightarrow> ObservedFailure operation_id
                | None \<Rightarrow> CleanShutdown)))"
| "classify_operations s pending_dispatch pending_unknown observed_failure (operation_id # rest) =
     (case ds_intent s operation_id of
        None \<Rightarrow> classify_operations s pending_dispatch pending_unknown observed_failure rest
      | Some intent \<Rightarrow>
          (case effect_state s operation_id of
             Prepared \<Rightarrow>
               classify_operations s
                 (if \<not> is_cancelled s (ei_task_id intent) \<and> pending_dispatch = None then Some operation_id else pending_dispatch)
                 pending_unknown observed_failure rest
           | OutcomeUnknown \<Rightarrow>
               if ei_semantics intent = NonIdempotent then ReconciliationRequired operation_id
               else
                 classify_operations s pending_dispatch
                   (if pending_unknown = None then Some operation_id else pending_unknown) observed_failure rest
           | OutcomeKnown Failed \<Rightarrow>
               classify_operations s pending_dispatch pending_unknown
                 (if observed_failure = None then Some operation_id else observed_failure) rest
           | _ \<Rightarrow> classify_operations s pending_dispatch pending_unknown observed_failure rest))"

definition classify_shutdown :: "DurableRunState \<Rightarrow> ShutdownStatus" where
  "classify_shutdown s = classify_operations s None None None (operation_ids s)"

fun recover_known :: "'st store_ops \<Rightarrow> ('v, 'st) RuntimeDriver \<Rightarrow> OperationId list \<Rightarrow>
    ('v, 'st) RuntimeDriver \<times> (DriverError + unit)" where
  "recover_known ops d [] = (d, Inr ())"
| "recover_known ops d (operation_id # rest) =
     (case recover ops (dv_runtime d) operation_id of
        (rt, Inl e) \<Rightarrow> driver_runtime_error (d\<lparr>dv_runtime := rt\<rparr>) e
      | (rt, Inr _) \<Rightarrow> recover_known ops (d\<lparr>dv_runtime := rt\<rparr>) rest)"

definition known_outcomes :: "DurableRunState \<Rightarrow> OperationId list" where
  "known_outcomes s = filter (\<lambda>x. case effect_state s x of OutcomeKnown _ \<Rightarrow> True | _ \<Rightarrow> False) (operation_ids s)"

definition shutdown_now :: "'st store_ops \<Rightarrow> ('v, 'st) RuntimeDriver \<Rightarrow>
    ('v, 'st) RuntimeDriver \<times> (DriverError + ShutdownStatus)" where
  "shutdown_now ops d =
     (case retry_pending_lifecycle d of
        (d, Inl e) \<Rightarrow> driver_runtime_error d e
      | (d, Inr _) \<Rightarrow>
          (case durable_state ops (dv_runtime d) of
             Inl e \<Rightarrow> driver_runtime_error d e
           | Inr s \<Rightarrow>
               (case recover_known ops d (known_outcomes s) of
                  (d, Inl e) \<Rightarrow> (d, Inl e)
                | (d, Inr _) \<Rightarrow>
                    (case dv_pending_lifecycle d of
                       Some item \<Rightarrow> driver_runtime_error d (ExecutionBackpressure item)
                     | None \<Rightarrow>
                         (case durable_state ops (dv_runtime d) of
                            Inl e \<Rightarrow> driver_runtime_error d e
                          | Inr s \<Rightarrow> (d, Inr (classify_shutdown s)))))))"

end
