(* ===== verification/Driver_Lifecycle.thy ===== *)
theory Driver_Lifecycle
  imports Async_Driver
begin

text \<open>
  The lifecycle events of a runtime: which items an operation adds to the stream, and that a
  rejected item is handed back exactly when it is not in the buffer. The driver keeps the
  rejected item and offers it first, so nothing is lost, doubled or reordered.
\<close>

section \<open>Numbers handed out\<close>

text \<open>The number of the next item; after the last number it is the one past the largest.\<close>

definition next_number :: "StreamSequencer \<Rightarrow> nat" where
  "next_number q = (if sq_exhausted q then 2 ^ 64 else unat (sequence_get (sq_next_sequence q)))"

definition item_number :: "'a StreamItem \<Rightarrow> Id \<times> nat" where
  "item_number i = (si_stream_id i, unat (sequence_get (si_sequence i)))"

text \<open>\<open>new\<close> are the items handed out between two states of a sequencer, in order.\<close>

definition handed_out :: "StreamSequencer \<Rightarrow> StreamSequencer \<Rightarrow> 'a StreamItem list \<Rightarrow> bool" where
  "handed_out q q' new \<longleftrightarrow>
     sq_stream_id q' = sq_stream_id q \<and> next_number q \<le> next_number q' \<and>
     map item_number new = map (Pair (sq_stream_id q)) [next_number q..<next_number q']"

lemma handed_out_refl [simp]: "handed_out q q []"
  by (simp add: handed_out_def)

lemma upt_join: "i \<le> j \<Longrightarrow> j \<le> k \<Longrightarrow> [i..<j] @ [j..<k] = [i..<k]"
  by (metis le_Suc_ex upt_add_eq_append)

lemma handed_out_trans:
  assumes "handed_out a b xs" and "handed_out b c ys"
  shows "handed_out a c (xs @ ys)"
proof -
  have "map item_number (xs @ ys) =
      map (Pair (sq_stream_id a)) ([next_number a..<next_number b] @ [next_number b..<next_number c])"
    using assms by (simp add: handed_out_def)
  also have "[next_number a..<next_number b] @ [next_number b..<next_number c] = [next_number a..<next_number c]"
    by (rule upt_join) (use assms in \<open>simp_all add: handed_out_def\<close>)
  finally show ?thesis using assms by (simp add: handed_out_def)
qed

lemma emit_handed_out:
  assumes "emit q e = (q', Inr i)"
  shows "handed_out q q' [i]" and "si_payload i = e"
proof -
  have q: "\<not> sq_exhausted q" using assms by (auto simp: emit_def)
  have i: "i = \<lparr>si_stream_id = sq_stream_id q, si_sequence = sq_next_sequence q, si_payload = e\<rparr>"
    using assms q by (simp add: emit_def Let_def)
  have "sq_stream_id q' = sq_stream_id q \<and> next_number q' = Suc (next_number q)"
  proof (cases "checked_add_u64 (sequence_get (sq_next_sequence q)) 1")
    case None
    then have "sequence_get (sq_next_sequence q) = u64_max" by (simp add: checked_add_one_None_iff)
    then show ?thesis
      using assms q None by (auto simp: emit_def Let_def Sequence_checked_next_def next_number_def unat_u64_max)
  next
    case (Some n)
    then have "q' = q\<lparr>sq_next_sequence := Sequence n\<rparr>"
      using assms q by (auto simp: emit_def Let_def Sequence_checked_next_def)
    then show ?thesis using q checked_add_one_Some [OF Some] by (simp add: next_number_def)
  qed
  then show "handed_out q q' [i]" using q by (simp add: handed_out_def i item_number_def next_number_def)
  show "si_payload i = e" by (simp add: i)
qed

lemma emit_refused:
  assumes "emit q e = (q', Inl x)"
  shows "q' = q" and "sq_exhausted q"
  using assms by (simp_all add: emit_def Let_def split: if_splits)

section \<open>What the items report\<close>

fun started_attempt :: "RuntimeEvent \<Rightarrow> AttemptId option" where
  "started_attempt (TaskStarted _ _ a) = Some a"
| "started_attempt _ = None"

fun completed_task :: "RuntimeEvent \<Rightarrow> Id option" where
  "completed_task (TaskCompleted _ t _) = Some t"
| "completed_task _ = None"

definition started_attempts :: "RuntimeEvent StreamItem list \<Rightarrow> AttemptId list" where
  "started_attempts items = concat (map (\<lambda>i. case started_attempt (si_payload i) of None \<Rightarrow> [] | Some a \<Rightarrow> [a]) items)"

definition completed_tasks :: "RuntimeEvent StreamItem list \<Rightarrow> Id list" where
  "completed_tasks items = concat (map (\<lambda>i. case completed_task (si_payload i) of None \<Rightarrow> [] | Some t \<Rightarrow> [t]) items)"

lemma reports_simps [simp]:
  "started_attempts [] = []" "started_attempts (xs @ ys) = started_attempts xs @ started_attempts ys"
  "completed_tasks [] = []" "completed_tasks (xs @ ys) = completed_tasks xs @ completed_tasks ys"
  by (simp_all add: started_attempts_def completed_tasks_def)

lemma reports_single:
  "started_attempts [i] = (case started_attempt (si_payload i) of None \<Rightarrow> [] | Some a \<Rightarrow> [a])"
  "completed_tasks [i] = (case completed_task (si_payload i) of None \<Rightarrow> [] | Some t \<Rightarrow> [t])"
  by (simp_all add: started_attempts_def completed_tasks_def)

text \<open>
  \<open>reported rt rt' new\<close>: the new items are numbered in sequence, name the attempts begun in
  between and, unless the sequencer ran out, the tasks completed in between.
\<close>

definition reported :: "('v, 'st) Runtime \<Rightarrow> ('v, 'st) Runtime \<Rightarrow> RuntimeEvent StreamItem list \<Rightarrow> bool" where
  "reported rt rt' new \<longleftrightarrow>
     handed_out (rt_execution_sequencer rt) (rt_execution_sequencer rt') new \<and>
     (sq_exhausted (rt_execution_sequencer rt) \<longrightarrow> sq_exhausted (rt_execution_sequencer rt')) \<and>
     map ta_attempt_id (known_attempts rt') = map ta_attempt_id (known_attempts rt) @ started_attempts new \<and>
     (sq_exhausted (rt_execution_sequencer rt') \<or>
      completion_ids (wg_facts (rt_workflow rt')) = completion_ids (wg_facts (rt_workflow rt)) @ completed_tasks new)"

lemma reported_refl [simp]: "reported rt rt []"
  by (simp add: reported_def)

lemma reported_trans: "reported a b xs \<Longrightarrow> reported b c ys \<Longrightarrow> reported a c (xs @ ys)"
  by (auto simp: reported_def intro: handed_out_trans)

definition buffered_items :: "('v, 'st) Runtime \<Rightarrow> RuntimeEvent StreamItem list" where
  "buffered_items rt = ls_items (rt_execution_events rt)"

fun rejected_item :: "RuntimeError \<Rightarrow> RuntimeEvent StreamItem list" where
  "rejected_item (ExecutionBackpressure i) = [i]"
| "rejected_item _ = []"

definition held_item :: "RuntimeError + 'a \<Rightarrow> RuntimeEvent StreamItem list" where
  "held_item r = (case r of Inl e \<Rightarrow> rejected_item e | Inr _ \<Rightarrow> [])"

lemma held_item_simps [simp]: "held_item (Inr x) = []" "held_item (Inl e) = rejected_item e"
  by (simp_all add: held_item_def)

text \<open>A started attempt is kept back only together with the rejection of its item.\<close>

definition held_start :: "('v, 'st) Runtime \<Rightarrow> RuntimeError + 'a \<Rightarrow> bool" where
  "held_start rt r \<longleftrightarrow> (\<forall>a i. rt_pending_started rt = Some (a, i) \<longrightarrow> r = Inl (ExecutionBackpressure i))"

definition lossless_step :: "('v, 'st) Runtime \<Rightarrow> ('v, 'st) Runtime \<times> (RuntimeError + 'a) \<Rightarrow> bool" where
  "lossless_step rt result \<longleftrightarrow>
     (case result of (rt', r) \<Rightarrow>
        rt_pending_started rt = None \<longrightarrow>
        held_start rt' r \<and>
        (\<exists>new. reported rt rt' new \<and> buffered_items rt' @ held_item r = buffered_items rt @ new))"

lemma lossless_stepI:
  assumes "rt_pending_started rt = None \<Longrightarrow> held_start rt' r \<and> reported rt rt' new \<and>
    buffered_items rt' @ held_item r = buffered_items rt @ new"
  shows "lossless_step rt (rt', r)"
  using assms by (auto simp: lossless_step_def)

text \<open>A step that neither emits nor begins nor completes.\<close>

definition quiet_step :: "('v, 'st) Runtime \<Rightarrow> ('v, 'st) Runtime \<Rightarrow> bool" where
  "quiet_step rt rt' \<longleftrightarrow>
     rt_execution_sequencer rt' = rt_execution_sequencer rt \<and> rt_execution_events rt' = rt_execution_events rt \<and>
     rt_attempts rt' = rt_attempts rt \<and> rt_pending_started rt' = rt_pending_started rt \<and> rt_workflow rt' = rt_workflow rt"

lemma quiet_lossless:
  assumes "quiet_step rt rt'" and "held_item r = []"
  shows "lossless_step rt (rt', r)"
  by (rule lossless_stepI [of _ _ _ "[]"])
    (use assms in \<open>simp add: quiet_step_def held_start_def reported_def known_attempts_def buffered_items_def\<close>)

lemma unchanged_lossless: "held_item r = [] \<Longrightarrow> lossless_step rt (rt, r)"
  by (rule quiet_lossless) (simp_all add: quiet_step_def)

lemma lossless_and_then:
  assumes first: "lossless_step rt m" and second: "\<And>rt1 x. m = (rt1, Inr x) \<Longrightarrow> lossless_step rt1 (f rt1 x)"
  shows "lossless_step rt (and_then m f)"
proof -
  obtain rt1 r1 where m: "m = (rt1, r1)" by fastforce
  show ?thesis
  proof (cases r1)
    case (Inl e)
    then show ?thesis using first m by (auto simp: lossless_step_def held_start_def)
  next
    case (Inr x)
    obtain rt2 r2 where f: "f rt1 x = (rt2, r2)" by fastforce
    have two: "lossless_step rt1 (rt2, r2)" using second [of rt1 x] m Inr f by simp
    show ?thesis
      unfolding m Inr and_then_simps f lossless_step_def prod.case
    proof
      assume none: "rt_pending_started rt = None"
      then obtain new where new: "reported rt rt1 new" "buffered_items rt1 = buffered_items rt @ new" "held_start rt1 (Inr x :: RuntimeError + 'c)"
        using first m Inr by (auto simp: lossless_step_def)
      have "rt_pending_started rt1 = None" using new(3) by (cases "rt_pending_started rt1") (auto simp: held_start_def)
      then obtain more where more: "held_start rt2 r2" "reported rt1 rt2 more" "buffered_items rt2 @ held_item r2 = buffered_items rt1 @ more"
        using two by (auto simp: lossless_step_def)
      show "held_start rt2 r2 \<and> (\<exists>new. reported rt rt2 new \<and> buffered_items rt2 @ held_item r2 = buffered_items rt @ new)"
        using more reported_trans [OF new(1) more(2)] new(2) by auto
    qed
  qed
qed

lemma quiet_first:
  assumes "quiet_step rt rt1" and "lossless_step rt1 m"
  shows "lossless_step rt m"
  using assms
  by (cases m) (simp add: lossless_step_def quiet_step_def reported_def known_attempts_def buffered_items_def)

section \<open>The operations\<close>

lemma capture_pins_not_rejected: "capture_capability_pins rt t expected = Inl e \<Longrightarrow> rejected_item e = []"
proof -
  have "rejected_item e = []" if "try_fold (capture_pin rt t) ps rs = Inl e" for ps rs e
    using that by (induction rs arbitrary: ps) (auto simp: capture_pin_def split: sum.splits option.splits if_splits)
  then show "capture_capability_pins rt t expected = Inl e \<Longrightarrow> rejected_item e = []"
    by (auto simp: capture_capability_pins_def check_expected_pins_def Let_def split: sum.splits option.splits if_splits)
qed

lemma commit_lossless: "lossless_step rt (commit_durable ops rt key ms)"
proof -
  obtain rt' r where run: "commit_durable ops rt key ms = (rt', r)" by fastforce
  have "quiet_step rt rt' \<and> held_item r = []"
    using run by (auto simp: commit_durable_def quiet_step_def split: sum.splits prod.splits)
  then show ?thesis by (simp add: run quiet_lossless)
qed

text \<open>An item emitted and offered to the buffer is in the buffer or rejected.\<close>

lemma emit_offer:
  assumes "emit_execution rt e = (rt1, Inr i)" and "enqueue_execution rt1 i = (rt2, r)"
  shows "si_payload i = e" and "handed_out (rt_execution_sequencer rt) (rt_execution_sequencer rt2) [i]"
    and "buffered_items rt2 @ held_item r = buffered_items rt @ [i]" and "r = Inr () \<or> r = Inl (ExecutionBackpressure i)"
    and "same_state rt rt2" and "\<not> sq_exhausted (rt_execution_sequencer rt)"
proof -
  obtain q where q: "emit (rt_execution_sequencer rt) e = (q, Inr i)" and rt1: "rt1 = rt\<lparr>rt_execution_sequencer := q\<rparr>"
    using assms(1) by (auto simp: emit_execution_def split: prod.splits sum.splits)
  show "si_payload i = e" by (rule emit_handed_out(2) [OF q])
  have offer: "rt2 = rt1 \<and> r = Inl (ExecutionBackpressure i) \<or>
      rt2 = rt1\<lparr>rt_execution_events := (rt_execution_events rt1)\<lparr>ls_items := ls_items (rt_execution_events rt1) @ [i]\<rparr>\<rparr> \<and> r = Inr ()"
    using assms(2) by (auto simp: enqueue_execution_def lossless_try_push_def split: if_splits)
  then show "handed_out (rt_execution_sequencer rt) (rt_execution_sequencer rt2) [i]"
    "buffered_items rt2 @ held_item r = buffered_items rt @ [i]" "r = Inr () \<or> r = Inl (ExecutionBackpressure i)"
    using emit_handed_out(1) [OF q] by (auto simp: rt1 buffered_items_def)
  show "same_state rt rt2" using offer by (auto simp: rt1 same_state_def)
  show "\<not> sq_exhausted (rt_execution_sequencer rt)" using q by (auto simp: emit_def)
qed

lemma emit_stops:
  assumes "emit_execution rt e = (rt1, Inl x)"
  shows "quiet_step rt rt1" and "rejected_item x = []" and "sq_exhausted (rt_execution_sequencer rt1)"
  using assms emit_refused [of "rt_execution_sequencer rt" e]
  by (auto simp: emit_execution_def quiet_step_def split: prod.splits sum.splits)

lemma publish_started_lossless: "lossless_step rt (publish_started rt a)"
proof -
  let ?e = "TaskStarted (rt_run_id rt) (ta_task_id a) (ta_attempt_id a)"
  obtain rt1 r1 where e: "emit_execution rt ?e = (rt1, r1)" by fastforce
  show ?thesis
  proof (cases r1)
    case (Inl x)
    then have "publish_started rt a = (rt1, Inl x)" using e by (simp add: publish_started_def)
    then show ?thesis using quiet_lossless [of rt rt1 "Inl x"] emit_stops [OF e [unfolded Inl]] by simp
  next
    case (Inr i)
    obtain rt2 r2 where q: "enqueue_execution rt1 i = (rt2, r2)" by fastforce
    note o = emit_offer [OF e [unfolded Inr] q]
    have started: "started_attempts [i] = [ta_attempt_id a]" "completed_tasks [i] = []"
      using o(1) by (simp_all add: reports_single)
    show ?thesis
      using o(4)
    proof
      assume r2: "r2 = Inr ()"
      then have "publish_started rt a = (rt2\<lparr>rt_attempts := rt_attempts rt2 @ [a]\<rparr>, Inr (ta_attempt_id a))"
        using e Inr q by (simp add: publish_started_def)
      then show ?thesis
        using o started r2 
        by (auto intro!: lossless_stepI [of _ _ _ "[i]"]
          simp: held_start_def reported_def known_attempts_def same_state_def buffered_items_def handed_out_def)
    next
      assume r2: "r2 = Inl (ExecutionBackpressure i)"
      then have "publish_started rt a = (rt2\<lparr>rt_pending_started := Some (a, i)\<rparr>, Inl (ExecutionBackpressure i))"
        using e Inr q by (simp add: publish_started_def)
      then show ?thesis
        using o started r2 
        by (auto intro!: lossless_stepI [of _ _ _ "[i]"]
          simp: held_start_def reported_def known_attempts_def same_state_def buffered_items_def handed_out_def)
    qed
  qed
qed

lemma publish_numbered_lossless: "lossless_step rt (publish_started (rt\<lparr>rt_next_attempt_number := n\<rparr>) a)"
  by (rule quiet_first [OF _ publish_started_lossless]) (simp add: quiet_step_def)

lemma begin_attempt_lossless: "lossless_step rt (begin_attempt ops rt t x)"
  unfolding begin_attempt_def Let_def
  by (auto intro!: unchanged_lossless lossless_and_then commit_lossless publish_numbered_lossless
      dest!: capture_pins_not_rejected split: sum.splits option.splits)

lemma attempt_or_begin_lossless: "lossless_step rt (attempt_or_begin ops rt t x)"
  by (auto simp: attempt_or_begin_def intro!: unchanged_lossless begin_attempt_lossless split: option.splits)

lemma emit_completed_lossless:
  assumes "complete (rt_workflow rt) t = (w, Inr c)"
  shows "lossless_step rt (emit_completed (rt\<lparr>rt_workflow := w\<rparr>) t a)"
proof -
  let ?rt = "rt\<lparr>rt_workflow := w\<rparr>"
  have w: "completion_ids (wg_facts w) = completion_ids (wg_facts (rt_workflow rt)) @ [t]"
    using assms by (auto simp: complete_Inr_iff completion_ids_def)
  obtain rt1 r1 where e: "emit_execution ?rt (TaskCompleted (rt_run_id ?rt) t a) = (rt1, r1)" by fastforce
  show ?thesis
  proof (cases r1)
    case (Inl x)
    then have "emit_completed ?rt t a = (rt1, Inl x)" using e by (simp add: emit_completed_def)
    then show ?thesis
      using emit_stops [OF e [unfolded Inl]] 
      by (auto intro!: lossless_stepI [of _ _ _ "[]"]
          simp: quiet_step_def held_start_def reported_def known_attempts_def buffered_items_def)
  next
    case (Inr i)
    obtain rt2 r2 where q: "enqueue_execution rt1 i = (rt2, r2)" by fastforce
    note o = emit_offer [OF e [unfolded Inr] q]
    have "started_attempts [i] = []" "completed_tasks [i] = [t]" using o(1) by (simp_all add: reports_single)
    moreover have "emit_completed ?rt t a = (rt2, r2)" using e Inr q by (simp add: emit_completed_def)
    ultimately show ?thesis
      using o(2-6) w
      by (auto intro!: lossless_stepI [of _ _ _ "[i]"]
          simp: held_start_def reported_def known_attempts_def same_state_def buffered_items_def handed_out_def)
  qed
qed

lemma complete_task_lossless: "lossless_step rt (complete_task ops rt t a)"
proof (cases "complete (rt_workflow rt) t")
  case (Pair w out)
  show ?thesis
  proof (cases out)
    case (Inl e)
    then show ?thesis using Pair by (simp add: complete_task_def unchanged_lossless)
  next
    case (Inr c)
    show ?thesis
      unfolding complete_task_def Pair Inr prod.case sum.case
    proof (rule lossless_and_then [OF commit_lossless])
      fix rt1 v
      assume com: "commit_durable ops rt (''completion:'' @ as_str t @ '':'' @ AttemptId_as_str a)
        [RecordCompletion \<lparr>dc_task_id = t, dc_attempt_id = a\<rparr>] = (rt1, Inr v)"
      have "rt_workflow rt1 = rt_workflow rt" using commit_durable_same [OF com] by (simp add: same_state_def)
      then show "lossless_step rt1 (emit_completed (rt1\<lparr>rt_workflow := w\<rparr>) t a)"
        using emit_completed_lossless [of rt1 t w c a] Pair Inr by simp
    qed
  qed
qed

lemma complete_step_task_lossless: "lossless_step rt (complete_step_task ops t rt a)"
  unfolding complete_step_task_def by (intro lossless_and_then complete_task_lossless unchanged_lossless) simp

text \<open>An update of the memory that the lifecycle does not see, after a commit.\<close>

lemma commit_then_lossless:
  assumes "\<And>rt. quiet_step rt (f rt)"
  shows "lossless_step rt (and_then (commit_durable ops rt key ms) (\<lambda>rt _. (f rt, Inr y)))"
  by (intro lossless_and_then commit_lossless quiet_lossless) (simp_all add: assms)

lemma record_effect_intent_lossless: "lossless_step rt (record_effect_intent ops rt t x k)"
  by (auto simp: record_effect_intent_def Let_def quiet_step_def
      intro!: unchanged_lossless commit_then_lossless split: sum.splits)

lemma record_effect_outcome_lossless: "lossless_step rt (record_effect_outcome ops rt x a k)"
  by (auto simp: record_effect_outcome_def Let_def quiet_step_def
      intro!: unchanged_lossless commit_then_lossless split: sum.splits)

lemma cancel_task_lossless: "lossless_step rt (cancel_task ops rt t)"
  by (auto simp: cancel_task_def Let_def quiet_step_def intro!: unchanged_lossless commit_then_lossless)

lemma record_dispatch_fact_lossless: "lossless_step rt (record_dispatch_fact ops x rt a)"
  by (auto simp: record_dispatch_fact_def Let_def quiet_step_def
      intro!: unchanged_lossless commit_then_lossless split: sum.splits)

lemma dispatch_effect_lossless: "lossless_step rt (dispatch_effect ops rt x)"
  by (auto simp: dispatch_effect_def dispatch_attempt_def
      intro!: unchanged_lossless lossless_and_then attempt_or_begin_lossless begin_attempt_lossless record_dispatch_fact_lossless
      split: sum.splits RecoveredEffectState.splits)

lemma classify_runtime_not_rejected: "classify_runtime rt x = Inl e \<Longrightarrow> rejected_item e = []"
  by (auto simp: classify_runtime_def split: sum.splits JournalError.splits)

lemma recover_lossless: "lossless_step rt (recover ops rt x)"
  by (auto simp: recover_def intro!: unchanged_lossless lossless_and_then complete_task_lossless
      dest!: classify_runtime_not_rejected split: sum.splits option.splits)

lemma ensure_configured_effect_lossless: "lossless_step rt (ensure_configured_effect ops rt t)"
  by (auto simp: ensure_configured_effect_def
      intro!: unchanged_lossless lossless_and_then record_effect_intent_lossless split: sum.splits option.splits)

lemma step_effect_lossless: "lossless_step rt (step_effect ops t rt x)"
  by (auto simp: step_effect_def intro!: unchanged_lossless lossless_and_then attempt_or_begin_lossless complete_step_task_lossless
      dest!: classify_runtime_not_rejected
      split: sum.splits option.splits RecoveredEffectState.splits KnownEffectOutcome.splits)

lemma step_task_lossless: "lossless_step rt (step_task ops rt t)"
  unfolding step_task_def
  by (auto intro!: lossless_and_then ensure_configured_effect_lossless attempt_or_begin_lossless complete_step_task_lossless
      step_effect_lossless split: option.splits)

lemma runtime_step_lossless: "lossless_step rt (runtime_step ops rt)"
  by (auto simp: runtime_step_def lossless_step_def [of rt "(rt, Inl (ExecutionBackpressure _))"]
      intro!: unchanged_lossless step_task_lossless split: option.splits)

end
