(* ===== verification/Driver_Moves.thy ===== *)
theory Driver_Moves
  imports Driver_Lifecycle "HOL-Library.Sublist"
begin

text \<open>
  What the owner of a driver does to its runtime in one command: a sequence of calls of the
  runtime, during which the journal only grows and no lifecycle item is lost.
\<close>

section \<open>The journal only grows\<close>

definition journal_extends :: "DurableJournal \<Rightarrow> DurableJournal \<Rightarrow> bool" where
  "journal_extends j j' \<longleftrightarrow>
     (\<forall>x. prefix (attempts_entry j x) (attempts_entry j' x)) \<and>
     (\<forall>x i. fmlookup (jr_intents j) x = Some i \<longrightarrow> fmlookup (jr_intents j') x = Some i)"

lemma journal_extends_refl [simp]: "journal_extends j j"
  by (simp add: journal_extends_def)

lemma journal_extends_trans: "journal_extends a b \<Longrightarrow> journal_extends b c \<Longrightarrow> journal_extends a c"
  by (meson journal_extends_def prefix_order.trans)

lemma persist_extends:
  "persist_intent j i = Inr j' \<Longrightarrow> journal_extends j j'"
  "persist_dispatch j d = Inr j' \<Longrightarrow> journal_extends j j'"
  "persist_outcome j out = Inr j' \<Longrightarrow> journal_extends j j'"
  by (auto simp: persist_intent_def persist_dispatch_def persist_outcome_def journal_extends_def attempts_entry_def
      contains_key_def split: if_splits option.splits)

definition journal_step :: "('v, 'st) Runtime \<Rightarrow> ('v, 'st) Runtime \<times> (RuntimeError + 'a) \<Rightarrow> bool" where
  "journal_step rt m \<longleftrightarrow> journal_extends (rt_journal rt) (rt_journal (fst m)) \<and> rt_run_id (fst m) = rt_run_id rt"

lemma journal_step_same: "rt_journal rt' = rt_journal rt \<Longrightarrow> rt_run_id rt' = rt_run_id rt \<Longrightarrow> journal_step rt (rt', r)"
  by (simp add: journal_step_def)

lemma journal_and_then:
  assumes "journal_step rt m" and "\<And>rt1 x. m = (rt1, Inr x) \<Longrightarrow> journal_step rt1 (f rt1 x)"
  shows "journal_step rt (and_then m f)"
proof -
  obtain rt1 r1 where m: "m = (rt1, r1)" by fastforce
  then show ?thesis using assms journal_extends_trans by (cases r1) (auto simp: journal_step_def)
qed

lemma commit_journal: "journal_step rt (commit_durable ops rt key ms)"
  using commit_durable_same [of ops rt key ms] by (cases "commit_durable ops rt key ms") (auto simp: journal_step_def same_state_def)

lemma persist_journal:
  assumes "journal_extends (rt_journal rt) j"
  shows "journal_step rt (and_then (commit_durable ops rt key ms) (\<lambda>rt _. (rt\<lparr>rt_journal := j\<rparr>, Inr y)))"
proof -
  obtain rt1 r1 where com: "commit_durable ops rt key ms = (rt1, r1)" by fastforce
  then show ?thesis
    using assms commit_durable_same [OF com] by (cases r1) (auto simp: journal_step_def same_state_def)
qed

lemma begin_attempt_journal: "journal_step rt (begin_attempt ops rt t x)"
  using begin_attempt_keeps [of ops rt t x] by (cases "begin_attempt ops rt t x") (auto simp: journal_step_def)

lemma attempt_or_begin_journal: "journal_step rt (attempt_or_begin ops rt t x)"
  using attempt_or_begin_keeps [of ops rt t x] by (cases "attempt_or_begin ops rt t x") (auto simp: journal_step_def)

lemma complete_task_journal: "journal_step rt (complete_task ops rt t a)"
proof -
  obtain rt' r where run: "complete_task ops rt t a = (rt', r)" by fastforce
  then show ?thesis
    by (cases rule: complete_task_cases)
      (auto simp: run journal_step_def same_state_def dest!: commit_durable_same)
qed

lemma complete_step_task_journal: "journal_step rt (complete_step_task ops t rt a)"
  unfolding complete_step_task_def by (intro journal_and_then complete_task_journal journal_step_same) simp_all

lemma record_effect_intent_journal: "journal_step rt (record_effect_intent ops rt t x k)"
  by (auto simp: record_effect_intent_def Let_def
      intro!: journal_step_same persist_journal dest: persist_extends split: sum.splits)

lemma record_effect_outcome_journal: "journal_step rt (record_effect_outcome ops rt x a k)"
  by (auto simp: record_effect_outcome_def Let_def
      intro!: journal_step_same persist_journal dest: persist_extends split: sum.splits)

lemma record_dispatch_fact_journal: "journal_step rt (record_dispatch_fact ops x rt a)"
  by (auto simp: record_dispatch_fact_def Let_def
      intro!: journal_step_same persist_journal dest: persist_extends split: sum.splits)

lemma cancel_task_journal: "journal_step rt (cancel_task ops rt t)"
  by (auto simp: cancel_task_def Let_def intro!: journal_step_same journal_and_then commit_journal)

lemma dispatch_effect_journal: "journal_step rt (dispatch_effect ops rt x)"
  by (auto simp: dispatch_effect_def dispatch_attempt_def
      intro!: journal_step_same journal_and_then attempt_or_begin_journal begin_attempt_journal record_dispatch_fact_journal
      split: sum.splits RecoveredEffectState.splits)

lemma recover_journal: "journal_step rt (recover ops rt x)"
  by (auto simp: recover_def intro!: journal_step_same journal_and_then complete_task_journal split: sum.splits option.splits)

lemma ensure_configured_effect_journal: "journal_step rt (ensure_configured_effect ops rt t)"
  by (auto simp: ensure_configured_effect_def
      intro!: journal_step_same journal_and_then record_effect_intent_journal split: sum.splits option.splits)

lemma step_effect_journal: "journal_step rt (step_effect ops t rt x)"
  by (auto simp: step_effect_def intro!: journal_step_same journal_and_then attempt_or_begin_journal complete_step_task_journal
      split: sum.splits option.splits RecoveredEffectState.splits KnownEffectOutcome.splits)

lemma runtime_step_journal: "journal_step rt (runtime_step ops rt)"
  unfolding runtime_step_def step_task_def
  by (auto intro!: journal_step_same journal_and_then ensure_configured_effect_journal attempt_or_begin_journal
      complete_step_task_journal step_effect_journal split: option.splits)

text \<open>A successful dispatch adds its attempt to the attempts of the operation.\<close>

lemma dispatch_effect_adds:
  assumes "dispatch_effect ops rt x = (rt', Inr a)"
  shows "attempts_entry (rt_journal rt') x = attempts_entry (rt_journal rt) x @ [a]"
    and "\<exists>i. fmlookup (jr_intents (rt_journal rt)) x = Some i"
proof -
  obtain i rt1 b where d: "dispatch_attempt ops rt i x = (rt1, Inr b)" and f: "record_dispatch_fact ops x rt1 b = (rt', Inr a)"
    and i: "journal_intent (rt_journal rt) x = Inr i"
    using assms by (auto simp: dispatch_effect_def elim!: and_then_Inr split: sum.splits if_splits RecoveredEffectState.splits)
  have same: "rt_journal rt1 = rt_journal rt"
    using dispatch_attempt_Inr [OF d] attempt_or_begin_keeps begin_attempt_keeps by metis
  obtain j rt2 v where j: "persist_dispatch (rt_journal rt1) \<lparr>dr_operation_id = x, dr_attempt_id = b\<rparr> = Inr j"
    and "rt' = rt2\<lparr>rt_journal := j\<rparr>" "a = b"
    using f by (auto simp: record_dispatch_fact_def Let_def elim!: and_then_Inr split: sum.splits)
  then show "attempts_entry (rt_journal rt') x = attempts_entry (rt_journal rt) x @ [a]"
    using same by (auto simp: persist_dispatch_def attempts_entry_def split: if_splits)
  show "\<exists>i. fmlookup (jr_intents (rt_journal rt)) x = Some i"
    using i by (auto simp: journal_intent_def split: option.splits)
qed

section \<open>Moves of the owner\<close>

text \<open>A started attempt is kept back in the runtime only while the driver keeps its item.\<close>

definition held_inv :: "('v, 'st) RuntimeDriver \<Rightarrow> bool" where
  "held_inv d \<longleftrightarrow> (\<forall>a i. rt_pending_started (dv_runtime d) = Some (a, i) \<longrightarrow> dv_pending_lifecycle d = Some i)"

definition undrained :: "('v, 'st) RuntimeDriver \<Rightarrow> RuntimeEvent StreamItem list" where
  "undrained d = buffered_items (dv_runtime d) @ (case dv_pending_lifecycle d of None \<Rightarrow> [] | Some i \<Rightarrow> [i])"

definition driver_moves :: "'st store_ops \<Rightarrow> ('v, 'st) RuntimeDriver \<Rightarrow> ('v, 'st) RuntimeDriver \<Rightarrow> bool" where
  "driver_moves ops d d' \<longleftrightarrow>
     (runtime_call ops)\<^sup>*\<^sup>* (dv_runtime d) (dv_runtime d') \<and>
     journal_extends (rt_journal (dv_runtime d)) (rt_journal (dv_runtime d')) \<and>
     rt_run_id (dv_runtime d') = rt_run_id (dv_runtime d) \<and>
     (held_inv d \<longrightarrow>
        held_inv d' \<and> (\<exists>new. reported (dv_runtime d) (dv_runtime d') new \<and> undrained d' = undrained d @ new))"

lemma driver_moves_refl [simp]: "driver_moves ops d d"
  by (auto simp: driver_moves_def)

lemma driver_moves_trans:
  assumes "driver_moves ops a b" and "driver_moves ops b c"
  shows "driver_moves ops a c"
proof -
  have "\<exists>new. reported (dv_runtime a) (dv_runtime c) new \<and> undrained c = undrained a @ new" if held: "held_inv a"
  proof -
    obtain xs where xs: "reported (dv_runtime a) (dv_runtime b) xs" "undrained b = undrained a @ xs" "held_inv b"
      using assms(1) held by (auto simp: driver_moves_def)
    then obtain ys where "reported (dv_runtime b) (dv_runtime c) ys" "undrained c = undrained b @ ys"
      using assms(2) by (auto simp: driver_moves_def)
    then show ?thesis using xs reported_trans by fastforce
  qed
  moreover have "(runtime_call ops)\<^sup>*\<^sup>* (dv_runtime a) (dv_runtime c)"
    using assms by (auto simp: driver_moves_def intro: rtranclp_trans)
  ultimately show ?thesis using assms by (auto simp: driver_moves_def intro: journal_extends_trans)
qed

text \<open>One call of the runtime by an owner that holds nothing back, and its error kept by \<open>hold_rejected\<close>.\<close>

definition after_call :: "('v, 'st) RuntimeDriver \<Rightarrow> ('v, 'st) Runtime \<times> (RuntimeError + 'a) \<Rightarrow> ('v, 'st) RuntimeDriver" where
  "after_call d m =
     (case m of
        (rt, Inl e) \<Rightarrow> hold_rejected e (d\<lparr>dv_runtime := rt\<rparr>)
      | (rt, Inr _) \<Rightarrow> d\<lparr>dv_runtime := rt\<rparr>)"

lemma after_call_simps [simp]:
  "after_call d (rt, Inl e) = hold_rejected e (d\<lparr>dv_runtime := rt\<rparr>)" "after_call d (rt, Inr x) = d\<lparr>dv_runtime := rt\<rparr>"
  by (simp_all add: after_call_def)

lemma hold_rejected_simps [simp]:
  "dv_runtime (hold_rejected e d) = dv_runtime d"
  "dv_pending_lifecycle (hold_rejected e d) =
     (case e of ExecutionBackpressure i \<Rightarrow> Some i | _ \<Rightarrow> dv_pending_lifecycle d)"
  by (simp_all add: hold_rejected_def split: RuntimeError.splits)

lemma call_moves:
  assumes empty: "dv_pending_lifecycle d = None"
    and call: "runtime_call ops (dv_runtime d) (fst m)" and journal: "journal_step (dv_runtime d) m"
    and lossless: "lossless_step (dv_runtime d) m"
  shows "driver_moves ops d (after_call d m)"
proof -
  obtain rt r where m: "m = (rt, r)" by fastforce
  have after: "dv_runtime (after_call d m) = rt"
    "(case dv_pending_lifecycle (after_call d m) of None \<Rightarrow> [] | Some i \<Rightarrow> [i]) = held_item r"
    "\<And>i. r = Inl (ExecutionBackpressure i) \<Longrightarrow> dv_pending_lifecycle (after_call d m) = Some i"
    using empty by (auto simp: m after_call_def held_item_def split: sum.splits RuntimeError.splits)
  have "held_inv (after_call d m) \<and>
      (\<exists>new. reported (dv_runtime d) (dv_runtime (after_call d m)) new \<and> undrained (after_call d m) = undrained d @ new)"
    if "held_inv d"
  proof -
    have "rt_pending_started (dv_runtime d) = None"
      using that empty by (cases "rt_pending_started (dv_runtime d)") (auto simp: held_inv_def)
    then show ?thesis using lossless after empty by (auto simp: m lossless_step_def held_start_def held_inv_def undrained_def)
  qed
  then show ?thesis using call journal after(1) by (auto simp: m driver_moves_def journal_step_def)
qed

text \<open>A call that the lifecycle does not see may be made while an item is held.\<close>

lemma quiet_moves:
  assumes "runtime_call ops (dv_runtime d) rt" and "journal_step (dv_runtime d) (rt, r :: RuntimeError + 'a)"
    and "quiet_step (dv_runtime d) rt"
  shows "driver_moves ops d (d\<lparr>dv_runtime := rt\<rparr>)"
proof -
  have "reported (dv_runtime d) rt []" 
    using assms(3) by (simp add: quiet_step_def reported_def known_attempts_def)
  then show ?thesis
    using assms by (auto simp: driver_moves_def journal_step_def quiet_step_def held_inv_def undrained_def buffered_items_def)
qed

lemma hold_rejected_same: "rejected_item e = [] \<Longrightarrow> hold_rejected e d = d"
  by (cases e) (simp_all add: hold_rejected_def)

definition offered_again :: "('v, 'st) Runtime \<Rightarrow> RuntimeEvent StreamItem \<Rightarrow> RuntimeEvent StreamItem" where
  "offered_again rt item = (case rt_pending_started rt of Some (_, i) \<Rightarrow> i | None \<Rightarrow> item)"

lemma retry_event_cases:
  assumes "retry_execution_event rt item = (rt', r)"
  obtains (rejected) "rt' = rt" "r = Inl (ExecutionBackpressure (offered_again rt item))"
  | (queued) "r = Inr ()" "buffered_items rt' = buffered_items rt @ [offered_again rt item]" "rt_pending_started rt' = None"
      "known_attempts rt' = known_attempts rt" "rt_execution_sequencer rt' = rt_execution_sequencer rt"
      "rt_workflow rt' = rt_workflow rt" "rt_journal rt' = rt_journal rt" "rt_run_id rt' = rt_run_id rt"
proof -
  have enqueue: "enqueue_execution q i = (q, Inl (ExecutionBackpressure i)) \<or>
      enqueue_execution q i = (q\<lparr>rt_execution_events := (rt_execution_events q)\<lparr>ls_items := buffered_items q @ [i]\<rparr>\<rparr>, Inr ())"
    for q :: "('a, 'b) Runtime" and i
    by (simp add: enqueue_execution_def lossless_try_push_def buffered_items_def)
  show thesis
  proof (cases "rt_pending_started rt")
    case None
    then show thesis
      using enqueue [of rt item] assms rejected queued
      by (auto simp: retry_execution_event_def offered_again_def buffered_items_def known_attempts_def)
  next
    case (Some p)
    obtain a i where p: "p = (a, i)" by fastforce
    have again: "rt\<lparr>rt_pending_started := Some (a, i)\<rparr> = rt" using Some p by simp
    from enqueue [of "rt\<lparr>rt_pending_started := None\<rparr>" i] show thesis
    proof
      assume "enqueue_execution (rt\<lparr>rt_pending_started := None\<rparr>) i =
          (rt\<lparr>rt_pending_started := None\<rparr>, Inl (ExecutionBackpressure i))"
      then have "retry_execution_event rt item = (rt, Inl (ExecutionBackpressure i))"
        using Some p again by (simp add: retry_execution_event_def)
      then show thesis using rejected assms Some p by (simp add: offered_again_def)
    next
      assume "enqueue_execution (rt\<lparr>rt_pending_started := None\<rparr>) i =
          ((rt\<lparr>rt_pending_started := None\<rparr>)\<lparr>rt_execution_events := (rt_execution_events (rt\<lparr>rt_pending_started := None\<rparr>))
             \<lparr>ls_items := buffered_items (rt\<lparr>rt_pending_started := None\<rparr>) @ [i]\<rparr>\<rparr>, Inr ())"
      then show thesis
        using assms Some p
        by (intro queued) (auto simp: retry_execution_event_def offered_again_def buffered_items_def known_attempts_def)
    qed
  qed
qed

text \<open>The item kept back is offered first; a rejection changes nothing.\<close>

lemma retry_moves:
  assumes "retry_pending_lifecycle d = (d', r)"
  shows "driver_moves ops d d'" and "r = Inr () \<Longrightarrow> dv_pending_lifecycle d' = None"
    and "r = Inl e \<Longrightarrow> hold_rejected e d' = d'" and "r = Inl e \<Longrightarrow> \<exists>i. e = ExecutionBackpressure i"
proof -
  have "driver_moves ops d d' \<and> (r = Inr () \<longrightarrow> dv_pending_lifecycle d' = None) \<and>
      (\<forall>e. r = Inl e \<longrightarrow> hold_rejected e d' = d' \<and> (\<exists>i. e = ExecutionBackpressure i))"
  proof (cases "dv_pending_lifecycle d")
    case None
    then show ?thesis using assms by (auto simp: retry_pending_lifecycle_def)
  next
    case (Some item)
    obtain rt re where run: "retry_execution_event (dv_runtime d) item = (rt, re)" by fastforce
    have call: "(runtime_call ops)\<^sup>*\<^sup>* (dv_runtime d) rt" using runtime_call.call_retry [OF run] by blast
    from run show ?thesis
    proof (cases rule: retry_event_cases)
      case rejected
      define i where "i = offered_again (dv_runtime d) item"
      have d': "d' = d\<lparr>dv_pending_lifecycle := Some i\<rparr>" "r = Inl (ExecutionBackpressure i)"
        using assms Some run rejected by (auto simp: retry_pending_lifecycle_def i_def)
      have "d' = d" if "held_inv d"
      proof -
        have "i = item"
          using that Some by (cases "rt_pending_started (dv_runtime d)") (auto simp: held_inv_def i_def offered_again_def)
        then show ?thesis using d' Some by simp
      qed
      moreover have "dv_runtime d' = dv_runtime d" by (simp add: d')
      ultimately have "driver_moves ops d d'"
        unfolding driver_moves_def by (auto intro!: exI [of _ "[]"])
      then show ?thesis using d' by (simp add: hold_rejected_def)
    next
      case queued
      have d': "d' = d\<lparr>dv_runtime := rt, dv_pending_lifecycle := None\<rparr>" "r = Inr ()"
        using assms Some run queued(1) by (auto simp: retry_pending_lifecycle_def)
      have "offered_again (dv_runtime d) item = item" if "held_inv d"
        using that Some by (cases "rt_pending_started (dv_runtime d)") (auto simp: held_inv_def offered_again_def)
      then have "driver_moves ops d d'"
        using queued Some call by (auto simp: driver_moves_def d' held_inv_def undrained_def reported_def intro!: exI [of _ "[]"])
      then show ?thesis using d' by simp
    qed
  qed
  then show "driver_moves ops d d'" "r = Inr () \<Longrightarrow> dv_pending_lifecycle d' = None"
    "r = Inl e \<Longrightarrow> hold_rejected e d' = d'" "r = Inl e \<Longrightarrow> \<exists>i. e = ExecutionBackpressure i"
    by blast+
qed

section \<open>The commands\<close>

lemma recover_now_moves: "driver_moves ops d (fst (recover_now ops d x))"
proof -
  obtain d1 r1 where retry: "retry_pending_lifecycle d = (d1, r1)" by fastforce
  note m = retry_moves [OF retry]
  show ?thesis
  proof (cases r1)
    case (Inl e)
    then show ?thesis using m(1,3) retry by (simp add: recover_now_def driver_runtime_error_def)
  next
    case (Inr u)
    obtain rt r where run: "recover ops (dv_runtime d1) x = (rt, r)" by fastforce
    have "fst (recover_now ops d x) = after_call d1 (rt, r)"
      using retry Inr run by (cases r) (simp_all add: recover_now_def driver_runtime_error_def)
    moreover have "driver_moves ops d1 (after_call d1 (rt, r))"
      by (rule call_moves) (use m(2) Inr run runtime_call.call_recover [OF run] recover_journal [of "dv_runtime d1" ops x]
          recover_lossless [of "dv_runtime d1" ops x] in simp_all)
    ultimately show ?thesis using driver_moves_trans m(1) by metis
  qed
qed

lemma quiet_calls:
  "cancel_task ops rt t = (rt', r) \<Longrightarrow> quiet_step rt rt' \<and> held_item r = []"
  "record_effect_outcome ops rt x a k = (rt', r') \<Longrightarrow> quiet_step rt rt' \<and> held_item r' = []"
  by (auto simp: cancel_task_def record_effect_outcome_def commit_durable_def and_then_def quiet_step_def Let_def
      split: if_splits sum.splits prod.splits)

lemma quiet_rejects: "held_item (Inl e :: RuntimeError + 'a) = [] \<Longrightarrow> hold_rejected e d = d"
  by (cases e) (simp_all add: hold_rejected_def)

lemma cancel_now_moves: "driver_moves ops d (fst (cancel_now ops d t))"
proof -
  obtain rt r where run: "cancel_task ops (dv_runtime d) t = (rt, r)" by fastforce
  note q = quiet_calls(1) [OF run]
  have "fst (cancel_now ops d t) = d\<lparr>dv_runtime := rt\<rparr>"
    using run q by (cases r) (auto simp: cancel_now_def driver_runtime_error_def intro: quiet_rejects)
  then show ?thesis
    using quiet_moves [OF runtime_call.call_cancel [OF run], of r] q cancel_task_journal [of "dv_runtime d" ops t] run by simp
qed

lemma dispatch_end_moves: "driver_moves ops d (fst (dispatch_end ops d q answer))"
proof (cases answer)
  case (Inl e)
  then show ?thesis by (simp add: dispatch_end_def)
next
  case (Inr known)
  obtain rt r where run: "record_effect_outcome ops (dv_runtime d) (eq_operation_id q) (eq_attempt_id q) known = (rt, r)" by fastforce
  note s = quiet_calls(2) [OF run]
  have "fst (dispatch_end ops d q answer) = d\<lparr>dv_runtime := rt\<rparr>"
    using run s Inr by (cases r) (auto simp: dispatch_end_def driver_runtime_error_def intro: quiet_rejects)
  then show ?thesis
    using quiet_moves [OF runtime_call.call_outcome [OF run], of r] s
      record_effect_outcome_journal [of "dv_runtime d" ops "eq_operation_id q" "eq_attempt_id q" known] run by simp
qed

lemma recover_known_moves:
  "dv_pending_lifecycle d = None \<Longrightarrow> driver_moves ops d (fst (recover_known ops d xs))"
proof (induction xs arbitrary: d)
  case Nil
  then show ?case by simp
next
  case (Cons x xs)
  obtain rt r where run: "recover ops (dv_runtime d) x = (rt, r)" by fastforce
  have one: "driver_moves ops d (after_call d (rt, r))"
    by (rule call_moves) (use Cons.prems run runtime_call.call_recover [OF run] recover_journal [of "dv_runtime d" ops x]
        recover_lossless [of "dv_runtime d" ops x] in simp_all)
  show ?case
  proof (cases r)
    case (Inl e)
    then show ?thesis using run one by (simp add: driver_runtime_error_def)
  next
    case (Inr v)
    then show ?thesis using run one Cons.IH [of "d\<lparr>dv_runtime := rt\<rparr>"] Cons.prems by (auto intro: driver_moves_trans)
  qed
qed

end
