(* ===== verification/Driver_System.thy ===== *)
theory Driver_System
  imports Async_Driver
begin

text \<open>
  The driver as a system: the response channels, the command mailbox shared by handles and owner,
  the loop of \<^verbatim>\<open>run\<close>, and the futures of the callers. A waker is modelled by whether one is
  registered; to wake the owner is to schedule its task. A command that reaches a panic, or an
  owner that is dropped, unwinds through the guard of the owner and the sender of the reply.
\<close>

section \<open>Response channels\<close>

datatype DriverValue =
    DriveValue DriveResult
  | RecoveryValue RecoveryDecision
  | CancellationValue Cancellation
  | ExecutionItems "RuntimeEvent StreamItem list"
  | ProgressItems "(Id, RuntimeEvent) KeyedStreamItem list"
  | TelemetryItems "RuntimeEvent StreamItem list"
  | ShutdownValue ShutdownStatus

type_synonym driver_reply = "DriverError + DriverValue"

record ResponseState =
  rs_result :: "driver_reply option"
  rs_waker :: bool

definition response_channel :: ResponseState where
  "response_channel = \<lparr>rs_result = None, rs_waker = False\<rparr>"

text \<open>The state after a completion or a drop of the sender, and whether the caller is woken.\<close>

definition response_complete :: "ResponseState \<Rightarrow> driver_reply \<Rightarrow> ResponseState \<times> bool" where
  "response_complete st result =
     (if rs_result st \<noteq> None then (st, False)
      else (st\<lparr>rs_result := Some result, rs_waker := False\<rparr>, rs_waker st))"

definition response_drop :: "ResponseState \<Rightarrow> ResponseState \<times> bool" where
  "response_drop st =
     ((if rs_result st = None then st\<lparr>rs_result := Some (Inl OwnerDropped)\<rparr> else st)\<lparr>rs_waker := False\<rparr>, rs_waker st)"

text \<open>\<^verbatim>\<open>complete\<close> consumes the sender, which is dropped at its end.\<close>

definition response_send :: "ResponseState \<Rightarrow> driver_reply \<Rightarrow> ResponseState" where
  "response_send st result = fst (response_drop (fst (response_complete st result)))"

definition driver_future_poll :: "ResponseState \<Rightarrow> ResponseState \<times> driver_reply option" where
  "driver_future_poll st =
     (case rs_result st of
        Some result \<Rightarrow> (st\<lparr>rs_result := None\<rparr>, Some result)
      | None \<Rightarrow> (st\<lparr>rs_waker := True\<rparr>, None))"

section \<open>Commands and the mailbox\<close>

text \<open>A command carries the index of the channel its reply goes to.\<close>

datatype DriverCommand =
    Wake nat
  | DispatchEffect OperationId nat
  | Recover OperationId nat
  | CancelTask Id nat
  | DrainExecutionEvents nat
  | DrainProgressEvents nat
  | DrainTelemetryEvents nat
  | Shutdown nat

fun command_channel :: "DriverCommand \<Rightarrow> nat" where
  "command_channel (Wake reply) = reply"
| "command_channel (DispatchEffect operation_id reply) = reply"
| "command_channel (Recover operation_id reply) = reply"
| "command_channel (CancelTask task_id reply) = reply"
| "command_channel (DrainExecutionEvents reply) = reply"
| "command_channel (DrainProgressEvents reply) = reply"
| "command_channel (DrainTelemetryEvents reply) = reply"
| "command_channel (Shutdown reply) = reply"

definition command_reject :: "DriverCommand \<Rightarrow> DriverError \<Rightarrow> nat \<times> driver_reply" where
  "command_reject command error = (command_channel command, Inl error)"

record MailboxState =
  mb_commands :: "DriverCommand list"
  mb_closed :: bool
  mb_owner_dropped :: bool
  mb_waker :: bool
  mb_shutdown_execution :: "RuntimeEvent StreamItem list"
  mb_shutdown_progress :: "(Id, RuntimeEvent) KeyedStreamItem list"
  mb_shutdown_telemetry :: "RuntimeEvent StreamItem list"

definition mailbox_new :: MailboxState where
  "mailbox_new =
     \<lparr>mb_commands = [], mb_closed = False, mb_owner_dropped = False, mb_waker = False,
      mb_shutdown_execution = [], mb_shutdown_progress = [], mb_shutdown_telemetry = []\<rparr>"

text \<open>The command handed back by a closed mailbox, or whether the owner is woken.\<close>

definition mailbox_submit :: "MailboxState \<Rightarrow> DriverCommand \<Rightarrow> MailboxState \<times> (DriverCommand + bool)" where
  "mailbox_submit mb command =
     (if mb_closed mb then (mb, Inl command)
      else (mb\<lparr>mb_commands := mb_commands mb @ [command], mb_waker := False\<rparr>, Inr (mb_waker mb)))"

datatype NextCommandPoll = NextReady "DriverCommand option" | NextPending

definition mailbox_next :: "MailboxState \<Rightarrow> MailboxState \<times> NextCommandPoll" where
  "mailbox_next mb =
     (case mb_commands mb of
        command # rest \<Rightarrow> (mb\<lparr>mb_commands := rest\<rparr>, NextReady (Some command))
      | [] \<Rightarrow>
          if mb_closed mb then (mb, NextReady None)
          else (mb\<lparr>mb_waker := True\<rparr>, NextPending))"

definition mailbox_owner_state :: "MailboxState \<Rightarrow> DriverOwnerState" where
  "mailbox_owner_state mb =
     (if mb_owner_dropped mb then OwnerLost else if mb_closed mb then OwnerShutdown else OwnerRunning)"

definition take_shutdown_execution_events :: "MailboxState \<Rightarrow> MailboxState \<times> RuntimeEvent StreamItem list option" where
  "take_shutdown_execution_events mb =
     (if mb_closed mb then (mb\<lparr>mb_shutdown_execution := []\<rparr>, Some (mb_shutdown_execution mb)) else (mb, None))"

definition take_shutdown_progress_events ::
    "MailboxState \<Rightarrow> MailboxState \<times> (Id, RuntimeEvent) KeyedStreamItem list option" where
  "take_shutdown_progress_events mb =
     (if mb_closed mb then (mb\<lparr>mb_shutdown_progress := []\<rparr>, Some (mb_shutdown_progress mb)) else (mb, None))"

definition take_shutdown_telemetry_events :: "MailboxState \<Rightarrow> MailboxState \<times> RuntimeEvent StreamItem list option" where
  "take_shutdown_telemetry_events mb =
     (if mb_closed mb then (mb\<lparr>mb_shutdown_telemetry := []\<rparr>, Some (mb_shutdown_telemetry mb)) else (mb, None))"

definition reply_events :: "nat \<Rightarrow> ('a \<Rightarrow> DriverValue) \<Rightarrow> 'a option \<Rightarrow> nat \<times> driver_reply" where
  "reply_events reply wrap events = (reply, case events of Some items \<Rightarrow> Inr (wrap items) | None \<Rightarrow> Inl ShuttingDown)"

definition complete_after_close :: "MailboxState \<Rightarrow> DriverCommand \<Rightarrow> MailboxState \<times> (nat \<times> driver_reply)" where
  "complete_after_close mb command =
     (if mb_owner_dropped mb then (mb, command_reject command OwnerDropped)
      else
        case command of
          DrainExecutionEvents reply \<Rightarrow>
            map_prod id (reply_events reply ExecutionItems) (take_shutdown_execution_events mb)
        | DrainProgressEvents reply \<Rightarrow>
            map_prod id (reply_events reply ProgressItems) (take_shutdown_progress_events mb)
        | DrainTelemetryEvents reply \<Rightarrow>
            map_prod id (reply_events reply TelemetryItems) (take_shutdown_telemetry_events mb)
        | command \<Rightarrow> (mb, command_reject command ShuttingDown))"

fun complete_pending :: "MailboxState \<Rightarrow> DriverCommand list \<Rightarrow> MailboxState \<times> (nat \<times> driver_reply) list" where
  "complete_pending mb [] = (mb, [])"
| "complete_pending mb (command # rest) =
     (let (mb, reply) = complete_after_close mb command; (mb, replies) = complete_pending mb rest
      in (mb, reply # replies))"

definition close_and_reject_pending :: "MailboxState \<Rightarrow> RuntimeEvent StreamItem list \<Rightarrow>
    (Id, RuntimeEvent) KeyedStreamItem list \<Rightarrow> RuntimeEvent StreamItem list \<Rightarrow>
    MailboxState \<times> (nat \<times> driver_reply) list" where
  "close_and_reject_pending mb execution_events progress_events telemetry_events =
     complete_pending
       (mb\<lparr>mb_closed := True, mb_waker := False, mb_shutdown_execution := execution_events,
           mb_shutdown_progress := progress_events, mb_shutdown_telemetry := telemetry_events,
           mb_commands := []\<rparr>)
       (mb_commands mb)"

text \<open>The drop of \<^verbatim>\<open>DriverOwnerGuard\<close>.\<close>

definition owner_guard_drop :: "MailboxState \<Rightarrow> MailboxState \<times> (nat \<times> driver_reply) list" where
  "owner_guard_drop mb =
     (if mb_closed mb then (mb, [])
      else
        (mb\<lparr>mb_closed := True, mb_owner_dropped := True, mb_waker := False, mb_commands := []\<rparr>,
         map (\<lambda>command. command_reject command OwnerDropped) (mb_commands mb)))"

section \<open>The loop of the owner\<close>

text \<open>
  Where the task of the owner stands: before the next command, before the answer of the adapter
  for a command whose reply is owed, returned, or gone.
\<close>

datatype OwnerTask =
    AtMailbox
  | AwaitingEffect nat EffectDispatchRequest
  | Exited ShutdownStatus
  | Gone

type_synonym ('v, 'st) owner_step =
  "MailboxState \<times> ('v, 'st) RuntimeDriver \<times> (nat \<times> driver_reply) list \<times> OwnerTask"

definition unwind_owner :: "MailboxState \<Rightarrow> ('v, 'st) RuntimeDriver \<Rightarrow> nat list \<Rightarrow> ('v, 'st) owner_step" where
  "unwind_owner mb d owed =
     (let (mb, rejected) = owner_guard_drop mb
      in (mb, d, map (\<lambda>reply. (reply, Inl OwnerDropped)) owed @ rejected, Gone))"

definition answer_command :: "MailboxState \<Rightarrow> nat \<Rightarrow> ('a \<Rightarrow> DriverValue) \<Rightarrow>
    ('v, 'st) RuntimeDriver \<times> (DriverError + 'a) \<Rightarrow> ('v, 'st) owner_step" where
  "answer_command mb reply wrap answer =
     (case answer of
        (d, Inl (DriverRuntime RuntimePanic)) \<Rightarrow> unwind_owner mb d [reply]
      | (d, Inl e) \<Rightarrow> (mb, d, [(reply, Inl e)], AtMailbox)
      | (d, Inr v) \<Rightarrow> (mb, d, [(reply, Inr (wrap v))], AtMailbox))"

definition await_effect :: "MailboxState \<Rightarrow> nat \<Rightarrow>
    ('v, 'st) RuntimeDriver \<times> (DriverError + (DriveResult + EffectDispatchRequest)) \<Rightarrow> ('v, 'st) owner_step" where
  "await_effect mb reply begun =
     (case begun of
        (d, Inr (Inr request)) \<Rightarrow> (mb, d, [], AwaitingEffect reply request)
      | (d, Inr (Inl result)) \<Rightarrow> answer_command mb reply DriveValue (d, Inr result)
      | (d, Inl e) \<Rightarrow> answer_command mb reply DriveValue (d, Inl e))"

definition run_shutdown :: "'st store_ops \<Rightarrow> MailboxState \<Rightarrow> ('v, 'st) RuntimeDriver \<Rightarrow> nat \<Rightarrow> ('v, 'st) owner_step" where
  "run_shutdown ops mb d reply =
     (case shutdown_now ops d of
        (d, Inl e) \<Rightarrow> answer_command mb reply ShutdownValue (d, Inl e)
      | (d, Inr status) \<Rightarrow>
          let (rt, execution_events) = drain_execution_events (dv_runtime d);
              (rt, progress_events) = drain_progress_events rt;
              (rt, telemetry_events) = drain_telemetry_events rt;
              (mb, replies) = close_and_reject_pending mb execution_events progress_events telemetry_events
          in (mb, d\<lparr>dv_runtime := rt\<rparr>, (reply, Inr (ShutdownValue status)) # replies, Exited status))"

fun run_command :: "'st store_ops \<Rightarrow> MailboxState \<Rightarrow> ('v, 'st) RuntimeDriver \<Rightarrow> DriverCommand \<Rightarrow> ('v, 'st) owner_step" where
  "run_command ops mb d (Wake reply) = await_effect mb reply (drive_begin ops d)"
| "run_command ops mb d (DispatchEffect operation_id reply) =
     await_effect mb reply (map_prod id (map_sum id Inr) (dispatch_begin ops d operation_id None))"
| "run_command ops mb d (Recover operation_id reply) =
     answer_command mb reply RecoveryValue (recover_now ops d operation_id)"
| "run_command ops mb d (CancelTask task_id reply) =
     answer_command mb reply CancellationValue (cancel_now ops d task_id)"
| "run_command ops mb d (DrainExecutionEvents reply) =
     (let (rt, items) = drain_execution_events (dv_runtime d)
      in answer_command mb reply ExecutionItems (d\<lparr>dv_runtime := rt\<rparr>, Inr items))"
| "run_command ops mb d (DrainProgressEvents reply) =
     (let (rt, items) = drain_progress_events (dv_runtime d)
      in answer_command mb reply ProgressItems (d\<lparr>dv_runtime := rt\<rparr>, Inr items))"
| "run_command ops mb d (DrainTelemetryEvents reply) =
     (let (rt, items) = drain_telemetry_events (dv_runtime d)
      in answer_command mb reply TelemetryItems (d\<lparr>dv_runtime := rt\<rparr>, Inr items))"
| "run_command ops mb d (Shutdown reply) = run_shutdown ops mb d reply"

section \<open>The system\<close>

text \<open>
  \<open>sy_log\<close> is a history variable: every reply sent, every reply a caller has taken from
  its future, and every request handed to the adapter, in order.
\<close>

datatype driver_event =
    Replied nat driver_reply
  | Observed nat driver_reply
  | AdapterCalled EffectDispatchRequest

record ('v, 'st) DriverSystem =
  sy_driver :: "('v, 'st) RuntimeDriver"
  sy_mailbox :: MailboxState
  sy_channels :: "ResponseState list"
  sy_owner :: OwnerTask
  sy_scheduled :: bool
  sy_log :: "driver_event list"

definition driver_open :: "('v, 'st) Runtime \<Rightarrow> ('v, 'st) DriverSystem" where
  "driver_open rt =
     \<lparr>sy_driver = RuntimeDriver_new rt, sy_mailbox = mailbox_new, sy_channels = [], sy_owner = AtMailbox,
      sy_scheduled = True, sy_log = []\<rparr>"

definition send_reply :: "nat \<times> driver_reply \<Rightarrow> ResponseState list \<Rightarrow> ResponseState list" where
  "send_reply r channels = channels[fst r := response_send (channels ! fst r) (snd r)]"

definition send_replies :: "(nat \<times> driver_reply) list \<Rightarrow> ('v, 'st) DriverSystem \<Rightarrow> ('v, 'st) DriverSystem" where
  "send_replies replies sys =
     sys\<lparr>sy_channels := fold send_reply replies (sy_channels sys),
         sy_log := sy_log sys @ map (\<lambda>(reply, result). Replied reply result) replies\<rparr>"

fun adapter_event :: "OwnerTask \<Rightarrow> driver_event list" where
  "adapter_event (AwaitingEffect reply request) = [AdapterCalled request]"
| "adapter_event task = []"

definition apply_owner_step :: "('v, 'st) owner_step \<Rightarrow> ('v, 'st) DriverSystem \<Rightarrow> ('v, 'st) DriverSystem" where
  "apply_owner_step step sys =
     (case step of (mb, d, replies, task) \<Rightarrow>
        (let sys = send_replies replies (sys\<lparr>sy_mailbox := mb, sy_driver := d, sy_owner := task\<rparr>)
         in sys\<lparr>sy_log := sy_log sys @ adapter_event task\<rparr>))"

text \<open>A handle opens a channel and submits a command that replies to it.\<close>

definition handle_submit :: "(nat \<Rightarrow> DriverCommand) \<Rightarrow> ('v, 'st) DriverSystem \<Rightarrow> ('v, 'st) DriverSystem" where
  "handle_submit new_command sys =
     (let reply = length (sy_channels sys);
          opened = sys\<lparr>sy_channels := sy_channels sys @ [response_channel]\<rparr>
      in case mailbox_submit (sy_mailbox sys) (new_command reply) of
           (mb, Inr woken) \<Rightarrow> opened\<lparr>sy_mailbox := mb, sy_scheduled := sy_scheduled sys \<or> woken\<rparr>
         | (mb, Inl command) \<Rightarrow>
             (case complete_after_close mb command of
                (mb, r) \<Rightarrow> send_replies [r] (opened\<lparr>sy_mailbox := mb\<rparr>)))"

definition handle_wake :: "('v, 'st) DriverSystem \<Rightarrow> ('v, 'st) DriverSystem" where
  "handle_wake sys = handle_submit Wake sys"

definition handle_dispatch_effect :: "OperationId \<Rightarrow> ('v, 'st) DriverSystem \<Rightarrow> ('v, 'st) DriverSystem" where
  "handle_dispatch_effect operation_id sys = handle_submit (DispatchEffect operation_id) sys"

definition handle_recover :: "OperationId \<Rightarrow> ('v, 'st) DriverSystem \<Rightarrow> ('v, 'st) DriverSystem" where
  "handle_recover operation_id sys = handle_submit (Recover operation_id) sys"

definition handle_cancel_task :: "Id \<Rightarrow> ('v, 'st) DriverSystem \<Rightarrow> ('v, 'st) DriverSystem" where
  "handle_cancel_task task_id sys = handle_submit (CancelTask task_id) sys"

definition handle_drain_execution :: "('v, 'st) DriverSystem \<Rightarrow> ('v, 'st) DriverSystem" where
  "handle_drain_execution sys = handle_submit DrainExecutionEvents sys"

definition handle_drain_progress :: "('v, 'st) DriverSystem \<Rightarrow> ('v, 'st) DriverSystem" where
  "handle_drain_progress sys = handle_submit DrainProgressEvents sys"

definition handle_drain_telemetry :: "('v, 'st) DriverSystem \<Rightarrow> ('v, 'st) DriverSystem" where
  "handle_drain_telemetry sys = handle_submit DrainTelemetryEvents sys"

definition handle_shutdown :: "('v, 'st) DriverSystem \<Rightarrow> ('v, 'st) DriverSystem" where
  "handle_shutdown sys = handle_submit Shutdown sys"

text \<open>One turn of the loop of \<^verbatim>\<open>run\<close>: from the mailbox to the next await point.\<close>

definition owner_turn :: "'st store_ops \<Rightarrow> ('v, 'st) DriverSystem \<Rightarrow> ('v, 'st) DriverSystem" where
  "owner_turn ops sys =
     (case mailbox_next (sy_mailbox sys) of
        (mb, NextReady (Some command)) \<Rightarrow> apply_owner_step (run_command ops mb (sy_driver sys) command) sys
      | (mb, NextReady None) \<Rightarrow> apply_owner_step (unwind_owner mb (sy_driver sys) []) sys
      | (mb, NextPending) \<Rightarrow> sys\<lparr>sy_mailbox := mb, sy_scheduled := False\<rparr>)"

text \<open>The adapter answers: the rest of \<^verbatim>\<open>dispatch_effect_now\<close> and the reply.\<close>

definition owner_resume :: "'st store_ops \<Rightarrow> EffectDispatchError + KnownEffectOutcome \<Rightarrow>
    ('v, 'st) DriverSystem \<Rightarrow> ('v, 'st) DriverSystem" where
  "owner_resume ops answer sys =
     (case sy_owner sys of
        AwaitingEffect reply request \<Rightarrow>
          (apply_owner_step
            (answer_command (sy_mailbox sys) reply DriveValue (dispatch_end ops (sy_driver sys) request answer))
            sys)\<lparr>sy_scheduled := True\<rparr>
      | _ \<Rightarrow> sys)"

text \<open>The task of the owner, or the driver before it runs, is dropped.\<close>

definition drop_owner :: "('v, 'st) DriverSystem \<Rightarrow> ('v, 'st) DriverSystem" where
  "drop_owner sys =
     (case sy_owner sys of
        AtMailbox \<Rightarrow> apply_owner_step (unwind_owner (sy_mailbox sys) (sy_driver sys) []) sys
      | AwaitingEffect reply _ \<Rightarrow> apply_owner_step (unwind_owner (sy_mailbox sys) (sy_driver sys) [reply]) sys
      | _ \<Rightarrow> sys)"

definition poll_future :: "nat \<Rightarrow> ('v, 'st) DriverSystem \<Rightarrow> ('v, 'st) DriverSystem" where
  "poll_future reply sys =
     (case driver_future_poll (sy_channels sys ! reply) of
        (st, polled) \<Rightarrow>
          sys\<lparr>sy_channels := (sy_channels sys)[reply := st],
              sy_log := sy_log sys @ (case polled of Some result \<Rightarrow> [Observed reply result] | None \<Rightarrow> [])\<rparr>)"

text \<open>
  Any interleaving of callers, owner, adapter and the host of the scopes; a command is one whose
  reply goes to the channel its handle opened.
\<close>

inductive driver_step :: "'st store_ops \<Rightarrow> ('v, 'st) DriverSystem \<Rightarrow> ('v, 'st) DriverSystem \<Rightarrow> bool" for ops where
  submitted: "\<forall>reply. command_channel (new_command reply) = reply \<Longrightarrow> driver_step ops sys (handle_submit new_command sys)"
| turned: "sy_owner sys = AtMailbox \<Longrightarrow> sy_scheduled sys \<Longrightarrow> driver_step ops sys (owner_turn ops sys)"
| resumed: "sy_owner sys = AwaitingEffect reply request \<Longrightarrow> driver_step ops sys (owner_resume ops answer sys)"
| dropped: "driver_step ops sys (drop_owner sys)"
| polled: "reply < length (sy_channels sys) \<Longrightarrow> driver_step ops sys (poll_future reply sys)"
| scopes_changed: "driver_step ops sys
    (sys\<lparr>sy_driver := (sy_driver sys)\<lparr>dv_runtime := (dv_runtime (sy_driver sys))\<lparr>rt_scopes := st\<rparr>\<rparr>\<rparr>)"

abbreviation driver_steps :: "'st store_ops \<Rightarrow> ('v, 'st) DriverSystem \<Rightarrow> ('v, 'st) DriverSystem \<Rightarrow> bool" where
  "driver_steps ops \<equiv> (driver_step ops)\<^sup>*\<^sup>*"

end
