(* ===== verification/Driver_Commands.thy ===== *)
theory Driver_Commands
  imports Driver_Moves Driver_System
begin

text \<open>
  The commands that await the adapter, and the shutdown: what they do to the runtime, and what
  is true when the request is handed out or the status returned.
\<close>

section \<open>The request of a dispatch\<close>

text \<open>
  \<open>granted ops d d' q\<close>: the request names an operation with its intent, and its attempt was
  just added to the dispatches of the operation by a successful \<^verbatim>\<open>dispatch_effect\<close>.
\<close>

definition granted :: "'st store_ops \<Rightarrow> ('v, 'st) RuntimeDriver \<Rightarrow> ('v, 'st) RuntimeDriver \<Rightarrow> EffectDispatchRequest \<Rightarrow> bool" where
  "granted ops d d' q \<longleftrightarrow>
     (\<exists>rt i. (runtime_call ops)\<^sup>*\<^sup>* (dv_runtime d) rt \<and> journal_extends (rt_journal (dv_runtime d)) (rt_journal rt) \<and>
        dispatch_effect ops rt (eq_operation_id q) = (dv_runtime d', Inr (eq_attempt_id q)) \<and>
        fmlookup (jr_intents (rt_journal rt)) (eq_operation_id q) = Some i \<and>
        eq_run_id q = rt_run_id (dv_runtime d') \<and> eq_task_id q = ei_task_id i \<and> eq_semantics q = ei_semantics i)"

lemma dispatch_begin_moves:
  assumes "dispatch_begin ops d x expected = (d', r)"
  shows "driver_moves ops d d'" and "r = Inr q \<Longrightarrow> granted ops d d' q \<and> eq_operation_id q = x"
proof -
  obtain d1 r1 where retry: "retry_pending_lifecycle d = (d1, r1)" by fastforce
  note m = retry_moves [OF retry]
  have "driver_moves ops d d' \<and> (r = Inr q \<longrightarrow> granted ops d d' q \<and> eq_operation_id q = x)"
  proof (cases r1)
    case (Inl e)
    then show ?thesis using assms m(1,3) retry by (auto simp: dispatch_begin_def driver_runtime_error_def)
  next
    case (Inr u)
    show ?thesis
    proof (cases "journal_intent (rt_journal (dv_runtime d1)) x")
      case (Inl e)
      then show ?thesis
        using assms m(1) retry Inr by (auto simp: dispatch_begin_def driver_runtime_error_def hold_rejected_def)
    next
      case i: (Inr i)
      let ?actual = "lineage_attempt (dv_runtime d1) i x"
      show ?thesis
      proof (cases "expected \<noteq> None \<and> ?actual \<noteq> expected")
        case True
        then show ?thesis using assms m(1) retry Inr i by (auto simp: dispatch_begin_def Let_def)
      next
        case False
        obtain rt r2 where run: "dispatch_effect ops (dv_runtime d1) x = (rt, r2)" by fastforce
        have "driver_moves ops d1 (after_call d1 (rt, r2))"
          by (rule call_moves) (use m(2) Inr run runtime_call.call_dispatch [OF run] dispatch_effect_journal [of "dv_runtime d1" ops x]
              dispatch_effect_lossless [of "dv_runtime d1" ops x] in simp_all)
        then have move: "driver_moves ops d (after_call d1 (rt, r2))" using m(1) driver_moves_trans by blast
        show ?thesis
        proof (cases r2)
          case (Inl e)
          then have "d' = after_call d1 (rt, r2)" "r = Inl (DriverRuntime e)"
            using assms retry Inr i False run by (auto simp: dispatch_begin_def Let_def driver_runtime_error_def)
          then show ?thesis using move by simp
        next
          case ok: (Inr a)
          then have d': "d' = d1\<lparr>dv_runtime := rt\<rparr>"
            using assms retry Inr i False run by (auto simp: dispatch_begin_def Let_def split: if_splits)
          have "granted ops d d' q \<and> eq_operation_id q = x" if "r = Inr q"
          proof -
            have "q = \<lparr>eq_run_id = rt_run_id rt, eq_task_id = ei_task_id i, eq_operation_id = x, eq_attempt_id = a,
                eq_semantics = ei_semantics i\<rparr>"
              using assms retry Inr i False run ok that by (auto simp: dispatch_begin_def Let_def split: if_splits)
            moreover have "fmlookup (jr_intents (rt_journal (dv_runtime d1))) x = Some i"
              using i by (simp add: journal_intent_def split: option.splits)
            ultimately show ?thesis
              using m(1) run ok by (auto simp: granted_def d' driver_moves_def)
          qed
          then show ?thesis using move d' ok by simp
        qed
      qed
    qed
  qed
  then show "driver_moves ops d d'" "r = Inr q \<Longrightarrow> granted ops d d' q \<and> eq_operation_id q = x" by blast+
qed

lemma granted_first:
  assumes "driver_moves ops d d1" and "granted ops d1 d' q"
  shows "granted ops d d' q"
  using assms unfolding granted_def driver_moves_def by (meson journal_extends_trans rtranclp_trans)

lemma drive_begin_moves:
  assumes "drive_begin ops d = (d', r)"
  shows "driver_moves ops d d'" and "r = Inr (Inr q) \<Longrightarrow> granted ops d d' q"
proof -
  obtain d1 r1 where retry: "retry_pending_lifecycle d = (d1, r1)" by fastforce
  note m = retry_moves [OF retry]
  have "driver_moves ops d d' \<and> (r = Inr (Inr q) \<longrightarrow> granted ops d d' q)"
  proof (cases r1)
    case (Inl e)
    then obtain i where "e = ExecutionBackpressure i" using m(4) by blast
    then show ?thesis using assms m(1,3) retry Inl by (auto simp: drive_begin_def drive_runtime_error_def)
  next
    case (Inr u)
    obtain rt r2 where run: "runtime_step ops (dv_runtime d1) = (rt, r2)" by fastforce
    have "driver_moves ops d1 (after_call d1 (rt, r2))"
      by (rule call_moves) (use m(2) Inr run runtime_call.call_step [OF run] runtime_step_journal [of "dv_runtime d1" ops]
          runtime_step_lossless [of "dv_runtime d1" ops] in simp_all)
    then have move: "driver_moves ops d (after_call d1 (rt, r2))" using m(1) driver_moves_trans by blast
    show ?thesis
    proof (cases r2)
      case (Inl e)
      then have "d' = after_call d1 (rt, r2) \<and> r \<noteq> Inr (Inr q)"
        using assms retry Inr run
        by (auto simp: drive_begin_def drive_runtime_error_def hold_rejected_def split: RuntimeError.splits)
      then show ?thesis using move by simp
    next
      case ok: (Inr result)
      show ?thesis
      proof (cases "\<exists>t a x. result = EffectPending t a x")
        case True
        then obtain t a x where result: "result = EffectPending t a x" by blast
        obtain d2 r3 where begun: "dispatch_begin ops (d1\<lparr>dv_runtime := rt\<rparr>) x (Some a) = (d2, r3)" by fastforce
        note b = dispatch_begin_moves [OF begun]
        have d': "d' = d2" "r = Inr (Inr q) \<Longrightarrow> r3 = Inr q"
          using assms retry Inr run ok result begun by (auto simp: drive_begin_def split: sum.splits)
        have move1: "driver_moves ops d (d1\<lparr>dv_runtime := rt\<rparr>)" using move ok by simp
        then show ?thesis using d' b driver_moves_trans [OF move1] granted_first [OF move1] by blast
      next
        case False
        then have "d' = d1\<lparr>dv_runtime := rt\<rparr> \<and> r = Inr (Inl (DriveStep result))"
          using assms retry Inr run ok by (cases result) (auto simp: drive_begin_def)
        then show ?thesis using move ok by simp
      qed
    qed
  qed
  then show "driver_moves ops d d'" "r = Inr (Inr q) \<Longrightarrow> granted ops d d' q" by blast+
qed

section \<open>The shutdown\<close>

lemma durable_state_error: "durable_state ops rt = Inl e \<Longrightarrow> hold_rejected e d = d"
  by (auto simp: durable_state_def hold_rejected_def split: sum.splits)

text \<open>On success nothing is held back, and the status classifies the durable state.\<close>

lemma shutdown_now_moves:
  assumes "shutdown_now ops d = (d', r)"
  shows "driver_moves ops d d'"
    and "r = Inr st \<Longrightarrow> dv_pending_lifecycle d' = None \<and>
      (\<exists>s0 s d1. retry_pending_lifecycle d = (d1, Inr ()) \<and> durable_state ops (dv_runtime d1) = Inr s0 \<and>
        recover_known ops d1 (known_outcomes s0) = (d', Inr ()) \<and>
        durable_state ops (dv_runtime d') = Inr s \<and> st = classify_shutdown s)"
proof -
  obtain d1 r1 where retry: "retry_pending_lifecycle d = (d1, r1)" by fastforce
  note m = retry_moves [OF retry]
  let ?ok = "dv_pending_lifecycle d' = None \<and>
      (\<exists>s0 s d1. retry_pending_lifecycle d = (d1, Inr ()) \<and> durable_state ops (dv_runtime d1) = Inr s0 \<and>
        recover_known ops d1 (known_outcomes s0) = (d', Inr ()) \<and>
        durable_state ops (dv_runtime d') = Inr s \<and> st = classify_shutdown s)"
  have "driver_moves ops d d' \<and> (r = Inr st \<longrightarrow> ?ok)"
  proof (cases r1)
    case (Inl e)
    then show ?thesis using assms m(1,3) retry by (auto simp: shutdown_now_def driver_runtime_error_def)
  next
    case (Inr u)
    show ?thesis
    proof (cases "durable_state ops (dv_runtime d1)")
      case (Inl e)
      then show ?thesis using assms m(1) retry Inr durable_state_error [OF Inl, of d1] by (auto simp: shutdown_now_def driver_runtime_error_def)
    next
      case s0: (Inr s0)
      obtain d2 r2 where known: "recover_known ops d1 (known_outcomes s0) = (d2, r2)" by fastforce
      have "driver_moves ops d1 d2"
        using recover_known_moves [of d1 ops "known_outcomes s0"] m(2) Inr known by simp
      then have move: "driver_moves ops d d2" using m(1) driver_moves_trans by blast
      show ?thesis
      proof (cases r2)
        case (Inl e)
        then show ?thesis using assms retry Inr s0 known move by (auto simp: shutdown_now_def)
      next
        case ok: (Inr v)
        show ?thesis
        proof (cases "dv_pending_lifecycle d2")
          case (Some i)
          then have "d' = d2 \<and> r \<noteq> Inr st"
            using assms retry Inr s0 known ok by (auto simp: shutdown_now_def driver_runtime_error_def hold_rejected_def)
          then show ?thesis using move by simp
        next
          case None
          then show ?thesis
            using assms retry Inr s0 known ok move durable_state_error [where ops = ops and rt = "dv_runtime d2" and d = d2]
            by (cases "durable_state ops (dv_runtime d2)") (auto simp: shutdown_now_def driver_runtime_error_def)
        qed
      qed
    qed
  qed
  then show "driver_moves ops d d'" "r = Inr st \<Longrightarrow> ?ok" by blast+
qed

section \<open>The classification\<close>

text \<open>The specification: the first operation, in key order, of the gravest kind there is.\<close>

definition unsafe_unknown :: "DurableRunState \<Rightarrow> OperationId \<Rightarrow> bool" where
  "unsafe_unknown s x \<longleftrightarrow> (\<exists>i. ds_intent s x = Some i \<and> ei_semantics i = NonIdempotent) \<and> effect_state s x = OutcomeUnknown"

definition retryable_unknown :: "DurableRunState \<Rightarrow> OperationId \<Rightarrow> bool" where
  "retryable_unknown s x \<longleftrightarrow> (\<exists>i. ds_intent s x = Some i \<and> ei_semantics i = Idempotent) \<and> effect_state s x = OutcomeUnknown"

definition awaits_dispatch :: "DurableRunState \<Rightarrow> OperationId \<Rightarrow> bool" where
  "awaits_dispatch s x \<longleftrightarrow> (\<exists>i. ds_intent s x = Some i \<and> \<not> is_cancelled s (ei_task_id i)) \<and> effect_state s x = Prepared"

definition failure_observed :: "DurableRunState \<Rightarrow> OperationId \<Rightarrow> bool" where
  "failure_observed s x \<longleftrightarrow> ds_intent s x \<noteq> None \<and> effect_state s x = OutcomeKnown Failed"

lemmas operation_kinds = unsafe_unknown_def retryable_unknown_def awaits_dispatch_def failure_observed_def

definition shutdown_status_spec :: "DurableRunState \<Rightarrow> ShutdownStatus" where
  "shutdown_status_spec s =
     (case find (unsafe_unknown s) (operation_ids s) of
        Some x \<Rightarrow> ReconciliationRequired x
      | None \<Rightarrow>
          (case find (retryable_unknown s) (operation_ids s) of
             Some x \<Rightarrow> PendingUnknown x
           | None \<Rightarrow>
               (case find (awaits_dispatch s) (operation_ids s) of
                  Some x \<Rightarrow> PendingDispatch x
                | None \<Rightarrow>
                    (case find (failure_observed s) (operation_ids s) of
                       Some x \<Rightarrow> ObservedFailure x
                     | None \<Rightarrow> CleanShutdown))))"

definition first_of :: "'a option \<Rightarrow> 'a option \<Rightarrow> 'a option" where
  "first_of earlier later = (case earlier of Some x \<Rightarrow> Some x | None \<Rightarrow> later)"

lemma first_of_simps [simp]: "first_of None y = y" "first_of (Some x) y = Some x" "first_of z None = z"
  by (simp_all add: first_of_def split: option.splits)

lemma classify_operations_spec:
  "classify_operations s dispatch unknown failure xs =
     (case find (unsafe_unknown s) xs of
        Some x \<Rightarrow> ReconciliationRequired x
      | None \<Rightarrow>
          (case first_of unknown (find (retryable_unknown s) xs) of
             Some x \<Rightarrow> PendingUnknown x
           | None \<Rightarrow>
               (case first_of dispatch (find (awaits_dispatch s) xs) of
                  Some x \<Rightarrow> PendingDispatch x
                | None \<Rightarrow>
                    (case first_of failure (find (failure_observed s) xs) of
                       Some x \<Rightarrow> ObservedFailure x
                     | None \<Rightarrow> CleanShutdown))))"
proof (induction s dispatch unknown failure xs rule: classify_operations.induct)
  case (1 s dispatch unknown failure)
  then show ?case by (simp split: option.splits)
next
  case (2 s dispatch unknown failure x xs)
  show ?case
  proof (cases "ds_intent s x")
    case None
    have "\<not> unsafe_unknown s x" "\<not> retryable_unknown s x" "\<not> awaits_dispatch s x" "\<not> failure_observed s x"
      using None by (simp_all add: operation_kinds)
    then show ?thesis using 2 None by (simp split: option.splits)
  next
    case (Some i)
    have kinds: "unsafe_unknown s x \<longleftrightarrow> effect_state s x = OutcomeUnknown \<and> ei_semantics i = NonIdempotent"
      "retryable_unknown s x \<longleftrightarrow> effect_state s x = OutcomeUnknown \<and> ei_semantics i = Idempotent"
      "awaits_dispatch s x \<longleftrightarrow> effect_state s x = Prepared \<and> \<not> is_cancelled s (ei_task_id i)"
      "failure_observed s x \<longleftrightarrow> effect_state s x = OutcomeKnown Failed"
      using Some by (auto simp: operation_kinds)
    show ?thesis
    proof (cases "effect_state s x")
      case EffectNotPrepared
      then show ?thesis using 2 Some by (simp add: kinds split: option.splits)
    next
      case Prepared
      then show ?thesis using 2 Some by (cases dispatch; cases "is_cancelled s (ei_task_id i)") (simp_all add: kinds cong: option.case_cong)
    next
      case OutcomeUnknown
      then show ?thesis using 2 Some by (cases unknown; cases "ei_semantics i") (simp_all add: kinds cong: option.case_cong)
    next
      case (OutcomeKnown k)
      then show ?thesis using 2 Some by (cases k; cases failure) (simp_all add: kinds cong: option.case_cong)
    qed
  qed
qed

lemma classify_shutdown_spec: "classify_shutdown s = shutdown_status_spec s"
  by (simp add: classify_shutdown_def classify_operations_spec shutdown_status_spec_def split: option.splits)

end
