(* ===== verification/Driver_Owner.thy ===== *)
theory Driver_Owner
  imports Driver_Commands "HOL-Library.Multiset"
begin

text \<open>
  What one step of the owner does, whatever the command: every outstanding reply is sent, owed
  or still queued; the lifecycle items are delivered, kept for after the shutdown, or undrained;
  the runtime is moved by its own calls; and a request for the adapter is granted by a dispatch.
\<close>

section \<open>Accounts\<close>

fun owed_channels :: "OwnerTask \<Rightarrow> nat list" where
  "owed_channels (AwaitingEffect reply _) = [reply]"
| "owed_channels _ = []"

fun finished :: "OwnerTask \<Rightarrow> bool" where
  "finished (Exited _) = True"
| "finished Gone = True"
| "finished _ = False"

definition queued_channels :: "MailboxState \<Rightarrow> nat list" where
  "queued_channels mb = map command_channel (mb_commands mb)"

fun drained_items :: "driver_reply \<Rightarrow> RuntimeEvent StreamItem list" where
  "drained_items (Inr (ExecutionItems items)) = items"
| "drained_items _ = []"

definition drained_by :: "(nat \<times> driver_reply) list \<Rightarrow> RuntimeEvent StreamItem list" where
  "drained_by replies = concat (map (drained_items \<circ> snd) replies)"

lemma drained_by_simps [simp]:
  "drained_by [] = []" "drained_by (r # rs) = drained_items (snd r) @ drained_by rs"
  "drained_by (rs @ ss) = drained_by rs @ drained_by ss"
  by (simp_all add: drained_by_def)

section \<open>The mailbox after its end\<close>

lemma complete_after_close_ok:
  assumes "complete_after_close mb command = (mb', r)" and "mb_closed mb"
  shows "fst r = command_channel command" and "mb_closed mb'" and "mb_owner_dropped mb' = mb_owner_dropped mb"
    and "mb_commands mb' = mb_commands mb" and "mb_waker mb' = mb_waker mb"
    and "drained_items (snd r) @ mb_shutdown_execution mb' = mb_shutdown_execution mb"
  using assms
  by (auto simp: complete_after_close_def command_reject_def reply_events_def take_shutdown_execution_events_def
      take_shutdown_progress_events_def take_shutdown_telemetry_events_def split: if_splits DriverCommand.splits)

lemma complete_pending_ok:
  assumes "complete_pending mb commands = (mb', rs)" and "mb_closed mb"
  shows "map fst rs = map command_channel commands \<and> mb_closed mb' \<and> mb_owner_dropped mb' = mb_owner_dropped mb \<and>
    mb_commands mb' = mb_commands mb \<and> drained_by rs @ mb_shutdown_execution mb' = mb_shutdown_execution mb"
  using assms
proof (induction commands arbitrary: mb mb' rs)
  case Nil
  then show ?case by simp
next
  case (Cons c cs)
  obtain mb1 r where one: "complete_after_close mb c = (mb1, r)" by (meson surj_pair)
  obtain mb2 rs2 where rest: "complete_pending mb1 cs = (mb2, rs2)" by (meson surj_pair)
  have out: "mb' = mb2" "rs = r # rs2" using Cons.prems one rest by simp_all
  note r = complete_after_close_ok [OF one Cons.prems(2)]
  show ?case using Cons.IH [OF rest r(2)] r out by auto
qed

lemma owner_guard_drop_ok:
  assumes "owner_guard_drop mb = (mb', rs)" and "\<not> mb_closed mb"
  shows "map fst rs = queued_channels mb" and "mb_closed mb'" and "mb_commands mb' = []"
    and "drained_by rs = []" and "mb_shutdown_execution mb' = mb_shutdown_execution mb"
  using assms by (auto simp: owner_guard_drop_def command_reject_def queued_channels_def drained_by_def)

section \<open>Steps of the owner\<close>

text \<open>
  \<open>shut_down ops d d' status\<close>: nothing was held back, the effects with known outcomes were
  recovered, the status classifies the durable state, and the streams were drained.
\<close>

definition same_work :: "('v, 'st) Runtime \<Rightarrow> ('v, 'st) Runtime \<Rightarrow> bool" where
  "same_work rt rt' \<longleftrightarrow>
     rt_workflow rt' = rt_workflow rt \<and> rt_journal rt' = rt_journal rt \<and> rt_run_id rt' = rt_run_id rt \<and>
     rt_store rt' = rt_store rt \<and> rt_pending_started rt' = rt_pending_started rt"

definition shut_down :: "'st store_ops \<Rightarrow> ('v, 'st) RuntimeDriver \<Rightarrow> ('v, 'st) RuntimeDriver \<Rightarrow> ShutdownStatus \<Rightarrow> bool" where
  "shut_down ops d d' status \<longleftrightarrow>
     (\<exists>d1 d2 s0 s. retry_pending_lifecycle d = (d1, Inr ()) \<and> durable_state ops (dv_runtime d1) = Inr s0 \<and>
        recover_known ops d1 (known_outcomes s0) = (d2, Inr ()) \<and> durable_state ops (dv_runtime d2) = Inr s \<and>
        status = classify_shutdown s \<and> dv_pending_lifecycle d2 = None \<and> same_work (dv_runtime d2) (dv_runtime d')) \<and>
     dv_pending_lifecycle d' = None \<and> buffered_items (dv_runtime d') = []"

definition owner_step_ok :: "'st store_ops \<Rightarrow> nat list \<Rightarrow> MailboxState \<Rightarrow> ('v, 'st) RuntimeDriver \<Rightarrow> ('v, 'st) owner_step \<Rightarrow> bool" where
  "owner_step_ok ops open mb d step \<longleftrightarrow>
     (case step of (mb', d', replies, task) \<Rightarrow>
        mset (map fst replies @ owed_channels task @ queued_channels mb') = mset (open @ queued_channels mb) \<and>
        (if finished task then mb_closed mb' \<and> mb_commands mb' = [] else mb' = mb) \<and>
        (runtime_call ops)\<^sup>*\<^sup>* (dv_runtime d) (dv_runtime d') \<and>
        journal_extends (rt_journal (dv_runtime d)) (rt_journal (dv_runtime d')) \<and>
        rt_run_id (dv_runtime d') = rt_run_id (dv_runtime d) \<and>
        (held_inv d \<longrightarrow> held_inv d' \<and>
           (\<exists>new. reported (dv_runtime d) (dv_runtime d') new \<and>
              drained_by replies @ mb_shutdown_execution mb' @ undrained d' = undrained d @ new)) \<and>
        (\<forall>reply q. task = AwaitingEffect reply q \<longrightarrow> granted ops d d' q) \<and>
        (\<forall>status. task = Exited status \<longrightarrow> shut_down ops d d' status))"

lemma owner_step_okD:
  assumes "owner_step_ok ops open mb d (mb', d', rs, task)"
  shows "mset (map fst rs @ owed_channels task @ queued_channels mb') = mset (open @ queued_channels mb)"
    and "if finished task then mb_closed mb' \<and> mb_commands mb' = [] else mb' = mb"
    and "(runtime_call ops)\<^sup>*\<^sup>* (dv_runtime d) (dv_runtime d')"
    and "journal_extends (rt_journal (dv_runtime d)) (rt_journal (dv_runtime d'))"
    and "rt_run_id (dv_runtime d') = rt_run_id (dv_runtime d)"
    and "held_inv d \<Longrightarrow> held_inv d'"
    and "held_inv d \<Longrightarrow> \<exists>new. reported (dv_runtime d) (dv_runtime d') new \<and>
      drained_by rs @ mb_shutdown_execution mb' @ undrained d' = undrained d @ new"
    and "task = AwaitingEffect reply q \<Longrightarrow> granted ops d d' q"
    and "task = Exited status \<Longrightarrow> shut_down ops d d' status"
  using assms [unfolded owner_step_ok_def prod.case] by blast+

definition open_mailbox :: "MailboxState \<Rightarrow> bool" where
  "open_mailbox mb \<longleftrightarrow> \<not> mb_closed mb \<and> \<not> mb_owner_dropped mb \<and> mb_shutdown_execution mb = []"

lemma unwind_owner_ok:
  assumes "open_mailbox mb" and "driver_moves ops d d'"
  shows "owner_step_ok ops open mb d (unwind_owner mb d' open)"
proof -
  obtain mb' rs where g: "owner_guard_drop mb = (mb', rs)" by fastforce
  note r = owner_guard_drop_ok [OF g]
  let ?all = "map (\<lambda>reply. (reply, Inl OwnerDropped)) open @ rs"
  have "drained_by (map (\<lambda>reply. (reply, Inl OwnerDropped)) open) = []" by (induction "open") simp_all
  moreover have "map fst ?all = open @ queued_channels mb" using r(1) assms(1) by (simp add: comp_def open_mailbox_def)
  then have "mset (map fst ?all) = mset (open @ queued_channels mb)" by (rule arg_cong)
  moreover have "image_mset fst {#(reply, Inl OwnerDropped :: driver_reply). reply \<in># mset open#} = mset open"
    by (simp add: image_mset.compositionality o_def)
  ultimately show ?thesis
    using assms g r
    by (auto simp: unwind_owner_def owner_step_ok_def open_mailbox_def driver_moves_def queued_channels_def comp_def)
qed

lemma answer_command_ok:
  assumes "open_mailbox mb" and "driver_moves ops d d'" and wrap: "\<And>x. drained_items (Inr (wrap x)) = []"
  shows "owner_step_ok ops [reply] mb d (answer_command mb reply wrap (d', r))"
proof -
  have answered: "owner_step_ok ops [reply] mb d (mb, d', [(reply, a)], AtMailbox)" if "drained_items a = []" for a
    using assms(1,2) that by (auto simp: owner_step_ok_def open_mailbox_def driver_moves_def)
  show ?thesis
  proof (cases r)
    case (Inl e)
    then show ?thesis
      using unwind_owner_ok [OF assms(1,2), of "[reply]"] answered
      by (auto simp: answer_command_def split: DriverError.split RuntimeError.split)
  next
    case (Inr x)
    then show ?thesis using answered wrap by (simp add: answer_command_def)
  qed
qed

lemma await_effect_ok:
  assumes mb: "open_mailbox mb" and move: "driver_moves ops d d'" and granted: "\<And>q. r = Inr (Inr q) \<Longrightarrow> granted ops d d' q"
  shows "owner_step_ok ops [reply] mb d (await_effect mb reply (d', r))"
proof (cases "\<exists>q. r = Inr (Inr q)")
  case True
  then obtain q where q: "r = Inr (Inr q)" by blast
  then show ?thesis
    using granted [OF q] mb move by (auto simp: await_effect_def owner_step_ok_def open_mailbox_def driver_moves_def)
next
  case False
  have "owner_step_ok ops [reply] mb d (answer_command mb reply DriveValue (d', x))" for x
    by (rule answer_command_ok [OF mb move]) simp
  then show ?thesis using False by (cases r) (auto simp: await_effect_def split: sum.splits)
qed

text \<open>The drains.\<close>

lemma drain_lossless_items: "drain_lossless b = (b', items) \<Longrightarrow> items = ls_items b \<and> ls_items b' = []"
  using lossless.drain_correct [of b] by auto

lemma drain_execution_ok:
  assumes "drain_execution_events rt = (rt', items)"
  shows "items = buffered_items rt" and "buffered_items rt' = []" and "reported rt rt' []"
    and "rt_pending_started rt' = rt_pending_started rt" and "rt_journal rt' = rt_journal rt" and "rt_run_id rt' = rt_run_id rt"
    and "rt_store rt' = rt_store rt" and "rt_workflow rt' = rt_workflow rt"
proof -
  obtain b where b: "drain_lossless (rt_execution_events rt) = (b, items)" "rt' = rt\<lparr>rt_execution_events := b\<rparr>"
    using assms by (auto simp: drain_execution_events_def split: prod.splits)
  show "items = buffered_items rt" "buffered_items rt' = []"
    using drain_lossless_items [OF b(1)] b(2) by (simp_all add: buffered_items_def)
  show "reported rt rt' []" "rt_pending_started rt' = rt_pending_started rt" "rt_journal rt' = rt_journal rt"
    "rt_run_id rt' = rt_run_id rt" "rt_store rt' = rt_store rt" "rt_workflow rt' = rt_workflow rt"
    by (simp_all add: b(2) reported_def known_attempts_def)
qed

lemma other_drains_quiet:
  "drain_progress_events rt = (rt', ps) \<Longrightarrow> quiet_step rt rt' \<and> rt_journal rt' = rt_journal rt \<and> rt_run_id rt' = rt_run_id rt \<and>
    rt_store rt' = rt_store rt"
  "drain_telemetry_events rt = (rt', ts) \<Longrightarrow> quiet_step rt rt' \<and> rt_journal rt' = rt_journal rt \<and> rt_run_id rt' = rt_run_id rt \<and>
    rt_store rt' = rt_store rt"
  by (auto simp: drain_progress_events_def drain_telemetry_events_def quiet_step_def split: prod.splits)

lemma drain_execution_step_ok:
  assumes "open_mailbox mb" and run: "drain_execution_events (dv_runtime d) = (rt, items)"
  shows "owner_step_ok ops [reply] mb d (answer_command mb reply ExecutionItems (d\<lparr>dv_runtime := rt\<rparr>, Inr items))"
  using drain_execution_ok [OF run] assms(1) runtime_call.call_drain_execution [OF run]
  by (auto simp: answer_command_def owner_step_ok_def open_mailbox_def undrained_def held_inv_def intro!: exI [of _ "[]"])

lemma quiet_drain_moves:
  assumes "runtime_call ops (dv_runtime d) rt" and "quiet_step (dv_runtime d) rt \<and> rt_journal rt = rt_journal (dv_runtime d) \<and>
    rt_run_id rt = rt_run_id (dv_runtime d) \<and> rt_store rt = rt_store (dv_runtime d)"
  shows "driver_moves ops d (d\<lparr>dv_runtime := rt\<rparr>)"
  by (rule quiet_moves [of ops d rt "Inr ()"]) (use assms in \<open>simp_all add: journal_step_def\<close>)

text \<open>The shutdown drains the three streams into the mailbox and answers every pending command.\<close>

lemma run_shutdown_cases:
  assumes "shutdown_now ops d = (d1, Inr status)"
  obtains rt1 rt2 rt3 es ps ts mb' rs where
    "drain_execution_events (dv_runtime d1) = (rt1, es)" "drain_progress_events rt1 = (rt2, ps)"
    "drain_telemetry_events rt2 = (rt3, ts)" "close_and_reject_pending mb es ps ts = (mb', rs)"
    "run_shutdown ops mb d reply = (mb', d1\<lparr>dv_runtime := rt3\<rparr>, (reply, Inr (ShutdownValue status)) # rs, Exited status)"
proof -
  obtain rt1 es where 1: "drain_execution_events (dv_runtime d1) = (rt1, es)" by (meson surj_pair)
  obtain rt2 ps where 2: "drain_progress_events rt1 = (rt2, ps)" by (meson surj_pair)
  obtain rt3 ts where 3: "drain_telemetry_events rt2 = (rt3, ts)" by (meson surj_pair)
  obtain mb' rs where 4: "close_and_reject_pending mb es ps ts = (mb', rs)" by (meson surj_pair)
  show thesis by (rule that [OF 1 2 3 4]) (simp add: run_shutdown_def assms 1 2 3 4)
qed

lemma shutdown_step_ok:
  assumes mb: "open_mailbox mb"
  shows "owner_step_ok ops [reply] mb d (run_shutdown ops mb d reply)"
proof -
  obtain d1 r where run: "shutdown_now ops d = (d1, r)" by fastforce
  note m = shutdown_now_moves [OF run]
  show ?thesis
  proof (cases r)
    case (Inl e)
    then show ?thesis
      using answer_command_ok [OF mb m(1), of ShutdownValue reply "Inl e"] run by (simp add: run_shutdown_def)
  next
    case (Inr status)
    obtain rt1 rt2 rt3 es ps ts mb' rs where c:
      "drain_execution_events (dv_runtime d1) = (rt1, es)" "drain_progress_events rt1 = (rt2, ps)"
      "drain_telemetry_events rt2 = (rt3, ts)" "close_and_reject_pending mb es ps ts = (mb', rs)"
      "run_shutdown ops mb d reply = (mb', d1\<lparr>dv_runtime := rt3\<rparr>, (reply, Inr (ShutdownValue status)) # rs, Exited status)"
      by (rule run_shutdown_cases [OF run [unfolded Inr]])
    note x = drain_execution_ok [OF c(1)]
    note q = other_drains_quiet(1) [OF c(2)] other_drains_quiet(2) [OF c(3)]
    have pending: "dv_pending_lifecycle d1 = None" using m(2) Inr by blast
    have closing: "map fst rs = queued_channels mb \<and> mb_closed mb' \<and> mb_commands mb' = [] \<and>
        drained_by rs @ mb_shutdown_execution mb' = es"
      using complete_pending_ok [OF c(4) [unfolded close_and_reject_pending_def]] by (simp add: queued_channels_def)
    have calls: "(runtime_call ops)\<^sup>*\<^sup>* (dv_runtime d) rt3"
      using m(1) runtime_call.call_drain_execution [OF c(1)] runtime_call.call_drain_progress [OF c(2)]
        runtime_call.call_drain_telemetry [OF c(3)]
      unfolding driver_moves_def by (meson rtranclp.rtrancl_into_rtrancl)
    have items: "held_inv (d1\<lparr>dv_runtime := rt3\<rparr>) \<and> (\<exists>new. reported (dv_runtime d) rt3 new \<and>
        es @ undrained (d1\<lparr>dv_runtime := rt3\<rparr>) = undrained d @ new)" if held: "held_inv d"
    proof -
      obtain new where new: "reported (dv_runtime d) (dv_runtime d1) new" "undrained d1 = undrained d @ new" "held_inv d1"
        using m(1) held by (auto simp: driver_moves_def)
      have "reported (dv_runtime d1) rt3 []"
        using x(3) q by (simp add: reported_def quiet_step_def known_attempts_def)
      then have "reported (dv_runtime d) rt3 new" using reported_trans new(1) by fastforce
      then show ?thesis
        using new x q pending by (auto simp: undrained_def held_inv_def quiet_step_def buffered_items_def)
    qed
    have "shut_down ops d (d1\<lparr>dv_runtime := rt3\<rparr>) status"
    proof -
      obtain s0 s d0 where "retry_pending_lifecycle d = (d0, Inr ())" "durable_state ops (dv_runtime d0) = Inr s0"
        "recover_known ops d0 (known_outcomes s0) = (d1, Inr ())" "durable_state ops (dv_runtime d1) = Inr s" "status = classify_shutdown s"
        using m(2) [OF Inr] by blast
      moreover have "same_work (dv_runtime d1) rt3" using x q by (simp add: same_work_def quiet_step_def)
      moreover have "buffered_items rt3 = []" using x(2) q by (simp add: buffered_items_def quiet_step_def)
      ultimately show ?thesis using pending by (auto simp: shut_down_def)
    qed
    moreover have "image_mset fst (mset rs) = image_mset command_channel (mset (mb_commands mb))"
      using closing by (metis mset_map queued_channels_def)
    ultimately show ?thesis
      unfolding c(5) owner_step_ok_def
      using closing calls items x(5,6) q m(1) by (auto simp: driver_moves_def queued_channels_def)
  qed
qed

lemma run_command_ok:
  assumes mb: "open_mailbox mb"
  shows "owner_step_ok ops [command_channel c] mb d (run_command ops mb d c)"
proof (cases c)
  case (Wake reply)
  obtain d' r where run: "drive_begin ops d = (d', r)" by fastforce
  show ?thesis using await_effect_ok [OF mb, of ops d d' r reply] drive_begin_moves [OF run] run Wake by simp
next
  case (DispatchEffect x reply)
  obtain d' r where run: "dispatch_begin ops d x None = (d', r)" by fastforce
  have "granted ops d d' q" if "map_sum id Inr r = Inr (Inr q)" for q
    using that dispatch_begin_moves(2) [OF run] by (cases r) auto
  then have "owner_step_ok ops [reply] mb d (await_effect mb reply (d', map_sum id Inr r))"
    using await_effect_ok [OF mb dispatch_begin_moves(1) [OF run]] by blast
  then show ?thesis using run DispatchEffect by simp
next
  case (Recover x reply)
  then show ?thesis
    using answer_command_ok [OF mb, of ops d "fst (recover_now ops d x)" RecoveryValue reply "snd (recover_now ops d x)"]
      recover_now_moves [of ops d x] by simp
next
  case (CancelTask t reply)
  then show ?thesis
    using answer_command_ok [OF mb, of ops d "fst (cancel_now ops d t)" CancellationValue reply "snd (cancel_now ops d t)"]
      cancel_now_moves [of ops d t] by simp
next
  case (DrainExecutionEvents reply)
  obtain rt items where run: "drain_execution_events (dv_runtime d) = (rt, items)" by fastforce
  show ?thesis using drain_execution_step_ok [OF mb run] run DrainExecutionEvents by simp
next
  case (DrainProgressEvents reply)
  obtain rt items where run: "drain_progress_events (dv_runtime d) = (rt, items)" by fastforce
  show ?thesis
    using answer_command_ok [OF mb quiet_drain_moves [OF runtime_call.call_drain_progress [OF run] other_drains_quiet(1) [OF run]],
        where wrap = ProgressItems and reply = reply and r = "Inr items"] run DrainProgressEvents by simp
next
  case (DrainTelemetryEvents reply)
  obtain rt items where run: "drain_telemetry_events (dv_runtime d) = (rt, items)" by fastforce
  show ?thesis
    using answer_command_ok [OF mb quiet_drain_moves [OF runtime_call.call_drain_telemetry [OF run] other_drains_quiet(2) [OF run]],
        where wrap = TelemetryItems and reply = reply and r = "Inr items"] run DrainTelemetryEvents by simp
next
  case (Shutdown reply)
  then show ?thesis using shutdown_step_ok [OF mb] by simp
qed

end
