(* ===== verification/Driver_Histories.thy ===== *)
theory Driver_Histories
  imports Driver_Owner
begin

text \<open>
  The histories of a driver: any interleaving of callers, owner, adapter and drop. The invariant
  of the mailbox, the channels and the wakeups, and the steps of a system that keeps it.
\<close>

section \<open>What the log records\<close>

fun event_channel :: "driver_event \<Rightarrow> nat list" where
  "event_channel (Replied reply _) = [reply]"
| "event_channel _ = []"

definition replied_channels :: "driver_event list \<Rightarrow> nat list" where
  "replied_channels log = concat (map event_channel log)"

fun event_answer :: "nat \<Rightarrow> driver_event \<Rightarrow> driver_reply list" where
  "event_answer reply (Replied r a) = (if r = reply then [a] else [])"
| "event_answer reply _ = []"

definition answers :: "nat \<Rightarrow> driver_event list \<Rightarrow> driver_reply list" where
  "answers reply log = concat (map (event_answer reply) log)"

fun event_observed :: "nat \<Rightarrow> driver_event \<Rightarrow> driver_reply list" where
  "event_observed reply (Observed r a) = (if r = reply then [a] else [])"
| "event_observed reply _ = []"

definition observed :: "nat \<Rightarrow> driver_event list \<Rightarrow> driver_reply list" where
  "observed reply log = concat (map (event_observed reply) log)"

fun event_request :: "driver_event \<Rightarrow> EffectDispatchRequest list" where
  "event_request (AdapterCalled q) = [q]"
| "event_request _ = []"

definition adapter_requests :: "driver_event list \<Rightarrow> EffectDispatchRequest list" where
  "adapter_requests log = concat (map event_request log)"

fun event_items :: "driver_event \<Rightarrow> RuntimeEvent StreamItem list" where
  "event_items (Replied _ a) = drained_items a"
| "event_items _ = []"

definition delivered_items :: "driver_event list \<Rightarrow> RuntimeEvent StreamItem list" where
  "delivered_items log = concat (map event_items log)"

definition reply_events_of :: "(nat \<times> driver_reply) list \<Rightarrow> driver_event list" where
  "reply_events_of replies = map (\<lambda>(reply, result). Replied reply result) replies"

lemma log_append [simp]:
  "replied_channels (xs @ ys) = replied_channels xs @ replied_channels ys"
  "answers c (xs @ ys) = answers c xs @ answers c ys"
  "observed c (xs @ ys) = observed c xs @ observed c ys"
  "adapter_requests (xs @ ys) = adapter_requests xs @ adapter_requests ys"
  "delivered_items (xs @ ys) = delivered_items xs @ delivered_items ys"
  "replied_channels [] = []" "answers c [] = []" "observed c [] = []" "adapter_requests [] = []" "delivered_items [] = []"
  by (simp_all add: replied_channels_def answers_def observed_def adapter_requests_def delivered_items_def)

lemma log_replies [simp]:
  "replied_channels (reply_events_of rs) = map fst rs" "observed c (reply_events_of rs) = []"
  "adapter_requests (reply_events_of rs) = []" "delivered_items (reply_events_of rs) = drained_by rs"
  "answers c (reply_events_of rs) = map snd (filter (\<lambda>r. fst r = c) rs)"
  by (induction rs)
    (auto simp: replied_channels_def answers_def observed_def adapter_requests_def delivered_items_def reply_events_of_def)

lemma log_adapter [simp]:
  "replied_channels (adapter_event t) = []" "observed c (adapter_event t) = []" "delivered_items (adapter_event t) = []"
  "answers c (adapter_event t) = []"
  by (cases t; simp add: replied_channels_def answers_def observed_def delivered_items_def)+

lemma log_observed [simp]:
  "replied_channels [Observed c a] = []" "delivered_items [Observed c a] = []" "adapter_requests [Observed c a] = []"
  "answers c' [Observed c a] = []" "observed c' [Observed c a] = (if c = c' then [a] else [])"
  by (simp_all add: replied_channels_def answers_def observed_def adapter_requests_def delivered_items_def)

lemma answers_none: "c \<notin> set (replied_channels log) \<longleftrightarrow> answers c log = []"
proof (induction log)
  case (Cons e log)
  then show ?case by (cases e) (auto simp: replied_channels_def answers_def)
qed simp

lemma apply_owner_step_sel [simp]:
  "sy_mailbox (apply_owner_step (mb, d, rs, t) sys) = mb" "sy_driver (apply_owner_step (mb, d, rs, t) sys) = d"
  "sy_owner (apply_owner_step (mb, d, rs, t) sys) = t" "sy_scheduled (apply_owner_step (mb, d, rs, t) sys) = sy_scheduled sys"
  "sy_channels (apply_owner_step (mb, d, rs, t) sys) = fold send_reply rs (sy_channels sys)"
  "sy_log (apply_owner_step (mb, d, rs, t) sys) = sy_log sys @ reply_events_of rs @ adapter_event t"
  by (simp_all add: apply_owner_step_def send_replies_def Let_def reply_events_of_def)

lemma send_replies_sel [simp]:
  "sy_log (send_replies rs sys) = sy_log sys @ reply_events_of rs" "sy_channels (send_replies rs sys) = fold send_reply rs (sy_channels sys)"
  "sy_mailbox (send_replies rs sys) = sy_mailbox sys" "sy_driver (send_replies rs sys) = sy_driver sys"
  "sy_owner (send_replies rs sys) = sy_owner sys" "sy_scheduled (send_replies rs sys) = sy_scheduled sys"
  by (simp_all add: send_replies_def reply_events_of_def)

section \<open>The channels\<close>

text \<open>What was sent on a channel was taken from its future or is still there.\<close>

definition channel_ok :: "driver_event list \<Rightarrow> nat \<Rightarrow> ResponseState \<Rightarrow> bool" where
  "channel_ok log c st \<longleftrightarrow>
     answers c log = observed c log @ (case rs_result st of None \<Rightarrow> [] | Some a \<Rightarrow> [a]) \<and>
     (rs_result st \<noteq> None \<longrightarrow> \<not> rs_waker st)"

definition channels_ok :: "driver_event list \<Rightarrow> ResponseState list \<Rightarrow> bool" where
  "channels_ok log channels \<longleftrightarrow>
     (\<forall>c<length channels. channel_ok log c (channels ! c)) \<and> (\<forall>c\<ge>length channels. observed c log = [])"

lemma response_send_empty: "rs_result st = None \<Longrightarrow> response_send st a = \<lparr>rs_result = Some a, rs_waker = False\<rparr>"
  by (simp add: response_send_def response_complete_def response_drop_def)

lemma length_send [simp]: "length (send_reply r channels) = length channels"
  by (simp add: send_reply_def)

lemma length_fold_send [simp]: "length (fold send_reply rs channels) = length channels"
  by (induction rs arbitrary: channels) (simp_all add: send_reply_def)

lemma channels_ok_send:
  assumes "channels_ok log channels" and "distinct (map fst rs)"
    and "\<forall>r\<in>set rs. fst r < length channels \<and> fst r \<notin> set (replied_channels log)"
  shows "channels_ok (log @ reply_events_of rs) (fold send_reply rs channels)"
  using assms
proof (induction rs arbitrary: log channels)
  case Nil
  then show ?case by (simp add: reply_events_of_def)
next
  case (Cons r rs)
  obtain c a where r: "r = (c, a)" by fastforce
  have empty: "rs_result (channels ! c) = None"
    using Cons.prems(1,3) r answers_none [of c log] by (auto simp: channels_ok_def channel_ok_def split: option.splits)
  have one: "channels_ok (log @ reply_events_of [r]) (send_reply r channels)"
    unfolding channels_ok_def
  proof (intro conjI allI impI)
    show "observed c' (log @ reply_events_of [r]) = []" if "length (send_reply r channels) \<le> c'" for c'
      using Cons.prems(1) that by (simp add: channels_ok_def send_reply_def)
    fix c' assume c': "c' < length (send_reply r channels)"
    then have old: "channel_ok log c' (channels ! c')" using Cons.prems(1) by (simp add: channels_ok_def send_reply_def)
    show "channel_ok (log @ reply_events_of [r]) c' (send_reply r channels ! c')"
    proof (cases "c' = c")
      case True
      then show ?thesis using old c' empty by (simp add: channel_ok_def r send_reply_def response_send_empty)
    next
      case False
      then show ?thesis using old c' by (simp add: channel_ok_def r send_reply_def)
    qed
  qed
  have "channels_ok ((log @ reply_events_of [r]) @ reply_events_of rs) (fold send_reply rs (send_reply r channels))"
    by (rule Cons.IH [OF one]) (use Cons.prems in \<open>auto simp: send_reply_def rev_image_eqI\<close>)
  then show ?case by (simp add: reply_events_of_def)
qed

section \<open>The invariant of a driver\<close>

definition driver_ok :: "('v, 'st) DriverSystem \<Rightarrow> bool" where
  "driver_ok sys \<longleftrightarrow>
     mset (replied_channels (sy_log sys) @ owed_channels (sy_owner sys) @ queued_channels (sy_mailbox sys)) =
       mset [0..<length (sy_channels sys)] \<and>
     (if finished (sy_owner sys) then mb_closed (sy_mailbox sys) \<and> mb_commands (sy_mailbox sys) = []
      else open_mailbox (sy_mailbox sys)) \<and>
     (sy_owner sys = AtMailbox \<and> \<not> sy_scheduled sys \<longrightarrow> mb_commands (sy_mailbox sys) = [] \<and> mb_waker (sy_mailbox sys)) \<and>
     channels_ok (sy_log sys) (sy_channels sys)"

lemma driver_ok_open: "driver_ok (driver_open rt)"
  by (simp add: driver_ok_def driver_open_def mailbox_new_def open_mailbox_def queued_channels_def channels_ok_def)

text \<open>The kinds of steps of a driver in good order.\<close>

lemma driver_step_kinds:
  assumes "driver_step ops sys sys'" and ok: "driver_ok sys"
  obtains (queued) command where "\<not> finished (sy_owner sys)" "command_channel command = length (sy_channels sys)"
      "sys' = sys\<lparr>sy_channels := sy_channels sys @ [response_channel],
         sy_mailbox := (sy_mailbox sys)\<lparr>mb_commands := mb_commands (sy_mailbox sys) @ [command], mb_waker := False\<rparr>,
         sy_scheduled := sy_scheduled sys \<or> mb_waker (sy_mailbox sys)\<rparr>"
  | (refused) command mb r where "finished (sy_owner sys)" "command_channel command = length (sy_channels sys)"
      "complete_after_close (sy_mailbox sys) command = (mb, r)"
      "sys' = send_replies [r] (sys\<lparr>sy_channels := sy_channels sys @ [response_channel], sy_mailbox := mb\<rparr>)"
  | (owner) step mb chans scheduled where "\<not> finished (sy_owner sys)" "sys' = (apply_owner_step step sys)\<lparr>sy_scheduled := scheduled\<rparr>"
      "open_mailbox mb" "owner_step_ok ops chans mb (sy_driver sys) step"
      "mset (chans @ queued_channels mb) = mset (owed_channels (sy_owner sys) @ queued_channels (sy_mailbox sys))"
      "scheduled \<or> finished (snd (snd (snd step)))"
  | (waiting) "sy_owner sys = AtMailbox" "mb_commands (sy_mailbox sys) = []"
      "sys' = sys\<lparr>sy_mailbox := (sy_mailbox sys)\<lparr>mb_waker := True\<rparr>, sy_scheduled := False\<rparr>"
  | (idle) "sys' = sys"
  | (polled) reply where "reply < length (sy_channels sys)" "sys' = poll_future reply sys"
  | (scopes) st where "sys' = sys\<lparr>sy_driver := (sy_driver sys)\<lparr>dv_runtime := (dv_runtime (sy_driver sys))\<lparr>rt_scopes := st\<rparr>\<rparr>\<rparr>"
  using assms(1)
proof (cases rule: driver_step.cases)
  case (submitted new_command)
  define c where "c = new_command (length (sy_channels sys))"
  have c: "command_channel c = length (sy_channels sys)" using submitted by (simp add: c_def)
  show thesis
  proof (cases "finished (sy_owner sys)")
    case True
    then have "mb_closed (sy_mailbox sys)" using ok by (simp add: driver_ok_def)
    moreover obtain mb r where "complete_after_close (sy_mailbox sys) c = (mb, r)" by (meson surj_pair)
    ultimately show thesis
      using refused [OF True c] submitted by (simp add: handle_submit_def Let_def mailbox_submit_def c_def)
  next
    case False
    then have "\<not> mb_closed (sy_mailbox sys)" using ok by (simp add: driver_ok_def open_mailbox_def)
    then show thesis
      using queued [OF False c] submitted by (simp add: handle_submit_def Let_def mailbox_submit_def c_def)
  qed
next
  case turned
  then have mb: "open_mailbox (sy_mailbox sys)" using ok by (simp add: driver_ok_def)
  show thesis
  proof (cases "mb_commands (sy_mailbox sys)")
    case Nil
    then show thesis
      using waiting turned mb by (simp add: owner_turn_def mailbox_next_def open_mailbox_def)
  next
    case (Cons c cs)
    let ?mb = "(sy_mailbox sys)\<lparr>mb_commands := cs\<rparr>"
    let ?step = "run_command ops ?mb (sy_driver sys) c"
    have mb': "open_mailbox ?mb" using mb by (simp add: open_mailbox_def)
    have "sys' = (apply_owner_step ?step sys)\<lparr>sy_scheduled := True\<rparr>"
    proof -
      have "sy_scheduled (apply_owner_step ?step sys) = True"
        using turned by (metis apply_owner_step_sel(4) prod_cases4)
      then show ?thesis using turned Cons by (simp add: owner_turn_def mailbox_next_def)
    qed
    then show thesis
      using owner [of True ?step ?mb "[command_channel c]"] run_command_ok [OF mb', of ops c "sy_driver sys"] mb' turned Cons
      by (simp add: queued_channels_def)
  qed
next
  case (resumed reply request answer)
  then have mb: "open_mailbox (sy_mailbox sys)" using ok by (simp add: driver_ok_def)
  let ?e = "dispatch_end ops (sy_driver sys) request answer"
  let ?step = "answer_command (sy_mailbox sys) reply DriveValue ?e"
  have "owner_step_ok ops [reply] (sy_mailbox sys) (sy_driver sys) (answer_command (sy_mailbox sys) reply DriveValue (fst ?e, snd ?e))"
    by (rule answer_command_ok [OF mb dispatch_end_moves]) simp
  then show thesis
    using owner [of True ?step "sy_mailbox sys" "[reply]"] mb resumed by (simp add: owner_resume_def)
next
  case dropped
  show thesis
  proof (cases "finished (sy_owner sys)")
    case True
    then show thesis using idle dropped by (cases "sy_owner sys") (simp_all add: drop_owner_def)
  next
    case False
    let ?step = "unwind_owner (sy_mailbox sys) (sy_driver sys) (owed_channels (sy_owner sys))"
    have mb: "open_mailbox (sy_mailbox sys)" using ok False by (simp add: driver_ok_def)
    have "sys' = apply_owner_step ?step sys"
      using dropped False by (cases "sy_owner sys") (simp_all add: drop_owner_def)
    moreover have step: "owner_step_ok ops (owed_channels (sy_owner sys)) (sy_mailbox sys) (sy_driver sys) ?step"
      by (rule unwind_owner_ok [OF mb driver_moves_refl])
    moreover have "snd (snd (snd ?step)) = Gone" by (simp add: unwind_owner_def Let_def split: prod.splits)
    ultimately show thesis
      using owner [of "sy_scheduled (apply_owner_step ?step sys)" ?step "sy_mailbox sys" "owed_channels (sy_owner sys)"]
        step mb False
      by simp
  qed
next
  case (polled reply)
  then show thesis using that(6) by blast
next
  case (scopes_changed st)
  then show thesis using that(7) by blast
qed

lemma channels_ok_grow: "channels_ok log channels \<Longrightarrow> answers (length channels) log = [] \<Longrightarrow>
    channels_ok log (channels @ [response_channel])"
  by (auto simp: channels_ok_def channel_ok_def nth_append response_channel_def less_Suc_eq)

text \<open>A channel that is not yet open appears in no event.\<close>

lemma driver_ok_channels:
  assumes "driver_ok sys"
  shows "distinct (replied_channels (sy_log sys) @ owed_channels (sy_owner sys) @ queued_channels (sy_mailbox sys))"
    and "set (replied_channels (sy_log sys) @ owed_channels (sy_owner sys) @ queued_channels (sy_mailbox sys)) = {0..<length (sy_channels sys)}"
proof -
  let ?all = "replied_channels (sy_log sys) @ owed_channels (sy_owner sys) @ queued_channels (sy_mailbox sys)"
  have "mset ?all = mset [0..<length (sy_channels sys)]" using assms by (simp only: driver_ok_def)
  then show "distinct ?all" "set ?all = {0..<length (sy_channels sys)}"
    by (metis distinct_upt mset_eq_imp_distinct_iff) (metis \<open>mset ?all = _\<close> mset_eq_setD set_upt)
qed

lemma driver_ok_answers: "driver_ok sys \<Longrightarrow> length (sy_channels sys) \<le> c \<Longrightarrow> answers c (sy_log sys) = []"
  by (metis Un_iff answers_none atLeastLessThan_iff driver_ok_channels(2) leD set_append)

lemma channels_ok_update:
  assumes "channels_ok log channels" and "c < length channels" and "channel_ok log' c st"
    and "\<And>c'. c' \<noteq> c \<Longrightarrow> answers c' log' = answers c' log \<and> observed c' log' = observed c' log"
  shows "channels_ok log' (channels[c := st])"
  using assms by (auto simp: channels_ok_def channel_ok_def nth_list_update)

lemma driver_step_ok:
  assumes "driver_step ops sys sys'" and ok: "driver_ok sys"
  shows "driver_ok sys'"
  using assms
proof (cases rule: driver_step_kinds)
  case (queued command)
  have "channels_ok (sy_log sys) (sy_channels sys @ [response_channel])"
    using ok driver_ok_answers [OF ok] by (intro channels_ok_grow) (simp_all add: driver_ok_def)
  then show ?thesis using ok queued by (auto simp: driver_ok_def open_mailbox_def queued_channels_def)
next
  case (refused command mb r)
  have closed: "mb_closed (sy_mailbox sys)" "mb_commands (sy_mailbox sys) = []" "owed_channels (sy_owner sys) = []"
    using ok refused(1) by (cases "sy_owner sys"; simp add: driver_ok_def)+
  note c = complete_after_close_ok [OF refused(3) closed(1)]
  have grown: "channels_ok (sy_log sys) (sy_channels sys @ [response_channel])"
    using ok driver_ok_answers [OF ok] by (intro channels_ok_grow) (simp_all add: driver_ok_def)
  have "length (sy_channels sys) \<notin> set (replied_channels (sy_log sys))" using driver_ok_answers [OF ok] answers_none by blast
  then have "channels_ok (sy_log sys @ reply_events_of [r]) (fold send_reply [r] (sy_channels sys @ [response_channel]))"
    using c(1) refused(2) by (intro channels_ok_send [OF grown]) simp_all
  moreover have "sy_log sys' = sy_log sys @ reply_events_of [r]" "sy_mailbox sys' = mb" "sy_owner sys' = sy_owner sys"
    "sy_channels sys' = fold send_reply [r] (sy_channels sys @ [response_channel])"
    by (simp_all add: refused(4))
  ultimately show ?thesis
    using ok refused(1,2) c closed unfolding driver_ok_def by (auto simp: queued_channels_def)
next
  case (owner step mb chans scheduled)
  obtain mb' d' rs task where step: "step = (mb', d', rs, task)" by (metis prod_cases4)
  note acc = owner_step_okD(1,2) [OF owner(4) [unfolded step]]
  let ?log = "sy_log sys @ reply_events_of rs @ adapter_event task"
  let ?new = "replied_channels ?log @ owed_channels task @ queued_channels mb'"
  have all: "mset ?new = mset [0..<length (sy_channels sys)]"
    using acc(1) owner(5) ok by (simp add: driver_ok_def)
  have "mset (map fst rs) \<subseteq># mset (owed_channels (sy_owner sys) @ queued_channels (sy_mailbox sys))"
    using acc(1) owner(5) by (metis mset_append mset_subset_eq_add_left)
  then have "set (map fst rs) \<subseteq> set (owed_channels (sy_owner sys) @ queued_channels (sy_mailbox sys))"
    by (metis set_mset_mono set_mset_mset)
  then have fresh: "\<forall>r\<in>set rs. fst r < length (sy_channels sys) \<and> fst r \<notin> set (replied_channels (sy_log sys))"
    using driver_ok_channels [OF ok] by fastforce
  have "distinct ?new" using all by (metis distinct_upt mset_eq_imp_distinct_iff)
  then have "channels_ok (sy_log sys @ reply_events_of rs) (fold send_reply rs (sy_channels sys))"
    using ok fresh by (intro channels_ok_send) (simp_all add: driver_ok_def)
  then have "channels_ok ?log (fold send_reply rs (sy_channels sys))"
    by (simp add: channels_ok_def channel_ok_def)
  then show ?thesis
    using all acc(2) owner(2,3,6) by (auto simp: step driver_ok_def)
next
  case waiting
  then show ?thesis using ok by (auto simp: driver_ok_def open_mailbox_def queued_channels_def)
next
  case idle
  then show ?thesis using ok by simp
next
  case (polled reply)
  have old: "channel_ok (sy_log sys) reply (sy_channels sys ! reply)" using ok polled(1) by (simp add: driver_ok_def channels_ok_def)
  show ?thesis
  proof (cases "rs_result (sy_channels sys ! reply)")
    case None
    then have "sys' = sys\<lparr>sy_channels := (sy_channels sys)[reply := (sy_channels sys ! reply)\<lparr>rs_waker := True\<rparr>]\<rparr>"
      using polled by (simp add: poll_future_def driver_future_poll_def)
    moreover have "channels_ok (sy_log sys) ((sy_channels sys)[reply := (sy_channels sys ! reply)\<lparr>rs_waker := True\<rparr>])"
      using ok old None polled(1) by (intro channels_ok_update) (simp_all add: driver_ok_def channel_ok_def)
    ultimately show ?thesis using ok by (simp add: driver_ok_def)
  next
    case (Some a)
    then have "sys' = sys\<lparr>sy_channels := (sy_channels sys)[reply := (sy_channels sys ! reply)\<lparr>rs_result := None\<rparr>],
        sy_log := sy_log sys @ [Observed reply a]\<rparr>"
      using polled by (simp add: poll_future_def driver_future_poll_def)
    moreover have "channels_ok (sy_log sys @ [Observed reply a])
        ((sy_channels sys)[reply := (sy_channels sys ! reply)\<lparr>rs_result := None\<rparr>])"
      using ok old Some polled(1) by (intro channels_ok_update) (simp_all add: driver_ok_def channel_ok_def)
    ultimately show ?thesis using ok by (simp add: driver_ok_def)
  qed
next
  case (scopes st)
  then show ?thesis using ok by (simp add: driver_ok_def)
qed

lemma driver_steps_ok: "driver_steps ops (driver_open rt) sys \<Longrightarrow> driver_ok sys"
  by (induction rule: rtranclp_induct) (auto intro: driver_ok_open driver_step_ok)

end
