(* ===== verification/Driver_Ends.thy ===== *)
theory Driver_Ends
  imports Driver_Histories
begin

text \<open>
  Histories of a driver over a runtime: the lifecycle items, the requests of the adapter, the
  exit, and the panics that do not happen.
\<close>

section \<open>Lifecycle items\<close>

definition lifecycle_ok :: "('v, 'st) Runtime \<Rightarrow> ('v, 'st) DriverSystem \<Rightarrow> bool" where
  "lifecycle_ok rt0 sys \<longleftrightarrow>
     held_inv (sy_driver sys) \<and>
     (\<exists>new. reported rt0 (dv_runtime (sy_driver sys)) new \<and>
        delivered_items (sy_log sys) @ mb_shutdown_execution (sy_mailbox sys) @ undrained (sy_driver sys) =
          buffered_items rt0 @ new)"

lemma lifecycle_ok_open: "rt_pending_started rt = None \<Longrightarrow> lifecycle_ok rt (driver_open rt)"
  by (auto simp: lifecycle_ok_def driver_open_def RuntimeDriver_new_def held_inv_def mailbox_new_def undrained_def
      intro!: exI [of _ "[]"])

lemma lifecycle_ok_same:
  assumes "lifecycle_ok rt0 sys" and "sy_driver sys' = sy_driver sys" and "delivered_items (sy_log sys') @ mb_shutdown_execution (sy_mailbox sys') =
    delivered_items (sy_log sys) @ mb_shutdown_execution (sy_mailbox sys)"
  shows "lifecycle_ok rt0 sys'"
  using assms by (simp add: lifecycle_ok_def flip: append_assoc)

lemma driver_step_lifecycle:
  assumes "driver_step ops sys sys'" and ok: "driver_ok sys" and life: "lifecycle_ok rt0 sys"
  shows "lifecycle_ok rt0 sys'"
  using assms(1) ok
proof (cases rule: driver_step_kinds)
  case (refused command mb r)
  have "mb_closed (sy_mailbox sys)" using ok refused(1) by (simp add: driver_ok_def)
  note c = complete_after_close_ok [OF refused(3) this]
  have "sy_log sys' = sy_log sys @ reply_events_of [r]" "sy_mailbox sys' = mb" "sy_driver sys' = sy_driver sys"
    by (simp_all add: refused(4))
  then show ?thesis using lifecycle_ok_same [OF life, of sys'] c(6) by simp
next
  case (owner step mb chans scheduled)
  obtain mb' d' rs task where step: "step = (mb', d', rs, task)" by (metis prod_cases4)
  note a = owner_step_okD(6,7) [OF owner(4) [unfolded step]]
  obtain xs where xs: "reported rt0 (dv_runtime (sy_driver sys)) xs" "held_inv (sy_driver sys)"
    "delivered_items (sy_log sys) @ undrained (sy_driver sys) = buffered_items rt0 @ xs"
    using life ok owner(1) by (auto simp: lifecycle_ok_def driver_ok_def open_mailbox_def)
  obtain new where new: "reported (dv_runtime (sy_driver sys)) (dv_runtime d') new"
    "drained_by rs @ mb_shutdown_execution mb' @ undrained d' = undrained (sy_driver sys) @ new"
    using a(2) [OF xs(2)] by blast
  have "delivered_items (sy_log sys) @ drained_by rs @ mb_shutdown_execution mb' @ undrained d' = buffered_items rt0 @ xs @ new"
    using new(2) xs(3) by (metis append.assoc)
  then show ?thesis
    using a(1) [OF xs(2)] reported_trans [OF xs(1) new(1)] by (auto simp: lifecycle_ok_def owner(2) step)
next
  case (polled reply)
  have "sy_driver sys' = sy_driver sys" "sy_mailbox sys' = sy_mailbox sys" "delivered_items (sy_log sys') = delivered_items (sy_log sys)"
    by (simp_all add: polled(2) poll_future_def split: prod.splits option.splits)
  then show ?thesis using lifecycle_ok_same [OF life] by simp
next
  case (scopes st)
  have "reported rt0 (rt\<lparr>rt_scopes := st\<rparr>) new = reported rt0 rt new" for rt new
    by (simp add: reported_def known_attempts_def)
  then show ?thesis using life by (simp add: lifecycle_ok_def scopes undrained_def buffered_items_def held_inv_def)
qed (use life in \<open>auto simp: lifecycle_ok_def\<close>)

lemma driver_steps_lifecycle:
  assumes "driver_steps ops (driver_open rt) sys" and "rt_pending_started rt = None"
  shows "lifecycle_ok rt sys"
  using assms(1)
proof (induction rule: rtranclp_induct)
  case base
  then show ?case by (rule lifecycle_ok_open [OF assms(2)])
next
  case (step sys sys')
  then show ?case using driver_step_lifecycle driver_steps_ok by blast
qed

section \<open>The runtime and the adapter\<close>

definition requested_attempts :: "OperationId \<Rightarrow> driver_event list \<Rightarrow> AttemptId list" where
  "requested_attempts x log = map eq_attempt_id (filter (\<lambda>q. eq_operation_id q = x) (adapter_requests log))"

definition names_intent :: "('v, 'st) Runtime \<Rightarrow> EffectDispatchRequest \<Rightarrow> bool" where
  "names_intent rt q \<longleftrightarrow>
     eq_run_id q = rt_run_id rt \<and>
     (\<exists>i. fmlookup (jr_intents (rt_journal rt)) (eq_operation_id q) = Some i \<and>
        eq_task_id q = ei_task_id i \<and> eq_semantics q = ei_semantics i)"

text \<open>The runtime moves by its calls; every request follows a recorded dispatch.\<close>

definition requests_ok :: "('v, 'st) Runtime \<Rightarrow> ('v, 'st) DriverSystem \<Rightarrow> bool" where
  "requests_ok rt0 sys \<longleftrightarrow>
     (let rt = dv_runtime (sy_driver sys) in
      rt_run_id rt = rt_run_id rt0 \<and> list_all (names_intent rt) (adapter_requests (sy_log sys)) \<and>
      (\<forall>x. subseq (attempts_entry (rt_journal rt0) x @ requested_attempts x (sy_log sys)) (attempts_entry (rt_journal rt) x)))"

lemma requested_attempts_simps [simp]:
  "requested_attempts x (xs @ ys) = requested_attempts x xs @ requested_attempts x ys"
  "requested_attempts x (reply_events_of rs) = []" "requested_attempts x [Observed c a] = []"
  by (simp_all add: requested_attempts_def)

lemma names_intent_extends:
  "names_intent rt q \<Longrightarrow> journal_extends (rt_journal rt) (rt_journal rt') \<Longrightarrow> rt_run_id rt' = rt_run_id rt \<Longrightarrow> names_intent rt' q"
  by (auto simp: names_intent_def journal_extends_def)

lemma requests_ok_same:
  assumes "requests_ok rt0 sys" and "rt_journal (dv_runtime (sy_driver sys')) = rt_journal (dv_runtime (sy_driver sys))"
    and "rt_run_id (dv_runtime (sy_driver sys')) = rt_run_id (dv_runtime (sy_driver sys))"
    and "adapter_requests (sy_log sys') = adapter_requests (sy_log sys)"
  shows "requests_ok rt0 sys'"
  using assms by (auto simp: requests_ok_def names_intent_def requested_attempts_def Let_def list_all_iff)

lemma granted_adds:
  assumes "granted ops d d' q"
  shows "\<exists>as. attempts_entry (rt_journal (dv_runtime d')) (eq_operation_id q) =
      attempts_entry (rt_journal (dv_runtime d)) (eq_operation_id q) @ as @ [eq_attempt_id q]"
    and "rt_run_id (dv_runtime d') = eq_run_id q" and "names_intent (dv_runtime d') q"
proof -
  obtain rt i where g: "journal_extends (rt_journal (dv_runtime d)) (rt_journal rt)"
    "dispatch_effect ops rt (eq_operation_id q) = (dv_runtime d', Inr (eq_attempt_id q))"
    "fmlookup (jr_intents (rt_journal rt)) (eq_operation_id q) = Some i"
    "eq_run_id q = rt_run_id (dv_runtime d')" "eq_task_id q = ei_task_id i" "eq_semantics q = ei_semantics i"
    using assms by (auto simp: granted_def)
  obtain as where "attempts_entry (rt_journal rt) (eq_operation_id q) =
      attempts_entry (rt_journal (dv_runtime d)) (eq_operation_id q) @ as"
    using g(1) unfolding journal_extends_def prefix_def by blast
  then show "\<exists>as. attempts_entry (rt_journal (dv_runtime d')) (eq_operation_id q) =
      attempts_entry (rt_journal (dv_runtime d)) (eq_operation_id q) @ as @ [eq_attempt_id q]"
    using dispatch_effect_adds(1) [OF g(2)] by simp
  show "rt_run_id (dv_runtime d') = eq_run_id q" using g(4) by simp
  have "journal_extends (rt_journal rt) (rt_journal (dv_runtime d'))"
    using dispatch_effect_journal [of rt ops "eq_operation_id q"] g(2) by (simp add: journal_step_def)
  then show "names_intent (dv_runtime d') q" using g by (auto simp: names_intent_def journal_extends_def)
qed

lemma driver_step_requests:
  assumes "driver_step ops sys sys'" and ok: "driver_ok sys" and reqs: "requests_ok rt0 sys"
  shows "requests_ok rt0 sys'" and "(runtime_call ops)\<^sup>*\<^sup>* (dv_runtime (sy_driver sys)) (dv_runtime (sy_driver sys'))"
proof -
  let ?calls = "(runtime_call ops)\<^sup>*\<^sup>* (dv_runtime (sy_driver sys)) (dv_runtime (sy_driver sys'))"
  from assms(1) ok have "requests_ok rt0 sys' \<and> ?calls"
  proof (cases rule: driver_step_kinds)
    case (refused command mb r)
    then have "sy_driver sys' = sy_driver sys" "adapter_requests (sy_log sys') = adapter_requests (sy_log sys)"
      by simp_all
    then show ?thesis using requests_ok_same [OF reqs, of sys'] by simp
  next
    case (owner step mb chans scheduled)
    obtain mb' d' rs task where step: "step = (mb', d', rs, task)" by (metis prod_cases4)
    note a = owner_step_okD(3,4,5) [OF owner(4) [unfolded step]]
    note granted = owner_step_okD(8) [OF owner(4) [unfolded step]]
    let ?rt = "dv_runtime (sy_driver sys)" and ?rt' = "dv_runtime d'"
    have old: "rt_run_id ?rt = rt_run_id rt0" "list_all (names_intent ?rt) (adapter_requests (sy_log sys))"
      "\<And>x. subseq (attempts_entry (rt_journal rt0) x @ requested_attempts x (sy_log sys)) (attempts_entry (rt_journal ?rt) x)"
      using reqs by (simp_all add: requests_ok_def Let_def)
    have kept: "list_all (names_intent ?rt') (adapter_requests (sy_log sys))"
      using old(2) names_intent_extends [OF _ a(2,3)] by (auto simp: list_all_iff)
    have grown: "subseq (attempts_entry (rt_journal rt0) x @ requested_attempts x (sy_log sys)) (attempts_entry (rt_journal ?rt') x)" for x
      using old(3) [of x] a(2) unfolding journal_extends_def
      by (meson prefix_imp_sublist sublist_imp_subseq subseq_order.trans)
    have "requests_ok rt0 sys'"
    proof (cases "\<exists>c q. task = AwaitingEffect c q")
      case True
      then obtain c q where task: "task = AwaitingEffect c q" by blast
      note g = granted_adds [OF granted [OF task]]
      have log: "adapter_requests (sy_log sys') = adapter_requests (sy_log sys) @ [q]"
      proof -
        have "adapter_requests (adapter_event task) = [q]" by (simp add: task adapter_requests_def)
        then show ?thesis by (simp add: owner(2) step)
      qed
      have "subseq (attempts_entry (rt_journal rt0) x @ requested_attempts x (sy_log sys')) (attempts_entry (rt_journal ?rt') x)" for x
      proof (cases "eq_operation_id q = x")
        case True
        have "subseq ((attempts_entry (rt_journal rt0) x @ requested_attempts x (sy_log sys)) @ [eq_attempt_id q])
            (attempts_entry (rt_journal ?rt) x @ as @ [eq_attempt_id q])" for as
          using old(3) [of x] by (intro list_emb_append_mono) (auto intro: list_emb_append2)
        then have "subseq ((attempts_entry (rt_journal rt0) x @ requested_attempts x (sy_log sys)) @ [eq_attempt_id q])
            (attempts_entry (rt_journal ?rt') x)"
          using g(1) True by metis
        then show ?thesis using True log by (simp add: requested_attempts_def)
      next
        case False
        then show ?thesis using grown [of x] log by (simp add: requested_attempts_def)
      qed
      then show ?thesis using kept g(3) log old(1) a(3) by (simp add: requests_ok_def Let_def owner(2) step)
    next
      case False
      then have "adapter_event task = []" by (cases task) simp_all
      then show ?thesis using kept grown old(1) a(3) by (simp add: requests_ok_def Let_def owner(2) step)
    qed
    then show ?thesis using a(1) by (simp add: owner(2) step)
  next
    case (polled reply)
    have "sy_driver sys' = sy_driver sys" "adapter_requests (sy_log sys') = adapter_requests (sy_log sys)"
      by (simp_all add: polled(2) poll_future_def split: prod.splits option.splits)
    then show ?thesis using requests_ok_same [OF reqs, of sys'] by simp
  next
    case (scopes st)
    have "runtime_call ops (dv_runtime (sy_driver sys)) (dv_runtime (sy_driver sys'))"
      by (simp add: scopes runtime_call.host_scopes)
    then show ?thesis using requests_ok_same [OF reqs, of sys'] by (auto simp: scopes)
  qed (use reqs in \<open>auto simp: requests_ok_def Let_def\<close>)
  then show "requests_ok rt0 sys'" ?calls by blast+
qed

lemma run_history_calls:
  assumes "(runtime_call ops)\<^sup>*\<^sup>* rt rt'" and "run_history ops ok rt"
  shows "run_history ops ok rt'"
  using assms by (induction rule: rtranclp_induct) (auto intro: run_history.called)

lemma driver_steps_requests:
  assumes "driver_steps ops (driver_open rt) sys"
  shows "requests_ok rt sys" and "(runtime_call ops)\<^sup>*\<^sup>* rt (dv_runtime (sy_driver sys))"
proof -
  have "requests_ok rt sys \<and> (runtime_call ops)\<^sup>*\<^sup>* rt (dv_runtime (sy_driver sys))"
    using assms
  proof (induction rule: rtranclp_induct)
    case base
    show ?case by (simp add: requests_ok_def driver_open_def RuntimeDriver_new_def requested_attempts_def)
  next
    case (step sys sys')
    then show ?case using driver_step_requests [OF step(2) driver_steps_ok [OF step(1)]] by (meson rtranclp_trans)
  qed
  then show "requests_ok rt sys" "(runtime_call ops)\<^sup>*\<^sup>* rt (dv_runtime (sy_driver sys))" by blast+
qed

section \<open>The exit\<close>

lemma complete_task_completes:
  assumes "complete_task ops rt t a = (rt', r)"
  shows "wg_topology (rt_workflow rt') = wg_topology (rt_workflow rt)"
    and "graph_is_completed (rt_workflow rt) t' \<Longrightarrow> graph_is_completed (rt_workflow rt') t'"
    and "r = Inr () \<Longrightarrow> graph_is_completed (rt_workflow rt') t"
proof -
  have "wg_topology (rt_workflow rt') = wg_topology (rt_workflow rt) \<and>
      (graph_is_completed (rt_workflow rt) t' \<longrightarrow> graph_is_completed (rt_workflow rt') t') \<and>
      (r = Inr () \<longrightarrow> graph_is_completed (rt_workflow rt') t)"
    using assms
  proof (cases rule: complete_task_cases)
    case (committed w c v rt1)
    have "rt_workflow rt' = w" using committed(3) by (simp add: same_state_def)
    then show ?thesis using committed(1) by (auto simp: complete_Inr_iff graph_is_completed_def facts_is_completed_def)
  qed (auto dest: commit_durable_same simp: same_state_def)
  then show "wg_topology (rt_workflow rt') = wg_topology (rt_workflow rt)"
    "graph_is_completed (rt_workflow rt) t' \<Longrightarrow> graph_is_completed (rt_workflow rt') t'"
    "r = Inr () \<Longrightarrow> graph_is_completed (rt_workflow rt') t"
    by blast+
qed

text \<open>Recovery of a known success completes the task, and undoes nothing.\<close>

definition success_completed :: "('v, 'st) Runtime \<Rightarrow> OperationId \<Rightarrow> bool" where
  "success_completed rt x \<longleftrightarrow>
     (\<forall>i. fmlookup (jr_intents (rt_journal rt)) x = Some i \<longrightarrow> journal_state (rt_journal rt) x = OutcomeKnown Succeeded \<longrightarrow>
        graph_task (rt_workflow rt) (ei_task_id i) \<noteq> None \<longrightarrow> graph_is_completed (rt_workflow rt) (ei_task_id i))"

lemma recover_success:
  assumes "recover ops rt x = (rt', Inr d)"
  shows "rt_journal rt' = rt_journal rt" and "rt_run_id rt' = rt_run_id rt" and "success_completed rt' x"
    and "success_completed rt y \<Longrightarrow> success_completed rt' y"
proof -
  have "rt_journal rt' = rt_journal rt \<and> rt_run_id rt' = rt_run_id rt \<and> success_completed rt' x \<and>
      (success_completed rt y \<longrightarrow> success_completed rt' y)"
  proof (cases "rt' = rt \<and> success_completed rt x")
    case True
    then show ?thesis by simp
  next
    case False
    obtain d' where d': "classify_runtime rt x = Inr d'" using assms by (auto simp: recover_def split: sum.splits)
    have act: "rd_action d' = CompleteWithoutReexecution \<or> success_completed rt x"
      using d'
      by (auto simp: success_completed_def classify_runtime_def classify_recovery_def journal_intent_def decide_def Let_def
          split: sum.splits option.splits JournalError.splits if_splits)
    obtain i a where "fmlookup (jr_intents (rt_journal rt)) x = Some i"
      and done1: "complete_task ops rt (ei_task_id i) a = (rt', Inr ())"
      using assms False d' act
      by (auto simp: recover_def journal_intent_def success_completed_def elim!: and_then_Inr split: if_splits option.splits)
    note c = complete_task_completes [OF done1]
    have "rt_journal rt' = rt_journal rt" "rt_run_id rt' = rt_run_id rt"
      using done1 by (cases rule: complete_task_cases; auto simp: same_state_def dest!: commit_durable_same)+
    then show ?thesis
      using c \<open>fmlookup (jr_intents (rt_journal rt)) x = Some i\<close>
      by (auto simp: success_completed_def graph_task_def)
  qed
  then show "rt_journal rt' = rt_journal rt" "rt_run_id rt' = rt_run_id rt" "success_completed rt' x"
    "success_completed rt y \<Longrightarrow> success_completed rt' y"
    by blast+
qed

lemma recover_known_success:
  assumes "recover_known ops d xs = (d', Inr ())"
  shows "rt_journal (dv_runtime d') = rt_journal (dv_runtime d) \<and> rt_run_id (dv_runtime d') = rt_run_id (dv_runtime d) \<and>
    (\<forall>x. x \<in> set xs \<or> success_completed (dv_runtime d) x \<longrightarrow> success_completed (dv_runtime d') x)"
  using assms
proof (induction xs arbitrary: d)
  case Nil
  then show ?case by simp
next
  case (Cons x xs)
  obtain rt r where run: "recover ops (dv_runtime d) x = (rt, r)" by fastforce
  obtain v where v: "r = Inr v" using Cons.prems run by (cases r) (auto simp: driver_runtime_error_def)
  have rest: "recover_known ops (d\<lparr>dv_runtime := rt\<rparr>) xs = (d', Inr ())" using Cons.prems run v by simp
  show ?case using Cons.IH [OF rest] recover_success [OF run [unfolded v]] by auto
qed

text \<open>
  How a driver ends: what an exit guarantees, that no command panics, and that the owner, given
  the answers of its adapter, serves every command it has accepted.
\<close>

section \<open>The exit\<close>

definition exited_ok :: "'st store_ops \<Rightarrow> ('st \<Rightarrow> bool) \<Rightarrow> ('v, 'st) DriverSystem \<Rightarrow> bool" where
  "exited_ok ops store_ok sys \<longleftrightarrow>
     (\<forall>status. sy_owner sys = Exited status \<longrightarrow>
        (\<exists>d. run_history ops store_ok (dv_runtime d) \<and> shut_down ops d (sy_driver sys) status))"

lemma shut_down_scopes:
  "shut_down ops d (d'\<lparr>dv_runtime := (dv_runtime d')\<lparr>rt_scopes := st\<rparr>\<rparr>) status \<longleftrightarrow> shut_down ops d d' status"
  by (simp add: shut_down_def same_work_def buffered_items_def)

lemma driver_step_exited:
  assumes "driver_step ops sys sys'" and ok: "driver_ok sys" and "exited_ok ops store_ok sys"
    and history: "run_history ops store_ok (dv_runtime (sy_driver sys))"
  shows "exited_ok ops store_ok sys'"
  using assms(1) ok
proof (cases rule: driver_step_kinds)
  case (owner step mb chans scheduled)
  obtain mb' d' rs task where step: "step = (mb', d', rs, task)" by (metis prod_cases4)
  show ?thesis
    using owner_step_okD(9) [OF owner(4) [unfolded step]] history by (auto simp: exited_ok_def owner(2) step)
next
  case (polled reply)
  have "sy_driver sys' = sy_driver sys" "sy_owner sys' = sy_owner sys"
    by (simp_all add: polled(2) poll_future_def split: prod.splits)
  then show ?thesis using assms(3) by (simp add: exited_ok_def)
next
  case (scopes st)
  then show ?thesis using assms(3) by (simp add: exited_ok_def shut_down_scopes)
qed (use assms(3) in \<open>auto simp: exited_ok_def\<close>)

lemma driver_steps_history:
  "driver_steps ops (driver_open rt) sys \<Longrightarrow> run_history ops store_ok rt \<Longrightarrow> run_history ops store_ok (dv_runtime (sy_driver sys))"
  using driver_steps_requests(2) run_history_calls by blast

lemma driver_steps_exited:
  assumes "driver_steps ops (driver_open rt) sys" and "run_history ops store_ok rt"
  shows "exited_ok ops store_ok sys"
  using assms(1)
proof (induction rule: rtranclp_induct)
  case base
  then show ?case by (simp add: exited_ok_def driver_open_def)
next
  case (step sys sys')
  then show ?case
    using driver_step_exited [OF step(2) driver_steps_ok [OF step(1)]] driver_steps_history [OF step(1) assms(2)] by blast
qed

lemma driver_moves_history:
  "driver_moves ops d d' \<Longrightarrow> run_history ops store_ok (dv_runtime d) \<Longrightarrow> run_history ops store_ok (dv_runtime d')"
  using run_history_calls by (auto simp: driver_moves_def)

context runtime_host
begin

lemma loaded_view:
  assumes "run_history ops store_ok rt" and "durable_state ops rt = Inr s"
  shows "runs (rt_store rt) (rt_run_id rt) = Some s" and "runtime_view enc rt s"
proof -
  have load: "so_load_run ops (rt_store rt) (rt_run_id rt) = Inr s"
    using assms(2) by (auto simp: durable_state_def split: sum.splits)
  have inv: "runtime_inv enc store_ok runs rt" by (rule history_inv [OF assms(1)])
  then show runs: "runs (rt_store rt) (rt_run_id rt) = Some s" using load_ok [OF _ load] by (simp add: runtime_inv_def)
  show "runtime_view enc rt s" using inv runs by (auto simp: runtime_inv_def)
qed

lemma view_journal:
  assumes "runtime_view enc rt s"
  shows "jr_intents (rt_journal rt) = ds_intents s" and "journal_state (rt_journal rt) x = effect_state s x"
proof -
  have views: "journal_views (rt_journal rt) s" using assms by (simp add: runtime_view_def journal_mirror_def)
  then show "jr_intents (rt_journal rt) = ds_intents s" by (simp add: journal_views_def)
  show "journal_state (rt_journal rt) x = effect_state s x" by (rule views_queries(4) [OF views view_lineage [OF assms]])
qed

lemma exit_facts:
  assumes history: "run_history ops store_ok (dv_runtime d)" and down: "shut_down ops d d' status"
  shows "\<exists>s. runs (rt_store (dv_runtime d')) (rt_run_id (dv_runtime d')) = Some s \<and> status = shutdown_status_spec s \<and>
    (\<forall>x i. ds_intent s x = Some i \<longrightarrow> effect_state s x = OutcomeKnown Succeeded \<longrightarrow>
       graph_task (rt_workflow (dv_runtime d')) (ei_task_id i) \<noteq> None \<longrightarrow>
       graph_is_completed (rt_workflow (dv_runtime d')) (ei_task_id i))"
proof -
  obtain d1 d2 s0 s where retry: "retry_pending_lifecycle d = (d1, Inr ())" and s0: "durable_state ops (dv_runtime d1) = Inr s0"
    and known: "recover_known ops d1 (known_outcomes s0) = (d2, Inr ())" and s: "durable_state ops (dv_runtime d2) = Inr s"
    and status: "status = classify_shutdown s" and same: "same_work (dv_runtime d2) (dv_runtime d')"
    using down by (auto simp: shut_down_def)
  note m = retry_moves [OF retry]
  have h1: "run_history ops store_ok (dv_runtime d1)"
    using driver_moves_history [OF m(1) history] .
  have "driver_moves ops d1 d2" using recover_known_moves [of d1 ops "known_outcomes s0"] m(2) known by simp
  then have h2: "run_history ops store_ok (dv_runtime d2)" using driver_moves_history h1 by blast
  note v1 = view_journal [OF loaded_view(2) [OF h1 s0]] and v2 = view_journal [OF loaded_view(2) [OF h2 s]]
  note r = recover_known_success [OF known]
  have "graph_is_completed (rt_workflow (dv_runtime d')) (ei_task_id i)"
    if i: "ds_intent s x = Some i" and succeeded: "effect_state s x = OutcomeKnown Succeeded"
      and t: "graph_task (rt_workflow (dv_runtime d')) (ei_task_id i) \<noteq> None" for x i
  proof -
    have "ds_intents s0 = ds_intents s" "effect_state s0 x = OutcomeKnown Succeeded"
      using v1 v2 r succeeded by metis+
    then have "x \<in> set (known_outcomes s0)"
      using i by (auto simp: known_outcomes_def operation_ids_def ds_intent_def fmdom'I)
    then have "success_completed (dv_runtime d2) x" using r by blast
    then show ?thesis
      using i t succeeded v2 same by (simp add: success_completed_def same_work_def ds_intent_def)
  qed
  moreover have "runs (rt_store (dv_runtime d')) (rt_run_id (dv_runtime d')) = Some s"
    using loaded_view(1) [OF h2 s] same by (simp add: same_work_def)
  ultimately show ?thesis using status classify_shutdown_spec by blast
qed

end

section \<open>No command panics\<close>

lemma answer_command_task:
  "snd (snd (snd (answer_command mb reply wrap (d, r)))) = (if r = Inl (DriverRuntime RuntimePanic) then Gone else AtMailbox)"
  by (auto simp: answer_command_def unwind_owner_def Let_def split: sum.splits DriverError.splits RuntimeError.splits prod.splits)

lemma answer_command_survives:
  "snd m \<noteq> Inl (DriverRuntime RuntimePanic) \<Longrightarrow> snd (snd (snd (answer_command mb reply wrap m))) = AtMailbox"
  using answer_command_task [of mb reply wrap "fst m" "snd m"] by simp

lemma dispatch_begin_no_panic: "snd (dispatch_begin ops d x expected) \<noteq> Inl (DriverRuntime RuntimePanic)"
proof -
  obtain d1 r1 where retry: "retry_pending_lifecycle d = (d1, r1)" by fastforce
  have "r1 \<noteq> Inl RuntimePanic" using retry_moves(4) [OF retry] by auto
  then show ?thesis
    using dispatch_effect_no_panic [of ops "dv_runtime d1" x] retry
    by (auto simp: dispatch_begin_def driver_runtime_error_def Let_def split: sum.splits prod.splits)
qed

lemma recover_now_no_panic: "snd (recover_now ops d x) \<noteq> Inl (DriverRuntime RuntimePanic)"
proof -
  obtain d1 r1 where retry: "retry_pending_lifecycle d = (d1, r1)" by fastforce
  have "r1 \<noteq> Inl RuntimePanic" using retry_moves(4) [OF retry] by auto
  then show ?thesis
    using recover_no_panic [of ops "dv_runtime d1" x] retry
    by (auto simp: recover_now_def driver_runtime_error_def split: sum.splits prod.splits)
qed

lemma quiet_calls_no_panic:
  "\<not> panics (cancel_task ops rt t)" "\<not> panics (record_effect_outcome ops rt x a k)"
  by (auto simp: cancel_task_def record_effect_outcome_def commit_durable_def and_then_def Let_def
      split: if_splits sum.splits prod.splits)

lemma cancel_now_no_panic: "snd (cancel_now ops d t) \<noteq> Inl (DriverRuntime RuntimePanic)"
  using quiet_calls_no_panic(1) [of ops "dv_runtime d" t]
  by (auto simp: cancel_now_def driver_runtime_error_def split: sum.splits prod.splits)

lemma dispatch_end_no_panic: "snd (dispatch_end ops d q answer) \<noteq> Inl (DriverRuntime RuntimePanic)"
proof (cases answer)
  case (Inr known)
  then show ?thesis
    using quiet_calls_no_panic(2) [of ops "dv_runtime d" "eq_operation_id q" "eq_attempt_id q" known]
    by (auto simp: dispatch_end_def driver_runtime_error_def split: sum.splits prod.splits)
qed (simp add: dispatch_end_def)

lemma recover_known_no_panic: "snd (recover_known ops d xs) \<noteq> Inl (DriverRuntime RuntimePanic)"
proof (induction xs arbitrary: d)
  case (Cons x xs)
  then show ?case
    using recover_no_panic [of ops "dv_runtime d" x]
    by (auto simp: driver_runtime_error_def split: sum.splits prod.splits)
qed simp

lemma shutdown_now_no_panic: "snd (shutdown_now ops d) \<noteq> Inl (DriverRuntime RuntimePanic)"
proof -
  obtain d1 r1 where retry: "retry_pending_lifecycle d = (d1, r1)" by fastforce
  have "r1 \<noteq> Inl RuntimePanic" using retry_moves(4) [OF retry] by auto
  moreover have "durable_state ops rt \<noteq> Inl RuntimePanic" for rt :: "('a, 'b) Runtime"
    by (auto simp: durable_state_def split: sum.splits)
  ultimately show ?thesis
    using recover_known_no_panic [of ops d1] retry
    unfolding shutdown_now_def driver_runtime_error_def
    by (auto split: sum.splits prod.splits option.splits) (metis snd_conv)+
qed

context runtime_host
begin

lemma drive_begin_no_panic:
  fixes d :: "('v, 'st) RuntimeDriver"
  assumes "run_history ops store_ok (dv_runtime d)"
  shows "snd (drive_begin ops d) \<noteq> Inl (DriverRuntime RuntimePanic)"
proof -
  obtain d1 r1 where retry: "retry_pending_lifecycle d = (d1, r1)" by fastforce
  have r1: "r1 \<noteq> Inl RuntimePanic" using retry_moves(4) [OF retry] by auto
  have "run_history ops store_ok (dv_runtime d1)"
    using driver_moves_history [OF retry_moves(1) [OF retry] assms] .
  then obtain s where "runtime_view enc (dv_runtime d1) s" using history_inv by (auto simp: runtime_inv_def)
  then have step: "\<not> panics (runtime_step ops (dv_runtime d1))" by (rule runtime_step_no_panic)
  have "dispatch_begin ops d x y \<noteq> (d', Inl (DriverRuntime RuntimePanic))" for d' and d :: "('v, 'st) RuntimeDriver" and x y
    using dispatch_begin_no_panic [of ops d x y] by auto
  then show ?thesis
    using step r1 retry
    by (auto simp: drive_begin_def drive_runtime_error_def split: sum.splits prod.splits StepResult.splits RuntimeError.splits)
qed

lemma run_command_survives:
  fixes d :: "('v, 'st) RuntimeDriver"
  assumes "run_history ops store_ok (dv_runtime d)"
  shows "snd (snd (snd (run_command ops mb d c))) \<noteq> Gone"
proof -
  have await: "snd (snd (snd (await_effect mb reply m))) \<noteq> Gone" if "snd m \<noteq> Inl (DriverRuntime RuntimePanic)"
    for reply and m :: "('v, 'st) RuntimeDriver \<times> (DriverError + (DriveResult + EffectDispatchRequest))"
    using that by (auto simp: await_effect_def answer_command_task split: prod.splits sum.splits)
  show ?thesis
  proof (cases c)
    case (DispatchEffect x reply)
    have "snd (map_prod id (map_sum id Inr) (dispatch_begin ops d x None)) \<noteq> Inl (DriverRuntime RuntimePanic)"
      using dispatch_begin_no_panic [of ops d x None]
      by (cases "dispatch_begin ops d x None"; cases "snd (dispatch_begin ops d x None)") auto
    then show ?thesis using await [of "map_prod id (map_sum id Inr) (dispatch_begin ops d x None)"] DispatchEffect by simp
  next
    case (Shutdown reply)
    then show ?thesis
      using shutdown_now_no_panic [of ops d]
      by (auto simp: run_shutdown_def Let_def answer_command_task split: prod.splits sum.splits)
  qed (auto simp: answer_command_survives drive_begin_no_panic [OF assms] recover_now_no_panic cancel_now_no_panic
      await split: prod.splits)
qed

end

section \<open>Service\<close>

text \<open>
  The owner alone, with one answer of the adapter at hand for each round: it takes a command when
  there is one, or goes on with the answer it awaits.
\<close>

definition serve_round :: "'st store_ops \<Rightarrow> EffectDispatchError + KnownEffectOutcome \<Rightarrow>
    ('v, 'st) DriverSystem \<Rightarrow> ('v, 'st) DriverSystem" where
  "serve_round ops answer sys =
     (case sy_owner sys of
        AtMailbox \<Rightarrow> if mb_commands (sy_mailbox sys) = [] then sys else owner_turn ops sys
      | AwaitingEffect _ _ \<Rightarrow> owner_resume ops answer sys
      | _ \<Rightarrow> sys)"

definition serve :: "'st store_ops \<Rightarrow> (EffectDispatchError + KnownEffectOutcome) list \<Rightarrow>
    ('v, 'st) DriverSystem \<Rightarrow> ('v, 'st) DriverSystem" where
  "serve ops outcomes sys = fold (serve_round ops) outcomes sys"

text \<open>Each command takes at most two rounds.\<close>

definition open_rounds :: "('v, 'st) DriverSystem \<Rightarrow> nat" where
  "open_rounds sys = 2 * length (mb_commands (sy_mailbox sys)) + length (owed_channels (sy_owner sys))"

lemma owed_le_one: "length (owed_channels t) \<le> 1"
  by (cases t) simp_all

lemma finished_owes_nothing: "finished t \<Longrightarrow> owed_channels t = []"
  by (cases t) simp_all

lemma serve_round_step:
  assumes ok: "driver_ok sys" and work: "0 < open_rounds sys"
  shows "driver_step ops sys (serve_round ops answer sys)" and "open_rounds (serve_round ops answer sys) < open_rounds sys"
    and "length (sy_channels (serve_round ops answer sys)) = length (sy_channels sys)"
proof -
  let ?sys' = "serve_round ops answer sys"
  have "driver_step ops sys ?sys' \<and> open_rounds ?sys' < open_rounds sys \<and> length (sy_channels ?sys') = length (sy_channels sys)"
  proof (cases "sy_owner sys")
    case AtMailbox
    then obtain c cs where cs: "mb_commands (sy_mailbox sys) = c # cs"
      using work by (cases "mb_commands (sy_mailbox sys)") (simp_all add: open_rounds_def)
    have mb: "open_mailbox (sy_mailbox sys)" and scheduled: "sy_scheduled sys"
      using ok AtMailbox cs by (auto simp: driver_ok_def)
    let ?mb = "(sy_mailbox sys)\<lparr>mb_commands := cs\<rparr>"
    have mb': "open_mailbox ?mb" using mb by (simp add: open_mailbox_def)
    obtain mb2 d' rs task where step: "run_command ops ?mb (sy_driver sys) c = (mb2, d', rs, task)" by (metis prod_cases4)
    have sys': "?sys' = apply_owner_step (mb2, d', rs, task) sys"
      using AtMailbox cs step by (simp add: serve_round_def owner_turn_def mailbox_next_def)
    have fin: "if finished task then mb_closed mb2 \<and> mb_commands mb2 = [] else mb2 = ?mb"
      using owner_step_okD(2) run_command_ok [OF mb', of ops c "sy_driver sys"] step by metis
    have "driver_step ops sys (owner_turn ops sys)" by (rule driver_step.turned [OF AtMailbox scheduled])
    then show ?thesis
      using fin AtMailbox cs owed_le_one [of task] finished_owes_nothing [of task] sys'
      by (auto simp: serve_round_def open_rounds_def split: if_splits)
  next
    case (AwaitingEffect reply q)
    have mb: "open_mailbox (sy_mailbox sys)" using ok AwaitingEffect by (simp add: driver_ok_def)
    let ?e = "dispatch_end ops (sy_driver sys) q answer"
    have step_ok: "owner_step_ok ops [reply] (sy_mailbox sys) (sy_driver sys)
        (answer_command (sy_mailbox sys) reply DriveValue (fst ?e, snd ?e))"
      by (rule answer_command_ok [OF mb dispatch_end_moves]) simp
    obtain mb2 d' rs task where step: "answer_command (sy_mailbox sys) reply DriveValue ?e = (mb2, d', rs, task)" by (metis prod_cases4)
    have task: "owed_channels task = []"
      using answer_command_task [of "sy_mailbox sys" reply DriveValue "fst ?e" "snd ?e"] step by (simp split: if_splits)
    have fin: "if finished task then mb_closed mb2 \<and> mb_commands mb2 = [] else mb2 = sy_mailbox sys"
      using owner_step_okD(2) step_ok step by (metis prod.collapse)
    have "?sys' = (apply_owner_step (mb2, d', rs, task) sys)\<lparr>sy_scheduled := True\<rparr>"
      using AwaitingEffect step by (simp add: serve_round_def owner_resume_def)
    moreover have "driver_step ops sys (owner_resume ops answer sys)" by (rule driver_step.resumed [OF AwaitingEffect])
    ultimately show ?thesis
      using fin AwaitingEffect task by (auto simp: serve_round_def open_rounds_def split: if_splits)
  qed (use ok work in \<open>simp_all add: driver_ok_def open_rounds_def\<close>)
  then show "driver_step ops sys ?sys'" "open_rounds ?sys' < open_rounds sys" "length (sy_channels ?sys') = length (sy_channels sys)"
    by blast+
qed

lemma serve_round_idle: "driver_ok sys \<Longrightarrow> open_rounds sys = 0 \<Longrightarrow> serve_round ops answer sys = sys"
  by (cases "sy_owner sys") (simp_all add: serve_round_def open_rounds_def)

lemma serve_done:
  assumes "driver_ok sys" and "open_rounds sys \<le> length outcomes"
  shows "driver_steps ops sys (serve ops outcomes sys) \<and> open_rounds (serve ops outcomes sys) = 0 \<and>
    length (sy_channels (serve ops outcomes sys)) = length (sy_channels sys)"
  using assms
proof (induction outcomes arbitrary: sys)
  case Nil
  then show ?case by (simp add: serve_def)
next
  case (Cons answer outcomes)
  let ?sys' = "serve_round ops answer sys"
  have served: "serve ops (answer # outcomes) sys = serve ops outcomes ?sys'" by (simp add: serve_def)
  show ?case
  proof (cases "open_rounds sys = 0")
    case True
    then show ?thesis using Cons.IH [of sys] Cons.prems served by (simp add: serve_round_idle)
  next
    case False
    then have work: "0 < open_rounds sys" by simp
    note r = serve_round_step [OF Cons.prems(1) work, where ops = ops and answer = answer]
    have "driver_ok ?sys'" by (rule driver_step_ok [OF r(1) Cons.prems(1)])
    moreover have "open_rounds ?sys' \<le> length outcomes" using r(2) Cons.prems(2) by simp
    ultimately show ?thesis
      using Cons.IH [of ?sys'] r(1,3) served by (auto intro: converse_rtranclp_into_rtranclp)
  qed
qed

end
