(* ===== verification/Driver_Properties.thy ===== *)
theory Driver_Properties
  imports Driver_Ends Runtime_Properties
begin

text \<open>
  The properties of the asynchronous driver, over every interleaving of its callers, owner,
  adapter and drop, with a served and shut down driver as the concrete case.
\<close>

section \<open>A driver\<close>

text \<open>A drive whose effect succeeds, a drain, and a shutdown that completes the task.\<close>

definition driver_demo :: "(unit, InMemoryDurableStore) DriverSystem" where
  "driver_demo = driver_open demo_rt"

definition driver_awaiting :: "(unit, InMemoryDurableStore) DriverSystem" where
  "driver_awaiting = owner_turn demo_ops (handle_wake driver_demo)"

definition driver_queued :: "(unit, InMemoryDurableStore) DriverSystem" where
  "driver_queued = handle_shutdown (handle_drain_execution driver_awaiting)"

definition driver_exit :: "(unit, InMemoryDurableStore) DriverSystem" where
  "driver_exit = serve demo_ops (replicate 5 (Inr Succeeded)) driver_queued"

text \<open>The drains at once, for evaluation.\<close>

lemma drain_code [code]:
  "drain_lossless b = (b\<lparr>ls_items := []\<rparr>, ls_items b)"
  "drain_coalescing c = (c\<lparr>cb_items := []\<rparr>, cb_items c)"
  "drain_lossy y = (y\<lparr>ly_items := []\<rparr>, ly_items y)"
  using lossless.drain_correct [of b] coalescing.drain_correct [of c] lossy.drain_correct [of y]
  by (auto intro: LosslessBuffer.equality CoalescingBuffer.equality LossyBuffer.equality)

lemma driver_evaluation:
  "let rt = demo_rt; sys = handle_shutdown (handle_drain_execution (owner_turn demo_ops (handle_wake (driver_open rt))));
       sys' = serve demo_ops (replicate 5 (Inr Succeeded)) sys
   in rt_pending_started rt = None \<and> buffered_items rt = [] \<and> next_number (rt_execution_sequencer rt) = 1 \<and>
     open_rounds sys = 5 \<and> map eq_operation_id (adapter_requests (sy_log sys)) = [demo_operation] \<and>
     sy_owner sys' = Exited CleanShutdown \<and> length (sy_channels sys') = 3 \<and>
     completed_tasks (mb_shutdown_execution (sy_mailbox sys')) = [Id ''a''] \<and>
     started_attempts (delivered_items (sy_log sys')) = [AttemptId (Id ''run-attempt-1'')] \<and>
     dv_pending_lifecycle (sy_driver sys') = None \<and>
     next_number (rt_execution_sequencer (dv_runtime (sy_driver sys'))) = 3"
  by code_simp

lemmas driver_facts = driver_evaluation [unfolded Let_def, folded driver_demo_def, folded driver_awaiting_def,
  folded driver_queued_def, folded driver_exit_def]

lemma driver_demo_steps:
  "driver_steps demo_ops (driver_open demo_rt) driver_queued" "driver_steps demo_ops (driver_open demo_rt) driver_exit"
proof -
  have woken: "driver_step demo_ops driver_demo (handle_wake driver_demo)"
    unfolding handle_wake_def by (rule driver_step.submitted) simp
  moreover have "sy_owner (handle_wake driver_demo) = AtMailbox" "sy_scheduled (handle_wake driver_demo)"
    by (simp_all add: driver_demo_def driver_open_def handle_wake_def handle_submit_def mailbox_submit_def mailbox_new_def Let_def)
  then have turned: "driver_step demo_ops (handle_wake driver_demo) driver_awaiting"
    unfolding driver_awaiting_def by (rule driver_step.turned)
  moreover have "driver_step demo_ops driver_awaiting (handle_drain_execution driver_awaiting)"
    unfolding handle_drain_execution_def by (rule driver_step.submitted) simp
  moreover have "driver_step demo_ops (handle_drain_execution driver_awaiting) driver_queued"
    unfolding driver_queued_def handle_shutdown_def by (rule driver_step.submitted) simp
  ultimately show queued: "driver_steps demo_ops (driver_open demo_rt) driver_queued"
    unfolding driver_demo_def by (meson r_into_rtranclp rtranclp.rtrancl_into_rtrancl)
  have "driver_steps demo_ops driver_queued driver_exit"
    unfolding driver_exit_def using serve_done [OF driver_steps_ok [OF queued]] driver_facts by simp
  then show "driver_steps demo_ops (driver_open demo_rt) driver_exit" using queued by (rule rtranclp_trans [rotated])
qed

section \<open>Replies\<close>



text \<open>
  C8: Every accepted command is served. From any state a driver can reach, as soon as the adapter
  answers what it is asked, the owner needs at most two rounds for each queued command, and then
  every channel open at the start has its reply, whatever the answers and whatever the store does.
\<close>
theorem driver_serves_every_command:
  assumes "driver_steps ops (driver_open rt) sys"
    and "2 * length (mb_commands (sy_mailbox sys)) + 1 \<le> length outcomes"
  shows "driver_steps ops sys (serve ops outcomes sys) \<and>
    mset (replied_channels (sy_log (serve ops outcomes sys))) = mset [0..<length (sy_channels sys)]"
proof -
  have ok: "driver_ok sys" by (rule driver_steps_ok [OF assms(1)])
  have "open_rounds sys \<le> length outcomes" using assms(2) owed_le_one [of "sy_owner sys"] by (simp add: open_rounds_def)
  note s = serve_done [OF ok this, of ops]
  have "driver_ok (serve ops outcomes sys)" using driver_steps_ok assms(1) s by (meson rtranclp_trans)
  then show ?thesis using s by (simp add: driver_ok_def open_rounds_def queued_channels_def)
qed

theorem driver_serves_every_command_witness:
  "mset (replied_channels (sy_log (serve demo_ops (replicate 5 (Inr Succeeded)) driver_queued))) = mset [0..<length (sy_channels driver_queued)]"
proof -
  have "2 * length (mb_commands (sy_mailbox driver_queued)) + 1 \<le> length (replicate 5 (Inr Succeeded :: EffectDispatchError + KnownEffectOutcome))"
    using driver_facts by (simp add: open_rounds_def)
  then show ?thesis using driver_serves_every_command [OF driver_demo_steps(1)] by blast
qed

section \<open>Lifecycle items\<close>



section \<open>The adapter\<close>

text \<open>
  C5: The adapter is called only for dispatches that are already durable. In every history of a
  run and of its driver, for every operation, the attempts dispatched before the driver opened
  followed by the attempts the adapter was asked to execute, in order, are among the durable
  dispatches of the operation, in order; every request names the run, the task and the semantics
  of the durable intent, and an attempt admitted for this task and operation. So for a
  non-idempotent operation the adapter is called at most once, and not at all when it had been
  dispatched before.
\<close>
theorem driver_requests_dispatched:
  assumes host: "runtime_host enc ops ok runs" and history: "run_history ops ok rt"
    and steps: "driver_steps ops (driver_open rt) sys"
  shows "\<exists>s. runs (rt_store (dv_runtime (sy_driver sys))) (rt_run_id rt) = Some s \<and>
    (\<forall>x. subseq (attempts_entry (rt_journal rt) x @ requested_attempts x (sy_log sys)) (map dr_attempt_id (dispatches_of s x))) \<and>
    (\<forall>q\<in>set (adapter_requests (sy_log sys)). eq_run_id q = rt_run_id rt \<and>
       (\<exists>i adm. ds_intent s (eq_operation_id q) = Some i \<and> eq_task_id q = ei_task_id i \<and> eq_semantics q = ei_semantics i \<and>
          fmlookup (ds_admissions s) (eq_attempt_id q) = Some adm \<and> aa_task_id adm = eq_task_id q \<and>
          aa_operation_id adm = Some (eq_operation_id q))) \<and>
    (\<forall>x i. ds_intent s x = Some i \<longrightarrow> ei_semantics i = NonIdempotent \<longrightarrow>
       length (attempts_entry (rt_journal rt) x) + length (requested_attempts x (sy_log sys)) \<le> 1)"
proof -
  let ?rt = "dv_runtime (sy_driver sys)"
  obtain s where s: "runs (rt_store ?rt) (rt_run_id ?rt) = Some s" and view: "runtime_view enc ?rt s"
    using runtime_host.history_inv [OF host driver_steps_history [OF steps history]] by (auto simp: runtime_inv_def)
  have views: "journal_views (rt_journal ?rt) s" using view by (simp add: runtime_view_def journal_mirror_def)
  have reqs: "rt_run_id ?rt = rt_run_id rt" "\<And>q. q \<in> set (adapter_requests (sy_log sys)) \<Longrightarrow> names_intent ?rt q"
    "\<And>x. subseq (attempts_entry (rt_journal rt) x @ requested_attempts x (sy_log sys)) (map dr_attempt_id (dispatches_of s x))"
    using driver_steps_requests(1) [OF steps] views by (auto simp: requests_ok_def Let_def list_all_iff journal_views_def)
  have "\<exists>i adm. ds_intent s (eq_operation_id q) = Some i \<and> eq_task_id q = ei_task_id i \<and> eq_semantics q = ei_semantics i \<and>
      fmlookup (ds_admissions s) (eq_attempt_id q) = Some adm \<and> aa_task_id adm = eq_task_id q \<and>
      aa_operation_id adm = Some (eq_operation_id q)" if q: "q \<in> set (adapter_requests (sy_log sys))" for q
  proof -
    obtain i where i: "ds_intent s (eq_operation_id q) = Some i" "eq_task_id q = ei_task_id i" "eq_semantics q = ei_semantics i"
      using reqs(2) [OF q] views by (auto simp: names_intent_def journal_views_def ds_intent_def)
    have "eq_attempt_id q \<in> set (requested_attempts (eq_operation_id q) (sy_log sys))" using q by (simp add: requested_attempts_def)
    then have "eq_attempt_id q \<in> set (map dr_attempt_id (dispatches_of s (eq_operation_id q)))"
      using list_emb_set [OF reqs(3) [of "eq_operation_id q"]] by auto
    then obtain d where d: "d \<in> set (ds_dispatch_history s)" "dr_operation_id d = eq_operation_id q" "dr_attempt_id d = eq_attempt_id q"
      by (auto simp: dispatches_of_def)
    then have "dispatch_ok s d" using view_lineage [OF view] by (auto simp: lineage_def list_all_iff)
    then show ?thesis using i d by (auto simp: dispatch_ok_def ds_intent_def)
  qed
  moreover have "length (attempts_entry (rt_journal rt) x) + length (requested_attempts x (sy_log sys)) \<le> 1"
    if "ds_intent s x = Some i" "ei_semantics i = NonIdempotent" for x i
  proof -
    have "length (dispatches_of s x) \<le> 1" using view that by (auto simp: runtime_view_def dispatched_once_def ds_intent_def)
    then show ?thesis using list_emb_length [OF reqs(3) [of x]] by simp
  qed
  ultimately show ?thesis using s reqs by (auto simp: names_intent_def)
qed

theorem driver_requests_dispatched_witness:
  "\<exists>s q. adapter_requests (sy_log driver_queued) = [q] \<and> eq_operation_id q = demo_operation \<and>
     fmlookup (im_runs (rt_store (dv_runtime (sy_driver driver_queued)))) (rt_run_id demo_rt) = Some s \<and>
     eq_attempt_id q \<in> set (map dr_attempt_id (dispatches_of s demo_operation))"
proof -
  obtain q where q: "adapter_requests (sy_log driver_queued) = [q]" "eq_operation_id q = demo_operation" using driver_facts by blast
  obtain s where s: "fmlookup (im_runs (rt_store (dv_runtime (sy_driver driver_queued)))) (rt_run_id demo_rt) = Some s"
    and sub: "subseq (attempts_entry (rt_journal demo_rt) demo_operation @ requested_attempts demo_operation (sy_log driver_queued))
      (map dr_attempt_id (dispatches_of s demo_operation))"
    using driver_requests_dispatched [OF demo_host demo_history driver_demo_steps(1)] by blast
  have "eq_attempt_id q \<in> set (map dr_attempt_id (dispatches_of s demo_operation))"
    using list_emb_set [OF sub, of "eq_attempt_id q"] q by (auto simp: requested_attempts_def)
  then show ?thesis using q s by blast
qed

section \<open>The end of a driver\<close>

text \<open>
  C9: The status of an exit describes the durable work that is left. When the owner has returned
  from a shutdown, in every history, its status is the gravest of: an unknown outcome of a
  non-idempotent effect, an unknown outcome of an idempotent one, an undispatched effect of a
  task not cancelled, a failure; each with the first such operation; and clean when there is
  none. Every task of the workflow whose effect is known to have succeeded is completed, and no
  lifecycle item is left in the released runtime or held back.
\<close>
theorem driver_exit_reports:
  assumes "runtime_host enc ops ok runs" and history: "run_history ops ok rt"
    and steps: "driver_steps ops (driver_open rt) sys" and exit: "sy_owner sys = Exited status"
  shows "undrained (sy_driver sys) = [] \<and>
    (let rt' = dv_runtime (sy_driver sys) in
     \<exists>s. runs (rt_store rt') (rt_run_id rt') = Some s \<and> status = shutdown_status_spec s \<and>
       (\<forall>x i. ds_intent s x = Some i \<longrightarrow> effect_state s x = OutcomeKnown Succeeded \<longrightarrow>
          graph_task (rt_workflow rt') (ei_task_id i) \<noteq> None \<longrightarrow> graph_is_completed (rt_workflow rt') (ei_task_id i)))"
proof -
  obtain d where d: "run_history ops ok (dv_runtime d)" "shut_down ops d (sy_driver sys) status"
    using driver_steps_exited [OF steps history] exit by (auto simp: exited_ok_def)
  then have "undrained (sy_driver sys) = []" by (simp add: shut_down_def undrained_def)
  then show ?thesis using runtime_host.exit_facts [OF assms(1) d] by (simp add: Let_def)
qed

theorem driver_exit_reports_witness:
  "\<exists>s. fmlookup (im_runs (rt_store (dv_runtime (sy_driver driver_exit)))) (rt_run_id (dv_runtime (sy_driver driver_exit))) = Some s \<and>
     shutdown_status_spec s = CleanShutdown \<and> undrained (sy_driver driver_exit) = []"
proof -
  have "sy_owner driver_exit = Exited CleanShutdown" using driver_facts by blast
  then show ?thesis using driver_exit_reports [OF demo_host demo_history driver_demo_steps(2)] by (auto simp: Let_def)
qed

text \<open>
  C19: Nothing but a drop ends an owner without a shutdown. In every history the owner that takes
  a command is never unwound: the mailbox never reports a close to \<^verbatim>\<open>run\<close>, so that its
  \<^verbatim>\<open>expect\<close> holds, and no operation of the runtime panics; and the owner that gets its answer
  from the adapter goes back to the mailbox.
\<close>
theorem driver_owner_survives:
  assumes "runtime_host enc ops ok runs" and "run_history ops ok rt" and "driver_steps ops (driver_open rt) sys"
  shows "(sy_owner sys = AtMailbox \<longrightarrow> sy_owner (owner_turn ops sys) \<noteq> Gone) \<and>
    (\<forall>reply q answer. sy_owner sys = AwaitingEffect reply q \<longrightarrow> sy_owner (owner_resume ops answer sys) = AtMailbox)"
proof (intro conjI impI allI)
  have history: "run_history ops ok (dv_runtime (sy_driver sys))" by (rule driver_steps_history [OF assms(3,2)])
  show "sy_owner (owner_turn ops sys) \<noteq> Gone" if at: "sy_owner sys = AtMailbox"
  proof (cases "mb_commands (sy_mailbox sys)")
    case Nil
    have "\<not> mb_closed (sy_mailbox sys)" using driver_steps_ok [OF assms(3)] at by (simp add: driver_ok_def open_mailbox_def)
    then show ?thesis using Nil at by (simp add: owner_turn_def mailbox_next_def)
  next
    case (Cons c cs)
    then show ?thesis
      using runtime_host.run_command_survives [OF assms(1) history, of "(sy_mailbox sys)\<lparr>mb_commands := cs\<rparr>" c]
      by (cases "run_command ops ((sy_mailbox sys)\<lparr>mb_commands := cs\<rparr>) (sy_driver sys) c") (simp add: owner_turn_def mailbox_next_def)
  qed
  show "sy_owner (owner_resume ops answer sys) = AtMailbox" if "sy_owner sys = AwaitingEffect reply q" for reply q answer
    using answer_command_survives [OF dispatch_end_no_panic,
        where mb = "sy_mailbox sys" and reply = reply and wrap = DriveValue, of ops "sy_driver sys" q answer] that
    by (cases "answer_command (sy_mailbox sys) reply DriveValue (dispatch_end ops (sy_driver sys) q answer)") (simp add: owner_resume_def)
qed

theorem driver_owner_survives_witness:
  "sy_owner (owner_turn demo_ops driver_demo) \<noteq> Gone"
  using driver_owner_survives [OF demo_host demo_history rtranclp.rtrancl_refl [of "driver_step demo_ops"]]
  by (simp add: driver_demo_def driver_open_def)

end
