(* ===== verification/Spec2Isabelle.thy ===== *)
theory Spec2Isabelle
  imports
    Workflow_Properties
    Execution_Properties
    Capability_Properties
    Recovery_Properties
    Physical_Properties
    Definition_Properties
    Composition_Properties
    Loader_Properties
    Runtime_Properties
    Plugin_Properties
    Driver_Properties
    Scope_Properties
begin

text \<open>
  A verification of Kernis.
\<close>

end
